(* ===== verification/Firmware_Prelude.thy ===== *)
theory Firmware_Prelude
  imports Main "HOL-Library.Word" "HOL-Library.Monad_Syntax"
begin

text \<open>
  Shared vocabulary of the development: the machine integers of the firmware (u8, u16, u32 of the
  STM32 headers), byte buffers whose out-of-range accesses are the value \<open>None\<close>, big-endian
  half words, runs of byte-driven state machines, and the lemmas the components share.
  The collection \<open>buf_simps\<close> rewrites checked accesses, \<open>half_simps\<close> half words.
\<close>

unbundle bit_operations_syntax

named_theorems buf_simps "checked buffer accesses"
named_theorems half_simps "half words and their bytes"

type_synonym u8 = "8 word"
type_synonym u16 = "16 word"
type_synonym u32 = "32 word"

section \<open>Checked buffers\<close>

text \<open>
  A C array is a list of fixed length; an access outside it is undefined behaviour in C and
  \<open>None\<close> here. Loops copy with an index or a moving pointer, both written as an offset.
\<close>

definition buf_get :: "'a list \<Rightarrow> nat \<Rightarrow> 'a option" where
  "buf_get b i = (if i < length b then Some (b ! i) else None)"

definition buf_set :: "'a list \<Rightarrow> nat \<Rightarrow> 'a \<Rightarrow> 'a list option" where
  "buf_set b i v = (if i < length b then Some (b[i := v]) else None)"

text \<open>Writing a whole list of values from an offset on, one element at a time.\<close>

fun buf_puts :: "'a list \<Rightarrow> nat \<Rightarrow> 'a list \<Rightarrow> 'a list option" where
  "buf_puts b i [] = Some b"
| "buf_puts b i (v # vs) = do { b' \<leftarrow> buf_set b i v; buf_puts b' (Suc i) vs }"

text \<open>Reading \<open>n\<close> consecutive elements from an offset on.\<close>

fun buf_gets :: "'a list \<Rightarrow> nat \<Rightarrow> nat \<Rightarrow> 'a list option" where
  "buf_gets b i 0 = Some []"
| "buf_gets b i (Suc n) = do { v \<leftarrow> buf_get b i; vs \<leftarrow> buf_gets b (Suc i) n; Some (v # vs) }"

lemma take_Suc_update: "i < length b \<Longrightarrow> take (Suc i) (b[i := x]) = take i b @ [x]"
  by (simp add: take_Suc_conv_app_nth)

lemma list_update_Cons_numeral [simp]:
  "(a # xs)[numeral k := x] = a # xs[pred_numeral k := x]"
  by (simp add: numeral_eq_Suc)

lemma buf_get_in [buf_simps, simp]: "i < length b \<Longrightarrow> buf_get b i = Some (b ! i)"
  by (simp add: buf_get_def)

lemma buf_set_in [buf_simps, simp]: "i < length b \<Longrightarrow> buf_set b i v = Some (b[i := v])"
  by (simp add: buf_set_def)

lemma buf_get_None_iff [simp]: "buf_get b i = None \<longleftrightarrow> length b \<le> i"
  by (simp add: buf_get_def)

lemma buf_set_None_iff [simp]: "buf_set b i v = None \<longleftrightarrow> length b \<le> i"
  by (simp add: buf_set_def)

lemma buf_get_Some_iff: "buf_get b i = Some v \<longleftrightarrow> i < length b \<and> v = b ! i"
  by (auto simp: buf_get_def)

lemma buf_set_Some_iff: "buf_set b i v = Some b' \<longleftrightarrow> i < length b \<and> b' = b[i := v]"
  by (auto simp: buf_set_def)

lemma buf_set_length: "buf_set b i v = Some b' \<Longrightarrow> length b' = length b"
  by (auto simp: buf_set_Some_iff)

lemma buf_puts_eq:
  "i + length vs \<le> length b \<Longrightarrow>
     buf_puts b i vs = Some (take i b @ vs @ drop (i + length vs) b)"
proof (induction vs arbitrary: b i)
  case Nil
  then show ?case by simp
next
  case (Cons v vs)
  then have "i < length b" by simp
  then have "take (Suc i) (b[i := v]) = take i b @ [v]"
    by (simp add: take_Suc_conv_app_nth)
  with Cons show ?case by simp
qed

lemma buf_puts_None: "length b < i + length vs \<Longrightarrow> vs \<noteq> [] \<Longrightarrow> buf_puts b i vs = None"
proof (induction vs arbitrary: b i)
  case Nil
  then show ?case by simp
next
  case (Cons v vs)
  show ?case
  proof (cases "i < length b \<and> vs \<noteq> []")
    case True
    with Cons show ?thesis by simp
  next
    case False
    with Cons.prems show ?thesis by (cases "vs = []") (auto simp: buf_set_def)
  qed
qed

lemma buf_puts_length: "buf_puts b i vs = Some b' \<Longrightarrow> length b' = length b"
  by (induction vs arbitrary: b i) (auto simp: bind_eq_Some_conv buf_set_Some_iff)

lemma buf_gets_eq: "i + n \<le> length b \<Longrightarrow> buf_gets b i n = Some (take n (drop i b))"
proof (induction n arbitrary: i)
  case 0
  then show ?case by simp
next
  case (Suc n)
  then show ?case by (simp add: Cons_nth_drop_Suc [symmetric])
qed

lemma buf_gets_length: "buf_gets b i n = Some vs \<Longrightarrow> length vs = n"
  by (induction n arbitrary: i vs) (auto simp: bind_eq_Some_conv)

section \<open>Half words and bytes\<close>

definition be16 :: "u8 \<Rightarrow> u8 \<Rightarrow> u16" where
  "be16 hi lo = push_bit 8 (ucast hi) OR ucast lo"

definition hi8 :: "u16 \<Rightarrow> u8" where
  "hi8 w = ucast (drop_bit 8 w)"

definition lo8 :: "u16 \<Rightarrow> u8" where
  "lo8 w = ucast w"

lemma unat_small_u16: "n < 65536 \<Longrightarrow> unat (word_of_nat n :: u16) = n"
  by (simp add: unsigned_of_nat take_bit_eq_mod)

lemma bit_be16: "bit (be16 h l) k \<longleftrightarrow> k < 16 \<and> (if k < 8 then bit l k else bit h (k - 8))"
  by (auto simp: be16_def bit_simps dest: bit_imp_le_length)

lemma bit_ucast_u8: "bit (ucast (b :: u8) :: u16) n \<longleftrightarrow> n < 8 \<and> bit b n"
  by (auto simp: bit_simps dest: bit_imp_le_length)

lemma hi8_be16 [half_simps, simp]: "hi8 (be16 h l) = h"
  by (rule bit_word_eqI) (auto simp: hi8_def be16_def bit_simps dest: bit_imp_le_length)

lemma lo8_be16 [half_simps, simp]: "lo8 (be16 h l) = l"
  by (rule bit_word_eqI) (auto simp: lo8_def be16_def bit_simps)

lemma be16_hi8_lo8 [half_simps, simp]: "be16 (hi8 w) (lo8 w) = w"
proof (rule bit_word_eqI)
  fix n assume n: "n < LENGTH(16)"
  show "bit (be16 (hi8 w) (lo8 w)) n = bit w n"
  proof (cases "n < 8")
    case True
    then show ?thesis by (simp add: hi8_def lo8_def be16_def bit_simps)
  next
    case False
    have "n - 8 < 8" using n by simp
    with n False show ?thesis by (simp add: hi8_def lo8_def be16_def bit_simps)
  qed
qed

lemma be16_eq_iff: "be16 h l = w \<longleftrightarrow> h = hi8 w \<and> l = lo8 w"
  by auto

lemma unat_hi8: "unat (hi8 w) = unat w div 256"
proof -
  have "unat w div 256 < 256"
    using unsigned_less [where ?'a = nat, of w] by (simp add: less_mult_imp_div_less)
  then show ?thesis
    by (simp add: hi8_def unsigned_ucast_eq unsigned_drop_bit_eq drop_bit_eq_div
        take_bit_eq_mod unat_div_distrib)
qed

lemma unat_lo8: "unat (lo8 w) = unat w mod 256"
  by (simp add: lo8_def unsigned_ucast_eq take_bit_eq_mod)

lemma unat_be16 [half_simps]: "unat (be16 h l) = 256 * unat h + unat l"
proof -
  have "unat (be16 h l) = 256 * (unat (be16 h l) div 256) + unat (be16 h l) mod 256"
    by simp
  also have "\<dots> = 256 * unat (hi8 (be16 h l)) + unat (lo8 (be16 h l))"
    by (simp only: unat_hi8 unat_lo8)
  finally show ?thesis by simp
qed

section \<open>Runs of a state machine with undefined steps\<close>

text \<open>
  A handler that may leave its buffers is a step into an option; a run stops at the first
  undefined step.
\<close>

fun run_steps :: "('s \<Rightarrow> 'e \<Rightarrow> 's option) \<Rightarrow> 's \<Rightarrow> 'e list \<Rightarrow> 's option" where
  "run_steps step s [] = Some s"
| "run_steps step s (e # es) = do { s' \<leftarrow> step s e; run_steps step s' es }"

lemma run_steps_append:
  "run_steps step s (es @ fs) = do { s' \<leftarrow> run_steps step s es; run_steps step s' fs }"
  by (induction es arbitrary: s) (auto split: Option.bind_split)

text \<open>
  The contract of such a machine: from a state of the invariant, no admissible input leads to
  undefined behaviour and the invariant is kept. A client may then feed it any sequence of inputs
  that are admissible where they arrive.
\<close>

fun inputs_ok :: "('s \<Rightarrow> 'e \<Rightarrow> 's option) \<Rightarrow> ('s \<Rightarrow> 'e \<Rightarrow> bool) \<Rightarrow> 's \<Rightarrow> 'e list \<Rightarrow> bool" where
  "inputs_ok step ok s [] \<longleftrightarrow> True"
| "inputs_ok step ok s (e # es) \<longleftrightarrow>
    ok s e \<and> (case step s e of None \<Rightarrow> True | Some s' \<Rightarrow> inputs_ok step ok s' es)"

lemma inputs_ok_True [simp]: "inputs_ok step (\<lambda>_ _. True) s es"
  by (induction es arbitrary: s) (auto split: option.splits)

locale safe_machine =
  fixes step :: "'s \<Rightarrow> 'e \<Rightarrow> 's option"
    and inv :: "'s \<Rightarrow> bool"
    and ok :: "'s \<Rightarrow> 'e \<Rightarrow> bool"
  assumes step_safe: "inv s \<Longrightarrow> ok s e \<Longrightarrow> \<exists>s'. step s e = Some s' \<and> inv s'"
begin

lemma run_safe:
  "inv s \<Longrightarrow> inputs_ok step ok s es \<Longrightarrow> \<exists>s'. run_steps step s es = Some s' \<and> inv s'"
proof (induction es arbitrary: s)
  case Nil
  then show ?case by simp
next
  case (Cons e es)
  then obtain t where "step s e = Some t" "inv t" using step_safe [of s e] by auto
  with Cons show ?case by simp
qed

lemma run_inv: "inv s \<Longrightarrow> inputs_ok step ok s es \<Longrightarrow> run_steps step s es = Some s' \<Longrightarrow> inv s'"
  using run_safe [of s es] by auto

end

text \<open>
  The contract of a framing: what is sealed is accepted and carries its payload, and nothing else
  is accepted, so that an accepted frame is determined by its payload.
\<close>

locale frame_code =
  fixes seal :: "'b list \<Rightarrow> 'b list"
    and accept :: "'b list \<Rightarrow> bool"
    and payload :: "'b list \<Rightarrow> 'b list"
    and wf :: "'b list \<Rightarrow> bool"
  assumes accept_seal: "wf p \<Longrightarrow> accept (seal p)"
    and payload_seal: "wf p \<Longrightarrow> payload (seal p) = p"
    and accept_sealed: "accept f \<Longrightarrow> f = seal (payload f)"
begin

lemma seal_inj: "wf p \<Longrightarrow> wf q \<Longrightarrow> seal p = seal q \<longleftrightarrow> p = q"
  by (metis payload_seal)

lemma tampered_trailer: "accept f \<Longrightarrow> payload g = payload f \<Longrightarrow> g \<noteq> f \<Longrightarrow> \<not> accept g"
  by (metis accept_sealed)

end

end
