(* ===== verification/Device_Data.thy ===== *)
theory Device_Data
  imports Firmware_Prelude
begin

text \<open>
  The working data of the air cleaner: the union \<open>DEVICE_WORK_TYPE\<close> of
  \<open>miotlink/wifi_mod_uart.h\<close>, as a record with the source's field names and as its byte view, the array
  \<open>device_data\<close> of 27 bytes (little-endian Cortex-M3, half words aligned). The struct ends with one byte of
  padding, so that the union has 28 bytes, \<open>union_bytes\<close>; the loops of the source that run to
  \<open>sizeof(struct __para_type)\<close> go one past the array with their index 27, to this padding byte. The fault bits, and the byte swap \<open>sw16\<close> applied to the sensor registers.
\<close>

section \<open>The union\<close>

record para_type =
  device_power_state :: u8
  device_mode :: u8
  wind_speed_state :: u8
  high_pressur_state :: u8
  pht_work_state :: u8
  timing_state :: u8
  house1_pm2_5 :: u16
  house1_co2 :: u16
  house2_pm2_5 :: u16
  house2_co2 :: u16
  house3_pm2_5 :: u16
  house3_co2 :: u16
  house4_pm2_5 :: u16
  house4_co2 :: u16
  house5_pm2_5 :: u16
  house5_co2 :: u16
  fault_state :: u8
  para_pad :: u8

definition device_data :: "para_type \<Rightarrow> u8 list" where
  "device_data p =
    [device_power_state p, device_mode p, wind_speed_state p,
     high_pressur_state p, pht_work_state p, timing_state p,
     lo8 (house1_pm2_5 p), hi8 (house1_pm2_5 p), lo8 (house1_co2 p), hi8 (house1_co2 p),
     lo8 (house2_pm2_5 p), hi8 (house2_pm2_5 p), lo8 (house2_co2 p), hi8 (house2_co2 p),
     lo8 (house3_pm2_5 p), hi8 (house3_pm2_5 p), lo8 (house3_co2 p), hi8 (house3_co2 p),
     lo8 (house4_pm2_5 p), hi8 (house4_pm2_5 p), lo8 (house4_co2 p), hi8 (house4_co2 p),
     lo8 (house5_pm2_5 p), hi8 (house5_pm2_5 p), lo8 (house5_co2 p), hi8 (house5_co2 p),
     fault_state p]"

definition union_bytes :: "para_type \<Rightarrow> u8 list" where
  "union_bytes p = device_data p @ [para_pad p]"

definition para_of_bytes :: "u8 list \<Rightarrow> para_type" where
  "para_of_bytes b =
    \<lparr> device_power_state = b ! 0, device_mode = b ! 1, wind_speed_state = b ! 2,
      high_pressur_state = b ! 3, pht_work_state = b ! 4, timing_state = b ! 5,
      house1_pm2_5 = be16 (b ! 7) (b ! 6), house1_co2 = be16 (b ! 9) (b ! 8),
      house2_pm2_5 = be16 (b ! 11) (b ! 10), house2_co2 = be16 (b ! 13) (b ! 12),
      house3_pm2_5 = be16 (b ! 15) (b ! 14), house3_co2 = be16 (b ! 17) (b ! 16),
      house4_pm2_5 = be16 (b ! 19) (b ! 18), house4_co2 = be16 (b ! 21) (b ! 20),
      house5_pm2_5 = be16 (b ! 23) (b ! 22), house5_co2 = be16 (b ! 25) (b ! 24),
      fault_state = b ! 26, para_pad = b ! 27 \<rparr>"

text \<open>An assignment \<open>device_data[i] = v\<close>; the index 27 of the loops over the struct is the padding.\<close>

definition set_device_data :: "nat \<Rightarrow> u8 \<Rightarrow> para_type \<Rightarrow> para_type option" where
  "set_device_data i v p = do { b \<leftarrow> buf_set (union_bytes p) i v; Some (para_of_bytes b) }"

lemma length_device_data [simp]: "length (device_data p) = 27"
  by (simp add: device_data_def)

lemma length_union_bytes [simp]: "length (union_bytes p) = 28"
  by (simp add: union_bytes_def)

lemma take_union_bytes [simp]: "n \<le> 27 \<Longrightarrow> take n (union_bytes p) = take n (device_data p)"
  by (simp add: union_bytes_def)

lemma para_of_bytes_union_bytes [simp]: "para_of_bytes (union_bytes p) = p"
  by (simp add: para_of_bytes_def union_bytes_def device_data_def eval_nat_numeral)

lemma list28_cases:
  assumes "length b = 28"
  obtains b0 b1 b2 b3 b4 b5 b6 b7 b8 b9 b10 b11 b12 b13 b14 b15 b16 b17 b18 b19 b20 b21 b22 b23
    b24 b25 b26 b27
  where "b = [b0, b1, b2, b3, b4, b5, b6, b7, b8, b9, b10, b11, b12, b13, b14, b15, b16, b17,
    b18, b19, b20, b21, b22, b23, b24, b25, b26, b27]"
  using assms by (auto simp: length_Suc_conv eval_nat_numeral)

lemma union_bytes_para_of_bytes [simp]: "length b = 28 \<Longrightarrow> union_bytes (para_of_bytes b) = b"
  by (erule list28_cases) (simp add: para_of_bytes_def union_bytes_def device_data_def)

lemma device_data_para_of_bytes [simp]: "length b = 28 \<Longrightarrow> device_data (para_of_bytes b) = take 27 b"
  using take_union_bytes [of 27 "para_of_bytes b"] by simp

lemma union_bytes_inj: "union_bytes p = union_bytes q \<longleftrightarrow> p = q"
  by (metis para_of_bytes_union_bytes)

lemma set_device_data_view:
  "i < 28 \<Longrightarrow> set_device_data i v p = Some (para_of_bytes ((union_bytes p)[i := v]))"
  by (simp add: set_device_data_def)

section \<open>Fault bits\<close>

text \<open>The bit numbers of the header of the control board.\<close>

abbreviation (input) FAULT_ESD_BIT :: u8 where "FAULT_ESD_BIT \<equiv> 0"
abbreviation (input) FAULT_MOTOR_BIT :: u8 where "FAULT_MOTOR_BIT \<equiv> 1"
abbreviation (input) FAULT_PHT_BIT :: u8 where "FAULT_PHT_BIT \<equiv> 2"
abbreviation (input) FAULT_CLEAN_BIT :: u8 where "FAULT_CLEAN_BIT \<equiv> 3"
abbreviation (input) FAULT_RUN_BIT :: u8 where "FAULT_RUN_BIT \<equiv> 4"
abbreviation (input) FAULT_WIND_BIT :: u8 where "FAULT_WIND_BIT \<equiv> 5"
abbreviation (input) FAULT_RESET_WIFI_BIT :: u8 where "FAULT_RESET_WIFI_BIT \<equiv> 6"

text \<open>
  The C expressions are promoted to a 32-bit \<open>int\<close> and truncated to the byte \<open>fault_state\<close>.
\<close>

definition fault_set_bit :: "u8 \<Rightarrow> u8 \<Rightarrow> para_type \<Rightarrow> para_type" where
  "fault_set_bit fault_type val p =
    (if val \<noteq> 0
     then p\<lparr>fault_state := ucast ((ucast (fault_state p) :: u32) OR push_bit (unat fault_type) 1)\<rparr>
     else p\<lparr>fault_state := ucast ((ucast (fault_state p) :: u32) AND NOT (push_bit (unat fault_type) 1))\<rparr>)"

definition fault_get_bit :: "u8 \<Rightarrow> para_type \<Rightarrow> u8" where
  "fault_get_bit fault_type p = ucast ((ucast (fault_state p) :: u32) AND push_bit (unat fault_type) 1)"

lemma and_push_bit_1: "w AND push_bit n (1 :: 'a :: len word) = (if bit w n then push_bit n 1 else 0)"
  by (rule bit_word_eqI) (auto simp: bit_simps)

lemma fault_get_bit_iff:
  assumes "unat t < 8" shows "fault_get_bit t p \<noteq> 0 \<longleftrightarrow> bit (fault_state p) (unat t)"
proof -
  have "bit (ucast (push_bit (unat t) (1 :: u32)) :: u8) (unat t)"
    using assms by (simp add: bit_simps)
  then have "(ucast (push_bit (unat t) (1 :: u32)) :: u8) \<noteq> 0" by auto
  with assms show ?thesis
    by (simp add: fault_get_bit_def and_push_bit_1 bit_simps del: push_bit_of_1)
qed

lemma bit_fault_set_bit:
  assumes "n < 8"
  shows "bit (fault_state (fault_set_bit t v p)) n \<longleftrightarrow>
    (if n = unat t then v \<noteq> 0 else bit (fault_state p) n)"
  using assms by (auto simp: fault_set_bit_def bit_simps)

lemma fault_set_bit_other [simp]:
  "device_power_state (fault_set_bit t v p) = device_power_state p"
  "device_mode (fault_set_bit t v p) = device_mode p"
  "wind_speed_state (fault_set_bit t v p) = wind_speed_state p"
  "high_pressur_state (fault_set_bit t v p) = high_pressur_state p"
  "pht_work_state (fault_set_bit t v p) = pht_work_state p"
  "timing_state (fault_set_bit t v p) = timing_state p"
  by (simp_all add: fault_set_bit_def)

section \<open>The byte swap of the sensor registers\<close>

text \<open>
  The macro \<open>sw16\<close> works on \<open>short\<close>: the high byte is masked with the negative
  \<open>(short)0xff00\<close> and shifted right arithmetically as an \<open>int\<close>.
\<close>

definition sw16 :: "u16 \<Rightarrow> u16" where
  "sw16 x = ucast (push_bit 8 ((scast x :: u32) AND 0xFF)
                   OR signed_drop_bit 8 ((scast x :: u32) AND scast (0xFF00 :: u16)))"

text \<open>The macro \<open>byte_2_to_short\<close> and the two bytes of a little-endian field.\<close>

definition byte_2_to_short :: "u8 \<Rightarrow> u8 \<Rightarrow> u16" where
  "byte_2_to_short h l = be16 h l"

lemma sw16_masks:
  "(0xFF :: u32) = mask 8" "(0xFF :: u8) = mask 8" "scast (0xFF00 :: u16) = (NOT (mask 8) :: u32)"
  by (simp_all add: mask_eq_exp_minus_1)

lemma sw16_eq: "sw16 x = (if bit x 15 then be16 0xFF (hi8 x) else be16 (lo8 x) (hi8 x))"
proof (rule bit_word_eqI)
  fix n assume n: "n < LENGTH(16)"
  consider "n < 7" | "n = 7" | "8 \<le> n" by linarith
  then show "bit (sw16 x) n =
      bit (if bit x 15 then be16 0xFF (hi8 x) else be16 (lo8 x) (hi8 x)) n"
    by cases (use n in \<open>auto simp: sw16_def be16_def hi8_def lo8_def sw16_masks bit_simps\<close>)
qed

section \<open>Two views, independent bits\<close>

lemma union_views:
  assumes "length bytes = 28" "i < 28"
  shows "para_of_bytes (union_bytes p) = p \<and> union_bytes (para_of_bytes bytes) = bytes \<and>
    (\<exists>q. set_device_data i v p = Some q \<and> union_bytes q = (union_bytes p)[i := v])"
  using assms by (simp add: set_device_data_view)

lemma fault_bits_independent:
  assumes "unat t < 8" "unat u < 8"
  shows "fault_get_bit u (fault_set_bit t v p) \<noteq> 0 \<longleftrightarrow> (if u = t then v \<noteq> 0 else fault_get_bit u p \<noteq> 0)"
  using assms by (simp add: fault_get_bit_iff bit_fault_set_bit flip: word_unat_eq_iff)

end
