(* ===== verification/Spi_Flash.thy ===== *)
theory Spi_Flash
  imports Firmware_Prelude
begin

text \<open>
  The serial flash driver \<open>drivers/bsp_spi_flash.c\<close>. The SPI peripheral and the M25PE80 chip are
  not code of the repository: they are the parameter \<open>'c spi_bus\<close> (chip select and the
  exchange of one byte). The driver's functions are the byte sequences they put on the bus; a read
  beyond a caller's buffer and a status poll that exhausts its fuel are \<open>None\<close>.
  \<open>pe_chip\<close> collects what the data sheet promises of single commands; the refinement lemmas
  show that the buffered operations then implement the abstract memory \<open>flash_put\<close>/\<open>flash_get\<close>,
  whatever the alignment and length.
\<close>

section \<open>The abstract memory\<close>

definition flash_put :: "(nat \<Rightarrow> u8) \<Rightarrow> nat \<Rightarrow> u8 list \<Rightarrow> nat \<Rightarrow> u8" where
  "flash_put m a vs i = (if a \<le> i \<and> i < a + length vs then vs ! (i - a) else m i)"

definition flash_get :: "(nat \<Rightarrow> u8) \<Rightarrow> nat \<Rightarrow> nat \<Rightarrow> u8 list" where
  "flash_get m a n = map m [a ..< a + n]"

lemma flash_put_Nil [simp]: "flash_put m a [] = m"
  by (rule ext) (auto simp: flash_put_def)

lemma flash_put_append: "flash_put (flash_put m a xs) (a + length xs) ys = flash_put m a (xs @ ys)"
  by (rule ext) (auto simp: flash_put_def nth_append)

lemma flash_put_next:
  assumes "off + i \<le> length b"
  shows "flash_put (flash_put m a (take i (drop off b))) (a + i) (take j (drop (off + i) b))
    = flash_put m a (take (i + j) (drop off b))"
  using flash_put_append [of m a "take i (drop off b)" "take j (drop (off + i) b)"] assms
  by (simp add: take_add add.commute)

lemma length_flash_get [simp]: "length (flash_get m a n) = n"
  by (simp add: flash_get_def)

lemma flash_get_Suc: "flash_get m a (Suc n) = m a # flash_get m (Suc a) n"
  by (simp add: flash_get_def upt_conv_Cons del: upt_Suc)

lemma flash_get_put: "flash_get (flash_put m a vs) a (length vs) = vs"
  by (rule nth_equalityI) (simp_all add: flash_get_def flash_put_def)

lemma flash_get_put_other:
  "a + n \<le> b \<or> b + length vs \<le> a \<Longrightarrow> flash_get (flash_put m b vs) a n = flash_get m a n"
  by (rule nth_equalityI) (auto simp: flash_get_def flash_put_def)

text \<open>The interface a caller of the flash relies on.\<close>

locale byte_store =
  fixes put :: "'m \<Rightarrow> nat \<Rightarrow> u8 list \<Rightarrow> 'm"
    and get :: "'m \<Rightarrow> nat \<Rightarrow> nat \<Rightarrow> u8 list"
  assumes get_put: "get (put m a vs) a (length vs) = vs"
    and get_put_other: "a + n \<le> b \<or> b + length vs \<le> a \<Longrightarrow> get (put m b vs) a n = get m a n"
begin

text \<open>A flagged record, as the parameter area is: the flag and the data come back.\<close>

lemma flagged_record:
  assumes "a + 1 \<le> b \<or> b + length vs \<le> a"
  shows "get (put (put m a [f]) b vs) a 1 = [f]"
    and "get (put (put m a [f]) b vs) b (length vs) = vs"
  using assms get_put [of m a "[f]"] get_put_other [of a 1 b vs "put m a [f]"]
  by (simp_all add: get_put)

end

interpretation flash: byte_store flash_put flash_get
  by unfold_locales (simp_all add: flash_get_put flash_get_put_other)

section \<open>The bus\<close>

record 'c spi_bus =
  CS_LOW :: "'c \<Rightarrow> 'c"
  CS_HIGH :: "'c \<Rightarrow> 'c"
  spi_xfer :: "u8 \<Rightarrow> 'c \<Rightarrow> u8 \<times> 'c"

definition SPI_FLASH_SendByte :: "'c spi_bus \<Rightarrow> u8 \<Rightarrow> 'c \<Rightarrow> u8 \<times> 'c" where
  "SPI_FLASH_SendByte bus byte c = spi_xfer bus byte c"

definition SPI_FLASH_ReadByte :: "'c spi_bus \<Rightarrow> 'c \<Rightarrow> u8 \<times> 'c" where
  "SPI_FLASH_ReadByte bus c = SPI_FLASH_SendByte bus 0xFF c"

text \<open>A sequence of \<open>SendByte\<close> calls whose replies are ignored, and one of dummy bytes.\<close>

fun send_bytes :: "'c spi_bus \<Rightarrow> u8 list \<Rightarrow> 'c \<Rightarrow> 'c" where
  "send_bytes bus [] c = c"
| "send_bytes bus (b # bs) c = send_bytes bus bs (snd (SPI_FLASH_SendByte bus b c))"

fun read_bytes :: "'c spi_bus \<Rightarrow> nat \<Rightarrow> 'c \<Rightarrow> u8 list \<times> 'c" where
  "read_bytes bus 0 c = ([], c)"
| "read_bytes bus (Suc n) c =
    (let (b, c1) = SPI_FLASH_ReadByte bus c; (bs, c2) = read_bytes bus n c1 in (b # bs, c2))"

lemma send_bytes_append: "send_bytes bus (xs @ ys) c = send_bytes bus ys (send_bytes bus xs c)"
  by (induction xs arbitrary: c) simp_all

text \<open>The three address bytes as the driver masks and shifts them.\<close>

definition address_bytes :: "u32 \<Rightarrow> u8 list" where
  "address_bytes a =
    [ucast (drop_bit 16 (a AND 0xFF0000)), ucast (drop_bit 8 (a AND 0xFF00)), ucast (a AND 0xFF)]"

section \<open>The commands\<close>

definition SPI_FLASH_WriteEnable :: "'c spi_bus \<Rightarrow> 'c \<Rightarrow> 'c" where
  "SPI_FLASH_WriteEnable bus c = CS_HIGH bus (send_bytes bus [0x06] (CS_LOW bus c))"

fun wait_write_loop :: "'c spi_bus \<Rightarrow> nat \<Rightarrow> 'c \<Rightarrow> 'c option" where
  "wait_write_loop bus 0 c = None"
| "wait_write_loop bus (Suc k) c =
    (let (FLASH_Status, c') = SPI_FLASH_SendByte bus 0xFF c
     in if FLASH_Status AND 1 = 1 then wait_write_loop bus k c' else Some c')"

definition SPI_FLASH_WaitForWriteEnd :: "'c spi_bus \<Rightarrow> nat \<Rightarrow> 'c \<Rightarrow> 'c option" where
  "SPI_FLASH_WaitForWriteEnd bus fuel c = do {
     c' \<leftarrow> wait_write_loop bus fuel (send_bytes bus [0x05] (CS_LOW bus c));
     Some (CS_HIGH bus c') }"

definition SPI_FLASH_SectorErase :: "'c spi_bus \<Rightarrow> nat \<Rightarrow> u32 \<Rightarrow> 'c \<Rightarrow> 'c option" where
  "SPI_FLASH_SectorErase bus fuel SectorAddr c = do {
     c1 \<leftarrow> SPI_FLASH_WaitForWriteEnd bus fuel (SPI_FLASH_WriteEnable bus c);
     SPI_FLASH_WaitForWriteEnd bus fuel
       (CS_HIGH bus (send_bytes bus (0x20 # address_bytes SectorAddr) (CS_LOW bus c1))) }"

definition SPI_FLASH_PageErase :: "'c spi_bus \<Rightarrow> nat \<Rightarrow> u32 \<Rightarrow> 'c \<Rightarrow> 'c option" where
  "SPI_FLASH_PageErase bus fuel SectorAddr c = do {
     c1 \<leftarrow> SPI_FLASH_WaitForWriteEnd bus fuel (SPI_FLASH_WriteEnable bus c);
     SPI_FLASH_WaitForWriteEnd bus fuel
       (CS_HIGH bus (send_bytes bus (0x20 # address_bytes SectorAddr) (CS_LOW bus c1))) }"

definition SPI_FLASH_BulkErase :: "'c spi_bus \<Rightarrow> nat \<Rightarrow> 'c \<Rightarrow> 'c option" where
  "SPI_FLASH_BulkErase bus fuel c =
     SPI_FLASH_WaitForWriteEnd bus fuel
       (CS_HIGH bus (send_bytes bus [0xC7] (CS_LOW bus (SPI_FLASH_WriteEnable bus c))))"

text \<open>The loop \<open>while (NumByteToWrite--)\<close>, the pointer as an offset into the caller's buffer.\<close>

fun page_write_loop :: "'c spi_bus \<Rightarrow> u8 list \<Rightarrow> nat \<Rightarrow> nat \<Rightarrow> 'c \<Rightarrow> 'c option" where
  "page_write_loop bus buf off 0 c = Some c"
| "page_write_loop bus buf off (Suc n) c = do {
     b \<leftarrow> buf_get buf off;
     page_write_loop bus buf (Suc off) n (snd (SPI_FLASH_SendByte bus b c)) }"

definition SPI_FLASH_PageWrite ::
    "'c spi_bus \<Rightarrow> nat \<Rightarrow> u8 list \<Rightarrow> nat \<Rightarrow> u32 \<Rightarrow> u16 \<Rightarrow> 'c \<Rightarrow> 'c option" where
  "SPI_FLASH_PageWrite bus fuel buf off WriteAddr NumByteToWrite c = do {
     let c1 = CS_LOW bus (SPI_FLASH_WriteEnable bus c);
     let c2 = send_bytes bus (0x0A # address_bytes WriteAddr) c1;
     c3 \<leftarrow> page_write_loop bus buf off (if 256 < NumByteToWrite then 256 else unat NumByteToWrite) c2;
     SPI_FLASH_WaitForWriteEnd bus fuel (CS_HIGH bus c3) }"

text \<open>The loop \<open>while (NumOfPage--)\<close> of full pages: chip, offset and address after it.\<close>

fun full_pages_loop ::
    "'c spi_bus \<Rightarrow> nat \<Rightarrow> u8 list \<Rightarrow> nat \<Rightarrow> u32 \<Rightarrow> nat \<Rightarrow> 'c \<Rightarrow> ('c \<times> nat \<times> u32) option" where
  "full_pages_loop bus fuel buf off WriteAddr 0 c = Some (c, off, WriteAddr)"
| "full_pages_loop bus fuel buf off WriteAddr (Suc NumOfPage) c = do {
     c' \<leftarrow> SPI_FLASH_PageWrite bus fuel buf off WriteAddr 256 c;
     full_pages_loop bus fuel buf (off + 256) (WriteAddr + 256) NumOfPage c' }"

definition SPI_FLASH_BufferWrite ::
    "'c spi_bus \<Rightarrow> nat \<Rightarrow> u8 list \<Rightarrow> u32 \<Rightarrow> u16 \<Rightarrow> 'c \<Rightarrow> 'c option" where
  "SPI_FLASH_BufferWrite bus fuel buf WriteAddr NumByteToWrite c =
    (let Addr = ucast (WriteAddr mod 256) :: u8;
         count = word_of_nat (256 - unat Addr) :: u8;
         NumOfPage = ucast (NumByteToWrite div 256) :: u8;
         NumOfSingle = ucast (NumByteToWrite mod 256) :: u8
     in if Addr = 0 then
          (if NumOfPage = 0 then SPI_FLASH_PageWrite bus fuel buf 0 WriteAddr NumByteToWrite c
           else do {
             (c1, off, a) \<leftarrow> full_pages_loop bus fuel buf 0 WriteAddr (unat NumOfPage) c;
             SPI_FLASH_PageWrite bus fuel buf off a (ucast NumOfSingle) c1 })
        else if NumOfPage = 0 then
          (if count < NumOfSingle then
             (let temp = NumOfSingle - count in do {
                c1 \<leftarrow> SPI_FLASH_PageWrite bus fuel buf 0 WriteAddr (ucast count) c;
                SPI_FLASH_PageWrite bus fuel buf (unat count) (WriteAddr + ucast count) (ucast temp) c1 })
           else SPI_FLASH_PageWrite bus fuel buf 0 WriteAddr NumByteToWrite c)
        else
          (let n = NumByteToWrite - ucast count;
               NumOfPage = ucast (n div 256) :: u8;
               NumOfSingle = ucast (n mod 256) :: u8
           in do {
             c1 \<leftarrow> SPI_FLASH_PageWrite bus fuel buf 0 WriteAddr (ucast count) c;
             (c2, off, a) \<leftarrow> full_pages_loop bus fuel buf (unat count) (WriteAddr + ucast count)
                              (unat NumOfPage) c1;
             if NumOfSingle \<noteq> 0 then SPI_FLASH_PageWrite bus fuel buf off a (ucast NumOfSingle) c2
             else Some c2 }))"

text \<open>Reading stores the bytes into the caller's buffer from its start.\<close>

definition SPI_FLASH_StartReadSequence :: "'c spi_bus \<Rightarrow> u32 \<Rightarrow> 'c \<Rightarrow> 'c" where
  "SPI_FLASH_StartReadSequence bus ReadAddr c =
     send_bytes bus (0x03 # address_bytes ReadAddr) (CS_LOW bus c)"

fun buffer_read_loop :: "'c spi_bus \<Rightarrow> u8 list \<Rightarrow> nat \<Rightarrow> nat \<Rightarrow> 'c \<Rightarrow> (u8 list \<times> 'c) option" where
  "buffer_read_loop bus buf off 0 c = Some (buf, c)"
| "buffer_read_loop bus buf off (Suc n) c = do {
     let (b, c') = SPI_FLASH_SendByte bus 0xFF c;
     buf' \<leftarrow> buf_set buf off b;
     buffer_read_loop bus buf' (Suc off) n c' }"

definition SPI_FLASH_BufferRead ::
    "'c spi_bus \<Rightarrow> u8 list \<Rightarrow> u32 \<Rightarrow> u16 \<Rightarrow> 'c \<Rightarrow> (u8 list \<times> 'c) option" where
  "SPI_FLASH_BufferRead bus buf ReadAddr NumByteToRead c = do {
     (buf', c') \<leftarrow> buffer_read_loop bus buf 0 (unat NumByteToRead)
        (send_bytes bus (0x03 # address_bytes ReadAddr) (CS_LOW bus c));
     Some (buf', CS_HIGH bus c') }"

definition SPI_FLASH_ReadID :: "'c spi_bus \<Rightarrow> 'c \<Rightarrow> u32 \<times> 'c" where
  "SPI_FLASH_ReadID bus c =
    (let c0 = send_bytes bus [0x9F] (CS_LOW bus c);
         (Temp0, c1) = SPI_FLASH_SendByte bus 0xFF c0;
         (Temp1, c2) = SPI_FLASH_SendByte bus 0xFF c1;
         (Temp2, c3) = SPI_FLASH_SendByte bus 0xFF c2
     in (push_bit 16 (ucast Temp0) OR push_bit 8 (ucast Temp1) OR ucast Temp2, CS_HIGH bus c3))"

definition SPI_FLASH_ReadDeviceID :: "'c spi_bus \<Rightarrow> 'c \<Rightarrow> u32 \<times> 'c" where
  "SPI_FLASH_ReadDeviceID bus c =
    (let (Temp, c1) = SPI_FLASH_SendByte bus 0xFF (send_bytes bus [0xAB, 0xFF, 0xFF, 0xFF] (CS_LOW bus c))
     in (ucast Temp, CS_HIGH bus c1))"

definition SPI_Flash_PowerDown :: "'c spi_bus \<Rightarrow> 'c \<Rightarrow> 'c" where
  "SPI_Flash_PowerDown bus c = CS_HIGH bus (send_bytes bus [0xB9] (CS_LOW bus c))"

definition SPI_Flash_WAKEUP :: "'c spi_bus \<Rightarrow> 'c \<Rightarrow> 'c" where
  "SPI_Flash_WAKEUP bus c = CS_HIGH bus (send_bytes bus [0xAB] (CS_LOW bus c))"

definition eeprom_byte_write :: "'c spi_bus \<Rightarrow> nat \<Rightarrow> u32 \<Rightarrow> u8 \<Rightarrow> 'c \<Rightarrow> 'c option" where
  "eeprom_byte_write bus fuel address data c = SPI_FLASH_BufferWrite bus fuel [data] address 1 c"

text \<open>The local \<open>data\<close> is uninitialised before the read, an argument here.\<close>

definition eeprom_byte_read :: "'c spi_bus \<Rightarrow> u8 \<Rightarrow> u32 \<Rightarrow> 'c \<Rightarrow> (u8 \<times> 'c) option" where
  "eeprom_byte_read bus data0 address c = do {
     (buf, c') \<leftarrow> SPI_FLASH_BufferRead bus [data0] address 1 c;
     data \<leftarrow> buf_get buf 0;
     Some (data, c') }"

section \<open>What the data sheet promises\<close>

text \<open>
  Polling the status register: at most \<open>k\<close> replies show the write-in-progress bit, then one
  does not; deselecting the chip after it reaches a state with \<open>P\<close>.
\<close>

fun poll_ends :: "'c spi_bus \<Rightarrow> ('c \<Rightarrow> bool) \<Rightarrow> nat \<Rightarrow> 'c \<Rightarrow> bool" where
  "poll_ends bus P 0 c =
    (let (st, c') = spi_xfer bus 0xFF c in st AND 1 = 0 \<and> P (CS_HIGH bus c'))"
| "poll_ends bus P (Suc k) c =
    (let (st, c') = spi_xfer bus 0xFF c
     in if st AND 1 = 0 then P (CS_HIGH bus c') else poll_ends bus P k c')"

text \<open>A command's address: three bytes, most significant first.\<close>

definition chip_address :: "nat \<Rightarrow> u8 list" where
  "chip_address a = [word_of_nat (a div 65536), word_of_nat (a div 256), word_of_nat a]"

text \<open>
  \<open>ready c\<close>: deselected and no write in progress; \<open>wel c\<close>: the write-enable latch;
  \<open>mem c\<close>: the contents. A page write of data inside one page stores it and may keep the chip
  busy for \<open>k\<close> polls; a read streams consecutive bytes; nothing is promised of a page write that
  runs over its page.
\<close>

definition pe_chip ::
    "'c spi_bus \<Rightarrow> ('c \<Rightarrow> bool) \<Rightarrow> ('c \<Rightarrow> bool) \<Rightarrow> ('c \<Rightarrow> nat \<Rightarrow> u8) \<Rightarrow> nat \<Rightarrow> bool" where
  "pe_chip bus ready wel mem k \<longleftrightarrow>
    (\<forall>c. ready c \<longrightarrow>
       (let c' = CS_HIGH bus (send_bytes bus [0x06] (CS_LOW bus c))
        in ready c' \<and> wel c' \<and> mem c' = mem c)) \<and>
    (\<forall>c a vs. ready c \<and> wel c \<and> a mod 256 + length vs \<le> 256 \<and> a + length vs \<le> 2 ^ 20 \<longrightarrow>
       (let c' = CS_HIGH bus (send_bytes bus (0x0A # chip_address a @ vs) (CS_LOW bus c))
        in poll_ends bus (\<lambda>c''. ready c'' \<and> mem c'' = flash_put (mem c) a vs) k
             (send_bytes bus [0x05] (CS_LOW bus c')))) \<and>
    (\<forall>c a n. ready c \<and> a + n \<le> 2 ^ 20 \<longrightarrow>
       (let (vs, c') = read_bytes bus n (send_bytes bus (0x03 # chip_address a) (CS_LOW bus c))
        in vs = flash_get (mem c) a n \<and> ready (CS_HIGH bus c') \<and> mem (CS_HIGH bus c') = mem c))"

section \<open>The driver implements the abstract memory\<close>

lemma ucast_drop_bit_nat: "(ucast (drop_bit n (a :: u32)) :: u8) = word_of_nat (unat a div 2 ^ n)"
proof -
  have "(ucast (drop_bit n a) :: u8) = word_of_nat (unat (drop_bit n a))" by simp
  also have "unat (drop_bit n a) = unat a div 2 ^ n"
    unfolding unat_drop_bit_eq by (rule drop_bit_eq_div)
  finally show ?thesis .
qed

lemma address_masks:
  "(0xFF0000 :: u32) = push_bit 16 (mask 8)" "(0xFF00 :: u32) = push_bit 8 (mask 8)"
  "(0xFF :: u32) = mask 8"
  by (simp_all add: mask_eq_exp_minus_1 push_bit_eq_mult)

lemma address_bytes_eq: "address_bytes a = chip_address (unat a)"
proof -
  have "(ucast (drop_bit 16 (a AND 0xFF0000)) :: u8) = ucast (drop_bit 16 a)"
    "(ucast (drop_bit 8 (a AND 0xFF00)) :: u8) = ucast (drop_bit 8 a)"
    "(ucast (a AND 0xFF) :: u8) = ucast (drop_bit 0 a)"
    unfolding address_masks by (rule bit_word_eqI, force simp: bit_simps)+
  then show ?thesis
    unfolding address_bytes_def chip_address_def by (simp add: ucast_drop_bit_nat del: drop_bit_0)
qed

lemma wait_write_loop_poll:
  "poll_ends bus P k c \<Longrightarrow> k < fuel \<Longrightarrow>
     \<exists>c'. wait_write_loop bus fuel c = Some c' \<and> P (CS_HIGH bus c')"
proof (induction k arbitrary: c fuel)
  case 0
  then show ?case
    by (cases fuel) (auto simp: SPI_FLASH_SendByte_def split: prod.splits)
next
  case (Suc k)
  then obtain f where f: "fuel = Suc f" "k < f" by (cases fuel) auto
  obtain st c1 where x: "spi_xfer bus 0xFF c = (st, c1)" by force
  show ?case
  proof (cases "st AND 1 = 0")
    case True
    with Suc.prems x f show ?thesis by (simp add: SPI_FLASH_SendByte_def)
  next
    case False
    then have "st AND 1 = 1" by (simp add: and_one_eq split: if_splits)
    with Suc.prems Suc.IH [of c1 f] x f False show ?thesis by (simp add: SPI_FLASH_SendByte_def)
  qed
qed

lemma page_write_loop_eq:
  "off + n \<le> length buf \<Longrightarrow>
     page_write_loop bus buf off n c = Some (send_bytes bus (take n (drop off buf)) c)"
  by (induction n arbitrary: off c) (simp_all add: Cons_nth_drop_Suc [symmetric])

lemma pe_chip_write_enable:
  "pe_chip bus ready wel mem k \<Longrightarrow> ready c \<Longrightarrow>
    ready (SPI_FLASH_WriteEnable bus c) \<and> wel (SPI_FLASH_WriteEnable bus c) \<and>
    mem (SPI_FLASH_WriteEnable bus c) = mem c"
  by (simp add: pe_chip_def SPI_FLASH_WriteEnable_def Let_def)

lemma pe_chip_page:
  "pe_chip bus ready wel mem k \<Longrightarrow> ready c \<Longrightarrow> wel c \<Longrightarrow> a mod 256 + length vs \<le> 256 \<Longrightarrow>
    a + length vs \<le> 2 ^ 20 \<Longrightarrow>
    poll_ends bus (\<lambda>c''. ready c'' \<and> mem c'' = flash_put (mem c) a vs) k
      (send_bytes bus [0x05] (CS_LOW bus
        (CS_HIGH bus (send_bytes bus (0x0A # chip_address a @ vs) (CS_LOW bus c)))))"
  unfolding pe_chip_def Let_def by blast

lemma pe_chip_read:
  assumes "pe_chip bus ready wel mem k" "ready c" "a + n \<le> 2 ^ 20"
  obtains c' where
    "read_bytes bus n (send_bytes bus (0x03 # chip_address a) (CS_LOW bus c)) =
      (flash_get (mem c) a n, c')"
    "ready (CS_HIGH bus c')" "mem (CS_HIGH bus c') = mem c"
proof -
  have "case read_bytes bus n (send_bytes bus (0x03 # chip_address a) (CS_LOW bus c)) of
    (vs, c') \<Rightarrow> vs = flash_get (mem c) a n \<and> ready (CS_HIGH bus c') \<and> mem (CS_HIGH bus c') = mem c"
    using assms(1) [unfolded pe_chip_def, THEN conjunct2, THEN conjunct2, THEN spec [of _ c], THEN spec [of _ a], THEN spec [of _ n]] assms(2, 3) by simp
  then show thesis using that by (auto split: prod.splits)
qed

lemma WaitForWriteEnd_poll:
  "poll_ends bus P k (send_bytes bus [0x05] (CS_LOW bus c)) \<Longrightarrow> k < fuel \<Longrightarrow>
     \<exists>c'. SPI_FLASH_WaitForWriteEnd bus fuel c = Some c' \<and> P c'"
  by (drule (1) wait_write_loop_poll) (auto simp: SPI_FLASH_WaitForWriteEnd_def)

lemma PageWrite_eq:
  assumes "off + unat n \<le> length buf" "unat n \<le> 256"
  shows "SPI_FLASH_PageWrite bus fuel buf off a n c =
    SPI_FLASH_WaitForWriteEnd bus fuel (CS_HIGH bus
      (send_bytes bus (0x0A # chip_address (unat a) @ take (unat n) (drop off buf))
        (CS_LOW bus (SPI_FLASH_WriteEnable bus c))))"
proof -
  have n: "(if 256 < n then 256 else unat n) = unat n"
    using assms(2) by (simp add: word_less_nat_alt)
  show ?thesis
    unfolding SPI_FLASH_PageWrite_def Let_def n address_bytes_eq
      page_write_loop_eq [OF assms(1)] bind.bind_lunit
    by (simp only: send_bytes_append append_Cons send_bytes.simps bind.bind_lunit)
qed

lemma PageWrite_ok:
  assumes chip: "pe_chip bus ready wel mem k" and fuel: "k < fuel" and c: "ready c"
    and buf: "off + unat n \<le> length buf"
    and page: "unat a mod 256 + unat n \<le> 256" and top: "unat a + unat n \<le> 2 ^ 20"
  shows "\<exists>c'. SPI_FLASH_PageWrite bus fuel buf off a n c = Some c' \<and> ready c' \<and>
    mem c' = flash_put (mem c) (unat a) (take (unat n) (drop off buf))"
proof -
  have len: "length (take (unat n) (drop off buf)) = unat n" using buf by simp
  have "unat n \<le> 256" using page by linarith
  note eq = PageWrite_eq [OF buf this]
  note we = pe_chip_write_enable [OF chip c]
  have "\<exists>c'. SPI_FLASH_PageWrite bus fuel buf off a n c = Some c' \<and> ready c' \<and>
    mem c' = flash_put (mem (SPI_FLASH_WriteEnable bus c)) (unat a) (take (unat n) (drop off buf))"
    unfolding eq
    by (rule WaitForWriteEnd_poll [OF pe_chip_page [OF chip] fuel])
      (use we page top in \<open>simp_all only: len\<close>)
  then show ?thesis using we by simp
qed

lemma full_pages_loop_ok:
  assumes chip: "pe_chip bus ready wel mem k" and fuel: "k < fuel"
  shows "ready c \<Longrightarrow> off + 256 * p \<le> length buf \<Longrightarrow> unat a mod 256 = 0 \<Longrightarrow>
    unat a + 256 * p \<le> 2 ^ 20 \<Longrightarrow>
    \<exists>c' a'. full_pages_loop bus fuel buf off a p c = Some (c', off + 256 * p, a') \<and>
      unat a' = unat a + 256 * p \<and> ready c' \<and> mem c' = flash_put (mem c) (unat a) (take (256 * p) (drop off buf))"
proof (induction p arbitrary: c off a)
  case 0
  then show ?case by simp
next
  case (Suc p)
  from PageWrite_ok [OF chip fuel Suc.prems(1), of off 256 buf a] Suc.prems obtain c1 where
    c1: "SPI_FLASH_PageWrite bus fuel buf off a 256 c = Some c1" "ready c1"
      "mem c1 = flash_put (mem c) (unat a) (take 256 (drop off buf))"
    by auto
  have a: "unat (a + 256) = unat a + 256"
    using Suc.prems by (simp add: unat_add_lem [THEN iffD1])
  have "flash_put (flash_put (mem c) (unat a) (take 256 (drop off buf))) (unat a + 256)
      (take (256 * p) (drop (off + 256) buf))
    = flash_put (mem c) (unat a) (take (256 * Suc p) (drop off buf))"
    using flash_put_next [of off 256 buf] Suc.prems by simp
  moreover have "(unat a + 256) mod 256 = 0" using Suc.prems by presburger
  ultimately show ?case
    using Suc.IH [OF c1(2), of "off + 256" "a + 256"] Suc.prems c1 a
    by (auto simp: algebra_simps)
qed

lemma split_u8:
  "unat (ucast ((a :: u32) mod 256) :: u8) = unat a mod 256"
  "unat (ucast ((n :: u16) div 256) :: u8) = unat n div 256"
  "unat (ucast (n mod 256) :: u8) = unat n mod 256"
  "unat (word_of_nat (256 - unat x) :: u8) = (256 - unat (x :: u8)) mod 256"
  "unat (ucast x :: u16) = unat x" "unat (ucast x :: u32) = unat x"
proof -
  have "unat n div 256 < 256" using unsigned_less [where ?'a = nat, of n] by simp
  then show "unat (ucast (n div 256) :: u8) = unat n div 256"
    by (simp add: unsigned_ucast_eq take_bit_eq_mod unat_div_distrib)
  have "unat x < 256" using unsigned_less [where ?'a = nat, of x] by simp
  then show "unat (ucast x :: u16) = unat x" "unat (ucast x :: u32) = unat x"
    by (simp_all add: unsigned_ucast_eq take_bit_eq_mod)
qed (simp_all add: unsigned_ucast_eq take_bit_eq_mod unat_mod_distrib unsigned_of_nat)

lemma unat_plus_small: "unat (a :: u32) + unat b \<le> 2 ^ 20 \<Longrightarrow> unat (a + b) = unat a + unat b"
  by (simp add: unat_add_lem [THEN iffD1])

lemma count_u8:
  assumes "unat (a :: u32) mod 256 \<noteq> 0"
  shows "unat (word_of_nat (256 - unat (ucast (a mod 256) :: u8)) :: u8) = 256 - unat a mod 256"
  unfolding split_u8(4) unfolding split_u8(1) using assms by simp

lemma Addr_0_iff: "(ucast ((a :: u32) mod 256) :: u8) = 0 \<longleftrightarrow> unat a mod 256 = 0"
  by (simp flip: split_u8(1) add: unat_eq_0)

lemma NumOfPage_0_iff: "(ucast ((n :: u16) div 256) :: u8) = 0 \<longleftrightarrow> unat n < 256"
  using split_u8(2) [of n] by (auto simp: unat_eq_0 [symmetric])

text \<open>A write of full pages, then of the rest, from a page boundary on.\<close>

lemma pages_and_rest:
  assumes chip: "pe_chip bus ready wel mem k" and fuel: "k < fuel" and c: "ready c"
    and aligned: "unat a mod 256 = 0" and r: "unat r < 256"
    and buf: "off + (256 * p + unat r) \<le> length buf" and top: "unat a + (256 * p + unat r) \<le> 2 ^ 20"
  obtains c1 a1 c2 where
    "full_pages_loop bus fuel buf off a p c = Some (c1, off + 256 * p, a1)"
    "ready c1" "mem c1 = flash_put (mem c) (unat a) (take (256 * p) (drop off buf))"
    "SPI_FLASH_PageWrite bus fuel buf (off + 256 * p) a1 r c1 = Some c2"
    "ready c2" "mem c2 = flash_put (mem c) (unat a) (take (256 * p + unat r) (drop off buf))"
proof -
  obtain c1 a1 where c1: "full_pages_loop bus fuel buf off a p c = Some (c1, off + 256 * p, a1)"
      "unat a1 = unat a + 256 * p" "ready c1"
      "mem c1 = flash_put (mem c) (unat a) (take (256 * p) (drop off buf))"
    using full_pages_loop_ok [OF chip fuel c, of off p buf a] aligned buf top by auto
  have "\<exists>c2. SPI_FLASH_PageWrite bus fuel buf (off + 256 * p) a1 r c1 = Some c2 \<and> ready c2 \<and>
    mem c2 = flash_put (mem c1) (unat a1) (take (unat r) (drop (off + 256 * p) buf))"
    using buf top r c1(2) aligned by (intro PageWrite_ok [OF chip fuel c1(3)]) simp_all
  moreover have "flash_put (mem c1) (unat a1) (take (unat r) (drop (off + 256 * p) buf))
    = flash_put (mem c) (unat a) (take (256 * p + unat r) (drop off buf))"
    using flash_put_next [of off "256 * p" buf] buf c1(2,4) by simp
  ultimately show thesis using that c1 by metis
qed

lemma BufferWrite_aligned:
  assumes chip: "pe_chip bus ready wel mem k" and fuel: "k < fuel" and c: "ready c"
    and buf: "unat n \<le> length buf" and top: "unat a + unat n \<le> 2 ^ 20"
    and aligned: "unat a mod 256 = 0"
  shows "\<exists>c'. SPI_FLASH_BufferWrite bus fuel buf a n c = Some c' \<and> ready c' \<and>
    mem c' = flash_put (mem c) (unat a) (take (unat n) buf)"
proof (cases "unat n < 256")
  case True
  with PageWrite_ok [OF chip fuel c, of 0 n buf a] aligned buf top show ?thesis
    by (simp add: SPI_FLASH_BufferWrite_def Addr_0_iff NumOfPage_0_iff)
next
  case False
  define p where "p = unat n div 256"
  define r :: u16 where "r = ucast (ucast (n mod 256) :: u8)"
  have r: "unat r = unat n mod 256" by (simp add: r_def split_u8)
  have N: "256 * p + unat r = unat n" by (simp add: r p_def)
  obtain c1 a1 c2 where
    "full_pages_loop bus fuel buf 0 a p c = Some (c1, 0 + 256 * p, a1)"
    "SPI_FLASH_PageWrite bus fuel buf (0 + 256 * p) a1 r c1 = Some c2"
    "ready c2" "mem c2 = flash_put (mem c) (unat a) (take (256 * p + unat r) (drop 0 buf))"
    by (rule pages_and_rest [OF chip fuel c aligned, of r 0 p buf])
      (use buf top N r in simp_all)
  with False aligned N show ?thesis
    by (simp add: SPI_FLASH_BufferWrite_def Addr_0_iff NumOfPage_0_iff split_u8(2)
        flip: p_def r_def)
qed

text \<open>The first, partial page of an unaligned write.\<close>

lemma partial_page:
  fixes n :: u16 and count :: u8
  assumes chip: "pe_chip bus ready wel mem k" and fuel: "k < fuel" and c: "ready c"
    and unaligned: "unat a mod 256 \<noteq> 0"
    and count: "count = word_of_nat (256 - unat (ucast (a mod 256) :: u8))"
    and buf: "unat n \<le> length buf" and top: "unat a + unat n \<le> 2 ^ 20" and le: "unat count \<le> unat n"
  obtains c1 where "SPI_FLASH_PageWrite bus fuel buf 0 a (ucast count) c = Some c1"
    "ready c1" "mem c1 = flash_put (mem c) (unat a) (take (unat count) buf)"
    "unat count = 256 - unat a mod 256"
    "unat (a + ucast count) = unat a + unat count" "unat (a + ucast count) mod 256 = 0"
proof -
  have cnt: "unat count = 256 - unat a mod 256" unfolding count by (rule count_u8 [OF unaligned])
  have a1: "unat (a + ucast count) = unat a + unat count"
    using top le by (subst unat_plus_small) (simp_all add: split_u8)
  have "unat a + (256 - unat a mod 256) = 256 * (unat a div 256 + 1)"
  proof -
    have "x + (256 - r) = 256 * (q + 1)" if "256 * q + r = x" "r < 256" for q r x :: nat
      using that by presburger
    from this [OF mult_div_mod_eq mod_less_divisor [OF zero_less_numeral]] show ?thesis .
  qed
  then have "(unat a + (256 - unat a mod 256)) mod 256 = 0" by simp
  with a1 cnt have "unat (a + ucast count) mod 256 = 0" by simp
  note mod0 = this
  have le3: "unat count \<le> length buf" "unat a mod 256 + unat count \<le> 256" "unat a + unat count \<le> 2 ^ 20"
    using buf top le cnt by linarith+
  have "\<exists>c1. SPI_FLASH_PageWrite bus fuel buf 0 a (ucast count) c = Some c1 \<and> ready c1 \<and>
      mem c1 = flash_put (mem c) (unat a) (take (unat (ucast count :: u16)) (drop 0 buf))"
    by (rule PageWrite_ok [OF chip fuel c]) (simp_all only: split_u8 add_0 le3)
  then obtain c1 where "SPI_FLASH_PageWrite bus fuel buf 0 a (ucast count) c = Some c1" "ready c1"
      "mem c1 = flash_put (mem c) (unat a) (take (unat count) buf)"
    unfolding split_u8 drop_0 by (elim exE conjE)
  from that [OF this cnt a1 mod0] show thesis .
qed

lemma BufferWrite_unaligned_small:
  assumes chip: "pe_chip bus ready wel mem k" and fuel: "k < fuel" and c: "ready c"
    and buf: "unat n \<le> length buf" and top: "unat a + unat n \<le> 2 ^ 20"
    and unaligned: "unat a mod 256 \<noteq> 0" and small: "unat n < 256"
  shows "\<exists>c'. SPI_FLASH_BufferWrite bus fuel buf a n c = Some c' \<and> ready c' \<and>
    mem c' = flash_put (mem c) (unat a) (take (unat n) buf)"
proof -
  define count :: u8 where "count = word_of_nat (256 - unat (ucast (a mod 256) :: u8))"
  define single :: u8 where "single = ucast (n mod 256)"
  have single: "unat single = unat n" using small by (simp add: single_def split_u8)
  note unfolded = SPI_FLASH_BufferWrite_def Let_def Addr_0_iff NumOfPage_0_iff
  show ?thesis
  proof (cases "count < single")
    case True
    then have le: "unat count \<le> unat n" using single by (simp add: word_less_nat_alt)
    obtain c1 where c1: "SPI_FLASH_PageWrite bus fuel buf 0 a (ucast count) c = Some c1"
      "ready c1" "mem c1 = flash_put (mem c) (unat a) (take (unat count) buf)"
      "unat (a + ucast count) = unat a + unat count" "unat (a + ucast count) mod 256 = 0"
      by (rule partial_page [OF chip fuel c unaligned count_def buf top le])
    have temp: "unat (ucast (single - count) :: u16) = unat n - unat count"
      using True single by (simp add: split_u8 unat_sub word_le_nat_alt word_less_nat_alt)
    have "\<exists>c2. SPI_FLASH_PageWrite bus fuel buf (unat count) (a + ucast count)
        (ucast (single - count)) c1 = Some c2 \<and> ready c2 \<and>
      mem c2 = flash_put (mem c1) (unat (a + ucast count))
        (take (unat (ucast (single - count) :: u16)) (drop (unat count) buf))"
      using buf top le small c1(4,5) temp by (intro PageWrite_ok [OF chip fuel c1(2)]) linarith+
    then show ?thesis
      using unaligned small True c1 le buf temp
        flash_put_next [of 0 "unat count" buf "mem c" "unat a" "unat n - unat count"]
      by (simp add: unfolded flip: count_def single_def)
  next
    case False
    then have "unat n \<le> unat count" using single by (simp add: word_less_nat_alt)
    moreover have "unat count = 256 - unat a mod 256"
      unfolding count_def by (rule count_u8 [OF unaligned])
    ultimately show ?thesis
      using PageWrite_ok [OF chip fuel c, of 0 n buf a] unaligned small False buf top
      by (simp add: unfolded flip: count_def single_def)
  qed
qed

lemma BufferWrite_unaligned_big:
  assumes chip: "pe_chip bus ready wel mem k" and fuel: "k < fuel" and c: "ready c"
    and buf: "unat n \<le> length buf" and top: "unat a + unat n \<le> 2 ^ 20"
    and unaligned: "unat a mod 256 \<noteq> 0" and big: "256 \<le> unat n"
  shows "\<exists>c'. SPI_FLASH_BufferWrite bus fuel buf a n c = Some c' \<and> ready c' \<and>
    mem c' = flash_put (mem c) (unat a) (take (unat n) buf)"
proof -
  define count :: u8 where "count = word_of_nat (256 - unat (ucast (a mod 256) :: u8))"
  define m :: u16 where "m = n - ucast count"
  define p where "p = unat (ucast (m div 256) :: u8)"
  define r :: u8 where "r = ucast (m mod 256)"
  have le: "unat count \<le> unat n" using big unsigned_less [where ?'a = nat, of count] by simp
  then have m: "unat m = unat n - unat count"
    by (simp add: m_def unat_sub word_le_nat_alt split_u8)
  have r: "unat (ucast r :: u16) = unat m mod 256" "r = 0 \<longleftrightarrow> unat (ucast r :: u16) = 0"
    by (simp_all add: r_def split_u8 unat_eq_0 [symmetric])
  have N: "256 * p + unat (ucast r :: u16) = unat n - unat count"
    unfolding r by (simp add: p_def split_u8 flip: m)
  obtain c1 where c1: "SPI_FLASH_PageWrite bus fuel buf 0 a (ucast count) c = Some c1"
    "ready c1" "mem c1 = flash_put (mem c) (unat a) (take (unat count) buf)"
    "unat (a + ucast count) = unat a + unat count" "unat (a + ucast count) mod 256 = 0"
    by (rule partial_page [OF chip fuel c unaligned count_def buf top le])
  obtain c2 a2 c3 where c2:
    "full_pages_loop bus fuel buf (unat count) (a + ucast count) p c1 = Some (c2, unat count + 256 * p, a2)"
    "ready c2"
    "mem c2 = flash_put (mem c1) (unat (a + ucast count)) (take (256 * p) (drop (unat count) buf))"
    "SPI_FLASH_PageWrite bus fuel buf (unat count + 256 * p) a2 (ucast r) c2 = Some c3"
    "ready c3"
    "mem c3 = flash_put (mem c1) (unat (a + ucast count))
      (take (256 * p + unat (ucast r :: u16)) (drop (unat count) buf))"
    by (rule pages_and_rest [OF chip fuel c1(2,5), of "ucast r" "unat count" p buf])
      (use buf top le N c1(4) r(1) in simp_all)
  have final: "flash_put (mem c1) (unat (a + ucast count)) (take (unat n - unat count) (drop (unat count) buf))
    = flash_put (mem c) (unat a) (take (unat n) buf)"
    using flash_put_next [of 0 "unat count" buf "mem c" "unat a" "unat n - unat count"] c1 le buf by simp
  show ?thesis
    using big unaligned c1(1) c2 final N r(2)
    by (cases "r = 0") (simp_all add: SPI_FLASH_BufferWrite_def Let_def Addr_0_iff NumOfPage_0_iff
        flip: count_def m_def p_def r_def)
qed

text \<open>The buffered write stores the caller's bytes, whatever their number and alignment.\<close>

lemma BufferWrite_refines:
  assumes "pe_chip bus ready wel mem k" "k < fuel" "ready c"
    "unat n \<le> length buf" "unat a + unat n \<le> 2 ^ 20"
  shows "\<exists>c'. SPI_FLASH_BufferWrite bus fuel buf a n c = Some c' \<and> ready c' \<and>
    mem c' = flash_put (mem c) (unat a) (take (unat n) buf)"
  using BufferWrite_aligned [OF assms] BufferWrite_unaligned_small [OF assms]
    BufferWrite_unaligned_big [OF assms] not_le_imp_less [of 256 "unat n"] by blast

text \<open>The buffered read returns the memory's bytes in the caller's buffer.\<close>

lemma buffer_read_loop_eq:
  "off + n \<le> length buf \<Longrightarrow> read_bytes bus n c = (vs, c') \<Longrightarrow>
    buffer_read_loop bus buf off n c = Some (take off buf @ vs @ drop (off + n) buf, c')"
proof (induction n arbitrary: off buf c vs)
  case 0
  then show ?case by simp
next
  case (Suc n)
  obtain b c1 where b: "SPI_FLASH_SendByte bus 0xFF c = (b, c1)" by force
  obtain bs where bs: "read_bytes bus n c1 = (bs, c')" "vs = b # bs"
    using Suc.prems(2) b by (auto simp: SPI_FLASH_ReadByte_def split: prod.splits)
  have "take (Suc off) (buf[off := b]) = take off buf @ [b]"
    using Suc.prems(1) by (simp add: take_Suc_conv_app_nth)
  then show ?case
    using Suc.IH [OF _ bs(1), of "Suc off" "buf[off := b]"] Suc.prems(1) b bs(2) by simp
qed

lemma BufferRead_refines:
  assumes chip: "pe_chip bus ready wel mem k" and c: "ready c"
    and buf: "unat n \<le> length buf" and top: "unat a + unat n \<le> 2 ^ 20"
  shows "\<exists>c'. SPI_FLASH_BufferRead bus buf a n c =
      Some (flash_get (mem c) (unat a) (unat n) @ drop (unat n) buf, c') \<and>
    ready c' \<and> mem c' = mem c"
proof -
  obtain c' where r: "read_bytes bus (unat n) (send_bytes bus (0x03 # chip_address (unat a)) (CS_LOW bus c))
      = (flash_get (mem c) (unat a) (unat n), c')"
      "ready (CS_HIGH bus c')" "mem (CS_HIGH bus c') = mem c"
    by (rule pe_chip_read [OF chip c top])
  with buffer_read_loop_eq [OF _ r(1), of 0 buf] buf show ?thesis
    by (simp add: SPI_FLASH_BufferRead_def address_bytes_eq del: send_bytes.simps)
qed

section \<open>A chip\<close>

text \<open>
  A chip of the command set the driver uses, busy for one poll after each page write: the state
  after a select is the list of bytes received so far.
\<close>

record test_chip =
  tc_mem :: "nat \<Rightarrow> u8"
  tc_wel :: bool
  tc_busy :: nat
  tc_in :: "u8 list"

definition tc_addr :: "u8 list \<Rightarrow> nat" where
  "tc_addr bs = 65536 * unat (bs ! 1) + 256 * unat (bs ! 2) + unat (bs ! 3)"

definition tc_low :: "test_chip \<Rightarrow> test_chip" where
  "tc_low c = c\<lparr>tc_in := []\<rparr>"

definition tc_high :: "test_chip \<Rightarrow> test_chip" where
  "tc_high c =
    (if tc_in c = [0x06] then c\<lparr>tc_wel := True, tc_in := []\<rparr>
     else if tc_wel c \<and> length (tc_in c) > 4 \<and> tc_in c ! 0 = 0x0A then
       c\<lparr>tc_mem := flash_put (tc_mem c) (tc_addr (tc_in c)) (drop 4 (tc_in c)),
         tc_wel := False, tc_busy := 1, tc_in := []\<rparr>
     else c\<lparr>tc_in := []\<rparr>)"

definition tc_xfer :: "u8 \<Rightarrow> test_chip \<Rightarrow> u8 \<times> test_chip" where
  "tc_xfer b c =
    ((if tc_in c \<noteq> [] \<and> tc_in c ! 0 = 0x03 \<and> length (tc_in c) \<ge> 4
      then tc_mem c (tc_addr (tc_in c) + (length (tc_in c) - 4))
      else if tc_in c \<noteq> [] \<and> tc_in c ! 0 = 0x05 \<and> tc_busy c > 0 then 1 else 0),
     c\<lparr>tc_busy := (if tc_in c \<noteq> [] \<and> tc_in c ! 0 = 0x05 then tc_busy c - 1 else tc_busy c),
       tc_in := tc_in c @ [b]\<rparr>)"

definition tc_bus :: "test_chip spi_bus" where
  "tc_bus = \<lparr> CS_LOW = tc_low, CS_HIGH = tc_high, spi_xfer = tc_xfer \<rparr>"

definition tc_ready :: "test_chip \<Rightarrow> bool" where
  "tc_ready c \<longleftrightarrow> tc_busy c = 0 \<and> tc_in c = []"

lemma tc_send:
  "tc_in c \<noteq> [] \<Longrightarrow> tc_in c ! 0 \<noteq> 0x05 \<Longrightarrow>
    send_bytes tc_bus bs c = c\<lparr>tc_in := tc_in c @ bs\<rparr>"
  by (induction bs arbitrary: c)
    (simp_all add: SPI_FLASH_SendByte_def tc_bus_def tc_xfer_def nth_append)

lemma tc_address: "a < 2 ^ 24 \<Longrightarrow> tc_addr (b # chip_address a @ bs) = a"
proof -
  assume a: "a < 2 ^ 24"
  have "65536 * (a div 65536) + 256 * (a div 256 mod 256) + a mod 256 = a"
  proof -
    have "65536 * q' + 256 * r' + r = x" if "256 * q + r = x" "256 * q' + r' = q"
      for q r q' r' x :: nat
      using that by presburger
    from this [OF mult_div_mod_eq mult_div_mod_eq] show ?thesis
      using div_mult2_eq [of a 256 256] by simp
  qed
  with a show ?thesis
    by (simp add: tc_addr_def chip_address_def unsigned_of_nat take_bit_eq_mod)
qed

lemma tc_addr_append: "4 \<le> length xs \<Longrightarrow> tc_addr (xs @ ys) = tc_addr xs"
  by (simp add: tc_addr_def nth_append)

lemma tc_read:
  "tc_in c \<noteq> [] \<Longrightarrow> tc_in c ! 0 = 0x03 \<Longrightarrow> 4 \<le> length (tc_in c) \<Longrightarrow>
    tc_addr (tc_in c) + (length (tc_in c) - 4) = a \<Longrightarrow>
    \<exists>bs. read_bytes tc_bus n c = (flash_get (tc_mem c) a n, c\<lparr>tc_in := tc_in c @ bs\<rparr>)"
proof (induction n arbitrary: c a)
  case 0
  show ?case by (rule exI [of _ "[]"]) (simp add: flash_get_def)
next
  case (Suc n)
  let ?c1 = "c\<lparr>tc_in := tc_in c @ [0xFF]\<rparr>"
  have x: "SPI_FLASH_ReadByte tc_bus c = (tc_mem c a, ?c1)"
    using Suc.prems by (simp add: SPI_FLASH_ReadByte_def SPI_FLASH_SendByte_def tc_bus_def tc_xfer_def)
  have "tc_addr (tc_in ?c1) + (length (tc_in ?c1) - 4) = Suc a"
    using Suc.prems by (simp add: tc_addr_append)
  from Suc.IH [OF _ _ _ this] obtain bs where
    "read_bytes tc_bus n ?c1 = (flash_get (tc_mem c) (Suc a) n, c\<lparr>tc_in := (tc_in c @ [0xFF]) @ bs\<rparr>)"
    using Suc.prems by (auto simp: nth_append)
  then show ?case
    using x by (intro exI [of _ "0xFF # bs"]) (simp add: flash_get_Suc)
qed

lemma tc_bus_sel [simp]:
  "CS_LOW tc_bus = tc_low" "CS_HIGH tc_bus = tc_high" "spi_xfer tc_bus = tc_xfer"
  by (simp_all add: tc_bus_def)

lemma length_chip_address [simp]: "length (chip_address a) = 3"
  by (simp add: chip_address_def)

lemma tc_select: "SPI_FLASH_SendByte tc_bus b (tc_low c) =
    (0, c\<lparr>tc_in := [b]\<rparr>)"
  by (simp add: SPI_FLASH_SendByte_def tc_bus_def tc_xfer_def tc_low_def)

lemma tc_page:
  assumes "tc_ready c" "tc_wel c" "a + length vs \<le> 2 ^ 20"
  shows "poll_ends tc_bus (\<lambda>c''. tc_ready c'' \<and> tc_mem c'' = flash_put (tc_mem c) a vs) 1
    (send_bytes tc_bus [0x05] (tc_low (tc_high (send_bytes tc_bus (0x0A # chip_address a @ vs) (tc_low c)))))"
proof -
  have "send_bytes tc_bus (0x0A # chip_address a @ vs) (tc_low c)
      = c\<lparr>tc_in := 0x0A # chip_address a @ vs\<rparr>"
    by (simp add: tc_select tc_send)
  moreover have "tc_addr (0x0A # chip_address a @ vs) = a"
    using assms(3) by (intro tc_address) simp
  ultimately show ?thesis
    using assms(1,2)
    by (simp add: tc_select tc_high_def tc_ready_def tc_xfer_def)
qed

lemma tc_pe_chip: "pe_chip tc_bus tc_ready tc_wel tc_mem 1"
proof -
  have we: "tc_ready c' \<and> tc_wel c' \<and> tc_mem c' = tc_mem c"
    if "tc_ready c" "c' = tc_high (send_bytes tc_bus [0x06] (tc_low c))" for c c'
    using that by (simp add: tc_select tc_high_def tc_ready_def)
  have rd: "vs = flash_get (tc_mem c) a n \<and> tc_ready (tc_high c') \<and> tc_mem (tc_high c') = tc_mem c"
    if c: "tc_ready c" and a: "a + n \<le> 2 ^ 20" and
      r: "read_bytes tc_bus n (send_bytes tc_bus (0x03 # chip_address a) (tc_low c)) = (vs, c')"
    for c a n vs c'
  proof -
    have "send_bytes tc_bus (0x03 # chip_address a) (tc_low c) = c\<lparr>tc_in := 0x03 # chip_address a\<rparr>"
      by (simp add: tc_select tc_send)
    moreover have "tc_addr (0x03 # chip_address a) = a"
      using a tc_address [of a "0x03" "[]"] by simp
    ultimately show ?thesis
      using r c tc_read [of "c\<lparr>tc_in := 0x03 # chip_address a\<rparr>" a n]
      by (auto simp: chip_address_def tc_ready_def tc_high_def)
  qed
  show ?thesis
    unfolding pe_chip_def Let_def tc_bus_sel using we tc_page rd by (fastforce split: prod.splits)
qed

section \<open>Properties\<close>

text \<open>
  C2: The buffered write returns and leaves in the memory exactly the caller's bytes at the given
  address, whatever its alignment and length: the splitting into page writes is invisible.
\<close>

theorem flash_write_refines_memory:
  assumes "pe_chip bus ready wel mem k" "k < fuel" "ready c"
    "unat n \<le> length buf" "unat a + unat n \<le> 2 ^ 20"
  shows "\<exists>c'. SPI_FLASH_BufferWrite bus fuel buf a n c = Some c' \<and> ready c' \<and>
    mem c' = flash_put (mem c) (unat a) (take (unat n) buf)"
  by (rule BufferWrite_refines [OF assms])

definition test_chip0 :: test_chip where
  "test_chip0 = \<lparr> tc_mem = (\<lambda>_. 0xFF), tc_wel = False, tc_busy = 0, tc_in = [] \<rparr>"

lemma tc_ready0: "tc_ready test_chip0"
  by (simp add: tc_ready_def test_chip0_def)

theorem flash_write_refines_memory_witness:
  "\<exists>c'. SPI_FLASH_BufferWrite tc_bus 2 [0x11, 0x22, 0x33] 0xFE 3 test_chip0 = Some c' \<and> tc_ready c' \<and>
    tc_mem c' = flash_put (tc_mem test_chip0) 254 [0x11, 0x22, 0x33]"
  using flash_write_refines_memory [OF tc_pe_chip, of 2 test_chip0 3 "[0x11, 0x22, 0x33]" "0xFE"] tc_ready0
  by simp

text \<open>
  Bytes written with the buffered write are read back by the buffered read, and the read
  touches only the first \<open>n\<close> bytes of the caller's buffer.
\<close>

lemma flash_write_read_roundtrip:
  assumes "pe_chip bus ready wel mem k" "k < fuel" "ready c"
    "unat n \<le> length buf" "unat n \<le> length buf'" "unat a + unat n \<le> 2 ^ 20"
  shows "\<exists>c1 c2. SPI_FLASH_BufferWrite bus fuel buf a n c = Some c1 \<and>
    SPI_FLASH_BufferRead bus buf' a n c1 = Some (take (unat n) buf @ drop (unat n) buf', c2)"
proof -
  obtain c1 where c1: "SPI_FLASH_BufferWrite bus fuel buf a n c = Some c1" "ready c1"
      "mem c1 = flash_put (mem c) (unat a) (take (unat n) buf)"
    using BufferWrite_refines [OF assms(1-4,6)] by blast
  have "flash_get (mem c1) (unat a) (unat n) = take (unat n) buf"
    using flash.get_put [of "mem c" "unat a" "take (unat n) buf"] assms(4) by (simp add: c1(3))
  with BufferRead_refines [OF assms(1) c1(2) assms(5,6)] c1(1) show ?thesis by auto
qed

lemma flash_write_read_roundtrip_witness:
  "\<exists>c1 c2. SPI_FLASH_BufferWrite tc_bus 2 [0x11, 0x22, 0x33] 0xFE 3 test_chip0 = Some c1 \<and>
    SPI_FLASH_BufferRead tc_bus [0, 0, 0, 0x55] 0xFE 3 c1 = Some ([0x11, 0x22, 0x33, 0x55], c2)"
  using flash_write_read_roundtrip [OF tc_pe_chip, of 2 test_chip0 3 "[0x11, 0x22, 0x33]"
      "[0, 0, 0, 0x55]" "0xFE"] tc_ready0
  by simp

text \<open>The page erase sends the sector-erase opcode; the page-erase opcode is never used.\<close>

lemma PageErase_is_SectorErase: "SPI_FLASH_PageErase = SPI_FLASH_SectorErase"
  by (intro ext) (simp add: SPI_FLASH_PageErase_def SPI_FLASH_SectorErase_def)

end
