(* ===== verification/Wifi_Link.thy ===== *)
theory Wifi_Link
  imports Firmware_Prelude
begin

text \<open>
  The frames between the control board and the Wi-Fi module, \<open>miotlink/wifi_mod_uart.c\<close>: the
  receive state machine \<open>wifi_rx_isr\<close> with its static counters and its buffers of 100 bytes, the
  check of a received \<open>F1 F1 .. 7E\<close> frame, and the packing of an \<open>F2 F2 .. 7E\<close> reply. The
  uninitialised local \<open>chk\<close> of the packing is the argument \<open>chk0\<close>.
\<close>

section \<open>Checking a received frame\<close>

text \<open>The loop \<open>for (i = 0; i < len - 4; i++) chk += buf[i + 2]\<close>.\<close>

fun chk_loop :: "u8 list \<Rightarrow> nat \<Rightarrow> nat \<Rightarrow> u8 \<Rightarrow> u8 option" where
  "chk_loop buf i 0 chk = Some chk"
| "chk_loop buf i (Suc n) chk = do { b \<leftarrow> buf_get buf (i + 2); chk_loop buf (Suc i) n (chk + b) }"

definition wifi_receive_data_check :: "u8 list \<Rightarrow> u8 \<Rightarrow> u8 option" where
  "wifi_receive_data_check buf len =
    (if unat len < 2 then None
     else do {
       chk_src \<leftarrow> buf_get buf (unat len - 2);
       end_code \<leftarrow> buf_get buf (unat len - 1);
       b0 \<leftarrow> buf_get buf 0;
       b1 \<leftarrow> buf_get buf 1;
       if b0 = 0xF1 \<and> b1 = 0xF1 \<and> end_code = 0x7E then do {
         chk \<leftarrow> chk_loop buf 0 (unat len - 4) 0;
         Some (if chk = chk_src then 1 else 0) }
       else Some 0 })"

section \<open>Packing a reply\<close>

text \<open>The loop copies \<open>buf\<close> behind the two start bytes and adds the bytes up.\<close>

fun pack_loop :: "u8 list \<Rightarrow> nat \<Rightarrow> nat \<Rightarrow> u8 list \<Rightarrow> u8 \<Rightarrow> (u8 list \<times> u8) option" where
  "pack_loop buf i 0 out chk = Some (out, chk)"
| "pack_loop buf i (Suc n) out chk = do {
     b \<leftarrow> buf_get buf i;
     out' \<leftarrow> buf_set out (i + 2) b;
     pack_loop buf (Suc i) n out' (chk + b) }"

text \<open>
  Yields the send buffer after the call and the bytes handed to the serial driver, which are
  the first \<open>len + 4\<close> of it.
\<close>

definition wifi_send_packet_data :: "u8 \<Rightarrow> u8 list \<Rightarrow> u8 list \<Rightarrow> u8 \<Rightarrow> (u8 list \<times> u8 list) option" where
  "wifi_send_packet_data chk0 out buf len = do {
     out1 \<leftarrow> buf_set out 0 0xF2;
     out2 \<leftarrow> buf_set out1 1 0xF2;
     (out3, chk) \<leftarrow> pack_loop buf 0 (unat len) out2 chk0;
     out4 \<leftarrow> buf_set out3 (unat len + 2) chk;
     out5 \<leftarrow> buf_set out4 (unat len + 3) 0x7E;
     sent \<leftarrow> buf_gets out5 0 (unat len + 4);
     Some (out5, sent) }"

definition send_F7_packet :: "u8 \<Rightarrow> u8 list \<Rightarrow> u8 list \<Rightarrow> (u8 list \<times> u8 list) option" where
  "send_F7_packet chk0 stack20 out = do {
     buf \<leftarrow> buf_puts stack20 0 [0xF7, 0x0E, 0x01, 0x73, 0x01, 0x73, 0x01, 0x00,
                              0x01, 0x01, 0x01, 0x01, 0x01, 0x01, 0x01, 0x01];
     wifi_send_packet_data chk0 out buf 16 }"

section \<open>The receive state machine\<close>

record wifi_rx =
  wait_len :: u8
  wait_len_cnt :: u8
  recieved_len :: u8
  wifi_data_buffer_recv_tmp :: "u8 list"
  wifi_recv_packet_buf_pub :: "u8 list"
  wifi_recieve_data_length :: u8
  wifi_uart_sem :: u16

text \<open>\<open>wifi_data_buffer_recv_tmp[recieved_len++] = b\<close>.\<close>

definition rx_store :: "u8 \<Rightarrow> wifi_rx \<Rightarrow> wifi_rx option" where
  "rx_store b s = do {
     tmp \<leftarrow> buf_set (wifi_data_buffer_recv_tmp s) (unat (recieved_len s)) b;
     Some (s\<lparr>wifi_data_buffer_recv_tmp := tmp, recieved_len := recieved_len s + 1\<rparr>) }"

fun copy_loop :: "'a list \<Rightarrow> 'a list \<Rightarrow> nat \<Rightarrow> nat \<Rightarrow> 'a list option" where
  "copy_loop dst src i 0 = Some dst"
| "copy_loop dst src i (Suc n) = do {
     v \<leftarrow> buf_get src i; dst' \<leftarrow> buf_set dst i v; copy_loop dst' src (Suc i) n }"

definition wifi_rx_isr :: "wifi_rx \<Rightarrow> u8 \<Rightarrow> wifi_rx option" where
  "wifi_rx_isr s udr0 =
    (if recieved_len s = 0 then
       (if udr0 = 0xF1 then rx_store 0xF1 s else Some (s\<lparr>recieved_len := 0\<rparr>))
     else if recieved_len s = 1 then
       (if udr0 = 0xF1 then rx_store 0xF1 s else Some (s\<lparr>recieved_len := 0\<rparr>))
     else if recieved_len s \<le> 3 then do {
       s1 \<leftarrow> rx_store udr0 s;
       Some (if recieved_len s1 = 4 then s1\<lparr>wait_len := udr0, wait_len_cnt := 0\<rparr> else s1) }
     else if wait_len_cnt s \<le> wait_len s then
       rx_store udr0 (s\<lparr>wait_len_cnt := wait_len_cnt s + 1\<rparr>)
     else if unat (wait_len_cnt s) = unat (wait_len s) + 1 then do {
       s1 \<leftarrow> rx_store udr0 s;
       pub \<leftarrow> copy_loop (wifi_recv_packet_buf_pub s1) (wifi_data_buffer_recv_tmp s1) 0
                (unat (recieved_len s1));
       Some (s1\<lparr>wifi_recieve_data_length := recieved_len s1, wifi_recv_packet_buf_pub := pub,
                recieved_len := 0, wait_len_cnt := 0, wait_len := 0,
                wifi_uart_sem := wifi_uart_sem s1 + 1\<rparr>) }
     else Some s)"

section \<open>Loops\<close>

lemma chk_loop_eq:
  "i + 2 + n \<le> length buf \<Longrightarrow>
    chk_loop buf i n chk = Some (chk + sum_list (take n (drop (i + 2) buf)))"
  by (induction n arbitrary: i chk) (simp_all add: Cons_nth_drop_Suc [symmetric] add.assoc)

lemma pack_loop_eq:
  "i + n \<le> length buf \<Longrightarrow> i + 2 + n \<le> length out \<Longrightarrow>
    pack_loop buf i n out chk =
      Some (take (i + 2) out @ take n (drop i buf) @ drop (i + 2 + n) out,
            chk + sum_list (take n (drop i buf)))"
proof (induction n arbitrary: i out chk)
  case 0
  then show ?case by simp
next
  case (Suc n)
  have "take (Suc (i + 2)) (out[i + 2 := buf ! i]) = take (i + 2) out @ [buf ! i]"
    using Suc.prems by (simp add: take_Suc_conv_app_nth)
  moreover have "take (Suc n) (drop i buf) = buf ! i # take n (drop (Suc i) buf)"
    using Suc.prems by (simp add: Cons_nth_drop_Suc [symmetric])
  ultimately show ?case
    using Suc.IH [of "Suc i" "out[i + 2 := buf ! i]" "chk + buf ! i"] Suc.prems
    by (simp add: add.assoc)
qed

lemma copy_loop_eq:
  "i + n \<le> length src \<Longrightarrow> i + n \<le> length dst \<Longrightarrow>
    copy_loop dst src i n = Some (take i dst @ take n (drop i src) @ drop (i + n) dst)"
proof (induction n arbitrary: i dst)
  case 0
  then show ?case by simp
next
  case (Suc n)
  have "take (Suc i) (dst[i := src ! i]) = take i dst @ [src ! i]"
    using Suc.prems by (simp add: take_Suc_conv_app_nth)
  moreover have "take (Suc n) (drop i src) = src ! i # take n (drop (Suc i) src)"
    using Suc.prems by (simp add: Cons_nth_drop_Suc [symmetric])
  ultimately show ?case
    using Suc.IH [of "Suc i" "dst[i := src ! i]"] Suc.prems by simp
qed

section \<open>Frames\<close>

definition f1_seal :: "u8 list \<Rightarrow> u8 list" where
  "f1_seal p = [0xF1, 0xF1] @ p @ [sum_list p, 0x7E]"

definition f1_payload :: "u8 list \<Rightarrow> u8 list" where
  "f1_payload f = take (length f - 4) (drop 2 f)"

definition f1_accept :: "u8 list \<Rightarrow> bool" where
  "f1_accept f \<longleftrightarrow> 4 \<le> length f \<and> length f < 256 \<and>
     wifi_receive_data_check f (word_of_nat (length f)) = Some 1"

text \<open>A frame with an arbitrary checksum byte.\<close>

definition f1_frame :: "u8 list \<Rightarrow> u8 \<Rightarrow> u8 list" where
  "f1_frame p chk = [0xF1, 0xF1] @ p @ [chk, 0x7E]"

lemma length_f1_frame [simp]: "length (f1_frame p c) = length p + 4"
  by (simp add: f1_frame_def)

lemma f1_seal_frame: "f1_seal p = f1_frame p (sum_list p)"
  by (simp add: f1_seal_def f1_frame_def)

lemma unat_word_of_nat_u8: "n < 256 \<Longrightarrow> unat (word_of_nat n :: u8) = n"
  by (simp add: unsigned_of_nat take_bit_eq_mod)

lemma check_f1_frame:
  assumes "length p + 4 < 256"
  shows "wifi_receive_data_check (f1_frame p chk @ rest) (word_of_nat (length p + 4)) =
    Some (if sum_list p = chk then 1 else 0)"
proof -
  have "unat (word_of_nat (length p + 4) :: u8) = length p + 4"
    using assms by (rule unat_word_of_nat_u8)
  moreover have "chk_loop (f1_frame p chk @ rest) 0 (length p) 0 = Some (sum_list p)"
    by (subst chk_loop_eq) (simp_all add: f1_frame_def)
  ultimately show ?thesis
    unfolding wifi_receive_data_check_def
    by (simp add: f1_frame_def nth_append)
qed

lemma frame_shape:
  assumes "4 \<le> length f" "f ! 0 = 0xF1" "f ! 1 = 0xF1" "f ! (length f - 1) = 0x7E"
  shows "f = f1_frame (f1_payload f) (f ! (length f - 2))"
proof -
  obtain a b g where f: "f = a # b # g" "2 \<le> length g"
    using assms(1) by (cases f rule: remdups_adj.cases) auto
  obtain h' d where h': "g = h' @ [d]" using f(2) by (cases g rule: rev_cases) auto
  obtain h c where "h' = h @ [c]" using f(2) h' by (cases h' rule: rev_cases) auto
  with h' have g: "g = h @ [c, d]" by simp
  from assms show ?thesis
    by (simp add: f g f1_frame_def f1_payload_def nth_append)
qed

lemma check_marks:
  assumes "2 \<le> unat len" "unat len \<le> length f" "wifi_receive_data_check f len = Some 1"
  shows "f ! 0 = 0xF1" "f ! 1 = 0xF1" "f ! (unat len - 1) = 0x7E"
  using assms by (auto simp: wifi_receive_data_check_def bind_eq_Some_conv buf_get_Some_iff
      split: if_splits)

lemma f1_accept_sealed:
  assumes "f1_accept f" shows "f = f1_seal (f1_payload f)"
proof -
  have len: "4 \<le> length f" "length f < 256" and
    chk: "wifi_receive_data_check f (word_of_nat (length f)) = Some 1"
    using assms by (simp_all add: f1_accept_def)
  have n: "unat (word_of_nat (length f) :: u8) = length f" using len(2) by (rule unat_word_of_nat_u8)
  have "f ! 0 = 0xF1" "f ! 1 = 0xF1" "f ! (length f - 1) = 0x7E"
    using check_marks [OF _ _ chk] len n by simp_all
  from frame_shape [OF len(1) this] have f: "f = f1_frame (f1_payload f) (f ! (length f - 2))" .
  have p: "length (f1_payload f) + 4 = length f" using len by (simp add: f1_payload_def)
  have "sum_list (f1_payload f) = f ! (length f - 2)"
    using check_f1_frame [of "f1_payload f" "f ! (length f - 2)" "[]"] chk len(2)
    unfolding p append_Nil2 f [symmetric] by (simp split: if_splits)
  with f show ?thesis by (simp add: f1_seal_frame)
qed

interpretation f1: frame_code f1_seal f1_accept f1_payload "\<lambda>p. length p + 4 < 256"
proof
  fix p :: "u8 list" assume p: "length p + 4 < 256"
  then show "f1_accept (f1_seal p)"
    using check_f1_frame [of p "sum_list p" "[]"] by (simp add: f1_accept_def f1_seal_frame)
  show "f1_payload (f1_seal p) = p" by (simp add: f1_payload_def f1_seal_def)
next
  fix f :: "u8 list" assume "f1_accept f"
  then show "f = f1_seal (f1_payload f)" by (rule f1_accept_sealed)
qed

lemma wifi_send_packet_data_eq:
  assumes "unat len \<le> length buf" "unat len + 4 \<le> length out"
  shows "wifi_send_packet_data chk0 out buf len =
    (let sent = [0xF2, 0xF2] @ take (unat len) buf @ [chk0 + sum_list (take (unat len) buf), 0x7E]
     in Some (sent @ drop (unat len + 4) out, sent))"
proof -
  define n where "n = unat len"
  obtain a b rest where out: "out = a # b # rest"
    using assms(2) by (cases out rule: remdups_adj.cases) auto
  have "2 \<le> length (drop n rest)" using assms(2) by (simp add: out n_def)
  then obtain c d t where rest: "drop n rest = c # d # t"
    by (cases "drop n rest" rule: remdups_adj.cases) auto
  then have t: "t = drop (n + 2) rest" by (metis drop_drop drop_Suc_Cons drop_0 add_2_eq_Suc' add.commute)
  let ?d = "take n buf"
  have len: "length ?d = n" using assms(1) by (simp add: n_def)
  have loop: "pack_loop buf 0 n (0xF2 # 0xF2 # rest) chk0 =
      Some (0xF2 # 0xF2 # ?d @ c # d # t, chk0 + sum_list ?d)"
    using assms rest by (subst pack_loop_eq) (simp_all add: out n_def numeral_2_eq_2)
  have set: "buf_set (0xF2 # 0xF2 # ?d @ c # d # t) (n + 2) x = Some (0xF2 # 0xF2 # ?d @ x # d # t)"
    "buf_set (0xF2 # 0xF2 # ?d @ x # d # t) (n + 3) y = Some (0xF2 # 0xF2 # ?d @ x # y # t)" for x y
    using len by (simp_all add: buf_set_def list_update_append numeral_2_eq_2 numeral_3_eq_3)
  have get: "buf_gets (0xF2 # 0xF2 # ?d @ x # y # t) 0 (n + 4) = Some (0xF2 # 0xF2 # ?d @ [x, y])" for x y
    using len by (subst buf_gets_eq) (simp_all add: eval_nat_numeral)
  have drop: "drop (n + 4) out = t" by (simp add: out t eval_nat_numeral)
  show ?thesis
    unfolding wifi_send_packet_data_def n_def [symmetric] drop
    by (simp add: out loop set get del: add_2_eq_Suc')
qed

section \<open>Receiving\<close>

definition wifi_rx_inv :: "wifi_rx \<Rightarrow> bool" where
  "wifi_rx_inv s \<longleftrightarrow> length (wifi_data_buffer_recv_tmp s) = 100 \<and>
    length (wifi_recv_packet_buf_pub s) = 100 \<and>
    (unat (recieved_len s) \<le> 3 \<or>
     unat (wait_len s) \<le> 94 \<and> unat (wait_len_cnt s) \<le> unat (wait_len s) + 1 \<and>
     unat (recieved_len s) = 4 + unat (wait_len_cnt s))"

text \<open>The length byte of a frame must leave room for the frame in the buffer of 100 bytes.\<close>

definition wifi_rx_ok :: "wifi_rx \<Rightarrow> u8 \<Rightarrow> bool" where
  "wifi_rx_ok s b \<longleftrightarrow> (recieved_len s = 3 \<longrightarrow> unat b \<le> 94)"

lemma unat_inc_u8: "unat (w :: u8) < 255 \<Longrightarrow> unat (w + 1) = unat w + 1"
  by (simp add: unat_add_lem [THEN iffD1])

lemma rx_store_eq:
  "unat (recieved_len s) < length (wifi_data_buffer_recv_tmp s) \<Longrightarrow>
    rx_store b s = Some (s\<lparr>wifi_data_buffer_recv_tmp :=
        (wifi_data_buffer_recv_tmp s)[unat (recieved_len s) := b],
      recieved_len := recieved_len s + 1\<rparr>)"
  by (simp add: rx_store_def)

lemma u8_le_3: "\<not> (r :: u8) \<le> 3 \<longleftrightarrow> 4 \<le> unat r"
  by (auto simp: word_le_nat_alt)

lemma u8_eq_small: "(r :: u8) = 0 \<longleftrightarrow> unat r = 0" "r = 1 \<longleftrightarrow> unat r = 1" "r = 3 \<longleftrightarrow> unat r = 3"
  "r = 4 \<longleftrightarrow> unat r = 4"
  unfolding word_unat_eq_iff by simp_all

lemma wifi_rx_isr_safe:
  assumes inv: "wifi_rx_inv s" and ok: "wifi_rx_ok s b"
  shows "\<exists>s'. wifi_rx_isr s b = Some s' \<and> wifi_rx_inv s'"
proof -
  have len: "length (wifi_data_buffer_recv_tmp s) = 100" "length (wifi_recv_packet_buf_pub s) = 100"
    using inv by (simp_all add: wifi_rx_inv_def)
  have le: "unat (recieved_len s) \<le> 99"
    using inv by (auto simp: wifi_rx_inv_def)
  then have inc: "unat (recieved_len s + 1) = unat (recieved_len s) + 1" by (simp add: unat_inc_u8)
  consider "unat (recieved_len s) \<le> 2" | "unat (recieved_len s) = 3"
    | "4 \<le> unat (recieved_len s)" "unat (wait_len_cnt s) \<le> unat (wait_len s)"
    | "4 \<le> unat (recieved_len s)" "unat (wait_len_cnt s) = unat (wait_len s) + 1"
    using inv by (force simp: wifi_rx_inv_def)
  then show ?thesis
  proof cases
    case 1
    then show ?thesis using len inc
      by (auto simp: wifi_rx_isr_def rx_store_eq wifi_rx_inv_def u8_eq_small word_le_nat_alt)
  next
    case 2
    then show ?thesis using len inc ok
      by (auto simp: wifi_rx_isr_def rx_store_eq wifi_rx_inv_def u8_eq_small word_le_nat_alt wifi_rx_ok_def)
  next
    case 3
    then have "unat (wait_len_cnt s + 1) = unat (wait_len_cnt s) + 1"
      using inv by (intro unat_inc_u8) (auto simp: wifi_rx_inv_def)
    with 3 inv show ?thesis using len inc le
      by (auto simp: wifi_rx_isr_def rx_store_eq wifi_rx_inv_def u8_eq_small word_le_nat_alt)
  next
    case 4
    with inv show ?thesis using len inc le
      by (auto simp: wifi_rx_isr_def rx_store_eq wifi_rx_inv_def u8_eq_small word_le_nat_alt copy_loop_eq)
  qed
qed

interpretation wifi_isr: safe_machine wifi_rx_isr wifi_rx_inv wifi_rx_ok
  by unfold_locales (rule wifi_rx_isr_safe)

text \<open>The body of a frame, as long as it fits the buffer.\<close>

lemma rx_body:
  "unat (recieved_len s) = 4 + unat (wait_len_cnt s) \<Longrightarrow>
   unat (wait_len_cnt s) + length xs \<le> unat (wait_len s) + 1 \<Longrightarrow>
   unat (recieved_len s) + length xs \<le> 100 \<Longrightarrow>
   length (wifi_data_buffer_recv_tmp s) = 100 \<Longrightarrow>
   \<exists>t. run_steps wifi_rx_isr s xs = Some t \<and>
     unat (recieved_len t) = unat (recieved_len s) + length xs \<and>
     unat (wait_len_cnt t) = unat (wait_len_cnt s) + length xs \<and> wait_len t = wait_len s \<and>
     wifi_data_buffer_recv_tmp t = take (unat (recieved_len s)) (wifi_data_buffer_recv_tmp s) @ xs @
       drop (unat (recieved_len s) + length xs) (wifi_data_buffer_recv_tmp s) \<and>
     wifi_recv_packet_buf_pub t = wifi_recv_packet_buf_pub s \<and> wifi_uart_sem t = wifi_uart_sem s"
proof (induction xs arbitrary: s)
  case Nil
  then show ?case by simp
next
  case (Cons x xs)
  let ?r = "unat (recieved_len s)"
  let ?s1 = "s\<lparr>wait_len_cnt := wait_len_cnt s + 1,
    wifi_data_buffer_recv_tmp := (wifi_data_buffer_recv_tmp s)[?r := x],
    recieved_len := recieved_len s + 1\<rparr>"
  have inc: "unat (recieved_len s + 1) = ?r + 1" "unat (wait_len_cnt s + 1) = unat (wait_len_cnt s) + 1"
    using Cons.prems by (simp_all add: unat_inc_u8)
  have "wifi_rx_isr s x = Some ?s1"
    using Cons.prems by (simp add: wifi_rx_isr_def rx_store_eq u8_eq_small word_le_nat_alt)
  moreover have "take (Suc ?r) ((wifi_data_buffer_recv_tmp s)[?r := x]) =
      take ?r (wifi_data_buffer_recv_tmp s) @ [x]"
    by (rule take_Suc_update) (use Cons.prems in simp)
  ultimately show ?case
    using Cons.IH [of ?s1] Cons.prems inc by (simp add: add.assoc)
qed

text \<open>The header of a frame: start bytes, command and length.\<close>

lemma rx_header:
  assumes "recieved_len s = 0" "length (wifi_data_buffer_recv_tmp s) = 100"
  shows "run_steps wifi_rx_isr s [0xF1, 0xF1, cmd, n] =
    Some (s\<lparr>wait_len := n, wait_len_cnt := 0, recieved_len := 4,
      wifi_data_buffer_recv_tmp := [0xF1, 0xF1, cmd, n] @ drop 4 (wifi_data_buffer_recv_tmp s)\<rparr>)"
proof -
  obtain a b c d t where "wifi_data_buffer_recv_tmp s = a # b # c # d # t"
    using assms(2) by (auto simp: length_Suc_conv eval_nat_numeral)
  with assms show ?thesis
    by (simp add: wifi_rx_isr_def rx_store_def)
qed

definition wifi_idle :: "wifi_rx \<Rightarrow> bool" where
  "wifi_idle s \<longleftrightarrow> recieved_len s = 0 \<and> length (wifi_data_buffer_recv_tmp s) = 100 \<and>
    length (wifi_recv_packet_buf_pub s) = 100"

lemma rx_frame_states:
  assumes idle: "wifi_idle s" and n: "n \<le> 94" "length data = n"
    and fr_def: "fr = f1_frame (cmd # word_of_nat n # data) chk"
  shows "\<exists>t. run_steps wifi_rx_isr s fr = Some t \<and> wifi_idle t \<and>
    unat (wifi_recieve_data_length t) = n + 6 \<and>
    take (n + 6) (wifi_recv_packet_buf_pub t) = fr \<and> wifi_uart_sem t = wifi_uart_sem s + 1"
proof -
  let ?n = "word_of_nat n :: u8"
  have un: "unat ?n = n" using n(1) by (intro unat_word_of_nat_u8) simp
  have fr: "fr = [0xF1, 0xF1, cmd, ?n] @ (data @ [chk]) @ [0x7E]"
    by (simp add: fr_def f1_frame_def)
  define s1 where "s1 = s\<lparr>wait_len := ?n, wait_len_cnt := 0, recieved_len := 4,
    wifi_data_buffer_recv_tmp := [0xF1, 0xF1, cmd, ?n] @ drop 4 (wifi_data_buffer_recv_tmp s)\<rparr>"
  have len: "length (wifi_data_buffer_recv_tmp s) = 100" "length (wifi_recv_packet_buf_pub s) = 100"
    using idle by (simp_all add: wifi_idle_def)
  have hd: "run_steps wifi_rx_isr s [0xF1, 0xF1, cmd, ?n] = Some s1"
    unfolding s1_def by (rule rx_header) (use idle in \<open>simp_all add: wifi_idle_def\<close>)
  have s1: "unat (recieved_len s1) = 4" "unat (wait_len_cnt s1) = 0" "unat (wait_len s1) = n"
    "wait_len s1 = ?n"
    "wifi_recv_packet_buf_pub s1 = wifi_recv_packet_buf_pub s" "wifi_uart_sem s1 = wifi_uart_sem s"
    "length (wifi_data_buffer_recv_tmp s1) = 100"
    "take 4 (wifi_data_buffer_recv_tmp s1) = [0xF1, 0xF1, cmd, ?n]"
    using un len by (simp_all add: s1_def)
  have dr: "drop (4 + length (data @ [chk])) (wifi_data_buffer_recv_tmp s1)
      = drop (n + 5) (wifi_data_buffer_recv_tmp s)"
    unfolding s1_def using n(2) by (simp add: add.commute drop_Cons')
  have "\<exists>t. run_steps wifi_rx_isr s1 (data @ [chk]) = Some t \<and>
    unat (recieved_len t) = 4 + length (data @ [chk]) \<and> unat (wait_len_cnt t) = 0 + length (data @ [chk]) \<and>
    wait_len t = ?n \<and>
    wifi_data_buffer_recv_tmp t = [0xF1, 0xF1, cmd, ?n] @ (data @ [chk]) @ drop (n + 5) (wifi_data_buffer_recv_tmp s) \<and>
    wifi_recv_packet_buf_pub t = wifi_recv_packet_buf_pub s \<and> wifi_uart_sem t = wifi_uart_sem s"
    using rx_body [of s1 "data @ [chk]", unfolded s1 dr] n un by simp
  then obtain s2 where s2: "run_steps wifi_rx_isr s1 (data @ [chk]) = Some s2"
    "unat (recieved_len s2) = n + 5" "unat (wait_len_cnt s2) = n + 1" "wait_len s2 = ?n"
    "wifi_data_buffer_recv_tmp s2 = [0xF1, 0xF1, cmd, ?n] @ (data @ [chk]) @ drop (n + 5) (wifi_data_buffer_recv_tmp s)"
    "wifi_recv_packet_buf_pub s2 = wifi_recv_packet_buf_pub s" "wifi_uart_sem s2 = wifi_uart_sem s"
    using n(2) by auto
  have inc: "unat (recieved_len s2 + 1) = n + 6" using s2(2) n(1) by (simp add: unat_inc_u8)
  have tmp: "(wifi_data_buffer_recv_tmp s2)[n + 5 := 0x7E] = fr @ drop (n + 6) (wifi_data_buffer_recv_tmp s)"
  proof -
    have "drop (n + 5) (wifi_data_buffer_recv_tmp s) =
        wifi_data_buffer_recv_tmp s ! (n + 5) # drop (n + 6) (wifi_data_buffer_recv_tmp s)"
      using n(1) len(1) Cons_nth_drop_Suc [of "n + 5" "wifi_data_buffer_recv_tmp s"]
      by (simp add: add.commute)
    then show ?thesis using n(2) by (simp add: s2(5) fr list_update_append eval_nat_numeral)
  qed
  have "length fr = n + 6" using n(2) by (simp add: fr)
  then have copy: "copy_loop (wifi_recv_packet_buf_pub s) (fr @ drop (n + 6) (wifi_data_buffer_recv_tmp s)) 0 (n + 6)
      = Some (fr @ drop (n + 6) (wifi_recv_packet_buf_pub s))"
    using n len by (subst copy_loop_eq) simp_all
  have "length (wifi_data_buffer_recv_tmp s2) = 100" using n len by (simp add: s2(5))
  then have "wifi_rx_isr s2 0x7E = Some (s2\<lparr>wifi_data_buffer_recv_tmp := (wifi_data_buffer_recv_tmp s2)[n + 5 := 0x7E],
      wifi_recieve_data_length := recieved_len s2 + 1,
      wifi_recv_packet_buf_pub := fr @ drop (n + 6) (wifi_recv_packet_buf_pub s),
      recieved_len := 0, wait_len_cnt := 0, wait_len := 0, wifi_uart_sem := wifi_uart_sem s2 + 1\<rparr>)"
    using s2(2,3,4,6) n(1) un inc tmp copy
    by (simp add: wifi_rx_isr_def rx_store_eq u8_eq_small word_le_nat_alt)
  then have last: "\<exists>t. wifi_rx_isr s2 0x7E = Some t \<and> wifi_idle t \<and> unat (wifi_recieve_data_length t) = n + 6 \<and>
      take (n + 6) (wifi_recv_packet_buf_pub t) = fr \<and> wifi_uart_sem t = wifi_uart_sem s + 1"
    using \<open>length fr = n + 6\<close> n(1) len inc s2(7) by (simp add: wifi_idle_def tmp)
  have "run_steps wifi_rx_isr s fr =
    do { t1 \<leftarrow> run_steps wifi_rx_isr s [0xF1, 0xF1, cmd, ?n];
         t2 \<leftarrow> run_steps wifi_rx_isr t1 (data @ [chk]); wifi_rx_isr t2 0x7E }"
    unfolding fr by (simp only: run_steps_append) (simp cong: Option.bind_cong)
  with hd s2(1) last show ?thesis by simp
qed

text \<open>A frame announced longer than 94 bytes runs over the buffer.\<close>

lemma rx_overflow:
  assumes idle: "wifi_idle s" and n: "95 \<le> unat n" and body: "length body = 96"
  shows "run_steps wifi_rx_isr s ([0xF1, 0xF1, cmd, n] @ body @ b # rest) = None"
proof -
  define s1 where "s1 = s\<lparr>wait_len := n, wait_len_cnt := 0, recieved_len := 4,
    wifi_data_buffer_recv_tmp := [0xF1, 0xF1, cmd, n] @ drop 4 (wifi_data_buffer_recv_tmp s)\<rparr>"
  have hd: "run_steps wifi_rx_isr s [0xF1, 0xF1, cmd, n] = Some s1"
    unfolding s1_def by (rule rx_header) (use idle in \<open>simp_all add: wifi_idle_def\<close>)
  have s1: "unat (recieved_len s1) = 4" "unat (wait_len_cnt s1) = 0" "wait_len s1 = n"
    "length (wifi_data_buffer_recv_tmp s1) = 100"
    using idle by (simp_all add: s1_def wifi_idle_def)
  obtain s2 where s2: "run_steps wifi_rx_isr s1 body = Some s2" "unat (recieved_len s2) = 100"
    "unat (wait_len_cnt s2) = 96" "wait_len s2 = n" "length (wifi_data_buffer_recv_tmp s2) = 100"
    using rx_body [of s1 body, unfolded s1] n body s1(4) by auto
  have "wifi_rx_isr s2 b = None"
    using s2 n by (auto simp: wifi_rx_isr_def rx_store_def buf_set_def u8_eq_small word_le_nat_alt)
  then show ?thesis
    using hd s2(1) by (simp only: run_steps_append) simp
qed

section \<open>Properties\<close>

text \<open>
  C5: A frame of at most 94 data bytes fed to the receive interrupt from its idle state is handed
  over: the public buffer starts with the frame, its length is set, the semaphore is released once,
  the machine is idle again, and the check accepts the buffer exactly if the frame's checksum byte
  is the sum of command, length and data.
\<close>

theorem wifi_frame_received:
  assumes "wifi_idle s" "length data \<le> 94" and p_def: "p = cmd # word_of_nat (length data) # data"
  shows "\<exists>t. run_steps wifi_rx_isr s (f1_frame p chk) = Some t \<and> wifi_idle t \<and>
    take (length data + 6) (wifi_recv_packet_buf_pub t) = f1_frame p chk \<and>
    wifi_uart_sem t = wifi_uart_sem s + 1 \<and>
    wifi_receive_data_check (wifi_recv_packet_buf_pub t) (wifi_recieve_data_length t) =
      Some (if sum_list p = chk then 1 else 0)"
proof -
  obtain t where t: "run_steps wifi_rx_isr s (f1_frame p chk) = Some t" "wifi_idle t"
    "unat (wifi_recieve_data_length t) = length data + 6"
    "take (length data + 6) (wifi_recv_packet_buf_pub t) = f1_frame p chk"
    "wifi_uart_sem t = wifi_uart_sem s + 1"
    using rx_frame_states [OF assms(1,2) refl refl, of cmd chk] unfolding p_def by blast
  have len: "wifi_recieve_data_length t = word_of_nat (length p + 4)"
  proof -
    have "wifi_recieve_data_length t = word_of_nat (unat (wifi_recieve_data_length t))" by simp
    also have "unat (wifi_recieve_data_length t) = length p + 4" by (simp add: t(3) p_def)
    finally show ?thesis .
  qed
  have pub: "wifi_recv_packet_buf_pub t = f1_frame p chk @ drop (length data + 6) (wifi_recv_packet_buf_pub t)"
    using t(4) by (metis append_take_drop_id)
  have "wifi_receive_data_check (wifi_recv_packet_buf_pub t) (wifi_recieve_data_length t) =
      Some (if sum_list p = chk then 1 else 0)"
    unfolding len by (subst pub, rule check_f1_frame) (use assms(2) in \<open>simp add: p_def\<close>)
  with t show ?thesis by blast
qed

theorem wifi_frame_received_witness:
  "\<exists>t. run_steps wifi_rx_isr \<lparr> wait_len = 0, wait_len_cnt = 0, recieved_len = 0,
      wifi_data_buffer_recv_tmp = replicate 100 0, wifi_recv_packet_buf_pub = replicate 100 0,
      wifi_recieve_data_length = 0, wifi_uart_sem = 0 \<rparr> (f1_frame [0x02, 1, 1] 4) = Some t \<and>
    wifi_receive_data_check (wifi_recv_packet_buf_pub t) (wifi_recieve_data_length t) = Some 1"
  using wifi_frame_received [of "\<lparr> wait_len = 0, wait_len_cnt = 0, recieved_len = 0,
      wifi_data_buffer_recv_tmp = replicate 100 0, wifi_recv_packet_buf_pub = replicate 100 0,
      wifi_recieve_data_length = 0, wifi_uart_sem = 0 \<rparr>" "[1]" "[0x02, 1, 1]" "0x02" 4]
  by (auto simp: wifi_idle_def)

text \<open>
  C8: While every announced length is at most 94, no sequence of received bytes makes the interrupt
  handler leave its buffers.
\<close>

theorem wifi_rx_no_overflow:
  assumes "wifi_rx_inv s" "inputs_ok wifi_rx_isr wifi_rx_ok s bytes"
  shows "\<exists>t. run_steps wifi_rx_isr s bytes = Some t \<and> wifi_rx_inv t"
  by (rule wifi_isr.run_safe [OF assms])

theorem wifi_rx_no_overflow_witness:
  "\<exists>t. run_steps wifi_rx_isr \<lparr> wait_len = 0, wait_len_cnt = 0, recieved_len = 0,
      wifi_data_buffer_recv_tmp = replicate 100 0, wifi_recv_packet_buf_pub = replicate 100 0,
      wifi_recieve_data_length = 0, wifi_uart_sem = 0 \<rparr> [0xF1, 0x33, 0xF1, 0xF1, 0x01, 1] = Some t \<and>
    wifi_rx_inv t"
  by (rule wifi_rx_no_overflow)
    (simp_all add: wifi_rx_inv_def wifi_rx_isr_def rx_store_def wifi_rx_ok_def)

text \<open>
  The bound is sharp: any frame that announces 95 or more bytes writes beyond the receive
  buffer of 100 bytes when its 97th body byte arrives, although the sender chooses the length byte.
\<close>

lemma wifi_rx_overflow:
  assumes "wifi_idle s" "95 \<le> unat n" "96 < length body"
  shows "run_steps wifi_rx_isr s ([0xF1, 0xF1, cmd, n] @ body) = None"
proof -
  have "body = take 96 body @ body ! 96 # drop 97 body"
    using id_take_nth_drop [OF assms(3)] by simp
  then show ?thesis using rx_overflow [OF assms(1,2), of "take 96 body"] assms(3)
    by (metis length_take min.absorb2 less_imp_le)
qed

lemma wifi_rx_overflow_witness:
  "run_steps wifi_rx_isr \<lparr> wait_len = 0, wait_len_cnt = 0, recieved_len = 0,
      wifi_data_buffer_recv_tmp = replicate 100 0, wifi_recv_packet_buf_pub = replicate 100 0,
      wifi_recieve_data_length = 0, wifi_uart_sem = 0 \<rparr> ([0xF1, 0xF1, 0x01, 95] @ replicate 97 0) = None"
  by (rule wifi_rx_overflow) (simp_all add: wifi_idle_def)

text \<open>
  A reply carries its payload between the marks, and its checksum byte is the payload's sum
  offset by the initial content of the local \<open>chk\<close>: it is right exactly when that content is zero.
\<close>

lemma wifi_reply_checksum:
  assumes "unat len \<le> length buf" "unat len + 4 \<le> length out"
  shows "\<exists>out' sent. wifi_send_packet_data chk0 out buf len = Some (out', sent) \<and>
    take 2 sent = [0xF2, 0xF2] \<and> take (unat len) (drop 2 sent) = take (unat len) buf \<and>
    sent ! (unat len + 3) = 0x7E \<and> length sent = unat len + 4 \<and> length out' = length out \<and>
    (sent ! (unat len + 2) = sum_list (take (unat len) buf) \<longleftrightarrow> chk0 = 0)"
proof -
  let ?d = "take (unat len) buf"
  have n: "length ?d = unat len" using assms(1) by simp
  show ?thesis
    using assms(2) n
    by (simp add: wifi_send_packet_data_eq [OF assms] Let_def nth_append numeral_2_eq_2 numeral_3_eq_3)
qed

lemma wifi_reply_checksum_witness:
  "\<exists>out' sent. wifi_send_packet_data 5 (replicate 100 0) [1, 2] 2 = Some (out', sent) \<and>
    take 2 sent = [0xF2, 0xF2] \<and> take 2 (drop 2 sent) = [1, 2] \<and> sent ! 5 = 0x7E \<and>
    length sent = 6 \<and> length out' = 100 \<and> (sent ! 4 = 3 \<longleftrightarrow> (5 :: u8) = 0)"
  using wifi_reply_checksum [of 2 "[1, 2]" "replicate 100 0" 5] by simp

end
