(* ===== verification/Wifi_Factory.thy ===== *)
theory Wifi_Factory
  imports Wifi_Link
begin

text \<open>
  Setting the Wi-Fi module to its factory settings, \<open>wifi_factory_set\<close> of \<open>miotlink/wifi_mod_uart.c\<close>: the two loops
  that collect the answer of the module in the local array \<open>datatmp\<close> of 22 bytes. One element of the input is one round
  of a loop: \<open>None\<close> if the semaphore was not released within three seconds, otherwise the bytes that were read until
  the driver had none left. No rounds left means that the loop has not ended, a byte behind the array is \<open>None\<close> too.
\<close>

section \<open>Strings\<close>

definition wifi_enter_at_mode :: "u8 list" where
  "wifi_enter_at_mode = [0x2B, 0x2B, 0x2B, 0x41, 0x74, 0x43, 0x6D, 0x64, 0x0D, 0x0A]"

definition wifi_enter_at_mode_return :: "u8 list" where
  "wifi_enter_at_mode_return = [0x41, 0x54, 0x2B, 0x43, 0x4D, 0x44, 0x3D, 0x4F, 0x4B, 0x0D, 0x0A]"

definition wifi_set_factory :: "u8 list" where
  "wifi_set_factory = [0x41, 0x54, 0x2B, 0x44, 0x65, 0x66, 0x61, 0x75, 0x6C, 0x74, 0x3D, 0x31, 0x0D, 0x0A]"

definition wifi_set_factory_return :: "u8 list" where
  "wifi_set_factory_return = [0x41, 0x54, 0x2B, 0x44, 0x65, 0x66, 0x61, 0x75, 0x6C, 0x74, 0x3D, 0x4F, 0x4B, 0x0D, 0x0A]"

text \<open>Does \<open>strncmp (a, b, n)\<close> return 0? The strings are given with their terminating zeros, if they have one.\<close>

fun strncmp_is_0 :: "u8 list \<Rightarrow> u8 list \<Rightarrow> nat \<Rightarrow> bool option" where
  "strncmp_is_0 a b 0 = Some True"
| "strncmp_is_0 (x # a) (y # b) (Suc n) = (if x \<noteq> y then Some False else if x = 0 then Some True else strncmp_is_0 a b n)"
| "strncmp_is_0 _ _ (Suc n) = None"

section \<open>Waiting for an answer\<close>

datatype factory_end = Answered | Gave_Up | Last_Byte_0

text \<open>\<open>while (rt_device_read (...) == 1) datatmp[len++] = ch\<close>.\<close>

fun collect :: "u8 list \<Rightarrow> u8 \<times> u8 \<times> u8 list \<Rightarrow> (u8 \<times> u8 \<times> u8 list) option" where
  "collect [] (len, ch, tmp) = Some (len, ch, tmp)"
| "collect (b # bs) (len, ch, tmp) = do { tmp1 \<leftarrow> buf_set tmp (unat len) b; collect bs (len + 1, b, tmp1) }"

text \<open>
  The first loop is \<open>while (1)\<close>, the second, with the flag \<open>second\<close>, is \<open>while (ch)\<close>: there \<open>ch\<close> is also the last byte
  that was read. The length is compared less one.
\<close>

fun await_answer ::
  "bool \<Rightarrow> u8 list \<Rightarrow> u8 \<Rightarrow> u8 \<times> u8 \<times> u8 list \<Rightarrow> u8 list option list \<Rightarrow> (factory_end \<times> u8 list \<times> u8 list option list) option" where
  "await_answer second expected cnt (len, ch, tmp) [] = (if second \<and> ch = 0 then Some (Last_Byte_0, tmp, []) else None)"
| "await_answer second expected cnt (len, ch, tmp) (i # ins) =
    (if second \<and> ch = 0 then Some (Last_Byte_0, tmp, i # ins)
     else do {
       (len1, ch1, tmp1) \<leftarrow> (case i of None \<Rightarrow> Some (len, ch, tmp) | Some bs \<Rightarrow> collect bs (len, ch, tmp));
       same \<leftarrow> (if length expected \<le> unat len1 then strncmp_is_0 (expected @ [0]) tmp1 (unat len1 - 1) else Some False);
       let cnt1 = (if len1 = 0 then cnt + 1 else cnt);
       (if same then Some (Answered, tmp1, ins)
        else if 3 < cnt1 then Some (Gave_Up, tmp1, ins)
        else await_answer second expected cnt1 (len1, ch1, tmp1) ins) })"

section \<open>When a wait ends\<close>

definition bytes_in :: "u8 list option list \<Rightarrow> u8 list" where
  "bytes_in ins = concat (map (\<lambda>i. case i of None \<Rightarrow> [] | Some bs \<Rightarrow> bs) ins)"

lemma bytes_in_simps [simp]:
  "bytes_in [] = []" "bytes_in (None # ins) = bytes_in ins" "bytes_in (Some bs # ins) = bs @ bytes_in ins"
  by (simp_all add: bytes_in_def)

text \<open>The module says nothing in the first four rounds, or after some round exactly the expected answer has come.\<close>

definition module_answers :: "u8 list \<Rightarrow> u8 list option list \<Rightarrow> bool" where
  "module_answers expected ins \<longleftrightarrow>
     4 \<le> length ins \<and> bytes_in (take 4 ins) = [] \<or> (\<exists>k \<le> length ins. bytes_in (take k ins) = expected)"

definition collected :: "u8 list \<Rightarrow> u8 \<Rightarrow> u8 list \<Rightarrow> bool" where
  "collected acc len tmp \<longleftrightarrow> length tmp = 22 \<and> unat len = length acc \<and> take (length acc) tmp = acc"

lemma collect_ok:
  assumes "collected acc len tmp" "length acc + length bs \<le> 22"
  shows "\<exists>len1 ch1 tmp1. collect bs (len, ch, tmp) = Some (len1, ch1, tmp1) \<and> collected (acc @ bs) len1 tmp1 \<and>
    ch1 = (if bs = [] then ch else last bs)"
  using assms
proof (induction bs arbitrary: acc len ch tmp)
  case (Cons b bs)
  have l: "unat len < length tmp" "unat (len + 1) = unat len + 1"
    using Cons.prems unat_inc_u8 [of len] by (auto simp: collected_def)
  have "take (Suc (length acc)) (tmp[length acc := b]) = acc @ [b]"
    using Cons.prems by (simp add: collected_def take_Suc_conv_app_nth)
  then have "collected (acc @ [b]) (len + 1) (tmp[unat len := b])"
    using Cons.prems(1) l by (simp add: collected_def)
  from Cons.IH [OF this, of b] Cons.prems(2) obtain len1 ch1 tmp1 where
    "collect bs (len + 1, b, tmp[unat len := b]) = Some (len1, ch1, tmp1)" "collected ((acc @ [b]) @ bs) len1 tmp1"
    "ch1 = (if bs = [] then b else last bs)" by auto
  then show ?case using l(1) by simp
qed simp

lemma strncmp_prefix:
  "n \<le> length a \<Longrightarrow> n \<le> length b \<Longrightarrow> take n a = take n b \<Longrightarrow> strncmp_is_0 a b n = Some True"
  by (induction a b n rule: strncmp_is_0.induct) auto

text \<open>The rest of an answer: it is accepted at the latest when it is complete.\<close>

lemma await_rest:
  assumes "collected acc len tmp" "acc @ bytes_in (take k ins) = expected" "k \<le> length ins" "expected \<noteq> []" "length expected \<le> 22"
    "0 \<notin> set expected" "ch \<noteq> 0" "length acc < length expected"
  shows "\<exists>e tmp' ins'. await_answer second expected cnt (len, ch, tmp) ins = Some (e, tmp', ins') \<and> length tmp' = 22"
  using assms
proof (induction k arbitrary: acc len tmp ins ch cnt)
  case (Suc k)
  then obtain i rest where ins: "ins = i # rest" by (cases ins) auto
  define bs where "bs = (case i of None \<Rightarrow> [] | Some bs \<Rightarrow> bs)"
  have e: "(acc @ bs) @ bytes_in (take k rest) = expected" using Suc.prems(2) by (cases i) (simp_all add: ins bs_def)
  have le: "length acc + length bs \<le> length expected" unfolding e [symmetric] by simp
  obtain len1 ch1 tmp1 where c: "(case i of None \<Rightarrow> Some (len, ch, tmp) | Some bs \<Rightarrow> collect bs (len, ch, tmp)) = Some (len1, ch1, tmp1)"
    "collected (acc @ bs) len1 tmp1" "ch1 = (if bs = [] then ch else last bs)"
    using collect_ok [OF Suc.prems(1), of bs ch] le Suc.prems(1,5) by (cases i) (auto simp: bs_def)
  have ch1: "ch1 \<noteq> 0"
  proof (cases "bs = []")
    case False
    then have "last bs \<in> set expected" unfolding e [symmetric] by simp
    then show ?thesis using c(3) False Suc.prems(6) by auto
  qed (use c(3) Suc.prems(7) in simp)
  have t: "length tmp1 = 22" "unat len1 = length acc + length bs" "take (length acc + length bs) tmp1 = acc @ bs"
    using c(2) by (simp_all add: collected_def)
  show ?case
  proof (cases "length (acc @ bs) < length expected")
    case True
    have ih: "\<exists>e tmp' ins'. await_answer second expected cnt1 (len1, ch1, tmp1) rest = Some (e, tmp', ins') \<and> length tmp' = 22" for cnt1
      by (rule Suc.IH [OF c(2) e _ Suc.prems(4-6) ch1 True]) (use Suc.prems(3) ins in simp)
    show ?thesis using ih c(1) t Suc.prems(7) True unfolding ins by (auto simp: Let_def)
  next
    case False
    then have all: "acc @ bs = expected" "length acc + length bs = length expected" using e le by auto
    have "take (length expected - 1) tmp1 = take (length expected - 1) (take (length expected) tmp1)" by simp
    also have "\<dots> = take (length expected - 1) expected" using t(3) all by simp
    finally have "strncmp_is_0 (expected @ [0]) tmp1 (unat len1 - 1) = Some True"
      using t all Suc.prems(5) by (intro strncmp_prefix) simp_all
    then show ?thesis using c(1) t all(2) Suc.prems(7) unfolding ins by (simp add: Let_def)
  qed
qed simp

lemma await_silence:
  assumes "length expected \<noteq> 0" "length tmp = 22" "ch \<noteq> 0" "unat cnt + n = 4" "n \<le> length ins" "bytes_in (take n ins) = []" "0 < n"
  shows "\<exists>e tmp' ins'. await_answer second expected cnt (0, ch, tmp) ins = Some (e, tmp', ins') \<and> length tmp' = 22"
  using assms
proof (induction n arbitrary: cnt ins)
  case (Suc n)
  then obtain i rest where ins: "ins = i # rest" by (cases ins) auto
  have i: "i = None \<or> i = Some []" "bytes_in (take n rest) = []" using Suc.prems(6) by (cases i; simp add: ins)+
  have c: "unat (cnt + 1) = unat cnt + 1" using Suc.prems(4) by (intro unat_inc_u8) simp
  have r: "await_answer second expected cnt (0, ch, tmp) ins =
      (if 3 < cnt + 1 then Some (Gave_Up, tmp, rest) else await_answer second expected (cnt + 1) (0, ch, tmp) rest)"
    using i(1) Suc.prems(1,3) by (auto simp: ins Let_def)
  show ?case
  proof (cases "n = 0")
    case True
    then have "3 < cnt + 1" using c Suc.prems(4) by (simp add: word_less_nat_alt)
    then show ?thesis using r Suc.prems(2) by simp
  next
    case False
    have "\<exists>e tmp' ins'. await_answer second expected (cnt + 1) (0, ch, tmp) rest = Some (e, tmp', ins') \<and> length tmp' = 22"
      by (rule Suc.IH) (use Suc.prems c i(2) ins False in auto)
    then show ?thesis using r Suc.prems(2) by auto
  qed
qed simp

lemma await_ends:
  assumes "module_answers expected ins" "expected \<noteq> []" "length expected \<le> 22" "0 \<notin> set expected" "length tmp = 22"
  shows "\<exists>e tmp' ins'. await_answer second expected 0 (0, 1, tmp) ins = Some (e, tmp', ins') \<and> length tmp' = 22"
  using assms(1) unfolding module_answers_def
proof (elim disjE exE conjE)
  assume "4 \<le> length ins" "bytes_in (take 4 ins) = []"
  then show ?thesis using await_silence [of expected tmp 1 0 4 ins second] assms(2,5) by simp
next
  fix k assume "k \<le> length ins" "bytes_in (take k ins) = expected"
  then show ?thesis
    using await_rest [of "[]" 0 tmp k ins expected 1 second 0] assms(2-5) by (simp add: collected_def)
qed

section \<open>What goes wrong\<close>

text \<open>Twenty-three bytes overrun the array, also if the first of them are the right answer.\<close>

lemma collect_overflows:
  "collected acc len tmp \<Longrightarrow> 22 < length acc + length bs \<Longrightarrow> collect bs (len, ch, tmp) = None"
proof (induction bs arbitrary: acc len ch tmp)
  case Nil
  then have "length acc \<le> 22" by (metis collected_def length_take min.cobounded1)
  with Nil show ?case by simp
next
  case (Cons b bs)
  show ?case
  proof (cases "length acc < 22")
    case True
    have l: "unat len < length tmp" "unat (len + 1) = unat len + 1"
      using Cons.prems True unat_inc_u8 [of len] by (auto simp: collected_def)
    have "take (Suc (length acc)) (tmp[length acc := b]) = acc @ [b]"
      using Cons.prems True by (simp add: collected_def take_Suc_conv_app_nth)
    then have "collected (acc @ [b]) (len + 1) (tmp[unat len := b])"
      using Cons.prems(1) l by (simp add: collected_def)
    from Cons.IH [OF this, of b] Cons.prems(2) show ?thesis using l(1) by simp
  next
    case False
    then show ?thesis using Cons.prems(1) by (simp add: collected_def buf_set_def)
  qed
qed

lemma factory_overflow:
  assumes "length tmp = 22" "22 < length bs"
  shows "await_answer False expected cnt (0, ch, tmp) (Some bs # ins) = None"
  using collect_overflows [of "[]" 0 tmp bs ch] assms by (simp add: collected_def)

text \<open>
  A byte that does not belong to the answer, and then silence: the count of silent rounds is not advanced any more, and
  the loop goes on for ever, with \<open>modbus_mutex\<close> held.
\<close>

lemma factory_never_returns:
  assumes "length tmp = 22" "2 \<le> length expected"
  shows "await_answer False expected 0 (0, 1, tmp) (Some [b] # replicate n None) = None"
proof -
  have "await_answer False expected 0 (1, c, t) (replicate n None) = None" for c t
    using assms(2) by (induction n) simp_all
  then show ?thesis using assms by simp
qed

end
