(* ===== verification/Air_Control.thy ===== *)
theory Air_Control
  imports Device_Data Spi_Flash Wifi_Factory
begin

text \<open>
  The control logic of the air cleaner, \<open>applications/application.c\<close> with the parameter area of
  \<open>miotlink/wifi_mod_uart.c\<close>: output pins, work modes, the automatic mode, power on and off, the
  switch-off timer, the fault check, and the exchange with the display board. The state \<open>board\<close>
  collects the globals of these files, the output register of port B, the parameter flash (as the
  memory the driver implements) and a trace of locks and transmissions. What the environment
  supplies to one call is the record \<open>world\<close>: uninitialised locals, the outcome of the one bus
  transaction a handler makes, and what the Wi-Fi module says when its factory settings are restored
  (the rounds of the two waits, \<open>Wifi_Factory\<close>, and whether the reading thread could be created again).
\<close>

section \<open>State\<close>

datatype mutex = MODBUS_MUTEX | MOTOR_MUTEX | WIFI_SEND_MUTEX

datatype event = Take mutex | Release mutex | Rs485_Send "u8 list" | Wifi_Send "u8 list"
  | Reader_Deleted | Reader_Started

text \<open>The result codes of a master request, \<open>mb_m.h\<close>.\<close>

datatype eMBMasterReqErrCode = MB_MRE_NO_ERR | MB_MRE_NO_REG | MB_MRE_ILL_ARG | MB_MRE_REV_DATA
  | MB_MRE_TIMEDOUT | MB_MRE_MASTER_BUSY | MB_MRE_EXE_FUN

record board =
  device_work_data :: para_type
  device_work_data_auto :: para_type
  device_work_data_bak :: para_type
  device_power_state_pre :: u8
  GPIOB_ODR :: u16
  param_flash :: "nat \<Rightarrow> u8"
  rs485_send_buf_not_modbus :: "u8 list"
  ucMasterRTURcvBuf :: "u8 list"
  wifi_send_packet_buf_pub :: "u8 list"
  power_state_pre :: u8
  power_tim_cnt :: u32
  fault_state_pre :: u8
  wifi_thread_id :: bool
  trace :: "event list"

record world =
  w_chk :: u8
  w_chk_wifi :: u8
  w_stack :: "u8 list"
  w_err :: eMBMasterReqErrCode
  w_rcv :: "u8 list"
  w_datatmp :: "u8 list"
  w_enter :: "u8 list option list"
  w_default :: "u8 list option list"
  w_thread :: bool

definition log :: "event \<Rightarrow> board \<Rightarrow> board" where
  "log e b = b\<lparr>trace := trace b @ [e]\<rparr>"

text \<open>The lengths of the C arrays.\<close>

definition board_wf :: "board \<Rightarrow> bool" where
  "board_wf b \<longleftrightarrow> length (rs485_send_buf_not_modbus b) = 50 \<and> length (ucMasterRTURcvBuf b) = 256 \<and>
    length (wifi_send_packet_buf_pub b) = 100"

definition world_wf :: "world \<Rightarrow> bool" where
  "world_wf w \<longleftrightarrow> length (w_stack w) = 10 \<and> length (w_rcv w) = 256"

section \<open>Output pins\<close>

definition GPIO_SetBits :: "nat \<Rightarrow> board \<Rightarrow> board" where
  "GPIO_SetBits pin b = b\<lparr>GPIOB_ODR := set_bit pin (GPIOB_ODR b)\<rparr>"

definition GPIO_ResetBits :: "nat \<Rightarrow> board \<Rightarrow> board" where
  "GPIO_ResetBits pin b = b\<lparr>GPIOB_ODR := unset_bit pin (GPIOB_ODR b)\<rparr>"

definition ac_esd_set :: "u8 \<Rightarrow> board \<Rightarrow> board" where
  "ac_esd_set mode b = (if mode \<noteq> 0 then GPIO_SetBits 1 b else GPIO_ResetBits 1 b)"

definition ac_ac_motor_set :: "u8 \<Rightarrow> board \<Rightarrow> board" where
  "ac_ac_motor_set mode b =
    (if mode = 1 then GPIO_ResetBits 13 (GPIO_ResetBits 12 (GPIO_SetBits 14 b))
     else if mode = 3 then GPIO_ResetBits 13 (GPIO_SetBits 12 (GPIO_ResetBits 14 b))
     else if mode = 2 then GPIO_SetBits 13 (GPIO_ResetBits 12 (GPIO_ResetBits 14 b))
     else GPIO_ResetBits 13 (GPIO_ResetBits 12 (GPIO_ResetBits 14 b)))"

definition ac_pht_set :: "u8 \<Rightarrow> board \<Rightarrow> board" where
  "ac_pht_set mode b =
    (let mode = (if 1 < mode then 1 else mode)
     in if mode \<noteq> 0 then GPIO_SetBits 15 b else GPIO_ResetBits 15 b)"

definition airclean_out_pin_init :: "board \<Rightarrow> board" where
  "airclean_out_pin_init b = ac_ac_motor_set 1 (ac_pht_set 1 (ac_esd_set 1 b))"

section \<open>The DC motor and the bus\<close>

definition set_dc_motor_speed :: "u8 \<Rightarrow> board \<Rightarrow> board" where
  "set_dc_motor_speed speed b =
    (let s = (if 3 < speed then 3 else speed)
     in b\<lparr>rs485_send_buf_not_modbus :=
          [0xBC, 0x07, 0x01, s, 0xBC + 0x07 + 0x01 + s] @ drop 5 (rs485_send_buf_not_modbus b)\<rparr>)"

text \<open>
  A transaction on the bus: the receive buffer's first byte is cleared, \<open>len\<close> bytes of the send
  buffer are transmitted, and the environment determines the result and the received bytes.
\<close>

definition bus_request :: "world \<Rightarrow> nat \<Rightarrow> board \<Rightarrow> board" where
  "bus_request w len b =
    (let b1 = b\<lparr>ucMasterRTURcvBuf := (ucMasterRTURcvBuf b)[0 := 0]\<rparr>;
         b2 = log (Rs485_Send (take len (rs485_send_buf_not_modbus b1))) b1
     in if w_err w = MB_MRE_REV_DATA then b2\<lparr>ucMasterRTURcvBuf := w_rcv w\<rparr> else b2)"

definition set_fault :: "u8 \<Rightarrow> u8 \<Rightarrow> board \<Rightarrow> board" where
  "set_fault t v b = b\<lparr>device_work_data := fault_set_bit t v (device_work_data b)\<rparr>"

definition set_dc_motor :: "world \<Rightarrow> board \<Rightarrow> board" where
  "set_dc_motor w b =
    (let b1 = (if device_power_state (device_work_data b) = 0 then set_dc_motor_speed 0 b
               else set_dc_motor_speed (wind_speed_state (device_work_data b)) b);
         b2 = bus_request w 5 b1
     in if w_err w = MB_MRE_REV_DATA then
          (let rcv = ucMasterRTURcvBuf b2
           in if rcv ! 0 = 0xBC \<and> rcv ! 1 = 0x07 then
                (let tmp = rcv ! 3
                 in if tmp AND 0x03 \<noteq> 0 then set_fault FAULT_MOTOR_BIT 1 b2
                    else set_fault FAULT_MOTOR_BIT 0 b2)
              else b2)
        else b2)"

text \<open>Packing: uninitialised \<open>chk\<close>, the loop shared with the Wi-Fi packing.\<close>

definition disp_board_packet_data :: "world \<Rightarrow> u8 \<Rightarrow> u8 list \<Rightarrow> board \<Rightarrow> board option" where
  "disp_board_packet_data w len stack35 b = do {
     buftmp \<leftarrow> buf_puts stack35 0 ([0x01, 0x1b] @ take 27 (device_data (device_work_data b)));
     out1 \<leftarrow> buf_puts (rs485_send_buf_not_modbus b) 0 [0xF2, 0xF2];
     (out2, chk) \<leftarrow> pack_loop buftmp 0 (unat len) out1 (w_chk w);
     out3 \<leftarrow> buf_puts out2 (unat len + 2) [chk, 0x7E];
     Some (b\<lparr>rs485_send_buf_not_modbus := out3\<rparr>) }"

definition send_packet_data :: "world \<Rightarrow> u8 \<Rightarrow> u8 list \<Rightarrow> board \<Rightarrow> board option" where
  "send_packet_data w len buftmp b = do {
     out1 \<leftarrow> buf_puts (rs485_send_buf_not_modbus b) 0 [0xF1, 0xF1];
     (out2, chk) \<leftarrow> pack_loop buftmp 0 (unat len) out1 (w_chk w);
     out3 \<leftarrow> buf_puts out2 (unat len + 2) [chk, 0x7E];
     Some (b\<lparr>rs485_send_buf_not_modbus := out3\<rparr>) }"

text \<open>All three assignments of the source go to \<open>tmpbuf[0]\<close>.\<close>

definition set_dispboard_function_mode :: "world \<Rightarrow> u8 \<Rightarrow> u8 \<Rightarrow> board \<Rightarrow> board option" where
  "set_dispboard_function_mode w type mode b = do {
     tmp1 \<leftarrow> buf_set (w_stack w) 0 type;
     tmp2 \<leftarrow> buf_set tmp1 0 0x01;
     tmp3 \<leftarrow> buf_set tmp2 0 mode;
     b1 \<leftarrow> send_packet_data w 3 tmp3 (log (Take MODBUS_MUTEX) b);
     Some (log (Release MODBUS_MUTEX) (bus_request w 7 b1)) }"

definition set_display_board_data :: "world \<Rightarrow> u8 list \<Rightarrow> board \<Rightarrow> board option" where
  "set_display_board_data w stack35 b = do {
     b1 \<leftarrow> disp_board_packet_data w 29 stack35 (log (Take MODBUS_MUTEX) b);
     Some (log (Release MODBUS_MUTEX) (bus_request w 33 b1)) }"

section \<open>The parameter area\<close>

abbreviation (input) SYS_PARA_FLAG_ADDR :: nat where "SYS_PARA_FLAG_ADDR \<equiv> 2"
abbreviation (input) SYS_PARA_START_ADDR :: nat where "SYS_PARA_START_ADDR \<equiv> 10"

definition read_sys_para :: "(nat \<Rightarrow> u8) \<Rightarrow> para_type \<Rightarrow> para_type" where
  "read_sys_para m p =
    (if flash_get m SYS_PARA_FLAG_ADDR 1 = [0x86]
     then para_of_bytes (flash_get m SYS_PARA_START_ADDR 6 @ drop 6 (union_bytes p))
     else p)"

definition device_sys_para_get :: "board \<Rightarrow> board" where
  "device_sys_para_get b =
    b\<lparr>device_work_data := (read_sys_para (param_flash b) (device_work_data b))\<lparr>fault_state := 0\<rparr>\<rparr>"

definition device_sys_para_save :: "board \<Rightarrow> board" where
  "device_sys_para_save b =
    b\<lparr>param_flash := flash_put (flash_put (param_flash b) SYS_PARA_FLAG_ADDR [0x86])
       SYS_PARA_START_ADDR (take 6 (device_data (device_work_data b)))\<rparr>"

section \<open>Power\<close>

definition airclean_power_onoff :: "u8 \<Rightarrow> board \<Rightarrow> board" where
  "airclean_power_onoff mode b =
    (if 1 < mode then b
     else
       (let b1 = (if mode \<noteq> 0 then
                    (let g = device_sys_para_get b; p = device_work_data g
                     in ac_ac_motor_set (wind_speed_state p)
                          (ac_pht_set (pht_work_state p) (ac_esd_set (high_pressur_state p) g)))
                  else ac_ac_motor_set 0 (ac_pht_set 0 (ac_esd_set 0 (device_sys_para_save b))))
        in if mode \<noteq> 0 then b1\<lparr>device_work_data := device_work_data b1\<lparr>device_power_state := 1\<rparr>\<rparr>
           else b1\<lparr>device_work_data := device_work_data b1\<lparr>device_power_state := 0\<rparr>\<rparr>))"

text \<open>The loop clears all 28 bytes of the union.\<close>

definition device_state_init :: "board \<Rightarrow> board" where
  "device_state_init b =
    (let b1 = b\<lparr>device_work_data := para_of_bytes (replicate 28 0), device_power_state_pre := 0xff\<rparr>;
         b2 = b1\<lparr>device_work_data :=
                (read_sys_para (param_flash b1) (device_work_data b1))\<lparr>fault_state := 0\<rparr>\<rparr>
     in airclean_power_onoff 1 b2)"

section \<open>Commands\<close>

abbreviation (input) upd_data :: "(para_type \<Rightarrow> para_type) \<Rightarrow> board \<Rightarrow> board" where
  "upd_data f b \<equiv> b\<lparr>device_work_data := f (device_work_data b)\<rparr>"

text \<open>The loop over the first six bytes: save once if one of them changed.\<close>

definition save_if_changed :: "board \<Rightarrow> board" where
  "save_if_changed b =
    (if take 6 (device_data (device_work_data_bak b)) \<noteq> take 6 (device_data (device_work_data b))
     then device_sys_para_save b else b)"

text \<open>The switch on the command type; \<open>None\<close> is the default branch, which returns at once.\<close>

definition work_mode_switch :: "u8 \<Rightarrow> u8 \<Rightarrow> board \<Rightarrow> board option" where
  "work_mode_switch type data b =
    (if type = 0x02 then
       (if data \<noteq> 0 then Some (airclean_power_onoff 1 (upd_data (device_power_state_update (\<lambda>_. 1)) b))
        else Some (airclean_power_onoff 0 (upd_data (device_power_state_update (\<lambda>_. 0)) b)))
     else if type = 0x03 then
       (if data = 1 \<or> data = 2 then Some (upd_data (device_mode_update (\<lambda>_. data)) b) else Some b)
     else if type = 0x04 then
       Some (upd_data (high_pressur_state_update (\<lambda>_. if data \<noteq> 0 then 1 else 0)) b)
     else if type = 0x05 then
       Some (ac_pht_set data (upd_data (pht_work_state_update (\<lambda>_. if data \<noteq> 0 then 1 else 0)) b))
     else if type = 0x06 then
       Some (upd_data (timing_state_update (\<lambda>_. if data \<le> 0x0c then data else 0)) b)
     else if type = 0x07 then
       (let b1 = (if data \<le> 3 then upd_data (wind_speed_state_update (\<lambda>_. data)) b else b)
        in Some (ac_ac_motor_set data (set_dc_motor_speed data b1)))
     else None)"

definition set_device_work_mode :: "world \<Rightarrow> u8 \<Rightarrow> u8 \<Rightarrow> u8 \<Rightarrow> board \<Rightarrow> board option" where
  "set_device_work_mode w type data signal_ch b =
    (if type \<noteq> 0x02 \<and> type \<noteq> 0x03 \<and>
        (device_mode (device_work_data b) = 1 \<or> device_power_state (device_work_data b) = 0)
     then Some b
     else
       (let b0 = b\<lparr>device_work_data_bak := device_work_data b\<rparr>
        in case work_mode_switch type data b0 of
             None \<Rightarrow> Some b0
           | Some b1 \<Rightarrow> do {
               b2 \<leftarrow> (if signal_ch = 1 then set_dispboard_function_mode w type data b1 else Some b1);
               Some (save_if_changed b2) }))"

definition airclean_motor_set :: "u8 \<Rightarrow> board \<Rightarrow> board" where
  "airclean_motor_set mode b =
    (let b1 = upd_data (wind_speed_state_update (\<lambda>_. mode)) (log (Take MOTOR_MUTEX) b);
         b2 = log (Take MODBUS_MUTEX) (ac_ac_motor_set (wind_speed_state (device_work_data b1)) b1);
         b3 = set_dc_motor_speed (wind_speed_state (device_work_data b2)) b2
     in log (Release MOTOR_MUTEX) (log (Release MODBUS_MUTEX) b3))"

text \<open>\<open>wifi_send_data\<close>: the transmission under its mutex.\<close>

definition wifi_send_data :: "u8 list \<Rightarrow> board \<Rightarrow> board" where
  "wifi_send_data data b = log (Release WIFI_SEND_MUTEX) (log (Wifi_Send data) (log (Take WIFI_SEND_MUTEX) b))"

text \<open>
  \<open>wifi_factory_set\<close>, called from \<open>get_display_board_data\<close> with \<open>modbus_mutex\<close> held: the reading thread is deleted, the
  module is switched to its command mode and then reset, and the reading thread is created again, also when the
  module does not answer. The bytes that are left over from a wait are not looked at.
\<close>

definition wifi_factory_set :: "world \<Rightarrow> board \<Rightarrow> board option" where
  "wifi_factory_set w b = do {
     let b1 = (if wifi_thread_id b then log Reader_Deleted b else b);
     let b2 = wifi_send_data wifi_enter_at_mode b1;
     (e, tmp, _) \<leftarrow> await_answer False wifi_enter_at_mode_return 0 (0, 1, w_datatmp w) (w_enter w);
     b3 \<leftarrow> (if e = Gave_Up then Some b2
            else do {
              _ \<leftarrow> await_answer True wifi_set_factory_return 0 (0, 1, tmp) (w_default w);
              Some (wifi_send_data wifi_set_factory b2) });
     let b4 = b3\<lparr>wifi_thread_id := w_thread w\<rparr>;
     Some (if wifi_thread_id b4 then log Reader_Started b4 else b4) }"

text \<open>
  A frame read from the display board. The power state and the fault byte are not taken over; a
  command frame is passed on to \<open>set_device_work_mode\<close> with channel 0.
\<close>

definition take_display_data :: "u8 list \<Rightarrow> para_type \<Rightarrow> para_type" where
  "take_display_data rcv p =
    (let p1 = p\<lparr>device_mode := rcv ! 5\<rparr>;
         p2 = (if device_mode p1 = 1 then p1
               else p1\<lparr>wind_speed_state := rcv ! 6, high_pressur_state := rcv ! 7,
                       pht_work_state := rcv ! 8\<rparr>)
     in p2\<lparr>timing_state := rcv ! 9\<rparr>)"

definition get_display_board_data :: "world \<Rightarrow> board \<Rightarrow> board option" where
  "get_display_board_data w b = do {
     let b1 = log (Take MODBUS_MUTEX) b;
     let b2 = bus_request w 7 (b1\<lparr>rs485_send_buf_not_modbus :=
        [0xF1, 0xF1, 0x01, 0x01, 0x00, 0x02, 0x7E] @ drop 7 (rs485_send_buf_not_modbus b1)\<rparr>);
     let rcv = ucMasterRTURcvBuf b2;
     b3 \<leftarrow> (if w_err w = MB_MRE_REV_DATA then
              (if rcv ! 0 = 0xF2 \<and> rcv ! 1 = 0xF2 \<and> rcv ! 32 = 0x7e then
                 (let c1 = b2\<lparr>device_work_data_bak := device_work_data b2\<rparr>;
                      c2 = upd_data (take_display_data rcv) c1
                  in do {
                    c3 \<leftarrow> (if rcv ! 30 AND push_bit 6 1 \<noteq> 0 then wifi_factory_set w c2 else Some c2);
                    Some (save_if_changed c3) })
               else if rcv ! 0 = 0xF1 \<and> rcv ! 1 = 0xF1 \<and> rcv ! 6 = 0x7e then
                 (if rcv ! 2 \<le> 7 \<and> 1 < rcv ! 2 then set_device_work_mode w (rcv ! 2) (rcv ! 4) 0 b2
                  else Some b2)
               else Some b2)
            else Some b2);
     Some (log (Release MODBUS_MUTEX) b3) }"

section \<open>The automatic mode\<close>

definition house_pm25 :: "para_type \<Rightarrow> nat \<Rightarrow> u16" where
  "house_pm25 p i = byte_2_to_short (device_data p ! (6 + i * 4)) (device_data p ! (6 + i * 4 + 1))"

definition house_co2 :: "para_type \<Rightarrow> nat \<Rightarrow> u16" where
  "house_co2 p i = byte_2_to_short (device_data p ! (6 + i * 4 + 2)) (device_data p ! (6 + i * 4 + 3))"

text \<open>
  One of the four loops over the houses: does one that reports anything meet the condition? The
  loop is left through the \<open>goto\<close> at the first that does.
\<close>

fun house_loop :: "(u16 \<Rightarrow> u16 \<Rightarrow> bool) \<Rightarrow> para_type \<Rightarrow> nat \<Rightarrow> nat \<Rightarrow> bool" where
  "house_loop cond p i 0 \<longleftrightarrow> False"
| "house_loop cond p i (Suc n) \<longleftrightarrow>
    (let pm25_tmp = house_pm25 p i; co2_tmp = house_co2 p i
     in if (co2_tmp \<noteq> 0 \<or> pm25_tmp \<noteq> 0) \<and> cond pm25_tmp co2_tmp then True
        else house_loop cond p (Suc i) n)"

text \<open>Setting all outputs of a level and recording them in \<open>device_work_data_auto\<close>.\<close>

definition auto_apply :: "u8 \<Rightarrow> u8 \<Rightarrow> board \<Rightarrow> board" where
  "auto_apply onoff speed b =
    (let b1 = airclean_motor_set speed (ac_pht_set onoff (ac_esd_set onoff b))
     in b1\<lparr>device_work_data_auto := (device_work_data_auto b1)
          \<lparr>high_pressur_state := onoff, pht_work_state := onoff, wind_speed_state := speed\<rparr>\<rparr>)"

definition auto_mode_step :: "board \<Rightarrow> board" where
  "auto_mode_step b =
    (let p = device_work_data b
     in if house_loop (\<lambda>pm co. 134 < pm \<or> 2500 < co) p 0 5 then auto_apply 1 3 b
        else if house_loop (\<lambda>pm co. 96 < pm \<or> 1300 < co) p 0 5 then auto_apply 1 2 b
        else if house_loop (\<lambda>pm co. pm < 55 \<and> co < 730) p 0 5 then auto_apply 0 0 b
        else if house_loop (\<lambda>pm co. pm < 91 \<and> co < 1290) p 0 5 then auto_apply 1 1 b
        else auto_apply 0 0 b)"

text \<open>
  The local \<open>device_work_data_pre\<close> is 0xff at each call when the manual branch tests it against 0.
\<close>

definition manual_mode_step :: "u8 \<Rightarrow> board \<Rightarrow> board" where
  "manual_mode_step device_work_data_pre b =
    (if device_work_data_pre = 0 then airclean_motor_set 1 (ac_pht_set 1 (ac_esd_set 1 b))
     else
       (let b1 = ac_pht_set (pht_work_state (device_work_data b))
                   (ac_esd_set (high_pressur_state (device_work_data b)) b);
            b2 = (if wind_speed_state (device_work_data b1) = 0 then airclean_motor_set 1 b1 else b1)
        in airclean_motor_set (wind_speed_state (device_work_data b2)) b2))"

definition airclean_work_auto_handle :: "board \<Rightarrow> board" where
  "airclean_work_auto_handle b =
    (if device_power_state (device_work_data b) \<noteq> 0 then
       (if device_mode (device_work_data b) = 1 then auto_mode_step b
        else if device_mode (device_work_data b) = 2 then manual_mode_step 0xff b
        else b)
     else b)"

section \<open>The switch-off timer\<close>

text \<open>
  Doubles of the range the timer uses, as \<open>m / 2 ^ s\<close>; a product is rounded to 53 bits, ties to
  even.
\<close>

function bit_count :: "int \<Rightarrow> nat" where
  "bit_count n = (if n \<le> 0 then 0 else Suc (bit_count (n div 2)))"
  by auto
termination by (relation "measure nat") auto

declare bit_count.simps [simp del]

definition round_even :: "int \<Rightarrow> nat \<Rightarrow> int" where
  "round_even m k =
    (let q = m div 2 ^ k; r = m mod 2 ^ k
     in if 2 * r < 2 ^ k then q
        else if 2 ^ k < 2 * r then q + 1
        else if q mod 2 = 0 then q else q + 1)"

definition dbl_mul :: "int \<times> nat \<Rightarrow> int \<times> nat \<Rightarrow> int \<times> nat" where
  "dbl_mul a b =
    (let m = fst a * fst b; s = snd a + snd b; k = bit_count m - 53
     in (round_even m k, s - k))"

definition dbl_less_int :: "int \<times> nat \<Rightarrow> int \<Rightarrow> bool" where
  "dbl_less_int d n \<longleftrightarrow> fst d < n * 2 ^ snd d"

definition dbl_eq_int :: "int \<times> nat \<Rightarrow> int \<Rightarrow> bool" where
  "dbl_eq_int d n \<longleftrightarrow> fst d = n * 2 ^ snd d"

text \<open>The literal 0.01 and the expressions \<open>0.01*60*60\<close> and \<open>(u32)timing_state*0.01*60*60\<close>.\<close>

definition dbl_0_01 :: "int \<times> nat" where
  "dbl_0_01 = (5764607523034235, 59)"

definition one_unit :: "int \<times> nat" where
  "one_unit = dbl_mul (dbl_mul dbl_0_01 (60, 0)) (60, 0)"

definition timing_limit :: "int \<Rightarrow> int \<times> nat" where
  "timing_limit t = dbl_mul (dbl_mul (dbl_mul (t, 0) dbl_0_01) (60, 0)) (60, 0)"

text \<open>The bookkeeping at the head of the loop body.\<close>

definition timer_head :: "board \<Rightarrow> board" where
  "timer_head b =
    (let t = timing_state (device_work_data b);
         b1 = (if power_state_pre b = 0xff then
                 (if t \<noteq> 0 then b\<lparr>power_tim_cnt := 0, power_state_pre := t\<rparr> else b)
               else if t \<noteq> 0 then
                 (if t \<noteq> power_state_pre b then b\<lparr>power_tim_cnt := 0, power_state_pre := t\<rparr> else b)
               else b);
         b2 = b1\<lparr>power_state_pre := timing_state (device_work_data b1)\<rparr>
     in if power_tim_cnt b2 < 0xFFFFFFFF then b2\<lparr>power_tim_cnt := power_tim_cnt b2 + 1\<rparr> else b2)"

definition timer_tick :: "board \<Rightarrow> board" where
  "timer_tick b =
    (if dbl_eq_int one_unit (uint (power_tim_cnt b)) \<and> power_state_pre b \<noteq> 0
     then upd_data (timing_state_update (\<lambda>t. t - 1)) b else b)"

text \<open>
  One round of \<open>thread_entry_power_monitor\<close>. The enumeration that holds \<open>D_CMD_POWER\<close> is not in
  the repository, so its value is an argument.
\<close>

definition power_monitor_round :: "u8 \<Rightarrow> world \<Rightarrow> board \<Rightarrow> board option" where
  "power_monitor_round D_CMD_POWER w b =
    (let b1 = timer_tick (timer_head b)
     in if dbl_less_int (timing_limit (uint (timing_state (device_work_data b1)))) (uint (power_tim_cnt b1))
           \<and> power_state_pre b1 \<noteq> 0
        then do {
          let b2 = upd_data (\<lambda>p. p\<lparr>device_power_state := 0, timing_state := 0\<rparr>) b1;
          let b3 = b2\<lparr>power_tim_cnt := 0, power_state_pre := 0xff\<rparr>;
          b4 \<leftarrow> set_dispboard_function_mode w D_CMD_POWER 0 b3;
          Some (airclean_power_onoff 0 b4) }
        else Some (airclean_work_auto_handle b1))"

section \<open>Fault inputs\<close>

record inputs =
  PB0 :: bool
  PB2 :: bool
  PB11 :: bool
  PC4 :: bool
  PC5 :: bool

definition motor_state_get :: "inputs \<Rightarrow> u8" where "motor_state_get i = (if PB11 i then 0 else 1)"
definition pht_state_get :: "inputs \<Rightarrow> u8" where "pht_state_get i = (if PB2 i then 0 else 1)"
definition clean_state_get :: "inputs \<Rightarrow> u8" where "clean_state_get i = (if PB0 i then 0 else 1)"
definition esd_state_get :: "inputs \<Rightarrow> u8" where "esd_state_get i = (if PC5 i then 0 else 1)"
definition run_state_get :: "inputs \<Rightarrow> u8" where "run_state_get i = (if PC4 i then 0 else 1)"

text \<open>
  \<open>wind_state_get\<close> calls itself while its pin reads high: the argument lists the successive
  readings, and running out of them means that it has not returned.
\<close>

fun wind_state_get :: "bool list \<Rightarrow> u8 option" where
  "wind_state_get [] = None"
| "wind_state_get (pin # pins) =
    (if pin then do { r \<leftarrow> wind_state_get pins; Some (if r \<noteq> 0 then 1 else 0) } else Some 1)"

definition check_ex_device_round :: "world \<Rightarrow> u8 list \<Rightarrow> inputs \<Rightarrow> board \<Rightarrow> board option" where
  "check_ex_device_round w stack35 i b =
    (if device_power_state (device_work_data b) = 1 then do {
       let b1 = (if pht_work_state (device_work_data b) \<noteq> 0
                 then set_fault FAULT_PHT_BIT (pht_state_get i) b else b);
       let b2 = set_fault FAULT_CLEAN_BIT (clean_state_get i)
                 (set_fault FAULT_RUN_BIT (run_state_get i)
                   (set_fault FAULT_ESD_BIT (esd_state_get i)
                     (set_fault FAULT_MOTOR_BIT (motor_state_get i) b1)));
       if fault_state_pre b2 = 0xff \<or> fault_state_pre b2 \<noteq> fault_state (device_work_data b2) then do {
         b3 \<leftarrow> (if fault_state (device_work_data b2) \<noteq> 0 then set_display_board_data w stack35 b2
                else Some b2);
         Some (b3\<lparr>fault_state_pre := fault_state (device_work_data b3)\<rparr>) }
       else Some b2 }
     else Some (upd_data (fault_state_update (\<lambda>_. 0)) b))"

section \<open>The sensors of the houses\<close>

text \<open>
  The round of \<open>thread_entry_SysMonitor\<close> for slave \<open>i\<close>: \<open>err\<close> is the result of reading its two
  holding registers, \<open>hold\<close> the register table of the master.
\<close>

definition sysmonitor_slave :: "nat \<Rightarrow> eMBMasterReqErrCode \<Rightarrow> u16 list list \<Rightarrow> board \<Rightarrow> board" where
  "sysmonitor_slave i err hold b =
    (let b1 = log (Take MODBUS_MUTEX) b;
         b2 = (if err = MB_MRE_NO_ERR then
                 (let co2 = sw16 (hold ! (i - 1) ! 0); pm = sw16 (hold ! (i - 1) ! 1)
                  in if i = 11 then upd_data (\<lambda>p. p\<lparr>house1_co2 := co2, house1_pm2_5 := pm\<rparr>) b1
                     else if i = 12 then upd_data (\<lambda>p. p\<lparr>house2_co2 := co2, house2_pm2_5 := pm\<rparr>) b1
                     else if i = 13 then upd_data (\<lambda>p. p\<lparr>house3_co2 := co2, house3_pm2_5 := pm\<rparr>) b1
                     else if i = 14 then upd_data (\<lambda>p. p\<lparr>house4_co2 := co2, house4_pm2_5 := pm\<rparr>) b1
                     else if i = 15 then upd_data (\<lambda>p. p\<lparr>house5_co2 := co2, house5_pm2_5 := pm\<rparr>) b1
                     else b1)
               else b1)
     in log (Release MODBUS_MUTEX) b2)"

section \<open>Commands of the Wi-Fi module\<close>

definition wifi_reply :: "world \<Rightarrow> u8 list \<Rightarrow> u8 \<Rightarrow> board \<Rightarrow> board option" where
  "wifi_reply w buf len b = do {
     (out, sent) \<leftarrow> wifi_send_packet_data (w_chk_wifi w) (wifi_send_packet_buf_pub b) buf len;
     Some (wifi_send_data sent (b\<lparr>wifi_send_packet_buf_pub := out\<rparr>)) }"

text \<open>The bytes of the state report: switched off and automatic mode replace some of the settings.\<close>

definition device_state_bytes :: "para_type \<Rightarrow> para_type \<Rightarrow> u8 list" where
  "device_state_bytes p auto =
    (let buf = [0x01, 0x1b] @ take 27 (device_data p)
     in if device_power_state p = 0 then
          buf[2 + 1 := 2, 2 + 2 := 0, 2 + 3 := 0, 2 + 4 := 0, 2 + 5 := 0]
        else if device_mode p = 1 then
          buf[2 + 2 := wind_speed_state auto, 2 + 3 := high_pressur_state auto,
              2 + 4 := pht_work_state auto]
        else buf)"

definition return_current_device_state :: "world \<Rightarrow> board \<Rightarrow> board option" where
  "return_current_device_state w b =
     wifi_reply w (device_state_bytes (device_work_data b) (device_work_data_auto b)) 29 b"

text \<open>\<open>send_F7_packet\<close> as a handler; its stack buffer's other bytes are never sent.\<close>

definition send_F7_reply :: "world \<Rightarrow> u8 list \<Rightarrow> board \<Rightarrow> board option" where
  "send_F7_reply w stack20 b = do {
     (out, sent) \<leftarrow> send_F7_packet (w_chk_wifi w) stack20 (wifi_send_packet_buf_pub b);
     Some (wifi_send_data sent (b\<lparr>wifi_send_packet_buf_pub := out\<rparr>)) }"

definition wifi_receive_data_decode :: "world \<Rightarrow> u8 list \<Rightarrow> u8 list \<Rightarrow> board \<Rightarrow> board option" where
  "wifi_receive_data_decode w stack20 buf b = do {
     cmd \<leftarrow> buf_get buf 0;
     if cmd = 0x01 then return_current_device_state w b
     else if 0x02 \<le> cmd \<and> cmd \<le> 0x07 then do {
       data \<leftarrow> buf_get buf 2;
       b1 \<leftarrow> set_device_work_mode w cmd data 1 b;
       return_current_device_state w b1 }
     else if cmd = 0xf7 then send_F7_reply w stack20 b
     else Some b }"

text \<open>
  One round of \<open>rt_wifi_decode_thread_entry\<close> after its semaphore was taken.
\<close>

definition wifi_decode_round :: "world \<Rightarrow> u8 list \<Rightarrow> wifi_rx \<Rightarrow> board \<Rightarrow> board option" where
  "wifi_decode_round w stack20 rx b = do {
     ok \<leftarrow> wifi_receive_data_check (wifi_recv_packet_buf_pub rx) (wifi_recieve_data_length rx);
     if ok \<noteq> 0 then wifi_receive_data_decode w stack20 (drop 2 (wifi_recv_packet_buf_pub rx)) b
     else Some b }"

section \<open>Start\<close>

text \<open>\<open>rt_main_thread_entry\<close> up to the creation of the threads.\<close>

definition main_thread_start :: "board \<Rightarrow> board" where
  "main_thread_start b =
    (let b1 = device_state_init (airclean_out_pin_init b)
     in if device_mode (device_work_data b1) = 0 then
          ac_ac_motor_set 1 (ac_pht_set 1 (ac_esd_set 1
            (upd_data (\<lambda>p. p\<lparr>device_mode := 2, high_pressur_state := 1, pht_work_state := 1\<rparr>) b1)))
        else b1)"

section \<open>The unused parameter area in the controller's own flash\<close>

text \<open>
  \<open>FLASH_Program_save_para\<close>: the addition binds tighter than the shifts, so the shift counts are
  \<open>8 + device_data[i+2]\<close>, \<open>16 + device_data[i+3]\<close> and 24; a count of 32 or more is undefined.
  The result is the list of programmed words, offset by \<open>SYS_PARA_ADDR\<close>.
\<close>

definition c_shl :: "u32 \<Rightarrow> nat \<Rightarrow> u32 option" where
  "c_shl w k = (if k < 32 then Some (push_bit k w) else None)"

definition save_para_word :: "u8 list \<Rightarrow> nat \<Rightarrow> u32 option" where
  "save_para_word d i = do {
     w1 \<leftarrow> c_shl (ucast (d ! i) + ucast (d ! (i + 1))) (8 + unat (d ! (i + 2)));
     w2 \<leftarrow> c_shl w1 (16 + unat (d ! (i + 3)));
     c_shl w2 24 }"

fun save_para_loop :: "u8 list \<Rightarrow> nat \<Rightarrow> nat \<Rightarrow> (nat \<times> u32) list option" where
  "save_para_loop d i 0 = Some []"
| "save_para_loop d i (Suc n) = do {
     w \<leftarrow> save_para_word d i;
     ws \<leftarrow> save_para_loop d (i + 4) n;
     Some ((i, w) # ws) }"

definition FLASH_Program_save_para :: "board \<Rightarrow> (nat \<times> u32) list option" where
  "FLASH_Program_save_para b = save_para_loop (device_data (device_work_data b)) 0 5"

text \<open>Reading back assigns \<open>device_data[i+1]\<close> three times; \<open>words i\<close> is the word at offset \<open>i\<close>.\<close>

fun read_para_loop :: "(nat \<Rightarrow> u32) \<Rightarrow> u8 list \<Rightarrow> nat \<Rightarrow> nat \<Rightarrow> u8 list" where
  "read_para_loop words d i 0 = d"
| "read_para_loop words d i (Suc n) =
    (let data = words i;
         d1 = d[i := ucast data];
         d2 = d1[i + 1 := ucast (drop_bit 8 data)];
         d3 = d2[i + 1 := ucast (drop_bit 16 data)];
         d4 = d3[i + 1 := ucast (drop_bit 24 data)]
     in read_para_loop words d4 (i + 4) n)"

definition FLASH_Program_read_para :: "u32 \<Rightarrow> (nat \<Rightarrow> u32) \<Rightarrow> board \<Rightarrow> board" where
  "FLASH_Program_read_para mark words b =
    (if mark = 0x86123456
     then upd_data (\<lambda>p. para_of_bytes (read_para_loop words (union_bytes p) 0 5)) b
     else b)"

end
