(* ===== verification/Air_Lemmas.thy ===== *)
theory Air_Lemmas
  imports Air_Control
begin

text \<open>
  What the operations of the control board do to the state, on every branch: outputs, settings,
  parameter area, transmitted frames. The collection \<open>board_simps\<close> turns an operation into a
  record update.
\<close>

named_theorems board_simps "operations as record updates"

section \<open>Output pins\<close>

definition esd_odr :: "u8 \<Rightarrow> u16 \<Rightarrow> u16" where
  "esd_odr mode w = (if mode \<noteq> 0 then set_bit 1 w else unset_bit 1 w)"

definition pht_odr :: "u8 \<Rightarrow> u16 \<Rightarrow> u16" where
  "pht_odr mode w = (if mode \<noteq> 0 then set_bit 15 w else unset_bit 15 w)"

definition motor_odr :: "u8 \<Rightarrow> u16 \<Rightarrow> u16" where
  "motor_odr mode w =
    (if mode = 1 then unset_bit 13 (unset_bit 12 (set_bit 14 w))
     else if mode = 3 then unset_bit 13 (set_bit 12 (unset_bit 14 w))
     else if mode = 2 then set_bit 13 (unset_bit 12 (unset_bit 14 w))
     else unset_bit 13 (unset_bit 12 (unset_bit 14 w)))"

lemma ac_esd_set_eq [board_simps]: "ac_esd_set m b = b\<lparr>GPIOB_ODR := esd_odr m (GPIOB_ODR b)\<rparr>"
  by (simp add: ac_esd_set_def GPIO_SetBits_def GPIO_ResetBits_def esd_odr_def)

lemma ac_pht_set_eq [board_simps]: "ac_pht_set m b = b\<lparr>GPIOB_ODR := pht_odr m (GPIOB_ODR b)\<rparr>"
  by (simp add: ac_pht_set_def GPIO_SetBits_def GPIO_ResetBits_def pht_odr_def Let_def)

lemma ac_ac_motor_set_eq [board_simps]:
  "ac_ac_motor_set m b = b\<lparr>GPIOB_ODR := motor_odr m (GPIOB_ODR b)\<rparr>"
  by (simp add: ac_ac_motor_set_def GPIO_SetBits_def GPIO_ResetBits_def motor_odr_def)

lemma bit_odr [simp]:
  "bit (esd_odr m w) (Suc 0) \<longleftrightarrow> m \<noteq> 0" "n \<noteq> Suc 0 \<Longrightarrow> bit (esd_odr m w) n = bit w n"
  "bit (pht_odr m w) 15 \<longleftrightarrow> m \<noteq> 0" "n \<noteq> 15 \<Longrightarrow> bit (pht_odr m w) n = bit w n"
  "bit (motor_odr m w) 14 \<longleftrightarrow> m = 1" "bit (motor_odr m w) 13 \<longleftrightarrow> m = 2" "bit (motor_odr m w) 12 \<longleftrightarrow> m = 3"
  "n \<noteq> 12 \<Longrightarrow> n \<noteq> 13 \<Longrightarrow> n \<noteq> 14 \<Longrightarrow> bit (motor_odr m w) n = bit w n"
  by (auto simp: esd_odr_def pht_odr_def motor_odr_def bit_simps)

text \<open>At most one of the three motor windings is energised.\<close>

definition relays_ok :: "u16 \<Rightarrow> bool" where
  "relays_ok w \<longleftrightarrow> \<not> (bit w 12 \<and> bit w 13) \<and> \<not> (bit w 12 \<and> bit w 14) \<and> \<not> (bit w 13 \<and> bit w 14)"

lemma relays_ok_odr [simp]:
  "relays_ok (motor_odr m w)" "relays_ok (esd_odr m w) = relays_ok w" "relays_ok (pht_odr m w) = relays_ok w"
  by (auto simp: relays_ok_def)

section \<open>Locks\<close>

fun mutex_rank :: "mutex \<Rightarrow> nat" where
  "mutex_rank MOTOR_MUTEX = 0"
| "mutex_rank MODBUS_MUTEX = 1"
| "mutex_rank WIFI_SEND_MUTEX = 2"

text \<open>
  Running the lock events of a trace over the stack of mutexes held: a mutex is taken only above
  all held ones in rank, and released only as the latest taken.
\<close>

fun lock_run :: "mutex list \<Rightarrow> event list \<Rightarrow> mutex list option" where
  "lock_run held [] = Some held"
| "lock_run held (Take m # es) =
    (if \<forall>h \<in> set held. mutex_rank h < mutex_rank m then lock_run (m # held) es else None)"
| "lock_run held (Release m # es) =
    (case held of [] \<Rightarrow> None | h # hs \<Rightarrow> if h = m then lock_run hs es else None)"
| "lock_run held (e # es) = lock_run held es"

lemma lock_run_append [simp]:
  "lock_run held (xs @ ys) = (case lock_run held xs of None \<Rightarrow> None | Some h \<Rightarrow> lock_run h ys)"
  by (induction held xs rule: lock_run.induct) (auto split: list.splits)

section \<open>Operations as updates\<close>

declare log_def [board_simps] Let_def [board_simps]

lemma set_dc_motor_speed_eq [board_simps]:
  "set_dc_motor_speed v b = b\<lparr>rs485_send_buf_not_modbus :=
    (let s = (if 3 < v then 3 else v) in [0xBC, 0x07, 0x01, s, 0xC4 + s]) @ drop 5 (rs485_send_buf_not_modbus b)\<rparr>"
  by (simp add: set_dc_motor_speed_def Let_def)

lemma pack_F:
  assumes "n \<le> length src" "n + 4 \<le> length out"
  shows "do { out1 \<leftarrow> buf_puts out 0 [m, m]; (out2, chk) \<leftarrow> pack_loop src 0 n out1 chk0;
              out3 \<leftarrow> buf_puts out2 (n + 2) [chk, e]; f out3 }
    = f ([m, m] @ take n src @ [chk0 + sum_list (take n src), e] @ drop (n + 4) out)"
proof -
  obtain a b rest where out: "out = a # b # rest" using assms(2) by (cases out rule: remdups_adj.cases) auto
  let ?d = "take n src"
  have len: "length ?d = n" using assms(1) by simp
  have loop: "pack_loop src 0 n (m # m # rest) chk0 =
      Some (m # m # ?d @ drop n rest, chk0 + sum_list ?d)"
    using assms by (subst pack_loop_eq) (simp_all add: out numeral_2_eq_2)
  have puts: "buf_puts (m # m # ?d @ drop n rest) (n + 2) [x, e] =
      Some (m # m # ?d @ [x, e] @ drop (n + 2) rest)" for x
    using assms(2) len by (subst buf_puts_eq) (simp_all add: out)
  have start: "buf_puts (a # b # rest) 0 [m, m] = Some (m # m # rest)" by simp
  have drop: "drop (n + 4) (a # b # rest) = drop (n + 2) rest" by (simp add: eval_nat_numeral)
  show ?thesis
    unfolding out drop by (simp add: start loop puts del: buf_puts.simps add_2_eq_Suc')
qed

definition mode_frame :: "world \<Rightarrow> u8 \<Rightarrow> u8 list" where
  "mode_frame w mode =
    (let d = [mode, w_stack w ! 1, w_stack w ! 2] in [0xF1, 0xF1] @ d @ [w_chk w + sum_list d, 0x7E])"

lemma set_dispboard_function_mode_eq:
  assumes "board_wf b" "world_wf w"
  shows "set_dispboard_function_mode w type mode b = Some
    (b\<lparr>rs485_send_buf_not_modbus := mode_frame w mode @ drop 7 (rs485_send_buf_not_modbus b),
       ucMasterRTURcvBuf := (if w_err w = MB_MRE_REV_DATA then w_rcv w else (ucMasterRTURcvBuf b)[0 := 0]),
       trace := trace b @ [Take MODBUS_MUTEX, Rs485_Send (mode_frame w mode), Release MODBUS_MUTEX]\<rparr>)"
proof -
  obtain s0 s1 s2 t where st: "w_stack w = s0 # s1 # s2 # t"
    using assms(2) by (auto simp: world_wf_def length_Suc_conv eval_nat_numeral)
  have "send_packet_data w 3 (mode # s1 # s2 # t) (log (Take MODBUS_MUTEX) b) =
      Some (log (Take MODBUS_MUTEX) b\<lparr>rs485_send_buf_not_modbus := mode_frame w mode @ drop 7 (rs485_send_buf_not_modbus b)\<rparr>)"
    unfolding send_packet_data_def
    using assms(1) pack_F [of 3 "mode # s1 # s2 # t" "rs485_send_buf_not_modbus b" "0xF1"]
    by (simp add: board_wf_def log_def mode_frame_def st Let_def)
  then show ?thesis
    by (simp add: set_dispboard_function_mode_def st bus_request_def board_simps mode_frame_def)
qed

definition display_frame :: "world \<Rightarrow> board \<Rightarrow> u8 list" where
  "display_frame w b =
    (let d = [0x01, 0x1b] @ take 27 (device_data (device_work_data b))
     in [0xF2, 0xF2] @ d @ [w_chk w + sum_list d, 0x7E])"

lemma length_display_frame [simp]: "length (display_frame w b) = 33"
  by (simp add: display_frame_def)

lemma set_display_board_data_eq:
  assumes "board_wf b" "length stack35 = 35"
  shows "set_display_board_data w stack35 b = Some
    (b\<lparr>rs485_send_buf_not_modbus := display_frame w b @ drop 33 (rs485_send_buf_not_modbus b),
       ucMasterRTURcvBuf := (if w_err w = MB_MRE_REV_DATA then w_rcv w else (ucMasterRTURcvBuf b)[0 := 0]),
       trace := trace b @ [Take MODBUS_MUTEX, Rs485_Send (display_frame w b), Release MODBUS_MUTEX]\<rparr>)"
proof -
  let ?src = "[0x01, 0x1b] @ take 27 (device_data (device_work_data b))"
  have src: "buf_puts stack35 0 ?src = Some (?src @ drop 29 stack35)"
    using assms(2) by (subst buf_puts_eq) simp_all
  have "disp_board_packet_data w 29 stack35 (log (Take MODBUS_MUTEX) b) =
      Some (log (Take MODBUS_MUTEX) b\<lparr>rs485_send_buf_not_modbus := display_frame w b @ drop 33 (rs485_send_buf_not_modbus b)\<rparr>)"
    unfolding disp_board_packet_data_def log_def
    using assms(1) pack_F [of 29 "?src @ drop 29 stack35" "rs485_send_buf_not_modbus b" "0xF2"] src
    by (simp add: board_wf_def display_frame_def Let_def del: buf_puts.simps)
  then show ?thesis
    by (simp add: set_display_board_data_def bus_request_def board_simps)
qed

section \<open>Settings\<close>

text \<open>The first six bytes are the settings that are stored.\<close>

definition settings :: "para_type \<Rightarrow> u8 list" where
  "settings p = take 6 (device_data p)"

lemma settings_eq: "settings p =
    [device_power_state p, device_mode p, wind_speed_state p, high_pressur_state p, pht_work_state p, timing_state p]"
  by (simp add: settings_def device_data_def)

lemma drop_settings: "union_bytes p = settings p @ drop 6 (union_bytes p)"
  using append_take_drop_id [of 6 "union_bytes p"] by (simp add: settings_def)

lemma length_settings [simp]: "length (settings p) = 6"
  by (simp add: settings_def)

lemma settings_read [simp]:
  "length s = 6 \<Longrightarrow> settings (para_of_bytes (s @ drop 6 (union_bytes p))) = s"
  by (simp add: settings_def device_data_para_of_bytes)

lemma settings_fault [simp]: "settings (p\<lparr>fault_state := f\<rparr>) = settings p"
  by (simp add: settings_eq)

text \<open>The stored settings of a parameter area written before.\<close>

definition stored :: "board \<Rightarrow> u8 list option" where
  "stored b = (if flash_get (param_flash b) 2 1 = [0x86] then Some (flash_get (param_flash b) 10 6) else None)"

lemma stored_save: "stored (device_sys_para_save b) = Some (settings (device_work_data b))"
  using flash.flagged_record [of 2 10 "settings (device_work_data b)" "param_flash b" "0x86"]
  by (simp add: stored_def device_sys_para_save_def settings_def)

lemma read_sys_para_stored:
  "stored b = Some s \<Longrightarrow> read_sys_para (param_flash b) p = para_of_bytes (s @ drop 6 (union_bytes p))"
  by (simp add: stored_def read_sys_para_def split: if_splits)

lemma device_sys_para_get_stored:
  assumes "stored b = Some s"
  shows "settings (device_work_data (device_sys_para_get b)) = s"
  using assms by (auto simp: device_sys_para_get_def read_sys_para_stored stored_def split: if_splits)

end
