(* ===== verification/Air_System.thy ===== *)
theory Air_System
  imports Air_Lemmas
begin

text \<open>
  The control board as a machine: one event per round of a thread or per received frame, each
  handler running to its end. The invariant (buffers keep their lengths, at most one motor winding
  energised, locks taken in rank order and all released) and the properties of the control logic.
\<close>

section \<open>The machine\<close>

datatype ctrl_event =
    Display_Poll world
  | Display_Update world "u8 list"
  | Dc_Motor_Round world
  | Power_Round u8 world
  | Fault_Round world "u8 list" inputs
  | Sensor_Round nat eMBMasterReqErrCode "u16 list list"
  | Wifi_Round world "u8 list" wifi_rx

fun ctrl_step :: "board \<Rightarrow> ctrl_event \<Rightarrow> board option" where
  "ctrl_step b (Display_Poll w) = get_display_board_data w b"
| "ctrl_step b (Display_Update w stk) = set_display_board_data w stk b"
| "ctrl_step b (Dc_Motor_Round w) = Some (set_dc_motor w b)"
| "ctrl_step b (Power_Round cmd w) = power_monitor_round cmd w b"
| "ctrl_step b (Fault_Round w stk i) = check_ex_device_round w stk i b"
| "ctrl_step b (Sensor_Round i err hold) = Some (sysmonitor_slave i err hold b)"
| "ctrl_step b (Wifi_Round w stk rx) = wifi_decode_round w stk rx b"

text \<open>
  What the environment supplies has the lengths of the C arrays; and when its factory settings are restored, the Wi-Fi
  module answers what it should or says nothing: anything else overruns an array or is waited for, for ever
  (\<open>factory_overflow\<close>, \<open>factory_never_returns\<close>).
\<close>

definition factory_ok :: "world \<Rightarrow> bool" where
  "factory_ok w \<longleftrightarrow> length (w_datatmp w) = 22 \<and> module_answers wifi_enter_at_mode_return (w_enter w) \<and>
     module_answers wifi_set_factory_return (w_default w)"

fun ctrl_event_ok :: "ctrl_event \<Rightarrow> bool" where
  "ctrl_event_ok (Display_Poll w) = (world_wf w \<and> factory_ok w)"
| "ctrl_event_ok (Display_Update w stk) = (world_wf w \<and> length stk = 35)"
| "ctrl_event_ok (Dc_Motor_Round w) = world_wf w"
| "ctrl_event_ok (Power_Round cmd w) = world_wf w"
| "ctrl_event_ok (Fault_Round w stk i) = (world_wf w \<and> length stk = 35)"
| "ctrl_event_ok (Sensor_Round i err hold) = True"
| "ctrl_event_ok (Wifi_Round w stk rx) = (world_wf w \<and> length stk = 20 \<and>
    length (wifi_recv_packet_buf_pub rx) = 100 \<and> 2 \<le> unat (wifi_recieve_data_length rx) \<and>
    unat (wifi_recieve_data_length rx) \<le> 100)"

definition board_ok :: "board \<Rightarrow> bool" where
  "board_ok b \<longleftrightarrow> board_wf b \<and> relays_ok (GPIOB_ODR b) \<and> lock_run [] (trace b) = Some []"

text \<open>Inside a handler: the locks \<open>held\<close> are still to be released.\<close>

definition board_in :: "mutex list \<Rightarrow> board \<Rightarrow> bool" where
  "board_in held b \<longleftrightarrow> board_wf b \<and> relays_ok (GPIOB_ODR b) \<and> lock_run [] (trace b) = Some held"

lemma board_ok_in: "board_ok b \<longleftrightarrow> board_in [] b"
  by (simp add: board_ok_def board_in_def)

lemma board_in_take:
  "board_in held b \<Longrightarrow> \<forall>h \<in> set held. mutex_rank h < mutex_rank m \<Longrightarrow> board_in (m # held) (log (Take m) b)"
  by (simp add: board_in_def board_wf_def log_def)

lemma board_in_release: "board_in (m # held) b \<Longrightarrow> board_in held (log (Release m) b)"
  by (simp add: board_in_def board_wf_def log_def)

lemma board_in_log [simp]:
  "board_in held (log (Rs485_Send d) b) = board_in held b"
  "board_in held (log (Wifi_Send d) b) = board_in held b"
  "board_in held (log Reader_Deleted b) = board_in held b"
  "board_in held (log Reader_Started b) = board_in held b"
  by (auto simp: board_in_def board_wf_def log_def split: option.splits)

text \<open>Updates that do not matter to the invariant.\<close>

lemma board_in_update [simp]:
  "board_in held (b\<lparr>device_work_data := p\<rparr>) = board_in held b"
  "board_in held (b\<lparr>device_work_data_auto := p\<rparr>) = board_in held b"
  "board_in held (b\<lparr>device_work_data_bak := p\<rparr>) = board_in held b"
  "board_in held (b\<lparr>device_power_state_pre := x\<rparr>) = board_in held b"
  "board_in held (b\<lparr>param_flash := m\<rparr>) = board_in held b"
  "board_in held (b\<lparr>power_state_pre := x\<rparr>) = board_in held b"
  "board_in held (b\<lparr>power_tim_cnt := c\<rparr>) = board_in held b"
  "board_in held (b\<lparr>fault_state_pre := x\<rparr>) = board_in held b"
  "board_in held (b\<lparr>wifi_thread_id := r\<rparr>) = board_in held b"
  by (simp_all add: board_in_def board_wf_def)

lemma board_in_pins [simp]:
  "board_in held b \<Longrightarrow> board_in held (ac_esd_set m b)"
  "board_in held b \<Longrightarrow> board_in held (ac_pht_set m b)"
  "board_in held b \<Longrightarrow> board_in held (ac_ac_motor_set m b)"
  by (simp_all add: board_in_def board_wf_def board_simps)

lemma board_in_speed [simp]: "board_in held b \<Longrightarrow> board_in held (set_dc_motor_speed v b)"
  by (simp add: board_in_def board_wf_def board_simps)

lemma board_in_request [simp]:
  "board_in held b \<Longrightarrow> world_wf w \<Longrightarrow> board_in held (bus_request w n b)"
  by (simp add: board_in_def board_wf_def world_wf_def bus_request_def board_simps)

lemma board_in_save [simp]: "board_in held b \<Longrightarrow> board_in held (device_sys_para_save b)"
  "board_in held b \<Longrightarrow> board_in held (device_sys_para_get b)"
  "board_in held b \<Longrightarrow> board_in held (save_if_changed b)"
  by (simp_all add: device_sys_para_save_def device_sys_para_get_def save_if_changed_def)

lemma board_in_fault [simp]: "board_in held (set_fault t v b) = board_in held b"
  by (simp add: set_fault_def)

lemma board_in_power [simp]: "board_in held b \<Longrightarrow> board_in held (airclean_power_onoff m b)"
  by (simp add: airclean_power_onoff_def Let_def)

lemma board_in_motor:
  "board_in [] b \<Longrightarrow> board_in [] (airclean_motor_set m b)"
  by (simp add: airclean_motor_set_def Let_def board_in_release board_in_take)

lemma board_in_auto: "board_in [] b \<Longrightarrow> board_in [] (airclean_work_auto_handle b)"
  by (simp add: airclean_work_auto_handle_def auto_mode_step_def manual_mode_step_def auto_apply_def
      board_in_motor Let_def)

lemma board_in_mode_frame:
  assumes "board_in [] b" "world_wf w"
  shows "\<exists>b'. set_dispboard_function_mode w t m b = Some b' \<and> board_in [] b'"
  using assms set_dispboard_function_mode_eq [of b w t m]
  by (auto simp: board_in_def board_wf_def world_wf_def mode_frame_def Let_def)

lemma board_in_switch:
  "board_in held b \<Longrightarrow> work_mode_switch t d b = Some b' \<Longrightarrow> board_in held b'"
  by (auto simp: work_mode_switch_def Let_def split: if_splits)

lemma board_in_mode:
  assumes "board_in held b" "ch = 1 \<Longrightarrow> world_wf w \<and> held = []"
  shows "\<exists>b'. set_device_work_mode w t d ch b = Some b' \<and> board_in held b'"
proof (cases "work_mode_switch t d (b\<lparr>device_work_data_bak := device_work_data b\<rparr>)")
  case None
  with assms show ?thesis by (simp add: set_device_work_mode_def Let_def)
next
  case (Some b1)
  with assms have b1: "board_in held b1" by (auto dest: board_in_switch [rotated])
  have "\<exists>b2. (if ch = 1 then set_dispboard_function_mode w t d b1 else Some b1) = Some b2 \<and> board_in held b2"
    using b1 assms(2) board_in_mode_frame [of b1 w t d] by auto
  with Some assms(1) show ?thesis by (auto simp: set_device_work_mode_def Let_def)
qed

lemma board_in_send:
  "board_in held b \<Longrightarrow> \<forall>h \<in> set held. mutex_rank h < mutex_rank WIFI_SEND_MUTEX \<Longrightarrow> board_in held (wifi_send_data d b)"
  using board_in_release [of WIFI_SEND_MUTEX held "log (Wifi_Send d) (log (Take WIFI_SEND_MUTEX) b)"]
    board_in_take [of held b WIFI_SEND_MUTEX] by (simp add: wifi_send_data_def)

lemma board_in_factory:
  assumes "board_in [MODBUS_MUTEX] b" "factory_ok w"
  shows "\<exists>b'. wifi_factory_set w b = Some b' \<and> board_in [MODBUS_MUTEX] b'"
proof -
  obtain e tmp ins where e: "await_answer False wifi_enter_at_mode_return 0 (0, 1, w_datatmp w) (w_enter w) = Some (e, tmp, ins)" "length tmp = 22"
    using await_ends [of wifi_enter_at_mode_return "w_enter w" "w_datatmp w" False] assms(2)
    by (auto simp: factory_ok_def wifi_enter_at_mode_return_def)
  obtain r where r: "await_answer True wifi_set_factory_return 0 (0, 1, tmp) (w_default w) = Some r"
    using await_ends [of wifi_set_factory_return "w_default w" tmp True] assms(2) e(2)
    by (auto simp: factory_ok_def wifi_set_factory_return_def)
  define b2 where "b2 = wifi_send_data wifi_enter_at_mode (if wifi_thread_id b then log Reader_Deleted b else b)"
  have s: "board_in [MODBUS_MUTEX] (wifi_send_data d c)" if "board_in [MODBUS_MUTEX] c" for d c
    using that by (rule board_in_send) simp
  have b2: "board_in [MODBUS_MUTEX] b2" unfolding b2_def using assms(1) by (intro s) simp
  show ?thesis
  proof (cases "e = Gave_Up")
    case True
    then show ?thesis using e(1) b2
      unfolding wifi_factory_set_def Let_def b2_def [symmetric] by simp
  next
    case False
    then show ?thesis using e(1) r s [OF b2]
      unfolding wifi_factory_set_def Let_def b2_def [symmetric] by simp
  qed
qed

lemma board_in_display_poll:
  assumes "board_in [] b" "world_wf w" "factory_ok w"
  shows "\<exists>b'. get_display_board_data w b = Some b' \<and> board_in [] b'"
proof -
  define b1 where "b1 = log (Take MODBUS_MUTEX) b"
  define b2 where "b2 = bus_request w 7 (b1\<lparr>rs485_send_buf_not_modbus :=
    [0xF1, 0xF1, 0x01, 0x01, 0x00, 0x02, 0x7E] @ drop 7 (rs485_send_buf_not_modbus b1)\<rparr>)"
  define c2 where "c2 = upd_data (take_display_data (ucMasterRTURcvBuf b2)) (b2\<lparr>device_work_data_bak := device_work_data b2\<rparr>)"
  have "board_in [MODBUS_MUTEX] b1" using assms(1) by (simp add: b1_def board_in_take)
  then have b2: "board_in [MODBUS_MUTEX] b2"
    unfolding b2_def using assms(2) by (intro board_in_request) (simp_all add: board_in_def board_wf_def)
  then have "board_in [MODBUS_MUTEX] c2" by (simp add: c2_def)
  with assms(3) obtain c3 where c3: "wifi_factory_set w c2 = Some c3" "board_in [MODBUS_MUTEX] c3"
    using board_in_factory by blast
  obtain b3 where "set_device_work_mode w (ucMasterRTURcvBuf b2 ! 2) (ucMasterRTURcvBuf b2 ! 4) 0 b2 = Some b3"
      "board_in [MODBUS_MUTEX] b3"
    using board_in_mode [OF b2, of 0 w] by auto
  with b2 c3 show ?thesis
    unfolding get_display_board_data_def b1_def [symmetric] Let_def b2_def [symmetric] c2_def [symmetric]
    by (auto simp: board_in_release \<open>board_in [MODBUS_MUTEX] c2\<close>)
qed

lemma board_in_display_update:
  assumes "board_in [] b" "world_wf w" "length stk = 35"
  shows "\<exists>b'. set_display_board_data w stk b = Some b' \<and> board_in [] b'"
  using assms set_display_board_data_eq [of b stk w]
  by (auto simp: board_in_def board_wf_def world_wf_def)

lemma board_in_reply:
  assumes "board_in [] b" "unat len \<le> length buf" "unat len + 4 \<le> 100"
  shows "\<exists>b'. wifi_reply w buf len b = Some b' \<and> board_in [] b'"
  using assms wifi_send_packet_data_eq [of len buf "wifi_send_packet_buf_pub b" "w_chk_wifi w"]
  by (auto simp: wifi_reply_def wifi_send_data_def board_in_def board_wf_def board_simps)

lemma length_device_state_bytes [simp]: "length (device_state_bytes p a) = 29"
  by (simp add: device_state_bytes_def Let_def)

lemma board_in_report:
  assumes "board_in [] b"
  shows "\<exists>b'. return_current_device_state w b = Some b' \<and> board_in [] b'"
  unfolding return_current_device_state_def by (rule board_in_reply) (use assms in simp_all)

lemma board_in_F7:
  assumes "board_in [] b" "length stk = 20"
  shows "\<exists>b'. send_F7_reply w stk b = Some b' \<and> board_in [] b'"
proof -
  let ?d = "[0xF7, 0x0E, 0x01, 0x73, 0x01, 0x73, 0x01, 0x00, 0x01, 0x01, 0x01, 0x01, 0x01, 0x01, 0x01, 0x01] :: u8 list"
  have "buf_puts stk 0 ?d = Some (?d @ drop 16 stk)"
    using assms(2) by (subst buf_puts_eq) (simp_all add: eval_nat_numeral)
  then have "send_F7_reply w stk b = wifi_reply w (?d @ drop 16 stk) 16 b"
    by (simp add: send_F7_reply_def send_F7_packet_def wifi_reply_def del: buf_puts.simps)
  with board_in_reply [OF assms(1), of 16 "?d @ drop 16 stk" w] assms(2) show ?thesis by simp
qed

lemma check_defined:
  assumes "2 \<le> unat len" "unat len \<le> length buf"
  shows "\<exists>r. wifi_receive_data_check buf len = Some r"
proof -
  have "chk_loop buf 0 (unat len - 4) 0 = Some (0 + sum_list (take (unat len - 4) (drop (0 + 2) buf)))"
    using assms by (intro chk_loop_eq) simp
  moreover have "0 < length buf" using assms by linarith
  ultimately show ?thesis using assms by (simp add: wifi_receive_data_check_def)
qed

lemma board_in_wifi:
  assumes "board_in [] b" "world_wf w" "length stk = 20" "length (wifi_recv_packet_buf_pub rx) = 100"
    "2 \<le> unat (wifi_recieve_data_length rx)" "unat (wifi_recieve_data_length rx) \<le> 100"
  shows "\<exists>b'. wifi_decode_round w stk rx b = Some b' \<and> board_in [] b'"
proof -
  define buf where "buf = drop 2 (wifi_recv_packet_buf_pub rx)"
  have len: "length buf = 98" using assms(4) by (simp add: buf_def)
  obtain r where r: "wifi_receive_data_check (wifi_recv_packet_buf_pub rx) (wifi_recieve_data_length rx) = Some r"
    using check_defined assms(4-6) by fastforce
  obtain b1 where b1: "set_device_work_mode w (buf ! 0) (buf ! 2) 1 b = Some b1" "board_in [] b1"
    using board_in_mode [OF assms(1), of 1 w] assms(2) by auto
  have "\<exists>b'. wifi_receive_data_decode w stk buf b = Some b' \<and> board_in [] b'"
    using assms(1) b1 len board_in_report [OF b1(2), of w] board_in_report [OF assms(1), of w]
      board_in_F7 [OF assms(1,3), of w]
    by (auto simp: wifi_receive_data_decode_def buf_get_def)
  with r assms(1) show ?thesis by (auto simp: wifi_decode_round_def buf_def)
qed

lemma board_in_timer [simp]: "board_in held b \<Longrightarrow> board_in held (timer_tick (timer_head b))"
  by (simp add: timer_tick_def timer_head_def Let_def)

lemma board_in_power_round:
  assumes "board_in [] b" "world_wf w"
  shows "\<exists>b'. power_monitor_round cmd w b = Some b' \<and> board_in [] b'"
proof -
  define b1 where "b1 = timer_tick (timer_head b)"
  have b1: "board_in [] b1" using assms(1) by (simp add: b1_def)
  define b3 where "b3 = b1\<lparr>device_work_data := device_work_data b1\<lparr>device_power_state := 0, timing_state := 0\<rparr>,
    power_tim_cnt := 0, power_state_pre := 0xff\<rparr>"
  have "board_in [] b3" using b1 by (simp add: b3_def)
  then obtain b4 where "set_dispboard_function_mode w cmd 0 b3 = Some b4" "board_in [] b4"
    using board_in_mode_frame [of b3 w cmd 0] assms(2) by blast
  with b1 board_in_auto [OF b1] show ?thesis
    unfolding power_monitor_round_def b1_def [symmetric] b3_def Let_def by auto
qed

lemma board_in_fault_round:
  assumes "board_in [] b" "world_wf w" "length stk = 35"
  shows "\<exists>b'. check_ex_device_round w stk i b = Some b' \<and> board_in [] b'"
proof -
  define b2 where "b2 = set_fault FAULT_CLEAN_BIT (clean_state_get i)
    (set_fault FAULT_RUN_BIT (run_state_get i) (set_fault FAULT_ESD_BIT (esd_state_get i)
      (set_fault FAULT_MOTOR_BIT (motor_state_get i)
        (if pht_work_state (device_work_data b) \<noteq> 0
         then set_fault FAULT_PHT_BIT (pht_state_get i) b else b))))"
  have b2: "board_in [] b2" using assms(1) by (simp add: b2_def)
  then obtain b3 where "set_display_board_data w stk b2 = Some b3" "board_in [] b3"
    using board_in_display_update assms(2,3) by blast
  with b2 assms(1) show ?thesis
    unfolding check_ex_device_round_def Let_def b2_def [symmetric] by auto
qed

lemma ctrl_step_safe:
  assumes "board_ok b" "ctrl_event_ok e"
  shows "\<exists>b'. ctrl_step b e = Some b' \<and> board_ok b'"
proof (cases e)
  case (Display_Poll w)
  with assms show ?thesis using board_in_display_poll [of b w] by (simp add: board_ok_in)
next
  case (Display_Update w stk)
  with assms show ?thesis using board_in_display_update [of b w stk] by (simp add: board_ok_in)
next
  case (Dc_Motor_Round w)
  with assms show ?thesis by (simp add: board_ok_in set_dc_motor_def Let_def)
next
  case (Power_Round c w)
  with assms show ?thesis using board_in_power_round [of b w c] by (simp add: board_ok_in)
next
  case (Fault_Round w stk i)
  with assms show ?thesis using board_in_fault_round [of b w stk i] by (simp add: board_ok_in)
next
  case (Sensor_Round i err hold)
  with assms show ?thesis
    by (simp add: board_ok_in sysmonitor_slave_def Let_def board_in_release board_in_take)
next
  case (Wifi_Round w stk rx)
  with assms show ?thesis using board_in_wifi [of b w stk rx] by (simp add: board_ok_in)
qed

interpretation ctrl: safe_machine ctrl_step board_ok "\<lambda>_. ctrl_event_ok"
  by unfold_locales (rule ctrl_step_safe)

section \<open>A state and an environment\<close>

definition board0 :: board where
  "board0 = \<lparr> device_work_data = para_of_bytes (replicate 28 0),
     device_work_data_auto = para_of_bytes (replicate 28 0),
     device_work_data_bak = para_of_bytes (replicate 28 0), device_power_state_pre = 0xff,
     GPIOB_ODR = 0, param_flash = (\<lambda>_. 0xff), rs485_send_buf_not_modbus = replicate 50 0,
     ucMasterRTURcvBuf = replicate 256 0, wifi_send_packet_buf_pub = replicate 100 0,
     power_state_pre = 0xff, power_tim_cnt = 0, fault_state_pre = 0xff,
     wifi_thread_id = True, trace = [] \<rparr>"

definition world0 :: world where
  "world0 = \<lparr> w_chk = 0, w_chk_wifi = 0, w_stack = replicate 10 0, w_err = MB_MRE_TIMEDOUT,
     w_rcv = replicate 256 0, w_datatmp = replicate 22 0, w_enter = replicate 4 None, w_default = replicate 4 None,
     w_thread = True \<rparr>"

lemma board0_ok: "board_ok board0"
  by (simp add: board_ok_def board0_def board_wf_def relays_ok_def)

lemma world0_wf: "world_wf world0"
  by (simp add: world_wf_def world0_def)

lemma world0_factory: "factory_ok world0"
  by (simp add: factory_ok_def world0_def module_answers_def eval_nat_numeral)

end
