(* ===== verification/Air_Properties.thy ===== *)
theory Air_Properties
  imports Air_System
begin

text \<open>
  The properties of the control logic: the automatic mode against its specification, the sensor
  path, the stored settings, power on and off, the switch-off timer, the fault bits, and the
  frames sent to the display board.
\<close>

section \<open>The switch-off timer\<close>

lemma one_unit_value: "one_unit = (5066549580791808, 47)"
  by code_simp

lemma one_unit_eq: "dbl_eq_int one_unit n \<longleftrightarrow> n = 36"
  unfolding one_unit_value dbl_eq_int_def by simp

lemma timing_limit_0: "dbl_less_int (timing_limit 0) n \<longleftrightarrow> 0 < n"
proof -
  have "fst (timing_limit 0) = 0" by code_simp
  then show ?thesis by (simp add: dbl_less_int_def zero_less_mult_iff)
qed

lemma timing_limit_values:
  "timing_limit 1 = (5066549580791808, 47)"
  "timing_limit 2 = (5066549580791808, 46)"
  "timing_limit 3 = (7599824371187711, 46)"
  "timing_limit 4 = (5066549580791808, 45)"
  "timing_limit 5 = (6333186975989760, 45)"
  "timing_limit 6 = (7599824371187711, 45)"
  "timing_limit 7 = (8866461766385664, 45)"
  "timing_limit 8 = (5066549580791808, 44)"
  "timing_limit 9 = (5699868278390783, 44)"
  "timing_limit 10 = (6333186975989760, 44)"
  "timing_limit 11 = (6966505673588736, 44)"
  "timing_limit 12 = (7599824371187711, 44)"
  by code_simp+

lemma timing_limit_pos:
  assumes "1 \<le> t" "t \<le> 12" "n \<le> 36"
  shows "\<not> dbl_less_int (timing_limit t) n"
proof -
  have "t = 1 \<or> t = 2 \<or> t = 3 \<or> t = 4 \<or> t = 5 \<or> t = 6 \<or> t = 7 \<or> t = 8 \<or> t = 9 \<or> t = 10 \<or> t = 11 \<or> t = 12"
    using assms(1,2) by presburger
  then have "36 * 2 ^ snd (timing_limit t) \<le> fst (timing_limit t)"
    by (elim disjE) (simp_all only: timing_limit_values, simp_all)
  moreover have "n * 2 ^ snd (timing_limit t) \<le> 36 * 2 ^ snd (timing_limit t)"
    using assms(3) by (intro mult_right_mono) simp_all
  ultimately show ?thesis unfolding dbl_less_int_def by linarith
qed

text \<open>
  What matters of a state to the timer: the rounds that are left, 36 for each unit of the setting.
\<close>

definition timer_at :: "board \<Rightarrow> u8 \<Rightarrow> u32 \<Rightarrow> bool" where
  "timer_at b t c \<longleftrightarrow> timing_state (device_work_data b) = t \<and> power_state_pre b = t \<and> power_tim_cnt b = c"

definition timer_fresh :: "board \<Rightarrow> u8 \<Rightarrow> bool" where
  "timer_fresh b t \<longleftrightarrow> timing_state (device_work_data b) = t \<and> power_state_pre b \<noteq> t"

definition rounds_left :: "board \<Rightarrow> nat \<Rightarrow> bool" where
  "rounds_left b n \<longleftrightarrow> (\<exists>t. 1 \<le> uint t \<and> uint t \<le> 12 \<and>
     (timer_fresh b t \<and> n = 36 * unat t \<or>
      (\<exists>c. timer_at b t (word_of_nat c) \<and> 1 \<le> c \<and> c \<le> 35 \<and> n = 36 * unat t - c)))"

lemma auto_handle_fields [simp]:
  "timing_state (device_work_data (airclean_work_auto_handle b)) = timing_state (device_work_data b)"
  "device_power_state (device_work_data (airclean_work_auto_handle b)) = device_power_state (device_work_data b)"
  "power_state_pre (airclean_work_auto_handle b) = power_state_pre b"
  "power_tim_cnt (airclean_work_auto_handle b) = power_tim_cnt b"
  by (simp_all add: airclean_work_auto_handle_def auto_mode_step_def manual_mode_step_def auto_apply_def
      airclean_motor_set_def board_simps)

lemma timer_head_fresh:
  assumes "timer_fresh b t" "t \<noteq> 0"
  shows "timer_at (timer_head b) t 1"
  using assms by (auto simp: timer_head_def timer_fresh_def timer_at_def Let_def)

lemma timer_head_count:
  assumes "timer_at b t c" "uint c < 36" "t \<noteq> 0" "t \<noteq> 0xff"
  shows "timer_at (timer_head b) t (c + 1)"
  using assms by (auto simp: timer_head_def timer_at_def Let_def word_less_def)

lemma power_round_idle:
  assumes "timer_at (timer_head b) t c" "1 \<le> uint t" "uint t \<le> 12" "uint c < 36"
  shows "power_monitor_round cmd w b = Some (airclean_work_auto_handle (timer_head b))"
  using assms timing_limit_pos [of "uint t" "uint c"]
  by (simp add: power_monitor_round_def timer_tick_def one_unit_eq timer_at_def Let_def)

text \<open>The round at which a unit is used up, and the one at which the last is.\<close>

lemma timer_tick_36:
  assumes "timer_at b t 36" "t \<noteq> 0"
  shows "timer_tick b = upd_data (timing_state_update (\<lambda>_. t - 1)) b"
  using assms by (simp add: timer_tick_def one_unit_eq timer_at_def)

lemma power_round_unit:
  assumes "timer_at (timer_head b) t 36" "2 \<le> uint t" "uint t \<le> 12"
  shows "\<exists>b'. power_monitor_round cmd w b = Some b' \<and> timer_fresh b' (t - 1) \<and>
    device_power_state (device_work_data b') = device_power_state (device_work_data b)"
proof -
  have t: "t \<noteq> 0" "uint (t - 1) = uint t - 1" "t - 1 \<noteq> t"
    using assms(2) by (auto simp: uint_sub_if_size)
  have "\<not> dbl_less_int (timing_limit (uint (t - 1))) 36"
    by (rule timing_limit_pos) (use assms t in simp_all)
  moreover have "device_power_state (device_work_data (timer_head b)) = device_power_state (device_work_data b)"
    by (simp add: timer_head_def Let_def)
  ultimately show ?thesis
    using assms(1) t
    by (simp add: power_monitor_round_def Let_def timer_tick_36 [OF assms(1) t(1)] timer_at_def timer_fresh_def)
qed

definition outputs_off :: "board \<Rightarrow> bool" where
  "outputs_off b \<longleftrightarrow> \<not> bit (GPIOB_ODR b) 1 \<and> \<not> bit (GPIOB_ODR b) 12 \<and> \<not> bit (GPIOB_ODR b) 13 \<and>
    \<not> bit (GPIOB_ODR b) 14 \<and> \<not> bit (GPIOB_ODR b) 15"

lemma power_off_effect:
  "outputs_off (airclean_power_onoff 0 b)"
  "device_power_state (device_work_data (airclean_power_onoff 0 b)) = 0"
  "timing_state (device_work_data (airclean_power_onoff 0 b)) = timing_state (device_work_data b)"
  by (simp_all add: airclean_power_onoff_def board_simps outputs_off_def device_sys_para_save_def)

lemma power_round_fire:
  assumes "timer_at (timer_head b) 1 36" "board_wf b" "world_wf w"
  shows "\<exists>b'. power_monitor_round cmd w b = Some b' \<and> outputs_off b' \<and>
    device_power_state (device_work_data b') = 0 \<and> timing_state (device_work_data b') = 0"
proof -
  let ?b1 = "upd_data (timing_state_update (\<lambda>_. 0)) (timer_head b)"
  let ?b3 = "?b1\<lparr>device_work_data := device_work_data ?b1\<lparr>device_power_state := 0, timing_state := 0\<rparr>,
    power_tim_cnt := 0, power_state_pre := 0xff\<rparr>"
  have "board_wf ?b3" using assms(2) by (simp add: board_wf_def timer_head_def Let_def)
  then obtain b4 where "set_dispboard_function_mode w cmd 0 ?b3 = Some b4"
      "device_work_data b4 = device_work_data ?b3"
    using set_dispboard_function_mode_eq [of ?b3 w cmd 0] assms(3) by auto
  moreover have "dbl_less_int (timing_limit 0) 36" by (simp add: timing_limit_0)
  ultimately show ?thesis
    using assms(1)
    by (simp add: power_monitor_round_def Let_def timer_tick_36 [OF assms(1)] timer_at_def power_off_effect)
qed

lemma uint_pos_neq: "1 \<le> uint (t :: u8) \<Longrightarrow> uint t \<le> 12 \<Longrightarrow> t \<noteq> 0 \<and> t \<noteq> 0xff"
  by auto

lemma small_u32: "c \<le> 36 \<Longrightarrow> uint (word_of_nat c :: u32) = int c"
  unfolding uint_nat by (simp add: unsigned_of_nat take_bit_eq_mod)

lemma rounds_left_step:
  assumes "rounds_left b n" "1 < n" "board_ok b" "world_wf w"
  shows "\<exists>b'. power_monitor_round cmd w b = Some b' \<and> rounds_left b' (n - 1) \<and> board_ok b' \<and>
    device_power_state (device_work_data b') = device_power_state (device_work_data b)"
proof -
  obtain b1 where b1: "power_monitor_round cmd w b = Some b1" "board_ok b1"
    using board_in_power_round [of b w cmd] assms(3,4) by (auto simp: board_ok_in)
  obtain t where t: "1 \<le> uint t" "uint t \<le> 12" and
    ph: "timer_fresh b t \<and> n = 36 * unat t \<or>
      (\<exists>c. timer_at b t (word_of_nat c) \<and> 1 \<le> c \<and> c \<le> 35 \<and> n = 36 * unat t - c)"
    using assms(1) unfolding rounds_left_def by blast
  note t0 = uint_pos_neq [OF t]
  have head_power: "device_power_state (device_work_data (timer_head b)) = device_power_state (device_work_data b)"
    by (simp add: timer_head_def Let_def)
  have idle: ?thesis if at: "timer_at (timer_head b) t (word_of_nat c)" "1 \<le> c" "c \<le> 35"
      and n: "n - 1 = 36 * unat t - c" for c
  proof -
    have "uint (word_of_nat c :: u32) < 36" using at(3) by (simp add: small_u32)
    from power_round_idle [OF at(1) t this] have r:
      "power_monitor_round cmd w b = Some (airclean_work_auto_handle (timer_head b))" .
    then have eq: "b1 = airclean_work_auto_handle (timer_head b)" using b1(1) by simp
    moreover have "timer_at (airclean_work_auto_handle (timer_head b)) t (word_of_nat c)"
      using at(1) by (simp add: timer_at_def)
    ultimately have "rounds_left b1 (n - 1)" using at(2,3) n t unfolding rounds_left_def eq by blast
    then show ?thesis using b1 head_power auto_handle_fields(2) unfolding eq by metis
  qed
  from ph show ?thesis
  proof (elim disjE exE conjE)
    assume "timer_fresh b t" "n = 36 * unat t"
    with timer_head_fresh [of b t] t0 show ?thesis by (intro idle [of 1]) simp_all
  next
    fix c assume c: "timer_at b t (word_of_nat c)" "1 \<le> c" "c \<le> 35" "n = 36 * unat t - c"
    have "uint (word_of_nat c :: u32) < 36" using c(3) by (simp add: small_u32)
    from timer_head_count [OF c(1) this] t0 have hd: "timer_at (timer_head b) t (word_of_nat (c + 1))"
      by (simp add: add.commute)
    show ?thesis
    proof (cases "c = 35")
      case False
      with c hd show ?thesis by (intro idle [of "c + 1"]) simp_all
    next
      case True
      have ut: "2 \<le> unat t" using c(4) assms(2) True by simp
      then have "2 \<le> uint t" unfolding uint_nat by linarith
      have "(1 :: u8) \<le> t" using ut by (simp add: word_le_nat_alt)
      then have sub: "unat (t - 1) = unat t - 1" by (simp add: unat_sub)
      from power_round_unit [of b t cmd w] hd \<open>2 \<le> uint t\<close> t(2) True b1(1)
      have "timer_fresh b1 (t - 1)" "device_power_state (device_work_data b1) = device_power_state (device_work_data b)"
        by auto
      moreover have "n - 1 = 36 * unat (t - 1)" using c(4) True ut by (simp add: sub)
      moreover have "1 \<le> uint (t - 1)" "uint (t - 1) \<le> 12"
        using ut t(2) sub unfolding uint_nat by linarith+
      ultimately show ?thesis using b1 unfolding rounds_left_def by blast
    qed
  qed
qed

lemma rounds_left_last:
  assumes "rounds_left b 1" "board_ok b" "world_wf w"
  shows "\<exists>b'. power_monitor_round cmd w b = Some b' \<and> outputs_off b' \<and> board_ok b' \<and>
    device_power_state (device_work_data b') = 0 \<and> timing_state (device_work_data b') = 0"
proof -
  obtain t c where t: "1 \<le> uint t" "uint t \<le> 12" and
    c: "timer_at b t (word_of_nat c)" "1 \<le> c" "c \<le> 35" "1 = 36 * unat t - c"
    using assms(1) unfolding rounds_left_def by force
  have "unat t = 1" "c = 35" using c(3,4) t(1) unfolding uint_nat by linarith+
  then have one: "t = 1" by (metis unat_1 word_unat_eq_iff)
  have "timer_at (timer_head b) 1 36"
    using timer_head_count [OF c(1)] \<open>c = 35\<close> by (simp add: one)
  from power_round_fire [OF this, of w cmd] assms(2,3)
    board_in_power_round [of b w cmd]
  show ?thesis by (auto simp: board_ok_in board_in_def)
qed

lemma countdown:
  assumes "rounds_left b n" "board_ok b" "list_all world_wf ws"
  shows "length ws < n \<Longrightarrow> \<exists>b'. run_steps (\<lambda>b w. power_monitor_round cmd w b) b ws = Some b' \<and>
      rounds_left b' (n - length ws) \<and> board_ok b' \<and>
      device_power_state (device_work_data b') = device_power_state (device_work_data b)"
  using assms
proof (induction ws arbitrary: b n)
  case Nil
  then show ?case by simp
next
  case (Cons w ws)
  then obtain b1 where b1: "power_monitor_round cmd w b = Some b1" "rounds_left b1 (n - 1)" "board_ok b1"
    "device_power_state (device_work_data b1) = device_power_state (device_work_data b)"
    using rounds_left_step [of b n w cmd] by auto
  with Cons.IH [OF _ b1(2,3)] Cons.prems show ?case by simp
qed

text \<open>
  C3: Once the timer is set to \<open>t\<close> units (1 to 12), the monitor keeps the device in its power state
  for \<open>36 * t - 1\<close> rounds and switches it off, with every output low, exactly in round \<open>36 * t\<close>.
\<close>

theorem timer_switches_off:
  assumes "timing_state (device_work_data b) = t" "power_state_pre b \<noteq> t" "1 \<le> unat t" "unat t \<le> 12"
    "board_ok b" "list_all world_wf ws"
  shows "(length ws < 36 * unat t \<longrightarrow>
      (\<exists>b'. run_steps (\<lambda>b w. power_monitor_round cmd w b) b ws = Some b' \<and>
        device_power_state (device_work_data b') = device_power_state (device_work_data b))) \<and>
    (length ws = 36 * unat t \<longrightarrow>
      (\<exists>b'. run_steps (\<lambda>b w. power_monitor_round cmd w b) b ws = Some b' \<and>
        device_power_state (device_work_data b') = 0 \<and> timing_state (device_work_data b') = 0 \<and> outputs_off b'))"
proof (intro conjI impI)
  have "1 \<le> uint t" "uint t \<le> 12" using assms(3,4) unfolding uint_nat by linarith+
  with assms(1,2) have left: "rounds_left b (36 * unat t)"
    unfolding rounds_left_def timer_fresh_def by blast
  show "\<exists>b'. run_steps (\<lambda>b w. power_monitor_round cmd w b) b ws = Some b' \<and>
        device_power_state (device_work_data b') = device_power_state (device_work_data b)"
    if "length ws < 36 * unat t"
    using countdown [OF left assms(5,6) that] by blast
  assume len: "length ws = 36 * unat t"
  then obtain vs v where ws: "ws = vs @ [v]" using assms(3) by (cases ws rule: rev_cases) auto
  have wf: "list_all world_wf vs" "world_wf v" using assms(6) ws by simp_all
  obtain b1 where b1: "run_steps (\<lambda>b w. power_monitor_round cmd w b) b vs = Some b1"
      "rounds_left b1 (36 * unat t - length vs)" "board_ok b1"
    using countdown [OF left assms(5) wf(1)] len ws by auto
  have "36 * unat t - length vs = 1" using len ws by simp
  with b1 rounds_left_last [OF _ b1(3) wf(2), of cmd] ws
  show "\<exists>b'. run_steps (\<lambda>b w. power_monitor_round cmd w b) b ws = Some b' \<and>
        device_power_state (device_work_data b') = 0 \<and> timing_state (device_work_data b') = 0 \<and> outputs_off b'"
    by (auto simp: run_steps_append)
qed

theorem timer_switches_off_witness:
  "\<exists>b'. run_steps (\<lambda>b w. power_monitor_round 2 w b)
      (board0\<lparr>device_work_data := (para_of_bytes (replicate 28 0))\<lparr>device_power_state := 1, device_mode := 1, timing_state := 1\<rparr>\<rparr>)
      (replicate 36 world0) = Some b' \<and>
    device_power_state (device_work_data b') = 0 \<and> timing_state (device_work_data b') = 0 \<and> outputs_off b'"
  using timer_switches_off [of "board0\<lparr>device_work_data :=
      (para_of_bytes (replicate 28 0))\<lparr>device_power_state := 1, device_mode := 1, timing_state := 1\<rparr>\<rparr>"
      1 "replicate 36 world0" 2] board0_ok world0_wf
  by (simp add: board_ok_in list_all_length) (simp add: board0_def)

section \<open>The sensor path\<close>

text \<open>What the automatic mode reads for a register value: the low byte is lost when bit 15 is set.\<close>

definition seen_as :: "u16 \<Rightarrow> u16" where
  "seen_as r = (if bit r 15 then be16 (hi8 r) 0xFF else r)"

lemma swapped_read: "be16 (lo8 (sw16 r)) (hi8 (sw16 r)) = seen_as r"
  by (simp add: sw16_eq seen_as_def)

lemma house_fields:
  "house_pm25 p 0 = be16 (lo8 (house1_pm2_5 p)) (hi8 (house1_pm2_5 p))"
  "house_co2 p 0 = be16 (lo8 (house1_co2 p)) (hi8 (house1_co2 p))"
  "house_pm25 p 1 = be16 (lo8 (house2_pm2_5 p)) (hi8 (house2_pm2_5 p))"
  "house_co2 p 1 = be16 (lo8 (house2_co2 p)) (hi8 (house2_co2 p))"
  "house_pm25 p 2 = be16 (lo8 (house3_pm2_5 p)) (hi8 (house3_pm2_5 p))"
  "house_co2 p 2 = be16 (lo8 (house3_co2 p)) (hi8 (house3_co2 p))"
  "house_pm25 p 3 = be16 (lo8 (house4_pm2_5 p)) (hi8 (house4_pm2_5 p))"
  "house_co2 p 3 = be16 (lo8 (house4_co2 p)) (hi8 (house4_co2 p))"
  "house_pm25 p 4 = be16 (lo8 (house5_pm2_5 p)) (hi8 (house5_pm2_5 p))"
  "house_co2 p 4 = be16 (lo8 (house5_co2 p)) (hi8 (house5_co2 p))"
  by (simp_all add: house_pm25_def house_co2_def byte_2_to_short_def device_data_def)

lemma sensor_stored:
  assumes "j < 5" and b'_def: "b' = sysmonitor_slave (11 + j) MB_MRE_NO_ERR hold b"
  shows "house_co2 (device_work_data b') j = seen_as (hold ! (10 + j) ! 0) \<and>
    house_pm25 (device_work_data b') j = seen_as (hold ! (10 + j) ! 1) \<and>
    (\<forall>k < 5. k \<noteq> j \<longrightarrow> house_co2 (device_work_data b') k = house_co2 (device_work_data b) k \<and>
       house_pm25 (device_work_data b') k = house_pm25 (device_work_data b) k) \<and>
    settings (device_work_data b') = settings (device_work_data b)"
proof -
  have small: "k < 5 \<longleftrightarrow> k = 0 \<or> k = 1 \<or> k = 2 \<or> k = 3 \<or> k = (4 :: nat)" for k by auto
  from assms(1) show ?thesis
    unfolding small b'_def
    by (elim disjE)
      (simp_all add: sysmonitor_slave_def Let_def log_def house_fields swapped_read settings_eq
        flip: One_nat_def)
qed

text \<open>
  The registers read from slave \<open>11 + j\<close> reach the automatic mode as house \<open>j\<close>: the swap on
  storing and the big-endian reading cancel for values below 0x8000, while a larger value is read
  with its low byte 0xFF. The other houses are untouched.
\<close>

lemma sensor_value_path:
  assumes "j < 5" and b'_def: "b' = sysmonitor_slave (11 + j) MB_MRE_NO_ERR hold b"
  shows "house_co2 (device_work_data b') j = seen_as (hold ! (10 + j) ! 0) \<and>
    house_pm25 (device_work_data b') j = seen_as (hold ! (10 + j) ! 1) \<and>
    (\<forall>k < 5. k \<noteq> j \<longrightarrow> house_co2 (device_work_data b') k = house_co2 (device_work_data b) k \<and>
       house_pm25 (device_work_data b') k = house_pm25 (device_work_data b) k) \<and>
    settings (device_work_data b') = settings (device_work_data b)"
  by (rule sensor_stored [OF assms])

lemma sensor_value_path_witness:
  "house_co2 (device_work_data (sysmonitor_slave 12 MB_MRE_NO_ERR (replicate 16 [900, 0x8012]) board0)) 1 = 900 \<and>
   house_pm25 (device_work_data (sysmonitor_slave 12 MB_MRE_NO_ERR (replicate 16 [900, 0x8012]) board0)) 1 = 0x80FF"
  using sensor_value_path [of 1 _ "replicate 16 [900, 0x8012]" board0]
  by (simp add: seen_as_def be16_def hi8_def)

section \<open>The automatic mode\<close>

text \<open>The specification: a level from the readings of the houses that report anything.\<close>

definition auto_level :: "(u16 \<times> u16) list \<Rightarrow> u8 \<times> u8" where
  "auto_level readings =
    (let active = filter (\<lambda>(pm, co). pm \<noteq> 0 \<or> co \<noteq> 0) readings
     in if list_ex (\<lambda>(pm, co). 134 < pm \<or> 2500 < co) active then (1, 3)
        else if list_ex (\<lambda>(pm, co). 96 < pm \<or> 1300 < co) active then (1, 2)
        else if list_ex (\<lambda>(pm, co). pm < 55 \<and> co < 730) active then (0, 0)
        else if list_ex (\<lambda>(pm, co). pm < 91 \<and> co < 1290) active then (1, 1)
        else (0, 0))"

definition readings :: "para_type \<Rightarrow> (u16 \<times> u16) list" where
  "readings p = map (\<lambda>i. (house_pm25 p i, house_co2 p i)) [0..<5]"

lemma house_loop_iff:
  "house_loop cond p i n \<longleftrightarrow>
    (\<exists>k \<in> {i..<i + n}. (house_pm25 p k \<noteq> 0 \<or> house_co2 p k \<noteq> 0) \<and> cond (house_pm25 p k) (house_co2 p k))"
proof (induction n arbitrary: i)
  case 0
  then show ?case by simp
next
  case (Suc n)
  have "{i..<i + Suc n} = insert i {Suc i..<Suc i + n}" by auto
  with Suc show ?case by (auto simp: Let_def)
qed

lemma house_loop_readings:
  "house_loop cond p 0 5 \<longleftrightarrow>
    list_ex (\<lambda>(pm, co). cond pm co) (filter (\<lambda>(pm, co). pm \<noteq> 0 \<or> co \<noteq> 0) (readings p))"
  by (auto simp: house_loop_iff readings_def list_ex_iff atLeast_upt)

text \<open>
  C4: In automatic mode the outputs follow the specified level: the electrostatic filter and the
  lamp are on or off, the relay of the speed and no other is energised, and the recorded state and
  the DC motor's command carry the same speed.
\<close>

theorem auto_mode_level:
  assumes "device_power_state (device_work_data b) \<noteq> 0" "device_mode (device_work_data b) = 1"
    "auto_level (readings (device_work_data b)) = (onoff, speed)"
    and b'_def: "b' = airclean_work_auto_handle b"
  shows "(bit (GPIOB_ODR b') 1 \<longleftrightarrow> onoff \<noteq> 0) \<and> (bit (GPIOB_ODR b') 15 \<longleftrightarrow> onoff \<noteq> 0) \<and>
    (bit (GPIOB_ODR b') 14 \<longleftrightarrow> speed = 1) \<and> (bit (GPIOB_ODR b') 13 \<longleftrightarrow> speed = 2) \<and>
    (bit (GPIOB_ODR b') 12 \<longleftrightarrow> speed = 3) \<and>
    wind_speed_state (device_work_data_auto b') = speed \<and>
    high_pressur_state (device_work_data_auto b') = onoff \<and>
    pht_work_state (device_work_data_auto b') = onoff \<and>
    take 5 (rs485_send_buf_not_modbus b') = [0xBC, 0x07, 0x01, speed, 0xC4 + speed]"
proof -
  let ?p = "device_work_data b"
  have lev: "(onoff, speed) \<in> {(1, 3), (1, 2), (0, 0), (1, 1)}"
    using assms(3) by (auto simp: auto_level_def Let_def split: if_splits)
  have "b' = auto_apply onoff speed b"
    using assms(1-3) unfolding b'_def
    by (auto simp: airclean_work_auto_handle_def auto_mode_step_def auto_level_def house_loop_readings
        Let_def split: if_splits)
  then show ?thesis
    using lev by (auto simp: auto_apply_def airclean_motor_set_def board_simps)
qed

definition sample_para :: para_type where
  "sample_para = (para_of_bytes (replicate 28 0))\<lparr>device_power_state := 1, device_mode := 1,
     wind_speed_state := 2, high_pressur_state := 1, house2_pm2_5 := 0x6400\<rparr>"

lemma sample_level: "auto_level (readings sample_para) = (1, 2)"
  by code_simp

lemma sample_mode: "device_power_state sample_para = 1" "device_mode sample_para = 1"
  by (simp_all add: sample_para_def)

theorem auto_mode_level_witness:
  "let b' = airclean_work_auto_handle (board0\<lparr>device_work_data := sample_para\<rparr>)
   in bit (GPIOB_ODR b') 13 \<and> \<not> bit (GPIOB_ODR b') 12 \<and> \<not> bit (GPIOB_ODR b') 14"
  using auto_mode_level [of "board0\<lparr>device_work_data := sample_para\<rparr>" 1 2]
  by (simp add: sample_level sample_mode Let_def)

section \<open>Commands and stored settings\<close>

text \<open>The settings a command leads to: positions as in the stored six bytes.\<close>

definition commanded :: "u8 \<Rightarrow> u8 \<Rightarrow> u8 list \<Rightarrow> u8 list" where
  "commanded type data s =
    (if type = 3 then (if data = 1 \<or> data = 2 then s[1 := data] else s)
     else if type = 4 then s[3 := if data \<noteq> 0 then 1 else 0]
     else if type = 5 then s[4 := if data \<noteq> 0 then 1 else 0]
     else if type = 6 then s[5 := if data \<le> 12 then data else 0]
     else if type = 7 then (if data \<le> 3 then s[2 := data] else s)
     else s)"

lemma switch_settings:
  assumes "type \<in> {3, 4, 5, 6, 7}"
  shows "\<exists>b'. work_mode_switch type data b = Some b' \<and>
    settings (device_work_data b') = commanded type data (settings (device_work_data b)) \<and>
    device_work_data_bak b' = device_work_data_bak b \<and> param_flash b' = param_flash b \<and>
    (board_wf b \<longrightarrow> board_wf b')"
  using assms
  by (auto simp: work_mode_switch_def commanded_def settings_eq board_simps board_wf_def)

lemma save_if_changed_stored:
  "settings (device_work_data_bak b) \<noteq> settings (device_work_data b) \<Longrightarrow>
    stored (save_if_changed b) = Some (settings (device_work_data b))"
  "settings (device_work_data_bak b) = settings (device_work_data b) \<Longrightarrow> save_if_changed b = b"
  by (simp_all add: save_if_changed_def stored_save flip: settings_def)

lemma save_if_changed_data [simp]:
  "device_work_data (save_if_changed b) = device_work_data b"
  by (simp add: save_if_changed_def device_sys_para_save_def)

text \<open>
  C6: An accepted command of type 3 to 7, from either channel, changes exactly the setting it
  names, with its range check, and a change is stored in the parameter area at once; a command of
  type 4 to 7 is ignored while the device is off or in automatic mode.
\<close>

theorem command_effect:
  assumes "type \<in> {3, 4, 5, 6, 7}" "board_wf b" "world_wf w"
  shows "\<exists>b'. set_device_work_mode w type data ch b = Some b' \<and>
    (if type \<noteq> 3 \<and> (device_mode (device_work_data b) = 1 \<or> device_power_state (device_work_data b) = 0)
     then b' = b
     else settings (device_work_data b') = commanded type data (settings (device_work_data b)) \<and>
       (if settings (device_work_data b') \<noteq> settings (device_work_data b)
        then stored b' = Some (settings (device_work_data b'))
        else param_flash b' = param_flash b))"
proof -
  define b0 where "b0 = b\<lparr>device_work_data_bak := device_work_data b\<rparr>"
  have b0: "board_wf b0" "device_work_data b0 = device_work_data b" "device_work_data_bak b0 = device_work_data b"
    "param_flash b0 = param_flash b"
    using assms(2) by (simp_all add: b0_def board_wf_def)
  obtain b1 where b1: "work_mode_switch type data b0 = Some b1"
    "settings (device_work_data b1) = commanded type data (settings (device_work_data b))"
    "device_work_data_bak b1 = device_work_data b" "param_flash b1 = param_flash b" "board_wf b1"
    using switch_settings [OF assms(1), of data b0] b0 by auto
  obtain b2 where b2: "(if ch = 1 then set_dispboard_function_mode w type data b1 else Some b1) = Some b2"
    "device_work_data b2 = device_work_data b1" "device_work_data_bak b2 = device_work_data_bak b1"
    "param_flash b2 = param_flash b1"
    using set_dispboard_function_mode_eq [OF b1(5) assms(3), of type data] by (cases "ch = 1") auto
  have r: "set_device_work_mode w type data ch b = Some (save_if_changed b2)"
    if "\<not> (type \<noteq> 3 \<and> (device_mode (device_work_data b) = 1 \<or> device_power_state (device_work_data b) = 0))"
    using that assms(1) b1(1) b2(1) by (auto simp: set_device_work_mode_def Let_def b0_def)
  show ?thesis
  proof (cases "type \<noteq> 3 \<and> (device_mode (device_work_data b) = 1 \<or> device_power_state (device_work_data b) = 0)")
    case True
    then show ?thesis using assms(1) by (auto simp: set_device_work_mode_def)
  next
    case False
    then show ?thesis
      using r save_if_changed_stored [of b2] b1 b2 by (auto simp: stored_def)
  qed
qed

theorem command_effect_witness:
  "\<exists>b'. set_device_work_mode world0 3 2 1 (board0\<lparr>device_work_data := sample_para\<rparr>) = Some b' \<and>
    settings (device_work_data b') = [1, 2, 2, 1, 0, 0] \<and> stored b' = Some [1, 2, 2, 1, 0, 0]"
proof -
  have "settings sample_para = [1, 1, 2, 1, 0, 0]" by code_simp
  then show ?thesis
    using command_effect [of 3 "board0\<lparr>device_work_data := sample_para\<rparr>" world0 2 1] board0_ok world0_wf
    by (auto simp: board_ok_def board_wf_def commanded_def)
qed

text \<open>
  C7: Switching off stores the settings and turns every output off; switching on again, whatever
  happened to the working data meanwhile, restores all settings, with the power state on, and
  drives the outputs from them.
\<close>

theorem power_off_on_restores:
  "let off = airclean_power_onoff 0 b;
       on = airclean_power_onoff 1 (off\<lparr>device_work_data := p\<rparr>)
   in outputs_off off \<and> device_power_state (device_work_data off) = 0 \<and>
      settings (device_work_data on) = 1 # tl (settings (device_work_data b)) \<and>
      (bit (GPIOB_ODR on) 1 \<longleftrightarrow> high_pressur_state (device_work_data b) \<noteq> 0) \<and>
      (bit (GPIOB_ODR on) 15 \<longleftrightarrow> pht_work_state (device_work_data b) \<noteq> 0) \<and>
      (bit (GPIOB_ODR on) 14 \<longleftrightarrow> wind_speed_state (device_work_data b) = 1) \<and>
      (bit (GPIOB_ODR on) 13 \<longleftrightarrow> wind_speed_state (device_work_data b) = 2) \<and>
      (bit (GPIOB_ODR on) 12 \<longleftrightarrow> wind_speed_state (device_work_data b) = 3)"
proof -
  let ?s = "settings (device_work_data b)"
  define off where "off = airclean_power_onoff 0 b"
  define got where "got = device_sys_para_get (off\<lparr>device_work_data := p\<rparr>)"
  have "param_flash off = param_flash (device_sys_para_save b)"
    by (simp add: off_def airclean_power_onoff_def board_simps)
  then have "stored (off\<lparr>device_work_data := p\<rparr>) = Some ?s"
    using stored_save [of b] by (simp add: stored_def split: if_splits)
  then have got: "settings (device_work_data got) = ?s"
    unfolding got_def by (rule device_sys_para_get_stored)
  have on: "airclean_power_onoff 1 (off\<lparr>device_work_data := p\<rparr>) =
    (let q = device_work_data got
     in got\<lparr>GPIOB_ODR := motor_odr (wind_speed_state q) (pht_odr (pht_work_state q)
          (esd_odr (high_pressur_state q) (GPIOB_ODR got))),
        device_work_data := q\<lparr>device_power_state := 1\<rparr>\<rparr>)"
    by (simp add: airclean_power_onoff_def board_simps got_def)
  show ?thesis
    using got power_off_effect(1,2) [of b]
    by (simp add: Let_def on settings_eq flip: off_def)
qed

text \<open>
  With the device on, a round of the fault check makes the fault byte mirror its inputs, a low
  level being a fault: motor, electrostatic filter, run and clean always, the lamp only while it is
  switched on; with the device off every fault is cleared.
\<close>

lemma fault_round_mirrors:
  assumes "board_wf b" "world_wf w" "length stk = 35"
  shows "\<exists>b'. check_ex_device_round w stk i b = Some b' \<and>
    (device_power_state (device_work_data b) = 1 \<longrightarrow>
       (bit (fault_state (device_work_data b')) 1 \<longleftrightarrow> \<not> PB11 i) \<and>
       (bit (fault_state (device_work_data b')) 0 \<longleftrightarrow> \<not> PC5 i) \<and>
       (bit (fault_state (device_work_data b')) 4 \<longleftrightarrow> \<not> PC4 i) \<and>
       (bit (fault_state (device_work_data b')) 3 \<longleftrightarrow> \<not> PB0 i) \<and>
       (bit (fault_state (device_work_data b')) 2 \<longleftrightarrow>
          (if pht_work_state (device_work_data b) \<noteq> 0 then \<not> PB2 i else bit (fault_state (device_work_data b)) 2)) \<and>
       settings (device_work_data b') = settings (device_work_data b)) \<and>
    (device_power_state (device_work_data b) \<noteq> 1 \<longrightarrow> fault_state (device_work_data b') = 0)"
proof (cases "device_power_state (device_work_data b) = 1")
  case True
  define b1 where "b1 = (if pht_work_state (device_work_data b) \<noteq> 0
    then set_fault FAULT_PHT_BIT (pht_state_get i) b else b)"
  define b2 where "b2 = set_fault FAULT_CLEAN_BIT (clean_state_get i)
    (set_fault FAULT_RUN_BIT (run_state_get i) (set_fault FAULT_ESD_BIT (esd_state_get i)
      (set_fault FAULT_MOTOR_BIT (motor_state_get i) b1)))"
  have b2: "board_wf b2" using assms(1) by (simp add: b2_def b1_def set_fault_def board_wf_def)
  have "\<exists>b'. check_ex_device_round w stk i b = Some b' \<and> device_work_data b' = device_work_data b2"
    using True set_display_board_data_eq [OF b2 assms(3), of w]
    unfolding check_ex_device_round_def Let_def b1_def [symmetric] b2_def [symmetric] by auto
  moreover have "settings (device_work_data b2) = settings (device_work_data b)"
    by (simp add: b2_def b1_def set_fault_def settings_eq)
  ultimately show ?thesis
    using True
    by (auto simp: b2_def b1_def set_fault_def bit_fault_set_bit motor_state_get_def pht_state_get_def
        clean_state_get_def run_state_get_def esd_state_get_def)
next
  case False
  then show ?thesis by (simp add: check_ex_device_round_def)
qed

lemma fault_round_mirrors_witness:
  "\<exists>b'. check_ex_device_round world0 (replicate 35 0)
      \<lparr> PB0 = True, PB2 = True, PB11 = False, PC4 = True, PC5 = True \<rparr>
      (board0\<lparr>device_work_data := sample_para\<rparr>) = Some b' \<and> bit (fault_state (device_work_data b')) 1 \<and>
    \<not> bit (fault_state (device_work_data b')) 3"
  using fault_round_mirrors [of "board0\<lparr>device_work_data := sample_para\<rparr>" world0 "replicate 35 0"
      "\<lparr> PB0 = True, PB2 = True, PB11 = False, PC4 = True, PC5 = True \<rparr>"] board0_ok world0_wf
  by (auto simp: sample_mode board_ok_def board_wf_def)

section \<open>Frames to the display board\<close>

text \<open>
  The state frame for the display board is complete (33 bytes, marks, the 27 data bytes) and
  its checksum is right exactly when the uninitialised local happens to be zero.
\<close>

lemma display_update_frame:
  assumes "board_wf b" "length stk = 35"
  shows "\<exists>b' frame. set_display_board_data w stk b = Some b' \<and>
    trace b' = trace b @ [Take MODBUS_MUTEX, Rs485_Send frame, Release MODBUS_MUTEX] \<and>
    length frame = 33 \<and> take 4 frame = [0xF2, 0xF2, 0x01, 0x1b] \<and>
    take 27 (drop 4 frame) = take 27 (device_data (device_work_data b)) \<and> frame ! 32 = 0x7E \<and>
    (frame ! 31 = sum_list (take 29 (drop 2 frame)) \<longleftrightarrow> w_chk w = 0)"
proof -
  obtain d where d: "take 27 (device_data (device_work_data b)) = d" "length d = 27" by simp
  have "display_frame w b = [0xF2, 0xF2, 0x01, 0x1b] @ d @ [w_chk w + (0x01 + (0x1b + sum_list d)), 0x7E]"
    by (simp add: display_frame_def d(1))
  with d set_display_board_data_eq [OF assms, of w] show ?thesis
    by (auto simp: nth_append intro!: exI)
qed

lemma display_update_frame_witness:
  "\<exists>b' frame. set_display_board_data world0 (replicate 35 0) board0 = Some b' \<and>
    trace b' = [Take MODBUS_MUTEX, Rs485_Send frame, Release MODBUS_MUTEX] \<and> length frame = 33 \<and>
    frame ! 31 = sum_list (take 29 (drop 2 frame))"
proof -
  have "board_wf board0" "trace board0 = []" "w_chk world0 = 0"
    using board0_ok by (simp_all add: board_ok_def board0_def world0_def)
  with display_update_frame [of board0 "replicate 35 0" world0] show ?thesis by auto
qed

text \<open>
  The command frame sent to the display board holds the mode in the place of the command
  type and two bytes of the stack instead of its length and data: the command type is not in it.
\<close>

lemma mode_frame_loses_command:
  assumes "board_wf b" "world_wf w"
  shows "\<exists>b'. set_dispboard_function_mode w type mode b = Some b' \<and>
    trace b' = trace b @ [Take MODBUS_MUTEX,
      Rs485_Send [0xF1, 0xF1, mode, w_stack w ! 1, w_stack w ! 2,
        w_chk w + mode + w_stack w ! 1 + w_stack w ! 2, 0x7E],
      Release MODBUS_MUTEX]"
  using set_dispboard_function_mode_eq [OF assms, of type mode]
  by (simp add: mode_frame_def Let_def add.assoc)

lemma mode_frame_loses_command_witness:
  "\<exists>b'. set_dispboard_function_mode (world0\<lparr>w_stack := [9, 8, 7, 0, 0, 0, 0, 0, 0, 0]\<rparr>) 4 1 board0 = Some b' \<and>
    trace b' = [Take MODBUS_MUTEX, Rs485_Send [0xF1, 0xF1, 1, 8, 7, 16, 0x7E], Release MODBUS_MUTEX]"
proof -
  have "board_wf board0" "trace board0 = []" "w_chk world0 = 0"
    using board0_ok by (simp_all add: board_ok_def board0_def world0_def)
  with mode_frame_loses_command [of board0 "world0\<lparr>w_stack := [9, 8, 7, 0, 0, 0, 0, 0, 0, 0]\<rparr>" 4 1]
  show ?thesis by (simp add: world_wf_def world0_def)
qed

section \<open>All handlers together\<close>



text \<open>A poll that asks for the factory settings; the module answers the first request, in two pieces, and not the second.\<close>

definition factory_world :: world where
  "factory_world = world0\<lparr> w_err := MB_MRE_REV_DATA,
     w_rcv := (replicate 256 0)[0 := 0xF2, 1 := 0xF2, 30 := 0x40, 32 := 0x7E],
     w_enter := [None, Some (take 4 wifi_enter_at_mode_return), Some (drop 4 wifi_enter_at_mode_return)] \<rparr>"


lemma factory_world_sends:
  "map_option (\<lambda>b. trace b) (get_display_board_data factory_world board0) = Some
    [Take MODBUS_MUTEX, Rs485_Send [0xF1, 0xF1, 0x01, 0x01, 0x00, 0x02, 0x7E], Reader_Deleted,
     Take WIFI_SEND_MUTEX, Wifi_Send wifi_enter_at_mode, Release WIFI_SEND_MUTEX,
     Take WIFI_SEND_MUTEX, Wifi_Send wifi_set_factory, Release WIFI_SEND_MUTEX, Reader_Started, Release MODBUS_MUTEX]"
  by code_simp


section \<open>Code that cannot do what it is for\<close>

lemma save_para_word_zero:
  assumes "save_para_word d i = Some w"
  shows "w = 0"
proof -
  let ?x = "ucast (d ! i) + ucast (d ! (i + 1)) :: u32"
  have "w = push_bit 24 (push_bit (16 + unat (d ! (i + 3))) (push_bit (8 + unat (d ! (i + 2))) ?x))"
    using assms by (auto simp: save_para_word_def c_shl_def split: if_splits)
  then show ?thesis by (auto intro!: bit_word_eqI simp: bit_simps)
qed

text \<open>
  Whenever \<open>FLASH_Program_save_para\<close> has a defined result, every word it programs is zero:
  the unparenthesised shifts add up to 48 and more, so none of the parameters is saved.
\<close>

lemma flash_save_para_loses_all:
  assumes "FLASH_Program_save_para b = Some ws"
  shows "\<forall>(i, w) \<in> set ws. w = 0"
proof -
  have "save_para_loop d i n = Some ws \<Longrightarrow> (k, w) \<in> set ws \<Longrightarrow> w = 0" for d i n ws k w
    by (induction n arbitrary: i ws) (auto simp: bind_eq_Some_conv dest!: save_para_word_zero)
  with assms show ?thesis unfolding FLASH_Program_save_para_def by blast
qed

lemma flash_save_para_loses_all_witness:
  "\<exists>ws. FLASH_Program_save_para (board0\<lparr>device_work_data := (para_of_bytes (replicate 28 0))
      \<lparr>device_power_state := 1, device_mode := 2\<rparr>\<rparr>) = Some ws \<and> length ws = 5 \<and> snd (ws ! 0) = 0"
proof -
  let ?b = "board0\<lparr>device_work_data := (para_of_bytes (replicate 28 0))\<lparr>device_power_state := 1, device_mode := 2\<rparr>\<rparr>"
  have "save_para_loop (device_data ((para_of_bytes (replicate 28 0))\<lparr>device_power_state := 1, device_mode := 2\<rparr>)) 0 5
      = Some [(0, 0), (4, 0), (8, 0), (12, 0), (16, 0)]" by code_simp
  then have "FLASH_Program_save_para ?b = Some [(0, 0), (4, 0), (8, 0), (12, 0), (16, 0)]"
    by (simp add: FLASH_Program_save_para_def)
  with flash_save_para_loses_all [OF this] show ?thesis by simp
qed

text \<open>
  \<open>wind_state_get\<close> never reports a normal fan: it returns 1 after the first low reading of its
  pin and does not return while the pin stays high.
\<close>

lemma wind_state_never_normal:
  "wind_state_get pins = (if False \<in> set pins then Some 1 else None)"
  by (induction pins) auto

end
