(* ===== verification/Disp_Panel.thy ===== *)
theory Disp_Panel
  imports Device_Data
begin

text \<open>
  The display board, a second STM32 on the control board's bus: its state, and the LCD panel of
  \<open>ht1621_dispboard_code/User/Led/bsp_led.c\<close>. The HT1621 LCD driver hangs on three pins; every pin
  change is kept in \<open>ht_bus\<close>. The panel is drawn from the two global tables \<open>Ht1621Tab2\<close> (the icons)
  and \<open>Ht1621Tab3\<close> (the digits).
\<close>

section \<open>State\<close>

datatype ht_pin = HT_CS bool | HT_WR bool | HT_DATA bool

datatype KEYSTATE = KeyDown | KeyUp | KeyShort | KeyLong

text \<open>The static locals of \<open>power_Key\<close> and of \<open>MainSwitch_Key\<close>.\<close>

record key_fsm =
  KeyStep :: u8
  KeyDownTimes :: u16
  KeyDoubleTimes :: u16

text \<open>
  The globals of \<open>main.c\<close>, \<open>bsp_led.c\<close> and \<open>stm32f10x_it.c\<close>. \<open>tx_irq\<close> and \<open>rs485_tx\<close> are the enabled
  transmit interrupt and the direction pin, \<open>d_line_out\<close> the bytes sent; \<open>backlight\<close> and \<open>key_led\<close> are
  the levels of PC1 and PC0.
\<close>

record disp =
  d_device_work_data :: para_type
  device_work_changing_data :: para_type
  Ht1621Tab2 :: "u8 list"
  Ht1621Tab3 :: "u8 list"
  count2 :: u8
  count3 :: u8
  key4 :: u8
  d_time :: u32
  KeyState :: KEYSTATE
  power_fsm :: key_fsm
  main_fsm :: key_fsm
  power_key_state :: u8
  mode_key_state :: u8
  PHT_key_state :: u8
  workspeed_key_state :: u8
  ESD_key_state :: u8
  in_com_buff :: "u8 list"
  rxd1_buffer :: "u8 list"
  rxd1_buff_cFlag :: u8
  Isr_j :: u8
  Isr_com :: u8
  rec_data_num :: u8
  d_send_packet_buf :: "u8 list"
  cmd_send_lenth :: u8
  counter_send :: u8
  txd1_buff_cFlag :: u8
  rx_buff_f1 :: u8
  time_tick_cnt :: u32
  time_tick_cnt1 :: u32
  time_tick_cnt2 :: u32
  house_id :: u8
  tx_irq :: bool
  rs485_tx :: bool
  d_line_out :: "u8 list"
  backlight :: bool
  key_led :: bool
  ht_bus :: "ht_pin list"

section \<open>The wire to the LCD driver\<close>

definition ht_out :: "ht_pin list \<Rightarrow> disp \<Rightarrow> disp" where
  "ht_out es s = s\<lparr> ht_bus := ht_bus s @ es \<rparr>"

lemma ht_out_append [simp]: "ht_out fs (ht_out es s) = ht_out (es @ fs) s"
  by (simp add: ht_out_def)

lemma ht_out_Nil [simp]: "ht_out [] s = s"
  by (simp add: ht_out_def)

fun wr_data_loop :: "u8 \<Rightarrow> u8 \<Rightarrow> nat \<Rightarrow> disp \<Rightarrow> disp" where
  "wr_data_loop Data Temp 0 s = s"
| "wr_data_loop Data Temp (Suc n) s =
    wr_data_loop Data (drop_bit 1 Temp) n
      (ht_out [HT_WR False, HT_DATA (Data AND Temp \<noteq> 0), HT_WR True] s)"

definition Ht1621Wr_Data :: "u8 \<Rightarrow> u8 \<Rightarrow> disp \<Rightarrow> disp" where
  "Ht1621Wr_Data Data cnt s = wr_data_loop Data 0x80 (unat cnt) s"

definition Ht1621WrOneData :: "u8 \<Rightarrow> u8 \<Rightarrow> disp \<Rightarrow> disp" where
  "Ht1621WrOneData Addr Data s =
    ht_out [HT_CS True] (Ht1621Wr_Data (push_bit 4 Data) 4 (Ht1621Wr_Data (push_bit 2 Addr) 6
      (Ht1621Wr_Data 0xa0 3 (ht_out [HT_CS False] s))))"

definition Ht1621WrCmd :: "u8 \<Rightarrow> disp \<Rightarrow> disp" where
  "Ht1621WrCmd Cmd s =
    ht_out [HT_CS True] (Ht1621Wr_Data Cmd 8 (Ht1621Wr_Data 0x80 4 (ht_out [HT_CS False] s)))"

definition Ht1621WrAllData :: "u8 \<Rightarrow> u8 list \<Rightarrow> disp \<Rightarrow> disp" where
  "Ht1621WrAllData Addr ps s =
    ht_out [HT_CS True] (fold (\<lambda>p. Ht1621Wr_Data p 8) ps
      (Ht1621Wr_Data (push_bit 2 Addr) 6 (Ht1621Wr_Data 0xa0 3 (ht_out [HT_CS False] s))))"

abbreviation (input) BIAS :: u8 where "BIAS \<equiv> 0x52"
abbreviation (input) RC256 :: u8 where "RC256 \<equiv> 0x30"
abbreviation (input) SYSDIS :: u8 where "SYSDIS \<equiv> 0x00"
abbreviation (input) WDTDIS :: u8 where "WDTDIS \<equiv> 0x0A"
abbreviation (input) SYSEN :: u8 where "SYSEN \<equiv> 0x02"
abbreviation (input) LCDON :: u8 where "LCDON \<equiv> 0x06"

definition HT1621_GPIO_Config :: "disp \<Rightarrow> disp" where
  "HT1621_GPIO_Config s = fold Ht1621WrCmd [BIAS, RC256, SYSDIS, WDTDIS, SYSEN, LCDON]
    (ht_out [HT_CS True, HT_WR True, HT_DATA True] s)"

definition Ht1621_cls :: "disp \<Rightarrow> disp" where
  "Ht1621_cls s = Ht1621WrAllData 0 (replicate 16 0) s"

definition HT1621_BL :: "bool \<Rightarrow> disp \<Rightarrow> disp" where
  "HT1621_BL a s = s\<lparr> backlight := a \<rparr>"

definition HT1621_LED :: "bool \<Rightarrow> disp \<Rightarrow> disp" where
  "HT1621_LED a s = s\<lparr> key_led := \<not> a \<rparr>"

section \<open>Icons\<close>

definition Ht1621_clrbuf :: "disp \<Rightarrow> disp" where
  "Ht1621_clrbuf s = s\<lparr> Ht1621Tab2 := replicate 19 0 @ drop 19 (Ht1621Tab2 s), Ht1621Tab3 := replicate 11 0 \<rparr>"

definition tab2_if :: "bool \<Rightarrow> nat \<Rightarrow> (u8 \<Rightarrow> u8) \<Rightarrow> u8 list \<Rightarrow> u8 list" where
  "tab2_if c i f t = (if c then t[i := f (t ! i)] else t)"

text \<open>The bytes of the panel that are the disjunction of several icons.\<close>

definition tab2_mix12 :: "u8 list \<Rightarrow> u8 list" where
  "tab2_mix12 t = t[12 := t ! 18 OR t ! 17]"

definition tab2_mix0 :: "u8 list \<Rightarrow> u8 list" where
  "tab2_mix0 t = t[0 := t ! 13 OR t ! 14 OR t ! 15 OR t ! 16]"

text \<open>
  The sequence of \<open>if (f == n)\<close> of both functions; \<open>g\<close> is what each does to its table entry with its
  bit. The mixing assignments behind the later ones are outside their \<open>if\<close>.
\<close>

definition icon_chain :: "(u8 \<Rightarrow> u8 \<Rightarrow> u8) \<Rightarrow> u8 \<Rightarrow> u8 list \<Rightarrow> u8 list" where
  "icon_chain g f t =
    tab2_mix0 (tab2_if (f = 19) 13 (g 0x01)
      (tab2_mix0 (tab2_if (f = 18) 14 (g 0x02)
      (tab2_mix0 (tab2_if (f = 17) 15 (g 0x04)
      (tab2_mix0 (tab2_if (f = 16) 16 (g 0x08)
      (tab2_mix12 (tab2_if (f = 15) 18 (g 0x02)
      (tab2_mix12 (tab2_if (f = 14) 18 (g 0x04)
      (tab2_mix12 (tab2_if (f = 13) 18 (g 0x08)
      (tab2_mix12 (tab2_if (f = 12) 17 (g 0x01)
      (tab2_if (1 \<le> f \<and> f \<le> 11) (unat f) (g 0x01) t))))))))))))))))"

definition Ht1621_on_disp :: "u8 \<Rightarrow> disp \<Rightarrow> disp" where
  "Ht1621_on_disp f s = s\<lparr> Ht1621Tab2 := icon_chain (\<lambda>m _. m) f (Ht1621Tab2 s) \<rparr>"

definition Ht1621_off_disp :: "u8 \<Rightarrow> disp \<Rightarrow> disp" where
  "Ht1621_off_disp f s = s\<lparr> Ht1621Tab2 := icon_chain (\<lambda>m v. v AND NOT m) f (Ht1621Tab2 s) \<rparr>"

definition pin0_Scan :: "disp \<Rightarrow> disp" where
  "pin0_Scan s = Ht1621_on_disp 19 (Ht1621_on_disp 18 s)"

definition pin1_Scan :: "disp \<Rightarrow> disp" where
  "pin1_Scan s = Ht1621_on_disp 4 s"

text \<open>\<open>count2 + count3\<close> is computed as an \<open>int\<close>.\<close>

definition pin6_Scan :: "disp \<Rightarrow> disp" where
  "pin6_Scan s =
    (if timing_state (d_device_work_data s) \<noteq> 0 \<or> unat (count2 s) + unat (count3 s) \<noteq> 0
     then Ht1621_on_disp 7 (Ht1621_on_disp 6 (Ht1621_on_disp 5 s))
     else Ht1621_off_disp 7 (Ht1621_off_disp 6 (Ht1621_off_disp 5 s)))"

definition Ht1621_BL :: "disp \<Rightarrow> disp" where
  "Ht1621_BL s =
    (if d_time s \<ge> 3000 then (HT1621_LED False (HT1621_BL False s))\<lparr> d_time := 3000 \<rparr>
     else HT1621_LED True (HT1621_BL True s))"

section \<open>Drawing\<close>

definition Ht1621Tab1 :: "u8 list" where
  "Ht1621Tab1 = [0xfa, 0x0a, 0xbc, 0x9e, 0x4e, 0xd6, 0xf6, 0x8a, 0xfe, 0xde]"

definition DIS_BUF :: "u8 list" where
  "DIS_BUF = [0, 1, 2, 3, 4, 5, 6, 7, 8, 9, 10, 11, 12, 13, 14, 15, 16, 17, 18, 19]"

text \<open>
  The four \<open>if\<close> of one round, on the address, the two moving pointers (as offsets) and the state. A
  digit above 9 reads outside the segment table.
\<close>

type_synonym draw = "u8 \<times> nat \<times> nat \<times> disp"

definition draw_first :: "u8 list \<Rightarrow> draw \<Rightarrow> draw option" where
  "draw_first Data = (\<lambda>(Addr, p, q, s).
    if Addr = 0 then do {
      d \<leftarrow> buf_get Data p;
      Temp \<leftarrow> buf_get (Ht1621Tab2 s) (unat d);
      Some (Addr + 1, p + 1, q, Ht1621WrOneData (Addr * 2) Temp s) }
    else Some (Addr, p, q, s))"

definition draw_digit :: "u8 list \<Rightarrow> u8 list \<Rightarrow> nat \<Rightarrow> nat \<Rightarrow> disp \<Rightarrow> u8 option" where
  "draw_digit Data string p q s = do {
     c \<leftarrow> buf_get string q;
     a \<leftarrow> buf_get Ht1621Tab1 (unat c);
     d \<leftarrow> buf_get Data p;
     t \<leftarrow> buf_get (Ht1621Tab2 s) (unat d);
     Some (a OR t) }"

definition draw_low :: "u8 list \<Rightarrow> u8 list \<Rightarrow> draw \<Rightarrow> draw option" where
  "draw_low Data string = (\<lambda>(Addr, p, q, s).
    if Addr \<noteq> 0 \<and> Addr \<le> 7 then do {
      Temp \<leftarrow> draw_digit Data string p q s;
      Some (Addr + 1, p + 1, q + 1,
        Ht1621WrOneData (Addr * 2 - 1) (drop_bit 4 Temp) (Ht1621WrOneData (Addr * 2) Temp s)) }
    else Some (Addr, p, q, s))"

definition draw_high :: "u8 list \<Rightarrow> u8 list \<Rightarrow> draw \<Rightarrow> draw option" where
  "draw_high Data string = (\<lambda>(Addr, p, q, s).
    if Addr > 7 \<and> Addr \<noteq> 12 then do {
      Temp \<leftarrow> draw_digit Data string p q s;
      Some (Addr + 1, p + 1, q + 1,
        Ht1621WrOneData (Addr * 2) (drop_bit 4 Temp) (Ht1621WrOneData (Addr * 2 - 1) Temp s)) }
    else Some (Addr, p, q, s))"

definition draw_last :: "u8 list \<Rightarrow> draw \<Rightarrow> draw option" where
  "draw_last Data = (\<lambda>(Addr, p, q, s).
    if Addr = 12 then do {
      d \<leftarrow> buf_get Data p;
      Temp \<leftarrow> buf_get (Ht1621Tab2 s) (unat d);
      Some (Addr, p, q, Ht1621WrOneData (Addr * 2 - 1) Temp s) }
    else Some (Addr, p, q, s))"

fun draw_loop :: "u8 list \<Rightarrow> u8 list \<Rightarrow> nat \<Rightarrow> draw \<Rightarrow> draw option" where
  "draw_loop Data string 0 x = Some x"
| "draw_loop Data string (Suc n) x = do {
     x1 \<leftarrow> draw_first Data x;
     x2 \<leftarrow> draw_low Data string x1;
     x3 \<leftarrow> draw_high Data string x2;
     x4 \<leftarrow> draw_last Data x3;
     draw_loop Data string n x4 }"

definition Ht1621DisplayState :: "u8 list \<Rightarrow> u8 list \<Rightarrow> u8 \<Rightarrow> u8 \<Rightarrow> disp \<Rightarrow> disp option" where
  "Ht1621DisplayState Data string Addr cnt s = do {
     (_, _, _, s1) \<leftarrow> draw_loop Data string (unat cnt) (Addr, 0, 0, s);
     Some s1 }"

definition Ht1621Display :: "disp \<Rightarrow> disp option" where
  "Ht1621Display s =
    (let s1 = pin6_Scan (Ht1621_on_disp 6 s) in Ht1621DisplayState DIS_BUF (Ht1621Tab3 s1) 0 12 s1)"

section \<open>What the LCD driver receives\<close>

text \<open>
  The driver samples the data pin when the write pin rises while it is selected, and takes the bits
  of one selection as a frame.
\<close>

record lcd =
  l_cs :: bool
  l_wr :: bool
  l_data :: bool
  l_bits :: "bool list"
  l_frames :: "bool list list"

fun lcd_pin :: "ht_pin \<Rightarrow> lcd \<Rightarrow> lcd" where
  "lcd_pin (HT_CS True) l = (if l_cs l then l else l\<lparr> l_cs := True, l_frames := l_frames l @ [l_bits l] \<rparr>)"
| "lcd_pin (HT_CS False) l = (if l_cs l then l\<lparr> l_cs := False, l_bits := [] \<rparr> else l)"
| "lcd_pin (HT_WR True) l =
    (if \<not> l_cs l \<and> \<not> l_wr l then l\<lparr> l_wr := True, l_bits := l_bits l @ [l_data l] \<rparr> else l\<lparr> l_wr := True \<rparr>)"
| "lcd_pin (HT_WR False) l = l\<lparr> l_wr := False \<rparr>"
| "lcd_pin (HT_DATA d) l = l\<lparr> l_data := d \<rparr>"

definition ht_frames :: "ht_pin list \<Rightarrow> bool list list" where
  "ht_frames es = l_frames (fold lcd_pin es \<lparr> l_cs = True, l_wr = True, l_data = True, l_bits = [], l_frames = [] \<rparr>)"

text \<open>A frame \<open>101\<close> writes nibbles from its six-bit address on.\<close>

fun msb_nat :: "bool list \<Rightarrow> nat" where
  "msb_nat [] = 0"
| "msb_nat (b # bs) = (if b then 2 ^ length bs else 0) + msb_nat bs"

fun lcd_chunks :: "nat \<Rightarrow> bool list \<Rightarrow> (nat \<Rightarrow> bool list) \<Rightarrow> nat \<Rightarrow> bool list" where
  "lcd_chunks a (b3 # b2 # b1 # b0 # bs) m = lcd_chunks (a + 1) bs (m(a := [b3, b2, b1, b0]))"
| "lcd_chunks a _ m = m"

definition lcd_write :: "bool list \<Rightarrow> (nat \<Rightarrow> bool list) \<Rightarrow> nat \<Rightarrow> bool list" where
  "lcd_write f m = (if take 3 f = [True, False, True] then lcd_chunks (msb_nat (take 6 (drop 3 f))) (drop 9 f) m else m)"

definition nibble :: "u8 \<Rightarrow> bool list" where
  "nibble b = [bit b 3, bit b 2, bit b 1, bit b 0]"

definition ht_bits :: "bool list \<Rightarrow> ht_pin list" where
  "ht_bits bs = concat (map (\<lambda>b. [HT_WR False, HT_DATA b, HT_WR True]) bs)"

definition ht_frame :: "bool list \<Rightarrow> ht_pin list" where
  "ht_frame bs = HT_CS False # ht_bits bs @ [HT_CS True]"

lemma ht_bits_append: "ht_bits (bs @ cs) = ht_bits bs @ ht_bits cs"
  by (simp add: ht_bits_def)

lemma and_push_bit_iff:
  fixes d :: u8 assumes "j < 8" shows "d AND push_bit j 1 \<noteq> 0 \<longleftrightarrow> bit d j"
proof -
  have "push_bit j (1 :: u8) \<noteq> 0" using assms by simp
  then show ?thesis by (simp add: and_push_bit_1 del: push_bit_of_1)
qed

lemma wr_data_loop_eq:
  "n \<le> Suc j \<Longrightarrow> wr_data_loop d (push_bit j 1) n s = ht_out (ht_bits (map (\<lambda>i. bit d (j - i)) [0..<n])) s" if "j < 8" for d :: u8
  using that
proof (induction n arbitrary: j s)
  case 0
  then show ?case by (simp add: ht_bits_def)
next
  case (Suc n)
  have b: "(d AND push_bit j 1 \<noteq> 0) = bit d j"
    using Suc.prems(2) by (rule and_push_bit_iff)
  show ?case
  proof (cases j)
    case 0
    with Suc.prems b show ?thesis by (simp add: ht_bits_def)
  next
    case (Suc i)
    have "drop_bit 1 (push_bit j (1 :: u8)) = push_bit i 1"
      using Suc Suc.prems(2) by (auto intro!: bit_word_eqI simp: bit_simps)
    moreover have "map (\<lambda>k. bit d (j - k)) [0..<Suc n] = bit d j # map (\<lambda>k. bit d (i - k)) [0..<n]"
      using Suc by (simp add: map_upt_Suc del: upt_Suc)
    ultimately show ?thesis
      using Suc.IH [of i] Suc Suc.prems b by (simp add: ht_bits_def del: upt_Suc push_bit_of_1)
  qed
qed

lemma Ht1621Wr_Data_eq:
  "Ht1621Wr_Data d 3 s = ht_out (ht_bits [bit d 7, bit d 6, bit d 5]) s"
  "Ht1621Wr_Data d 4 s = ht_out (ht_bits [bit d 7, bit d 6, bit d 5, bit d 4]) s"
  "Ht1621Wr_Data d 6 s = ht_out (ht_bits [bit d 7, bit d 6, bit d 5, bit d 4, bit d 3, bit d 2]) s"
  "Ht1621Wr_Data d 8 s = ht_out (ht_bits (nibble (drop_bit 4 d) @ nibble d)) s"
  using wr_data_loop_eq [of 7 3 d s] wr_data_loop_eq [of 7 4 d s] wr_data_loop_eq [of 7 6 d s]
    wr_data_loop_eq [of 7 8 d s]
  by (simp_all add: Ht1621Wr_Data_def upt_rec nibble_def bit_simps)

definition write_frame :: "u8 \<Rightarrow> bool list \<Rightarrow> bool list" where
  "write_frame a d = [True, False, True, bit a 5, bit a 4, bit a 3, bit a 2, bit a 1, bit a 0] @ d"

lemma Ht1621WrOneData_eq:
  "Ht1621WrOneData a d s = ht_out (ht_frame (write_frame a (nibble d))) s"
  by (simp add: Ht1621WrOneData_def Ht1621Wr_Data_eq ht_frame_def write_frame_def nibble_def
      bit_simps ht_bits_def)

lemma lcd_bits:
  "\<not> l_cs l \<Longrightarrow> \<not> l_cs (fold lcd_pin (ht_bits bs) l) \<and> l_bits (fold lcd_pin (ht_bits bs) l) = l_bits l @ bs \<and>
     l_frames (fold lcd_pin (ht_bits bs) l) = l_frames l"
  by (induction bs arbitrary: l) (simp_all add: ht_bits_def)

lemma lcd_frames:
  "l_cs l \<Longrightarrow> l_cs (fold lcd_pin (concat (map ht_frame fs)) l) \<and>
     l_frames (fold lcd_pin (concat (map ht_frame fs)) l) = l_frames l @ fs"
proof (induction fs arbitrary: l)
  case Nil
  then show ?case by simp
next
  case (Cons f fs)
  define l1 where "l1 = fold lcd_pin (ht_frame f) l"
  have "l_cs l1" "l_frames l1 = l_frames l @ [f]"
    using lcd_bits [of "l\<lparr> l_cs := False, l_bits := [] \<rparr>" f] Cons.prems by (simp_all add: l1_def ht_frame_def)
  with Cons.IH [of l1] show ?case by (simp add: l1_def)
qed

lemma ht_frames_frames: "ht_frames (concat (map ht_frame fs)) = fs"
  by (simp add: ht_frames_def lcd_frames)

lemma bits6: "[0..<6] = [0, 1, 2, 3, 4, 5]"
  by (simp add: upt_rec)

lemma lcd_write_frame: "lcd_write (write_frame a (nibble d)) m = m(unat (a AND 63) := nibble d)"
proof -
  have "msb_nat [bit a 5, bit a 4, bit a 3, bit a 2, bit a 1, bit a 0] = unat (a AND 63)"
  proof -
    have "a AND 63 = take_bit 6 a" by (simp add: take_bit_eq_mask mask_eq_exp_minus_1)
    then have "unat (a AND 63) = take_bit 6 (unat a)" by (simp add: unsigned_take_bit_eq)
    also have "\<dots> = horner_sum of_bool 2 (map (bit (unat a)) [0..<6])"
      by (simp add: horner_sum_bit_eq_take_bit)
    finally show ?thesis
      by (simp add: bits6 bit_unsigned_iff)
  qed
  then show ?thesis by (simp add: lcd_write_def write_frame_def nibble_def)
qed

text \<open>What stands on the panel: an icon bit in each of the first eleven digits, two more icon bytes.\<close>

definition seg :: "u8 list \<Rightarrow> u8 list \<Rightarrow> nat \<Rightarrow> u8" where
  "seg t2 t3 k = Ht1621Tab1 ! unat (t3 ! (k - 1)) OR t2 ! k"

definition panel_image :: "u8 list \<Rightarrow> u8 list \<Rightarrow> bool list list" where
  "panel_image t2 t3 = nibble (t2 ! 0) #
     concat (map (\<lambda>k. [nibble (drop_bit 4 (seg t2 t3 k)), nibble (seg t2 t3 k)]) [1, 2, 3, 4, 5, 6, 7]) @
     concat (map (\<lambda>k. [nibble (seg t2 t3 k), nibble (drop_bit 4 (seg t2 t3 k))]) [8, 9, 10, 11]) @ [nibble (t2 ! 12)]"

definition panel_writes :: "u8 list \<Rightarrow> u8 list \<Rightarrow> (u8 \<times> u8) list" where
  "panel_writes t2 t3 = (0, t2 ! 0) #
     concat (map (\<lambda>k. [(of_nat (2 * k), seg t2 t3 k), (of_nat (2 * k - 1), drop_bit 4 (seg t2 t3 k))]) [1, 2, 3, 4, 5, 6, 7]) @
     concat (map (\<lambda>k. [(of_nat (2 * k - 1), seg t2 t3 k), (of_nat (2 * k), drop_bit 4 (seg t2 t3 k))]) [8, 9, 10, 11]) @
     [(23, t2 ! 12), (23, t2 ! 12), (23, t2 ! 12)]"

definition out_writes :: "(u8 \<times> u8) list \<Rightarrow> disp \<Rightarrow> disp" where
  "out_writes ws s = ht_out (concat (map ht_frame (map (\<lambda>(a, d). write_frame a (nibble d)) ws))) s"

lemma WrOneData_out: "Ht1621WrOneData a d s = out_writes [(a, d)] s"
  by (simp add: out_writes_def Ht1621WrOneData_eq)

lemma out_writes_append [simp]: "out_writes vs (out_writes ws s) = out_writes (ws @ vs) s"
  by (simp add: out_writes_def)

lemma out_writes_Nil [simp]: "out_writes [] s = s"
  by (simp add: out_writes_def)

lemma out_writes_sel [simp]:
  "Ht1621Tab2 (out_writes ws s) = Ht1621Tab2 s" "Ht1621Tab3 (out_writes ws s) = Ht1621Tab3 s"
  by (simp_all add: out_writes_def ht_out_def)

definition tables_len :: "u8 list \<Rightarrow> u8 list \<Rightarrow> bool" where
  "tables_len t2 t3 \<longleftrightarrow> length t2 = 20 \<and> length t3 = 11"

lemma DIS_BUF_get: "k < 20 \<Longrightarrow> buf_get DIS_BUF k = Some (of_nat k)"
  by (simp add: buf_get_def DIS_BUF_def) (auto simp: less_Suc_eq numeral_eq_Suc)

lemma draw_digit_eq:
  assumes "tables_len (Ht1621Tab2 s) t3" "1 \<le> k" "k \<le> 11" "q = k - 1"
  shows "draw_digit DIS_BUF t3 k q s = (if t3 ! q \<le> 9 then Some (seg (Ht1621Tab2 s) t3 k) else None)"
proof -
  have "unat (t3 ! q) < length Ht1621Tab1 \<longleftrightarrow> t3 ! q \<le> 9"
    by (auto simp: Ht1621Tab1_def word_le_nat_alt)
  moreover have "unat (of_nat k :: u8) = k" using assms by (simp add: unat_of_nat)
  ultimately show ?thesis
    using assms by (cases "t3 ! q \<le> 9") (auto simp: draw_digit_def DIS_BUF_get tables_len_def seg_def not_less buf_get_None_iff [THEN iffD2])
qed

lemma draw_icon:
  assumes "tables_len (Ht1621Tab2 s) t3" "k < 20"
  shows "do { d \<leftarrow> buf_get DIS_BUF k; t \<leftarrow> buf_get (Ht1621Tab2 s) (unat d); f t } = f (Ht1621Tab2 s ! k)"
  using assms DIS_BUF_get [of k] by (simp add: unat_of_nat tables_len_def)

text \<open>The four statements of a round, where they apply and where not.\<close>

lemma draw_skips:
  "A \<noteq> 0 \<Longrightarrow> draw_first D (A, x) = Some (A, x)"
  "A > 7 \<Longrightarrow> draw_low D t (A, x) = Some (A, x)"
  "A \<le> 7 \<or> A = 12 \<Longrightarrow> draw_high D t (A, x) = Some (A, x)"
  "A \<noteq> 12 \<Longrightarrow> draw_last D (A, x) = Some (A, x)"
  by (auto simp: draw_first_def draw_low_def draw_high_def draw_last_def split: prod.split)

lemma draw_first_eq:
  "tables_len (Ht1621Tab2 s) t3 \<Longrightarrow>
     draw_first DIS_BUF (0, 0, 0, s) = Some (1, 1, 0, out_writes [(0, Ht1621Tab2 s ! 0)] s)"
  using draw_icon [of s t3 0] by (simp add: draw_first_def WrOneData_out)

lemma draw_last_eq:
  "tables_len (Ht1621Tab2 s) t3 \<Longrightarrow>
     draw_last DIS_BUF (of_nat 12, 12, q, s) = Some (of_nat 12, 12, q, out_writes [(23, Ht1621Tab2 s ! 12)] s)"
  using draw_icon [of s t3 12] by (simp add: draw_last_def WrOneData_out)

definition put_low :: "u8 list \<Rightarrow> u8 list \<Rightarrow> nat \<Rightarrow> (u8 \<times> u8) list" where
  "put_low t2 t3 k = [(of_nat (2 * k), seg t2 t3 k), (of_nat (2 * k - 1), drop_bit 4 (seg t2 t3 k))]"

definition put_high :: "u8 list \<Rightarrow> u8 list \<Rightarrow> nat \<Rightarrow> (u8 \<times> u8) list" where
  "put_high t2 t3 k = [(of_nat (2 * k - 1), seg t2 t3 k), (of_nat (2 * k), drop_bit 4 (seg t2 t3 k))]"

lemma draw_low_eq:
  assumes "tables_len (Ht1621Tab2 s) t3" "1 \<le> k" "k \<le> 7" "q = k - 1"
  shows "draw_low DIS_BUF t3 (of_nat k, k, q, s) =
    (if t3 ! q \<le> 9 then Some (of_nat (Suc k), Suc k, Suc q, out_writes (put_low (Ht1621Tab2 s) t3 k) s) else None)"
proof -
  have "unat (of_nat k :: u8) = k" using assms by (simp add: unat_of_nat)
  then have "(of_nat k :: u8) \<noteq> 0 \<and> (of_nat k :: u8) \<le> 7"
    using assms by (auto simp: word_le_nat_alt unat_eq_0)
  moreover have "(of_nat k :: u8) * 2 - 1 = of_nat (2 * k - 1)" using assms by (simp add: of_nat_diff)
  ultimately show ?thesis
    using assms draw_digit_eq [of s t3 k q]
    by (simp add: draw_low_def put_low_def WrOneData_out mult.commute add.commute)
qed

lemma draw_high_eq:
  assumes "tables_len (Ht1621Tab2 s) t3" "8 \<le> k" "k \<le> 11" "q = k - 1"
  shows "draw_high DIS_BUF t3 (of_nat k, k, q, s) =
    (if t3 ! q \<le> 9 then Some (of_nat (Suc k), Suc k, Suc q, out_writes (put_high (Ht1621Tab2 s) t3 k) s) else None)"
proof -
  have "unat (of_nat k :: u8) = k" using assms by (simp add: unat_of_nat)
  then have "(of_nat k :: u8) > 7 \<and> (of_nat k :: u8) \<noteq> 12"
    using assms by (auto simp: word_less_nat_alt)
  moreover have "(of_nat k :: u8) * 2 - 1 = of_nat (2 * k - 1)" using assms by (simp add: of_nat_diff)
  ultimately show ?thesis
    using assms draw_digit_eq [of s t3 k q]
    by (simp add: draw_high_def put_high_def WrOneData_out mult.commute add.commute)
qed

text \<open>The rounds: one symbol each, but for the first, the one at address 7, and the last ones.\<close>

lemma round_low:
  assumes "tables_len (Ht1621Tab2 s) t3" "2 \<le> k" "k \<le> 6" "q = k - 1"
  shows "draw_loop DIS_BUF t3 (Suc n) (of_nat k, k, q, s) =
    (if t3 ! q \<le> 9 then draw_loop DIS_BUF t3 n (of_nat (Suc k), Suc k, Suc q, out_writes (put_low (Ht1621Tab2 s) t3 k) s) else None)"
proof -
  have "unat (of_nat k :: u8) = k" "unat (of_nat (Suc k) :: u8) = Suc k" using assms(2,3) by (simp_all only: unat_of_nat) simp_all
  then have c: "(of_nat k :: u8) \<noteq> 0" "(of_nat (Suc k) :: u8) \<le> 7" "(of_nat (Suc k) :: u8) \<noteq> 12"
    using assms(2,3) by (auto simp: word_le_nat_alt simp del: of_nat_Suc)
  have l: "draw_low DIS_BUF t3 (of_nat k, k, q, s) =
    (if t3 ! q \<le> 9 then Some (of_nat (Suc k), Suc k, Suc q, out_writes (put_low (Ht1621Tab2 s) t3 k) s) else None)"
    using draw_low_eq [of s t3 k q] assms by simp
  show ?thesis
    using c unfolding draw_loop.simps
    by (cases "t3 ! q \<le> 9") (simp_all only: draw_skips l if_True if_False bind.bind_lunit bind_eq_None_conv bind.bind_lzero simp_thms)
qed

lemma round_high:
  assumes "tables_len (Ht1621Tab2 s) t3" "9 \<le> k" "k \<le> 10" "q = k - 1"
  shows "draw_loop DIS_BUF t3 (Suc n) (of_nat k, k, q, s) =
    (if t3 ! q \<le> 9 then draw_loop DIS_BUF t3 n (of_nat (Suc k), Suc k, Suc q, out_writes (put_high (Ht1621Tab2 s) t3 k) s) else None)"
proof -
  have "unat (of_nat k :: u8) = k" "unat (of_nat (Suc k) :: u8) = Suc k" using assms(2,3) by (simp_all only: unat_of_nat) simp_all
  then have c: "(of_nat k :: u8) \<noteq> 0" "(of_nat k :: u8) > 7" "(of_nat (Suc k) :: u8) \<noteq> 12"
    using assms(2,3) by (auto simp: word_less_nat_alt simp del: of_nat_Suc)
  have l: "draw_high DIS_BUF t3 (of_nat k, k, q, s) =
    (if t3 ! q \<le> 9 then Some (of_nat (Suc k), Suc k, Suc q, out_writes (put_high (Ht1621Tab2 s) t3 k) s) else None)"
    using draw_high_eq [of s t3 k q] assms by simp
  show ?thesis
    using c unfolding draw_loop.simps
    by (cases "t3 ! q \<le> 9") (simp_all only: draw_skips l if_True if_False bind.bind_lunit bind.bind_lzero simp_thms)
qed

lemma round_first:
  assumes "tables_len (Ht1621Tab2 s) t3"
  shows "draw_loop DIS_BUF t3 (Suc n) (0, 0, 0, s) =
    (if t3 ! 0 \<le> 9
     then draw_loop DIS_BUF t3 n (of_nat 2, 2, 1, out_writes ((0, Ht1621Tab2 s ! 0) # put_low (Ht1621Tab2 s) t3 1) s)
     else None)"
proof -
  have l: "draw_low DIS_BUF t3 (1, 1, 0, out_writes [(0, Ht1621Tab2 s ! 0)] s) =
    (if t3 ! 0 \<le> 9 then Some (of_nat 2, 2, 1, out_writes ((0, Ht1621Tab2 s ! 0) # put_low (Ht1621Tab2 s) t3 1) s) else None)"
    using draw_low_eq [of "out_writes [(0, Ht1621Tab2 s ! 0)] s" t3 1 0] assms by (simp add: numeral_2_eq_2 [symmetric])
  have c: "(of_nat 2 :: u8) \<le> 7" "(of_nat 2 :: u8) \<noteq> 12" by simp_all
  show ?thesis
    using c draw_first_eq [OF assms] unfolding draw_loop.simps
    by (cases "t3 ! 0 \<le> 9") (simp_all only: draw_skips l if_True if_False bind.bind_lunit bind.bind_lzero simp_thms)
qed

lemma round_mid:
  assumes "tables_len (Ht1621Tab2 s) t3"
  shows "draw_loop DIS_BUF t3 (Suc n) (of_nat 7, 7, 6, s) =
    (if t3 ! 6 \<le> 9 \<and> t3 ! 7 \<le> 9
     then draw_loop DIS_BUF t3 n (of_nat 9, 9, 8, out_writes (put_low (Ht1621Tab2 s) t3 7 @ put_high (Ht1621Tab2 s) t3 8) s)
     else None)"
proof -
  have sucs: "Suc 6 = 7" "Suc 7 = 8" "Suc 8 = 9" by simp_all
  define s1 where "s1 = out_writes (put_low (Ht1621Tab2 s) t3 7) s"
  have l: "draw_low DIS_BUF t3 (of_nat 7, 7, 6, s) = (if t3 ! 6 \<le> 9 then Some (of_nat 8, 8, 7, s1) else None)"
    unfolding s1_def by (rule draw_low_eq [of s t3 7 6, unfolded sucs]) (simp_all add: assms)
  have h: "draw_high DIS_BUF t3 (of_nat 8, 8, 7, s1) =
      (if t3 ! 7 \<le> 9 then Some (of_nat 9, 9, 8, out_writes (put_high (Ht1621Tab2 s1) t3 8) s1) else None)"
    by (rule draw_high_eq [of s1 t3 8 7, unfolded sucs]) (simp_all add: assms s1_def)
  have c: "(of_nat 7 :: u8) \<noteq> 0" "(of_nat 9 :: u8) \<noteq> 12" by simp_all
  have "draw_loop DIS_BUF t3 (Suc n) (of_nat 7, 7, 6, s) =
      (if t3 ! 6 \<le> 9 \<and> t3 ! 7 \<le> 9 then draw_loop DIS_BUF t3 n (of_nat 9, 9, 8, out_writes (put_high (Ht1621Tab2 s1) t3 8) s1)
       else None)"
    using c unfolding draw_loop.simps
    by (cases "t3 ! 6 \<le> 9"; cases "t3 ! 7 \<le> 9")
      (simp_all only: draw_skips l h if_True if_False bind.bind_lunit bind.bind_lzero simp_thms)
  then show ?thesis by (simp only: s1_def out_writes_sel out_writes_append)
qed

lemma round_end:
  assumes "tables_len (Ht1621Tab2 s) t3"
  shows "draw_loop DIS_BUF t3 (Suc n) (of_nat 11, 11, 10, s) =
    (if t3 ! 10 \<le> 9
     then draw_loop DIS_BUF t3 n (of_nat 12, 12, 11, out_writes (put_high (Ht1621Tab2 s) t3 11 @ [(23, Ht1621Tab2 s ! 12)]) s)
     else None)"
    "draw_loop DIS_BUF t3 (Suc n) (of_nat 12, 12, 11, s) =
     draw_loop DIS_BUF t3 n (of_nat 12, 12, 11, out_writes [(23, Ht1621Tab2 s ! 12)] s)"
proof -
  have sucs: "Suc 10 = 11" "Suc 11 = 12" by simp_all
  define s1 where "s1 = out_writes (put_high (Ht1621Tab2 s) t3 11) s"
  have h: "draw_high DIS_BUF t3 (of_nat 11, 11, 10, s) = (if t3 ! 10 \<le> 9 then Some (of_nat 12, 12, 11, s1) else None)"
    unfolding s1_def by (rule draw_high_eq [of s t3 11 10, unfolded sucs]) (simp_all add: assms)
  have l: "draw_last DIS_BUF (of_nat 12, 12, 11, s1) = Some (of_nat 12, 12, 11, out_writes [(23, Ht1621Tab2 s1 ! 12)] s1)"
    by (rule draw_last_eq [of s1 t3]) (simp add: assms s1_def)
  have c: "(of_nat 11 :: u8) \<noteq> 0" "(of_nat 11 :: u8) > 7" "(of_nat 12 :: u8) \<noteq> 0" "(of_nat 12 :: u8) > 7" "(of_nat 12 :: u8) = 12"
    by simp_all
  have "draw_loop DIS_BUF t3 (Suc n) (of_nat 11, 11, 10, s) =
      (if t3 ! 10 \<le> 9 then draw_loop DIS_BUF t3 n (of_nat 12, 12, 11, out_writes [(23, Ht1621Tab2 s1 ! 12)] s1) else None)"
    using c(1,2) unfolding draw_loop.simps
    by (cases "t3 ! 10 \<le> 9") (simp_all only: draw_skips h l if_True if_False bind.bind_lunit bind.bind_lzero simp_thms)
  then show "draw_loop DIS_BUF t3 (Suc n) (of_nat 11, 11, 10, s) =
    (if t3 ! 10 \<le> 9
     then draw_loop DIS_BUF t3 n (of_nat 12, 12, 11, out_writes (put_high (Ht1621Tab2 s) t3 11 @ [(23, Ht1621Tab2 s ! 12)]) s)
     else None)"
    by (simp only: s1_def out_writes_sel out_writes_append)
  show "draw_loop DIS_BUF t3 (Suc n) (of_nat 12, 12, 11, s) =
     draw_loop DIS_BUF t3 n (of_nat 12, 12, 11, out_writes [(23, Ht1621Tab2 s ! 12)] s)"
    unfolding draw_loop.simps
    by (simp only: draw_skips(1) [OF c(3)] draw_skips(2) [OF c(4)] draw_skips(3) [OF disjI2, OF c(5)]
        draw_last_eq [OF assms] bind.bind_lunit)
qed

lemma draw_rounds:
  assumes "tables_len (Ht1621Tab2 s) t3"
  shows "draw_loop DIS_BUF t3 12 (0, 0, 0, s) =
    (if \<forall>d \<in> set t3. d \<le> 9 then Some (12, 12, 11, out_writes (panel_writes (Ht1621Tab2 s) t3) s) else None)"
proof -
  have "length t3 = 11" using assms by (simp add: tables_len_def)
  then have set: "(\<forall>d \<in> set t3. d \<le> 9) \<longleftrightarrow> t3 ! 0 \<le> 9 \<and> t3 ! 1 \<le> 9 \<and> t3 ! 2 \<le> 9 \<and> t3 ! 3 \<le> 9 \<and> t3 ! 4 \<le> 9 \<and>
      t3 ! 5 \<le> 9 \<and> t3 ! 6 \<le> 9 \<and> t3 ! 7 \<le> 9 \<and> t3 ! 8 \<le> 9 \<and> t3 ! 9 \<le> 9 \<and> t3 ! 10 \<le> 9"
    by (auto simp: all_set_conv_all_nth eval_nat_numeral All_less_Suc)
  define f where "f = draw_loop DIS_BUF t3"
  define t2 where "t2 = Ht1621Tab2 s"
  have t: "tables_len (Ht1621Tab2 (out_writes ws s)) t3" for ws using assms by simp
  note low = round_low [OF t, folded f_def, unfolded out_writes_sel out_writes_append, folded t2_def]
  note high = round_high [OF t, folded f_def, unfolded out_writes_sel out_writes_append, folded t2_def]
  note first = round_first [OF assms, folded f_def t2_def]
  note mid = round_mid [OF t, folded f_def, unfolded out_writes_sel out_writes_append, folded t2_def]
  note ends = round_end [OF t, folded f_def, unfolded out_writes_sel out_writes_append, folded t2_def]
  have nums: "Suc 1 = 2" "Suc 2 = 3" "Suc 3 = 4" "Suc 4 = 5" "Suc 5 = 6" "Suc 6 = 7" "Suc 8 = 9" "Suc 9 = 10" "Suc 10 = 11"
    by simp_all
  note l2 = low [where k = 2 and q = 1, unfolded nums] and l3 = low [where k = 3 and q = 2, unfolded nums]
    and l4 = low [where k = 4 and q = 3, unfolded nums] and l5 = low [where k = 5 and q = 4, unfolded nums]
    and l6 = low [where k = 6 and q = 5, unfolded nums]
    and h9 = high [where k = 9 and q = 8, unfolded nums] and h10 = high [where k = 10 and q = 9, unfolded nums]
  have w: "panel_writes t2 t3 = (0, t2 ! 0) # put_low t2 t3 1 @ put_low t2 t3 2 @ put_low t2 t3 3 @ put_low t2 t3 4 @
      put_low t2 t3 5 @ put_low t2 t3 6 @ put_low t2 t3 7 @ put_high t2 t3 8 @ put_high t2 t3 9 @ put_high t2 t3 10 @
      put_high t2 t3 11 @ [(23, t2 ! 12), (23, t2 ! 12), (23, t2 ! 12)]"
    by (simp add: panel_writes_def put_low_def put_high_def)
  have "f (Suc (Suc (Suc (Suc (Suc (Suc (Suc (Suc (Suc (Suc (Suc (Suc 0)))))))))))) (0, 0, 0, s) =
      (if t3 ! 0 \<le> 9 \<and> t3 ! 1 \<le> 9 \<and> t3 ! 2 \<le> 9 \<and> t3 ! 3 \<le> 9 \<and> t3 ! 4 \<le> 9 \<and>
        t3 ! 5 \<le> 9 \<and> t3 ! 6 \<le> 9 \<and> t3 ! 7 \<le> 9 \<and> t3 ! 8 \<le> 9 \<and> t3 ! 9 \<le> 9 \<and> t3 ! 10 \<le> 9
       then f 0 (of_nat 12, 12, 11, out_writes (panel_writes t2 t3) s) else None)"
    by (simp add: first l2 l3 l4 l5 l6 mid h9 h10 ends w del: of_nat_numeral One_nat_def)
  then show ?thesis unfolding set by (simp add: f_def t2_def eval_nat_numeral)
qed

section \<open>Icons\<close>

lemma length_tab2 [simp]:
  "length (tab2_if c i f t) = length t" "length (tab2_mix12 t) = length t" "length (tab2_mix0 t) = length t"
  by (simp_all add: tab2_if_def tab2_mix12_def tab2_mix0_def)

lemma length_icon_chain [simp]: "length (icon_chain g f t) = length t"
  by (simp add: icon_chain_def)

definition panel_icons :: "disp \<Rightarrow> disp" where
  "panel_icons s = pin6_Scan (Ht1621_on_disp 6 s)"

lemma icon_ops_sel [simp]:
  "length (Ht1621Tab2 (Ht1621_on_disp f s)) = length (Ht1621Tab2 s)" "Ht1621Tab3 (Ht1621_on_disp f s) = Ht1621Tab3 s"
  "length (Ht1621Tab2 (Ht1621_off_disp f s)) = length (Ht1621Tab2 s)" "Ht1621Tab3 (Ht1621_off_disp f s) = Ht1621Tab3 s"
  "length (Ht1621Tab2 (panel_icons s)) = length (Ht1621Tab2 s)" "Ht1621Tab3 (panel_icons s) = Ht1621Tab3 s"
  by (simp_all add: Ht1621_on_disp_def Ht1621_off_disp_def panel_icons_def pin6_Scan_def)

lemma Ht1621Display_eq:
  assumes "length (Ht1621Tab2 s) = 20" "length (Ht1621Tab3 s) = 11"
  shows "Ht1621Display s =
    (if \<forall>d \<in> set (Ht1621Tab3 s). d \<le> 9
     then Some (out_writes (panel_writes (Ht1621Tab2 (panel_icons s)) (Ht1621Tab3 s)) (panel_icons s)) else None)"
  using draw_rounds [of "panel_icons s" "Ht1621Tab3 s"] assms
  by (simp add: Ht1621Display_def Ht1621DisplayState_def panel_icons_def [symmetric] tables_len_def Let_def)

lemma panel_writes_image:
  "map (fold (\<lambda>(a, d). lcd_write (write_frame a (nibble d))) (panel_writes t2 t3) m) [0..<24] = panel_image t2 t3"
  by (simp add: panel_writes_def panel_image_def lcd_write_frame upt_rec)

lemma panel_icons_bus [simp]: "ht_bus (panel_icons s) = ht_bus s"
  by (simp add: panel_icons_def pin6_Scan_def Ht1621_on_disp_def Ht1621_off_disp_def)

lemma out_writes_bus:
  "ht_bus (out_writes ws s) = ht_bus s @ concat (map ht_frame (map (\<lambda>(a, d). write_frame a (nibble d)) ws))"
  by (simp add: out_writes_def ht_out_def)

lemma fold_lcd_write:
  "fold lcd_write (map (\<lambda>(a, d). write_frame a (nibble d)) ws) m = fold (\<lambda>(a, d). lcd_write (write_frame a (nibble d))) ws m"
  by (induction ws arbitrary: m) auto

lemma panel_drawn:
  "map (fold lcd_write (ht_frames (concat (map ht_frame (map (\<lambda>(a, d). write_frame a (nibble d)) (panel_writes t2 t3))))) m)
     [0..<24] = panel_image t2 t3"
  by (simp only: ht_frames_frames fold_lcd_write panel_writes_image)

end
