(* ===== verification/Disp_Keys.thy ===== *)
theory Disp_Keys
  imports Disp_Panel
begin

text \<open>
  The keys of the display board and the display of the working data, \<open>User/Led/bsp_led.c\<close>. A key
  that is pressed pulls its pin low. A key only notes a wish in a key state; the board asks the
  control board to carry it out when it is polled.
\<close>

abbreviation (input) upd_work :: "(para_type \<Rightarrow> para_type) \<Rightarrow> disp \<Rightarrow> disp" where
  "upd_work f s \<equiv> s\<lparr> d_device_work_data := f (d_device_work_data s) \<rparr>"

abbreviation (input) is_on :: "disp \<Rightarrow> bool" where
  "is_on s \<equiv> device_power_state (d_device_work_data s) = 1"

section \<open>The two debounced keys\<close>

text \<open>\<open>reset_wifi\<close> of \<open>main.c\<close>.\<close>

definition reset_wifi :: "disp \<Rightarrow> disp" where
  "reset_wifi s = s\<lparr> device_work_changing_data := fault_set_bit FAULT_RESET_WIFI_BIT 1 (device_work_changing_data s) \<rparr>"

text \<open>
  Both functions are the same state machine over one sample of their pin (\<open>up\<close>), with the state
  \<open>KeyState\<close> in common, a short and a long press handler, and their own static counters.
\<close>

fun key_step ::
  "(disp \<Rightarrow> disp) \<Rightarrow> (disp \<Rightarrow> disp) \<Rightarrow> bool \<Rightarrow> key_fsm \<times> disp \<Rightarrow> key_fsm \<times> disp" where
  "key_step short long up (k, s) =
    (if KeyStep k = 0 then
      (if \<not> up then (k\<lparr> KeyStep := if KeyDoubleTimes k > 0 then 4 else 2 \<rparr>, s\<lparr> KeyState := KeyDown \<rparr>)
       else if KeyDoubleTimes k > 0 then
         (let k1 = k\<lparr> KeyDoubleTimes := KeyDoubleTimes k - 1 \<rparr>
          in if KeyDoubleTimes k1 = 0 \<and> KeyState s = KeyShort
             then (k1, (short (s\<lparr> d_time := 0 \<rparr>))\<lparr> KeyState := KeyUp \<rparr>) else (k1, s))
       else (k, s))
    else if KeyStep k = 1 then
      (if \<not> up then
         (let k1 = k\<lparr> KeyDownTimes := KeyDownTimes k + 1 \<rparr>
          in if KeyDownTimes k1 < 400 then (k1, s\<lparr> KeyState := KeyShort \<rparr>)
             else if KeyState s \<noteq> KeyLong then (k1, long (s\<lparr> KeyState := KeyLong, d_time := 0 \<rparr>))
             else (k1\<lparr> KeyDownTimes := 400 \<rparr>, s))
       else (k\<lparr> KeyStep := 2 \<rparr>, s))
    else if KeyStep k = 2 then (k\<lparr> KeyStep := if up then 3 else 1 \<rparr>, s)
    else if KeyStep k = 3 then
      (if up then (k\<lparr> KeyDoubleTimes := (if KeyDownTimes k < 400 then 10 else KeyDoubleTimes k),
                      KeyDownTimes := 0, KeyStep := 0 \<rparr>, s)
       else (k\<lparr> KeyStep := 2 \<rparr>, s))
    else if KeyStep k = 4 then (if up then (k\<lparr> KeyStep := 0 \<rparr>, s\<lparr> KeyState := KeyUp \<rparr>) else (k, s))
    else (k\<lparr> KeyStep := 0 \<rparr>, s))"

definition power_short :: "disp \<Rightarrow> disp" where
  "power_short s = s\<lparr> power_key_state := (if device_power_state (d_device_work_data s) = 0 then 0x01 else 0x00) \<rparr>"

definition power_long :: "disp \<Rightarrow> disp" where
  "power_long s = (if is_on s then reset_wifi s else s)"

definition power_Key :: "bool \<Rightarrow> disp \<Rightarrow> disp" where
  "power_Key up s = (let (k, s1) = key_step power_short power_long up (power_fsm s, s) in s1\<lparr> power_fsm := k \<rparr>)"

definition mode_short :: "disp \<Rightarrow> disp" where
  "mode_short s =
    (if key4 s = 0 then s\<lparr> key4 := 1 \<rparr>
     else if device_mode (d_device_work_data s) = 1 then s\<lparr> mode_key_state := 0x02 \<rparr>
     else if device_mode (d_device_work_data s) = 2 then s\<lparr> mode_key_state := 0x01 \<rparr>
     else s)"

text \<open>A long press starts the setting of the timer (\<open>key4\<close> is 0).\<close>

definition mode_long :: "disp \<Rightarrow> disp" where
  "mode_long s = Ht1621_on_disp 1 (Ht1621_off_disp 3 (Ht1621_off_disp 2 (s\<lparr> key4 := 0 \<rparr>)))"

definition MainSwitch_Key :: "bool \<Rightarrow> disp \<Rightarrow> disp" where
  "MainSwitch_Key up s =
    (if is_on s
     then let (k, s1) = key_step mode_short mode_long up (main_fsm s, s) in s1\<lparr> main_fsm := k \<rparr>
     else s)"

section \<open>The three plain keys\<close>

text \<open>
  These keys are handled while they are held: a first sample, a second one 10 ms later, and then
  the function waits in a loop until the key is released. A key is the list of the levels its pin
  will be read with, in order; no level left means that the loop is still waiting (\<open>None\<close>).
\<close>

fun wait_release :: "bool list \<Rightarrow> unit option" where
  "wait_release [] = None"
| "wait_release (up # ups) = (if up then Some () else wait_release ups)"

definition plain_key :: "(disp \<Rightarrow> disp) \<Rightarrow> bool list \<Rightarrow> disp \<Rightarrow> disp option" where
  "plain_key handle ups s = do {
     first \<leftarrow> buf_get ups 0;
     if \<not> first \<and> is_on s then do {
       second \<leftarrow> buf_get ups 1;
       wait_release (drop 2 ups);
       let s1 = (if \<not> second then handle s else s);
       Some (s1\<lparr> d_time := 0 \<rparr>) }
     else Some s }"

definition show_count :: "disp \<Rightarrow> disp" where
  "show_count s = s\<lparr> Ht1621Tab3 := (Ht1621Tab3 s)[5 := count3 s, 6 := count2 s] \<rparr>"

definition esd_key :: "disp \<Rightarrow> disp" where
  "esd_key s =
    (if key4 s = 0 then
       (let s1 = s\<lparr> count2 := count2 s + 1 \<rparr>;
            s2 = (if count2 s1 = 10 then s1\<lparr> count2 := 0, count3 := 1 \<rparr> else s1);
            s3 = (if count3 s2 = 1 \<and> count2 s2 \<ge> 3 then s2\<lparr> count2 := 2, count3 := 1 \<rparr> else s2)
        in show_count s3)
     else if device_mode (d_device_work_data s) = 2
     then s\<lparr> ESD_key_state := (if high_pressur_state (d_device_work_data s) = 0 then 0x01 else 0x00) \<rparr>
     else s)"

definition pht_key :: "disp \<Rightarrow> disp" where
  "pht_key s =
    (if key4 s = 0 then
       (let s1 = (if count3 s = 1 \<and> count2 s = 0 then s\<lparr> count3 := 0, count2 := 10 \<rparr> else s);
            s2 = (if count2 s1 \<noteq> 0 then s1\<lparr> count2 := count2 s1 - 1 \<rparr> else s1\<lparr> count2 := 0 \<rparr>)
        in show_count s2)
     else if device_mode (d_device_work_data s) = 2
     then s\<lparr> PHT_key_state := (if pht_work_state (d_device_work_data s) = 0 then 0x01 else 0x00) \<rparr>
     else s)"

definition speed_key :: "disp \<Rightarrow> disp" where
  "speed_key s =
    (if key4 s \<noteq> 0 then
       (let w = wind_speed_state (d_device_work_data s)
        in s\<lparr> workspeed_key_state := (if w = 0 then 0x01 else if w = 1 then 0x02 else if w = 2 then 0x03
                else if w = 3 then 0x01 else 0x00) \<rparr>)
     else s)"

text \<open>The levels of the five pins in one scan: PA9, PC7, and the readings of PC9, PC8 and PA8.\<close>

record pins =
  pin_a9 :: bool
  pin_c7 :: bool
  pins_c9 :: "bool list"
  pins_c8 :: "bool list"
  pins_a8 :: "bool list"

definition Key_Scan :: "pins \<Rightarrow> disp \<Rightarrow> disp option" where
  "Key_Scan p s = do {
     s1 \<leftarrow> plain_key esd_key (pins_c9 p) (MainSwitch_Key (pin_c7 p) (power_Key (pin_a9 p) s));
     s2 \<leftarrow> plain_key pht_key (pins_c8 p) s1;
     plain_key speed_key (pins_a8 p) s2 }"

section \<open>Showing the working data\<close>

definition onoff_Scan :: "disp \<Rightarrow> disp option" where
  "onoff_Scan s =
    (if is_on s then do {
       s1 \<leftarrow> Ht1621Display s;
       Some (s1\<lparr> device_work_changing_data := (device_work_changing_data s1)\<lparr> device_power_state := 1 \<rparr> \<rparr>) }
     else
       (let s1 = Ht1621_cls s
        in Some (s1\<lparr> device_work_changing_data := (device_work_changing_data s1)\<lparr> device_power_state := 0 \<rparr> \<rparr>)))"

definition onoff_device_set :: "u8 \<Rightarrow> disp \<Rightarrow> disp option" where
  "onoff_device_set mode s =
    (if mode = 1 then do {
       s1 \<leftarrow> Ht1621Display (Ht1621_BL (pin1_Scan (pin0_Scan (s\<lparr> d_time := 0 \<rparr>))));
       Some (upd_work (device_power_state_update (\<lambda>_. 1)) s1) }
     else
       (let s1 = Ht1621_cls (HT1621_LED False (HT1621_BL False s));
            s2 = upd_work (\<lambda>p. p\<lparr> wind_speed_state := 0, high_pressur_state := 0, pht_work_state := 0 \<rparr>) s1;
            s3 = upd_work (timing_state_update (\<lambda>_. count3 s2 * 10 + count2 s2)) (show_count s2)
        in Some (upd_work (device_power_state_update (\<lambda>_. 0)) (s3\<lparr> count3 := 0, count2 := 0 \<rparr>))))"

definition show_mode :: "u8 \<Rightarrow> disp \<Rightarrow> disp" where
  "show_mode tmp s =
    (if tmp = 1 \<and> key4 s \<noteq> 0
     then upd_work (device_mode_update (\<lambda>_. 1)) (Ht1621_off_disp 1 (Ht1621_on_disp 3 (Ht1621_off_disp 2 s)))
     else if tmp = 2 \<and> key4 s \<noteq> 0
     then upd_work (device_mode_update (\<lambda>_. 2)) (Ht1621_on_disp 2 (Ht1621_off_disp 1 (Ht1621_off_disp 3 s)))
     else s)"

definition show_wind :: "u8 \<Rightarrow> disp \<Rightarrow> disp" where
  "show_wind tmp1 s =
    (if tmp1 = 0
     then upd_work (wind_speed_state_update (\<lambda>_. 0)) (Ht1621_off_disp 15 (Ht1621_off_disp 14 (Ht1621_off_disp 13 s)))
     else if tmp1 = 1 then upd_work (wind_speed_state_update (\<lambda>_. 1)) (Ht1621_on_disp 13 s)
     else if tmp1 = 2 then upd_work (wind_speed_state_update (\<lambda>_. 2)) (Ht1621_on_disp 14 s)
     else if tmp1 = 3 then upd_work (wind_speed_state_update (\<lambda>_. 3)) (Ht1621_on_disp 15 s)
     else s)"

definition show_esd :: "u8 \<Rightarrow> disp \<Rightarrow> disp" where
  "show_esd tmp2 s =
    (if tmp2 = 0 then upd_work (high_pressur_state_update (\<lambda>_. 0)) (Ht1621_off_disp 16 s)
     else if tmp2 = 1 then upd_work (high_pressur_state_update (\<lambda>_. 1)) (Ht1621_on_disp 16 s)
     else s)"

definition show_pht :: "u8 \<Rightarrow> disp \<Rightarrow> disp" where
  "show_pht tmp3 s =
    (if tmp3 = 0 then upd_work (pht_work_state_update (\<lambda>_. 0)) (Ht1621_off_disp 17 s)
     else if tmp3 = 1 then upd_work (pht_work_state_update (\<lambda>_. 1)) (Ht1621_on_disp 17 s)
     else s)"

text \<open>
  The thirteen cases of the switch differ in the two digits only. The digits shown are the ones of
  the call before.
\<close>

definition show_timing :: "u8 \<Rightarrow> disp \<Rightarrow> disp" where
  "show_timing tmp4 s =
    (if key4 s \<noteq> 0 \<and> tmp4 \<le> 12
     then (show_count (upd_work (timing_state_update (\<lambda>_. tmp4)) s))\<lparr> count3 := tmp4 div 10, count2 := tmp4 mod 10 \<rparr>
     else s)"

definition device_work_mode_check :: "disp \<Rightarrow> disp option" where
  "device_work_mode_check s = do {
     let p = d_device_work_data s;
     s1 \<leftarrow> (if device_power_state p = 0 then onoff_device_set 0 s
           else if device_power_state p = 1 then onoff_device_set 1 s else Some s);
     Some (show_timing (timing_state p) (show_pht (pht_work_state p) (show_esd (high_pressur_state p)
       (show_wind (wind_speed_state p) (show_mode (device_mode p) s1))))) }"

section \<open>Presses\<close>

text \<open>The counters of a key: step, samples held, samples until a second press is another press.\<close>

abbreviation (input) fsm :: "u8 \<Rightarrow> u16 \<Rightarrow> u16 \<Rightarrow> key_fsm" where
  "fsm x d b \<equiv> \<lparr> KeyStep = x, KeyDownTimes = d, KeyDoubleTimes = b \<rparr>"

definition held :: "(disp \<Rightarrow> disp) \<Rightarrow> nat \<Rightarrow> disp \<Rightarrow> key_fsm \<times> disp" where
  "held lo m s =
    (if m < 400 then (fsm 1 (of_nat m) 0, s\<lparr> KeyState := (if m = 0 then KeyDown else KeyShort) \<rparr>)
     else (fsm 1 400 0, lo (s\<lparr> KeyState := KeyLong, d_time := 0 \<rparr>)))"

lemma key_held:
  assumes lo: "\<And>s. KeyState (lo s) = KeyState s"
  shows "(key_step sh lo False ^^ (m + 2)) (fsm 0 0 0, s) = held lo m s"
proof (induction m)
  case 0
  then show ?case by (simp add: held_def numeral_2_eq_2)
next
  case (Suc m)
  have step: "(key_step sh lo False ^^ (Suc m + 2)) (fsm 0 0 0, s) = key_step sh lo False (held lo m s)"
    using Suc by simp
  consider "m < 399" | "m = 399" | "400 \<le> m" by linarith
  then show ?case
  proof cases
    case 1
    then have "unat (1 + of_nat m :: u16) = Suc m"
      using unat_small_u16 [of "Suc m"] by simp
    then have "(1 + of_nat m :: u16) < 400" using 1 by (simp add: word_less_nat_alt)
    with 1 step show ?thesis by (simp add: held_def add.commute)
  next
    case 2
    with step show ?thesis by (simp add: held_def)
  next
    case 3
    with step lo show ?thesis by (simp add: held_def)
  qed
qed

lemma key_counts_down:
  assumes "1 \<le> k"
  shows "k + n < 100 \<Longrightarrow> (key_step sh lo True ^^ n) (fsm 0 0 (of_nat (k + n)), s) = (fsm 0 0 (of_nat k), s)"
proof (induction n)
  case 0
  then show ?case by simp
next
  case (Suc n)
  have "unat (of_nat (k + n) :: u16) = k + n" "unat (of_nat (k + Suc n) :: u16) = k + Suc n"
    using Suc.prems by (auto intro!: unat_small_u16 simp del: of_nat_add of_nat_Suc)
  then have "(of_nat (k + n) :: u16) \<noteq> 0" "(of_nat (k + Suc n) :: u16) \<noteq> 0"
    using assms by (auto simp del: of_nat_add of_nat_Suc)
  then have "key_step sh lo True (fsm 0 0 (of_nat (k + Suc n)), s) = (fsm 0 0 (of_nat (k + n)), s)"
    by (simp add: word_gt_0 add.commute)
  then show ?case using Suc by (simp only: funpow_Suc_right comp_apply)
qed

lemma key_released:
  "(key_step sh lo True ^^ 13) (fsm 1 d 0, s) =
     (fsm 0 0 0, if d < 400 \<and> KeyState s = KeyShort then (sh (s\<lparr> d_time := 0 \<rparr>))\<lparr> KeyState := KeyUp \<rparr> else s)"
proof -
  have up3: "(key_step sh lo True ^^ 3) (fsm 1 d 0, s) = (fsm 0 0 (if d < 400 then 10 else 0), s)"
    by (simp add: numeral_3_eq_3)
  have rest: "(key_step sh lo True ^^ n) (fsm 0 0 0, s) = (fsm 0 0 0, s)" for n s
    by (induction n) simp_all
  have down: "(key_step sh lo True ^^ Suc 9) (fsm 0 0 10, s) =
      (fsm 0 0 0, if KeyState s = KeyShort then (sh (s\<lparr> d_time := 0 \<rparr>))\<lparr> KeyState := KeyUp \<rparr> else s)"
    using key_counts_down [of 1 9 sh lo s] by (simp only: funpow.simps comp_apply) simp
  have "(key_step sh lo True ^^ (Suc 9 + 3)) (fsm 1 d 0, s) =
      (key_step sh lo True ^^ Suc 9) (fsm 0 0 (if d < 400 then 10 else 0), s)"
    by (simp only: funpow_add comp_apply up3)
  moreover have "Suc 9 + 3 = (13 :: nat)" by simp
  ultimately have "(key_step sh lo True ^^ 13) (fsm 1 d 0, s) =
      (key_step sh lo True ^^ Suc 9) (fsm 0 0 (if d < 400 then 10 else 0), s)"
    by (simp only:)
  then show ?thesis using down rest [of "Suc 9" s] by (cases "d < 400") (simp_all only: if_True if_False simp_thms)
qed

lemma fold_replicate_funpow: "fold f (replicate n x) = f x ^^ n"
  by (induction n) (simp_all add: funpow_swap1 fun_eq_iff)

text \<open>A whole press, from the first sample down to thirteen samples up, by its length.\<close>

definition pressed :: "(disp \<Rightarrow> disp) \<Rightarrow> (disp \<Rightarrow> disp) \<Rightarrow> nat \<Rightarrow> disp \<Rightarrow> disp" where
  "pressed sh lo n s =
    (if n \<le> 2 then s\<lparr> KeyState := KeyDown \<rparr>
     else if n < 402 then (sh (s\<lparr> KeyState := KeyShort, d_time := 0 \<rparr>))\<lparr> KeyState := KeyUp \<rparr>
     else lo (s\<lparr> KeyState := KeyLong, d_time := 0 \<rparr>))"

lemma key_pressed:
  assumes lo: "\<And>s. KeyState (lo s) = KeyState s" and n: "2 \<le> n"
  shows "fold (key_step sh lo) (replicate n False @ replicate 13 True) (fsm 0 0 0, s) = (fsm 0 0 0, pressed sh lo n s)"
proof -
  obtain m where m: "n = m + 2" using n by (metis le_add_diff_inverse2)
  have "unat (of_nat m :: u16) = m" if "m < 400" using that by (intro unat_small_u16) simp
  then have lt: "of_nat m < (400 :: u16)" if "m < 400" using that by (simp add: word_less_nat_alt)
  have "fold (key_step sh lo) (replicate n False @ replicate 13 True) (fsm 0 0 0, s) =
      (key_step sh lo True ^^ 13) (held lo m s)"
    by (simp only: fold_append comp_apply fold_replicate_funpow m key_held [OF lo])
  then show ?thesis
    using lt lo by (cases "m < 400"; cases "m = 0") (simp_all add: held_def key_released pressed_def m)
qed

end
