(* ===== verification/Disp_Link.thy ===== *)
theory Disp_Link
  imports Disp_Keys
begin

text \<open>
  The serial link and the main loop of the display board, \<open>User/main.c\<close> with the timer interrupt of
  \<open>User/stm32f10x_it.c\<close>. The board answers a seven-byte \<open>0xF1\<close> frame of the control board with its own
  wish, if a key has one, and takes its working data from 33-byte \<open>0xF2\<close> frames. It looks at no
  checksum.
\<close>

section \<open>Transmission\<close>

definition txd1_buffer_send :: "disp \<Rightarrow> disp" where
  "txd1_buffer_send s = s\<lparr> txd1_buff_cFlag := 0, rxd1_buff_cFlag := 0, rs485_tx := True, tx_irq := True \<rparr>"

fun pack_bytes :: "u8 list \<Rightarrow> nat \<Rightarrow> nat \<Rightarrow> u8 list \<Rightarrow> u8 \<Rightarrow> (u8 list \<times> u8) option" where
  "pack_bytes buf i 0 out chk = Some (out, chk)"
| "pack_bytes buf i (Suc n) out chk = do {
     v \<leftarrow> buf_get buf i;
     out' \<leftarrow> buf_set out (i + 2) v;
     pack_bytes buf (Suc i) n out' (chk + v) }"

definition com_send_packet_data_f1 :: "u8 list \<Rightarrow> u8 \<Rightarrow> disp \<Rightarrow> disp option" where
  "com_send_packet_data_f1 buf len s = do {
     out1 \<leftarrow> buf_puts (d_send_packet_buf s) 0 [0xF1, 0xF1];
     (out2, chk) \<leftarrow> pack_bytes buf 0 (unat len) out1 0;
     out3 \<leftarrow> buf_puts out2 (unat len + 2) [chk, 0x7E];
     Some (txd1_buffer_send (s\<lparr> d_send_packet_buf := out3, cmd_send_lenth := len + 4 \<rparr>)) }"

text \<open>
  The packing of \<open>0xF2\<close> frames, which starts from an uninitialised checksum; nothing on the board
  calls it.
\<close>

definition d_wifi_send_packet_data :: "u8 \<Rightarrow> u8 list \<Rightarrow> u8 \<Rightarrow> disp \<Rightarrow> disp option" where
  "d_wifi_send_packet_data junk buf len s = do {
     out1 \<leftarrow> buf_puts (d_send_packet_buf s) 0 [0xF2, 0xF2];
     (out2, chk) \<leftarrow> pack_bytes buf 0 (unat len) out1 junk;
     out3 \<leftarrow> buf_puts out2 (unat len + 2) [chk, 0x7E];
     Some (txd1_buffer_send (s\<lparr> d_send_packet_buf := out3, cmd_send_lenth := len + 4 \<rparr>)) }"

definition d_return_current_device_state :: "u8 \<Rightarrow> u8 list \<Rightarrow> disp \<Rightarrow> disp option" where
  "d_return_current_device_state junk stack35 s = do {
     buftmp \<leftarrow> buf_puts stack35 0 ([0x01, 0x1b] @ take 27 (device_data (device_work_changing_data s)));
     s1 \<leftarrow> d_wifi_send_packet_data junk buftmp 29 s;
     Some (s1\<lparr> device_work_changing_data := fault_set_bit FAULT_RESET_WIFI_BIT 0 (device_work_changing_data s1) \<rparr>) }"

definition return_device_power_state_change :: "u8 \<Rightarrow> u8 \<Rightarrow> disp \<Rightarrow> disp option" where
  "return_device_power_state_change Function mode s = com_send_packet_data_f1 [Function, 0x01, mode] 3 s"

text \<open>
  The transmit interrupt. Its comparison sends the bytes 0 to \<open>cmd_send_lenth\<close>, and the branch
  that ends the transmission sends one more.
\<close>

definition serial_int1_send :: "disp \<Rightarrow> disp option" where
  "serial_int1_send s = do {
     b \<leftarrow> buf_get (d_send_packet_buf s) (unat (counter_send s));
     let s1 = s\<lparr> d_line_out := d_line_out s @ [b] \<rparr>;
     let s2 = (if counter_send s1 \<le> cmd_send_lenth s1 then s1\<lparr> counter_send := counter_send s1 + 1 \<rparr>
       else s1\<lparr> counter_send := 0, txd1_buff_cFlag := 1, tx_irq := False, time_tick_cnt2 := 0, rs485_tx := False \<rparr>);
     Some (if counter_send s2 > 40 then s2\<lparr> counter_send := 0 \<rparr> else s2) }"

section \<open>Reception\<close>

definition serial_int1_receive :: "u8 \<Rightarrow> disp \<Rightarrow> disp option" where
  "serial_int1_receive udr1 s =
    (if Isr_j s = 0 then
       (if 0xF1 \<noteq> udr1 \<and> 0xF2 \<noteq> udr1 then Some (s\<lparr> Isr_com := 0, Isr_j := 0 \<rparr>)
        else do {
          buf \<leftarrow> buf_set (rxd1_buffer s) 0 udr1;
          Some (s\<lparr> rec_data_num := (if 0xF1 = udr1 then 7 else 33), rxd1_buffer := buf,
                  Isr_com := 1, Isr_j := 1 \<rparr>) })
     else do {
       start \<leftarrow> buf_get (rxd1_buffer s) 0;
       if Isr_com s = 1 \<and> ((udr1 \<noteq> 0xF1 \<and> start = 0xF1) \<or> (udr1 \<noteq> 0xF2 \<and> start = 0xF2))
       then Some (s\<lparr> Isr_com := 0, Isr_j := 0 \<rparr>)
       else do {
         buf \<leftarrow> buf_set (rxd1_buffer s) (unat (Isr_com s)) udr1;
         let s1 = s\<lparr> rxd1_buffer := buf, Isr_com := Isr_com s + 1 \<rparr>;
         if Isr_com s1 \<ge> rec_data_num s1 then do {
           vs \<leftarrow> buf_gets (rxd1_buffer s1) 0 (unat (rec_data_num s1));
           cmd \<leftarrow> buf_puts (in_com_buff s1) 0 vs;
           Some (s1\<lparr> Isr_com := 0, Isr_j := 0, rxd1_buff_cFlag := 1, time_tick_cnt2 := 0, in_com_buff := cmd \<rparr>) }
         else Some s1 } })"

text \<open>The timer interrupt, every millisecond.\<close>

definition tim_irq :: "disp \<Rightarrow> disp" where
  "tim_irq s =
    (let s1 = s\<lparr> d_time := d_time s + 1 \<rparr>;
         s2 = (if time_tick_cnt s1 < 0xFFFFFFFF then s1\<lparr> time_tick_cnt := time_tick_cnt s1 + 1 \<rparr> else s1);
         s3 = (if time_tick_cnt2 s2 < 0xFFFFFFFF then s2\<lparr> time_tick_cnt2 := time_tick_cnt2 s2 + 1 \<rparr> else s2)
     in if time_tick_cnt1 s3 < 0xFFFFFFFF then s3\<lparr> time_tick_cnt1 := time_tick_cnt1 s3 + 1 \<rparr> else s3)"

section \<open>Faults\<close>

text \<open>The numbering of this board, which has \<open>RUN\<close> and \<open>CLEAN\<close> the other way round.\<close>

abbreviation (input) DISP_FAULT_ESD_BIT :: u8 where "DISP_FAULT_ESD_BIT \<equiv> 0"
abbreviation (input) DISP_FAULT_MOTOR_BIT :: u8 where "DISP_FAULT_MOTOR_BIT \<equiv> 1"
abbreviation (input) DISP_FAULT_PHT_BIT :: u8 where "DISP_FAULT_PHT_BIT \<equiv> 2"
abbreviation (input) DISP_FAULT_RUN_BIT :: u8 where "DISP_FAULT_RUN_BIT \<equiv> 3"
abbreviation (input) DISP_FAULT_CLEAN_BIT :: u8 where "DISP_FAULT_CLEAN_BIT \<equiv> 4"

definition d_fault_get_bit :: "u8 \<Rightarrow> u8 \<Rightarrow> u8" where
  "d_fault_get_bit fault_type val = ucast ((ucast val :: u32) AND push_bit (unat fault_type) 1)"

definition fault_on :: "u8 \<Rightarrow> disp \<Rightarrow> disp" where
  "fault_on i s =
    (if i = DISP_FAULT_MOTOR_BIT then Ht1621_on_disp 10 s
     else if i = DISP_FAULT_PHT_BIT then Ht1621_on_disp 9 s
     else if i = DISP_FAULT_CLEAN_BIT then Ht1621_on_disp 8 s
     else if i = DISP_FAULT_ESD_BIT then Ht1621_on_disp 11 s
     else if i = DISP_FAULT_RUN_BIT then Ht1621_on_disp 12 s
     else s)"

definition fault_off :: "u8 \<Rightarrow> disp \<Rightarrow> disp" where
  "fault_off i s =
    (if i = DISP_FAULT_MOTOR_BIT then Ht1621_off_disp 10 s
     else if i = DISP_FAULT_PHT_BIT then Ht1621_off_disp 9 s
     else if i = DISP_FAULT_CLEAN_BIT then Ht1621_off_disp 8 s
     else if i = DISP_FAULT_ESD_BIT then Ht1621_off_disp 11 s
     else if i = DISP_FAULT_RUN_BIT then Ht1621_off_disp 12 s
     else s)"

fun fault_loop :: "u8 \<Rightarrow> u8 \<Rightarrow> nat \<Rightarrow> disp \<Rightarrow> disp option" where
  "fault_loop tmp i 0 s = Some s"
| "fault_loop tmp i (Suc n) s = do {
     s1 \<leftarrow> (if d_fault_get_bit i tmp \<noteq> 0 then Ht1621Display (fault_on i s) else Some (fault_off i s));
     fault_loop tmp (i + 1) n s1 }"

definition d_fault_check :: "disp \<Rightarrow> disp option" where
  "d_fault_check s =
    (let tmp = fault_state (d_device_work_data s);
         s1 = (if d_fault_get_bit 0 tmp \<noteq> 0 then Ht1621_on_disp 11 s else Ht1621_off_disp 11 s)
     in fault_loop tmp 1 5 s1)"

section \<open>Frames of the control board\<close>

definition command_data :: "u8 \<Rightarrow> u8 \<Rightarrow> para_type \<Rightarrow> para_type" where
  "command_data type data p =
    (if type = 0x02 then p\<lparr> device_power_state := (if data \<noteq> 0 then 1 else 0) \<rparr>
     else if type = 0x03 then (if data = 1 \<or> data = 2 then p\<lparr> device_mode := data \<rparr> else p)
     else if type = 0x04 then p\<lparr> high_pressur_state := (if data \<noteq> 0 then 1 else 0) \<rparr>
     else if type = 0x05 then p\<lparr> pht_work_state := (if data \<noteq> 0 then 1 else 0) \<rparr>
     else if type = 0x06 then p\<lparr> timing_state := (if data \<le> 0x0c \<and> data \<noteq> 0 then data else 0) \<rparr>
     else if type = 0x07 then (if data \<le> 3 then p\<lparr> wind_speed_state := data \<rparr> else p)
     else p)"

text \<open>
  The first key state that is set is cleared and reported; without one, a state request goes out
  every 700 ms.
\<close>

definition report :: "u8 \<Rightarrow> u8 \<Rightarrow> disp \<Rightarrow> disp option" where
  "report Function mode s = do {
     s1 \<leftarrow> return_device_power_state_change Function mode s;
     Some (s1\<lparr> time_tick_cnt1 := 0 \<rparr>) }"

definition report_keys :: "disp \<Rightarrow> disp option" where
  "report_keys s =
    (if power_key_state s = 0x01 then report 2 1 (s\<lparr> power_key_state := 0xff \<rparr>)
     else if power_key_state s = 0x00 then report 2 0 (s\<lparr> power_key_state := 0xff \<rparr>)
     else if mode_key_state s = 0x01 then report 3 1 (s\<lparr> mode_key_state := 0xff \<rparr>)
     else if mode_key_state s = 0x02 then report 3 2 (s\<lparr> mode_key_state := 0xff \<rparr>)
     else if PHT_key_state s = 0x01 then report 5 1 (s\<lparr> PHT_key_state := 0xff \<rparr>)
     else if PHT_key_state s = 0x00 then report 5 0 (s\<lparr> PHT_key_state := 0xff \<rparr>)
     else if workspeed_key_state s = 0x01 then report 7 1 (s\<lparr> workspeed_key_state := 0xff \<rparr>)
     else if workspeed_key_state s = 0x02 then report 7 2 (s\<lparr> workspeed_key_state := 0xff \<rparr>)
     else if workspeed_key_state s = 0x03 then report 7 3 (s\<lparr> workspeed_key_state := 0xff \<rparr>)
     else if ESD_key_state s = 0x01 then report 4 1 (s\<lparr> ESD_key_state := 0xff \<rparr>)
     else if ESD_key_state s = 0x00 then report 4 0 (s\<lparr> ESD_key_state := 0xff \<rparr>)
     else if time_tick_cnt1 s > 700 then report 1 0 s
     else Some s)"

text \<open>The half words arrive with their high byte first in this reading.\<close>

definition state_data :: "u8 list \<Rightarrow> para_type \<Rightarrow> para_type" where
  "state_data r p = p
    \<lparr> house1_co2 := be16 (r ! 12) (r ! 13), house1_pm2_5 := be16 (r ! 10) (r ! 11),
      house2_co2 := be16 (r ! 16) (r ! 17), house2_pm2_5 := be16 (r ! 14) (r ! 15),
      house3_co2 := be16 (r ! 20) (r ! 21), house3_pm2_5 := be16 (r ! 18) (r ! 19),
      house4_co2 := be16 (r ! 24) (r ! 25), house4_pm2_5 := be16 (r ! 22) (r ! 23),
      house5_co2 := be16 (r ! 28) (r ! 29), house5_pm2_5 := be16 (r ! 26) (r ! 27),
      fault_state := r ! 30, device_power_state := r ! 4, device_mode := r ! 5,
      wind_speed_state := r ! 6, high_pressur_state := r ! 7, pht_work_state := r ! 8 \<rparr>"

definition cmd_uart_check :: "disp \<Rightarrow> disp option" where
  "cmd_uart_check s =
    (if rxd1_buff_cFlag s \<noteq> 0 then do {
       r \<leftarrow> buf_gets (in_com_buff s) 0 40;
       let s1 = s\<lparr> rxd1_buff_cFlag := 0, in_com_buff := replicate 40 0 \<rparr>;
       s2 \<leftarrow> (if r ! 0 = 0xF1 \<and> r ! 1 = 0xF1 then do {
                a \<leftarrow> device_work_mode_check (upd_work (command_data (r ! 2) (r ! 4)) s1);
                if rx_buff_f1 a = 0 then report_keys a else Some a }
              else Some s1);
       if r ! 0 = 0xF2 \<and> r ! 1 = 0xF2 then do {
         a \<leftarrow> device_work_mode_check (upd_work (state_data r) s2);
         d_fault_check a }
       else Some s2 }
     else Some s)"

section \<open>The main loop\<close>

text \<open>The byte view of the union is cleared up to the size of the struct.\<close>

definition d_device_state_init :: "disp \<Rightarrow> disp" where
  "d_device_state_init s =
    s\<lparr> d_device_work_data := (para_of_bytes (replicate 28 0))\<lparr> fault_state := 0, device_power_state := 1 \<rparr> \<rparr>"

definition house_readings :: "u8 \<Rightarrow> para_type \<Rightarrow> u16 \<times> u16" where
  "house_readings h p =
    (if h = 1 then (house1_pm2_5 p, house1_co2 p) else if h = 2 then (house2_pm2_5 p, house2_co2 p)
     else if h = 3 then (house3_pm2_5 p, house3_co2 p) else if h = 4 then (house4_pm2_5 p, house4_co2 p)
     else (house5_pm2_5 p, house5_co2 p))"

text \<open>The digits of \<open>tmp\<close>: the first is not reduced and can exceed 9.\<close>

definition digits :: "u16 \<Rightarrow> u8 list" where
  "digits tmp = [ucast (tmp div 1000), ucast (tmp mod 1000 div 100), ucast (tmp mod 1000 mod 100 div 10),
     ucast (tmp mod 1000 mod 100 mod 10)]"

fun house_loop_d :: "nat \<Rightarrow> disp \<Rightarrow> disp" where
  "house_loop_d 0 s = s"
| "house_loop_d (Suc n) s =
    (let s1 = s\<lparr> house_id := (if house_id s \<ge> 5 then 1 else house_id s + 1) \<rparr>;
         s2 = s1\<lparr> Ht1621Tab3 := (Ht1621Tab3 s1)[4 := house_id s1] \<rparr>;
         (pm, co2) = house_readings (house_id s2) (d_device_work_data s2)
     in if pm = 0 \<and> co2 = 0 then house_loop_d n s2
        else s2\<lparr> Ht1621Tab3 := (Ht1621Tab3 s2)[0 := digits pm ! 0, 1 := digits pm ! 1, 2 := digits pm ! 2,
               3 := digits pm ! 3, 10 := digits co2 ! 0, 9 := digits co2 ! 1, 8 := digits co2 ! 2,
               7 := digits co2 ! 3] \<rparr>)"

definition house_round :: "disp \<Rightarrow> disp" where
  "house_round s = (if time_tick_cnt s > 1000 then (house_loop_d 5 s)\<lparr> time_tick_cnt := 0 \<rparr> else s)"

definition disp0 :: disp where
  "disp0 = \<lparr> d_device_work_data = para_of_bytes (replicate 28 0),
     device_work_changing_data = para_of_bytes (replicate 28 0), Ht1621Tab2 = replicate 20 0,
     Ht1621Tab3 = replicate 11 0, count2 = 0, count3 = 0, key4 = 1, d_time = 0, KeyState = KeyDown,
     power_fsm = \<lparr> KeyStep = 0, KeyDownTimes = 0, KeyDoubleTimes = 0 \<rparr>,
     main_fsm = \<lparr> KeyStep = 0, KeyDownTimes = 0, KeyDoubleTimes = 0 \<rparr>,
     power_key_state = 0xff, mode_key_state = 0xff, PHT_key_state = 0xff, workspeed_key_state = 0xff,
     ESD_key_state = 0xff, in_com_buff = replicate 40 0, rxd1_buffer = replicate 40 0, rxd1_buff_cFlag = 0,
     Isr_j = 0, Isr_com = 0, rec_data_num = 0, d_send_packet_buf = replicate 100 0, cmd_send_lenth = 0,
     counter_send = 0, txd1_buff_cFlag = 0, rx_buff_f1 = 0, time_tick_cnt = 0, time_tick_cnt1 = 0,
     time_tick_cnt2 = 0, house_id = 0, tx_irq = False, rs485_tx = False, d_line_out = [],
     backlight = False, key_led = False, ht_bus = [] \<rparr>"

text \<open>\<open>main\<close> before its loop.\<close>

definition disp_start :: "disp \<Rightarrow> disp" where
  "disp_start s =
    (let s1 = HT1621_LED False (HT1621_BL False (HT1621_GPIO_Config s));
         s2 = d_device_state_init (Ht1621_cls (Ht1621_clrbuf s1))
     in s2\<lparr> rs485_tx := False, time_tick_cnt := 1000, time_tick_cnt1 := 700 \<rparr>)"

text \<open>
  One step each: the receive, transmit and timer interrupts, and the four calls that the loop of
  \<open>main\<close> makes in turn.
\<close>

datatype disp_event = D_Rx u8 | D_Tx_Ready | D_Tick | D_Key_Scan pins | D_Onoff_Scan | D_Uart_Check | D_House

fun disp_step :: "disp \<Rightarrow> disp_event \<Rightarrow> disp option" where
  "disp_step s (D_Rx b) = serial_int1_receive b s"
| "disp_step s D_Tx_Ready = (if tx_irq s then serial_int1_send s else Some s)"
| "disp_step s D_Tick = Some (tim_irq s)"
| "disp_step s (D_Key_Scan p) = Key_Scan p s"
| "disp_step s D_Onoff_Scan = onoff_Scan s"
| "disp_step s D_Uart_Check = cmd_uart_check s"
| "disp_step s D_House = Some (house_round s)"

end
