(* ===== verification/Disp_Inv.thy ===== *)
theory Disp_Inv
  imports Disp_Link
begin

text \<open>
  The invariant of the display board. Drawing changes the panel, the timer digits, the backlight and
  parts of the working data only (\<open>redrawn\<close>); the panel stays drawable as long as the readings of the
  houses have four digits.
\<close>

section \<open>Drawing changes the panel only\<close>

definition redrawn :: "disp \<Rightarrow> disp \<Rightarrow> bool" where
  "redrawn s s' \<longleftrightarrow> s' = s\<lparr> Ht1621Tab2 := Ht1621Tab2 s', Ht1621Tab3 := Ht1621Tab3 s', ht_bus := ht_bus s',
     count2 := count2 s', count3 := count3 s', d_time := d_time s', backlight := backlight s',
     key_led := key_led s', d_device_work_data := d_device_work_data s' \<rparr>"

lemma redrawn_refl [simp]: "redrawn s s"
  by (simp add: redrawn_def)

lemma redrawn_trans:
  assumes "redrawn s s'" "redrawn s' s''" shows "redrawn s s''"
  by (subst redrawn_def, subst assms(2) [unfolded redrawn_def], subst assms(1) [unfolded redrawn_def]) simp

lemma redrawn_sel:
  assumes "redrawn s s'"
  shows "device_work_changing_data s' = device_work_changing_data s" "key4 s' = key4 s" "KeyState s' = KeyState s"
    "power_fsm s' = power_fsm s" "main_fsm s' = main_fsm s" "power_key_state s' = power_key_state s"
    "mode_key_state s' = mode_key_state s" "PHT_key_state s' = PHT_key_state s"
    "workspeed_key_state s' = workspeed_key_state s" "ESD_key_state s' = ESD_key_state s"
    "in_com_buff s' = in_com_buff s" "rxd1_buffer s' = rxd1_buffer s" "rxd1_buff_cFlag s' = rxd1_buff_cFlag s"
    "Isr_j s' = Isr_j s" "Isr_com s' = Isr_com s" "rec_data_num s' = rec_data_num s"
    "d_send_packet_buf s' = d_send_packet_buf s" "cmd_send_lenth s' = cmd_send_lenth s"
    "counter_send s' = counter_send s" "rx_buff_f1 s' = rx_buff_f1 s" "time_tick_cnt s' = time_tick_cnt s"
    "time_tick_cnt1 s' = time_tick_cnt1 s" "house_id s' = house_id s" "tx_irq s' = tx_irq s"
    "rs485_tx s' = rs485_tx s" "d_line_out s' = d_line_out s"
  by (subst assms [unfolded redrawn_def], simp)+

lemma redrawn_update:
  "redrawn s s' \<Longrightarrow> redrawn s (s'\<lparr> d_device_work_data := p \<rparr>)"
  "redrawn s s' \<Longrightarrow> redrawn s (s'\<lparr> count2 := c \<rparr>)"
  "redrawn s s' \<Longrightarrow> redrawn s (s'\<lparr> count3 := c \<rparr>)"
  "redrawn s s' \<Longrightarrow> redrawn s (s'\<lparr> Ht1621Tab3 := t \<rparr>)"
  "redrawn s s' \<Longrightarrow> redrawn s (s'\<lparr> d_time := n \<rparr>)"
  by (erule redrawn_trans, simp add: redrawn_def)+

lemma redrawn_ops:
  "redrawn s (ht_out es s)" "redrawn s (out_writes ws s)" "redrawn s (HT1621_BL a s)" "redrawn s (HT1621_LED a s)"
  "redrawn s (Ht1621_on_disp f s)" "redrawn s (Ht1621_off_disp f s)" "redrawn s (show_count s)"
  by (simp_all add: redrawn_def ht_out_def out_writes_def HT1621_BL_def HT1621_LED_def Ht1621_on_disp_def
      Ht1621_off_disp_def show_count_def)

section \<open>The invariant\<close>

definition panel_ok :: "disp \<Rightarrow> bool" where
  "panel_ok s \<longleftrightarrow> length (Ht1621Tab2 s) = 20 \<and> length (Ht1621Tab3 s) = 11 \<and>
     (\<forall>d \<in> set (Ht1621Tab3 s). d \<le> 9) \<and> count2 s \<le> 9 \<and> count3 s \<le> 9"

definition readings_ok :: "para_type \<Rightarrow> bool" where
  "readings_ok p \<longleftrightarrow> (\<forall>h \<in> {1, 2, 3, 4, 5}. fst (house_readings h p) \<le> 9999 \<and> snd (house_readings h p) \<le> 9999)"

definition link_ok :: "disp \<Rightarrow> bool" where
  "link_ok s \<longleftrightarrow> length (in_com_buff s) = 40 \<and> length (rxd1_buffer s) = 40 \<and> length (d_send_packet_buf s) = 100 \<and>
     (Isr_j s \<noteq> 0 \<longrightarrow> 1 \<le> Isr_com s \<and> Isr_com s < rec_data_num s) \<and> rec_data_num s \<le> 33 \<and> counter_send s \<le> 40"

definition disp_ok :: "disp \<Rightarrow> bool" where
  "disp_ok s \<longleftrightarrow> panel_ok s \<and> readings_ok (d_device_work_data s) \<and> link_ok s \<and> house_id s \<le> 5"

lemma link_ok_redrawn: "redrawn s s' \<Longrightarrow> link_ok s' = link_ok s"
  by (simp add: link_ok_def redrawn_sel)

lemma panel_ok_ops [simp]:
  "panel_ok (ht_out es s) = panel_ok s" "panel_ok (out_writes ws s) = panel_ok s"
  "panel_ok (HT1621_BL a s) = panel_ok s" "panel_ok (HT1621_LED a s) = panel_ok s"
  "panel_ok (Ht1621_on_disp f s) = panel_ok s" "panel_ok (Ht1621_off_disp f s) = panel_ok s"
  "panel_ok (s\<lparr> d_device_work_data := p \<rparr>) = panel_ok s" "panel_ok (s\<lparr> d_time := n \<rparr>) = panel_ok s"
  by (simp_all add: panel_ok_def ht_out_def out_writes_def HT1621_BL_def HT1621_LED_def Ht1621_on_disp_def
      Ht1621_off_disp_def)

lemma panel_ok_counts:
  "panel_ok s \<Longrightarrow> c2 \<le> 9 \<Longrightarrow> c3 \<le> 9 \<Longrightarrow> panel_ok (s\<lparr> count3 := c3, count2 := c2 \<rparr>)"
  by (simp add: panel_ok_def)

lemma panel_ok_show_count [simp]: "panel_ok s \<Longrightarrow> panel_ok (show_count s)"
  by (auto simp: panel_ok_def show_count_def dest!: subsetD [OF set_update_subset_insert])

lemma data_ops [simp]:
  "d_device_work_data (ht_out es s) = d_device_work_data s" "d_device_work_data (out_writes ws s) = d_device_work_data s"
  "d_device_work_data (HT1621_BL a s) = d_device_work_data s" "d_device_work_data (HT1621_LED a s) = d_device_work_data s"
  "d_device_work_data (Ht1621_on_disp f s) = d_device_work_data s"
  "d_device_work_data (Ht1621_off_disp f s) = d_device_work_data s"
  "d_device_work_data (show_count s) = d_device_work_data s"
  by (simp_all add: ht_out_def out_writes_def HT1621_BL_def HT1621_LED_def Ht1621_on_disp_def Ht1621_off_disp_def
      show_count_def)

lemma redrawn_op:
  assumes "\<And>s. redrawn s (f s)" "redrawn s s'" shows "redrawn s (f s')"
  using redrawn_trans [OF assms(2) assms(1)] .

text \<open>What all drawing operations keep.\<close>

definition drawn :: "disp \<Rightarrow> disp \<Rightarrow> bool" where
  "drawn s s' \<longleftrightarrow> redrawn s s' \<and> (panel_ok s \<longrightarrow> panel_ok s') \<and>
     d_device_work_data s' = d_device_work_data s \<and> count2 s' = count2 s \<and> count3 s' = count3 s"

lemma drawn_refl [simp]: "drawn s s"
  by (simp add: drawn_def)

lemma drawn_trans: "drawn s s' \<Longrightarrow> drawn s' s'' \<Longrightarrow> drawn s s''"
  by (auto simp: drawn_def intro: redrawn_trans)

lemma drawn_ops:
  "drawn s (ht_out es s)" "drawn s (out_writes ws s)" "drawn s (HT1621_BL a s)" "drawn s (HT1621_LED a s)"
  "drawn s (Ht1621_on_disp f s)" "drawn s (Ht1621_off_disp f s)" "drawn s (show_count s)" "drawn s (s\<lparr> d_time := n \<rparr>)"
  by (simp_all add: drawn_def redrawn_ops redrawn_update)
    (simp_all add: ht_out_def out_writes_def HT1621_BL_def HT1621_LED_def Ht1621_on_disp_def Ht1621_off_disp_def show_count_def)

lemma drawn_op:
  assumes "\<And>s. drawn s (f s)" "drawn s s'" shows "drawn s (f s')"
  using drawn_trans [OF assms(2) assms(1)] .

lemmas drawn_intros = drawn_refl drawn_op [of "ht_out es" for es, OF drawn_ops(1)] drawn_op [of "out_writes ws" for ws, OF drawn_ops(2)]
  drawn_op [of "HT1621_BL a" for a, OF drawn_ops(3)] drawn_op [of "HT1621_LED a" for a, OF drawn_ops(4)]
  drawn_op [of "Ht1621_on_disp f" for f, OF drawn_ops(5)] drawn_op [of "Ht1621_off_disp f" for f, OF drawn_ops(6)]
  drawn_op [of show_count, OF drawn_ops(7)]

lemma drawn_scans:
  "drawn s (pin0_Scan s)" "drawn s (pin1_Scan s)" "drawn s (pin6_Scan s)" "drawn s (panel_icons s)" "drawn s (Ht1621_BL s)"
  by (auto simp: pin0_Scan_def pin1_Scan_def pin6_Scan_def panel_icons_def Ht1621_BL_def intro!: drawn_intros
      intro: drawn_trans [OF _ drawn_ops(8)])

lemma Ht1621Wr_Data_drawn: "drawn s (Ht1621Wr_Data d c s)"
proof -
  have "drawn s (wr_data_loop d t n s)" for t n
    by (induction d t n s rule: wr_data_loop.induct) (auto intro: drawn_trans drawn_ops)
  then show ?thesis by (simp add: Ht1621Wr_Data_def)
qed

lemma drawn_fold: "(\<And>p s. drawn s (f p s)) \<Longrightarrow> drawn s s' \<Longrightarrow> drawn s (fold f ps s')"
  by (induction ps arbitrary: s') (simp_all, blast intro: drawn_trans)

lemma cls_drawn: "drawn s (Ht1621_cls s)"
  unfolding Ht1621_cls_def Ht1621WrAllData_def
  by (intro drawn_intros drawn_fold Ht1621Wr_Data_drawn drawn_op [of "Ht1621Wr_Data d c" for d c, OF Ht1621Wr_Data_drawn])

lemma Display_drawn:
  assumes "panel_ok s" obtains s' where "Ht1621Display s = Some s'" "drawn s s'"
  using assms Ht1621Display_eq [of s] drawn_trans [OF drawn_scans(4) drawn_ops(2)]
  by (auto simp: panel_ok_def)

section \<open>Showing the working data\<close>

text \<open>The fields that the board shows and can set to themselves.\<close>

definition shown_as :: "para_type \<Rightarrow> para_type \<Rightarrow> bool" where
  "shown_as p q \<longleftrightarrow>
     q = p\<lparr> wind_speed_state := wind_speed_state q, high_pressur_state := high_pressur_state q,
            pht_work_state := pht_work_state q, timing_state := timing_state q \<rparr> \<and>
     (wind_speed_state p \<le> 3 \<longrightarrow> wind_speed_state q = wind_speed_state p) \<and>
     (high_pressur_state p \<le> 1 \<longrightarrow> high_pressur_state q = high_pressur_state p) \<and>
     (pht_work_state p \<le> 1 \<longrightarrow> pht_work_state q = pht_work_state p)"

lemma u8_le_nums:
  fixes x :: u8
  shows "x \<le> 1 \<longleftrightarrow> x = 0 \<or> x = 1" "x \<le> 3 \<longleftrightarrow> x = 0 \<or> x = 1 \<or> x = 2 \<or> x = 3"
proof -
  have n: "x = of_nat (unat x)" by simp
  have "unat x \<le> 3 \<Longrightarrow> unat x \<in> {0, 1, 2, 3}" by auto
  then show "x \<le> 1 \<longleftrightarrow> x = 0 \<or> x = 1" "x \<le> 3 \<longleftrightarrow> x = 0 \<or> x = 1 \<or> x = 2 \<or> x = 3"
    by (auto simp: word_le_nat_alt) (use n in force)+
qed

text \<open>A change of the working data on top of a drawing.\<close>

definition shows_data :: "(para_type \<Rightarrow> para_type) \<Rightarrow> disp \<Rightarrow> disp \<Rightarrow> bool" where
  "shows_data f s s' \<longleftrightarrow> redrawn s s' \<and> (panel_ok s \<longrightarrow> panel_ok s') \<and>
     d_device_work_data s' = f (d_device_work_data s)"

lemma shows_data_trans: "shows_data f s s' \<Longrightarrow> shows_data g s' s'' \<Longrightarrow> shows_data (g \<circ> f) s s''"
  by (auto simp: shows_data_def intro: redrawn_trans)

lemma shows_data_upd:
  "drawn s s' \<Longrightarrow> p' = f (d_device_work_data s) \<Longrightarrow> shows_data f s (s'\<lparr> d_device_work_data := p' \<rparr>)"
  by (auto simp: shows_data_def drawn_def intro: redrawn_update)

lemma shows_data_id: "shows_data id s s"
  by (simp add: shows_data_def)

lemma show_mode_data: "shows_data (\<lambda>p. if key4 s \<noteq> 0 \<and> (m = 1 \<or> m = 2) then p\<lparr> device_mode := m \<rparr> else p) s (show_mode m s)"
  using shows_data_id [of s, unfolded id_def]
  by (auto simp: show_mode_def intro!: shows_data_upd drawn_intros)

lemma show_wind_data: "shows_data (\<lambda>p. if w \<le> 3 then p\<lparr> wind_speed_state := w \<rparr> else p) s (show_wind w s)"
proof -
  have "w \<le> 3 \<longleftrightarrow> w = 0 \<or> w = 1 \<or> w = 2 \<or> w = 3"
    using u8_le_nums(2) by auto
  then show ?thesis
    using shows_data_id [of s, unfolded id_def]
    by (auto simp: show_wind_def intro!: shows_data_upd drawn_intros)
qed

lemma show_esd_data: "shows_data (\<lambda>p. if e \<le> 1 then p\<lparr> high_pressur_state := e \<rparr> else p) s (show_esd e s)"
  using shows_data_id [of s, unfolded id_def]
  by (auto simp: show_esd_def u8_le_nums(1) intro!: shows_data_upd drawn_intros)

lemma show_pht_data: "shows_data (\<lambda>p. if h \<le> 1 then p\<lparr> pht_work_state := h \<rparr> else p) s (show_pht h s)"
  using shows_data_id [of s, unfolded id_def]
  by (auto simp: show_pht_def u8_le_nums(1) intro!: shows_data_upd drawn_intros)

lemma show_timing_data:
  "shows_data (\<lambda>p. if key4 s \<noteq> 0 \<and> t \<le> 12 then p\<lparr> timing_state := t \<rparr> else p) s (show_timing t s)"
proof (cases "key4 s \<noteq> 0 \<and> t \<le> 12")
  case True
  then have "unat t \<le> 12" by (simp add: word_le_nat_alt)
  then have d: "t div 10 \<le> 9" "t mod 10 \<le> 9" by (simp_all add: word_le_nat_alt unat_div_distrib unat_mod_distrib)
  with True d show ?thesis
    by (auto simp: shows_data_def show_timing_def panel_ok_counts
        intro!: redrawn_update redrawn_op [OF redrawn_ops(7)])
next
  case False
  then show ?thesis using shows_data_id [of s, unfolded id_def] by (auto simp: show_timing_def)
qed

lemma onoff_on:
  assumes "panel_ok s"
  obtains s' where "onoff_device_set 1 s = Some s'" "shows_data (device_power_state_update (\<lambda>_. 1)) s s'"
proof -
  define t where "t = Ht1621_BL (pin1_Scan (pin0_Scan (s\<lparr> d_time := 0 \<rparr>)))"
  have t: "drawn s t" unfolding t_def
    by (rule drawn_op [OF drawn_scans(5)], rule drawn_op [OF drawn_scans(2)], rule drawn_op [OF drawn_scans(1)], rule drawn_ops)
  then have "panel_ok t" using assms by (simp add: drawn_def)
  then obtain u where u: "Ht1621Display t = Some u" "drawn t u" by (rule Display_drawn)
  then have "d_device_work_data u = d_device_work_data s" using t by (simp add: drawn_def)
  then show thesis
    using u t that by (auto simp: onoff_device_set_def t_def [symmetric] intro!: shows_data_upd intro: drawn_trans)
qed

lemma onoff_off:
  assumes "panel_ok s"
  obtains s' where "onoff_device_set 0 s = Some s'"
    "shows_data (\<lambda>p. p\<lparr> wind_speed_state := 0, high_pressur_state := 0, pht_work_state := 0,
       timing_state := count3 s * 10 + count2 s, device_power_state := 0 \<rparr>) s s'"
proof -
  define t where "t = Ht1621_cls (HT1621_LED False (HT1621_BL False s))"
  have t: "drawn s t" unfolding t_def by (rule drawn_op [OF cls_drawn]) (intro drawn_intros)
  define p where "p = (d_device_work_data s)\<lparr> wind_speed_state := 0, high_pressur_state := 0, pht_work_state := 0 \<rparr>"
  define u where "u = show_count (t\<lparr> d_device_work_data := p \<rparr>)"
  have r: "redrawn s t" "panel_ok t" using t assms by (simp_all add: drawn_def)
  have u: "redrawn s u" unfolding u_def
    by (rule redrawn_op [OF redrawn_ops(7)], rule redrawn_update, rule r(1))
  have o: "panel_ok u" unfolding u_def by (rule panel_ok_show_count) (simp add: r(2))
  have c: "count2 u = count2 s" "count3 u = count3 s" "d_device_work_data u = p"
    using t by (simp_all add: u_def drawn_def show_count_def)
  define v where "v = (u\<lparr> d_device_work_data := p\<lparr> timing_state := count3 s * 10 + count2 s, device_power_state := 0 \<rparr>,
    count3 := 0, count2 := 0 \<rparr>)"
  have "onoff_device_set 0 s = Some v"
    using t c(3) by (simp add: onoff_device_set_def Let_def t_def [symmetric] v_def u_def p_def drawn_def show_count_def)
  moreover have "redrawn s v" unfolding v_def by (intro redrawn_update u)
  moreover have "panel_ok v" using panel_ok_counts [OF o, of 0 0] by (simp add: v_def panel_ok_def)
  ultimately show thesis using that by (simp add: shows_data_def v_def p_def)
qed

definition onoff_data :: "u8 \<Rightarrow> u8 \<Rightarrow> para_type \<Rightarrow> para_type" where
  "onoff_data n c p =
    (if n = 0 then p\<lparr> wind_speed_state := 0, high_pressur_state := 0, pht_work_state := 0, timing_state := c, device_power_state := 0 \<rparr>
     else if n = 1 then p\<lparr> device_power_state := 1 \<rparr> else p)"

lemma onoff_shows:
  assumes "panel_ok s"
  obtains s1 where "(if n = 0 then onoff_device_set 0 s else if n = 1 then onoff_device_set 1 s else Some s) = Some s1"
    "shows_data (onoff_data n (count3 s * 10 + count2 s)) s s1"
proof -
  consider "n = 0" | "n = 1" | "n \<noteq> 0" "n \<noteq> 1" by blast
  then show thesis
  proof cases
    case 1
    obtain s1 where "onoff_device_set 0 s = Some s1"
      "shows_data (\<lambda>p. p\<lparr> wind_speed_state := 0, high_pressur_state := 0, pht_work_state := 0,
         timing_state := count3 s * 10 + count2 s, device_power_state := 0 \<rparr>) s s1"
      by (rule onoff_off [OF assms])
    then show thesis using 1 that by (simp add: onoff_data_def [abs_def])
  next
    case 2
    obtain s1 where "onoff_device_set 1 s = Some s1" "shows_data (device_power_state_update (\<lambda>_. 1)) s s1"
      by (rule onoff_on [OF assms])
    then show thesis using 2 that by (simp add: onoff_data_def [abs_def])
  next
    case 3
    then show thesis using that [of s] shows_data_id [of s] by (simp add: onoff_data_def [abs_def] id_def)
  qed
qed

lemma shown_parts:
  assumes q1: "q1 = onoff_data (device_power_state p) c p"
    and q2: "q2 = (if a \<and> (device_mode p = 1 \<or> device_mode p = 2) then q1\<lparr> device_mode := device_mode p \<rparr> else q1)"
    and q3: "q3 = (if wind_speed_state p \<le> 3 then q2\<lparr> wind_speed_state := wind_speed_state p \<rparr> else q2)"
    and q4: "q4 = (if high_pressur_state p \<le> 1 then q3\<lparr> high_pressur_state := high_pressur_state p \<rparr> else q3)"
    and q5: "q5 = (if pht_work_state p \<le> 1 then q4\<lparr> pht_work_state := pht_work_state p \<rparr> else q4)"
    and q6: "q6 = (if b \<and> timing_state p \<le> 12 then q5\<lparr> timing_state := timing_state p \<rparr> else q5)"
  shows "shown_as p q6"
proof -
  obtain w h t m where 1: "q1 = p\<lparr> wind_speed_state := w, high_pressur_state := h, pht_work_state := t, timing_state := m \<rparr>"
  proof
    show "q1 = p\<lparr> wind_speed_state := wind_speed_state q1, high_pressur_state := high_pressur_state q1,
      pht_work_state := pht_work_state q1, timing_state := timing_state q1 \<rparr>"
      by (simp add: q1 onoff_data_def)
  qed
  have 2: "q2 = q1" by (simp add: q2 1)
  show ?thesis by (simp add: shown_as_def q6 q5 q4 q3 2 1)
qed

lemma mode_check_shows:
  assumes "panel_ok s"
  obtains s' where "device_work_mode_check s = Some s'" "redrawn s s'" "panel_ok s'"
    "shown_as (d_device_work_data s) (d_device_work_data s')"
proof -
  define p where "p = d_device_work_data s"
  obtain s1 where s1: "(if device_power_state p = 0 then onoff_device_set 0 s
      else if device_power_state p = 1 then onoff_device_set 1 s else Some s) = Some s1"
    "shows_data (onoff_data (device_power_state p) (count3 s * 10 + count2 s)) s s1"
    by (rule onoff_shows [OF assms])
  define s2 where "s2 = show_mode (device_mode p) s1"
  define s3 where "s3 = show_wind (wind_speed_state p) s2"
  define s4 where "s4 = show_esd (high_pressur_state p) s3"
  define s5 where "s5 = show_pht (pht_work_state p) s4"
  define s6 where "s6 = show_timing (timing_state p) s5"
  have eq: "device_work_mode_check s = Some s6"
    unfolding device_work_mode_check_def Let_def p_def [symmetric] s1(1) bind.bind_lunit
    by (simp only: s2_def s3_def s4_def s5_def s6_def)
  note parts = s1(2) show_mode_data [of s1 "device_mode p", folded s2_def] show_wind_data [of "wind_speed_state p" s2, folded s3_def]
    show_esd_data [of "high_pressur_state p" s3, folded s4_def] show_pht_data [of "pht_work_state p" s4, folded s5_def]
    show_timing_data [of s5 "timing_state p", folded s6_def]
  have rs: "redrawn s s1" "redrawn s1 s2" "redrawn s2 s3" "redrawn s3 s4" "redrawn s4 s5" "redrawn s5 s6"
    using parts by (simp_all add: shows_data_def)
  have "redrawn s s6"
    by (rule redrawn_trans [OF rs(1) redrawn_trans [OF rs(2) redrawn_trans [OF rs(3)
      redrawn_trans [OF rs(4) redrawn_trans [OF rs(5) rs(6)]]]]])
  moreover have "panel_ok s6"
    using parts assms by (simp add: shows_data_def)
  moreover have "shown_as p (d_device_work_data s6)"
    by (rule shown_parts) (rule parts [unfolded shows_data_def, THEN conjunct2, THEN conjunct2, folded p_def])+
  ultimately show thesis using that eq p_def by blast
qed

end
