(* ===== verification/Disp_Run.thy ===== *)
theory Disp_Run
  imports Disp_Inv
begin

text \<open>
  Every step of the display board keeps the invariant of \<open>Disp_Inv\<close>: the interrupts, the keys, the
  frames and the rounds over the houses. The section at the end interprets the machine of the prelude.
\<close>

section \<open>Parts of the state the invariant does not look at\<close>

lemma disp_ok_upd [simp]:
  "disp_ok (s\<lparr> KeyState := k \<rparr>) = disp_ok s" "disp_ok (s\<lparr> d_time := t \<rparr>) = disp_ok s"
  "disp_ok (s\<lparr> power_fsm := f \<rparr>) = disp_ok s" "disp_ok (s\<lparr> main_fsm := f \<rparr>) = disp_ok s"
  "disp_ok (s\<lparr> power_key_state := x \<rparr>) = disp_ok s" "disp_ok (s\<lparr> mode_key_state := x \<rparr>) = disp_ok s"
  "disp_ok (s\<lparr> PHT_key_state := x \<rparr>) = disp_ok s" "disp_ok (s\<lparr> workspeed_key_state := x \<rparr>) = disp_ok s"
  "disp_ok (s\<lparr> ESD_key_state := x \<rparr>) = disp_ok s" "disp_ok (s\<lparr> key4 := x \<rparr>) = disp_ok s"
  "disp_ok (s\<lparr> device_work_changing_data := p \<rparr>) = disp_ok s" "disp_ok (s\<lparr> time_tick_cnt := t \<rparr>) = disp_ok s"
  "disp_ok (s\<lparr> time_tick_cnt1 := t \<rparr>) = disp_ok s" "disp_ok (s\<lparr> time_tick_cnt2 := t \<rparr>) = disp_ok s"
  "disp_ok (s\<lparr> rxd1_buff_cFlag := x \<rparr>) = disp_ok s" "disp_ok (s\<lparr> txd1_buff_cFlag := x \<rparr>) = disp_ok s"
  "disp_ok (s\<lparr> rs485_tx := b \<rparr>) = disp_ok s" "disp_ok (s\<lparr> tx_irq := b \<rparr>) = disp_ok s"
  "disp_ok (s\<lparr> d_line_out := bs \<rparr>) = disp_ok s" "disp_ok (s\<lparr> cmd_send_lenth := x \<rparr>) = disp_ok s"
  by (simp_all add: disp_ok_def panel_ok_def link_ok_def)

lemma disp_ok_drawn:
  assumes "disp_ok s" "drawn s s'" shows "disp_ok s'"
  using assms redrawn_sel(23) [of s s'] link_ok_redrawn [of s s'] by (simp add: disp_ok_def drawn_def)

lemma disp_ok_panel: "disp_ok s \<Longrightarrow> panel_ok s"
  by (simp add: disp_ok_def)

section \<open>Keys\<close>

lemma key_step_keeps:
  assumes "\<And>s. disp_ok s \<Longrightarrow> disp_ok (sh s)" "\<And>s. disp_ok s \<Longrightarrow> disp_ok (lo s)" "disp_ok s"
  shows "disp_ok (snd (key_step sh lo up (k, s)))"
  using assms by (auto simp: Let_def)

lemma power_Key_ok: "disp_ok s \<Longrightarrow> disp_ok (power_Key up s)"
  using key_step_keeps [of power_short power_long s up "power_fsm s"]
  by (auto simp: power_Key_def power_short_def power_long_def reset_wifi_def split: prod.splits)

lemma mode_long_ok: "disp_ok s \<Longrightarrow> disp_ok (mode_long s)"
  by (rule disp_ok_drawn [of "s\<lparr> key4 := 0 \<rparr>"]) (auto simp: mode_long_def intro!: drawn_intros)

lemma MainSwitch_Key_ok: "disp_ok s \<Longrightarrow> disp_ok (MainSwitch_Key up s)"
  using key_step_keeps [of mode_short mode_long s up "main_fsm s"] mode_long_ok
  by (auto simp: MainSwitch_Key_def mode_short_def split: prod.splits)

text \<open>A scan of a plain key comes to an end if the pin is up again at the third reading or later.\<close>

definition levels_ok :: "bool list \<Rightarrow> bool" where
  "levels_ok ups \<longleftrightarrow> (case ups of [] \<Rightarrow> False | up # rest \<Rightarrow> up \<or> True \<in> set (tl rest))"

lemma wait_release_iff: "wait_release ups = Some () \<longleftrightarrow> True \<in> set ups"
  by (induction ups) auto

lemma plain_key_eq:
  assumes "levels_ok ups"
  shows "plain_key h ups s = Some
    (if \<not> ups ! 0 \<and> is_on s then (if \<not> ups ! 1 then h s else s)\<lparr> d_time := 0 \<rparr> else s)"
proof (cases "\<not> ups ! 0 \<and> is_on s")
  case True
  with assms obtain x rest where "ups = False # x # rest" "True \<in> set rest"
    by (auto simp: levels_ok_def split: list.splits) (metis list.set_sel(2) list.exhaust_sel emptyE list.set(1) tl_Nil)
  with True show ?thesis
    using wait_release_iff [of rest] by (auto simp: plain_key_def buf_get_def)
next
  case False
  with assms have "ups \<noteq> []" by (auto simp: levels_ok_def)
  with False show ?thesis by (auto simp: plain_key_def)
qed

lemma show_count_ok:
  assumes "disp_ok s" "c2 \<le> 9" "c3 \<le> 9" shows "disp_ok (show_count (s\<lparr> count3 := c3, count2 := c2 \<rparr>))"
  using assms panel_ok_show_count [OF panel_ok_counts [of s c2 c3]]
  by (simp add: disp_ok_def link_ok_def show_count_def)

lemma count_up:
  fixes x :: u8 assumes "x \<le> 9" "x + 1 \<noteq> 10" shows "x + 1 \<le> 9"
proof -
  have "unat (x + 1) = unat x + 1" using assms(1) by (simp add: unat_word_ariths word_le_nat_alt)
  moreover have "unat (x + 1) \<noteq> unat (10 :: u8)" using assms(2) unsigned_word_eqI by blast
  ultimately show ?thesis using assms(1) by (simp add: word_le_nat_alt)
qed

lemma count_down:
  fixes x :: u8 assumes "x \<le> 9" "x \<noteq> 0" shows "x - 1 \<le> 9"
  using assms by (simp add: word_le_nat_alt unat_minus_one)

lemma esd_key_ok:
  assumes "disp_ok s" shows "disp_ok (esd_key s)"
proof (cases "key4 s = 0")
  case True
  have "count2 s \<le> 9" "count3 s \<le> 9" using assms by (simp_all add: disp_ok_def panel_ok_def)
  then have c: "count2 s + 1 \<noteq> 10 \<Longrightarrow> count2 s + 1 \<le> 9"
    using count_up by blast
  define d where "d = (if count2 s + 1 = 10 then (0, 1) else if count3 s = 1 \<and> count2 s + 1 \<ge> 3 then (2, 1) else (count2 s + 1, count3 s))"
  have "esd_key s = show_count (s\<lparr> count3 := snd d, count2 := fst d \<rparr>)"
    by (intro disp.equality) (auto simp: True esd_key_def d_def Let_def show_count_def)
  moreover have "fst d \<le> 9" "snd d \<le> 9" using c \<open>count3 s \<le> 9\<close> by (auto simp: d_def)
  ultimately show ?thesis using show_count_ok [OF assms] by simp
next
  case False
  with assms show ?thesis by (simp add: esd_key_def)
qed

lemma pht_key_ok:
  assumes "disp_ok s" shows "disp_ok (pht_key s)"
proof (cases "key4 s = 0")
  case True
  have "count2 s \<le> 9" "count3 s \<le> 9" using assms by (simp_all add: disp_ok_def panel_ok_def)
  then have c: "count2 s \<noteq> 0 \<Longrightarrow> count2 s - 1 \<le> 9"
    using count_down by blast
  define d where "d = (if count3 s = 1 \<and> count2 s = 0 then (9, 0) else if count2 s \<noteq> 0 then (count2 s - 1, count3 s) else (0, count3 s))"
  have "pht_key s = show_count (s\<lparr> count3 := snd d, count2 := fst d \<rparr>)"
    using True by (simp add: pht_key_def d_def)
  moreover have "fst d \<le> 9" "snd d \<le> 9" using c \<open>count3 s \<le> 9\<close> by (auto simp: d_def)
  ultimately show ?thesis using show_count_ok [OF assms] by simp
next
  case False
  with assms show ?thesis by (simp add: pht_key_def)
qed

lemma speed_key_ok: "disp_ok s \<Longrightarrow> disp_ok (speed_key s)"
  by (simp add: speed_key_def Let_def)

definition pins_ok :: "pins \<Rightarrow> bool" where
  "pins_ok p \<longleftrightarrow> levels_ok (pins_c9 p) \<and> levels_ok (pins_c8 p) \<and> levels_ok (pins_a8 p)"

lemma Key_Scan_safe:
  assumes "disp_ok s" "pins_ok p" shows "\<exists>s'. Key_Scan p s = Some s' \<and> disp_ok s'"
proof -
  have k: "\<exists>s'. plain_key h ups s = Some s' \<and> disp_ok s'"
    if "levels_ok ups" "\<And>s. disp_ok s \<Longrightarrow> disp_ok (h s)" "disp_ok s" for h ups s
    using that by (simp add: plain_key_eq)
  obtain s1 where 1: "plain_key esd_key (pins_c9 p) (MainSwitch_Key (pin_c7 p) (power_Key (pin_a9 p) s)) = Some s1" "disp_ok s1"
    using k [of "pins_c9 p" esd_key, OF _ esd_key_ok MainSwitch_Key_ok [OF power_Key_ok [OF assms(1)]]] assms(2)
    by (auto simp: pins_ok_def)
  obtain s2 where 2: "plain_key pht_key (pins_c8 p) s1 = Some s2" "disp_ok s2"
    using k [of "pins_c8 p" pht_key s1] pht_key_ok assms(2) 1 by (auto simp: pins_ok_def)
  obtain s3 where 3: "plain_key speed_key (pins_a8 p) s2 = Some s3" "disp_ok s3"
    using k [of "pins_a8 p" speed_key s2] speed_key_ok assms(2) 2 by (auto simp: pins_ok_def)
  show ?thesis using 1 2 3 by (simp add: Key_Scan_def)
qed

section \<open>Frames\<close>

lemma com_send_f1:
  assumes "length (d_send_packet_buf s) = 100"
  shows "return_device_power_state_change f m s = Some (txd1_buffer_send (s\<lparr>
    d_send_packet_buf := [0xF1, 0xF1, f, 1, m, f + 1 + m, 0x7E] @ drop 7 (d_send_packet_buf s), cmd_send_lenth := 7 \<rparr>))"
proof -
  obtain b0 b1 b2 b3 b4 b5 b6 bs where b: "d_send_packet_buf s = b0 # b1 # b2 # b3 # b4 # b5 # b6 # bs"
    using assms by (auto simp: eval_nat_numeral length_Suc_conv)
  have "pack_bytes [f, 1, m] 0 3 (0xF1 # 0xF1 # b2 # b3 # b4 # b5 # b6 # bs) 0 =
      Some (0xF1 # 0xF1 # f # 1 # m # b5 # b6 # bs, f + 1 + m)"
    by (simp add: numeral_3_eq_3 add.assoc)
  then show ?thesis
    by (simp add: return_device_power_state_change_def com_send_packet_data_f1_def b)
qed

lemma report_ok:
  assumes "disp_ok s" shows "\<exists>s'. report f m s = Some s' \<and> disp_ok s'"
proof -
  have "length (d_send_packet_buf s) = 100" using assms by (simp add: disp_ok_def link_ok_def)
  then show ?thesis using assms
    by (simp add: report_def com_send_f1 txd1_buffer_send_def) (simp add: disp_ok_def panel_ok_def link_ok_def)
qed

lemma report_keys_ok: "disp_ok s \<Longrightarrow> \<exists>s'. report_keys s = Some s' \<and> disp_ok s'"
  unfolding report_keys_def using report_ok by (auto split: if_splits)

lemma mode_check_ok:
  assumes "disp_ok s" obtains s' where "device_work_mode_check s = Some s'" "redrawn s s'" "disp_ok s'"
    "shown_as (d_device_work_data s) (d_device_work_data s')"
proof -
  obtain s' where s': "device_work_mode_check s = Some s'" "redrawn s s'" "panel_ok s'"
    "shown_as (d_device_work_data s) (d_device_work_data s')"
    using mode_check_shows [OF disp_ok_panel [OF assms]] .
  obtain w h t m where "d_device_work_data s' = (d_device_work_data s)
      \<lparr> wind_speed_state := w, high_pressur_state := h, pht_work_state := t, timing_state := m \<rparr>"
    using s'(4) by (auto simp: shown_as_def)
  then have "readings_ok (d_device_work_data s')"
    using assms by (simp add: disp_ok_def readings_ok_def house_readings_def)
  then have "disp_ok s'"
    using s' assms by (simp add: disp_ok_def link_ok_redrawn redrawn_sel)
  with s' that show thesis by blast
qed

lemma fault_ops_drawn: "drawn s (fault_on i s)" "drawn s (fault_off i s)"
  by (auto simp: fault_on_def fault_off_def intro!: drawn_ops)

lemma fault_loop_drawn:
  "panel_ok s \<Longrightarrow> \<exists>s'. fault_loop tmp i n s = Some s' \<and> drawn s s'"
proof (induction n arbitrary: i s)
  case 0
  then show ?case by simp
next
  case (Suc n)
  have "\<exists>t. (if d_fault_get_bit i tmp \<noteq> 0 then Ht1621Display (fault_on i s) else Some (fault_off i s)) = Some t \<and> drawn s t"
  proof (cases "d_fault_get_bit i tmp \<noteq> 0")
    case True
    have "panel_ok (fault_on i s)" using fault_ops_drawn(1) [of s i] Suc.prems by (simp add: drawn_def)
    then obtain t where "Ht1621Display (fault_on i s) = Some t" "drawn (fault_on i s) t" by (rule Display_drawn)
    with True show ?thesis using drawn_trans [OF fault_ops_drawn(1)] by auto
  next
    case False
    then show ?thesis using fault_ops_drawn(2) by auto
  qed
  then obtain t where t: "(if d_fault_get_bit i tmp \<noteq> 0 then Ht1621Display (fault_on i s) else Some (fault_off i s)) = Some t"
    "drawn s t" by blast
  then have "panel_ok t" using Suc.prems by (simp add: drawn_def)
  with Suc.IH [of t "i + 1"] t show ?case by (auto intro: drawn_trans simp del: not_None_eq split del: if_split)
qed

lemma fault_check_drawn:
  assumes "panel_ok s" shows "\<exists>s'. d_fault_check s = Some s' \<and> drawn s s'"
proof -
  define tmp where "tmp = fault_state (d_device_work_data s)"
  define t where "t = (if d_fault_get_bit 0 tmp \<noteq> 0 then Ht1621_on_disp 11 s else Ht1621_off_disp 11 s)"
  have t: "drawn s t" unfolding t_def by (auto intro: drawn_ops)
  then have "panel_ok t" using assms by (simp add: drawn_def)
  then obtain s' where "fault_loop tmp 1 5 t = Some s'" "drawn t s'" using fault_loop_drawn by blast
  then show ?thesis using drawn_trans [OF t] by (auto simp: d_fault_check_def Let_def tmp_def [symmetric] t_def [symmetric])
qed

text \<open>What a frame of the control board does: an \<open>0xF1\<close> frame, and an \<open>0xF2\<close> frame.\<close>

lemma buff_gets_40: "length b = 40 \<Longrightarrow> buf_gets b 0 40 = Some b"
  using buf_gets_eq [of 0 40 b] by simp

lemma command_data_readings: "house_readings h (command_data t d p) = house_readings h p"
  by (simp add: command_data_def house_readings_def)

lemma disp_ok_data:
  "disp_ok s \<Longrightarrow> readings_ok p \<Longrightarrow> disp_ok (s\<lparr> d_device_work_data := p \<rparr>)"
  "disp_ok s \<Longrightarrow> length b = 40 \<Longrightarrow> disp_ok (s\<lparr> in_com_buff := b \<rparr>)"
  by (simp_all add: disp_ok_def panel_ok_def link_ok_def)

lemma f1_frame:
  assumes "disp_ok s" "rxd1_buff_cFlag s \<noteq> 0" "in_com_buff s ! 0 = 0xF1" "in_com_buff s ! 1 = 0xF1"
  obtains a where "redrawn (s\<lparr> rxd1_buff_cFlag := 0, in_com_buff := replicate 40 0 \<rparr>) a" "disp_ok a"
    "shown_as (command_data (in_com_buff s ! 2) (in_com_buff s ! 4) (d_device_work_data s)) (d_device_work_data a)"
    "cmd_uart_check s = (if rx_buff_f1 a = 0 then report_keys a else Some a)"
proof -
  define r where "r = in_com_buff s"
  define s1 where "s1 = s\<lparr> rxd1_buff_cFlag := 0, in_com_buff := replicate 40 0 \<rparr>"
  define s2 where "s2 = s1\<lparr> d_device_work_data := command_data (r ! 2) (r ! 4) (d_device_work_data s1) \<rparr>"
  have len: "length r = 40" using assms(1) by (simp add: r_def disp_ok_def link_ok_def)
  have "readings_ok (command_data (r ! 2) (r ! 4) (d_device_work_data s1))"
    using assms(1) by (simp add: disp_ok_def readings_ok_def command_data_readings s1_def)
  then have "disp_ok s2" unfolding s2_def s1_def using assms(1) by (intro disp_ok_data) simp_all
  then obtain a where a: "device_work_mode_check s2 = Some a" "redrawn s2 a" "disp_ok a"
    "shown_as (d_device_work_data s2) (d_device_work_data a)" by (rule mode_check_ok)
  have "redrawn s1 s2" unfolding s2_def by (intro redrawn_update redrawn_refl)
  then have "redrawn s1 a" using a(2) by (rule redrawn_trans)
  moreover have "cmd_uart_check s = (if rx_buff_f1 a = 0 then report_keys a else Some a)"
    using assms(2-4) a(1) buff_gets_40 [OF len]
    by (simp add: cmd_uart_check_def r_def [symmetric] s1_def [symmetric] Let_def) (simp add: s2_def)
  ultimately show thesis using that a(3,4) by (simp add: s1_def s2_def r_def)
qed

lemma f2_frame:
  assumes "disp_ok s" "rxd1_buff_cFlag s \<noteq> 0" "in_com_buff s ! 0 = 0xF2" "in_com_buff s ! 1 = 0xF2"
    and "readings_ok (state_data (in_com_buff s) (d_device_work_data s))"
  obtains a s' where "redrawn (s\<lparr> rxd1_buff_cFlag := 0, in_com_buff := replicate 40 0 \<rparr>) a" "disp_ok a"
    "shown_as (state_data (in_com_buff s) (d_device_work_data s)) (d_device_work_data a)"
    "cmd_uart_check s = Some s'" "d_fault_check a = Some s'" "drawn a s'"
proof -
  define r where "r = in_com_buff s"
  define s1 where "s1 = s\<lparr> rxd1_buff_cFlag := 0, in_com_buff := replicate 40 0 \<rparr>"
  define s2 where "s2 = s1\<lparr> d_device_work_data := state_data r (d_device_work_data s1) \<rparr>"
  have len: "length r = 40" using assms(1) by (simp add: r_def disp_ok_def link_ok_def)
  have "disp_ok s2" unfolding s2_def s1_def using assms(1,5) by (intro disp_ok_data) (simp_all add: r_def)
  then obtain a where a: "device_work_mode_check s2 = Some a" "redrawn s2 a" "disp_ok a"
    "shown_as (d_device_work_data s2) (d_device_work_data a)" by (rule mode_check_ok)
  obtain s' where s': "d_fault_check a = Some s'" "drawn a s'"
    using fault_check_drawn [OF disp_ok_panel [OF a(3)]] by blast
  have "redrawn s1 s2" unfolding s2_def by (intro redrawn_update redrawn_refl)
  then have "redrawn s1 a" using a(2) by (rule redrawn_trans)
  moreover have "cmd_uart_check s = Some s'"
    using assms(2-4) a(1) s'(1) buff_gets_40 [OF len]
    by (simp add: cmd_uart_check_def r_def [symmetric] s1_def [symmetric] Let_def) (simp add: s2_def)
  ultimately show thesis using that a(3,4) s' by (simp add: s1_def s2_def r_def)
qed

definition f2_readings_ok :: "disp \<Rightarrow> bool" where
  "f2_readings_ok s \<longleftrightarrow> (in_com_buff s ! 0 = 0xF2 \<and> in_com_buff s ! 1 = 0xF2 \<longrightarrow>
     readings_ok (state_data (in_com_buff s) (d_device_work_data s)))"

lemma cmd_uart_check_safe:
  assumes "disp_ok s" "f2_readings_ok s" shows "\<exists>s'. cmd_uart_check s = Some s' \<and> disp_ok s'"
proof (cases "rxd1_buff_cFlag s = 0")
  case True
  with assms show ?thesis by (simp add: cmd_uart_check_def)
next
  case False
  consider "in_com_buff s ! 0 = 0xF1" "in_com_buff s ! 1 = 0xF1" | "in_com_buff s ! 0 = 0xF2" "in_com_buff s ! 1 = 0xF2"
    | "\<not> (in_com_buff s ! 0 = 0xF1 \<and> in_com_buff s ! 1 = 0xF1)" "\<not> (in_com_buff s ! 0 = 0xF2 \<and> in_com_buff s ! 1 = 0xF2)"
    by blast
  then show ?thesis
  proof cases
    case 1
    obtain a where "disp_ok a" "cmd_uart_check s = (if rx_buff_f1 a = 0 then report_keys a else Some a)"
      using f1_frame [OF assms(1) False 1] by metis
    then show ?thesis using report_keys_ok by simp
  next
    case 2
    then have "readings_ok (state_data (in_com_buff s) (d_device_work_data s))" using assms(2) by (simp add: f2_readings_ok_def)
    from f2_frame [OF assms(1) False 2 this] show ?thesis using disp_ok_drawn by metis
  next
    case 3
    have "buf_gets (in_com_buff s) 0 40 = Some (in_com_buff s)"
      using assms(1) by (intro buff_gets_40) (simp add: disp_ok_def link_ok_def)
    with 3 show ?thesis using False assms(1)
      by (auto simp: cmd_uart_check_def Let_def intro!: disp_ok_data)
  qed
qed

section \<open>Interrupts and the houses\<close>

lemma serial_int1_receive_safe:
  assumes "disp_ok s" shows "\<exists>s'. serial_int1_receive b s = Some s' \<and> disp_ok s'"
proof (cases "Isr_j s = 0")
  case True
  with assms show ?thesis
    by (simp add: serial_int1_receive_def disp_ok_def link_ok_def panel_ok_def)
next
  case False
  then have l: "length (rxd1_buffer s) = 40" "length (in_com_buff s) = 40" "1 \<le> Isr_com s" "Isr_com s < rec_data_num s"
      "rec_data_num s \<le> 33" "unat (Isr_com s) < 40" "unat (rec_data_num s) \<le> 33"
    using assms by (auto simp: disp_ok_def link_ok_def word_less_nat_alt word_le_nat_alt)
  obtain vs where vs: "buf_gets ((rxd1_buffer s)[unat (Isr_com s) := b]) 0 (unat (rec_data_num s)) = Some vs"
    using buf_gets_eq [of 0 "unat (rec_data_num s)" "(rxd1_buffer s)[unat (Isr_com s) := b]"] l by auto
  then have "length vs \<le> 33" using buf_gets_length l(7) by metis
  then obtain c where c: "buf_puts (in_com_buff s) 0 vs = Some c" "length c = 40"
    using buf_puts_eq [of 0 vs "in_com_buff s"] l(2) buf_puts_length by fastforce
  have i: "1 \<le> Isr_com s + 1"
    using l(6) by (simp add: word_le_nat_alt unat_word_ariths)
  show ?thesis
    using assms False l i vs c
    by (auto simp: serial_int1_receive_def Let_def disp_ok_def link_ok_def panel_ok_def not_le)
qed

lemma serial_int1_send_safe:
  assumes "disp_ok s" shows "\<exists>s'. serial_int1_send s = Some s' \<and> disp_ok s'"
proof -
  have c: "counter_send s \<le> 40" "length (d_send_packet_buf s) = 100" "unat (counter_send s) < 100"
    using assms by (auto simp: disp_ok_def link_ok_def word_le_nat_alt)
  then show ?thesis using assms
    by (auto simp: serial_int1_send_def Let_def disp_ok_def link_ok_def panel_ok_def not_less)
qed

lemma tim_irq_ok: "disp_ok s \<Longrightarrow> disp_ok (tim_irq s)"
  by (simp add: tim_irq_def Let_def)

lemma digits_le_9:
  assumes "w \<le> 9999" "d \<in> set (digits w)" shows "d \<le> 9"
proof -
  have "unat w \<le> 9999" using assms(1) by (simp add: word_le_nat_alt)
  then have "unat w div 1000 \<le> 9" "unat w mod 1000 div 100 \<le> 9" "unat w mod 1000 mod 100 div 10 \<le> 9"
    "unat w mod 1000 mod 100 mod 10 \<le> 9" by auto
  then show ?thesis using assms(2)
    by (auto simp: digits_def word_le_nat_alt unsigned_ucast_eq take_bit_eq_mod unat_div_distrib unat_mod_distrib)
qed

lemma set_update_sub: "set (xs[i := x]) \<subseteq> insert x (set xs)"
  by (rule set_update_subset_insert)

lemma u8_less_5:
  fixes x :: u8 assumes "x < 5" shows "x \<in> {0, 1, 2, 3, 4}"
proof (cases "x \<le> 3")
  case True
  then show ?thesis using u8_le_nums(2) by auto
next
  case False
  with assms have "unat x = unat (4 :: u8)" by (simp add: word_le_nat_alt word_less_nat_alt)
  then have "x = 4" by (rule unsigned_word_eqI)
  then show ?thesis by simp
qed

lemma house_loop_ok: "disp_ok s \<Longrightarrow> disp_ok (house_loop_d n s)"
proof (induction n arbitrary: s)
  case 0
  then show ?case by simp
next
  case (Suc n)
  define h where "h = (if house_id s \<ge> 5 then 1 else house_id s + 1)"
  define s2 where "s2 = s\<lparr> house_id := h, Ht1621Tab3 := (Ht1621Tab3 s)[4 := h] \<rparr>"
  have "h \<in> {1, 2, 3, 4, 5}"
    using u8_less_5 [of "house_id s"] by (auto simp: h_def not_le)
  then have h: "h \<le> 5" "h \<le> 9" "h \<in> {1, 2, 3, 4, 5}" by auto
  have t: "\<forall>d \<in> set ((Ht1621Tab3 s)[4 := h]). d \<le> 9"
    using Suc.prems h(2) set_update_sub [of "Ht1621Tab3 s" 4 h] by (auto simp: disp_ok_def panel_ok_def)
  then have s2: "disp_ok s2"
    using Suc.prems h(1) by (simp add: s2_def disp_ok_def panel_ok_def link_ok_def)
  obtain pm co2 where r: "house_readings h (d_device_work_data s) = (pm, co2)" by fastforce
  then have w: "pm \<le> 9999" "co2 \<le> 9999"
    using Suc.prems h(3) by (metis disp_ok_def readings_ok_def fst_conv, metis disp_ok_def readings_ok_def snd_conv)
  define ds where "ds = (Ht1621Tab3 s2)[0 := digits pm ! 0, 1 := digits pm ! 1, 2 := digits pm ! 2, 3 := digits pm ! 3,
    10 := digits co2 ! 0, 9 := digits co2 ! 1, 8 := digits co2 ! 2, 7 := digits co2 ! 3]"
  have d: "digits pm ! i \<le> 9" "digits co2 ! i \<le> 9" if "i < 4" for i
    using digits_le_9 [OF w(1) nth_mem] digits_le_9 [OF w(2) nth_mem] that by (simp_all add: digits_def)
  have up: "\<forall>d \<in> set (xs[i := x]). d \<le> 9" if "\<forall>d \<in> set xs. d \<le> 9" "x \<le> 9" for xs i and x :: u8
    using that set_update_sub [of xs i x] by auto
  have "\<forall>d \<in> set ds. d \<le> 9"
    unfolding ds_def by (intro up d) (use t in \<open>simp_all add: s2_def\<close>)
  then have "disp_ok (s2\<lparr> Ht1621Tab3 := ds \<rparr>)"
    using s2 by (simp add: disp_ok_def panel_ok_def link_ok_def) (simp add: ds_def)
  moreover have "house_loop_d (Suc n) s = (if pm = 0 \<and> co2 = 0 then house_loop_d n s2 else s2\<lparr> Ht1621Tab3 := ds \<rparr>)"
    using r by (simp add: h_def [symmetric] Let_def s2_def ds_def)
  ultimately show ?case using Suc.IH [OF s2] by simp
qed

lemma onoff_Scan_safe:
  assumes "disp_ok s" shows "\<exists>s'. onoff_Scan s = Some s' \<and> disp_ok s'"
proof -
  obtain t where "Ht1621Display s = Some t" "drawn s t" using Display_drawn [OF disp_ok_panel [OF assms]] .
  then show ?thesis
    using disp_ok_drawn [OF assms] cls_drawn [of s] by (auto simp: onoff_Scan_def Let_def)
qed

section \<open>The machine\<close>

fun disp_event_ok :: "disp \<Rightarrow> disp_event \<Rightarrow> bool" where
  "disp_event_ok s (D_Key_Scan p) \<longleftrightarrow> pins_ok p"
| "disp_event_ok s D_Uart_Check \<longleftrightarrow> f2_readings_ok s"
| "disp_event_ok s _ \<longleftrightarrow> True"

lemma disp_step_safe:
  assumes "disp_ok s" "disp_event_ok s e" shows "\<exists>s'. disp_step s e = Some s' \<and> disp_ok s'"
proof (cases e)
  case (D_Rx b) then show ?thesis using serial_int1_receive_safe [OF assms(1)] by simp
next
  case D_Tx_Ready then show ?thesis using serial_int1_send_safe [OF assms(1)] assms(1) by simp
next
  case D_Tick then show ?thesis using tim_irq_ok [OF assms(1)] by simp
next
  case (D_Key_Scan p) then show ?thesis using Key_Scan_safe assms by simp
next
  case D_Onoff_Scan then show ?thesis using onoff_Scan_safe [OF assms(1)] by simp
next
  case D_Uart_Check then show ?thesis using cmd_uart_check_safe assms by simp
next
  case D_House then show ?thesis using house_loop_ok [OF assms(1)] assms(1) by (simp add: house_round_def)
qed

interpretation display: safe_machine disp_step disp_ok disp_event_ok
  by unfold_locales (rule disp_step_safe)

lemma disp_start_ok: "disp_ok (disp_start disp0)"
proof -
  define s where "s = HT1621_LED False (HT1621_BL False (HT1621_GPIO_Config disp0))"
  have w: "drawn s (Ht1621WrCmd c s)" for c s
    unfolding Ht1621WrCmd_def by (intro drawn_intros drawn_op [of "Ht1621Wr_Data d c" for d c, OF Ht1621Wr_Data_drawn])
  have "drawn disp0 s"
    unfolding s_def HT1621_GPIO_Config_def by (intro drawn_intros drawn_fold w)
  have d0: "disp_ok disp0"
    by (simp add: disp_ok_def panel_ok_def link_ok_def disp0_def readings_ok_def house_readings_def para_of_bytes_def be16_def)
  then have "disp_ok s" using \<open>drawn disp0 s\<close> by (rule disp_ok_drawn)
  then have "disp_ok (Ht1621_clrbuf s)"
    by (simp add: Ht1621_clrbuf_def disp_ok_def panel_ok_def link_ok_def)
  then have c: "disp_ok (Ht1621_cls (Ht1621_clrbuf s))" using cls_drawn by (rule disp_ok_drawn)
  show ?thesis
    unfolding disp_start_def Let_def s_def [symmetric] d_device_state_init_def
    by (simp, rule disp_ok_data(1) [OF c]) (simp add: readings_ok_def house_readings_def para_of_bytes_def be16_def)
qed

end
