(* ===== verification/Disp_Frames.thy ===== *)
theory Disp_Frames
  imports Disp_Run
begin

text \<open>
  Whole frames and whole presses on the display board, as runs of its steps: a frame that arrives byte
  by byte, the answer that leaves byte by byte, and the samples of a press of the power key.
\<close>

section \<open>A frame arrives\<close>

definition disp_frame_in :: "u8 list \<Rightarrow> disp \<Rightarrow> disp" where
  "disp_frame_in fr s = s\<lparr> rec_data_num := of_nat (length fr), rxd1_buffer := fr @ drop (length fr) (rxd1_buffer s),
     Isr_com := 0, Isr_j := 0, rxd1_buff_cFlag := 1, time_tick_cnt2 := 0,
     in_com_buff := fr @ drop (length fr) (in_com_buff s) \<rparr>"

definition rx_part :: "u8 list \<Rightarrow> nat \<Rightarrow> disp \<Rightarrow> disp" where
  "rx_part bs n s = s\<lparr> rec_data_num := of_nat n, rxd1_buffer := bs @ drop (length bs) (rxd1_buffer s),
     Isr_com := of_nat (length bs), Isr_j := 1 \<rparr>"

lemma unat_u8_small: "n < 256 \<Longrightarrow> unat (of_nat n :: u8) = n"
  by (simp add: unsigned_of_nat take_bit_eq_mod)

lemma receive_more:
  assumes "Isr_j s \<noteq> 0" "buf_get (rxd1_buffer s) 0 = Some v"
    and "\<not> (Isr_com s = 1 \<and> ((b \<noteq> 0xF1 \<and> v = 0xF1) \<or> (b \<noteq> 0xF2 \<and> v = 0xF2)))"
    and "buf_set (rxd1_buffer s) (unat (Isr_com s)) b = Some buf"
  shows "serial_int1_receive b s =
    (if rec_data_num s \<le> Isr_com s + 1 then do {
       vs \<leftarrow> buf_gets buf 0 (unat (rec_data_num s));
       cmd \<leftarrow> buf_puts (in_com_buff s) 0 vs;
       Some (s\<lparr> rxd1_buffer := buf, Isr_com := 0, Isr_j := 0, rxd1_buff_cFlag := 1, time_tick_cnt2 := 0, in_com_buff := cmd \<rparr>) }
     else Some (s\<lparr> rxd1_buffer := buf, Isr_com := Isr_com s + 1 \<rparr>))"
  unfolding serial_int1_receive_def assms(2,4) using assms(1,3) by (auto simp: Let_def)

lemma rx_step:
  assumes "length (rxd1_buffer s) = 40" "length (in_com_buff s) = 40" "n \<le> 33" "bs \<noteq> []" "length bs < n"
    and "length bs = 1 \<Longrightarrow> b = bs ! 0"
  shows "serial_int1_receive b (rx_part bs n s) =
    Some (if Suc (length bs) = n then disp_frame_in (bs @ [b]) s else rx_part (bs @ [b]) n s)"
proof -
  define l where "l = length bs"
  have l: "1 \<le> l" "l < n" "length bs = l" using assms(4,5) by (auto simp: l_def Suc_le_eq)
  have u: "unat (of_nat l :: u8) = l" "unat (of_nat n :: u8) = n" "unat (of_nat (Suc l) :: u8) = Suc l"
    using l assms(3) by (simp_all add: unat_u8_small del: of_nat_Suc)
  have one: "(of_nat l :: u8) = 1 \<longleftrightarrow> l = 1"
    using u(1) by (metis of_nat_1 unat_1 One_nat_def)
  have ge: "(of_nat n :: u8) \<le> of_nat (Suc l) \<longleftrightarrow> Suc l = n"
    using u l by (auto simp: word_le_nat_alt simp del: of_nat_Suc)
  have suc: "(of_nat l :: u8) + 1 = of_nat (Suc l)" by simp
  define buf where "buf = (bs @ [b]) @ drop (Suc l) (rxd1_buffer s)"
  have set: "buf_set (bs @ drop l (rxd1_buffer s)) l b = Some buf"
    using l assms(1,3) by (simp add: buf_def list_update_append Cons_nth_drop_Suc [symmetric])
  have get: "buf_get (bs @ drop l (rxd1_buffer s)) 0 = Some (bs ! 0)" using l by (simp add: nth_append)
  have start: "\<not> (l = 1 \<and> ((b \<noteq> 0xF1 \<and> bs ! 0 = 0xF1) \<or> (b \<noteq> 0xF2 \<and> bs ! 0 = 0xF2)))"
    using assms(6) l by auto
  have gets: "buf_gets buf 0 n = Some (bs @ [b])" if "Suc l = n"
    using l assms(1,3) unfolding that [symmetric] buf_def by (subst buf_gets_eq) simp_all
  have puts: "buf_puts (in_com_buff s) 0 (bs @ [b]) = Some ((bs @ [b]) @ drop (Suc l) (in_com_buff s))"
    using l assms(2,3) by (subst buf_puts_eq) simp_all
  have "serial_int1_receive b (rx_part bs n s) =
    (if Suc l = n then do {
       vs \<leftarrow> buf_gets buf 0 n;
       cmd \<leftarrow> buf_puts (in_com_buff s) 0 vs;
       Some (rx_part bs n s\<lparr> rxd1_buffer := buf, Isr_com := 0, Isr_j := 0, rxd1_buff_cFlag := 1, time_tick_cnt2 := 0, in_com_buff := cmd \<rparr>) }
     else Some (rx_part bs n s\<lparr> rxd1_buffer := buf, Isr_com := of_nat (Suc l) \<rparr>))"
    using receive_more [of "rx_part bs n s" "bs ! 0" b buf] get set start one
    by (simp add: rx_part_def l(3) u ge suc del: of_nat_Suc)
  then show ?thesis
    by (cases "Suc l = n") (simp only: gets puts bind.bind_lunit if_True if_False simp_thms,
      simp add: l(3) rx_part_def disp_frame_in_def buf_def del: of_nat_Suc)+
qed

lemma rx_rest:
  assumes "length (rxd1_buffer s) = 40" "length (in_com_buff s) = 40" "n \<le> 33"
  shows "bs \<noteq> [] \<Longrightarrow> cs \<noteq> [] \<Longrightarrow> length bs + length cs = n \<Longrightarrow> (length bs = 1 \<Longrightarrow> hd cs = bs ! 0) \<Longrightarrow>
    run_steps disp_step (rx_part bs n s) (map D_Rx cs) = Some (disp_frame_in (bs @ cs) s)"
proof (induction cs arbitrary: bs)
  case Nil
  then show ?case by simp
next
  case (Cons c cs)
  have st: "serial_int1_receive c (rx_part bs n s) =
      Some (if Suc (length bs) = n then disp_frame_in (bs @ [c]) s else rx_part (bs @ [c]) n s)"
    using Cons.prems by (intro rx_step assms) auto
  show ?case
  proof (cases "cs = []")
    case True
    with st Cons.prems(3) show ?thesis by simp
  next
    case False
    then have "Suc (length bs) \<noteq> n" using Cons.prems(3) by (cases cs) auto
    with st Cons.IH [of "bs @ [c]"] False Cons.prems show ?thesis by simp
  qed
qed

text \<open>A frame is seven bytes that start with \<open>F1 F1\<close>, or 33 bytes that start with \<open>F2 F2\<close>.\<close>

definition disp_frame :: "u8 list \<Rightarrow> bool" where
  "disp_frame fr \<longleftrightarrow> (length fr = 7 \<and> fr ! 0 = 0xF1 \<and> fr ! 1 = 0xF1) \<or> (length fr = 33 \<and> fr ! 0 = 0xF2 \<and> fr ! 1 = 0xF2)"

lemma disp_frame_arrives:
  assumes "disp_ok s" "Isr_j s = 0" "disp_frame fr"
  shows "run_steps disp_step s (map D_Rx fr) = Some (disp_frame_in fr s)"
proof -
  obtain b cs where fr: "fr = b # cs" "cs \<noteq> []" "hd cs = b" "b = 0xF1 \<or> b = 0xF2"
      "of_nat (length fr) = (if b = 0xF1 then 7 else 33 :: u8)" "length fr \<le> 33"
  proof -
    have "2 \<le> length fr" using assms(3) by (auto simp: disp_frame_def)
    then obtain b c ds where "fr = b # c # ds" by (auto simp: numeral_2_eq_2 Suc_le_length_iff)
    moreover have "of_nat (length fr) = (if b = 0xF1 then 7 else 33 :: u8)" "length fr \<le> 33"
      using assms(3) \<open>fr = b # c # ds\<close> by (auto simp: disp_frame_def)
    ultimately show thesis using assms(3) by (intro that [of b "c # ds"]) (auto simp: disp_frame_def)
  qed
  have len: "length (rxd1_buffer s) = 40" "length (in_com_buff s) = 40"
    using assms(1) by (simp_all add: disp_ok_def link_ok_def)
  have "serial_int1_receive b s = Some (rx_part [b] (length fr) s)"
    using assms(2) fr(4,5) len
    by (cases "rxd1_buffer s") (auto simp: serial_int1_receive_def rx_part_def)
  then show ?thesis
    using rx_rest [OF len fr(6), of "[b]" cs] fr(1-3) by simp
qed

lemma disp_frame_in_ok: "disp_ok s \<Longrightarrow> disp_frame fr \<Longrightarrow> disp_ok (disp_frame_in fr s)"
  by (auto simp: disp_ok_def panel_ok_def link_ok_def disp_frame_in_def disp_frame_def)

section \<open>The answer leaves\<close>

lemma send_step:
  assumes "tx_irq s" "unat (counter_send s) \<le> 7" "cmd_send_lenth s = 7" "length (d_send_packet_buf s) = 100"
  shows "disp_step s D_Tx_Ready = Some (s\<lparr> d_line_out := d_line_out s @ [d_send_packet_buf s ! unat (counter_send s)],
    counter_send := counter_send s + 1 \<rparr>)"
proof -
  have "unat (counter_send s + 1) = unat (counter_send s) + 1" using assms(2) by (simp add: unat_word_ariths)
  then show ?thesis using assms
    by (simp add: serial_int1_send_def Let_def word_le_nat_alt word_less_nat_alt)
qed

lemma send_steps:
  assumes "tx_irq s" "counter_send s = 0" "cmd_send_lenth s = 7" "length (d_send_packet_buf s) = 100"
  shows "n \<le> 8 \<Longrightarrow> run_steps disp_step s (replicate n D_Tx_Ready) =
    Some (s\<lparr> d_line_out := d_line_out s @ take n (d_send_packet_buf s), counter_send := of_nat n \<rparr>)"
proof (induction n)
  case 0
  then show ?case by (simp add: assms(2) [symmetric])
next
  case (Suc n)
  define t where "t = s\<lparr> d_line_out := d_line_out s @ take n (d_send_packet_buf s), counter_send := of_nat n \<rparr>"
  have "unat (of_nat n :: u8) = n" using Suc.prems by (simp add: unat_u8_small)
  then have "disp_step t D_Tx_Ready = Some (s\<lparr> d_line_out := d_line_out s @ take (Suc n) (d_send_packet_buf s),
      counter_send := of_nat (Suc n) \<rparr>)"
    using send_step [of t] assms Suc.prems by (simp add: t_def take_Suc_conv_app_nth add.commute)
  moreover have "replicate (Suc n) D_Tx_Ready = replicate n D_Tx_Ready @ [D_Tx_Ready]"
    by (simp add: replicate_append_same)
  ultimately show ?case using Suc
    by (simp only: run_steps_append) (simp add: t_def [symmetric])
qed

text \<open>A seven-byte answer is followed by the next two bytes of the buffer.\<close>

lemma answer_leaves:
  assumes "tx_irq s" "counter_send s = 0" "cmd_send_lenth s = 7" "length (d_send_packet_buf s) = 100"
  shows "run_steps disp_step s (replicate 9 D_Tx_Ready) =
    Some (s\<lparr> d_line_out := d_line_out s @ take 9 (d_send_packet_buf s), counter_send := 0, txd1_buff_cFlag := 1,
      tx_irq := False, time_tick_cnt2 := 0, rs485_tx := False \<rparr>)"
proof -
  have r: "replicate 9 D_Tx_Ready = replicate 8 D_Tx_Ready @ [D_Tx_Ready]"
    by (simp add: eval_nat_numeral)
  have "take 9 (d_send_packet_buf s) = take 8 (d_send_packet_buf s) @ [d_send_packet_buf s ! 8]"
    using take_Suc_conv_app_nth [of 8 "d_send_packet_buf s"] assms(4) by simp
  then show ?thesis
    unfolding r run_steps_append send_steps [OF assms order_refl]
    using assms by (simp add: serial_int1_send_def Let_def)
qed

section \<open>A press of the power key\<close>

text \<open>The samples of a scan in which only the power key may be down.\<close>

definition only_power :: "bool \<Rightarrow> pins" where
  "only_power up = \<lparr> pin_a9 = up, pin_c7 = True, pins_c9 = [True], pins_c8 = [True], pins_a8 = [True] \<rparr>"

lemma only_power_ok: "pins_ok (only_power up)"
  by (simp add: only_power_def pins_ok_def levels_ok_def)

lemma key_step_fsms:
  "key_step power_short power_long up (k, s\<lparr> power_fsm := f \<rparr>) =
     map_prod id (power_fsm_update (\<lambda>_. f)) (key_step power_short power_long up (k, s))"
  "main_fsm (snd (key_step power_short power_long up (k, s))) = main_fsm s"
  by (simp_all add: Let_def power_short_def power_long_def reset_wifi_def)

lemma fold_key_fsm:
  "fold (key_step power_short power_long) ups (k, s\<lparr> power_fsm := f \<rparr>) =
     map_prod id (power_fsm_update (\<lambda>_. f)) (fold (key_step power_short power_long) ups (k, s))"
proof (induction ups arbitrary: k s)
  case Nil
  then show ?case by simp
next
  case (Cons u ups)
  obtain k1 s1 where st: "key_step power_short power_long u (k, s) = (k1, s1)" by fastforce
  show ?case
    using Cons.IH [of k1 s1] by (simp only: fold_simps key_step_fsms st map_prod_simp id_apply)
qed

lemma scan_power:
  assumes "main_fsm s = fsm 0 0 0" shows "Key_Scan (only_power up) s = Some (power_Key up s)"
proof -
  have "main_fsm (power_Key up s) = fsm 0 0 0"
    using assms key_step_fsms(2) [of up "power_fsm s" s]
    by (simp add: power_Key_def split_beta Let_def del: key_step.simps)
  then have "MainSwitch_Key True (power_Key up s) = power_Key up s"
    by (cases "is_on (power_Key up s)") (simp_all add: MainSwitch_Key_def)
  then show ?thesis by (simp add: Key_Scan_def only_power_def plain_key_def)
qed

lemma scans_power:
  assumes "main_fsm s = fsm 0 0 0"
  shows "run_steps disp_step s (map (\<lambda>up. D_Key_Scan (only_power up)) ups) =
    Some (case fold (key_step power_short power_long) ups (power_fsm s, s) of (k, t) \<Rightarrow> t\<lparr> power_fsm := k \<rparr>)"
  using assms
proof (induction ups arbitrary: s)
  case Nil
  then show ?case by simp
next
  case (Cons u ups)
  obtain k1 s1 where st: "key_step power_short power_long u (power_fsm s, s) = (k1, s1)" by fastforce
  then have p: "power_Key u s = s1\<lparr> power_fsm := k1 \<rparr>" by (simp add: power_Key_def del: key_step.simps)
  have "main_fsm s1 = fsm 0 0 0"
    using key_step_fsms(2) [of u "power_fsm s" s] st Cons.prems by simp
  then have "run_steps disp_step (s1\<lparr> power_fsm := k1 \<rparr>) (map (\<lambda>up. D_Key_Scan (only_power up)) ups) = Some
      (case map_prod id (power_fsm_update (\<lambda>_. k1)) (fold (key_step power_short power_long) ups (k1, s1)) of
         (k, t) \<Rightarrow> t\<lparr> power_fsm := k \<rparr>)"
    using Cons.IH [of "s1\<lparr> power_fsm := k1 \<rparr>"] by (simp add: fold_key_fsm del: key_step.simps)
  then show ?case
    using Cons.prems by (simp add: scan_power p st split_beta del: key_step.simps)
qed

lemma power_pressed:
  assumes "main_fsm s = fsm 0 0 0" "power_fsm s = fsm 0 0 0" "3 \<le> n" "n < 402"
  shows "run_steps disp_step s (map (\<lambda>up. D_Key_Scan (only_power up)) (replicate n False @ replicate 13 True)) =
    Some (s\<lparr> KeyState := KeyUp, d_time := 0,
      power_key_state := (if device_power_state (d_device_work_data s) = 0 then 1 else 0) \<rparr>)"
proof -
  have "fold (key_step power_short power_long) (replicate n False @ replicate 13 True) (power_fsm s, s) =
      (fsm 0 0 0, pressed power_short power_long n s)"
    unfolding assms(2) by (rule key_pressed) (use assms(3) in \<open>simp_all add: power_long_def reset_wifi_def\<close>)
  then show ?thesis
    unfolding scans_power [OF assms(1)]
    using assms(2-4) by (simp add: pressed_def power_short_def)
qed

section \<open>A poll answered\<close>

definition poll_frame :: "u8 list" where
  "poll_frame = [0xF1, 0xF1, 0x01, 0x01, 0x00, 0x02, 0x7E]"

lemma poll_frame_ok: "disp_frame poll_frame"
  by (simp add: poll_frame_def disp_frame_def)

text \<open>The board is polled while the power key has a wish: it answers with that wish.\<close>

lemma poll_answered:
  assumes "disp_ok s" "Isr_j s = 0" "counter_send s = 0" "rx_buff_f1 s = 0" "power_key_state s = m" "m = 0 \<or> m = 1"
  obtains s' where "run_steps disp_step s (map D_Rx poll_frame @ [D_Uart_Check] @ replicate 9 D_Tx_Ready) = Some s'"
    "d_line_out s' = d_line_out s @ [0xF1, 0xF1, 2, 1, m, m + 3, 0x7E] @ take 2 (drop 7 (d_send_packet_buf s))"
    "power_key_state s' = 0xff" "disp_ok s'"
proof -
  define t where "t = disp_frame_in poll_frame s"
  have t: "disp_ok t" "rxd1_buff_cFlag t \<noteq> 0" "in_com_buff t ! 0 = 0xF1" "in_com_buff t ! 1 = 0xF1"
    using disp_frame_in_ok [OF assms(1) poll_frame_ok] by (simp_all add: t_def disp_frame_in_def poll_frame_def)
  obtain a where a: "redrawn (t\<lparr> rxd1_buff_cFlag := 0, in_com_buff := replicate 40 0 \<rparr>) a" "disp_ok a"
    "cmd_uart_check t = (if rx_buff_f1 a = 0 then report_keys a else Some a)"
    by (rule f1_frame [OF t])
  have f: "rx_buff_f1 a = 0" "power_key_state a = m" "d_send_packet_buf a = d_send_packet_buf s" "counter_send a = 0"
    "d_line_out a = d_line_out s"
    using redrawn_sel [OF a(1)] assms by (simp_all add: t_def disp_frame_in_def)
  have len: "length (d_send_packet_buf a) = 100" using a(2) by (simp add: disp_ok_def link_ok_def)
  define u where "u = txd1_buffer_send (a\<lparr> power_key_state := 0xff,
    d_send_packet_buf := [0xF1, 0xF1, 2, 1, m, 2 + 1 + m, 0x7E] @ drop 7 (d_send_packet_buf a), cmd_send_lenth := 7 \<rparr>)
    \<lparr> time_tick_cnt1 := 0 \<rparr>"
  have u: "cmd_uart_check t = Some u"
    using a(3) f(1,2) assms(6) len by (auto simp: report_keys_def report_def com_send_f1 u_def)
  have ok: "disp_ok u"
    using a(2) len by (simp add: u_def txd1_buffer_send_def) (simp add: disp_ok_def panel_ok_def link_ok_def)
  obtain v where v: "run_steps disp_step u (replicate 9 D_Tx_Ready) = Some v"
    "v = u\<lparr> d_line_out := d_line_out u @ take 9 (d_send_packet_buf u), counter_send := 0, txd1_buff_cFlag := 1,
      tx_irq := False, time_tick_cnt2 := 0, rs485_tx := False \<rparr>"
    using answer_leaves [of u] f(4) len by (simp add: u_def txd1_buffer_send_def)
  have "run_steps disp_step s (map D_Rx poll_frame @ [D_Uart_Check] @ replicate 9 D_Tx_Ready) = Some v"
    by (simp only: run_steps_append disp_frame_arrives [OF assms(1,2) poll_frame_ok] t_def [symmetric] bind.bind_lunit
        run_steps.simps disp_step.simps u v(1))
  moreover have "d_line_out v = d_line_out s @ [0xF1, 0xF1, 2, 1, m, m + 3, 0x7E] @ take 2 (drop 7 (d_send_packet_buf s))"
    by (simp add: v(2)) (simp add: u_def txd1_buffer_send_def f(3,5) add.commute)
  moreover have "power_key_state v = 0xff" by (simp add: v(2)) (simp add: u_def txd1_buffer_send_def)
  moreover have "disp_ok v" using ok unfolding v(2) by simp (simp add: disp_ok_def panel_ok_def link_ok_def)
  ultimately show thesis by (rule that)
qed

end
