(* ===== verification/Disp_Properties.thy ===== *)
theory Disp_Properties
  imports Disp_Frames Air_Properties
begin

text \<open>
  What the display board shows and what its keys bring about, together with the control board at the
  other end of the line.
\<close>

section \<open>The panel\<close>

text \<open>
  C23: Drawing the panel: what the LCD driver receives on its three pins puts exactly the digits of
  \<open>Ht1621Tab3\<close> with the icons of \<open>Ht1621Tab2\<close> into its 24 nibbles of display memory, whatever was there
  before; drawing fails, by reading outside the segment table, exactly when a digit exceeds 9.
\<close>

theorem panel_shows_tables:
  assumes "length (Ht1621Tab2 s) = 20" "length (Ht1621Tab3 s) = 11"
  shows "case Ht1621Display s of
      None \<Rightarrow> \<exists>d \<in> set (Ht1621Tab3 s). 9 < d
    | Some s' \<Rightarrow> (\<forall>d \<in> set (Ht1621Tab3 s). d \<le> 9) \<and>
        (\<exists>es. ht_bus s' = ht_bus s @ es \<and>
           map (fold lcd_write (ht_frames es) m) [0..<24] = panel_image (Ht1621Tab2 s') (Ht1621Tab3 s'))"
  using panel_drawn by (auto simp: Ht1621Display_eq [OF assms] out_writes_bus not_le simp del: map_map)

theorem panel_shows_tables_witness:
  "\<exists>s' es. Ht1621Display (disp0\<lparr> Ht1621Tab3 := [1, 0, 3, 5, 2, 0, 8, 4, 2, 9, 0] \<rparr>) = Some s' \<and> ht_bus s' = es \<and>
     fold lcd_write (ht_frames es) (\<lambda>_. []) 2 = nibble 0x0a"
proof -
  define s where "s = disp0\<lparr> Ht1621Tab3 := [1, 0, 3, 5, 2, 0, 8, 4, 2, 9, 0] \<rparr>"
  have len: "length (Ht1621Tab2 s) = 20" "length (Ht1621Tab3 s) = 11" "\<forall>d \<in> set (Ht1621Tab3 s). \<not> 9 < d" "ht_bus s = []"
    by (simp_all add: s_def disp0_def)
  with panel_shows_tables [of s "\<lambda>_. []"] obtain s' es where r: "Ht1621Display s = Some s'" "ht_bus s' = es"
    "map (fold lcd_write (ht_frames es) (\<lambda>_. [])) [0..<24] = panel_image (Ht1621Tab2 s') (Ht1621Tab3 s')"
    by (auto split: option.splits)
  have "Ht1621Tab3 s' = Ht1621Tab3 s" "Ht1621Tab2 s' ! 1 = 0"
    using r(1) len by (auto simp: Ht1621Display_eq s_def disp0_def panel_icons_def pin6_Scan_def Ht1621_on_disp_def Ht1621_off_disp_def
      icon_chain_def tab2_if_def tab2_mix0_def tab2_mix12_def para_of_bytes_def be16_def)
  then have "panel_image (Ht1621Tab2 s') (Ht1621Tab3 s') ! 2 = nibble 0x0a"
    by (simp add: panel_image_def seg_def s_def Ht1621Tab1_def)
  moreover have "panel_image (Ht1621Tab2 s') (Ht1621Tab3 s') ! 2 = fold lcd_write (ht_frames es) (\<lambda>_. []) 2"
    by (simp add: r(3) [symmetric] numeral_2_eq_2)
  ultimately show ?thesis using r by (simp add: s_def)
qed

section \<open>Every run\<close>

text \<open>
  C27: From the start of \<open>main\<close>, any sequence of interrupts, key scans, polls and rounds is defined and
  keeps the tables, buffers and counters well formed, provided the plain keys are released and the
  control board sends readings of at most 9999.
\<close>

theorem display_never_stuck:
  assumes "inputs_ok disp_step disp_event_ok (disp_start disp0) es"
  shows "\<exists>s. run_steps disp_step (disp_start disp0) es = Some s \<and> disp_ok s"
  using display.run_safe [OF disp_start_ok assms] .

theorem display_never_stuck_witness:
  "\<exists>s. run_steps disp_step (disp_start disp0) [D_Rx 0xF2, D_Tick, D_Key_Scan (only_power False), D_House] = Some s \<and> disp_ok s"
  by (rule display_never_stuck) (simp add: only_power_ok split: option.splits)

section \<open>A state frame of the control board\<close>

text \<open>The frame at the display board: its fields in the working data of the control board.\<close>

lemma display_frame_fields:
  "state_data (display_frame w b @ rest) q = q\<lparr>
     house1_co2 := house_co2 (device_work_data b) 0, house1_pm2_5 := house_pm25 (device_work_data b) 0,
     house2_co2 := house_co2 (device_work_data b) 1, house2_pm2_5 := house_pm25 (device_work_data b) 1,
     house3_co2 := house_co2 (device_work_data b) 2, house3_pm2_5 := house_pm25 (device_work_data b) 2,
     house4_co2 := house_co2 (device_work_data b) 3, house4_pm2_5 := house_pm25 (device_work_data b) 3,
     house5_co2 := house_co2 (device_work_data b) 4, house5_pm2_5 := house_pm25 (device_work_data b) 4,
     fault_state := fault_state (device_work_data b), device_power_state := device_power_state (device_work_data b),
     device_mode := device_mode (device_work_data b), wind_speed_state := wind_speed_state (device_work_data b),
     high_pressur_state := high_pressur_state (device_work_data b),
     pht_work_state := pht_work_state (device_work_data b) \<rparr>"
  by (simp add: state_data_def display_frame_def Let_def device_data_def house_fields del: One_nat_def)

lemma display_frame_ok: "disp_frame (display_frame w b)"
  by (simp add: disp_frame_def display_frame_def Let_def device_data_def)

text \<open>The readings of the control board fit the panel.\<close>

definition fits :: "board \<Rightarrow> bool" where
  "fits b \<longleftrightarrow> (\<forall>j \<in> {0, 1, 2, 3, 4}. house_pm25 (device_work_data b) j \<le> 9999 \<and> house_co2 (device_work_data b) j \<le> 9999)"

lemma fits_readings:
  assumes "fits b" shows "readings_ok (state_data (display_frame w b @ rest) q)"
  unfolding display_frame_fields readings_ok_def
  using assms by (simp add: fits_def house_readings_def)

lemma state_frame_taken:
  assumes "disp_ok s" "Isr_j s = 0" "fits b"
  obtains a s' rest where
    "run_steps disp_step s (map D_Rx (display_frame w b) @ [D_Uart_Check]) = Some s'"
    "d_fault_check a = Some s'" "drawn a s'" "disp_ok a"
    "shown_as (state_data (display_frame w b @ rest) (d_device_work_data s)) (d_device_work_data a)"
    "house_id a = house_id s" "time_tick_cnt a = time_tick_cnt s"
proof -
  define fr where "fr = display_frame w b"
  define t where "t = disp_frame_in fr s"
  have fr: "disp_frame fr" "length fr = 33" "fr ! 0 = 0xF2" "fr ! 1 = 0xF2"
    by (simp_all add: fr_def display_frame_ok) (simp_all add: display_frame_def Let_def)
  have t: "disp_ok t" "rxd1_buff_cFlag t \<noteq> 0" "in_com_buff t ! 0 = 0xF2" "in_com_buff t ! 1 = 0xF2"
    using disp_frame_in_ok [OF assms(1) fr(1)] fr by (simp_all add: t_def disp_frame_in_def nth_append)
  have r: "readings_ok (state_data (in_com_buff t) (d_device_work_data t))"
    using fits_readings [OF assms(3)] by (simp add: t_def disp_frame_in_def fr_def)
  obtain a s' where a: "redrawn (t\<lparr> rxd1_buff_cFlag := 0, in_com_buff := replicate 40 0 \<rparr>) a" "disp_ok a"
    "shown_as (state_data (in_com_buff t) (d_device_work_data t)) (d_device_work_data a)"
    "cmd_uart_check t = Some s'" "d_fault_check a = Some s'" "drawn a s'"
    by (rule f2_frame [OF t r])
  have "run_steps disp_step s (map D_Rx fr @ [D_Uart_Check]) = Some s'"
    by (simp add: run_steps_append disp_frame_arrives [OF assms(1,2) fr(1)] t_def [symmetric] a(4))
  moreover have "shown_as (state_data (fr @ drop 33 (in_com_buff s)) (d_device_work_data s)) (d_device_work_data a)"
    using a(3) by (simp add: t_def disp_frame_in_def fr(2))
  moreover have "house_id a = house_id s" "time_tick_cnt a = time_tick_cnt s"
    using redrawn_sel [OF a(1)] by (simp_all add: t_def disp_frame_in_def)
  ultimately show thesis using that a fr_def by blast
qed

section \<open>Fault icons\<close>

definition lit :: "disp \<Rightarrow> nat \<Rightarrow> bool" where
  "lit s k \<longleftrightarrow> bit (Ht1621Tab2 s ! k) 0"

text \<open>The entry of the icon table for a fault bit of this board.\<close>

definition slot :: "u8 \<Rightarrow> nat" where
  "slot i = (if i = 0 then 11 else if i = 1 then 10 else if i = 2 then 9 else if i = 3 then 17 else if i = 4 then 8 else 0)"

abbreviation (input) fault_slots :: "nat set" where "fault_slots \<equiv> {8, 9, 10, 11, 17}"

lemma lit_on_off:
  assumes "length (Ht1621Tab2 s) = 20" "k \<in> fault_slots"
  shows "lit (fault_on i s) k \<longleftrightarrow> k = slot i \<or> lit s k"
    "lit (fault_off i s) k \<longleftrightarrow> k \<noteq> slot i \<and> lit s k"
  using assms
  by (auto simp: lit_def slot_def fault_on_def fault_off_def Ht1621_on_disp_def Ht1621_off_disp_def icon_chain_def
      tab2_if_def tab2_mix0_def tab2_mix12_def bit_simps)

lemma lit_display:
  assumes "panel_ok s" "Ht1621Display s = Some t" "k \<in> fault_slots" shows "lit t k = lit s k"
  using assms
  by (auto simp: panel_ok_def Ht1621Display_eq lit_def panel_icons_def pin6_Scan_def Ht1621_on_disp_def Ht1621_off_disp_def
      icon_chain_def tab2_if_def tab2_mix0_def tab2_mix12_def split: if_splits)

lemma fault_step:
  assumes "panel_ok s"
  obtains t where "(if d_fault_get_bit i tmp \<noteq> 0 then Ht1621Display (fault_on i s) else Some (fault_off i s)) = Some t"
    "panel_ok t" "\<And>k. k \<in> fault_slots \<Longrightarrow> lit t k = (if k = slot i then d_fault_get_bit i tmp \<noteq> 0 else lit s k)"
proof (cases "d_fault_get_bit i tmp \<noteq> 0")
  case True
  have p: "panel_ok (fault_on i s)" using assms fault_ops_drawn(1) [of s i] by (simp add: drawn_def)
  then obtain t where t: "Ht1621Display (fault_on i s) = Some t" "drawn (fault_on i s) t" by (rule Display_drawn)
  show thesis
  proof (rule that [of t])
    show "panel_ok t" using t(2) p by (simp add: drawn_def)
    show "lit t k = (if k = slot i then d_fault_get_bit i tmp \<noteq> 0 else lit s k)" if "k \<in> fault_slots" for k
      using lit_display [OF p t(1) that] lit_on_off(1) [of s k i] that assms True by (simp add: panel_ok_def)
  qed (use True t in simp)
next
  case False
  have p: "panel_ok (fault_off i s)" using assms fault_ops_drawn(2) [of s i] by (simp add: drawn_def)
  show thesis
  proof (rule that [of "fault_off i s"])
    show "lit (fault_off i s) k = (if k = slot i then d_fault_get_bit i tmp \<noteq> 0 else lit s k)" if "k \<in> fault_slots" for k
      using lit_on_off(2) [of s k i] that assms False by (simp add: panel_ok_def)
  qed (use False p in simp_all)
qed

definition fault_bit_of :: "nat \<Rightarrow> nat" where
  "fault_bit_of k = (if k = 11 then 0 else if k = 10 then 1 else if k = 9 then 2 else if k = 17 then 3 else 4)"

lemma slot_iff:
  assumes "k \<in> fault_slots" "unat i < 8" shows "k = slot i \<longleftrightarrow> fault_bit_of k = unat i"
proof -
  have e: "(i = c) = (unat i = unat c)" for c :: u8 by (simp add: word_unat_eq_iff)
  show ?thesis using assms(1) unfolding slot_def e by (auto simp: fault_bit_of_def)
qed

lemma d_fault_get_bit_iff:
  assumes "unat i < 8" shows "d_fault_get_bit i tmp \<noteq> 0 \<longleftrightarrow> bit tmp (unat i)"
  using fault_get_bit_iff [OF assms, of "p\<lparr> fault_state := tmp \<rparr>" for p]
  by (simp add: d_fault_get_bit_def fault_get_bit_def)

lemma fault_loop_lit:
  assumes "panel_ok s" "fault_loop tmp i n s = Some s'" "unat i + n \<le> 8" "k \<in> fault_slots"
  shows "lit s' k = (if unat i \<le> fault_bit_of k \<and> fault_bit_of k < unat i + n then bit tmp (fault_bit_of k) else lit s k)"
  using assms(1-3)
proof (induction n arbitrary: i s)
  case 0
  then show ?case by auto
next
  case (Suc n)
  obtain t where t: "(if d_fault_get_bit i tmp \<noteq> 0 then Ht1621Display (fault_on i s) else Some (fault_off i s)) = Some t"
    "panel_ok t" "\<And>k. k \<in> fault_slots \<Longrightarrow> lit t k = (if k = slot i then d_fault_get_bit i tmp \<noteq> 0 else lit s k)"
    using fault_step [OF Suc.prems(1)] by blast
  have r: "fault_loop tmp (i + 1) n t = Some s'" using Suc.prems(2) t(1) by (simp split del: if_split)
  have i: "unat i < 8" "unat (i + 1) = Suc (unat i)" using Suc.prems(3) by (simp_all add: unat_word_ariths)
  have "lit t k = (if fault_bit_of k = unat i then bit tmp (unat i) else lit s k)"
    using t(3) [OF assms(4)] slot_iff [OF assms(4) i(1)] d_fault_get_bit_iff [OF i(1)] by simp
  then show ?case
    using Suc.IH [OF t(2) r] Suc.prems(3) i by (auto simp del: add_Suc)
qed

lemma fault_check_lit:
  assumes "panel_ok s" "d_fault_check s = Some s'" "k \<in> fault_slots"
  shows "lit s' k = bit (fault_state (d_device_work_data s)) (fault_bit_of k)"
proof -
  define tmp where "tmp = fault_state (d_device_work_data s)"
  define t where "t = (if d_fault_get_bit 0 tmp \<noteq> 0 then fault_on 0 s else fault_off 0 s)"
  have t: "panel_ok t" "lit t 11 = bit tmp 0"
    using assms(1) fault_ops_drawn [of s 0] lit_on_off [of s 11 0] d_fault_get_bit_iff [of 0 tmp]
    by (auto simp: t_def drawn_def panel_ok_def slot_def)
  have r: "fault_loop tmp 1 5 t = Some s'"
    using assms(2) by (simp add: d_fault_check_def Let_def tmp_def t_def fault_on_def fault_off_def split: if_splits)
  show ?thesis
    using fault_loop_lit [OF t(1) r _ assms(3)] t(2) assms(3) by (auto simp: tmp_def fault_bit_of_def)
qed

text \<open>
  C26: The state frame of the control board, whatever its checksum, is taken over by the display board:
  power and mode always, speed, filter and lamp where they are legal values; the fault icons show the
  fault bits, with \<open>RUN\<close> and \<open>CLEAN\<close> exchanged because the two boards number them differently.
\<close>

theorem display_takes_state:
  assumes "disp_ok s" "Isr_j s = 0" "board_wf b" "length stk = 35" "fits b"
  shows "\<exists>b' fr s'. set_display_board_data w stk b = Some b' \<and>
    trace b' = trace b @ [Take MODBUS_MUTEX, Rs485_Send fr, Release MODBUS_MUTEX] \<and>
    run_steps disp_step s (map D_Rx fr @ [D_Uart_Check]) = Some s' \<and>
    (let p = device_work_data b; q = d_device_work_data s' in
       device_power_state q = device_power_state p \<and> device_mode q = device_mode p \<and>
       (wind_speed_state p \<le> 3 \<longrightarrow> wind_speed_state q = wind_speed_state p) \<and>
       (high_pressur_state p \<le> 1 \<longrightarrow> high_pressur_state q = high_pressur_state p) \<and>
       (pht_work_state p \<le> 1 \<longrightarrow> pht_work_state q = pht_work_state p) \<and>
       lit s' 11 = (fault_get_bit FAULT_ESD_BIT p \<noteq> 0) \<and> lit s' 10 = (fault_get_bit FAULT_MOTOR_BIT p \<noteq> 0) \<and>
       lit s' 9 = (fault_get_bit FAULT_PHT_BIT p \<noteq> 0) \<and> lit s' 8 = (fault_get_bit FAULT_RUN_BIT p \<noteq> 0) \<and>
       lit s' 17 = (fault_get_bit FAULT_CLEAN_BIT p \<noteq> 0))"
proof -
  obtain b' where b': "set_display_board_data w stk b = Some b'"
    "trace b' = trace b @ [Take MODBUS_MUTEX, Rs485_Send (display_frame w b), Release MODBUS_MUTEX]"
    using set_display_board_data_eq [OF assms(3,4), of w] by simp
  obtain a s' rest where s': "run_steps disp_step s (map D_Rx (display_frame w b) @ [D_Uart_Check]) = Some s'"
    "d_fault_check a = Some s'" "drawn a s'" "disp_ok a"
    "shown_as (state_data (display_frame w b @ rest) (d_device_work_data s)) (d_device_work_data a)"
    by (rule state_frame_taken [OF assms(1,2,5)])
  have d: "d_device_work_data s' = d_device_work_data a" using s'(3) by (simp add: drawn_def)
  obtain v h t m where q: "d_device_work_data a = (state_data (display_frame w b @ rest) (d_device_work_data s))
      \<lparr> wind_speed_state := v, high_pressur_state := h, pht_work_state := t, timing_state := m \<rparr>"
    "wind_speed_state (device_work_data b) \<le> 3 \<longrightarrow> v = wind_speed_state (device_work_data b)"
    "high_pressur_state (device_work_data b) \<le> 1 \<longrightarrow> h = high_pressur_state (device_work_data b)"
    "pht_work_state (device_work_data b) \<le> 1 \<longrightarrow> t = pht_work_state (device_work_data b)"
    using s'(5) by (auto simp: shown_as_def display_frame_fields)
  have f: "fault_state (d_device_work_data a) = fault_state (device_work_data b)"
    by (simp add: q(1) display_frame_fields)
  have "lit s' k = bit (fault_state (device_work_data b)) (fault_bit_of k)" if "k \<in> fault_slots" for k
    using fault_check_lit [OF disp_ok_panel [OF s'(4)] s'(2) that] f by simp
  with b' s'(1) q d show ?thesis
    by (auto simp: Let_def display_frame_fields fault_get_bit_iff fault_bit_of_def intro!: exI)
qed

lemma board0_board: "board_wf board0"
  using board0_ok by (simp add: board_ok_def)

lemma disp0_ok: "disp_ok disp0" "Isr_j disp0 = 0"
  by (simp_all add: disp_ok_def panel_ok_def link_ok_def disp0_def readings_ok_def house_readings_def para_of_bytes_def be16_def)

theorem display_takes_state_witness:
  "\<exists>b' fr s'. set_display_board_data world0 (replicate 35 0) board0 = Some b' \<and>
    trace b' = trace board0 @ [Take MODBUS_MUTEX, Rs485_Send fr, Release MODBUS_MUTEX] \<and>
    run_steps disp_step disp0 (map D_Rx fr @ [D_Uart_Check]) = Some s' \<and> \<not> lit s' 8"
proof -
  have "fits board0" by (simp add: fits_def house_pm25_def house_co2_def board0_def byte_2_to_short_def be16_def)
  moreover have "fault_get_bit FAULT_RUN_BIT (device_work_data board0) = 0"
    by (simp add: board0_def fault_get_bit_def para_of_bytes_def)
  ultimately show ?thesis
    using display_takes_state [of disp0 board0 "replicate 35 0" world0] disp0_ok board0_board by (auto simp: Let_def)
qed

section \<open>From the sensor to the digits\<close>

text \<open>The number that digits stand for.\<close>

definition number :: "u8 list \<Rightarrow> nat" where
  "number ds = fold (\<lambda>d n. 10 * n + unat d) ds 0"

lemma number_digits:
  assumes "w \<le> 9999" shows "number (digits w) = unat w"
proof -
  define n where "n = unat w"
  have n: "n \<le> 9999" using assms by (simp add: word_le_nat_alt n_def)
  then have "n div 1000 < 256" "n mod 1000 div 100 < 256" "n mod 1000 mod 100 div 10 < 256" "n mod 1000 mod 100 mod 10 < 256"
    by auto
  then have u: "unat (ucast (w div 1000) :: u8) = n div 1000" "unat (ucast (w mod 1000 div 100) :: u8) = n mod 1000 div 100"
    "unat (ucast (w mod 1000 mod 100 div 10) :: u8) = n mod 1000 mod 100 div 10"
    "unat (ucast (w mod 1000 mod 100 mod 10) :: u8) = n mod 1000 mod 100 mod 10"
    by (simp_all add: unsigned_ucast_eq take_bit_eq_mod unat_div_distrib unat_mod_distrib n_def)
  have "number (digits w) = 10 * (10 * (10 * (n div 1000) + n mod 1000 div 100) + n mod 1000 mod 100 div 10) + n mod 1000 mod 100 mod 10"
    by (simp only: number_def digits_def fold_simps u mult_0_right add_0)
  also have "\<dots> = n"
  proof -
    define m where "m = n mod 1000"
    define l where "l = m mod 100"
    define a b c d where "a = n div 1000" "b = m div 100" "c = l div 10" "d = l mod 10"
    have "n = 1000 * a + m" "m = 100 * b + l" "l = 10 * c + d"
      by (simp_all add: m_def l_def a_b_c_d_def)
    then show ?thesis unfolding m_def [symmetric] l_def [symmetric] a_b_c_d_def [symmetric] by simp
  qed
  finally show ?thesis by (simp add: n_def)
qed

lemma digits_list: "[digits w ! 0, digits w ! 1, digits w ! 2, digits w ! 3] = digits w"
  by (simp add: digits_def)

text \<open>A round shows the next house, if it has a reading.\<close>

lemma house_shown:
  assumes "length (Ht1621Tab3 s) = 11" "h = (if house_id s \<ge> 5 then 1 else house_id s + 1)"
    "house_readings h (d_device_work_data s) = (pm, co2)" "\<not> (pm = 0 \<and> co2 = 0)" "1000 < time_tick_cnt s"
  defines "t \<equiv> Ht1621Tab3 (house_round s)"
  shows "[t ! 0, t ! 1, t ! 2, t ! 3] = digits pm" "[t ! 10, t ! 9, t ! 8, t ! 7] = digits co2" "t ! 4 = h"
proof -
  have t: "t = (Ht1621Tab3 s)[4 := h, 0 := digits pm ! 0, 1 := digits pm ! 1, 2 := digits pm ! 2,
      3 := digits pm ! 3, 10 := digits co2 ! 0, 9 := digits co2 ! 1, 8 := digits co2 ! 2, 7 := digits co2 ! 3]"
    using assms(3-5) house_loop_d.simps(2) [of 4 s]
    by (auto simp: t_def house_round_def Let_def assms(2) [symmetric] simp del: house_loop_d.simps)
  have "[t ! 0, t ! 1, t ! 2, t ! 3] = [digits pm ! 0, digits pm ! 1, digits pm ! 2, digits pm ! 3]"
    "[t ! 10, t ! 9, t ! 8, t ! 7] = [digits co2 ! 0, digits co2 ! 1, digits co2 ! 2, digits co2 ! 3]" "t ! 4 = h"
    unfolding t using assms(1) by simp_all
  then show "[t ! 0, t ! 1, t ! 2, t ! 3] = digits pm" "[t ! 10, t ! 9, t ! 8, t ! 7] = digits co2" "t ! 4 = h"
    by (simp_all only: digits_list)
qed

lemma data_readings:
  assumes "j < 5"
  shows "house_readings (of_nat (Suc j)) (state_data (display_frame w b @ rest) q) =
    (house_pm25 (device_work_data b) j, house_co2 (device_work_data b) j)"
proof -
  have "j = 0 \<or> j = 1 \<or> j = 2 \<or> j = 3 \<or> j = 4" using assms by auto
  then show ?thesis by (elim disjE) (simp_all add: display_frame_fields house_readings_def del: One_nat_def)
qed

lemma shown_readings: "shown_as p q \<Longrightarrow> house_readings h q = house_readings h p"
  unfolding shown_as_def house_readings_def
  by (elim conjE, erule ssubst [where P = "\<lambda>q. _ q = _"]) simp

lemma small_reading: "w \<le> 9999 \<Longrightarrow> seen_as w = w"
proof -
  assume "w \<le> 9999"
  then have n: "unat w \<le> 9999" by (simp add: word_le_nat_alt)
  then have "\<not> bit (unat w) 15" by (simp add: bit_iff_odd)
  then show ?thesis by (simp add: seen_as_def bit_unsigned_iff)
qed

text \<open>
  C24: From a sensor to the digits: the CO2 and PM2.5 values that slave \<open>11 + j\<close> answers, up to 9999
  and not both 0, stand as decimal numbers on the panel after the control board has sent its state and
  the display board has made a round, with the number of the house beside them; the two byte swaps on
  the way cancel.
\<close>

theorem sensor_to_panel:
  assumes "j < 5" "b1 = sysmonitor_slave (11 + j) MB_MRE_NO_ERR hold b" "board_wf b" "fits b" "length stk = 35"
    and "co2 = hold ! (10 + j) ! 0" "pm = hold ! (10 + j) ! 1" "co2 \<le> 9999" "pm \<le> 9999" "\<not> (pm = 0 \<and> co2 = 0)"
    and "disp_ok s" "Isr_j s = 0" "1000 < time_tick_cnt s"
    and "(of_nat (Suc j) :: u8) = (if house_id s \<ge> 5 then 1 else house_id s + 1)"
  shows "\<exists>b2 fr s'. set_display_board_data w stk b1 = Some b2 \<and>
    trace b2 = trace b1 @ [Take MODBUS_MUTEX, Rs485_Send fr, Release MODBUS_MUTEX] \<and>
    run_steps disp_step s (map D_Rx fr @ [D_Uart_Check, D_House]) = Some s' \<and>
    (let t = Ht1621Tab3 s' in
       number [t ! 0, t ! 1, t ! 2, t ! 3] = unat pm \<and> number [t ! 10, t ! 9, t ! 8, t ! 7] = unat co2 \<and>
       t ! 4 = of_nat (Suc j))"
proof -
  have st: "house_co2 (device_work_data b1) j = co2" "house_pm25 (device_work_data b1) j = pm"
    "\<forall>k < 5. k \<noteq> j \<longrightarrow> house_co2 (device_work_data b1) k = house_co2 (device_work_data b) k \<and>
       house_pm25 (device_work_data b1) k = house_pm25 (device_work_data b) k"
    using sensor_stored [OF assms(1,2)] small_reading assms(6-9) by simp_all
  have wf: "board_wf b1"
    using assms(2,3) by (simp add: board_wf_def sysmonitor_slave_def Let_def log_def)
  have fits: "fits b1" unfolding fits_def
  proof
    fix k :: nat assume "k \<in> {0, 1, 2, 3, 4}"
    then show "house_pm25 (device_work_data b1) k \<le> 9999 \<and> house_co2 (device_work_data b1) k \<le> 9999"
      using st assms(4,8,9) by (cases "k = j") (auto simp: fits_def)
  qed
  obtain b2 where b2: "set_display_board_data w stk b1 = Some b2"
    "trace b2 = trace b1 @ [Take MODBUS_MUTEX, Rs485_Send (display_frame w b1), Release MODBUS_MUTEX]"
    using set_display_board_data_eq [OF wf assms(5), of w] by simp
  obtain a t rest where t: "run_steps disp_step s (map D_Rx (display_frame w b1) @ [D_Uart_Check]) = Some t"
    "drawn a t" "disp_ok a"
    "shown_as (state_data (display_frame w b1 @ rest) (d_device_work_data s)) (d_device_work_data a)"
    "house_id a = house_id s" "time_tick_cnt a = time_tick_cnt s"
    by (rule state_frame_taken [OF assms(11,12) fits])
  have h: "house_id t = house_id s" "time_tick_cnt t = time_tick_cnt s" "d_device_work_data t = d_device_work_data a"
    using redrawn_sel [of a t] t(2,5,6) by (simp_all add: drawn_def)
  have r: "house_readings (of_nat (Suc j)) (d_device_work_data t) = (pm, co2)"
    using shown_readings [OF t(4)] data_readings [OF assms(1)] st h(3) by simp
  have len: "length (Ht1621Tab3 t) = 11"
    using disp_ok_drawn [OF t(3,2)] by (simp add: disp_ok_def panel_ok_def)
  define T where "T = Ht1621Tab3 (house_round t)"
  have "[T ! 0, T ! 1, T ! 2, T ! 3] = digits pm" "[T ! 10, T ! 9, T ! 8, T ! 7] = digits co2" "T ! 4 = of_nat (Suc j)"
    unfolding T_def by (rule house_shown [OF len _ r assms(10)]; use assms(13,14) h in simp)+
  then have "number [T ! 0, T ! 1, T ! 2, T ! 3] = unat pm" "number [T ! 10, T ! 9, T ! 8, T ! 7] = unat co2"
    using number_digits assms(8,9) by simp_all
  moreover have "run_steps disp_step s (map D_Rx (display_frame w b1) @ [D_Uart_Check, D_House]) = Some (house_round t)"
    using t(1) by (simp add: run_steps_append bind_eq_Some_conv) metis
  ultimately show ?thesis
    using b2 \<open>T ! 4 = of_nat (Suc j)\<close> by (auto simp: T_def Let_def)
qed

theorem sensor_to_panel_witness:
  "\<exists>b2 fr s'. set_display_board_data world0 (replicate 35 0)
      (sysmonitor_slave 12 MB_MRE_NO_ERR (replicate 16 [842, 35]) board0) = Some b2 \<and>
    last (butlast (trace b2)) = Rs485_Send fr \<and>
    run_steps disp_step (disp0\<lparr> time_tick_cnt := 1001, house_id := 1 \<rparr>) (map D_Rx fr @ [D_Uart_Check, D_House]) = Some s' \<and>
    number [Ht1621Tab3 s' ! 10, Ht1621Tab3 s' ! 9, Ht1621Tab3 s' ! 8, Ht1621Tab3 s' ! 7] = 842"
proof -
  define d where "d = disp0\<lparr> time_tick_cnt := 1001, house_id := 1 \<rparr>"
  define hold :: "u16 list list" where "hold = replicate 16 [842, 35]"
  define b1 where "b1 = sysmonitor_slave (11 + 1) MB_MRE_NO_ERR hold board0"
  have f: "fits board0" by (simp add: fits_def house_pm25_def house_co2_def board0_def byte_2_to_short_def be16_def)
  have d: "disp_ok d" "Isr_j d = 0" "1000 < time_tick_cnt d" "(of_nat (Suc 1) :: u8) = (if house_id d \<ge> 5 then 1 else house_id d + 1)"
    using disp0_ok by (simp_all add: d_def disp_ok_def panel_ok_def link_ok_def word_le_nat_alt)
  have h: "842 = hold ! (10 + 1) ! 0" "35 = hold ! (10 + 1) ! 1" by (simp_all add: hold_def del: One_nat_def)
  have "(1 :: nat) < 5" "(842 :: u16) \<le> 9999" "(35 :: u16) \<le> 9999" "\<not> ((35 :: u16) = 0 \<and> (842 :: u16) = 0)" by simp_all
  note s = sensor_to_panel [OF this(1) b1_def board0_board f length_replicate h this(2-4) d, of world0 0]
  obtain b2 fr s' where "set_display_board_data world0 (replicate 35 0) b1 = Some b2"
    "trace b2 = trace b1 @ [Take MODBUS_MUTEX, Rs485_Send fr, Release MODBUS_MUTEX]"
    "run_steps disp_step d (map D_Rx fr @ [D_Uart_Check, D_House]) = Some s'"
    "number [Ht1621Tab3 s' ! 10, Ht1621Tab3 s' ! 9, Ht1621Tab3 s' ! 8, Ht1621Tab3 s' ! 7] = unat (842 :: u16)"
    using s by (auto simp: Let_def)
  moreover have "11 + 1 = (12 :: nat)" by simp
  ultimately show ?thesis
    unfolding b1_def d_def hold_def by (intro exI [of _ b2] exI [of _ fr] exI [of _ s']) (simp add: butlast_append)
qed

section \<open>From the key to the control board\<close>

text \<open>What the control board does with the answer of the display board to its poll.\<close>

lemma poll_received:
  assumes "board_wf b" "world_wf w" "w_err w = MB_MRE_REV_DATA"
    and "take 7 (w_rcv w) = [0xF1, 0xF1, 2, 1, m, c, 0x7E]"
  shows "get_display_board_data w b = Some (log (Release MODBUS_MUTEX)
    (save_if_changed (airclean_power_onoff (if m \<noteq> 0 then 1 else 0) (upd_data (device_power_state_update (\<lambda>_. if m \<noteq> 0 then 1 else 0))
      (b\<lparr> rs485_send_buf_not_modbus := poll_frame @ drop 7 (rs485_send_buf_not_modbus b),
         trace := trace b @ [Take MODBUS_MUTEX, Rs485_Send poll_frame], ucMasterRTURcvBuf := w_rcv w, device_work_data_bak := device_work_data b \<rparr>)))))"
proof -
  have "w_rcv w ! i = [0xF1, 0xF1, 2, 1, m, c, 0x7E] ! i" if "i < 7" for i
    using assms(4) that nth_take [of i 7 "w_rcv w"] by simp
  then have r: "w_rcv w ! 0 = 0xF1" "w_rcv w ! Suc 0 = 0xF1" "w_rcv w ! 2 = 2" "w_rcv w ! 4 = m" "w_rcv w ! 6 = 0x7E"
    by (simp_all add: eval_nat_numeral)
  show ?thesis
    using assms(1,3) r
    by (simp add: get_display_board_data_def bus_request_def log_def Let_def poll_frame_def set_device_work_mode_def
        work_mode_switch_def)
qed

lemma power_onoff_effect:
  "m \<le> 1 \<Longrightarrow> device_power_state (device_work_data (airclean_power_onoff m b)) = m"
  "trace (airclean_power_onoff m b) = trace b"
  by (auto simp: airclean_power_onoff_def board_simps Let_def u8_le_nums(1) device_sys_para_save_def device_sys_para_get_def)

lemma save_if_changed_other:
  "trace (save_if_changed b) = trace b" "GPIOB_ODR (save_if_changed b) = GPIOB_ODR b"
  by (simp_all add: save_if_changed_def device_sys_para_save_def)

text \<open>
  C25: A press of the power key of 3 to 401 samples is carried out by the control board. From a display board
  with idle keys and no answer under way, the key is scanned, pressed and released; polled the next time, the
  board answers with the wish for the other power state, seven bytes and two stale ones; and a control board
  whose poll receives exactly these bytes switches to that state, with its outputs off if it is off.
\<close>

theorem power_key_executed:
  fixes s :: disp
  defines "wish \<equiv> (if device_power_state (d_device_work_data s) = 0 then 1 else 0)"
  defines "reply \<equiv> [0xF1, 0xF1, 2, 1, wish, wish + 3, 0x7E] @ take 2 (drop 7 (d_send_packet_buf s))"
  assumes "disp_ok s" "Isr_j s = 0" "counter_send s = 0" "rx_buff_f1 s = 0"
    and "main_fsm s = fsm 0 0 0" "power_fsm s = fsm 0 0 0" "3 \<le> n" "n < 402"
    and "board_wf b" "world_wf w" "w_err w = MB_MRE_REV_DATA" "take (length reply) (w_rcv w) = reply"
  shows "\<exists>s' b'. run_steps disp_step s
      (map (\<lambda>up. D_Key_Scan (only_power up)) (replicate n False @ replicate 13 True) @
       map D_Rx poll_frame @ [D_Uart_Check] @ replicate 9 D_Tx_Ready) = Some s' \<and>
    d_line_out s' = d_line_out s @ reply \<and> power_key_state s' = 0xff \<and>
    get_display_board_data w b = Some b' \<and>
    trace b' = trace b @ [Take MODBUS_MUTEX, Rs485_Send poll_frame, Release MODBUS_MUTEX] \<and>
    device_power_state (device_work_data b') = wish \<and> (wish = 0 \<longrightarrow> outputs_off b')"
proof -
  define t where "t = s\<lparr> KeyState := KeyUp, d_time := 0, power_key_state := wish \<rparr>"
  have p: "run_steps disp_step s (map (\<lambda>up. D_Key_Scan (only_power up)) (replicate n False @ replicate 13 True)) = Some t"
    using power_pressed [OF assms(7-10)] by (simp add: t_def wish_def)
  have t: "disp_ok t" "Isr_j t = 0" "counter_send t = 0" "rx_buff_f1 t = 0" "power_key_state t = wish" "wish = 0 \<or> wish = 1"
    using assms(3-6) by (simp_all add: t_def wish_def)
  obtain s' where s': "run_steps disp_step t (map D_Rx poll_frame @ [D_Uart_Check] @ replicate 9 D_Tx_Ready) = Some s'"
    "d_line_out s' = d_line_out t @ [0xF1, 0xF1, 2, 1, wish, wish + 3, 0x7E] @ take 2 (drop 7 (d_send_packet_buf t))"
    "power_key_state s' = 0xff"
    by (rule poll_answered [OF t])
  have "take 7 (w_rcv w) = take 7 (take (length reply) (w_rcv w))"
    by (simp add: reply_def min_def)
  then have r: "take 7 (w_rcv w) = [0xF1, 0xF1, 2, 1, wish, wish + 3, 0x7E]"
    unfolding assms(14) by (simp add: reply_def)
  have w: "(if wish \<noteq> 0 then 1 else 0 :: u8) = wish" using t(6) by auto
  have o: "outputs_off (save_if_changed (airclean_power_onoff 0 c)\<lparr> trace := e \<rparr>)" for c e
    using power_off_effect(1) [of c] by (simp add: outputs_off_def save_if_changed_other)
  have "\<exists>b'. get_display_board_data w b = Some b' \<and>
      trace b' = trace b @ [Take MODBUS_MUTEX, Rs485_Send poll_frame, Release MODBUS_MUTEX] \<and>
      device_power_state (device_work_data b') = wish \<and> (wish = 0 \<longrightarrow> outputs_off b')"
    using poll_received [OF assms(11-13) r] o unfolding w
    by (auto simp: save_if_changed_other power_onoff_effect log_def wish_def)
  moreover have "run_steps disp_step s
      (map (\<lambda>up. D_Key_Scan (only_power up)) (replicate n False @ replicate 13 True) @
       map D_Rx poll_frame @ [D_Uart_Check] @ replicate 9 D_Tx_Ready) = Some s'"
    by (simp only: run_steps_append [of _ _ "map (\<lambda>up. D_Key_Scan (only_power up)) (replicate n False @ replicate 13 True)"]
        p s'(1) bind.bind_lunit)
  moreover have "d_line_out s' = d_line_out s @ reply" by (simp add: s'(2) reply_def) (simp add: t_def)
  ultimately show ?thesis using s'(3) by blast
qed

theorem power_key_executed_witness:
  "\<exists>s' b'. run_steps disp_step disp0
      (map (\<lambda>up. D_Key_Scan (only_power up)) (replicate 50 False @ replicate 13 True) @
       map D_Rx poll_frame @ [D_Uart_Check] @ replicate 9 D_Tx_Ready) = Some s' \<and>
    d_line_out s' = d_line_out disp0 @ [0xF1, 0xF1, 2, 1, 1, 4, 0x7E, 0, 0] \<and> power_key_state s' = 0xff \<and>
    get_display_board_data (world0\<lparr> w_err := MB_MRE_REV_DATA, w_rcv := [0xF1, 0xF1, 2, 1, 1, 4, 0x7E, 0, 0] @ replicate 247 0 \<rparr>)
      board0 = Some b' \<and>
    trace b' = [Take MODBUS_MUTEX, Rs485_Send poll_frame, Release MODBUS_MUTEX] \<and>
    device_power_state (device_work_data b') = 1"
proof -
  let ?w = "world0\<lparr> w_err := MB_MRE_REV_DATA, w_rcv := [0xF1, 0xF1, 2, 1, 1, 4, 0x7E, 0, 0] @ replicate 247 0 \<rparr>"
  have d: "counter_send disp0 = 0" "rx_buff_f1 disp0 = 0" "main_fsm disp0 = fsm 0 0 0" "power_fsm disp0 = fsm 0 0 0"
    "Isr_j disp0 = 0" "take 2 (drop 7 (d_send_packet_buf disp0)) = [0, 0]" "device_power_state (d_device_work_data disp0) = 0"
    by (simp_all add: disp0_def para_of_bytes_def eval_nat_numeral)
  have "world_wf ?w" using world0_wf by (simp add: world_wf_def)
  moreover have "trace board0 = []" by (simp add: board0_def)
  ultimately show ?thesis
    using power_key_executed [of disp0 50 board0 ?w] disp0_ok board0_board by (simp add: d)
qed

section \<open>A reading of 10000\<close>

text \<open>A reading with five digits makes the next drawing read outside the segment table.\<close>

lemma large_reading_stops:
  assumes "length (Ht1621Tab2 s) = 20" "length (Ht1621Tab3 s) = 11" "1000 < time_tick_cnt s"
    "house_id s = 0" "10000 \<le> house1_pm2_5 (d_device_work_data s)"
  shows "Ht1621Display (house_round s) = None"
proof -
  obtain pm co2 where r: "house_readings 1 (d_device_work_data s) = (pm, co2)" "10000 \<le> pm"
    using assms(5) by (simp add: house_readings_def)
  define t where "t = house_round s"
  have "\<not> (pm = 0 \<and> co2 = 0)" using r(2) by auto
  then have "[Ht1621Tab3 t ! 0, Ht1621Tab3 t ! 1, Ht1621Tab3 t ! 2, Ht1621Tab3 t ! 3] = digits pm"
    unfolding t_def using house_shown(1) [OF assms(2) _ r(1) _ assms(3)] assms(4) by simp
  then have d: "Ht1621Tab3 t ! 0 = ucast (pm div 1000)" by (simp add: digits_def)
  have len: "length (Ht1621Tab2 t) = 20" "length (Ht1621Tab3 t) = 11"
    using assms r \<open>\<not> (pm = 0 \<and> co2 = 0)\<close> house_loop_d.simps(2) [of 4 s]
    by (auto simp: t_def house_round_def Let_def simp del: house_loop_d.simps)
  have "unat pm div 1000 \<le> 65" "10 \<le> unat pm div 1000"
    using r(2) unsigned_less [where 'a = nat, of pm] by (auto simp: word_le_nat_alt)
  then have "\<not> Ht1621Tab3 t ! 0 \<le> 9"
    by (simp add: d word_le_nat_alt unsigned_ucast_eq take_bit_eq_mod unat_div_distrib)
  moreover have "Ht1621Tab3 t ! 0 \<in> set (Ht1621Tab3 t)" using len(2) by simp
  ultimately show ?thesis unfolding t_def [symmetric] Ht1621Display_eq [OF len] by auto
qed

end
