(* ===== verification/Rt_Heap.thy ===== *)
theory Rt_Heap
  imports Firmware_Prelude
begin

text \<open>
  The heap of the RT-Thread kernel, \<open>src/mem.c\<close> as configured (\<open>RT_USING_SMALL_MEM\<close>, \<open>RT_ALIGN_SIZE\<close> 4,
  \<open>RT_MEM_STATS\<close>): a chain of blocks in one area, each with a header of 12 bytes. Pointers are offsets into
  the area or addresses below \<open>2 ^ 32\<close>; the headers are a map from offsets, and the bytes of the blocks a
  map from addresses. A failed \<open>RT_ASSERT\<close> loops for ever and is \<open>None\<close>, as is a header that is not there.
\<close>

section \<open>State\<close>

record heap_mem =
  h_magic :: u16
  h_used :: u16
  h_next :: nat
  h_prev :: nat

record rt_heap =
  mems :: "nat \<rightharpoonup> heap_mem"
  heap_ptr :: nat
  heap_end :: nat
  lfree :: nat
  mem_size_aligned :: nat
  used_mem :: nat
  max_mem :: nat
  heap_bytes :: "nat \<Rightarrow> u8"

abbreviation (input) HEAP_MAGIC :: u16 where "HEAP_MAGIC \<equiv> 0x1ea0"
abbreviation (input) SIZEOF_STRUCT_MEM :: nat where "SIZEOF_STRUCT_MEM \<equiv> 12"
abbreviation (input) MIN_SIZE_ALIGNED :: nat where "MIN_SIZE_ALIGNED \<equiv> 12"
abbreviation (input) RT_NULL :: nat where "RT_NULL \<equiv> 0"

text \<open>Where 32-bit arithmetic can wrap, it is written out.\<close>

definition rt_align :: "nat \<Rightarrow> nat" where
  "rt_align n = (n + 3) mod 2 ^ 32 div 4 * 4"

definition rt_align_down :: "nat \<Rightarrow> nat" where
  "rt_align_down n = n div 4 * 4"

definition sub32 :: "nat \<Rightarrow> nat \<Rightarrow> nat" where
  "sub32 a b = (a + 2 ^ 32 - b) mod 2 ^ 32"

definition put_mem :: "nat \<Rightarrow> heap_mem \<Rightarrow> rt_heap \<Rightarrow> rt_heap" where
  "put_mem p m h = h\<lparr> mems := (mems h)(p \<mapsto> m) \<rparr>"

definition set_prev :: "nat \<Rightarrow> nat \<Rightarrow> rt_heap \<Rightarrow> rt_heap option" where
  "set_prev p v h = do { m \<leftarrow> mems h p; Some (put_mem p (m\<lparr> h_prev := v \<rparr>) h) }"

section \<open>Initialisation\<close>

definition rt_system_heap_init :: "nat \<Rightarrow> nat \<Rightarrow> rt_heap \<Rightarrow> rt_heap" where
  "rt_system_heap_init begin_addr end_addr h =
    (let begin_align = rt_align begin_addr; end_align = rt_align_down end_addr
     in if end_align > 2 * SIZEOF_STRUCT_MEM \<and> end_align - 2 * SIZEOF_STRUCT_MEM \<ge> begin_align then
          (let msa = end_align - begin_align - 2 * SIZEOF_STRUCT_MEM;
               e = msa + SIZEOF_STRUCT_MEM
           in h\<lparr> mems := [0 \<mapsto> \<lparr> h_magic = HEAP_MAGIC, h_used = 0, h_next = e, h_prev = 0 \<rparr>,
                          e \<mapsto> \<lparr> h_magic = HEAP_MAGIC, h_used = 1, h_next = e, h_prev = e \<rparr>],
                 heap_ptr := begin_align, heap_end := e, lfree := 0, mem_size_aligned := msa \<rparr>)
        else h)"

section \<open>Joining free blocks\<close>

definition plug_forward :: "nat \<Rightarrow> rt_heap \<Rightarrow> rt_heap option" where
  "plug_forward mem h = do {
     m \<leftarrow> mems h mem;
     n \<leftarrow> mems h (h_next m);
     if mem \<noteq> h_next m \<and> h_used n = 0 \<and> h_next m \<noteq> heap_end h then
       set_prev (h_next n) mem (put_mem mem (m\<lparr> h_next := h_next n \<rparr>)
         (if lfree h = h_next m then h\<lparr> lfree := mem \<rparr> else h))
     else Some h }"

definition plug_backward :: "nat \<Rightarrow> rt_heap \<Rightarrow> rt_heap option" where
  "plug_backward mem h = do {
     m \<leftarrow> mems h mem;
     p \<leftarrow> mems h (h_prev m);
     if h_prev m \<noteq> mem \<and> h_used p = 0 then
       set_prev (h_next m) (h_prev m) (put_mem (h_prev m) (p\<lparr> h_next := h_next m \<rparr>)
         (if lfree h = mem then h\<lparr> lfree := h_prev m \<rparr> else h))
     else Some h }"

definition plug_holes :: "nat \<Rightarrow> rt_heap \<Rightarrow> rt_heap option" where
  "plug_holes mem h = do {
     m \<leftarrow> mems h mem;
     if mem < heap_end h \<and> h_used m = 0 then do { h1 \<leftarrow> plug_forward mem h; plug_backward mem h1 }
     else None }"

section \<open>Allocation\<close>

text \<open>The search for the first free block with room, and for the next free block behind a taken one.\<close>

partial_function (option) malloc_scan :: "rt_heap \<Rightarrow> nat \<Rightarrow> nat \<Rightarrow> nat \<Rightarrow> nat option option" where
  "malloc_scan h sz limit ptr =
    (if ptr < limit then do {
       mem \<leftarrow> mems h ptr;
       if h_used mem = 0 \<and> sub32 (h_next mem) (ptr + SIZEOF_STRUCT_MEM) \<ge> sz then Some (Some ptr)
       else malloc_scan h sz limit (h_next mem) }
     else Some None)"

partial_function (option) next_free :: "rt_heap \<Rightarrow> nat \<Rightarrow> nat option" where
  "next_free h p = do {
     mem \<leftarrow> mems h p;
     if h_used mem \<noteq> 0 \<and> p \<noteq> heap_end h then next_free h (h_next mem) else Some p }"

definition count_used :: "nat \<Rightarrow> rt_heap \<Rightarrow> rt_heap" where
  "count_used n h = (let u = (used_mem h + n) mod 2 ^ 32 in h\<lparr> used_mem := u, max_mem := max (max_mem h) u \<rparr>)"

text \<open>Taking the block at \<open>ptr\<close>, split if the rest can hold a block; \<open>magic\<close> is what lies where the new header goes.\<close>

definition malloc_take :: "u16 \<Rightarrow> nat \<Rightarrow> nat \<Rightarrow> rt_heap \<Rightarrow> rt_heap option" where
  "malloc_take magic sz ptr h = do {
     mem \<leftarrow> mems h ptr;
     if sub32 (h_next mem) (ptr + SIZEOF_STRUCT_MEM) \<ge> sz + SIZEOF_STRUCT_MEM + MIN_SIZE_ALIGNED then do {
       let ptr2 = ptr + SIZEOF_STRUCT_MEM + sz;
       let h1 = put_mem ptr2 \<lparr> h_magic = magic, h_used = 0, h_next = h_next mem, h_prev = ptr \<rparr> h;
       let h2 = put_mem ptr (mem\<lparr> h_next := ptr2, h_used := 1, h_magic := HEAP_MAGIC \<rparr>) h1;
       h3 \<leftarrow> (if h_next mem \<noteq> mem_size_aligned h + SIZEOF_STRUCT_MEM then set_prev (h_next mem) ptr2 h2 else Some h2);
       Some (count_used (sz + SIZEOF_STRUCT_MEM) h3) }
     else Some (count_used (sub32 (h_next mem) ptr) (put_mem ptr (mem\<lparr> h_used := 1, h_magic := HEAP_MAGIC \<rparr>) h)) }"

definition rt_malloc :: "u16 \<Rightarrow> nat \<Rightarrow> rt_heap \<Rightarrow> (rt_heap \<times> nat) option" where
  "rt_malloc magic sz0 h =
    (if sz0 = 0 then Some (h, RT_NULL)
     else if rt_align sz0 > mem_size_aligned h then Some (h, RT_NULL)
     else do {
       let sz = max (rt_align sz0) MIN_SIZE_ALIGNED;
       r \<leftarrow> malloc_scan h sz (sub32 (mem_size_aligned h) sz) (lfree h);
       (case r of
          None \<Rightarrow> Some (h, RT_NULL)
        | Some ptr \<Rightarrow> do {
            h1 \<leftarrow> malloc_take magic sz ptr h;
            h2 \<leftarrow> (if ptr = lfree h1 then do { p \<leftarrow> next_free h1 (lfree h1); Some (h1\<lparr> lfree := p \<rparr>) } else Some h1);
            if ptr + SIZEOF_STRUCT_MEM + sz \<le> heap_end h2 \<and>
               (heap_ptr h2 + ptr + SIZEOF_STRUCT_MEM) mod 4 = 0 \<and> (heap_ptr h2 + ptr) mod 4 = 0
            then Some (h2, heap_ptr h2 + ptr + SIZEOF_STRUCT_MEM) else None }) })"

section \<open>Release\<close>

definition rt_free :: "nat \<Rightarrow> rt_heap \<Rightarrow> rt_heap option" where
  "rt_free rmem h =
    (if rmem = RT_NULL then Some h
     else if rmem mod 4 = 0 \<and> heap_ptr h + SIZEOF_STRUCT_MEM \<le> rmem \<and> rmem < heap_ptr h + heap_end h then do {
       let mem = rmem - SIZEOF_STRUCT_MEM - heap_ptr h;
       m \<leftarrow> mems h mem;
       if h_used m \<noteq> 0 \<and> h_magic m = HEAP_MAGIC then
         plug_holes mem ((put_mem mem (m\<lparr> h_used := 0, h_magic := 0 \<rparr>) h)
           \<lparr> lfree := min mem (lfree h), used_mem := sub32 (used_mem h) (sub32 (h_next m) mem) \<rparr>)
       else None }
     else None)"

section \<open>Other sizes\<close>

definition rt_memcpy :: "nat \<Rightarrow> nat \<Rightarrow> nat \<Rightarrow> rt_heap \<Rightarrow> rt_heap" where
  "rt_memcpy dst src n h =
    h\<lparr> heap_bytes := (\<lambda>a. if dst \<le> a \<and> a < dst + n then heap_bytes h (src + (a - dst)) else heap_bytes h a) \<rparr>"

text \<open>Cutting the end off a block of \<open>sz\<close> bytes.\<close>

definition realloc_split :: "nat \<Rightarrow> nat \<Rightarrow> nat \<Rightarrow> rt_heap \<Rightarrow> rt_heap option" where
  "realloc_split newsize sz ptr h = do {
     mem \<leftarrow> mems h ptr;
     let ptr2 = ptr + SIZEOF_STRUCT_MEM + newsize;
     let h0 = h\<lparr> used_mem := sub32 (used_mem h) (sub32 sz newsize) \<rparr>;
     let h1 = put_mem ptr2 \<lparr> h_magic = HEAP_MAGIC, h_used = 0, h_next = h_next mem, h_prev = ptr \<rparr> h0;
     let h2 = put_mem ptr (mem\<lparr> h_next := ptr2 \<rparr>) h1;
     h3 \<leftarrow> (if h_next mem \<noteq> mem_size_aligned h + SIZEOF_STRUCT_MEM then set_prev (h_next mem) ptr2 h2 else Some h2);
     plug_holes ptr2 h3 }"

text \<open>
  Two calls are more than one section under \<open>heap_sem\<close>: a reallocation that moves the block releases the semaphore and
  then calls \<open>rt_malloc\<close>, \<open>rt_memcpy\<close> and \<open>rt_free\<close>, and \<open>rt_calloc\<close> clears the block after \<open>rt_malloc\<close>. The definitions
  are these calls without anything in between. With other threads in between they are runs of their parts, an
  allocation, writes into the new block and a release, each a request of its own in \<open>Rt_Heap_Run\<close>, where the
  lemmas \<open>calloc_in_parts\<close> and \<open>realloc_in_parts\<close> say so.
\<close>

definition rt_realloc :: "u16 \<Rightarrow> nat \<Rightarrow> nat \<Rightarrow> rt_heap \<Rightarrow> (rt_heap \<times> nat) option" where
  "rt_realloc magic rmem newsize0 h =
    (let newsize = rt_align newsize0
     in if newsize > mem_size_aligned h then Some (h, RT_NULL)
        else if rmem = RT_NULL then rt_malloc magic newsize h
        else if rmem < heap_ptr h \<or> rmem \<ge> heap_ptr h + heap_end h then Some (h, rmem)
        else if rmem < heap_ptr h + SIZEOF_STRUCT_MEM then None
        else do {
          let ptr = rmem - SIZEOF_STRUCT_MEM - heap_ptr h;
          mem \<leftarrow> mems h ptr;
          let sz = sub32 (sub32 (h_next mem) ptr) SIZEOF_STRUCT_MEM;
          if sz = newsize then Some (h, rmem)
          else if newsize + SIZEOF_STRUCT_MEM + MIN_SIZE_ALIGNED < sz then do {
            h1 \<leftarrow> realloc_split newsize sz ptr h;
            Some (h1, rmem) }
          else do {
            (h1, nmem) \<leftarrow> rt_malloc magic newsize h;
            if nmem \<noteq> RT_NULL then do {
              h2 \<leftarrow> rt_free rmem (rt_memcpy nmem rmem (min sz newsize) h1);
              Some (h2, nmem) }
            else Some (h1, nmem) } })"

definition rt_calloc :: "u16 \<Rightarrow> nat \<Rightarrow> nat \<Rightarrow> rt_heap \<Rightarrow> (rt_heap \<times> nat) option" where
  "rt_calloc magic count sz h = do {
     let n = (count * sz) mod 2 ^ 32;
     (h1, p) \<leftarrow> rt_malloc magic n h;
     Some (if p \<noteq> RT_NULL
       then h1\<lparr> heap_bytes := (\<lambda>a. if p \<le> a \<and> a < p + n then 0 else heap_bytes h1 a) \<rparr> else h1, p) }"

definition rt_memory_info :: "rt_heap \<Rightarrow> nat \<times> nat \<times> nat" where
  "rt_memory_info h = (mem_size_aligned h, used_mem h, max_mem h)"

end
