(* ===== verification/Rt_Heap_Inv.thy ===== *)
theory Rt_Heap_Inv
  imports Rt_Heap
begin

text \<open>
  The kernel heap as a list of blocks, each used or free with its length including the header. The
  predicate \<open>segs\<close> says that the headers from an offset on form such a list; it is split by \<open>segs_append\<close>
  and kept by changes outside by \<open>segs_frame\<close>, as paths in a linked structure are.
\<close>

type_synonym blocks = "(bool \<times> nat) list"

section \<open>Chains of headers\<close>

definition blk :: "(nat \<rightharpoonup> heap_mem) \<Rightarrow> nat \<Rightarrow> nat \<Rightarrow> bool \<Rightarrow> nat \<Rightarrow> bool" where
  "blk m pr p u n \<longleftrightarrow> (\<exists>x. m p = Some x \<and> h_prev x = pr \<and> h_next x = p + n \<and> h_used x = (if u then 1 else 0) \<and>
     (u \<longrightarrow> h_magic x = HEAP_MAGIC) \<and> 12 \<le> n \<and> n mod 4 = 0)"

fun segs :: "(nat \<rightharpoonup> heap_mem) \<Rightarrow> nat \<Rightarrow> nat \<Rightarrow> blocks \<Rightarrow> nat \<Rightarrow> bool" where
  "segs m pr p [] e \<longleftrightarrow> p = e"
| "segs m pr p ((u, n) # bs) e \<longleftrightarrow> blk m pr p u n \<and> segs m p (p + n) bs e"

definition span :: "blocks \<Rightarrow> nat" where
  "span bs = sum_list (map snd bs)"

fun prv :: "nat \<Rightarrow> nat \<Rightarrow> blocks \<Rightarrow> nat" where
  "prv pr p [] = pr"
| "prv pr p ((u, n) # bs) = prv p (p + n) bs"

lemma span_simps [simp]:
  "span [] = 0" "span ((u, n) # bs) = n + span bs" "span (as @ bs) = span as + span bs"
  by (simp_all add: span_def)

lemma segs_append:
  "segs m pr p (as @ bs) e \<longleftrightarrow> segs m pr p as (p + span as) \<and> segs m (prv pr p as) (p + span as) bs e"
  by (induction as arbitrary: pr p) (auto simp: add.assoc)

lemma segs_end: "segs m pr p bs e \<Longrightarrow> e = p + span bs"
proof (induction bs arbitrary: pr p)
  case (Cons b bs)
  then show ?case using Cons.IH [of p "p + snd b"] by (cases b) simp
qed simp

lemma prv_snoc [simp]: "prv pr p (as @ [(u, n)]) = p + span as"
  by (induction as arbitrary: pr p) auto

lemma segs_empty: "segs m pr p bs p \<Longrightarrow> bs = []"
  using segs_end [of m pr p bs p] by (cases bs) (auto simp: blk_def)

lemma segs_frame:
  assumes "\<And>q. p \<le> q \<Longrightarrow> q < e \<Longrightarrow> m' q = m q" "segs m pr p bs e" shows "segs m' pr p bs e"
  using assms
proof (induction bs arbitrary: pr p)
  case Nil
  then show ?case by simp
next
  case (Cons b bs)
  obtain u n where b: "b = (u, n)" by fastforce
  have n: "12 \<le> n" using Cons.prems(2) by (auto simp: b blk_def)
  have "p < e" using segs_end [OF Cons.prems(2)] n b by simp
  then have "m' p = m p" using Cons.prems(1) by simp
  moreover have "segs m' p (p + n) bs e" using Cons.prems b by (intro Cons.IH) auto
  ultimately show ?case using Cons.prems(2) by (simp add: b blk_def)
qed

lemma segs_set_prev:
  assumes "segs m pr p bs e" "bs \<noteq> []" "m p = Some x" shows "segs (m(p \<mapsto> x\<lparr> h_prev := pr' \<rparr>)) pr' p bs e"
proof -
  obtain u n cs where bs: "bs = (u, n) # cs" using assms(2) by (cases bs) auto
  have n: "12 \<le> n" using assms(1) by (auto simp: bs blk_def)
  have "segs (m(p \<mapsto> x\<lparr> h_prev := pr' \<rparr>)) p (p + n) cs e"
    by (rule segs_frame [of "p + n" e _ m]) (use assms(1) n in \<open>auto simp: bs\<close>)
  moreover have "blk (m(p \<mapsto> x\<lparr> h_prev := pr' \<rparr>)) pr' p u n"
    using assms(1,3) by (simp add: bs blk_def)
  ultimately show ?thesis by (simp add: bs)
qed

lemma segs_at:
  assumes "segs m pr p (as @ (u, n) # cs) e"
  obtains x where "m (p + span as) = Some x" "h_prev x = prv pr p as" "h_next x = p + span as + n"
    "h_used x = (if u then 1 else 0)" "u \<longrightarrow> h_magic x = HEAP_MAGIC" "12 \<le> n" "n mod 4 = 0"
proof -
  have "blk m (prv pr p as) (p + span as) u n" using assms by (simp add: segs_append)
  then obtain x where "m (p + span as) = Some x" "h_prev x = prv pr p as" "h_next x = p + span as + n"
    "h_used x = (if u then 1 else 0)" "u \<longrightarrow> h_magic x = HEAP_MAGIC" "12 \<le> n" "n mod 4 = 0"
    unfolding blk_def by (elim exE conjE)
  then show thesis by (rule that)
qed

text \<open>Replacing the blocks in the middle: the ones before and behind only see a new previous block.\<close>

lemma segs_replace:
  assumes "segs m pr p (as @ bs @ cs) e" "segs m' (prv pr p as) (p + span as) bs' (p + span as + span bs)"
    and "\<And>q. q < p + span as \<Longrightarrow> m' q = m q"
    and "segs m' (prv (prv pr p as) (p + span as) bs') (p + span as + span bs) cs e"
  shows "segs m' pr p (as @ bs' @ cs) e"
proof -
  have "span bs' = span bs" using segs_end [OF assms(2)] by simp
  moreover have "segs m' pr p as (p + span as)"
    by (rule segs_frame [of p "p + span as" m' m]) (use assms(1,3) in \<open>auto simp: segs_append\<close>)
  ultimately show ?thesis using assms(2,4) by (simp add: segs_append add.assoc)
qed

section \<open>The representation\<close>

fun low :: "nat \<Rightarrow> blocks \<Rightarrow> nat" where
  "low p [] = p"
| "low p ((u, n) # bs) = (if u then low (p + n) bs else p)"

fun no_adj :: "blocks \<Rightarrow> bool" where
  "no_adj ((u, n) # (v, k) # bs) \<longleftrightarrow> (u \<or> v) \<and> no_adj ((v, k) # bs)"
| "no_adj _ \<longleftrightarrow> True"

definition used_total :: "blocks \<Rightarrow> nat" where
  "used_total bs = sum_list (map snd (filter fst bs))"

text \<open>A used block without data bytes, left by a reallocation to nothing, has another block behind it.\<close>

definition ok_last :: "blocks \<Rightarrow> bool" where
  "ok_last bs \<longleftrightarrow> (fst (last bs) \<longrightarrow> 12 < snd (last bs))"

definition at_end :: "rt_heap \<Rightarrow> bool" where
  "at_end h \<longleftrightarrow> (\<exists>x. mems h (heap_end h) = Some x \<and> h_used x = 1)"

definition rep :: "rt_heap \<Rightarrow> blocks \<Rightarrow> bool" where
  "rep h bs \<longleftrightarrow> segs (mems h) 0 0 bs (heap_end h) \<and> bs \<noteq> [] \<and> at_end h \<and> no_adj bs \<and> ok_last bs \<and>
     used_mem h = used_total bs \<and> heap_end h = mem_size_aligned h + 12 \<and> 12 \<le> mem_size_aligned h \<and>
     0 < heap_ptr h \<and> heap_ptr h mod 4 = 0 \<and> heap_ptr h + heap_end h + 12 \<le> 2 ^ 32"

text \<open>Where the search may start: \<open>lfree\<close> is the start of a block or the end, though not always the lowest free block.\<close>

definition is_start :: "blocks \<Rightarrow> nat \<Rightarrow> bool" where
  "is_start bs l \<longleftrightarrow> (\<exists>as cs. bs = as @ cs \<and> l = span as)"

lemma used_total_simps [simp]:
  "used_total [] = 0" "used_total ((u, n) # bs) = (if u then n else 0) + used_total bs"
  "used_total (as @ bs) = used_total as + used_total bs"
  by (simp_all add: used_total_def)

lemma used_total_le: "used_total bs \<le> span bs"
  by (induction bs) auto

lemma low_ge: "p \<le> low p bs"
proof (induction bs arbitrary: p)
  case (Cons b bs)
  show ?case using Cons.IH [of "p + snd b"] by (cases b) auto
qed simp

lemma low_append: "low p (as @ bs) = (if \<forall>(u, n) \<in> set as. u then low (p + span as) bs else low p as)"
  by (induction as arbitrary: p) (auto simp: add.assoc)

lemma low_free_le: "low p (as @ (False, n) # cs) \<le> p + span as"
proof (induction as arbitrary: p)
  case (Cons b as)
  show ?case using Cons.IH [of "p + snd b"] by (cases b) auto
qed simp

lemma sub32_le [simp]: "b \<le> a \<Longrightarrow> a < 2 ^ 32 \<Longrightarrow> sub32 a b = a - b"
  by (simp add: sub32_def mod_if)


lemma segs_aligned: "segs m pr p bs e \<Longrightarrow> p mod 4 = 0 \<Longrightarrow> e mod 4 = 0"
proof (induction bs arbitrary: pr p)
  case (Cons b bs)
  show ?case
    using Cons.prems Cons.IH [of p "p + snd b"] by (cases b) (auto simp: blk_def mod_add_eq [of p 4, symmetric])
qed simp

lemma low_le_span: "low p bs \<le> p + span bs"
proof (induction bs arbitrary: p)
  case (Cons b bs)
  show ?case using Cons.IH [of "p + snd b"] by (cases b) auto
qed simp

lemma low_lt:
  "segs m pr p as e \<Longrightarrow> \<not> (\<forall>b \<in> set as. fst b) \<Longrightarrow> low p (as @ bs) < p + span as"
proof (induction as arbitrary: pr p)
  case (Cons b as)
  obtain u n where b: "b = (u, n)" by fastforce
  show ?case
  proof (cases u)
    case True
    then have "low (p + n) (as @ bs) < p + n + span as"
      using Cons.prems by (intro Cons.IH [of p "p + n"]) (auto simp: b)
    with True show ?thesis by (simp add: b)
  next
    case False
    with Cons.prems show ?thesis by (auto simp: b blk_def)
  qed
qed simp

lemma mems_only:
  assumes "h' = h\<lparr> mems := m, lfree := l \<rparr>"
  shows "heap_ptr h' = heap_ptr h" "heap_end h' = heap_end h" "lfree h' = l"
    "mem_size_aligned h' = mem_size_aligned h" "used_mem h' = used_mem h" "max_mem h' = max_mem h"
    "heap_bytes h' = heap_bytes h"
  by (simp_all add: assms)

section \<open>Joining two blocks\<close>

text \<open>Changing the previous pointer of what lies behind a block: the next block, or the end.\<close>

lemma set_prev_behind:
  assumes "segs (mems h) pr q cs (heap_end h)" "at_end h"
  obtains h' where "set_prev q v h = Some h'" "h' = h\<lparr> mems := mems h' \<rparr>" "segs (mems h') v q cs (heap_end h)" "at_end h'"
    "\<forall>p. p \<noteq> q \<longrightarrow> mems h' p = mems h p"
proof -
  obtain x where x: "mems h q = Some x"
    using assms by (cases cs) (auto simp: at_end_def blk_def)
  define h' where "h' = put_mem q (x\<lparr> h_prev := v \<rparr>) h"
  have "segs (mems h') v q cs (heap_end h)"
  proof (cases "cs = []")
    case True
    with assms(1) show ?thesis by simp
  next
    case False
    then show ?thesis using segs_set_prev [OF assms(1) _ x] by (simp add: h'_def put_mem_def)
  qed
  moreover have "at_end h'" using assms(2) x by (auto simp: at_end_def h'_def put_mem_def)
  ultimately show thesis using that [of h'] x by (simp add: set_prev_def h'_def put_mem_def)
qed

text \<open>The header at \<open>q\<close> takes over the block behind it.\<close>

lemma join_blocks:
  assumes "segs (mems h) 0 0 (as @ (u, n) # (v, k) # cs) (heap_end h)" "at_end h" "mems h (span as) = Some x"
  obtains h' where "set_prev (span as + n + k) (span as) (put_mem (span as) (x\<lparr> h_next := span as + n + k \<rparr>) h) = Some h'"
    "h' = h\<lparr> mems := mems h' \<rparr>" "segs (mems h') 0 0 (as @ (u, n + k) # cs) (heap_end h)" "at_end h'"
    "mems h' (span as) = Some (x\<lparr> h_next := span as + n + k \<rparr>)"
proof -
  define q where "q = span as"
  define h1 where "h1 = put_mem q (x\<lparr> h_next := q + n + k \<rparr>) h"
  have b: "blk (mems h) (prv 0 0 as) q u n" "blk (mems h) q (q + n) v k" "segs (mems h) (q + n) (q + n + k) cs (heap_end h)"
    using assms(1) by (simp_all add: segs_append q_def)
  then have nk: "12 \<le> n" "12 \<le> k" "n mod 4 = 0" "k mod 4 = 0" by (auto simp: blk_def)
  have e: "q + n + k \<le> heap_end h" using segs_end [OF b(3)] by simp
  have end1: "at_end h1" using assms(2) e nk by (simp add: at_end_def h1_def put_mem_def)
  have "segs (mems h1) (q + n) (q + n + k) cs (heap_end h)"
    by (rule segs_frame [OF _ b(3)]) (use nk in \<open>simp add: h1_def put_mem_def\<close>)
  then have s1: "segs (mems h1) (q + n) (q + n + k) cs (heap_end h1)" by (simp add: h1_def put_mem_def)
  obtain h' where h': "set_prev (q + n + k) q h1 = Some h'" "h' = h1\<lparr> mems := mems h' \<rparr>"
    "segs (mems h') q (q + n + k) cs (heap_end h1)" "at_end h'" "\<And>p. p \<noteq> q + n + k \<Longrightarrow> mems h' p = mems h1 p"
    using set_prev_behind [OF s1 end1, of q] by blast
  have hd: "mems h' q = Some (x\<lparr> h_next := q + n + k \<rparr>)"
    using h'(5) [of q] nk by (simp add: h1_def put_mem_def)
  have s: "segs (mems h') 0 0 (as @ [(u, n + k)] @ cs) (heap_end h)"
  proof (rule segs_replace)
    show "segs (mems h) 0 0 (as @ [(u, n), (v, k)] @ cs) (heap_end h)" using assms(1) by simp
    have "blk (mems h') (prv 0 0 as) q u (n + k)"
      using b(1) hd nk assms(3) by (auto simp: blk_def q_def mod_add_eq)
    then show "segs (mems h') (prv 0 0 as) (0 + span as) [(u, n + k)] (0 + span as + span [(u, n), (v, k)])"
      by (simp add: q_def)
    show "mems h' p = mems h p" if "p < 0 + span as" for p
      using h'(5) [of p] that nk by (simp add: h1_def put_mem_def q_def)
    show "segs (mems h') (prv (prv 0 0 as) (0 + span as) [(u, n + k)]) (0 + span as + span [(u, n), (v, k)]) cs (heap_end h)"
      using h'(3) by (simp add: h1_def put_mem_def q_def add.assoc)
  qed
  show thesis
    using that [of h'] h'(1,2,4) s hd by (simp add: h1_def put_mem_def q_def)
qed

section \<open>Release\<close>

fun join_right :: "nat \<Rightarrow> blocks \<Rightarrow> blocks" where
  "join_right n ((False, k) # cs) = (False, n + k) # cs"
| "join_right n cs = (False, n) # cs"

definition join_left :: "blocks \<Rightarrow> nat \<Rightarrow> blocks \<Rightarrow> blocks" where
  "join_left as n cs =
    (if as \<noteq> [] \<and> \<not> fst (last as) then butlast as @ (False, snd (last as) + n) # cs else as @ (False, n) # cs)"

text \<open>The list after the block between \<open>as\<close> and \<open>cs\<close> has been freed.\<close>

definition freed :: "blocks \<Rightarrow> nat \<Rightarrow> blocks \<Rightarrow> blocks" where
  "freed as n cs = (case join_right n cs of (_, k) # cs' \<Rightarrow> join_left as k cs' | [] \<Rightarrow> [])"

definition fwd_lf :: "nat \<Rightarrow> nat \<Rightarrow> blocks \<Rightarrow> nat \<Rightarrow> nat" where
  "fwd_lf q n cs l = (if l = q + n \<and> cs \<noteq> [] \<and> \<not> fst (hd cs) then q else l)"

definition back_lf :: "blocks \<Rightarrow> nat \<Rightarrow> nat" where
  "back_lf as l = (if l = span as \<and> as \<noteq> [] \<and> \<not> fst (last as) then span (butlast as) else l)"

lemma plug_forward_eq:
  assumes "segs (mems h) 0 0 (as @ (False, n) # cs) (heap_end h)" "at_end h"
  obtains h' k cs' where "plug_forward (span as) h = Some h'"
    "h' = h\<lparr> mems := mems h', lfree := fwd_lf (span as) n cs (lfree h) \<rparr>" "at_end h'"
    "segs (mems h') 0 0 (as @ (False, k) # cs') (heap_end h)" "join_right n cs = (False, k) # cs'"
proof -
  obtain x where x: "mems h (span as) = Some x" "h_next x = span as + n" "12 \<le> n"
    using segs_at [OF assms(1)] by (metis add_0)
  have behind: "segs (mems h) (span as) (span as + n) cs (heap_end h)"
    using assms(1) by (simp add: segs_append)
  show thesis
  proof (cases "\<exists>k cs'. cs = (False, k) # cs'")
    case True
    then obtain k cs' where cs: "cs = (False, k) # cs'" by blast
    obtain y where y: "mems h (span as + n) = Some y" "h_next y = span as + n + k" "h_used y = 0" "12 \<le> k"
      using behind by (auto simp: cs blk_def)
    have ne: "span as + n \<noteq> heap_end h" using segs_end [OF behind] y(4) by (simp add: cs)
    define h0 where "h0 = h\<lparr> lfree := fwd_lf (span as) n cs (lfree h) \<rparr>"
    have if0: "(if lfree h = span as + n then h\<lparr> lfree := span as \<rparr> else h) = h0" by (simp add: h0_def fwd_lf_def cs)
    have h0: "mems h0 = mems h" "heap_end h0 = heap_end h" "lfree h0 = fwd_lf (span as) n cs (lfree h)" "at_end h0"
      using assms(2) by (simp_all add: h0_def fwd_lf_def cs at_end_def)
    have s0: "segs (mems h0) 0 0 (as @ (False, n) # (False, k) # cs') (heap_end h0)" "mems h0 (span as) = Some x"
      using assms(1) x(1) h0 by (simp_all add: cs)
    obtain h' where h': "set_prev (span as + n + k) (span as) (put_mem (span as) (x\<lparr> h_next := span as + n + k \<rparr>) h0) = Some h'"
      "h' = h0\<lparr> mems := mems h' \<rparr>" "segs (mems h') 0 0 (as @ (False, n + k) # cs') (heap_end h0)" "at_end h'"
      using join_blocks [OF s0(1) h0(4) s0(2)] by metis
    have "plug_forward (span as) h = Some h'"
      using x y ne h'(1) if0 by (simp add: plug_forward_def)
    moreover have "h' = h\<lparr> mems := mems h', lfree := fwd_lf (span as) n cs (lfree h) \<rparr>"
      by (subst h'(2)) (simp add: h0_def)
    ultimately show thesis using that h'(3,4) h0(2) by (simp add: cs)
  next
    case False
    obtain y where y: "mems h (span as + n) = Some y" "h_used y \<noteq> 0 \<or> span as + n = heap_end h"
      using behind assms(2) False by (cases cs) (auto simp: at_end_def blk_def)
    have "plug_forward (span as) h = Some h" using x y by (auto simp: plug_forward_def)
    moreover have "join_right n cs = (False, n) # cs" using False by (cases "(n, cs)" rule: join_right.cases) auto
    moreover have "fwd_lf (span as) n cs (lfree h) = lfree h" using False by (cases cs) (auto simp: fwd_lf_def)
    ultimately show thesis using that [of h] assms by simp
  qed
qed

lemma plug_backward_eq:
  assumes "segs (mems h) 0 0 (as @ (False, n) # cs) (heap_end h)" "at_end h"
  obtains h' where "plug_backward (span as) h = Some h'" "h' = h\<lparr> mems := mems h', lfree := back_lf as (lfree h) \<rparr>" "at_end h'"
    "segs (mems h') 0 0 (join_left as n cs) (heap_end h)"
proof -
  obtain x where x: "mems h (span as) = Some x" "h_prev x = prv 0 0 as" "h_next x = span as + n" "12 \<le> n"
    using segs_at [OF assms(1)] by (metis add_0)
  show thesis
  proof (cases "as = []")
    case True
    with x have "plug_backward (span as) h = Some h" by (simp add: plug_backward_def)
    then show thesis using that [of h] assms True by (simp add: join_left_def back_lf_def)
  next
    case False
    then obtain bs u k where as: "as = bs @ [(u, k)]" by (metis append_butlast_last_id surj_pair)
    have p: "h_prev x = span bs" "span as = span bs + k" using x(2) by (simp_all add: as)
    have s: "segs (mems h) 0 0 (bs @ (u, k) # (False, n) # cs) (heap_end h)" using assms(1) by (simp add: as)
    obtain y where y: "mems h (span bs) = Some y" "h_used y = (if u then 1 else 0)" "12 \<le> k"
      using segs_at [OF s] by (metis add_0)
    show thesis
    proof (cases u)
      case True
      then have "plug_backward (span as) h = Some h" using x p y by (simp add: plug_backward_def)
      then show thesis using that [of h] assms True by (simp add: join_left_def back_lf_def as)
    next
      case False
      define h0 where "h0 = h\<lparr> lfree := back_lf as (lfree h) \<rparr>"
      have if0: "(if lfree h = span bs + k then h\<lparr> lfree := h_prev x \<rparr> else h) = h0"
        using False p(1) by (simp add: h0_def back_lf_def as)
      have h0: "mems h0 = mems h" "heap_end h0 = heap_end h" "lfree h0 = back_lf as (lfree h)" "at_end h0"
        using assms(2) False by (simp_all add: h0_def back_lf_def as at_end_def)
      have s0: "segs (mems h0) 0 0 (bs @ (u, k) # (False, n) # cs) (heap_end h0)" "mems h0 (span bs) = Some y"
        using s y(1) h0 by simp_all
      obtain h' where h': "set_prev (span bs + k + n) (span bs) (put_mem (span bs) (y\<lparr> h_next := span bs + k + n \<rparr>) h0) = Some h'"
        "h' = h0\<lparr> mems := mems h' \<rparr>" "segs (mems h') 0 0 (bs @ (u, k + n) # cs) (heap_end h0)" "at_end h'"
        using join_blocks [OF s0(1) h0(4) s0(2)] by metis
      have "plug_backward (span as) h = Some h'"
        using x(1,3,4) p y False h'(1) by (simp add: plug_backward_def if0 split del: if_split)
      moreover have "h' = h\<lparr> mems := mems h', lfree := back_lf as (lfree h) \<rparr>"
        by (subst h'(2)) (simp add: h0_def)
      ultimately show thesis using that h'(3,4) h0(2) False by (simp add: join_left_def as)
    qed
  qed
qed

lemma no_adj_append:
  "no_adj (as @ bs) \<longleftrightarrow> no_adj as \<and> no_adj bs \<and> (as \<noteq> [] \<and> bs \<noteq> [] \<longrightarrow> fst (last as) \<or> fst (hd bs))"
proof (induction as)
  case (Cons a as)
  show ?case using Cons.IH by (cases a; cases as; cases bs) auto
qed simp

lemma no_adj_Cons: "no_adj ((u, n) # bs) \<longleftrightarrow> no_adj bs \<and> (bs \<noteq> [] \<longrightarrow> u \<or> fst (hd bs))"
  using no_adj_append [of "[(u, n)]" bs] by simp

lemma join_right_props:
  assumes "join_right n cs = (False, k) # cs'"
  shows "used_total cs' = used_total cs" and "no_adj cs \<Longrightarrow> no_adj ((False, k) # cs')"
    and "cs \<noteq> [] \<longrightarrow> ok_last cs \<Longrightarrow> cs' \<noteq> [] \<longrightarrow> ok_last cs'"
  using assms by (cases "(n, cs)" rule: join_right.cases; auto simp: no_adj_Cons ok_last_def)+

lemma join_left_props:
  shows "used_total (join_left as n cs) = used_total as + used_total cs"
    and "no_adj as \<Longrightarrow> no_adj ((False, n) # cs) \<Longrightarrow> no_adj (join_left as n cs)"
    and "low 0 (join_left as n cs) = min (span as) (low 0 (as @ (True, k) # cs'))"
    and "join_left as n cs \<noteq> []" and "cs \<noteq> [] \<longrightarrow> ok_last cs \<Longrightarrow> ok_last (join_left as n cs)"
proof -
  have "used_total (join_left as n cs) = used_total as + used_total cs \<and>
    (no_adj as \<longrightarrow> no_adj ((False, n) # cs) \<longrightarrow> no_adj (join_left as n cs)) \<and>
    low 0 (join_left as n cs) = min (span as) (low 0 (as @ (True, k) # cs')) \<and> join_left as n cs \<noteq> [] \<and>
    ((cs \<noteq> [] \<longrightarrow> ok_last cs) \<longrightarrow> ok_last (join_left as n cs))"
  proof (cases "as \<noteq> [] \<and> \<not> fst (last as)")
    case True
    then obtain bs j where as: "as = bs @ [(False, j)]" by (metis append_butlast_last_id prod.collapse)
    have "low 0 (bs @ (False, j) # (True, k) # cs') \<le> span bs" using low_free_le [of 0 bs] by simp
    moreover have "low 0 (bs @ (False, j + n) # cs) = low 0 (bs @ (False, j) # (True, k) # cs')"
      by (simp add: low_append)
    ultimately show ?thesis
      by (auto simp: as join_left_def ok_last_def no_adj_append no_adj_Cons)
  next
    case False
    have "low 0 (as @ (False, n) # cs) = min (span as) (low 0 (as @ (True, k) # cs'))"
      using low_ge [of "span as + k" cs'] low_le_span [of 0 as] by (auto simp: low_append)
    with False show ?thesis
      by (auto simp: join_left_def ok_last_def no_adj_append no_adj_Cons)
  qed
  then show "used_total (join_left as n cs) = used_total as + used_total cs"
    and "no_adj as \<Longrightarrow> no_adj ((False, n) # cs) \<Longrightarrow> no_adj (join_left as n cs)"
    and "low 0 (join_left as n cs) = min (span as) (low 0 (as @ (True, k) # cs'))"
    and "join_left as n cs \<noteq> []" and "cs \<noteq> [] \<longrightarrow> ok_last cs \<Longrightarrow> ok_last (join_left as n cs)"
    by blast+
qed

lemma used_room:
  assumes "rep h (as @ (True, n) # cs)" shows "span as + 12 < heap_end h"
proof -
  have s: "segs (mems h) 0 0 (as @ (True, n) # cs) (heap_end h)" using assms unfolding rep_def by blast
  have total: "heap_end h = span as + n + span cs" using segs_end [OF s] by simp
  have n: "12 \<le> n" using segs_at [OF s] by metis
  show ?thesis
  proof (cases cs)
    case Nil
    with assms total show ?thesis by (simp add: rep_def ok_last_def)
  next
    case (Cons c cs2)
    have "segs (mems h) (span as) (span as + n) cs (heap_end h)" using s by (simp add: segs_append)
    then have "12 \<le> snd c" using Cons by (cases c) (auto simp: blk_def)
    with total n Cons show ?thesis by (cases c) simp
  qed
qed

lemma rt_free_rep:
  assumes "rep h (as @ (True, n) # cs)"
  obtains h' where "rt_free (heap_ptr h + span as + 12) h = Some h'" "rep h' (freed as n cs)"
    "lfree h' = back_lf as (min (span as) (lfree h))"
    "heap_ptr h' = heap_ptr h" "heap_end h' = heap_end h" "mem_size_aligned h' = mem_size_aligned h"
    "heap_bytes h' = heap_bytes h"
proof -
  have s: "segs (mems h) 0 0 (as @ (True, n) # cs) (heap_end h)" and e: "at_end h"
    and na: "no_adj (as @ (True, n) # cs)" 
    and um: "used_mem h = used_total (as @ (True, n) # cs)"
    and addr: "heap_end h = mem_size_aligned h + 12" "0 < heap_ptr h" "heap_ptr h mod 4 = 0" "heap_ptr h + heap_end h + 12 \<le> 2 ^ 32"
      "12 \<le> mem_size_aligned h"
    using assms by (auto simp: rep_def)
  obtain x where x: "mems h (span as) = Some x" "h_prev x = prv 0 0 as" "h_next x = span as + n" "h_used x = 1"
    "h_magic x = HEAP_MAGIC" "12 \<le> n" "n mod 4 = 0"
    using segs_at [OF s] by (metis add_0)
  have total: "heap_end h = span as + n + span cs" using segs_end [OF s] by simp
  have al: "span as mod 4 = 0" by (rule segs_aligned [of "mems h" 0 0 as "span as"]) (use s in \<open>simp_all add: segs_append\<close>)
  have ol: "cs \<noteq> [] \<longrightarrow> ok_last cs" using assms by (auto simp: rep_def ok_last_def)
  have room: "span as + 12 < heap_end h" by (rule used_room [OF assms])
  define q where "q = span as"
  define h1 where "h1 = (put_mem q (x\<lparr> h_used := 0, h_magic := 0 \<rparr>) h)
    \<lparr> lfree := min q (lfree h), used_mem := sub32 (used_mem h) (sub32 (h_next x) q) \<rparr>"
  have s1: "segs (mems h1) 0 0 (as @ [(False, n)] @ cs) (heap_end h)"
  proof (rule segs_replace)
    show "segs (mems h) 0 0 (as @ [(True, n)] @ cs) (heap_end h)" using s by simp
    show "segs (mems h1) (prv 0 0 as) (0 + span as) [(False, n)] (0 + span as + span [(True, n)])"
      using x by (simp add: h1_def put_mem_def q_def blk_def)
    show "mems h1 p = mems h p" if "p < 0 + span as" for p using that by (simp add: h1_def put_mem_def q_def)
    have "segs (mems h) (span as) (span as + n) cs (heap_end h)" using s by (simp add: segs_append)
    then have "segs (mems h1) (span as) (span as + n) cs (heap_end h)"
      by (rule segs_frame [rotated]) (use x in \<open>simp add: h1_def put_mem_def q_def\<close>)
    then show "segs (mems h1) (prv (prv 0 0 as) (0 + span as) [(False, n)]) (0 + span as + span [(True, n)]) cs (heap_end h)"
      by simp
  qed
  have e1: "at_end h1" using e x total by (simp add: at_end_def h1_def put_mem_def q_def)
  have lf1: "lfree h1 = min q (lfree h)" by (simp add: h1_def)
  have h1: "heap_end h1 = heap_end h" "heap_ptr h1 = heap_ptr h" "mem_size_aligned h1 = mem_size_aligned h" "heap_bytes h1 = heap_bytes h"
    by (simp_all add: h1_def put_mem_def)
  have s1': "segs (mems h1) 0 0 (as @ (False, n) # cs) (heap_end h1)" using s1 h1 by simp
  have m1: "mems h1 q = Some (x\<lparr> h_used := 0, h_magic := 0 \<rparr>)" by (simp add: h1_def put_mem_def)
  obtain h2 k cs' where h2: "plug_forward (span as) h1 = Some h2"
    "h2 = h1\<lparr> mems := mems h2, lfree := fwd_lf (span as) n cs (lfree h1) \<rparr>" "at_end h2"
    "segs (mems h2) 0 0 (as @ (False, k) # cs') (heap_end h1)" "join_right n cs = (False, k) # cs'"
    using plug_forward_eq [OF s1' e1] by metis
  note eq2 = mems_only [OF h2(2)]
  have l2: "lfree h2 = min (span as) (lfree h)" using eq2(3) lf1 x(6) by (simp add: fwd_lf_def q_def min_def)
  have s2: "segs (mems h2) 0 0 (as @ (False, k) # cs') (heap_end h2)" using h2(4) eq2 by simp
  obtain h3 where h3: "plug_backward (span as) h2 = Some h3"
    "h3 = h2\<lparr> mems := mems h3, lfree := back_lf as (lfree h2) \<rparr>" "at_end h3"
    "segs (mems h3) 0 0 (join_left as k cs') (heap_end h2)"
    using plug_backward_eq [OF s2 h2(3)] by metis
  note eq3 = mems_only [OF h3(2)]
  have a4: "(heap_ptr h + span as + 12) mod 4 = 0" using addr(3) al by presburger
  have "rt_free (heap_ptr h + span as + 12) h = plug_holes q h1"
    using addr(1,2,4) a4 x total room by (simp add: rt_free_def h1_def q_def Let_def)
  also have "plug_holes q h1 = Some h3"
    using m1 h2(1) h3(1) x(6) total h1 by (simp add: plug_holes_def q_def)
  finally have run: "rt_free (heap_ptr h + span as + 12) h = Some h3" .
  have fr: "freed as n cs = join_left as k cs'" by (simp add: freed_def h2(5))
  have na': "no_adj as" "no_adj cs" using na by (auto simp: no_adj_append no_adj_Cons)
  have jr: "used_total cs' = used_total cs" "no_adj ((False, k) # cs')" "cs' \<noteq> [] \<longrightarrow> ok_last cs'"
    using join_right_props [OF h2(5)] na' ol by auto
  have "used_mem h1 = used_total as + used_total cs"
    using used_total_le [of "as @ (True, n) # cs"] total x(3,6) addr(4) by (simp add: h1_def um q_def)
  then have "rep h3 (freed as n cs)"
    using h3(3,4) eq2 eq3 h1 addr jr na' join_left_props(1,2,4) [of as k cs'] join_left_props(5) [of cs' as k] by (simp add: rep_def fr)
  then show thesis using that run eq2 eq3 h1 l2 by simp
qed

text \<open>The search pointer after a release: still a start, and the lowest free block if it was that before.\<close>

lemma is_start_append: "is_start as l \<Longrightarrow> is_start (as @ bs) l"
  by (force simp: is_start_def)

lemma is_start_prefix [simp]: "is_start (as @ bs) (span as)"
  by (force simp: is_start_def)

lemma is_start_cases:
  assumes "is_start (as @ bs) l" obtains "is_start as l" "l \<le> span as" | us vs where "bs = us @ vs" "l = span as + span us"
proof -
  obtain xs ys where "as @ bs = xs @ ys" "l = span xs" using assms by (auto simp: is_start_def)
  then consider us where "as = xs @ us" | us where "xs = as @ us" "bs = us @ ys"
    by (auto simp: append_eq_append_conv2)
  then show thesis using that \<open>l = span xs\<close> by cases auto
qed

lemma freed_start:
  assumes "is_start (as @ bs) l" shows "is_start (freed as n cs) (back_lf as (min (span as) l))"
proof -
  obtain k cs' where j: "join_right n cs = (False, k) # cs'" by (cases "(n, cs)" rule: join_right.cases) auto
  have st: "is_start as (min (span as) l)" "min (span as) l \<le> span as"
    using assms is_start_prefix [of as "[]"] by (auto elim!: is_start_cases simp: min_def)
  show ?thesis
  proof (cases "as \<noteq> [] \<and> \<not> fst (last as)")
    case True
    then obtain bs j where as: "as = bs @ [(False, j)]" by (metis append_butlast_last_id prod.collapse)
    show ?thesis
    proof (cases "min (span as) l = span as")
      case False
      then have "is_start bs (min (span as) l)"
        using st(1) unfolding as by (elim is_start_cases) (use is_start_prefix [of bs "[]"] in \<open>auto simp: append_eq_Cons_conv Cons_eq_append_conv\<close>)
      then show ?thesis using False \<open>join_right n cs = _\<close>
        by (simp add: freed_def join_left_def as back_lf_def is_start_append)
    qed (use True \<open>join_right n cs = _\<close> in \<open>simp add: freed_def join_left_def as back_lf_def\<close>)
  next
    case False
    then show ?thesis using st(1) j by (auto simp: freed_def join_left_def back_lf_def is_start_append)
  qed
qed

lemma freed_low:
  assumes "segs m 0 0 (as @ (True, n) # cs) e" "l = low 0 (as @ (True, n) # cs)"
  shows "back_lf as (min (span as) l) = low 0 (freed as n cs)"
proof -
  obtain k cs' where j: "join_right n cs = (False, k) # cs'" by (cases "(n, cs)" rule: join_right.cases) auto
  have "segs m 0 0 as (span as)" using assms(1) by (simp add: segs_append)
  then have "as \<noteq> [] \<and> \<not> fst (last as) \<longrightarrow> l < span as"
    using low_lt [of m 0 0 as "span as"] last_in_set [of as] assms(2) by fastforce
  then have "back_lf as (min (span as) l) = min (span as) l" by (auto simp: back_lf_def)
  then show ?thesis using join_left_props(3) [of as k cs' n cs] j assms(2) by (simp add: freed_def)
qed

end
