(* ===== verification/Rt_Heap_Alloc.thy ===== *)
theory Rt_Heap_Alloc
  imports Rt_Heap_Inv
begin

text \<open>
  Allocation on the block list: the search is a first fit, the taken block is split where the rest can hold
  a block, and the pointer to the lowest free block is kept.
\<close>

section \<open>The search\<close>

text \<open>The first free block that is not before \<open>lo\<close>, but before the limit, with room.\<close>

fun find_fit :: "nat \<Rightarrow> nat \<Rightarrow> nat \<Rightarrow> nat \<Rightarrow> blocks \<Rightarrow> (blocks \<times> nat \<times> blocks) option" where
  "find_fit sz lo limit p [] = None"
| "find_fit sz lo limit p ((u, n) # bs) =
    (if p < limit then
       if lo \<le> p \<and> \<not> u \<and> sz + 12 \<le> n then Some ([], n, bs)
       else map_option (\<lambda>(as, k, cs). ((u, n) # as, k, cs)) (find_fit sz lo limit (p + n) bs)
     else None)"

lemma find_fit_Some:
  "find_fit sz lo limit p bs = Some (as, n, cs) \<Longrightarrow>
   bs = as @ (False, n) # cs \<and> sz + 12 \<le> n \<and> lo \<le> p + span as \<and> p + span as < limit"
  by (induction sz lo limit p bs arbitrary: as rule: find_fit.induct) (auto split: if_splits)

lemma find_fit_None:
  assumes "find_fit sz lo limit p (as @ (False, n) # cs) = None" shows "n < sz + 12 \<or> p + span as < lo \<or> limit \<le> p + span as"
  using assms
proof (induction as arbitrary: p)
  case (Cons b as)
  then show ?case using Cons.IH [of "p + snd b"] by (cases b) (auto simp: add.assoc split: if_splits)
qed (auto split: if_splits)

lemma find_fit_beyond: "limit \<le> p \<Longrightarrow> find_fit sz lo limit p bs = None"
  by (cases bs) auto

lemma find_fit_skip:
  assumes "segs m pr p as lo"
  shows "find_fit sz lo limit p (as @ cs) = map_option (\<lambda>(bs, k, ds). (as @ bs, k, ds)) (find_fit sz lo limit lo cs)"
  using assms
proof (induction as arbitrary: pr p)
  case Nil
  then show ?case by (simp add: option.map_ident split_def)
next
  case (Cons b as)
  obtain u n where b: "b = (u, n)" by fastforce
  have lt: "p < lo" using segs_end [OF Cons.prems] Cons.prems by (auto simp: b blk_def)
  have "find_fit sz lo limit (p + n) (as @ cs) = map_option (\<lambda>(bs, k, ds). (as @ bs, k, ds)) (find_fit sz lo limit lo cs)"
    using Cons.prems by (intro Cons.IH [of p]) (simp add: b)
  then show ?case
    using lt find_fit_beyond [of limit lo sz lo cs] by (auto simp: b option.map_comp comp_def split_def)
qed

lemma find_fit_lo: "lo \<le> p \<Longrightarrow> find_fit sz lo limit p bs = find_fit sz 0 limit p bs"
  by (induction bs arbitrary: p) auto

lemma find_fit_from_low: "find_fit sz (low p bs) limit p bs = find_fit sz 0 limit p bs"
proof (induction bs arbitrary: p)
  case (Cons b bs)
  obtain u n where b: "b = (u, n)" by fastforce
  show ?case
  proof (cases u)
    case True
    then show ?thesis using Cons.IH [of "p + n"] by (simp add: b)
  next
    case False
    then show ?thesis using find_fit_lo [of p p sz limit "b # bs"] by (simp add: b del: find_fit.simps)
  qed
qed simp

lemma scan_eq:
  assumes "segs (mems h) pr p bs (heap_end h)" "limit \<le> heap_end h" "heap_end h < 2 ^ 32" "lo \<le> p"
  shows "malloc_scan h sz limit p = Some (map_option (\<lambda>(as, _). p + span as) (find_fit sz lo limit p bs))"
  using assms(1,4)
proof (induction bs arbitrary: pr p)
  case Nil
  then show ?case using assms(2) by (subst malloc_scan.simps) simp
next
  case (Cons b bs)
  obtain u n where b: "b = (u, n)" by fastforce
  have "heap_end h = p + n + span bs" using segs_end [OF Cons.prems(1)] by (simp add: b)
  moreover obtain x where "mems h p = Some x" "h_next x = p + n" "h_used x = (if u then 1 else 0)" "12 \<le> n"
    using Cons.prems by (auto simp: b blk_def)
  moreover have "malloc_scan h sz limit (p + n) = Some (map_option (\<lambda>(as, _). p + n + span as) (find_fit sz lo limit (p + n) bs))"
    using Cons.prems by (intro Cons.IH [of p]) (simp_all add: b)
  ultimately show ?case
    using assms(3) Cons.prems(2) by (subst malloc_scan.simps)
      (auto simp: b option.map_comp comp_def split_def add.assoc)
qed

text \<open>The search from the start of a block.\<close>

lemma scan_start:
  assumes "segs (mems h) 0 0 bs (heap_end h)" "limit \<le> heap_end h" "heap_end h < 2 ^ 32" "is_start bs l"
  shows "malloc_scan h sz limit l = Some (map_option (\<lambda>(as, _). span as) (find_fit sz l limit 0 bs))"
proof -
  obtain as cs where bs: "bs = as @ cs" "l = span as" using assms(4) by (auto simp: is_start_def)
  have s: "segs (mems h) 0 0 as l" "segs (mems h) (prv 0 0 as) l cs (heap_end h)" using assms(1) by (simp_all add: bs segs_append)
  show ?thesis
    using scan_eq [OF s(2) assms(2,3) order_refl] find_fit_skip [OF s(1)]
    by (simp add: bs option.map_comp comp_def split_def)
qed

lemma next_free_eq:
  assumes "segs (mems h) pr p bs (heap_end h)" "at_end h"
  shows "next_free h p = Some (low p bs)"
  using assms(1)
proof (induction bs arbitrary: pr p)
  case Nil
  with assms(2) show ?case by (subst next_free.simps) (auto simp: at_end_def)
next
  case (Cons b bs)
  obtain u n where b: "b = (u, n)" by fastforce
  obtain x where x: "mems h p = Some x" "h_next x = p + n" "h_used x = (if u then 1 else 0)" "12 \<le> n"
    using Cons.prems by (auto simp: b blk_def)
  have "p \<noteq> heap_end h" using segs_end [OF Cons.prems] x(4) by (simp add: b)
  moreover have "next_free h (p + n) = Some (low (p + n) bs)" using Cons.prems by (intro Cons.IH [of p]) (simp add: b)
  ultimately show ?case using x by (subst next_free.simps) (simp add: b)
qed

section \<open>Taking a block\<close>

definition place :: "nat \<Rightarrow> nat \<Rightarrow> blocks" where
  "place sz n = (if sz + 36 \<le> n then [(True, sz + 12), (False, n - 12 - sz)] else [(True, n)])"

text \<open>Putting a free block behind a block, as both allocation and shrinking do.\<close>

lemma split_block:
  assumes "segs (mems h) 0 0 (as @ (u, n) # cs) (heap_end h)" "at_end h" "mems h (span as) = Some x"
    and "12 \<le> k" "k mod 4 = 0" "k + 12 \<le> n" "v \<longrightarrow> h_magic y = HEAP_MAGIC" "h_used y = (if v then 1 else 0)"
    "h_next y = span as + k" "h_prev y = h_prev x" "e = heap_end h"
  obtains h' where
    "(if span as + n \<noteq> e then
        set_prev (span as + n) (span as + k)
          (put_mem (span as) y (put_mem (span as + k) \<lparr> h_magic = mg, h_used = 0, h_next = span as + n, h_prev = span as \<rparr> h))
      else Some (put_mem (span as) y (put_mem (span as + k) \<lparr> h_magic = mg, h_used = 0, h_next = span as + n, h_prev = span as \<rparr> h))) =
     Some h'"
    "h' = h\<lparr> mems := mems h' \<rparr>" "at_end h'" "segs (mems h') 0 0 (as @ (v, k) # (False, n - k) # cs) (heap_end h)"
proof -
  define q where "q = span as"
  define h1 where "h1 = put_mem q y (put_mem (q + k) \<lparr> h_magic = mg, h_used = 0, h_next = q + n, h_prev = q \<rparr> h)"
  have b: "blk (mems h) (prv 0 0 as) q u n" "segs (mems h) q (q + n) cs (heap_end h)"
    using assms(1) by (simp_all add: segs_append q_def)
  have n4: "n mod 4 = 0" using b(1) by (auto simp: blk_def)
  have e: "q + n \<le> heap_end h" using segs_end [OF b(2)] by simp
  have end1: "at_end h1" using assms(2,4,6) e by (auto simp: at_end_def h1_def put_mem_def)
  have s1: "segs (mems h1) q (q + n) cs (heap_end h1)"
    by (rule segs_frame [of "q + n" _ _ "mems h"]) (use assms(4,6) b(2) in \<open>simp_all add: h1_def put_mem_def\<close>)
  have other: "p \<noteq> q \<and> p \<noteq> q + k \<longrightarrow> mems h1 p = mems h p" for p by (simp add: h1_def put_mem_def)
  obtain h' where h': "(if q + n \<noteq> e then set_prev (q + n) (q + k) h1 else Some h1) = Some h'" "h' = h1\<lparr> mems := mems h' \<rparr>"
    "at_end h'" "segs (mems h') (q + k) (q + n) cs (heap_end h1)" "\<forall>p. p \<noteq> q + n \<longrightarrow> mems h' p = mems h1 p"
  proof (cases "q + n = e")
    case True
    have "segs (mems h) q (q + n) cs (q + n)" using b(2) True assms(11) by simp
    then have "cs = []" by (rule segs_empty)
    with True s1 end1 show thesis by (intro that [of h1]) simp_all
  next
    case False
    obtain h' where "set_prev (q + n) (q + k) h1 = Some h'" "h' = h1\<lparr> mems := mems h' \<rparr>"
      "segs (mems h') (q + k) (q + n) cs (heap_end h1)" "at_end h'" "\<forall>p. p \<noteq> q + n \<longrightarrow> mems h' p = mems h1 p"
      by (rule set_prev_behind [OF s1 end1])
    with False show thesis by (intro that [of h']) simp_all
  qed
  have "segs (mems h') 0 0 (as @ [(v, k), (False, n - k)] @ cs) (heap_end h)"
  proof (rule segs_replace)
    show "segs (mems h) 0 0 (as @ [(u, n)] @ cs) (heap_end h)" using assms(1) by simp
    have "mems h' q = Some y" "mems h' (q + k) = Some \<lparr> h_magic = mg, h_used = 0, h_next = q + n, h_prev = q \<rparr>"
      using h'(5) assms(4,6) by (simp_all add: h1_def put_mem_def)
    moreover have "h_prev y = prv 0 0 as" using b(1) assms(3,10) by (auto simp: blk_def q_def)
    moreover have "(n - k) mod 4 = 0" using n4 assms(5,6) by presburger
    ultimately show "segs (mems h') (prv 0 0 as) (0 + span as) [(v, k), (False, n - k)] (0 + span as + span [(u, n)])"
      using assms(4-9) by (auto simp: blk_def q_def)
    show "mems h' p = mems h p" if "p < 0 + span as" for p
      using h'(5) other that assms(4,6) by (simp add: q_def)
    show "segs (mems h') (prv (prv 0 0 as) (0 + span as) [(v, k), (False, n - k)]) (0 + span as + span [(u, n)]) cs (heap_end h)"
      using h'(4) by (simp add: h1_def put_mem_def q_def)
  qed
  moreover have "h' = h\<lparr> mems := mems h' \<rparr>" using h'(2) by (simp add: h1_def put_mem_def)
  ultimately show thesis
    using that [OF h'(1) [unfolded h1_def q_def] _ h'(3)] by simp
qed

lemma used_total_place: "sz + 12 \<le> n \<Longrightarrow> used_total (place sz n) = (if sz + 36 \<le> n then sz + 12 else n)"
  by (simp add: place_def)

lemma malloc_take_rep:
  assumes "rep h (as @ (False, n) # cs)" "12 \<le> sz" "sz mod 4 = 0" "sz + 12 \<le> n"
  obtains h' where "malloc_take mg sz (span as) h = Some h'" "segs (mems h') 0 0 (as @ place sz n @ cs) (heap_end h)"
    "at_end h'" "used_mem h' = used_total (as @ place sz n @ cs)" "lfree h' = lfree h" "heap_ptr h' = heap_ptr h"
    "heap_end h' = heap_end h" "mem_size_aligned h' = mem_size_aligned h" "heap_bytes h' = heap_bytes h"
proof -
  have s: "segs (mems h) 0 0 (as @ (False, n) # cs) (heap_end h)" and e: "at_end h"
    and um: "used_mem h = used_total (as @ (False, n) # cs)"
    and addr: "heap_end h = mem_size_aligned h + 12" "heap_ptr h + heap_end h + 12 \<le> 2 ^ 32"
    using assms(1) by (auto simp: rep_def)
  obtain x where x: "mems h (span as) = Some x" "h_prev x = prv 0 0 as" "h_next x = span as + n" "h_used x = 0" "n mod 4 = 0"
    using segs_at [OF s] by (metis add_0)
  have total: "heap_end h = span as + n + span cs" using segs_end [OF s] by simp
  have ub: "used_total as + used_total cs \<le> span as + span cs" using used_total_le [of as] used_total_le [of cs] by simp
  have left: "sub32 (h_next x) (span as + 12) = n - 12" using total addr x(3) assms(4) by simp
  have k4: "(sz + 12) mod 4 = 0" using assms(3) by presburger
  show thesis
  proof (cases "sz + 36 \<le> n")
    case True
    obtain h3 where h3:
      "(if span as + n \<noteq> heap_end h then
          set_prev (span as + n) (span as + (sz + 12))
            (put_mem (span as) (x\<lparr> h_next := span as + (sz + 12), h_used := 1, h_magic := HEAP_MAGIC \<rparr>)
              (put_mem (span as + (sz + 12)) \<lparr> h_magic = mg, h_used = 0, h_next = span as + n, h_prev = span as \<rparr> h))
        else Some (put_mem (span as) (x\<lparr> h_next := span as + (sz + 12), h_used := 1, h_magic := HEAP_MAGIC \<rparr>)
              (put_mem (span as + (sz + 12)) \<lparr> h_magic = mg, h_used = 0, h_next = span as + n, h_prev = span as \<rparr> h))) =
       Some h3"
      "h3 = h\<lparr> mems := mems h3 \<rparr>" "at_end h3" "segs (mems h3) 0 0 (as @ (True, sz + 12) # (False, n - (sz + 12)) # cs) (heap_end h)"
      by (rule split_block [OF s e x(1), of "sz + 12" True "x\<lparr> h_next := span as + (sz + 12), h_used := 1, h_magic := HEAP_MAGIC \<rparr>" "heap_end h" mg])
        (use assms(2,4) k4 True in simp_all)
    have "h3 = h\<lparr> mems := mems h3, lfree := lfree h \<rparr>" by (subst h3(2)) simp
    note eq = mems_only [OF this]
    have "malloc_take mg sz (span as) h = Some (count_used (sz + 12) h3)"
      using h3(1) x True left addr(1) by (simp add: malloc_take_def Let_def add.commute add.left_commute split: if_splits)
    moreover have "used_mem (count_used (sz + 12) h3) = used_total (as @ place sz n @ cs)"
      using eq um ub total addr True by (simp add: count_used_def Let_def place_def)
    ultimately show thesis
      using h3(3,4) eq True by (intro that [of "count_used (sz + 12) h3"]) (simp_all add: count_used_def Let_def place_def at_end_def add.commute)
  next
    case False
    have not_split: "\<not> 24 + sz \<le> n - 12" using False assms(4) by simp
    define h1 where "h1 = put_mem (span as) (x\<lparr> h_used := 1, h_magic := HEAP_MAGIC \<rparr>) h"
    have "segs (mems h1) 0 0 (as @ [(True, n)] @ cs) (heap_end h)"
    proof (rule segs_replace)
      show "segs (mems h) 0 0 (as @ [(False, n)] @ cs) (heap_end h)" using s by simp
      show "segs (mems h1) (prv 0 0 as) (0 + span as) [(True, n)] (0 + span as + span [(False, n)])"
        using x assms by (simp add: h1_def put_mem_def blk_def)
      show "mems h1 p = mems h p" if "p < 0 + span as" for p using that by (simp add: h1_def put_mem_def)
      have "segs (mems h) (span as) (span as + n) cs (heap_end h)" using s by (simp add: segs_append)
      then have "segs (mems h1) (span as) (span as + n) cs (heap_end h)"
        by (rule segs_frame [rotated]) (use assms in \<open>simp add: h1_def put_mem_def\<close>)
      then show "segs (mems h1) (prv (prv 0 0 as) (0 + span as) [(True, n)]) (0 + span as + span [(False, n)]) cs (heap_end h)"
        by simp
    qed
    moreover have "malloc_take mg sz (span as) h = Some (count_used n h1)"
      using x not_split left total addr assms(4) by (simp add: malloc_take_def h1_def)
    moreover have "used_mem (count_used n h1) = used_total (as @ place sz n @ cs)"
      using um ub total addr False by (simp add: count_used_def Let_def h1_def put_mem_def place_def)
    moreover have "at_end (count_used n h1)" using e total assms(4) by (simp add: at_end_def count_used_def Let_def h1_def put_mem_def)
    ultimately show thesis
      using False by (intro that [of "count_used n h1"]) (simp_all add: count_used_def Let_def h1_def put_mem_def place_def)
  qed
qed

section \<open>Allocation\<close>

text \<open>Which block an allocation of \<open>n\<close> bytes takes.\<close>

definition data_size :: "nat \<Rightarrow> nat" where
  "data_size n = max (rt_align n) 12"

definition fit :: "nat \<Rightarrow> nat \<Rightarrow> blocks \<Rightarrow> (blocks \<times> nat \<times> blocks) option" where
  "fit n lo bs =
    (if n = 0 \<or> span bs - 12 < rt_align n then None
     else find_fit (data_size n) lo (span bs - 12 - data_size n) 0 bs)"

lemma fit_Some:
  assumes "fit n lo bs = Some (as, k, cs)"
  shows "bs = as @ (False, k) # cs" "data_size n + 12 \<le> k" "n \<noteq> 0" "lo \<le> span as"
  using assms find_fit_Some [of "data_size n" lo "span bs - 12 - data_size n" 0 bs as k cs]
  by (simp_all add: fit_def split: if_splits)

lemma data_size_aligned: "12 \<le> data_size n" "data_size n mod 4 = 0"
  by (auto simp: data_size_def rt_align_def max_def)

lemma data_size_enough: "n < 2 ^ 32 - 3 \<Longrightarrow> n \<le> data_size n"
  by (simp add: data_size_def rt_align_def)

lemma rep_span: "rep h bs \<Longrightarrow> heap_end h = span bs \<and> mem_size_aligned h = span bs - 12 \<and> span bs < 2 ^ 32 \<and> 24 \<le> span bs"
proof -
  assume r: "rep h bs"
  then have "segs (mems h) 0 0 bs (heap_end h)" unfolding rep_def by blast
  from segs_end [OF this] show ?thesis using r by (simp add: rep_def)
qed

text \<open>What the search finds, in the terms of \<open>rt_malloc\<close>.\<close>

lemma malloc_search:
  assumes "rep h bs" "is_start bs (lfree h)" "n \<noteq> 0" "\<not> span bs - 12 < rt_align n"
  shows "malloc_scan h (data_size n) (sub32 (mem_size_aligned h) (data_size n)) (lfree h) =
    Some (map_option (\<lambda>(as, _). span as) (fit n (lfree h) bs))"
proof -
  note sp = rep_span [OF assms(1)]
  have s: "segs (mems h) 0 0 bs (heap_end h)" using assms(1) unfolding rep_def by blast
  have "data_size n \<le> span bs - 12" using assms(4) sp unfolding data_size_def by linarith
  then have "sub32 (mem_size_aligned h) (data_size n) = span bs - 12 - data_size n"
    using sp by (subst sub32_le; linarith)
  then show ?thesis using scan_start [OF s _ _ assms(2)] sp assms(3,4) by (simp add: fit_def)
qed

lemma rt_malloc_None:
  assumes "rep h bs" "is_start bs (lfree h)" "fit n (lfree h) bs = None" shows "rt_malloc mg n h = Some (h, RT_NULL)"
proof (cases "n = 0 \<or> span bs - 12 < rt_align n")
  case True
  then show ?thesis using rep_span [OF assms(1)] by (auto simp: rt_malloc_def)
next
  case False
  then show ?thesis using malloc_search [OF assms(1,2), of n] rep_span [OF assms(1)] assms(3)
    by (simp add: rt_malloc_def data_size_def [symmetric] Let_def)
qed

lemma no_adj_place:
  assumes "no_adj (as @ (False, n) # cs)" shows "no_adj (as @ place sz n @ cs)"
  using assms by (auto simp: no_adj_append no_adj_Cons place_def)

lemma ok_last_place:
  assumes "ok_last (as @ (False, n) # cs)" "sz + 12 \<le> n" "12 \<le> sz" shows "ok_last (as @ place sz n @ cs)"
  using assms by (cases "cs = []") (auto simp: ok_last_def place_def)

definition place_lf :: "nat \<Rightarrow> nat \<Rightarrow> blocks \<Rightarrow> nat" where
  "place_lf l q bs = (if q = l then low q bs else l)"

lemma rt_malloc_Some:
  assumes "rep h bs" "is_start bs (lfree h)" "fit n (lfree h) bs = Some (as, k, cs)"
  obtains h' where "rt_malloc mg n h = Some (h', heap_ptr h + span as + 12)" "rep h' (as @ place (data_size n) k @ cs)"
    "lfree h' = place_lf (lfree h) (span as) (place (data_size n) k @ cs)"
    "heap_ptr h' = heap_ptr h" "heap_end h' = heap_end h" "mem_size_aligned h' = mem_size_aligned h" "heap_bytes h' = heap_bytes h"
proof -
  note ft = fit_Some [OF assms(3)]
  note r = assms(1) [unfolded ft(1)]
  have s: "segs (mems h) 0 0 (as @ (False, k) # cs) (heap_end h)" "12 \<le> mem_size_aligned h"
    "no_adj (as @ (False, k) # cs)" "ok_last (as @ (False, k) # cs)" "heap_end h = mem_size_aligned h + 12"
    "0 < heap_ptr h" "heap_ptr h mod 4 = 0" "heap_ptr h + heap_end h + 12 \<le> 2 ^ 32" using r by (auto simp: rep_def)
  note sp = rep_span [OF assms(1)]
  have nz: "\<not> span bs - 12 < rt_align n" using assms(3) by (simp add: fit_def split: if_splits)
  note scan = malloc_search [OF assms(1,2) ft(3) nz]
  obtain h1 where h1: "malloc_take mg (data_size n) (span as) h = Some h1"
    "segs (mems h1) 0 0 (as @ place (data_size n) k @ cs) (heap_end h)"
    "at_end h1" "used_mem h1 = used_total (as @ place (data_size n) k @ cs)" "lfree h1 = lfree h" "heap_ptr h1 = heap_ptr h"
    "heap_end h1 = heap_end h" "mem_size_aligned h1 = mem_size_aligned h" "heap_bytes h1 = heap_bytes h"
    by (rule malloc_take_rep [OF r data_size_aligned ft(2)])
  define h2 where "h2 = h1\<lparr> lfree := place_lf (lfree h1) (span as) (place (data_size n) k @ cs) \<rparr>"
  have nf: "next_free h1 (span as) = Some (low (span as) (place (data_size n) k @ cs))"
    using h1(2,3,7) by (intro next_free_eq [of _ "prv 0 0 as"]) (simp_all add: segs_append)
  have step: "(if span as = lfree h1 then do { p \<leftarrow> next_free h1 (lfree h1); Some (h1\<lparr> lfree := p \<rparr>) } else Some h1) = Some h2"
  proof (cases "span as = lfree h1")
    case True
    from nf show ?thesis by (simp add: h2_def place_lf_def flip: True)
  qed (simp add: h2_def place_lf_def)
  have fl: "heap_ptr h2 = heap_ptr h" "heap_end h2 = heap_end h" "mem_size_aligned h2 = mem_size_aligned h" "heap_bytes h2 = heap_bytes h"
    "mems h2 = mems h1" "used_mem h2 = used_mem h1" "lfree h2 = place_lf (lfree h) (span as) (place (data_size n) k @ cs)"
    using h1 by (simp_all add: h2_def)
  have al: "span as mod 4 = 0" by (rule segs_aligned [of "mems h" 0 0 as "span as"]) (use s(1) in \<open>simp_all add: segs_append\<close>)
  have a4: "(heap_ptr h + span as + 12) mod 4 = 0" "(heap_ptr h + span as) mod 4 = 0" using s(7) al by presburger+
  have room: "span as + 12 + data_size n \<le> heap_end h" using segs_end [OF s(1)] ft(2) by simp
  have "rt_malloc mg n h = Some (h2, heap_ptr h + span as + 12)"
    using ft(3) nz sp scan assms(3) h1(1) step a4 room fl
    by (simp add: rt_malloc_def data_size_def [symmetric] Let_def)
  moreover have "rep h2 (as @ place (data_size n) k @ cs)"
    using s fl h1 no_adj_place [OF s(3), of "data_size n"] ok_last_place [OF s(4) ft(2) data_size_aligned(1)]
    by (simp add: rep_def at_end_def) (simp add: place_def)
  ultimately show thesis using that fl by simp
qed

lemma low_start: "is_start (as @ bs) (low (span as) bs)"
proof (induction bs arbitrary: as)
  case Nil
  then show ?case using is_start_prefix [of as "[]"] by simp
next
  case (Cons b bs)
  obtain u n where b: "b = (u, n)" by fastforce
  show ?case using Cons.IH [of "as @ [b]"] is_start_prefix [of as "b # bs"] by (cases u) (simp_all add: b)
qed

lemma place_start:
  assumes "is_start (as @ (False, k) # cs) l" "l \<le> span as" "0 < k"
  shows "is_start (as @ place sz k @ cs) (place_lf l (span as) (place sz k @ cs))"
proof (cases "l = span as")
  case False
  then have "is_start as l"
    using assms by (elim is_start_cases) (auto simp: Cons_eq_append_conv)
  with False show ?thesis by (simp add: place_lf_def is_start_append)
qed (simp add: place_lf_def low_start)

lemma place_low:
  assumes "segs m 0 0 (as @ (False, k) # cs) e" "l = low 0 (as @ (False, k) # cs)"
  shows "place_lf l (span as) (place sz k @ cs) = low 0 (as @ place sz k @ cs)"
proof (cases "\<forall>b \<in> set as. fst b")
  case True
  then have "l = span as" "low 0 (as @ place sz k @ cs) = low (span as) (place sz k @ cs)"
    using assms(2) by (auto simp: low_append)
  then show ?thesis by (simp add: place_lf_def)
next
  case False
  have "segs m 0 0 as (span as)" using assms(1) by (simp add: segs_append)
  with False have "l < span as" using low_lt [of m 0 0 as "span as"] assms(2) by simp
  then show ?thesis using False assms(2) by (auto simp: place_lf_def low_append)
qed

end
