(* ===== verification/Rt_Heap_Realloc.thy ===== *)
theory Rt_Heap_Realloc
  imports Rt_Heap_Alloc
begin

text \<open>
  Reallocation on the block list, and the used blocks as a list of offsets and lengths: what each operation
  adds and takes away.
\<close>

section \<open>Used blocks\<close>

fun useds :: "nat \<Rightarrow> blocks \<Rightarrow> (nat \<times> nat) list" where
  "useds p [] = []"
| "useds p ((u, n) # bs) = (if u then (p, n) # useds (p + n) bs else useds (p + n) bs)"

lemma useds_append [simp]: "useds p (as @ bs) = useds p as @ useds (p + span as) bs"
  by (induction as arbitrary: p) (auto simp: add.assoc)

lemma useds_split:
  assumes "(q, n) \<in> set (useds p bs)" obtains as cs where "bs = as @ (True, n) # cs" "q = p + span as"
proof -
  have "\<exists>as cs. bs = as @ (True, n) # cs \<and> q = p + span as" using assms
  proof (induction bs arbitrary: p)
    case (Cons b bs)
    obtain u k where b: "b = (u, k)" by fastforce
    show ?case
    proof (cases "u \<and> (q, n) = (p, k)")
      case True
      then show ?thesis by (intro exI [of _ "[]"] exI [of _ bs]) (simp add: b)
    next
      case False
      with Cons.prems have "(q, n) \<in> set (useds (p + k) bs)" by (auto simp: b split: if_splits)
      from Cons.IH [OF this] obtain as cs where "bs = as @ (True, n) # cs" "q = p + k + span as" by blast
      then show ?thesis by (intro exI [of _ "b # as"] exI [of _ cs]) (simp add: b)
    qed
  qed simp
  then show thesis using that by blast
qed

lemma useds_sorted:
  assumes "segs m pr p bs e"
  shows "sorted_wrt (\<lambda>a b. fst a + snd a \<le> fst b) (useds p bs)" "\<forall>(q, n) \<in> set (useds p bs). p \<le> q \<and> 12 \<le> n \<and> q + n \<le> e"
proof -
  have "sorted_wrt (\<lambda>a b. fst a + snd a \<le> fst b) (useds p bs) \<and> (\<forall>(q, n) \<in> set (useds p bs). p \<le> q \<and> 12 \<le> n \<and> q + n \<le> e)"
    using assms
  proof (induction bs arbitrary: pr p)
    case (Cons b bs)
    obtain u k where b: "b = (u, k)" by fastforce
    have "p + k \<le> e" using segs_end [OF Cons.prems] by (simp add: b)
    moreover have "12 \<le> k" using Cons.prems by (auto simp: b blk_def)
    moreover have "sorted_wrt (\<lambda>a b. fst a + snd a \<le> fst b) (useds (p + k) bs) \<and>
      (\<forall>(q, n) \<in> set (useds (p + k) bs). p + k \<le> q \<and> 12 \<le> n \<and> q + n \<le> e)"
      using Cons.prems by (intro Cons.IH [of p]) (simp add: b)
    ultimately show ?case by (cases u) (auto simp: b split_beta)
  qed simp
  then show "sorted_wrt (\<lambda>a b. fst a + snd a \<le> fst b) (useds p bs)" "\<forall>(q, n) \<in> set (useds p bs). p \<le> q \<and> 12 \<le> n \<and> q + n \<le> e"
    by blast+
qed

text \<open>Two used blocks do not overlap.\<close>

lemma useds_disjoint:
  assumes "segs m pr p bs e" "(q, n) \<in> set (useds p bs)" "(q', n') \<in> set (useds p bs)"
  shows "(q = q' \<and> n = n') \<or> q + n \<le> q' \<or> q' + n' \<le> q"
proof -
  obtain i where i: "i < length (useds p bs)" "useds p bs ! i = (q, n)" using assms(2) by (auto simp: in_set_conv_nth)
  obtain j where j: "j < length (useds p bs)" "useds p bs ! j = (q', n')" using assms(3) by (auto simp: in_set_conv_nth)
  note lt = sorted_wrt_nth_less [OF useds_sorted(1) [OF assms(1)]]
  show ?thesis
  proof (cases i j rule: linorder_cases)
    case less
    with lt [of i j] i j show ?thesis by simp
  next
    case greater
    with lt [of j i] i j show ?thesis by simp
  qed (use i j in simp)
qed

definition placed :: "nat \<Rightarrow> nat \<Rightarrow> nat" where
  "placed sz k = (if sz + 36 \<le> k then sz + 12 else k)"

lemma useds_place [simp]: "useds p (place sz k) = [(p, placed sz k)]"
  by (simp add: place_def placed_def)

lemma span_place: "sz + 12 \<le> k \<Longrightarrow> span (place sz k) = k"
  by (simp add: place_def)

lemma useds_freed: "useds 0 (freed as n cs) = useds 0 as @ useds (span as + n) cs"
proof -
  obtain k cs' where j: "join_right n cs = (False, k) # cs'" by (cases "(n, cs)" rule: join_right.cases) auto
  have right: "useds (span as + k) cs' = useds (span as + n) cs"
    using j by (cases "(n, cs)" rule: join_right.cases) (auto simp: add.assoc)
  show ?thesis
  proof (cases "as \<noteq> [] \<and> \<not> fst (last as)")
    case True
    then obtain bs i where "as = bs @ [(False, i)]" by (metis append_butlast_last_id prod.collapse)
    then show ?thesis using j right by (simp add: freed_def join_left_def add.assoc)
  qed (use j right in \<open>auto simp: freed_def join_left_def\<close>)
qed

lemma useds_all_free: "useds p bs = [] \<longleftrightarrow> (\<forall>b \<in> set bs. \<not> fst b)"
proof (induction bs arbitrary: p)
  case (Cons b bs)
  then show ?case by (cases b) auto
qed simp

lemma all_free_single:
  assumes "no_adj bs" "\<forall>b \<in> set bs. \<not> fst b" obtains "bs = []" | j where "bs = [(False, j)]"
  using assms by (cases bs rule: no_adj.cases) auto

section \<open>Shrinking a block\<close>

definition shrunk :: "blocks \<Rightarrow> nat \<Rightarrow> nat \<Rightarrow> blocks \<Rightarrow> blocks" where
  "shrunk as sz n cs = as @ (True, sz + 12) # join_right (n - sz - 12) cs"

lemma is_startI: "bs = as @ cs \<Longrightarrow> l = span as \<Longrightarrow> is_start bs l"
  by (auto simp: is_start_def)

lemma shrunk_start:
  assumes "is_start (as @ (True, n) # cs) l" "sz + 12 \<le> n"
  shows "is_start (shrunk as sz n cs) (fwd_lf (span as + (sz + 12)) (n - (sz + 12)) cs l)"
  using assms(1)
proof (cases rule: is_start_cases)
  case 1
  then show ?thesis using assms(2) by (auto simp: shrunk_def fwd_lf_def is_start_append)
next
  case (2 us vs)
  show ?thesis
  proof (cases us)
    case Nil
    with 2 assms(2) show ?thesis
      by (auto simp: shrunk_def fwd_lf_def is_start_append intro: is_start_append is_start_prefix [of as "[]", simplified])
  next
    case (Cons x us')
    with 2 have l: "l = span as + n + span us'" "cs = us' @ vs" by auto
    have q: "is_start (shrunk as sz n cs) (span as + (sz + 12))"
      by (rule is_startI [of _ "as @ [(True, sz + 12)]" "join_right (n - sz - 12) cs"]) (simp_all add: shrunk_def)
    show ?thesis
    proof (cases "cs \<noteq> [] \<and> \<not> fst (hd cs)")
      case False
      then have j: "join_right (n - sz - 12) cs = (False, n - sz - 12) # cs"
        by (cases "(n - sz - 12, cs)" rule: join_right.cases) auto
      have "is_start (shrunk as sz n cs) l"
        by (rule is_startI [of _ "as @ [(True, sz + 12), (False, n - sz - 12)] @ us'" vs])
          (use j l assms(2) in \<open>simp_all add: shrunk_def\<close>)
      then show ?thesis using False by (auto simp: fwd_lf_def)
    next
      case True
      then obtain j cs' where cs: "cs = (False, j) # cs'" by (cases cs; cases "hd cs") auto
      show ?thesis
      proof (cases us')
        case Nil
        with True l assms(2) q show ?thesis by (simp add: fwd_lf_def)
      next
        case (Cons y us2)
        have "is_start (shrunk as sz n cs) l"
          by (rule is_startI [of _ "as @ [(True, sz + 12), (False, n - sz - 12 + j)] @ us2" vs])
            (use l cs Cons assms(2) in \<open>auto simp: shrunk_def\<close>)
        with q show ?thesis by (simp add: fwd_lf_def)
      qed
    qed
  qed
qed

lemma useds_shrunk:
  assumes "sz + 12 \<le> n"
  shows "useds 0 (shrunk as sz n cs) = useds 0 as @ (span as, sz + 12) # useds (span as + n) cs"
proof -
  have "useds q (join_right k cs) = useds (q + k) cs" for q k
    by (cases "(k, cs)" rule: join_right.cases) (auto simp: add.assoc)
  then show ?thesis using assms by (simp add: shrunk_def)
qed

lemma rt_realloc_shrink:
  assumes "rep h (as @ (True, n) # cs)" "rt_align ns + 24 < n - 12" "is_start (as @ (True, n) # cs) (lfree h)"
  obtains h' where "rt_realloc mg (heap_ptr h + span as + 12) ns h = Some (h', heap_ptr h + span as + 12)"
    "rep h' (shrunk as (rt_align ns) n cs)" "is_start (shrunk as (rt_align ns) n cs) (lfree h')"
    "heap_ptr h' = heap_ptr h" "heap_end h' = heap_end h" "mem_size_aligned h' = mem_size_aligned h" "heap_bytes h' = heap_bytes h"
proof -
  define sz where "sz = rt_align ns"
  have s: "segs (mems h) 0 0 (as @ (True, n) # cs) (heap_end h)" "at_end h"
    "no_adj (as @ (True, n) # cs)" "ok_last (as @ (True, n) # cs)" "used_mem h = used_total (as @ (True, n) # cs)"
    and addr: "heap_end h = mem_size_aligned h + 12" "0 < heap_ptr h" "heap_ptr h mod 4 = 0" "heap_ptr h + heap_end h + 12 \<le> 2 ^ 32"
      "12 \<le> mem_size_aligned h"
    using assms(1) by (auto simp: rep_def)
  obtain x where x: "mems h (span as) = Some x" "h_prev x = prv 0 0 as" "h_next x = span as + n" "h_used x = 1"
    "h_magic x = HEAP_MAGIC" "n mod 4 = 0"
    using segs_at [OF s(1)] by (metis add_0)
  have total: "heap_end h = span as + n + span cs" using segs_end [OF s(1)] by simp
  have sz: "sz mod 4 = 0" "(sz + 12) mod 4 = 0" "sz + 36 < n"
    using assms(2) by (simp_all add: sz_def rt_align_def)
  define h0 where "h0 = h\<lparr> used_mem := sub32 (used_mem h) (n - 12 - sz) \<rparr>"
  have h0: "segs (mems h0) 0 0 (as @ (True, n) # cs) (heap_end h0)" "at_end h0" "mems h0 (span as) = Some x"
    using s(1,2) x(1) by (simp_all add: h0_def at_end_def)
  obtain h1 where h1:
    "(if span as + n \<noteq> heap_end h0 then
        set_prev (span as + n) (span as + (sz + 12))
          (put_mem (span as) (x\<lparr> h_next := span as + (sz + 12) \<rparr>)
            (put_mem (span as + (sz + 12)) \<lparr> h_magic = HEAP_MAGIC, h_used = 0, h_next = span as + n, h_prev = span as \<rparr> h0))
      else Some (put_mem (span as) (x\<lparr> h_next := span as + (sz + 12) \<rparr>)
            (put_mem (span as + (sz + 12)) \<lparr> h_magic = HEAP_MAGIC, h_used = 0, h_next = span as + n, h_prev = span as \<rparr> h0))) =
     Some h1"
    "h1 = h0\<lparr> mems := mems h1 \<rparr>" "at_end h1" "segs (mems h1) 0 0 (as @ (True, sz + 12) # (False, n - (sz + 12)) # cs) (heap_end h0)"
    by (rule split_block [OF h0, of "sz + 12" True "x\<lparr> h_next := span as + (sz + 12) \<rparr>" "heap_end h0" HEAP_MAGIC])
      (use sz x in simp_all)
  have "h1 = h0\<lparr> mems := mems h1, lfree := lfree h0 \<rparr>" by (subst h1(2)) simp
  note eq1 = mems_only [OF this]
  define as' where "as' = as @ [(True, sz + 12)]"
  have sp: "span as' = span as + (sz + 12)" by (simp add: as'_def)
  have s1: "segs (mems h1) 0 0 (as' @ (False, n - (sz + 12)) # cs) (heap_end h1)" using h1(4) eq1 by (simp add: as'_def)
  obtain h2 k cs' where h2: "plug_forward (span as') h1 = Some h2"
    "h2 = h1\<lparr> mems := mems h2, lfree := fwd_lf (span as') (n - (sz + 12)) cs (lfree h1) \<rparr>" "at_end h2"
    "segs (mems h2) 0 0 (as' @ (False, k) # cs') (heap_end h1)" "join_right (n - (sz + 12)) cs = (False, k) # cs'"
    using plug_forward_eq [OF s1 h1(3)] by metis
  note eq2 = mems_only [OF h2(2)]
  have s2: "segs (mems h2) 0 0 (as' @ (False, k) # cs') (heap_end h2)" using h2(4) eq2 by simp
  obtain h3 where h3: "plug_backward (span as') h2 = Some h3" "h3 = h2\<lparr> mems := mems h3, lfree := back_lf as' (lfree h2) \<rparr>" "at_end h3"
    "segs (mems h3) 0 0 (join_left as' k cs') (heap_end h2)"
    using plug_backward_eq [OF s2 h2(3)] by metis
  note eq3 = mems_only [OF h3(2)]
  have list: "join_left as' k cs' = shrunk as sz n cs" using h2(5) by (simp add: join_left_def as'_def shrunk_def)
  obtain y where y: "mems h1 (span as') = Some y" "h_used y = 0" using segs_at [OF s1] by (metis add_0)
  have plug: "plug_holes (span as') h1 = Some h3"
    using y h2(1) h3(1) total sz eq1 by (simp add: plug_holes_def sp h0_def)
  have room: "sz \<le> mem_size_aligned h" "sub32 (sub32 (h_next x) (span as)) 12 = n - 12" "sub32 (n - 12) sz = n - 12 - sz"
    using total addr sz x(3) by simp_all
  have ad: "span as' = span as + 12 + sz" by (simp add: sp)
  have he: "heap_end h0 = mem_size_aligned h + 12" using addr(1) by (simp add: h0_def)
  have h1': "(if h_next x \<noteq> mem_size_aligned h + 12 then
        set_prev (h_next x) (span as')
          (put_mem (span as) (x\<lparr> h_next := span as' \<rparr>)
            (put_mem (span as') \<lparr> h_magic = HEAP_MAGIC, h_used = 0, h_next = h_next x, h_prev = span as \<rparr> h0))
      else Some (put_mem (span as) (x\<lparr> h_next := span as' \<rparr>)
            (put_mem (span as') \<lparr> h_magic = HEAP_MAGIC, h_used = 0, h_next = h_next x, h_prev = span as \<rparr> h0))) = Some h1"
    using h1(1) by (simp only: sp x(3) he)
  have ptr: "0 < span as + 12" "span as + 12 < heap_end h" using total sz by simp_all
  have "sub32 (used_mem h) (sub32 (n - 12) sz) = sub32 (used_mem h) (n - 12 - sz)" using room(3) by simp
  then have "realloc_split sz (n - 12) (span as) h = Some h3"
    unfolding realloc_split_def Let_def ad [symmetric] x(1) Option.bind.simps h0_def [symmetric]
    by (simp only: h0_def [symmetric] h1' Option.bind.simps plug)
  then have run: "rt_realloc mg (heap_ptr h + span as + 12) ns h = Some (h3, heap_ptr h + span as + 12)"
    using ptr room(1,2) assms(2) x(1) by (auto simp: rt_realloc_def sz_def Let_def)
  have nc: "no_adj cs" "cs \<noteq> [] \<longrightarrow> ok_last cs" using s(3,4) by (auto simp: no_adj_append no_adj_Cons ok_last_def)
  have jr: "used_total cs' = used_total cs" "no_adj ((False, k) # cs')" "cs' \<noteq> [] \<longrightarrow> ok_last cs'"
    using join_right_props [OF h2(5)] nc by simp_all
  have "used_mem h0 = used_total as + used_total cs + (sz + 12)"
    using used_total_le [of "as @ (True, n) # cs"] total addr sz s(5) by (simp add: h0_def)
  then have "rep h3 (shrunk as sz n cs)"
    using h3(3,4) eq1 eq2 eq3 addr jr s(3) join_left_props(1,2,4) [of as' k cs'] join_left_props(5) [of cs' as' k]
    by (simp add: rep_def list) (simp add: h0_def as'_def no_adj_append no_adj_Cons)
  moreover have "lfree h3 = fwd_lf (span as + (sz + 12)) (n - (sz + 12)) cs (lfree h)"
    using eq3(3) eq2(3) eq1(3) by (simp add: back_lf_def as'_def h0_def)
  then have "is_start (shrunk as sz n cs) (lfree h3)"
    using shrunk_start [OF assms(3), of sz] sz(3) by simp
  ultimately show thesis
    using that [of h3] run eq1 eq2 eq3 by (simp add: sz_def h0_def)
qed

section \<open>The operations on the set of used blocks\<close>

definition heap_ok :: "rt_heap \<Rightarrow> blocks \<Rightarrow> bool" where
  "heap_ok h bs \<longleftrightarrow> rep h bs \<and> is_start bs (lfree h)"

abbreviation used :: "blocks \<Rightarrow> (nat \<times> nat) set" where
  "used bs \<equiv> set (useds 0 bs)"

text \<open>Two heaps over the same area.\<close>

definition same_area :: "rt_heap \<Rightarrow> rt_heap \<Rightarrow> bool" where
  "same_area h h' \<longleftrightarrow> heap_ptr h' = heap_ptr h \<and> heap_end h' = heap_end h \<and> mem_size_aligned h' = mem_size_aligned h"

lemma rep_segs: "rep h bs \<Longrightarrow> segs (mems h) 0 0 bs (heap_end h)"
  unfolding rep_def by blast

lemma used_disjoint:
  assumes "rep h bs" "(q, n) \<in> used bs" "(q', n') \<in> used bs"
  shows "(q = q' \<and> n = n') \<or> q + n \<le> q' \<or> q' + n' \<le> q"
  by (rule useds_disjoint [OF rep_segs [OF assms(1)] assms(2,3)])

lemma used_range: "rep h bs \<Longrightarrow> (q, n) \<in> used bs \<Longrightarrow> 12 \<le> n \<and> q + n \<le> heap_end h"
  using useds_sorted(2) [OF rep_segs, of h bs] by fastforce

lemma malloc_used:
  assumes "heap_ok h bs"
  shows "(rt_malloc mg n h = Some (h, RT_NULL) \<and> fit n (lfree h) bs = None) \<or>
    (\<exists>h' bs' q m. rt_malloc mg n h = Some (h', heap_ptr h + q + 12) \<and> heap_ok h' bs' \<and> same_area h h' \<and>
      heap_bytes h' = heap_bytes h \<and> used bs' = insert (q, m) (used bs) \<and> q \<notin> fst ` used bs \<and> data_size n + 12 \<le> m \<and>
      (lfree h = low 0 bs \<longrightarrow> lfree h' = low 0 bs'))"
proof (cases "fit n (lfree h) bs")
  case None
  then show ?thesis using rt_malloc_None [of h bs n] assms by (simp add: heap_ok_def)
next
  case (Some f)
  obtain as k cs where f: "f = (as, k, cs)" by (cases f)
  have r: "rep h bs" "is_start bs (lfree h)" using assms by (simp_all add: heap_ok_def)
  note ft = fit_Some [OF Some [unfolded f]]
  obtain h' where h': "rt_malloc mg n h = Some (h', heap_ptr h + span as + 12)" "rep h' (as @ place (data_size n) k @ cs)"
    "lfree h' = place_lf (lfree h) (span as) (place (data_size n) k @ cs)"
    "heap_ptr h' = heap_ptr h" "heap_end h' = heap_end h" "mem_size_aligned h' = mem_size_aligned h" "heap_bytes h' = heap_bytes h"
    using rt_malloc_Some [OF r Some [unfolded f]] by metis
  have "heap_ok h' (as @ place (data_size n) k @ cs)"
    using h'(2,3) place_start [of as k cs "lfree h" "data_size n"] r(2) ft by (simp add: heap_ok_def)
  moreover have "used (as @ place (data_size n) k @ cs) = insert (span as, placed (data_size n) k) (used bs)"
    using ft(1) span_place [OF ft(2)] by auto
  moreover have "span as \<notin> fst ` used bs"
  proof
    assume "span as \<in> fst ` used bs"
    then obtain m where "(span as, m) \<in> used bs" by auto
    then obtain as' cs' where s: "bs = as' @ (True, m) # cs'" "span as = span as'" by (auto elim: useds_split)
    have "mems h (span as) = mems h (span as')" by (simp only: s(2))
    with segs_at [OF rep_segs [OF r(1), unfolded ft(1)]] segs_at [OF rep_segs [OF r(1), unfolded s(1)]]
    show False by (metis add_0 option.inject zero_neq_one)
  qed
  moreover have "data_size n + 12 \<le> placed (data_size n) k" using ft(2) by (simp add: placed_def)
  moreover have "lfree h = low 0 bs \<longrightarrow> lfree h' = low 0 (as @ place (data_size n) k @ cs)"
    using place_low [OF rep_segs [OF r(1), unfolded ft(1)], of "lfree h" "data_size n"] h'(3) by (simp add: ft(1))
  ultimately show ?thesis
    using h' by (intro disjI2 exI [of _ h'] exI [of _ "as @ place (data_size n) k @ cs"] exI [of _ "span as"]
      exI [of _ "placed (data_size n) k"]) (simp add: same_area_def)
qed

lemma free_used:
  assumes "heap_ok h bs" "(q, n) \<in> used bs"
  shows "\<exists>h' bs'. rt_free (heap_ptr h + q + 12) h = Some h' \<and> heap_ok h' bs' \<and> same_area h h' \<and> heap_bytes h' = heap_bytes h \<and>
    used bs' = used bs - {(q, n)} \<and> (used bs' = {} \<longrightarrow> lfree h' = 0) \<and> (lfree h = low 0 bs \<longrightarrow> lfree h' = low 0 bs')"
proof -
  obtain as cs where bs: "bs = as @ (True, n) # cs" "q = span as" using assms(2) by (auto elim: useds_split)
  have r: "rep h (as @ (True, n) # cs)" "is_start (as @ (True, n) # cs) (lfree h)" using assms(1) by (simp_all add: heap_ok_def bs)
  obtain h' where h': "rt_free (heap_ptr h + span as + 12) h = Some h'" "rep h' (freed as n cs)"
    "lfree h' = back_lf as (min (span as) (lfree h))"
    "heap_ptr h' = heap_ptr h" "heap_end h' = heap_end h" "mem_size_aligned h' = mem_size_aligned h" "heap_bytes h' = heap_bytes h"
    by (rule rt_free_rep [OF r(1)])
  have ok: "heap_ok h' (freed as n cs)" using h'(2,3) freed_start [OF r(2)] by (simp add: heap_ok_def)
  have "(q, n) \<notin> set (useds 0 as) \<union> set (useds (span as + n) cs)"
    using useds_sorted [OF rep_segs [OF r(1)]] by (fastforce simp: sorted_wrt_append bs(2))
  then have u: "used (freed as n cs) = used bs - {(q, n)}" by (auto simp: useds_freed bs)
  have "lfree h' = 0" if "used (freed as n cs) = {}"
  proof -
    have "\<forall>b \<in> set as. \<not> fst b"
      using that useds_all_free [of 0 as] by (simp add: useds_freed)
    moreover have "no_adj as" using r(1) by (simp add: rep_def no_adj_append)
    ultimately consider "as = []" | j where "as = [(False, j)]" by (auto elim: all_free_single)
    then show ?thesis
    proof cases
      case 2
      then have "lfree h = 0 \<or> j \<le> lfree h" using r(2) by (auto elim!: is_start_cases simp: is_start_def Cons_eq_append_conv append_eq_Cons_conv)
      with 2 h'(3) show ?thesis by (auto simp: back_lf_def)
    qed (use h'(3) in \<open>simp add: back_lf_def\<close>)
  qed
  moreover have "lfree h = low 0 bs \<longrightarrow> lfree h' = low 0 (freed as n cs)"
    using freed_low [OF rep_segs [OF r(1)], of "lfree h"] h'(3) by (simp add: bs(1))
  ultimately show ?thesis
    using h' ok u by (intro exI [of _ h'] exI [of _ "freed as n cs"]) (simp add: bs(2) same_area_def)
qed

lemma heap_ok_bytes [simp]: "heap_ok (h\<lparr> heap_bytes := f \<rparr>) bs \<longleftrightarrow> heap_ok h bs"
  by (simp add: heap_ok_def rep_def at_end_def)

lemma rt_align_twice: "rt_align (rt_align n) = rt_align n"
proof -
  define k where "k = (n + 3) mod 2 ^ 32 div 4"
  have "k < 2 ^ 30" by (simp add: k_def less_mult_imp_div_less)
  then have "(k * 4 + 3) mod 2 ^ 32 = k * 4 + 3" by simp
  then show ?thesis unfolding rt_align_def k_def [symmetric] by simp
qed

lemma data_size_align: "rt_align n \<le> data_size (rt_align n)"
  by (simp add: data_size_def rt_align_twice)

text \<open>The call up to the choice between keeping, shrinking and moving a block.\<close>

lemma realloc_start:
  assumes "rep h (as @ (True, n) # cs)" "rt_align ns \<le> mem_size_aligned h"
  shows "rt_realloc mg (heap_ptr h + span as + 12) ns h =
    (if n - 12 = rt_align ns then Some (h, heap_ptr h + span as + 12)
     else if rt_align ns + 24 < n - 12 then
       do { h1 \<leftarrow> realloc_split (rt_align ns) (n - 12) (span as) h; Some (h1, heap_ptr h + span as + 12) }
     else do {
       (h1, nmem) \<leftarrow> rt_malloc mg (rt_align ns) h;
       if nmem \<noteq> RT_NULL then do {
         h2 \<leftarrow> rt_free (heap_ptr h + span as + 12) (rt_memcpy nmem (heap_ptr h + span as + 12) (min (n - 12) (rt_align ns)) h1);
         Some (h2, nmem) }
       else Some (h1, nmem) })"
proof -
  note s = rep_segs [OF assms(1)]
  obtain x where x: "mems h (span as) = Some x" "h_next x = span as + n" "12 \<le> n"
    using segs_at [OF s] by (metis add_0)
  have total: "heap_end h = span as + n + span cs" using segs_end [OF s] by simp
  have "heap_ptr h + heap_end h + 12 \<le> 2 ^ 32" using assms(1) by (simp add: rep_def)
  then have sz: "sub32 (sub32 (h_next x) (span as)) 12 = n - 12" using total x by simp
  have room: "span as + 12 < heap_end h" by (rule used_room [OF assms(1)])
  show ?thesis
    using assms(2) room x(1) by (simp add: rt_realloc_def Let_def sz cong: if_cong)
qed

lemma realloc_used:
  assumes "heap_ok h bs" "(q, n) \<in> used bs"
  shows "rt_realloc mg (heap_ptr h + q + 12) ns h = Some (h, RT_NULL) \<or>
    (\<exists>h' bs' q' m. rt_realloc mg (heap_ptr h + q + 12) ns h = Some (h', heap_ptr h + q' + 12) \<and> heap_ok h' bs' \<and> same_area h h' \<and>
      used bs' = insert (q', m) (used bs - {(q, n)}) \<and> (q' = q \<or> q' \<notin> fst ` used bs) \<and> rt_align ns + 12 \<le> m \<and>
      (\<forall>a. a < heap_ptr h + q' + 12 \<or> heap_ptr h + q' + 12 + rt_align ns \<le> a \<longrightarrow> heap_bytes h' a = heap_bytes h a) \<and>
      (\<forall>i < min (n - 12) (rt_align ns). heap_bytes h' (heap_ptr h + q' + 12 + i) = heap_bytes h (heap_ptr h + q + 12 + i)))"
proof (cases "rt_align ns \<le> mem_size_aligned h")
  case False
  then show ?thesis by (simp add: rt_realloc_def Let_def)
next
  case fits: True
  obtain as cs where bs: "bs = as @ (True, n) # cs" "q = span as" using assms(2) by (auto elim: useds_split)
  have r: "rep h (as @ (True, n) # cs)" "is_start (as @ (True, n) # cs) (lfree h)" using assms(1) by (simp_all add: heap_ok_def bs)
  note run = realloc_start [OF r(1) fits, of mg]
  have n12: "12 \<le> n" using used_range [OF r(1), of q n] assms(2) by (simp add: bs(1))
  have other: "(q, n) \<notin> set (useds 0 as) \<union> set (useds (span as + n) cs)"
    using useds_sorted [OF rep_segs [OF r(1)]] by (fastforce simp: sorted_wrt_append bs(2))
  consider (same) "n - 12 = rt_align ns" | (shrink) "rt_align ns + 24 < n - 12" | (move) "n - 12 \<noteq> rt_align ns" "\<not> rt_align ns + 24 < n - 12"
    by blast
  then show ?thesis
  proof cases
    case same
    then have "rt_realloc mg (heap_ptr h + q + 12) ns h = Some (h, heap_ptr h + q + 12)" using run by (simp add: bs(2))
    moreover have "used bs = insert (q, n) (used bs - {(q, n)})" using assms(2) by blast
    ultimately show ?thesis
      using assms(1) same n12
      by (intro disjI2 exI [of _ h] exI [of _ bs] exI [of _ q] exI [of _ n]) (simp add: same_area_def)
  next
    case shrink
    obtain h' where h': "rt_realloc mg (heap_ptr h + span as + 12) ns h = Some (h', heap_ptr h + span as + 12)"
      "rep h' (shrunk as (rt_align ns) n cs)" "is_start (shrunk as (rt_align ns) n cs) (lfree h')"
      "heap_ptr h' = heap_ptr h" "heap_end h' = heap_end h" "mem_size_aligned h' = mem_size_aligned h" "heap_bytes h' = heap_bytes h"
      by (rule rt_realloc_shrink [OF r(1) shrink r(2)])
    have "used (shrunk as (rt_align ns) n cs) = insert (q, rt_align ns + 12) (used bs - {(q, n)})"
      using shrink other by (auto simp: useds_shrunk bs)
    then show ?thesis
      using h' by (intro disjI2 exI [of _ h'] exI [of _ "shrunk as (rt_align ns) n cs"] exI [of _ q] exI [of _ "rt_align ns + 12"])
        (simp add: same_area_def heap_ok_def bs(2))
  next
    case move
    consider "rt_malloc mg (rt_align ns) h = Some (h, RT_NULL)"
      | h1 bs1 q' m where "rt_malloc mg (rt_align ns) h = Some (h1, heap_ptr h + q' + 12)" "heap_ok h1 bs1" "same_area h h1"
        "heap_bytes h1 = heap_bytes h" "used bs1 = insert (q', m) (used bs)" "q' \<notin> fst ` used bs" "data_size (rt_align ns) + 12 \<le> m"
      using malloc_used [OF assms(1), of mg "rt_align ns"] by blast
    then show ?thesis
    proof cases
      case 1
      then show ?thesis using run move by (simp add: bs(2))
    next
      case 2
      define h2 where "h2 = rt_memcpy (heap_ptr h + q' + 12) (heap_ptr h + q + 12) (min (n - 12) (rt_align ns)) h1"
      have ok2: "heap_ok h2 bs1" "same_area h1 h2" using 2(2) by (simp_all add: h2_def rt_memcpy_def same_area_def)
      have ne: "(q', m) \<noteq> (q, n)" using 2(6) assms(2) by force
      obtain h3 bs3 where h3: "rt_free (heap_ptr h2 + q + 12) h2 = Some h3" "heap_ok h3 bs3" "same_area h2 h3"
        "heap_bytes h3 = heap_bytes h2" "used bs3 = used bs1 - {(q, n)}"
        using free_used [OF ok2(1), of q n] 2(5) assms(2) by auto
      have area: "same_area h h3" "heap_ptr h2 = heap_ptr h" using 2(3) ok2(2) h3(3) by (simp_all add: same_area_def)
      have call: "rt_realloc mg (heap_ptr h + q + 12) ns h = Some (h3, heap_ptr h + q' + 12)"
        using run move 2(1) h3(1) area(2) by (simp add: bs(2) h2_def)
      have u: "used bs3 = insert (q', m) (used bs - {(q, n)})" using h3(5) 2(5) ne by auto
      have m: "rt_align ns + 12 \<le> m" using 2(7) data_size_align [of ns] by simp
      have bytes: "heap_bytes h3 = (\<lambda>a. if heap_ptr h + q' + 12 \<le> a \<and> a < heap_ptr h + q' + 12 + min (n - 12) (rt_align ns)
        then heap_bytes h (heap_ptr h + q + 12 + (a - (heap_ptr h + q' + 12))) else heap_bytes h a)"
        using h3(4) 2(4) by (simp add: h2_def rt_memcpy_def cong: if_cong)
      have out: "\<forall>a. a < heap_ptr h + q' + 12 \<or> heap_ptr h + q' + 12 + rt_align ns \<le> a \<longrightarrow> heap_bytes h3 a = heap_bytes h a"
        by (auto simp: bytes)
      have "in": "\<forall>i < min (n - 12) (rt_align ns). heap_bytes h3 (heap_ptr h + q' + 12 + i) = heap_bytes h (heap_ptr h + q + 12 + i)"
        by (simp add: bytes)
      show ?thesis
        by (intro disjI2 exI [of _ h3] exI [of _ bs3] exI [of _ q'] exI [of _ m] conjI call h3(2) area(1) u m out "in")
          (use 2(6) in simp)
    qed
  qed
qed

end
