(* ===== verification/Rt_Heap_Run.thy ===== *)
theory Rt_Heap_Run
  imports Rt_Heap_Realloc
begin

text \<open>
  The kernel heap and its clients: threads that allocate, write their own blocks, change their size and give them
  back, in any order. Each block behaves as a separate buffer of the requested size.
\<close>

section \<open>Clients\<close>

record heap_client =
  cl_heap :: rt_heap
  cl_live :: "(nat \<times> nat) list"

datatype heap_req = Malloc u16 nat | Calloc u16 nat nat | Realloc u16 nat nat | Release nat | Write nat nat u8

abbreviation ptr_of :: "heap_client \<Rightarrow> nat \<Rightarrow> nat" where "ptr_of s i \<equiv> fst (cl_live s ! i)"
abbreviation room_of :: "heap_client \<Rightarrow> nat \<Rightarrow> nat" where "room_of s i \<equiv> snd (cl_live s ! i)"

fun heap_step :: "heap_client \<Rightarrow> heap_req \<Rightarrow> heap_client option" where
  "heap_step s (Malloc mg n) = do {
     (h, p) \<leftarrow> rt_malloc mg n (cl_heap s);
     Some \<lparr> cl_heap = h, cl_live = (if p = RT_NULL then cl_live s else (p, n) # cl_live s) \<rparr> }"
| "heap_step s (Calloc mg c n) = do {
     (h, p) \<leftarrow> rt_calloc mg c n (cl_heap s);
     Some \<lparr> cl_heap = h, cl_live = (if p = RT_NULL then cl_live s else (p, c * n) # cl_live s) \<rparr> }"
| "heap_step s (Realloc mg i n) = do {
     (h, p) \<leftarrow> rt_realloc mg (ptr_of s i) n (cl_heap s);
     Some \<lparr> cl_heap = h, cl_live = (if p = RT_NULL then cl_live s else (cl_live s)[i := (p, n)]) \<rparr> }"
| "heap_step s (Release i) = do {
     h \<leftarrow> rt_free (ptr_of s i) (cl_heap s);
     Some \<lparr> cl_heap = h, cl_live = take i (cl_live s) @ drop (Suc i) (cl_live s) \<rparr> }"
| "heap_step s (Write i k v) = Some (s\<lparr> cl_heap := (cl_heap s)
     \<lparr> heap_bytes := (heap_bytes (cl_heap s))(ptr_of s i + k := v) \<rparr> \<rparr>)"

text \<open>Sizes that do not wrap when they are rounded up; only blocks the client holds.\<close>

fun req_ok :: "heap_client \<Rightarrow> heap_req \<Rightarrow> bool" where
  "req_ok s (Malloc _ n) \<longleftrightarrow> n < 2 ^ 32 - 3"
| "req_ok s (Calloc _ c n) \<longleftrightarrow> c * n < 2 ^ 32 - 3"
| "req_ok s (Realloc _ i n) \<longleftrightarrow> i < length (cl_live s) \<and> n < 2 ^ 32 - 3"
| "req_ok s (Release i) \<longleftrightarrow> i < length (cl_live s)"
| "req_ok s (Write i k _) \<longleftrightarrow> i < length (cl_live s) \<and> k < room_of s i"

section \<open>Buffers\<close>

definition bytes_at :: "rt_heap \<Rightarrow> nat \<times> nat \<Rightarrow> u8 list" where
  "bytes_at h b = map (\<lambda>k. heap_bytes h (fst b + k)) [0..<snd b]"

definition buffers :: "heap_client \<Rightarrow> u8 list list" where
  "buffers s = map (bytes_at (cl_heap s)) (cl_live s)"

fun buf_step :: "heap_req \<Rightarrow> u8 list list \<Rightarrow> u8 list list \<Rightarrow> bool" where
  "buf_step (Malloc _ n) bufs bufs' \<longleftrightarrow> bufs' = bufs \<or> (\<exists>b. length b = n \<and> bufs' = b # bufs)"
| "buf_step (Calloc _ c n) bufs bufs' \<longleftrightarrow> bufs' = bufs \<or> bufs' = replicate (c * n) 0 # bufs"
| "buf_step (Realloc _ i n) bufs bufs' \<longleftrightarrow> bufs' = bufs \<or>
     (\<exists>b. length b = n \<and> take (length (bufs ! i)) b = take n (bufs ! i) \<and> bufs' = bufs[i := b])"
| "buf_step (Release i) bufs bufs' \<longleftrightarrow> bufs' = take i bufs @ drop (Suc i) bufs"
| "buf_step (Write i k v) bufs bufs' \<longleftrightarrow> bufs' = bufs[i := (bufs ! i)[k := v]]"

section \<open>The invariant\<close>

definition fits :: "rt_heap \<Rightarrow> nat \<times> nat \<Rightarrow> nat \<times> nat \<Rightarrow> bool" where
  "fits h b u \<longleftrightarrow> fst b = heap_ptr h + fst u + 12 \<and> snd b + 12 \<le> snd u"

definition matched :: "rt_heap \<Rightarrow> blocks \<Rightarrow> (nat \<times> nat) list \<Rightarrow> bool" where
  "matched h bs live \<longleftrightarrow> (\<exists>us. used bs = set us \<and> distinct (map fst us) \<and> list_all2 (fits h) live us)"

text \<open>With \<open>t\<close>, the search starts at the lowest free block; a reallocation gives that up.\<close>

definition heap_inv :: "bool \<Rightarrow> heap_client \<Rightarrow> bool" where
  "heap_inv t s \<longleftrightarrow> (\<exists>bs. heap_ok (cl_heap s) bs \<and> matched (cl_heap s) bs (cl_live s) \<and>
     (used bs = {} \<longrightarrow> lfree (cl_heap s) = 0) \<and> (t \<longrightarrow> lfree (cl_heap s) = low 0 bs))"

lemma fits_area: "same_area h h' \<Longrightarrow> fits h' = fits h"
  by (simp add: fits_def [abs_def] same_area_def)

lemma bytes_at_cong:
  "(\<And>k. k < snd b \<Longrightarrow> heap_bytes h' (fst b + k) = heap_bytes h (fst b + k)) \<Longrightarrow> bytes_at h' b = bytes_at h b"
  by (simp add: bytes_at_def)

text \<open>A change of bytes inside one used block leaves the buffers of the others.\<close>

lemma other_bytes:
  assumes "rep h bs" "(q, m) \<in> used bs" "(q', m') \<in> used bs" "q \<noteq> q'" "fits h b (q', m')"
    and "\<forall>a. a < heap_ptr h + q + 12 \<or> heap_ptr h + q + m \<le> a \<longrightarrow> heap_bytes h2 a = heap_bytes h1 a"
  shows "bytes_at h2 b = bytes_at h1 b"
  using used_disjoint [OF assms(1-3)] assms(4-6) by (intro bytes_at_cong) (auto simp: fits_def)

section \<open>Each request\<close>

lemma heap_invE:
  assumes "heap_inv t s"
  obtains bs us where "heap_ok (cl_heap s) bs" "used bs = set us" "distinct (map fst us)" "list_all2 (fits (cl_heap s)) (cl_live s) us"
    "used bs = {} \<longrightarrow> lfree (cl_heap s) = 0" "t \<longrightarrow> lfree (cl_heap s) = low 0 bs"
  using assms unfolding heap_inv_def matched_def by blast

lemma heap_invI:
  assumes "heap_ok (cl_heap s) bs" "used bs = set us" "distinct (map fst us)" "list_all2 (fits (cl_heap s)) (cl_live s) us"
    "used bs = {} \<longrightarrow> lfree (cl_heap s) = 0" "t \<longrightarrow> lfree (cl_heap s) = low 0 bs"
  shows "heap_inv t s"
  using assms unfolding heap_inv_def matched_def by blast

lemma client_same [simp]: "\<lparr> cl_heap = cl_heap s, cl_live = cl_live s \<rparr> = s"
  by simp

text \<open>A new block in front of the live ones.\<close>

lemma inv_cons:
  assumes "list_all2 (fits h) live us" "same_area h h'" "heap_ok h' bs'" "used bs' = insert (q, m) (set us)"
    "q \<notin> fst ` set us" "distinct (map fst us)" "n + 12 \<le> m" "t \<longrightarrow> lfree h' = low 0 bs'"
  shows "heap_inv t \<lparr> cl_heap = h', cl_live = (heap_ptr h + q + 12, n) # live \<rparr>"
proof (rule heap_invI [of _ bs' "(q, m) # us"])
  show "list_all2 (fits (cl_heap \<lparr> cl_heap = h', cl_live = (heap_ptr h + q + 12, n) # live \<rparr>))
      (cl_live \<lparr> cl_heap = h', cl_live = (heap_ptr h + q + 12, n) # live \<rparr>) ((q, m) # us)"
    using assms(1,2,7) fits_area [OF assms(2)] by (simp add: fits_def same_area_def)
qed (use assms in auto)

lemma step_malloc:
  assumes "heap_inv t s" "n < 2 ^ 32 - 3"
  shows "\<exists>s'. heap_step s (Malloc mg n) = Some s' \<and> heap_inv t s' \<and> buf_step (Malloc mg n) (buffers s) (buffers s')"
proof -
  obtain bs us where i: "heap_ok (cl_heap s) bs" "used bs = set us" "distinct (map fst us)" "list_all2 (fits (cl_heap s)) (cl_live s) us"
    "t \<longrightarrow> lfree (cl_heap s) = low 0 bs"
    by (rule heap_invE [OF assms(1)])
  consider "rt_malloc mg n (cl_heap s) = Some (cl_heap s, RT_NULL)"
    | h1 bs1 q m where "rt_malloc mg n (cl_heap s) = Some (h1, heap_ptr (cl_heap s) + q + 12)" "heap_ok h1 bs1" "same_area (cl_heap s) h1"
      "heap_bytes h1 = heap_bytes (cl_heap s)" "used bs1 = insert (q, m) (used bs)" "q \<notin> fst ` used bs" "data_size n + 12 \<le> m"
      "lfree (cl_heap s) = low 0 bs \<longrightarrow> lfree h1 = low 0 bs1"
    using malloc_used [OF i(1), of mg n] by (elim disjE exE conjE) (rule that; assumption)+
  then show ?thesis
  proof cases
    case 1
    then show ?thesis using assms(1) by (simp add: buffers_def)
  next
    case 2
    define s' where "s' = \<lparr> cl_heap = h1, cl_live = (heap_ptr (cl_heap s) + q + 12, n) # cl_live s \<rparr>"
    have "n + 12 \<le> m" using 2(7) data_size_enough [OF assms(2)] by simp
    then have "heap_inv t s'" unfolding s'_def using 2(5,6,8) i(2,5) by (intro inv_cons [OF i(4) 2(3,2) _ _ i(3)]) simp_all
    moreover have "buffers s' = bytes_at h1 (heap_ptr (cl_heap s) + q + 12, n) # buffers s"
      using 2(4) by (simp add: buffers_def s'_def bytes_at_def [abs_def])
    then have "buf_step (Malloc mg n) (buffers s) (buffers s')" by (simp add: bytes_at_def)
    moreover have "heap_step s (Malloc mg n) = Some s'" using 2(1) by (simp add: s'_def)
    ultimately show ?thesis by blast
  qed
qed

lemma step_calloc:
  assumes "heap_inv t s" "c * n < 2 ^ 32 - 3"
  shows "\<exists>s'. heap_step s (Calloc mg c n) = Some s' \<and> heap_inv t s' \<and> buf_step (Calloc mg c n) (buffers s) (buffers s')"
proof -
  obtain bs us where i: "heap_ok (cl_heap s) bs" "used bs = set us" "distinct (map fst us)" "list_all2 (fits (cl_heap s)) (cl_live s) us"
    "t \<longrightarrow> lfree (cl_heap s) = low 0 bs"
    by (rule heap_invE [OF assms(1)])
  have cn: "(c * n) mod 2 ^ 32 = c * n" using assms(2) by simp
  consider "rt_malloc mg (c * n) (cl_heap s) = Some (cl_heap s, RT_NULL)"
    | h1 bs1 q m where "rt_malloc mg (c * n) (cl_heap s) = Some (h1, heap_ptr (cl_heap s) + q + 12)" "heap_ok h1 bs1" "same_area (cl_heap s) h1"
      "heap_bytes h1 = heap_bytes (cl_heap s)" "used bs1 = insert (q, m) (used bs)" "q \<notin> fst ` used bs" "data_size (c * n) + 12 \<le> m"
      "lfree (cl_heap s) = low 0 bs \<longrightarrow> lfree h1 = low 0 bs1"
    using malloc_used [OF i(1), of mg "c * n"] by (elim disjE exE conjE) (rule that; assumption)+
  then show ?thesis
  proof cases
    case 1
    then show ?thesis using assms(1) cn by (simp add: buffers_def rt_calloc_def)
  next
    case 2
    let ?p = "heap_ptr (cl_heap s) + q + 12"
    define h2 where "h2 = h1\<lparr> heap_bytes := (\<lambda>a. if ?p \<le> a \<and> a < ?p + c * n then 0 else heap_bytes h1 a) \<rparr>"
    define s' where "s' = \<lparr> cl_heap = h2, cl_live = (?p, c * n) # cl_live s \<rparr>"
    have ok2: "heap_ok h2 bs1" "same_area (cl_heap s) h2" "lfree h2 = lfree h1" using 2(2,3) by (simp_all add: h2_def same_area_def)
    have m: "c * n + 12 \<le> m" using 2(7) data_size_enough [OF assms(2)] by simp
    then have inv: "heap_inv t s'" unfolding s'_def using 2(5,6,8) i(2,5) by (intro inv_cons [OF i(4) ok2(2,1) _ _ i(3)]) (simp_all add: ok2(3))
    have same: "bytes_at h2 b = bytes_at (cl_heap s) b" if b: "b \<in> set (cl_live s)" for b
    proof -
      obtain j where j: "j < length (cl_live s)" "b = cl_live s ! j" using b by (auto simp: in_set_conv_nth)
      obtain u where u: "u \<in> set us" "fits (cl_heap s) b u"
        using list_all2_nthD [OF i(4) j(1)] list_all2_lengthD [OF i(4)] j by (metis nth_mem)
      have "q \<noteq> fst u" using 2(6) u(1) i(2) by auto
      then have "bytes_at h2 b = bytes_at h1 b"
        using other_bytes [of h2 bs1 q m "fst u" "snd u" b h2 h1] ok2 2(5) u i(2) m fits_area [OF ok2(2)]
        by (simp add: heap_ok_def) (simp add: h2_def same_area_def)
      also have "\<dots> = bytes_at (cl_heap s) b" using 2(4) by (simp add: bytes_at_def)
      finally show ?thesis .
    qed
    have "buffers s' = bytes_at h2 (?p, c * n) # buffers s" using same by (simp add: buffers_def s'_def)
    moreover have "bytes_at h2 (?p, c * n) = replicate (c * n) 0"
      by (rule nth_equalityI) (simp_all add: bytes_at_def h2_def)
    ultimately have "buf_step (Calloc mg c n) (buffers s) (buffers s')" by simp
    moreover have "heap_step s (Calloc mg c n) = Some s'" using 2(1) cn by (simp add: s'_def h2_def rt_calloc_def)
    ultimately show ?thesis using inv by blast
  qed
qed

lemma remove_nth:
  assumes "distinct (map f xs)" "i < length xs"
  shows "set (take i xs @ drop (Suc i) xs) = set xs - {xs ! i}" "distinct (map f (take i xs @ drop (Suc i) xs))"
proof -
  define ys zs where "ys = take i xs" "zs = drop (Suc i) xs"
  have xs: "xs = ys @ xs ! i # zs" using id_take_nth_drop [OF assms(2)] by (simp add: ys_zs_def)
  have d: "distinct (map f (ys @ xs ! i # zs))" using assms(1) xs by simp
  have "set xs = set (ys @ xs ! i # zs)" by (rule arg_cong [OF xs])
  then show "set (take i xs @ drop (Suc i) xs) = set xs - {xs ! i}" using d by (auto simp flip: ys_zs_def)
  show "distinct (map f (take i xs @ drop (Suc i) xs))" using d by (simp flip: ys_zs_def)
qed

lemma nth_used:
  assumes "list_all2 (fits h) live us" "used bs = set us" "i < length live"
  shows "i < length us" "us ! i \<in> used bs" "fst (live ! i) = heap_ptr h + fst (us ! i) + 12" "snd (live ! i) + 12 \<le> snd (us ! i)"
  using assms list_all2_nthD [OF assms(1,3)] list_all2_lengthD [OF assms(1)] by (simp_all add: fits_def)

lemma step_release:
  assumes "heap_inv t s" "i < length (cl_live s)"
  shows "\<exists>s'. heap_step s (Release i) = Some s' \<and> heap_inv t s' \<and> buf_step (Release i) (buffers s) (buffers s')"
proof -
  obtain bs us where i: "heap_ok (cl_heap s) bs" "used bs = set us" "distinct (map fst us)" "list_all2 (fits (cl_heap s)) (cl_live s) us"
    "t \<longrightarrow> lfree (cl_heap s) = low 0 bs"
    by (rule heap_invE [OF assms(1)])
  note u = nth_used [OF i(4,2) assms(2)]
  obtain h' bs' where h': "rt_free (heap_ptr (cl_heap s) + fst (us ! i) + 12) (cl_heap s) = Some h'" "heap_ok h' bs'" "same_area (cl_heap s) h'"
    "heap_bytes h' = heap_bytes (cl_heap s)" "used bs' = used bs - {us ! i}" "used bs' = {} \<longrightarrow> lfree h' = 0"
    "lfree (cl_heap s) = low 0 bs \<longrightarrow> lfree h' = low 0 bs'"
    using free_used [OF i(1), of "fst (us ! i)" "snd (us ! i)"] u(2) unfolding prod.collapse by blast
  define s' where "s' = \<lparr> cl_heap = h', cl_live = take i (cl_live s) @ drop (Suc i) (cl_live s) \<rparr>"
  have "heap_step s (Release i) = Some s'" using h'(1) u(3) by (simp add: s'_def)
  moreover have "heap_inv t s'"
  proof (rule heap_invI [of _ bs' "take i us @ drop (Suc i) us"])
    show "heap_ok (cl_heap s') bs'" "used bs' = {} \<longrightarrow> lfree (cl_heap s') = 0" "t \<longrightarrow> lfree (cl_heap s') = low 0 bs'" using h'(2,6,7) i(5) by (simp_all add: s'_def)
    show "used bs' = set (take i us @ drop (Suc i) us)" using remove_nth(1) [OF i(3) u(1)] h'(5) i(2) by simp
    show "distinct (map fst (take i us @ drop (Suc i) us))" by (rule remove_nth(2) [OF i(3) u(1)])
    show "list_all2 (fits (cl_heap s')) (cl_live s') (take i us @ drop (Suc i) us)"
      using i(4) fits_area [OF h'(3)] by (simp add: s'_def list_all2_appendI list_all2_takeI list_all2_dropI)
  qed
  moreover have "buf_step (Release i) (buffers s) (buffers s')"
    using h'(4) by (simp add: buffers_def s'_def bytes_at_def [abs_def] take_map drop_map)
  ultimately show ?thesis by blast
qed

text \<open>Only the block at \<open>i\<close> changes.\<close>

lemma update_buffers:
  assumes "i < length live" "\<And>j. j < length live \<Longrightarrow> j \<noteq> i \<Longrightarrow> bytes_at h' (live ! j) = bytes_at h (live ! j)"
  shows "map (bytes_at h') (live[i := b]) = (map (bytes_at h) live)[i := bytes_at h' b]"
  by (rule nth_equalityI) (use assms in \<open>auto simp: nth_list_update\<close>)

lemma rt_align_enough: "n < 2 ^ 32 - 3 \<Longrightarrow> n \<le> rt_align n"
  by (simp add: rt_align_def)

lemma step_realloc:
  assumes "heap_inv False s" "i < length (cl_live s)" "n < 2 ^ 32 - 3"
  shows "\<exists>s'. heap_step s (Realloc mg i n) = Some s' \<and> heap_inv False s' \<and> buf_step (Realloc mg i n) (buffers s) (buffers s')"
proof -
  obtain bs us where i: "heap_ok (cl_heap s) bs" "used bs = set us" "distinct (map fst us)" "list_all2 (fits (cl_heap s)) (cl_live s) us"
    by (rule heap_invE [OF assms(1)])
  note u = nth_used [OF i(4,2) assms(2)]
  define q m where "q = fst (us ! i)" "m = snd (us ! i)"
  have qm: "(q, m) \<in> used bs" "ptr_of s i = heap_ptr (cl_heap s) + q + 12" "room_of s i + 12 \<le> m" using u by (simp_all add: q_m_def)
  consider "rt_realloc mg (ptr_of s i) n (cl_heap s) = Some (cl_heap s, RT_NULL)"
    | h' bs' q' m' where "rt_realloc mg (ptr_of s i) n (cl_heap s) = Some (h', heap_ptr (cl_heap s) + q' + 12)" "heap_ok h' bs'"
      "same_area (cl_heap s) h'" "used bs' = insert (q', m') (used bs - {(q, m)})" "q' = q \<or> q' \<notin> fst ` used bs" "rt_align n + 12 \<le> m'"
      "\<forall>a. a < heap_ptr (cl_heap s) + q' + 12 \<or> heap_ptr (cl_heap s) + q' + 12 + rt_align n \<le> a \<longrightarrow> heap_bytes h' a = heap_bytes (cl_heap s) a"
      "\<forall>k < min (m - 12) (rt_align n). heap_bytes h' (heap_ptr (cl_heap s) + q' + 12 + k) = heap_bytes (cl_heap s) (ptr_of s i + k)"
    using realloc_used [OF i(1) qm(1), of mg n] unfolding qm(2) by blast
  then show ?thesis
  proof cases
    case 1
    then show ?thesis using assms(1) by (simp add: buffers_def)
  next
    case 2
    let ?b = "(heap_ptr (cl_heap s) + q' + 12, n)"
    define s' where "s' = \<lparr> cl_heap = h', cl_live = (cl_live s)[i := ?b] \<rparr>"
    have q': "q' \<notin> set (map fst us) - {map fst us ! i}" using 2(5) i(2) u(1) by (auto simp: q_m_def)
    have set': "used bs' = set (us[i := (q', m')])"
      using 2(4) set_update_distinct [OF _ u(1), of "(q', m')"] i(2,3) by (simp add: q_m_def distinct_map)
    have inv: "heap_inv False s'"
    proof (rule heap_invI [of _ bs' "us[i := (q', m')]"])
      show "heap_ok (cl_heap s') bs'" using 2(2) by (simp add: s'_def)
      show "used bs' = set (us[i := (q', m')])" by (rule set')
      show "distinct (map fst (us[i := (q', m')]))" using distinct_list_update [OF i(3) q'] by (simp add: map_update)
      have "fits (cl_heap s) ?b (q', m')" using 2(6) rt_align_enough [OF assms(3)] by (simp add: fits_def)
      then show "list_all2 (fits (cl_heap s')) (cl_live s') (us[i := (q', m')])"
        using i(4) fits_area [OF 2(3)] by (simp add: s'_def list_all2_update_cong)
      show "used bs' = {} \<longrightarrow> lfree (cl_heap s') = 0" using 2(4) by simp
      show "False \<longrightarrow> lfree (cl_heap s') = low 0 bs'" by simp
    qed
    have other: "bytes_at h' (cl_live s ! j) = bytes_at (cl_heap s) (cl_live s ! j)" if j: "j < length (cl_live s)" "j \<noteq> i" for j
    proof -
      note v = nth_used [OF i(4,2) j(1)]
      have "fst (us ! j) \<noteq> fst (us ! i)" using i(3) u(1) v(1) j(2) by (auto simp: distinct_conv_nth)
      then have ne: "us ! j \<noteq> us ! i" "fst (us ! j) \<noteq> fst (us ! i)" by auto
      then have "q' \<noteq> fst (us ! j)" using 2(5) v(2) by (auto simp: q_m_def)
      moreover have "us ! j \<in> used bs'" using 2(4) v(2) ne by (simp add: q_m_def)
      moreover have "fits h' (cl_live s ! j) (us ! j)" using list_all2_nthD [OF i(4) j(1)] fits_area [OF 2(3)] by simp
      moreover have "heap_ptr h' = heap_ptr (cl_heap s)" using 2(3) by (simp add: same_area_def)
      ultimately show ?thesis
        using other_bytes [of h' bs' q' m' "fst (us ! j)" "snd (us ! j)" "cl_live s ! j" h' "cl_heap s"] 2(2,4,6,7)
        by (simp add: heap_ok_def)
    qed
    have bufs: "buffers s' = (buffers s)[i := bytes_at h' ?b]"
      using update_buffers [OF assms(2), of h' "cl_heap s" ?b] other by (simp add: buffers_def s'_def)
    have "heap_bytes h' (heap_ptr (cl_heap s) + q' + 12 + k) = heap_bytes (cl_heap s) (ptr_of s i + k)" if "k < n" "k < room_of s i" for k
    proof -
      have "k < min (m - 12) (rt_align n)" using that qm(3) rt_align_enough [OF assms(3)] by linarith
      then show ?thesis using 2(8) by blast
    qed
    then have "take (length (buffers s ! i)) (bytes_at h' ?b) = take n (buffers s ! i)"
      using assms(2) by (intro nth_equalityI) (simp_all add: buffers_def bytes_at_def)
    moreover have "length (bytes_at h' ?b) = n" by (simp add: bytes_at_def)
    ultimately have "buf_step (Realloc mg i n) (buffers s) (buffers s')" using bufs unfolding buf_step.simps by blast
    moreover have "heap_step s (Realloc mg i n) = Some s'" using 2(1) by (simp add: s'_def)
    ultimately show ?thesis using inv by blast
  qed
qed

lemma step_write:
  assumes "heap_inv t s" "i < length (cl_live s)" "k < room_of s i"
  shows "\<exists>s'. heap_step s (Write i k v) = Some s' \<and> heap_inv t s' \<and> buf_step (Write i k v) (buffers s) (buffers s')"
proof -
  obtain bs us where i: "heap_ok (cl_heap s) bs" "used bs = set us" "distinct (map fst us)" "list_all2 (fits (cl_heap s)) (cl_live s) us"
    "used bs = {} \<longrightarrow> lfree (cl_heap s) = 0" "t \<longrightarrow> lfree (cl_heap s) = low 0 bs"
    by (rule heap_invE [OF assms(1)])
  note u = nth_used [OF i(4,2) assms(2)]
  define h' where "h' = (cl_heap s)\<lparr> heap_bytes := (heap_bytes (cl_heap s))(ptr_of s i + k := v) \<rparr>"
  define s' where "s' = s\<lparr> cl_heap := h' \<rparr>"
  have area: "same_area (cl_heap s) h'" by (simp add: h'_def same_area_def)
  have "heap_ok h' bs" using i(1) by (simp add: h'_def)
  moreover have "lfree h' = lfree (cl_heap s)" by (simp add: h'_def)
  ultimately have inv: "heap_inv t s'"
    using i fits_area [OF area] by (intro heap_invI [of s' bs us]) (simp_all add: s'_def)
  have other: "bytes_at h' (cl_live s ! j) = bytes_at (cl_heap s) (cl_live s ! j)" if j: "j < length (cl_live s)" "j \<noteq> i" for j
  proof -
    note w = nth_used [OF i(4,2) j(1)]
    have "fst (us ! i) \<noteq> fst (us ! j)" using i(3) u(1) w(1) j(2) by (auto simp: distinct_conv_nth)
    then show ?thesis
      using other_bytes [of "cl_heap s" bs "fst (us ! i)" "snd (us ! i)" "fst (us ! j)" "snd (us ! j)" "cl_live s ! j" h' "cl_heap s"]
        i(1) u w list_all2_nthD [OF i(4) j(1)] assms(3) by (simp add: heap_ok_def h'_def)
  qed
  have "bytes_at h' (cl_live s ! i) = (bytes_at (cl_heap s) (cl_live s ! i))[k := v]"
    using assms(3) by (intro nth_equalityI) (auto simp: bytes_at_def h'_def nth_list_update)
  then have "map (bytes_at h') (cl_live s) = (map (bytes_at (cl_heap s)) (cl_live s))[i := (bytes_at (cl_heap s) (cl_live s ! i))[k := v]]"
    using update_buffers [OF assms(2), of h' "cl_heap s" "cl_live s ! i"] other by simp
  moreover have nb: "buffers s ! i = bytes_at (cl_heap s) (cl_live s ! i)" using assms(2) by (simp add: buffers_def)
  ultimately have "buffers s' = (buffers s)[i := (buffers s ! i)[k := v]]" unfolding nb by (simp add: buffers_def s'_def)
  then show ?thesis using inv by (simp add: s'_def h'_def)
qed

section \<open>Calls in parts\<close>

text \<open>What \<open>rt_calloc\<close> and a \<open>rt_realloc\<close> that moves its block do, as separate requests, between which others may come.\<close>

lemma writes_run:
  "run_steps heap_step s (map (\<lambda>k. Write 0 k (f k)) [0..<n]) = Some (s\<lparr> cl_heap := (cl_heap s)\<lparr> heap_bytes :=
     (\<lambda>a. if ptr_of s 0 \<le> a \<and> a < ptr_of s 0 + n then f (a - ptr_of s 0) else heap_bytes (cl_heap s) a) \<rparr> \<rparr>)"
proof (induction n)
  case 0
  show ?case by (auto intro!: heap_client.equality rt_heap.equality ext)
next
  case (Suc n)
  then show ?case by (auto simp: run_steps_append fun_eq_iff less_Suc_eq)
qed

lemma calloc_in_parts:
  assumes "c * n < 2 ^ 32" "heap_step s (Malloc mg (c * n)) = Some s1" "cl_live s1 \<noteq> cl_live s"
  shows "run_steps heap_step s1 (map (\<lambda>k. Write 0 k 0) [0..<c * n]) = heap_step s (Calloc mg c n)"
proof -
  obtain h p where h: "rt_malloc mg (c * n) (cl_heap s) = Some (h, p)" "p \<noteq> RT_NULL" "s1 = \<lparr> cl_heap = h, cl_live = (p, c * n) # cl_live s \<rparr>"
    using assms(2,3) by (auto simp: bind_eq_Some_conv split: if_splits)
  then show ?thesis using assms(1) by (simp add: writes_run rt_calloc_def Let_def cong: if_cong)
qed

lemma realloc_in_parts:
  assumes "heap_step s (Malloc mg n) = Some s1" "cl_live s1 = (p, n) # cl_live s" "i < length (cl_live s)"
  shows "run_steps heap_step s1 (map (\<lambda>k. Write 0 k (heap_bytes (cl_heap s1) (ptr_of s i + k))) [0..<m] @ [Release (Suc i)]) =
    do { h \<leftarrow> rt_free (ptr_of s i) (rt_memcpy p (ptr_of s i) m (cl_heap s1));
         Some \<lparr> cl_heap = h, cl_live = (p, n) # take i (cl_live s) @ drop (Suc i) (cl_live s) \<rparr> }"
  using assms(2,3) by (simp add: run_steps_append writes_run rt_memcpy_def cong: if_cong)

end
