(* ===== verification/Rt_Heap_Properties.thy ===== *)
theory Rt_Heap_Properties
  imports Rt_Heap_Run
begin

text \<open>
  The kernel heap from its initialisation on, with any sequence of requests of its clients: nothing loops or fails an
  assertion, the blocks are disjoint buffers, and once everything has been given back the heap is whole again.
\<close>

section \<open>The machine\<close>

fun no_realloc :: "heap_req \<Rightarrow> bool" where
  "no_realloc (Realloc _ _ _) = False"
| "no_realloc _ = True"

lemma heap_inv_weak: "heap_inv t s \<Longrightarrow> heap_inv False s"
  by (auto simp: heap_inv_def)

lemma heap_step_ok:
  assumes "heap_inv t s" "req_ok s rq" "t \<longrightarrow> no_realloc rq"
  shows "\<exists>s'. heap_step s rq = Some s' \<and> heap_inv t s' \<and> buf_step rq (buffers s) (buffers s')"
proof (cases rq)
  case (Malloc mg n)
  with assms show ?thesis using step_malloc [of t s n mg] by (simp only: req_ok.simps)
next
  case (Calloc mg c n)
  with assms show ?thesis using step_calloc [of t s c n mg] by (simp only: req_ok.simps)
next
  case (Realloc mg i n)
  with assms have "\<not> t" by simp
  with assms Realloc show ?thesis using step_realloc [of s i n mg] by (simp only: req_ok.simps)
next
  case (Release i)
  with assms show ?thesis using step_release [of t s i] by (simp only: req_ok.simps)
next
  case (Write i k v)
  with assms show ?thesis using step_write [of t s i k v] by (simp only: req_ok.simps)
qed

text \<open>Any requests, and requests without reallocation.\<close>

definition plain_ok :: "heap_client \<Rightarrow> heap_req \<Rightarrow> bool" where
  "plain_ok s rq \<longleftrightarrow> req_ok s rq \<and> no_realloc rq"

interpretation kh: safe_machine heap_step "heap_inv False" req_ok
  by unfold_locales (use heap_step_ok [of False] in blast)

interpretation kp: safe_machine heap_step "heap_inv True" plain_ok
  by unfold_locales (use heap_step_ok [of True] in \<open>unfold plain_ok_def, blast\<close>)

definition heap_area :: "nat \<Rightarrow> nat \<Rightarrow> bool" where
  "heap_area b e \<longleftrightarrow> 0 < b \<and> b + 3 < 2 ^ 32 \<and> e < 2 ^ 32 \<and> rt_align b + 36 \<le> rt_align_down e"

text \<open>The static variables are zero before the heap is set up; what lies in the area is arbitrary.\<close>

definition heap_start :: "nat \<Rightarrow> nat \<Rightarrow> (nat \<Rightarrow> u8) \<Rightarrow> heap_client" where
  "heap_start b e f = \<lparr> cl_heap = rt_system_heap_init b e
     \<lparr> mems = Map.empty, heap_ptr = 0, heap_end = 0, lfree = 0, mem_size_aligned = 0, used_mem = 0, max_mem = 0, heap_bytes = f \<rparr>,
     cl_live = [] \<rparr>"

lemma start_rep:
  assumes "heap_area b e"
  shows "heap_ok (cl_heap (heap_start b e f)) [(False, rt_align_down e - rt_align b - 12)]" "lfree (cl_heap (heap_start b e f)) = 0"
proof -
  define ba ea where "ba = rt_align b" "ea = rt_align_down e"
  have "ba mod 4 = 0" "ea mod 4 = 0" by (simp_all add: ba_ea_def rt_align_def rt_align_down_def)
  moreover have "0 < ba" "ba + 36 \<le> ea" "ea \<le> e"
    using assms by (auto simp: heap_area_def ba_ea_def rt_align_def rt_align_down_def)
  moreover have "e < 2 ^ 32" using assms by (simp add: heap_area_def)
  moreover obtain k where k: "ea = ba + 24 + k" "12 \<le> k" 
    using that [of "ea - ba - 24"] calculation by simp
  moreover have "(12 + k) mod 4 = 0" using calculation by presburger
  moreover have "is_start [(False, n)] 0" for n by (rule is_startI [of _ "[]"]) simp_all
  ultimately show "heap_ok (cl_heap (heap_start b e f)) [(False, rt_align_down e - rt_align b - 12)]" "lfree (cl_heap (heap_start b e f)) = 0"
    by (simp_all add: heap_start_def rt_system_heap_init_def Let_def heap_ok_def rep_def blk_def at_end_def ok_last_def
        flip: ba_ea_def)
qed

lemma start_inv: "heap_area b e \<Longrightarrow> heap_inv t (heap_start b e f)"
  using start_rep [of b e f] by (intro heap_invI [of _ "[(False, rt_align_down e - rt_align b - 12)]" "[]"]) (simp_all add: heap_start_def)

section \<open>Runs\<close>

inductive buf_run :: "heap_req list \<Rightarrow> u8 list list \<Rightarrow> u8 list list \<Rightarrow> bool" where
  buf_done: "buf_run [] bufs bufs"
| buf_next: "buf_step rq bufs bufs1 \<Longrightarrow> buf_run rqs bufs1 bufs2 \<Longrightarrow> buf_run (rq # rqs) bufs bufs2"

lemma run_buffers:
  assumes "heap_inv False s" "inputs_ok heap_step req_ok s rqs"
  shows "\<exists>s'. run_steps heap_step s rqs = Some s' \<and> buf_run rqs (buffers s) (buffers s')"
  using assms
proof (induction rqs arbitrary: s)
  case Nil
  then show ?case by (simp add: buf_done)
next
  case (Cons rq rqs)
  obtain s1 where s1: "heap_step s rq = Some s1" "heap_inv False s1" "buf_step rq (buffers s) (buffers s1)"
    using heap_step_ok [of False] Cons.prems by fastforce
  obtain s2 where "run_steps heap_step s1 rqs = Some s2" "buf_run rqs (buffers s1) (buffers s2)"
    using Cons.IH [OF s1(2)] Cons.prems(2) s1(1) by auto
  then show ?case using s1 by (auto intro: buf_next)
qed

text \<open>The blocks of the clients: aligned, in the area behind a header, and apart by at least a header.\<close>

definition well_placed :: "heap_client \<Rightarrow> bool" where
  "well_placed s \<longleftrightarrow> (\<forall>i < length (cl_live s). ptr_of s i mod 4 = 0 \<and> heap_ptr (cl_heap s) + 12 \<le> ptr_of s i \<and>
     ptr_of s i + room_of s i \<le> heap_ptr (cl_heap s) + heap_end (cl_heap s) \<and>
     (\<forall>j < length (cl_live s). i \<noteq> j \<longrightarrow> ptr_of s i + room_of s i + 12 \<le> ptr_of s j \<or> ptr_of s j + room_of s j + 12 \<le> ptr_of s i))"

lemma used_aligned:
  assumes "rep h bs" "(q, n) \<in> used bs" shows "q mod 4 = 0"
proof -
  obtain as cs where "bs = as @ (True, n) # cs" "q = span as" using assms(2) by (auto elim: useds_split)
  then show ?thesis using rep_segs [OF assms(1)] segs_aligned [of "mems h" 0 0 as "span as"] by (simp add: segs_append)
qed

lemma inv_well_placed:
  assumes "heap_inv False s" shows "well_placed s"
  unfolding well_placed_def
proof (intro allI impI)
  fix i assume il: "i < length (cl_live s)"
  obtain bs us where v: "heap_ok (cl_heap s) bs" "used bs = set us" "distinct (map fst us)" "list_all2 (fits (cl_heap s)) (cl_live s) us"
    by (rule heap_invE [OF assms])
  have r: "rep (cl_heap s) bs" using v(1) by (simp add: heap_ok_def)
  then have a4: "heap_ptr (cl_heap s) mod 4 = 0" unfolding rep_def by blast
  note u = nth_used [OF v(4,2) il]
  have ui: "(fst (us ! i), snd (us ! i)) \<in> used bs" using u(2) by simp
  have "ptr_of s i mod 4 = 0" using used_aligned [OF r ui] a4 u(3) by presburger
  moreover have "ptr_of s i + room_of s i \<le> heap_ptr (cl_heap s) + heap_end (cl_heap s)"
    using used_range [OF r ui] u(3,4) by simp
  moreover have "\<forall>j < length (cl_live s). i \<noteq> j \<longrightarrow> ptr_of s i + room_of s i + 12 \<le> ptr_of s j \<or> ptr_of s j + room_of s j + 12 \<le> ptr_of s i"
  proof (intro allI impI)
    fix j assume jl: "j < length (cl_live s)" and ij: "i \<noteq> j"
    note w = nth_used [OF v(4,2) jl]
    have wj: "(fst (us ! j), snd (us ! j)) \<in> used bs" using w(2) by simp
    have "fst (us ! i) \<noteq> fst (us ! j)" using v(3) u(1) w(1) ij by (auto simp: distinct_conv_nth)
    then show "ptr_of s i + room_of s i + 12 \<le> ptr_of s j \<or> ptr_of s j + room_of s j + 12 \<le> ptr_of s i"
      using used_disjoint [OF r ui wj] u(3,4) w(3,4) by auto
  qed
  ultimately show "ptr_of s i mod 4 = 0 \<and> heap_ptr (cl_heap s) + 12 \<le> ptr_of s i \<and>
     ptr_of s i + room_of s i \<le> heap_ptr (cl_heap s) + heap_end (cl_heap s) \<and>
     (\<forall>j < length (cl_live s). i \<noteq> j \<longrightarrow> ptr_of s i + room_of s i + 12 \<le> ptr_of s j \<or> ptr_of s j + room_of s j + 12 \<le> ptr_of s i)"
    using u(3) by simp
qed

text \<open>The heap as one free block, with the search starting at it and nothing counted as used.\<close>

definition whole :: "rt_heap \<Rightarrow> bool" where
  "whole h \<longleftrightarrow> lfree h = 0 \<and> used_mem h = 0 \<and>
     (case mems h 0 of Some m \<Rightarrow> h_used m = 0 \<and> h_next m = heap_end h | None \<Rightarrow> False)"

lemma inv_whole:
  assumes "heap_inv False s" "cl_live s = []" shows "whole (cl_heap s)"
proof -
  obtain bs us where v: "heap_ok (cl_heap s) bs" "used bs = set us" "distinct (map fst us)" "list_all2 (fits (cl_heap s)) (cl_live s) us"
    "used bs = {} \<longrightarrow> lfree (cl_heap s) = 0"
    by (rule heap_invE [OF assms(1)])
  then have u: "useds 0 bs = []" using assms(2) by simp
  have r: "rep (cl_heap s) bs" using v(1) by (simp add: heap_ok_def)
  then have "no_adj bs" "bs \<noteq> []" "used_mem (cl_heap s) = used_total bs" by (simp_all add: rep_def)
  then obtain n where n: "bs = [(False, n)]" using u useds_all_free [of 0 bs] by (auto elim: all_free_single)
  have "blk (mems (cl_heap s)) 0 0 False n" using rep_segs [OF r] unfolding n segs.simps by blast
  moreover have "n = heap_end (cl_heap s)" using rep_segs [OF r] by (simp add: n)
  ultimately have "blk (mems (cl_heap s)) 0 0 False (heap_end (cl_heap s))" by simp
  then obtain x where "mems (cl_heap s) 0 = Some x" "h_used x = 0" "h_next x = heap_end (cl_heap s)"
    by (auto simp: blk_def)
  then show ?thesis
    using v(5) u \<open>used_mem _ = _\<close> by (simp add: whole_def n)
qed

lemma first_fit:
  assumes "heap_inv True s"
  shows "\<exists>bs. rep (cl_heap s) bs \<and> (map_option snd (rt_malloc mg n (cl_heap s)) = Some RT_NULL \<longleftrightarrow> fit n 0 bs = None)"
proof -
  obtain bs us where v: "heap_ok (cl_heap s) bs" "lfree (cl_heap s) = low 0 bs"
    by (rule heap_invE [OF assms]) simp
  have "fit n (lfree (cl_heap s)) bs = fit n 0 bs" by (simp add: v(2) fit_def find_fit_from_low)
  moreover have "rep (cl_heap s) bs" using v(1) by (simp add: heap_ok_def)
  moreover have "map_option snd (rt_malloc mg n (cl_heap s)) = Some RT_NULL \<longleftrightarrow> fit n (lfree (cl_heap s)) bs = None"
  proof (cases "fit n (lfree (cl_heap s)) bs")
    case None
    then show ?thesis using rt_malloc_None [of "cl_heap s" bs n mg] v(1) by (simp add: heap_ok_def)
  next
    case (Some f)
    obtain as k cs where f: "f = (as, k, cs)" by (cases f)
    have r: "rep (cl_heap s) bs" "is_start bs (lfree (cl_heap s))" using v(1) by (simp_all add: heap_ok_def)
    obtain h' where "rt_malloc mg n (cl_heap s) = Some (h', heap_ptr (cl_heap s) + span as + 12)"
      by (rule rt_malloc_Some [OF r Some [unfolded f]])
    with Some show ?thesis by simp
  qed
  ultimately show ?thesis by auto
qed

section \<open>What the code does not do\<close>

lemmas heap_run_simps = heap_start_def rt_system_heap_init_def rt_malloc_def rt_realloc_def rt_free_def malloc_take_def realloc_split_def
  plug_holes_def plug_forward_def plug_backward_def put_mem_def set_prev_def count_used_def rt_align_def rt_align_down_def sub32_def Let_def

text \<open>
  Shrinking a block leaves \<open>lfree\<close> alone. If it lies behind the block, the cut-off end is free and large enough, and
  still no allocation finds it.
\<close>

lemma realloc_hides_block:
  "(case run_steps heap_step (heap_start 4 148 f) [Malloc 0 48, Malloc 0 56, Realloc 0 1 4] of
      Some s \<Rightarrow> map_option h_used (mems (cl_heap s) 16) = Some 0 \<and> map_option h_next (mems (cl_heap s) 16) = Some 60 \<and>
        map_option snd (rt_malloc 0 12 (cl_heap s)) = Some RT_NULL
    | None \<Rightarrow> False)"
  by (simp add: heap_run_simps malloc_scan.simps next_free.simps)

text \<open>A size that wraps to 0 when it is rounded up is answered with a block of 12 bytes.\<close>

lemma malloc_wraps:
  "map_option snd (rt_malloc 0 (2 ^ 32 - 1) (cl_heap (heap_start 4 148 f))) = Some 16"
  "map_option (\<lambda>(h, p). map_option h_next (mems h 0)) (rt_malloc 0 (2 ^ 32 - 1) (cl_heap (heap_start 4 148 f))) = Some (Some 24)"
  by (simp_all add: heap_run_simps malloc_scan.simps next_free.simps)

text \<open>The last block is refused although it fits exactly.\<close>

lemma exact_fit_refused:
  "map_option snd (rt_malloc 0 120 (cl_heap (heap_start 4 148 f))) = Some RT_NULL"
  by (simp add: heap_run_simps malloc_scan.simps next_free.simps)

section \<open>Properties\<close>

text \<open>
  C28: From its initialisation on, the kernel heap answers every sequence of requests (allocation, zeroed allocation,
  change of size, release and writes of the clients into their own blocks): no call loops or fails an assertion, and
  the blocks behave as separate buffers, each changed only by the requests that name it.
\<close>

theorem kernel_heap_buffers:
  assumes "heap_area b e" "inputs_ok heap_step req_ok (heap_start b e f) rqs"
  shows "\<exists>s. run_steps heap_step (heap_start b e f) rqs = Some s \<and> buf_run rqs [] (buffers s)"
  using run_buffers [OF start_inv [OF assms(1)] assms(2)] by (simp add: buffers_def heap_start_def)

text \<open>
  C29: The blocks the clients hold are aligned to four bytes, lie in the area, hold at least the bytes asked for, and
  are at least a header apart.
\<close>

theorem kernel_heap_layout:
  assumes "heap_area b e" "inputs_ok heap_step req_ok (heap_start b e f) rqs" "run_steps heap_step (heap_start b e f) rqs = Some s"
  shows "well_placed s"
  using kh.run_inv [OF start_inv [OF assms(1)] assms(2,3)] by (rule inv_well_placed)

text \<open>
  C30: Once every block has been given back, in whatever order, the heap is one free block again, the search starts at
  it and nothing is counted as used.
\<close>

theorem kernel_heap_whole_again:
  assumes "heap_area b e" "inputs_ok heap_step req_ok (heap_start b e f) rqs" "run_steps heap_step (heap_start b e f) rqs = Some s"
    "cl_live s = []"
  shows "whole (cl_heap s)"
  using inv_whole [OF kh.run_inv [OF start_inv [OF assms(1)] assms(2,3)] assms(4)] .

text \<open>
  Without reallocations, an allocation fails only if no free block of the whole heap has room, up to the bound of
  the search.
\<close>

lemma kernel_heap_first_fit:
  assumes "heap_area b e" "inputs_ok heap_step plain_ok (heap_start b e f) rqs" "run_steps heap_step (heap_start b e f) rqs = Some s"
  shows "\<exists>bs. rep (cl_heap s) bs \<and> (map_option snd (rt_malloc mg n (cl_heap s)) = Some RT_NULL \<longleftrightarrow> fit n 0 bs = None)"
  by (rule first_fit [OF kp.run_inv [OF start_inv [OF assms(1)] assms(2,3)]])

section \<open>Witnesses\<close>

definition demo :: "heap_req list" where
  "demo = [Malloc 0 20, Calloc 0 2 4, Write 1 3 7, Realloc 0 1 40, Malloc 0 100, Release 0, Realloc 0 0 8]"

lemma demo_area: "heap_area 4 300"
  by (simp add: heap_area_def rt_align_def rt_align_down_def)

lemma demo_ok: "inputs_ok heap_step req_ok (heap_start 4 300 f) demo"
  by (simp add: demo_def heap_run_simps rt_calloc_def rt_memcpy_def malloc_scan.simps next_free.simps)

theorem kernel_heap_buffers_witness:
  "\<exists>s. run_steps heap_step (heap_start 4 300 (\<lambda>_. 0)) demo = Some s \<and> buf_run demo [] (buffers s)"
  by (rule kernel_heap_buffers [OF demo_area demo_ok])

theorem kernel_heap_layout_witness:
  "\<exists>s. run_steps heap_step (heap_start 4 300 (\<lambda>_. 0)) demo = Some s \<and> well_placed s"
proof -
  obtain s where "run_steps heap_step (heap_start 4 300 (\<lambda>_. 0)) demo = Some s"
    using run_buffers [OF start_inv [OF demo_area] demo_ok] by blast
  with kernel_heap_layout [OF demo_area demo_ok] show ?thesis by blast
qed

definition demo_end :: "heap_req list" where
  "demo_end = [Malloc 0 20, Malloc 0 50, Malloc 0 30, Realloc 0 0 12, Release 1, Release 1, Release 0]"

theorem kernel_heap_whole_again_witness:
  "\<exists>s. run_steps heap_step (heap_start 4 300 (\<lambda>_. 0)) demo_end = Some s \<and> whole (cl_heap s)"
proof -
  have ok: "inputs_ok heap_step req_ok (heap_start 4 300 (\<lambda>_. 0)) demo_end"
    by (simp add: demo_end_def heap_run_simps rt_memcpy_def malloc_scan.simps next_free.simps)
  obtain s where s: "run_steps heap_step (heap_start 4 300 (\<lambda>_. 0)) demo_end = Some s" "cl_live s = []"
    by (simp add: demo_end_def heap_run_simps rt_memcpy_def malloc_scan.simps next_free.simps)
  show ?thesis using kernel_heap_whole_again [OF demo_area ok s] s(1) by blast
qed

definition demo_plain :: "heap_req list" where
  "demo_plain = [Malloc 0 20, Malloc 0 50, Malloc 0 30, Release 1]"

lemma kernel_heap_first_fit_witness:
  "\<exists>s bs. run_steps heap_step (heap_start 4 300 (\<lambda>_. 0)) demo_plain = Some s \<and> rep (cl_heap s) bs \<and>
     (map_option snd (rt_malloc 0 60 (cl_heap s)) = Some RT_NULL \<longleftrightarrow> fit 60 0 bs = None)"
proof -
  have ok: "inputs_ok heap_step plain_ok (heap_start 4 300 (\<lambda>_. 0)) demo_plain"
    by (simp add: demo_plain_def plain_ok_def heap_run_simps malloc_scan.simps next_free.simps)
  obtain s where s: "run_steps heap_step (heap_start 4 300 (\<lambda>_. 0)) demo_plain = Some s"
    by (simp add: demo_plain_def heap_run_simps malloc_scan.simps next_free.simps)
  obtain bs where "rep (cl_heap s) bs" "map_option snd (rt_malloc 0 60 (cl_heap s)) = Some RT_NULL \<longleftrightarrow> fit 60 0 bs = None"
    using kernel_heap_first_fit [OF demo_area ok s, of 0 60] by (elim exE conjE)
  with s show ?thesis by (intro exI [of _ s] exI [of _ bs] conjI)
qed

end
