(* ===== verification/Rt_Timer.thy ===== *)
theory Rt_Timer
  imports Firmware_Prelude
begin

text \<open>
  The timers of the RT-Thread kernel, \<open>src/timer.c\<close> and the tick of \<open>src/clock.c\<close>, as configured: one list of hard
  timers (\<open>RT_TIMER_SKIP_LIST_LEVEL\<close> is 1, no soft timers). The linked list is a list of timers. What a timeout
  function does with timers is a list of calls, given by a parameter; the calls of timeout functions are recorded.
  A failed \<open>RT_ASSERT\<close> and a check that never ends are \<open>None\<close>.
\<close>

section \<open>State\<close>

type_synonym timer_id = nat

record rt_timer =
  tm_flag :: u8
  timeout_tick :: u32
  init_tick :: u32

record timer_sys =
  rt_tick :: u32
  timers :: "timer_id \<Rightarrow> rt_timer"
  rt_timer_list :: "timer_id list"
  timeouts :: "(u32 \<times> timer_id) list"

abbreviation (input) RT_TIMER_FLAG_ACTIVATED :: u8 where "RT_TIMER_FLAG_ACTIVATED \<equiv> 1"
abbreviation (input) RT_TIMER_FLAG_PERIODIC :: u8 where "RT_TIMER_FLAG_PERIODIC \<equiv> 2"
abbreviation (input) RT_TICK_MAX :: u32 where "RT_TICK_MAX \<equiv> 0xffffffff"
abbreviation (input) HALF_TICK_MAX :: u32 where "HALF_TICK_MAX \<equiv> 0x7fffffff"

definition upd_timer :: "timer_id \<Rightarrow> (rt_timer \<Rightarrow> rt_timer) \<Rightarrow> timer_sys \<Rightarrow> timer_sys" where
  "upd_timer t f s = s\<lparr> timers := (timers s)(t := f (timers s t)) \<rparr>"

definition clear_active :: "rt_timer \<Rightarrow> rt_timer" where
  "clear_active m = m\<lparr> tm_flag := tm_flag m AND NOT RT_TIMER_FLAG_ACTIVATED \<rparr>"

definition set_active :: "rt_timer \<Rightarrow> rt_timer" where
  "set_active m = m\<lparr> tm_flag := tm_flag m OR RT_TIMER_FLAG_ACTIVATED \<rparr>"

section \<open>Timer calls\<close>

definition init_timer :: "u32 \<Rightarrow> u8 \<Rightarrow> rt_timer" where
  "init_timer time flag = \<lparr> tm_flag = flag AND NOT RT_TIMER_FLAG_ACTIVATED, timeout_tick = 0, init_tick = time \<rparr>"

definition rt_timer_init :: "timer_id \<Rightarrow> u32 \<Rightarrow> u8 \<Rightarrow> timer_sys \<Rightarrow> timer_sys" where
  "rt_timer_init t time flag = upd_timer t (\<lambda>_. init_timer time flag)"

text \<open>The empty list of the start-up, with timers whose times and flags are arguments.\<close>

definition rt_system_timer_init :: "u32 \<Rightarrow> (timer_id \<Rightarrow> u32) \<Rightarrow> (timer_id \<Rightarrow> u8) \<Rightarrow> timer_sys" where
  "rt_system_timer_init tick time flag =
    \<lparr> rt_tick = tick, timers = \<lambda>t. init_timer (time t) (flag t), rt_timer_list = [], timeouts = [] \<rparr>"

definition rt_timer_remove :: "timer_id \<Rightarrow> timer_sys \<Rightarrow> timer_sys" where
  "rt_timer_remove t s = s\<lparr> rt_timer_list := removeAll t (rt_timer_list s) \<rparr>"

definition rt_timer_detach :: "timer_id \<Rightarrow> timer_sys \<Rightarrow> timer_sys" where
  "rt_timer_detach = rt_timer_remove"

text \<open>The place of a timer: behind the ones that are due earlier or at the same tick.\<close>

fun insert_timer :: "(timer_id \<Rightarrow> rt_timer) \<Rightarrow> timer_id \<Rightarrow> timer_id list \<Rightarrow> timer_id list" where
  "insert_timer ms n [] = [n]"
| "insert_timer ms n (t # ts) =
    (let d = timeout_tick (ms t) - timeout_tick (ms n)
     in if d = 0 then t # insert_timer ms n ts
        else if d < HALF_TICK_MAX then n # t # ts
        else t # insert_timer ms n ts)"

definition rt_timer_start :: "timer_id \<Rightarrow> timer_sys \<Rightarrow> timer_sys option" where
  "rt_timer_start t s =
    (let s1 = upd_timer t clear_active (rt_timer_remove t s)
     in if init_tick (timers s1 t) < HALF_TICK_MAX then
          (let s2 = upd_timer t (\<lambda>m. m\<lparr> timeout_tick := rt_tick s1 + init_tick m \<rparr>) s1;
               s3 = s2\<lparr> rt_timer_list := insert_timer (timers s2) t (rt_timer_list s2) \<rparr>
           in Some (upd_timer t set_active s3))
        else None)"

definition rt_timer_stop :: "timer_id \<Rightarrow> timer_sys \<Rightarrow> timer_sys \<times> bool" where
  "rt_timer_stop t s =
    (if tm_flag (timers s t) AND RT_TIMER_FLAG_ACTIVATED = 0 then (s, False)
     else (upd_timer t clear_active (rt_timer_remove t s), True))"

datatype timer_ctrl = SET_TIME u32 | SET_ONESHOT | SET_PERIODIC

definition rt_timer_control :: "timer_id \<Rightarrow> timer_ctrl \<Rightarrow> timer_sys \<Rightarrow> timer_sys" where
  "rt_timer_control t cmd = upd_timer t (\<lambda>m. case cmd of
      SET_TIME n \<Rightarrow> m\<lparr> init_tick := n \<rparr>
    | SET_ONESHOT \<Rightarrow> m\<lparr> tm_flag := tm_flag m AND NOT RT_TIMER_FLAG_PERIODIC \<rparr>
    | SET_PERIODIC \<Rightarrow> m\<lparr> tm_flag := tm_flag m OR RT_TIMER_FLAG_PERIODIC \<rparr>)"

definition rt_timer_next_timeout_tick :: "timer_sys \<Rightarrow> u32" where
  "rt_timer_next_timeout_tick s = (case rt_timer_list s of [] \<Rightarrow> RT_TICK_MAX | t # _ \<Rightarrow> timeout_tick (timers s t))"

datatype timer_call = Start timer_id | Stop timer_id | Detach timer_id | Control timer_id timer_ctrl

fun do_call :: "timer_call \<Rightarrow> timer_sys \<Rightarrow> timer_sys option" where
  "do_call (Start t) s = rt_timer_start t s"
| "do_call (Stop t) s = Some (fst (rt_timer_stop t s))"
| "do_call (Detach t) s = Some (rt_timer_detach t s)"
| "do_call (Control t cmd) s = Some (rt_timer_control t cmd s)"

fun do_calls :: "timer_call list \<Rightarrow> timer_sys \<Rightarrow> timer_sys option" where
  "do_calls [] s = Some s"
| "do_calls (c # cs) s = do { s1 \<leftarrow> do_call c s; do_calls cs s1 }"

section \<open>The check in the tick interrupt\<close>

text \<open>One expired timer: removed, its function called, and started again if it is periodic and was not stopped.\<close>

definition expire :: "(timer_id \<Rightarrow> timer_call list) \<Rightarrow> timer_id \<Rightarrow> timer_sys \<Rightarrow> timer_sys option" where
  "expire act t s = do {
     let s1 = rt_timer_remove t s;
     s2 \<leftarrow> do_calls (act t) (s1\<lparr> timeouts := timeouts s1 @ [(rt_tick s1, t)] \<rparr>);
     (if tm_flag (timers s2 t) AND RT_TIMER_FLAG_PERIODIC \<noteq> 0 \<and> tm_flag (timers s2 t) AND RT_TIMER_FLAG_ACTIVATED \<noteq> 0
      then rt_timer_start t (upd_timer t clear_active s2)
      else Some (upd_timer t clear_active s2)) }"

partial_function (option) check_loop :: "(timer_id \<Rightarrow> timer_call list) \<Rightarrow> u32 \<Rightarrow> timer_sys \<Rightarrow> timer_sys option" where
  "check_loop act current_tick s =
    (case rt_timer_list s of
       [] \<Rightarrow> Some s
     | t # _ \<Rightarrow>
         if current_tick - timeout_tick (timers s t) < HALF_TICK_MAX then do {
           s1 \<leftarrow> expire act t s;
           check_loop act (rt_tick s1) s1 }
         else Some s)"

declare check_loop.simps [code]

definition rt_timer_check :: "(timer_id \<Rightarrow> timer_call list) \<Rightarrow> timer_sys \<Rightarrow> timer_sys option" where
  "rt_timer_check act s = check_loop act (rt_tick s) s"

text \<open>The tick; the time slice of the running thread is left out.\<close>

definition rt_tick_increase :: "(timer_id \<Rightarrow> timer_call list) \<Rightarrow> timer_sys \<Rightarrow> timer_sys option" where
  "rt_tick_increase act s = rt_timer_check act (s\<lparr> rt_tick := rt_tick s + 1 \<rparr>)"

definition rt_tick_from_millisecond :: "u32 \<Rightarrow> u32" where
  "rt_tick_from_millisecond ms = (10000 * ms + 999) div 1000"

datatype timer_event = Tick | Call timer_call

fun timer_step :: "(timer_id \<Rightarrow> timer_call list) \<Rightarrow> timer_sys \<Rightarrow> timer_event \<Rightarrow> timer_sys option" where
  "timer_step act s Tick = rt_tick_increase act s"
| "timer_step act s (Call c) = do_call c s"

end
