(* ===== verification/Rt_Timer_Inv.thy ===== *)
theory Rt_Timer_Inv
  imports Rt_Timer
begin

text \<open>
  The timer list in terms of the ticks that are left until a timer is due: it stays sorted by them although the
  tick counter wraps, every call keeps that, and the check of a tick ends.
\<close>

section \<open>Ticks that are left\<close>

definition due :: "timer_sys \<Rightarrow> timer_id \<Rightarrow> nat" where
  "due s t = unat (timeout_tick (timers s t) - rt_tick s)"

abbreviation half :: nat where "half \<equiv> 0x7fffffff"

lemma half_less: "w < HALF_TICK_MAX \<longleftrightarrow> unat w < half"
  by (simp add: word_less_nat_alt)

lemma later:
  fixes a b c :: u32
  assumes "unat (a - c) < half" "unat (b - c) < half"
  shows "a = b \<longleftrightarrow> unat (a - c) = unat (b - c)" "a - b < HALF_TICK_MAX \<longleftrightarrow> unat (b - c) \<le> unat (a - c)"
proof -
  define x y where "x = a - c" "y = b - c"
  have ab: "a - b = x - y" by (simp add: x_y_def)
  show "a = b \<longleftrightarrow> unat (a - c) = unat (b - c)" by (simp flip: word_unat_eq_iff)
  have "unat (x - y) < half \<longleftrightarrow> unat y \<le> unat x"
    using assms unsigned_less [where 'a = nat, of y] unfolding x_y_def [symmetric] unat_sub_if' by (simp; linarith)
  then show "a - b < HALF_TICK_MAX \<longleftrightarrow> unat (b - c) \<le> unat (a - c)"
    unfolding ab half_less by (simp add: x_y_def)
qed

lemma expired:
  assumes "due s t < half" shows "rt_tick s - timeout_tick (timers s t) < HALF_TICK_MAX \<longleftrightarrow> due s t = 0"
proof -
  define x where "x = timeout_tick (timers s t) - rt_tick s"
  have "rt_tick s - timeout_tick (timers s t) = - x" by (simp add: x_def)
  moreover have "unat (- x) < half \<longleftrightarrow> unat x = 0"
    using assms unfolding due_def x_def [symmetric] using unat_sub_if' [of 0 x] by (cases "x = 0") (simp_all add: unat_eq_0)
  ultimately show ?thesis by (simp add: half_less due_def x_def)
qed

lemma start_due: "unat ((tk + n) - tk) = unat (n :: u32)"
  by simp

lemma due_tick:
  assumes "0 < due s t" shows "due (s\<lparr> rt_tick := rt_tick s + 1 \<rparr>) t = due s t - 1"
proof -
  define x where "x = timeout_tick (timers s t) - rt_tick s"
  have "timeout_tick (timers s t) - (rt_tick s + 1) = x - 1" by (simp add: x_def)
  moreover have "x \<noteq> 0" using assms by (auto simp: due_def x_def)
  ultimately show ?thesis using unat_minus_one [of x] by (simp add: due_def) (simp add: x_def diff_diff_eq)
qed

section \<open>The list\<close>

lemma insert_set [simp]: "set (insert_timer ms n ts) = insert n (set ts)"
  by (induction ts) (auto simp: Let_def)

lemma insert_distinct: "distinct ts \<Longrightarrow> n \<notin> set ts \<Longrightarrow> distinct (insert_timer ms n ts)"
  by (induction ts) (auto simp: Let_def)

lemma insert_sorted:
  assumes "\<forall>t \<in> insert n (set ts). unat (timeout_tick (ms t) - c) < half" "sorted (map (\<lambda>t. unat (timeout_tick (ms t) - c)) ts)"
  shows "sorted (map (\<lambda>t. unat (timeout_tick (ms t) - c)) (insert_timer ms n ts))"
  using assms
proof (induction ts)
  case (Cons t ts)
  have l: "timeout_tick (ms t) = timeout_tick (ms n) \<longleftrightarrow> unat (timeout_tick (ms t) - c) = unat (timeout_tick (ms n) - c)"
    "timeout_tick (ms t) - timeout_tick (ms n) < HALF_TICK_MAX \<longleftrightarrow> unat (timeout_tick (ms n) - c) \<le> unat (timeout_tick (ms t) - c)"
    using Cons.prems(1) by (auto intro!: later)
  have "sorted (map (\<lambda>t. unat (timeout_tick (ms t) - c)) (insert_timer ms n ts))" using Cons by simp
  then show ?case using Cons.prems(2) l by (auto simp: Let_def)
qed simp

definition tinv :: "timer_sys \<Rightarrow> bool" where
  "tinv s \<longleftrightarrow> distinct (rt_timer_list s) \<and> (\<forall>t \<in> set (rt_timer_list s). due s t < half) \<and>
     sorted (map (due s) (rt_timer_list s)) \<and> (\<forall>t. 0 < unat (init_tick (timers s t)) \<and> unat (init_tick (timers s t)) < half)"

fun call_ok :: "timer_call \<Rightarrow> bool" where
  "call_ok (Control _ (SET_TIME n)) \<longleftrightarrow> 0 < n \<and> n < HALF_TICK_MAX"
| "call_ok _ \<longleftrightarrow> True"

lemma upd_fields [simp]:
  "rt_tick (upd_timer t f s) = rt_tick s" "rt_timer_list (upd_timer t f s) = rt_timer_list s" "timeouts (upd_timer t f s) = timeouts s"
  "timers (upd_timer t f s) = (timers s)(t := f (timers s t))"
  by (simp_all add: upd_timer_def)

lemma flag_fields [simp]:
  "timeout_tick (clear_active m) = timeout_tick m" "init_tick (clear_active m) = init_tick m"
  "timeout_tick (set_active m) = timeout_tick m" "init_tick (set_active m) = init_tick m"
  by (simp_all add: clear_active_def set_active_def)

lemma remove_fields [simp]:
  "rt_tick (rt_timer_remove t s) = rt_tick s" "rt_timer_list (rt_timer_remove t s) = removeAll t (rt_timer_list s)"
  "timeouts (rt_timer_remove t s) = timeouts s" "timers (rt_timer_remove t s) = timers s"
  by (simp_all add: rt_timer_remove_def)

lemma tinv_init: "tinv s \<Longrightarrow> 0 < unat (init_tick (timers s t)) \<and> unat (init_tick (timers s t)) < half"
  by (simp add: tinv_def)

lemma sorted_removeAll: "sorted (map f xs) \<Longrightarrow> sorted (map f (removeAll t xs))"
  by (induction xs) auto

lemma tinv_remove [simp]: "tinv s \<Longrightarrow> tinv (rt_timer_remove t s)"
  by (auto simp: tinv_def due_def [abs_def] distinct_removeAll sorted_removeAll)

text \<open>Changes of a timer that do not touch the ticks.\<close>

lemma tinv_upd:
  assumes "tinv s" "timeout_tick (f (timers s t)) = timeout_tick (timers s t)"
    "0 < unat (init_tick (f (timers s t))) \<and> unat (init_tick (f (timers s t))) < half"
  shows "tinv (upd_timer t f s)"
proof -
  have "due (upd_timer t f s) = due s" using assms(2) by (auto simp: due_def)
  then show ?thesis using assms by (simp add: tinv_def)
qed

text \<open>The part of the invariant that is about the list alone, for clients that set the time of a timer before each start.\<close>

definition linv :: "timer_sys \<Rightarrow> bool" where
  "linv s \<longleftrightarrow> distinct (rt_timer_list s) \<and> (\<forall>t \<in> set (rt_timer_list s). due s t < half) \<and> sorted (map (due s) (rt_timer_list s))"

lemma tinv_iff: "tinv s \<longleftrightarrow> linv s \<and> (\<forall>t. 0 < unat (init_tick (timers s t)) \<and> unat (init_tick (timers s t)) < half)"
  by (auto simp: tinv_def linv_def)

lemma start_linv:
  assumes "linv s" "unat (init_tick (timers s t)) < half"
  obtains s' where "rt_timer_start t s = Some s'" "linv s'" "rt_tick s' = rt_tick s" "timeouts s' = timeouts s"
    "set (rt_timer_list s') = insert t (set (rt_timer_list s))"
    "timers s' = (timers s)(t := (timers s t)\<lparr> timeout_tick := rt_tick s + init_tick (timers s t),
       tm_flag := (tm_flag (timers s t) AND NOT 1) OR 1 \<rparr>)"
proof -
  define s1 where "s1 = upd_timer t clear_active (rt_timer_remove t s)"
  define s2 where "s2 = upd_timer t (\<lambda>m. m\<lparr> timeout_tick := rt_tick s1 + init_tick m \<rparr>) s1"
  define s' where "s' = upd_timer t set_active (s2\<lparr> rt_timer_list := insert_timer (timers s2) t (rt_timer_list s2) \<rparr>)"
  have run: "rt_timer_start t s = Some s'"
    using assms(2) unfolding rt_timer_start_def Let_def s1_def [symmetric] s2_def [symmetric] half_less
    by (simp add: s'_def s1_def)
  have d: "due s2 u = (if u = t then unat (init_tick (timers s t)) else due s u)" for u
    by (simp add: due_def s2_def s1_def)
  have l: "rt_timer_list s2 = removeAll t (rt_timer_list s)" by (simp add: s2_def s1_def)
  have "sorted (map (due s2) (removeAll t (rt_timer_list s)))"
  proof -
    have "map (due s2) (removeAll t (rt_timer_list s)) = map (due s) (removeAll t (rt_timer_list s))" using d by simp
    moreover have "sorted (map (due s) (removeAll t (rt_timer_list s)))" using assms by (intro sorted_removeAll) (simp add: linv_def)
    ultimately show ?thesis by argo
  qed
  then have so: "sorted (map (due s2) (insert_timer (timers s2) t (rt_timer_list s2)))"
    unfolding l due_def [abs_def]
    by (intro insert_sorted) (use assms d in \<open>auto simp: linv_def due_def\<close>)
  have "due s' = due s2" by (auto simp: due_def s'_def)
  moreover have "\<forall>u \<in> set (insert_timer (timers s2) t (rt_timer_list s2)). due s2 u < half"
    using assms d by (simp add: l linv_def)
  moreover have "distinct (insert_timer (timers s2) t (rt_timer_list s2))"
    using assms by (intro insert_distinct) (simp_all add: l linv_def distinct_removeAll)
  ultimately have "linv s'" using so by (simp add: linv_def) (simp add: s'_def)
  moreover have "timers s' = (timers s)(t := (timers s t)\<lparr> timeout_tick := rt_tick s + init_tick (timers s t),
       tm_flag := (tm_flag (timers s t) AND NOT 1) OR 1 \<rparr>)"
    by (simp add: s'_def s2_def s1_def set_active_def clear_active_def)
  ultimately show thesis using that [OF run] by (simp add: s'_def s2_def s1_def)
qed

lemma start_ok:
  assumes "tinv s"
  obtains s' where "rt_timer_start t s = Some s'" "tinv s'" "rt_tick s' = rt_tick s" "timeouts s' = timeouts s"
    "set (rt_timer_list s') = insert t (set (rt_timer_list s))"
    "timers s' = (timers s)(t := (timers s t)\<lparr> timeout_tick := rt_tick s + init_tick (timers s t),
       tm_flag := (tm_flag (timers s t) AND NOT 1) OR 1 \<rparr>)"
proof -
  have l: "linv s" "unat (init_tick (timers s t)) < half" using assms by (simp_all add: tinv_iff)
  show thesis by (rule start_linv [OF l]) (use that assms in \<open>auto simp: tinv_iff\<close>)
qed

section \<open>Calls\<close>

fun named :: "timer_call \<Rightarrow> timer_id" where
  "named (Start t) = t"
| "named (Stop t) = t"
| "named (Detach t) = t"
| "named (Control t _) = t"

text \<open>The expired timers of the list, and a timer that is left alone.\<close>

definition overdue :: "timer_sys \<Rightarrow> timer_id set" where
  "overdue s = {t \<in> set (rt_timer_list s). due s t = 0}"

definition kept :: "timer_id \<Rightarrow> timer_sys \<Rightarrow> timer_sys \<Rightarrow> bool" where
  "kept x s s' \<longleftrightarrow> (x \<in> set (rt_timer_list s') \<longleftrightarrow> x \<in> set (rt_timer_list s)) \<and> timers s' x = timers s x"

lemma kept_refl [simp]: "kept x s s"
  by (simp add: kept_def)

lemma kept_trans [trans]: "kept x s s1 \<Longrightarrow> kept x s1 s2 \<Longrightarrow> kept x s s2"
  by (auto simp: kept_def)

lemma kept_due: "kept x s s' \<Longrightarrow> rt_tick s' = rt_tick s \<Longrightarrow> due s' x = due s x"
  by (simp add: kept_def due_def)

lemma overdue_finite [simp]: "finite (overdue s)"
  by (simp add: overdue_def)

lemma start_effects:
  assumes "tinv s"
  obtains s' where "rt_timer_start t s = Some s'" "tinv s'" "rt_tick s' = rt_tick s" "timeouts s' = timeouts s"
    "overdue s' = overdue s - {t}" "\<forall>x. x \<noteq> t \<longrightarrow> kept x s s'" "t \<in> set (rt_timer_list s')" "due s' t = unat (init_tick (timers s t))"
    "timers s' t = (timers s t)\<lparr> timeout_tick := rt_tick s + init_tick (timers s t), tm_flag := (tm_flag (timers s t) AND NOT 1) OR 1 \<rparr>"
proof -
  obtain s' where s': "rt_timer_start t s = Some s'" "tinv s'" "rt_tick s' = rt_tick s" "timeouts s' = timeouts s"
    "set (rt_timer_list s') = insert t (set (rt_timer_list s))"
    "timers s' = (timers s)(t := (timers s t)\<lparr> timeout_tick := rt_tick s + init_tick (timers s t),
       tm_flag := (tm_flag (timers s t) AND NOT 1) OR 1 \<rparr>)"
    by (rule start_ok [OF assms])
  have d: "due s' u = (if u = t then unat (init_tick (timers s t)) else due s u)" for u
    using s'(3,6) by (simp add: due_def)
  have "0 < unat (init_tick (timers s t))" using assms by (simp add: tinv_def)
  then have "overdue s' = overdue s - {t}" using s'(5) d by (auto simp: overdue_def)
  then show thesis using that [OF s'(1-4)] s'(5,6) d [of t] by (simp add: kept_def)
qed

lemma call_effects:
  assumes "tinv s" "call_ok c"
  shows "\<exists>s'. do_call c s = Some s' \<and> tinv s' \<and> rt_tick s' = rt_tick s \<and> timeouts s' = timeouts s \<and> overdue s' \<subseteq> overdue s \<and>
    (\<forall>x. x \<noteq> named c \<longrightarrow> kept x s s')"
proof (cases c)
  case (Start t)
  obtain s' where "rt_timer_start t s = Some s'" "tinv s'" "rt_tick s' = rt_tick s" "timeouts s' = timeouts s"
    "overdue s' = overdue s - {t}" "\<forall>x. x \<noteq> t \<longrightarrow> kept x s s'"
    by (rule start_effects [OF assms(1)])
  then show ?thesis using Start by auto
next
  case (Stop t)
  have "tinv (upd_timer t clear_active (rt_timer_remove t s))"
    by (rule tinv_upd) (use assms(1) tinv_init [OF assms(1), of t] in simp_all)
  then show ?thesis using assms(1) Stop by (auto simp: rt_timer_stop_def overdue_def due_def kept_def)
next
  case (Detach t)
  then show ?thesis using assms(1) by (auto simp: rt_timer_detach_def overdue_def due_def kept_def)
next
  case (Control t cmd)
  have "tinv (do_control t cmd s)" if "do_control = rt_timer_control" for do_control
    unfolding that rt_timer_control_def
    by (rule tinv_upd) (use assms Control in \<open>auto simp: tinv_def half_less word_less_nat_alt split: timer_ctrl.splits\<close>)
  then show ?thesis
    using Control by (auto simp: rt_timer_control_def overdue_def due_def kept_def split: timer_ctrl.splits)
qed

lemma calls_effects:
  assumes "tinv s" "\<forall>c \<in> set cs. call_ok c"
  shows "\<exists>s'. do_calls cs s = Some s' \<and> tinv s' \<and> rt_tick s' = rt_tick s \<and> timeouts s' = timeouts s \<and> overdue s' \<subseteq> overdue s \<and>
    (\<forall>x. x \<notin> named ` set cs \<longrightarrow> kept x s s')"
  using assms
proof (induction cs arbitrary: s)
  case (Cons c cs)
  obtain s1 where s1: "do_call c s = Some s1" "tinv s1" "rt_tick s1 = rt_tick s" "timeouts s1 = timeouts s" "overdue s1 \<subseteq> overdue s"
    "\<forall>x. x \<noteq> named c \<longrightarrow> kept x s s1"
    using call_effects [of s c] Cons.prems by auto
  obtain s2 where s2: "do_calls cs s1 = Some s2" "tinv s2" "rt_tick s2 = rt_tick s1" "timeouts s2 = timeouts s1" "overdue s2 \<subseteq> overdue s1"
    "\<forall>x. x \<notin> named ` set cs \<longrightarrow> kept x s1 s2"
    using Cons.IH [OF s1(2)] Cons.prems by auto
  have "kept x s s2" if "x \<notin> named ` set (c # cs)" for x
    using that s1(6) s2(6) kept_trans by auto
  then show ?case using s1 s2 by auto
qed simp

section \<open>The check\<close>

text \<open>What the callbacks may do: their calls are admissible; a timer they do not name is quiet.\<close>

definition acts_ok :: "(timer_id \<Rightarrow> timer_call list) \<Rightarrow> bool" where
  "acts_ok act \<longleftrightarrow> (\<forall>t. \<forall>c \<in> set (act t). call_ok c)"

definition quiet :: "(timer_id \<Rightarrow> timer_call list) \<Rightarrow> timer_id \<Rightarrow> bool" where
  "quiet act x \<longleftrightarrow> (\<forall>t. x \<notin> named ` set (act t))"

definition repeats :: "rt_timer \<Rightarrow> bool" where
  "repeats m \<longleftrightarrow> tm_flag m AND 2 \<noteq> 0 \<and> tm_flag m AND 1 \<noteq> 0"

lemma flag_clear_set: "((f :: u8) AND - 2 OR 1) AND 2 = f AND 2"
proof -
  have "- 2 = NOT (1 :: u8)" by simp
  then show ?thesis by (simp only:) (auto intro!: bit_word_eqI simp: bit_simps)
qed

text \<open>A timer that expired, from the list to its next start or its end.\<close>

definition after_expiry :: "timer_id \<Rightarrow> timer_sys \<Rightarrow> timer_sys \<Rightarrow> bool" where
  "after_expiry x s s' \<longleftrightarrow>
    (if repeats (timers s x) then x \<in> set (rt_timer_list s') \<and> due s' x = unat (init_tick (timers s x)) \<and> repeats (timers s' x) \<and>
       init_tick (timers s' x) = init_tick (timers s x)
     else x \<notin> set (rt_timer_list s'))"

lemma expire_effects:
  assumes "tinv s" "acts_ok act" "t \<in> set (rt_timer_list s)"
  shows "\<exists>s'. expire act t s = Some s' \<and> tinv s' \<and> rt_tick s' = rt_tick s \<and> timeouts s' = timeouts s @ [(rt_tick s, t)] \<and>
    overdue s' \<subseteq> overdue s - {t} \<and> (\<forall>x. quiet act x \<and> x \<noteq> t \<longrightarrow> kept x s s') \<and> (quiet act t \<longrightarrow> after_expiry t s s')"
proof -
  define s1 where "s1 = (rt_timer_remove t s)\<lparr> timeouts := timeouts s @ [(rt_tick s, t)] \<rparr>"
  have "due s1 = due (rt_timer_remove t s)" by (simp add: s1_def due_def [abs_def])
  then have i1: "tinv s1" using tinv_remove [OF assms(1), of t] by (simp add: tinv_def s1_def)
  have f1: "rt_tick s1 = rt_tick s" "timers s1 = timers s" "rt_timer_list s1 = removeAll t (rt_timer_list s)" "timeouts s1 = timeouts s @ [(rt_tick s, t)]"
    by (simp_all add: s1_def)
  have o1: "overdue s1 = overdue s - {t}" by (auto simp: overdue_def due_def f1)
  obtain s2 where s2: "do_calls (act t) s1 = Some s2" "tinv s2" "rt_tick s2 = rt_tick s1" "timeouts s2 = timeouts s1" "overdue s2 \<subseteq> overdue s1"
    "\<forall>x. x \<notin> named ` set (act t) \<longrightarrow> kept x s1 s2"
    using calls_effects [OF i1, of "act t"] assms(2) by (auto simp: acts_ok_def)
  define s3 where "s3 = upd_timer t clear_active s2"
  have i3: "tinv s3" unfolding s3_def by (rule tinv_upd) (use s2(2) tinv_init [OF s2(2), of t] in simp_all)
  have o3: "overdue s3 = overdue s2" by (auto simp: overdue_def due_def s3_def)
  have k3: "kept x s s3" if "quiet act x" "x \<noteq> t" for x
    using s2(6) that by (auto simp: quiet_def kept_def s3_def f1)
  have t3: "timers s3 t = clear_active (timers s t) \<and> t \<notin> set (rt_timer_list s3) \<and> timers s2 t = timers s t" if "quiet act t"
    using s2(6) that by (auto simp: quiet_def kept_def s3_def f1)
  show ?thesis
  proof (cases "repeats (timers s2 t)")
    case True
    obtain s4 where s4: "rt_timer_start t s3 = Some s4" "tinv s4" "rt_tick s4 = rt_tick s3" "timeouts s4 = timeouts s3"
      "overdue s4 = overdue s3 - {t}" "\<forall>x. x \<noteq> t \<longrightarrow> kept x s3 s4" "t \<in> set (rt_timer_list s4)" "due s4 t = unat (init_tick (timers s3 t))"
      "timers s4 t = (timers s3 t)\<lparr> timeout_tick := rt_tick s3 + init_tick (timers s3 t), tm_flag := (tm_flag (timers s3 t) AND NOT 1) OR 1 \<rparr>"
      by (rule start_effects [OF i3])
    have "expire act t s = Some s4"
      using True s2(1) s4(1) by (simp add: expire_def Let_def repeats_def s3_def s1_def)
    moreover have "kept x s s4" if "quiet act x" "x \<noteq> t" for x
      using k3 [OF that] s4(6) that(2) kept_trans by blast
    moreover have "after_expiry t s s4" if "quiet act t"
      using t3 [OF that] s4(7-9) True by (simp add: after_expiry_def repeats_def clear_active_def flag_clear_set)
    ultimately show ?thesis
      using s4(2-5) s2(3-5) f1 o1 o3 by (auto simp: s3_def)
  next
    case False
    have "expire act t s = Some s3"
      using False s2(1) by (auto simp: expire_def Let_def repeats_def s3_def s1_def)
    moreover have "after_expiry t s s3" if "quiet act t"
      using t3 [OF that] False by (simp add: after_expiry_def)
    ultimately show ?thesis using i3 s2(3-5) f1 o1 o3 k3 by (auto simp: s3_def)
  qed
qed

text \<open>The calls of the function of one timer.\<close>

definition calls_of :: "timer_id \<Rightarrow> timer_sys \<Rightarrow> (u32 \<times> timer_id) list" where
  "calls_of x s = filter (\<lambda>c. snd c = x) (timeouts s)"

definition checked :: "timer_id \<Rightarrow> timer_sys \<Rightarrow> timer_sys \<Rightarrow> bool" where
  "checked x s s' \<longleftrightarrow>
    (if x \<in> overdue s then after_expiry x s s' \<and> calls_of x s' = calls_of x s @ [(rt_tick s, x)]
     else kept x s s' \<and> calls_of x s' = calls_of x s)"

lemma after_expiry_kept:
  assumes "after_expiry x s s1" "kept x s1 s2" "rt_tick s2 = rt_tick s1" shows "after_expiry x s s2"
  using assms kept_due [OF assms(2,3)] by (simp add: after_expiry_def kept_def)

lemma checked_head:
  assumes "t \<in> overdue s" "rt_tick s1 = rt_tick s" "timeouts s1 = timeouts s @ [(rt_tick s, t)]" "overdue s1 \<subseteq> overdue s - {t}"
    and "x \<noteq> t \<longrightarrow> kept x s s1" "x = t \<longrightarrow> after_expiry t s s1" "checked x s1 s2" "rt_tick s2 = rt_tick s1"
  shows "checked x s s2"
proof (cases "x = t")
  case True
  then have "kept x s1 s2" "calls_of x s2 = calls_of x s1" using assms(4,7) by (auto simp: checked_def split: if_splits)
  then show ?thesis
    using True assms(1,3,6,8) after_expiry_kept [of x s s1 s2] by (simp add: checked_def calls_of_def)
next
  case False
  then have k: "kept x s s1" "calls_of x s1 = calls_of x s" using assms(3,5) by (simp_all add: calls_of_def)
  have "x \<in> overdue s1 \<longleftrightarrow> x \<in> overdue s" using k(1) kept_due [OF k(1) assms(2)] by (auto simp: overdue_def kept_def)
  then show ?thesis
    using assms(2,7) k kept_trans [of x s s1 s2] by (auto simp: checked_def after_expiry_def kept_def split: if_splits)
qed

lemma overdue_head:
  assumes "tinv s" "rt_timer_list s = t # ts" shows "due s t = 0 \<longleftrightarrow> overdue s \<noteq> {}"
proof -
  have "\<forall>u \<in> set ts. due s t \<le> due s u" using assms by (simp add: tinv_def)
  then show ?thesis using assms(2) by (fastforce simp: overdue_def)
qed

lemma check_effects:
  assumes "tinv s" "acts_ok act"
  shows "\<exists>s'. check_loop act (rt_tick s) s = Some s' \<and> tinv s' \<and> rt_tick s' = rt_tick s \<and> overdue s' = {} \<and>
    (\<forall>x. quiet act x \<longrightarrow> checked x s s')"
  using assms(1)
proof (induction "card (overdue s)" arbitrary: s rule: less_induct)
  case less
  show ?case
  proof (cases "rt_timer_list s")
    case Nil
    then show ?thesis using less.prems by (subst check_loop.simps) (simp add: overdue_def checked_def)
  next
    case (Cons t ts)
    have lt: "due s t < half" using less.prems Cons by (simp add: tinv_def)
    show ?thesis
    proof (cases "due s t = 0")
      case False
      then have "overdue s = {}" using overdue_head [OF less.prems Cons] by simp
      then show ?thesis
        using less.prems Cons expired [OF lt] False by (subst check_loop.simps) (simp add: checked_def)
    next
      case True
      then have t: "t \<in> overdue s" using Cons by (simp add: overdue_def)
      obtain s1 where s1: "expire act t s = Some s1" "tinv s1" "rt_tick s1 = rt_tick s" "timeouts s1 = timeouts s @ [(rt_tick s, t)]"
        "overdue s1 \<subseteq> overdue s - {t}" "\<forall>x. quiet act x \<and> x \<noteq> t \<longrightarrow> kept x s s1" "quiet act t \<longrightarrow> after_expiry t s s1"
        using expire_effects [OF less.prems assms(2), of t] Cons by auto
      have "card (overdue s1) < card (overdue s)" using s1(5) t by (intro psubset_card_mono) auto
      then obtain s2 where s2: "check_loop act (rt_tick s1) s1 = Some s2" "tinv s2" "rt_tick s2 = rt_tick s1" "overdue s2 = {}"
        "\<forall>x. quiet act x \<longrightarrow> checked x s1 s2"
        using less.hyps [OF _ s1(2)] by auto
      have "checked x s s2" if "quiet act x" for x
        by (rule checked_head [OF t s1(3-5)]) (use that s1(6,7) s2(3,5) in auto)
      moreover have "check_loop act (rt_tick s) s = Some s2"
        using Cons True expired [OF lt] s1(1) s2(1) by (subst check_loop.simps) simp
      ultimately show ?thesis using s1(3) s2 by auto
    qed
  qed
qed

end
