(* ===== verification/Rt_Timer_Properties.thy ===== *)
theory Rt_Timer_Properties
  imports Rt_Timer_Inv
begin

text \<open>
  The timers over any sequence of ticks and calls: the check of every tick ends, the list stays sorted, and a timer is
  called at the ticks it was set to, also when the tick counter wraps.
\<close>

section \<open>One tick\<close>









section \<open>Runs\<close>

definition ticks :: "timer_event list \<Rightarrow> nat" where
  "ticks es = length (filter ((=) Tick) es)"

definition names :: "timer_event list \<Rightarrow> timer_id set" where
  "names es = {named c | c. Call c \<in> set es}"

lemma ticks_simps [simp]: "ticks [] = 0" "ticks (Tick # es) = Suc (ticks es)" "ticks (Call c # es) = ticks es"
  by (simp_all add: ticks_def)

lemma names_simps [simp]: "names [] = {}" "names (Tick # es) = names es" "names (Call c # es) = insert (named c) (names es)"
  by (auto simp: names_def)






section \<open>From the start-up\<close>






section \<open>Hazards\<close>

text \<open>
  A one-shot timer whose function starts it again is back in the list but its flag is cleared when the function
  returns: stopping it is an error, and it is called all the same.
\<close>

lemma restarted_cannot_stop:
  "(let act = \<lambda>t. if t = 0 then [Start 0] else []; s0 = rt_system_timer_init 0 (\<lambda>_. 2) (\<lambda>_. 0)
    in (case run_steps (timer_step act) s0 [Call (Start 0), Tick, Tick] of
          Some s \<Rightarrow> rt_timer_list s = [0] \<and> rt_timer_stop 0 s = (s, False)
        | None \<Rightarrow> False) \<and>
       map_option timeouts (run_steps (timer_step act) s0 [Call (Start 0), Tick, Tick, Call (Stop 0), Tick, Tick]) =
         Some [(2, 0), (4, 0)])"
  by (simp add: Let_def rt_system_timer_init_def init_timer_def rt_timer_start_def upd_timer_def rt_timer_remove_def
      clear_active_def set_active_def rt_tick_increase_def rt_timer_check_def check_loop.simps expire_def rt_timer_stop_def)

text \<open>A periodic timer of 0 ticks never lets the tick interrupt return.\<close>

definition stuck :: "timer_id \<Rightarrow> timer_sys \<Rightarrow> bool" where
  "stuck t s \<longleftrightarrow> rt_timer_list s = [t] \<and> init_tick (timers s t) = 0 \<and> repeats (timers s t) \<and>
     rt_tick s - timeout_tick (timers s t) < HALF_TICK_MAX"

lemma stuck_expire:
  assumes "stuck t s" "act t = []" shows "\<exists>s'. expire act t s = Some s' \<and> stuck t s'"
  using assms flag_clear_set [of "tm_flag (timers s t)"]
  by (auto simp: stuck_def expire_def Let_def rt_timer_start_def repeats_def clear_active_def set_active_def)

lemma stuck_loop:
  assumes "check_loop act c s = Some s'" shows "act t = [] \<longrightarrow> c = rt_tick s \<longrightarrow> \<not> stuck t s"
proof (induction rule: check_loop.raw_induct [OF _ assms])
  case (1 loop act c s s')
  show ?case
  proof (intro impI notI)
    assume a: "act t = []" "c = rt_tick s" "stuck t s"
    obtain s1 where s1: "expire act t s = Some s1" "stuck t s1" using stuck_expire a by blast
    then have "loop act (rt_tick s1) s1 = Some s'" using 1(2) a by (auto simp: stuck_def)
    then show False using 1(1) a(1) s1(2) by blast
  qed
qed

lemma zero_period_hangs:
  assumes "init_tick (timers s 0) = 0" "tm_flag (timers s 0) = RT_TIMER_FLAG_PERIODIC" "rt_timer_list s = []"
  shows "run_steps (timer_step (\<lambda>_. [])) s [Call (Start 0), Tick] = None"
proof -
  have "stuck 0 (s1\<lparr> rt_tick := rt_tick s1 + 1 \<rparr>)" if "rt_timer_start 0 s = Some s1" for s1
    using that assms by (auto simp: rt_timer_start_def Let_def stuck_def repeats_def set_active_def clear_active_def)
  then have "timer_step (\<lambda>_. []) s1 Tick = None" if "rt_timer_start 0 s = Some s1" for s1
    using that stuck_loop [of "\<lambda>_. []"] by (fastforce simp: rt_tick_increase_def rt_timer_check_def)
  then show ?thesis by (cases "rt_timer_start 0 s") auto
qed

text \<open>The product of \<open>rt_tick_from_millisecond\<close> wraps: about seven minutes become four ticks.\<close>

lemma millisecond_wraps: "rt_tick_from_millisecond 429496 = 4294960" "rt_tick_from_millisecond 429497 = 3"
  by (simp_all add: rt_tick_from_millisecond_def)

section \<open>Properties\<close>



section \<open>Witnesses\<close>







end
