(* ===== verification/Rt_Thread.thy ===== *)
theory Rt_Thread
  imports Rt_Timer
begin

text \<open>
  Threads and scheduler of the RT-Thread kernel, \<open>src/scheduler.c\<close>, \<open>src/thread.c\<close>, the defunct list of
  \<open>src/idle.c\<close> and the tick of \<open>src/clock.c\<close>, with 32 priorities as configured. A linked list is a list of
  threads; a thread's node knows the list it is linked into, so that linking it twice, which would corrupt both lists,
  is \<open>None\<close>, like a failed \<open>RT_ASSERT\<close>, a row outside the table and a null pointer. The timer of a thread is the timer
  of its number in the model of \<open>src/timer.c\<close>.
\<close>

section \<open>State\<close>

type_synonym thread_id = timer_id

datatype rt_err = RT_EOK | RT_ERROR | RT_ETIMEOUT

datatype thread_stat = RT_THREAD_INIT | RT_THREAD_READY | RT_THREAD_SUSPEND | RT_THREAD_CLOSE

datatype queue = Ready_Row nat | Sem_Queue nat | Mutex_Queue nat | Event_Queue nat | Defunct

text \<open>The call a thread is inside of when it gives the processor away.\<close>

datatype inside = In_Sleep | In_Sem nat | In_Mutex nat | In_Event nat

record rt_thread =
  stat :: thread_stat
  th_error :: rt_err
  current_priority :: u8
  init_priority :: u8
  number_mask :: u32
  th_init_tick :: u32
  remaining_tick :: u32
  event_set :: u32
  event_info :: u8
  is_static :: bool
  tlist :: "queue option"
  th_inside :: "inside option"

record rt_semaphore =
  sem_value :: u16
  sem_prio :: bool

record rt_mutex =
  mutex_value :: u16
  original_priority :: u8
  mutex_hold :: u8
  mutex_owner :: "thread_id option"
  mutex_prio :: bool

record rt_event =
  ev_set :: u32
  ev_prio :: bool

record kernel =
  threads :: "thread_id \<Rightarrow> rt_thread"
  queues :: "queue \<Rightarrow> thread_id list"
  ready_priority_group :: u32
  rt_current_thread :: "thread_id option"
  rt_current_priority :: u8
  lock_nest :: u16
  sems :: "nat \<Rightarrow> rt_semaphore"
  mutexes :: "nat \<Rightarrow> rt_mutex"
  events :: "nat \<Rightarrow> rt_event"
  ktimers :: timer_sys
  recved :: "thread_id \<Rightarrow> u32"
  results :: "(thread_id \<times> inside \<times> rt_err) list"

definition upd_thread :: "thread_id \<Rightarrow> (rt_thread \<Rightarrow> rt_thread) \<Rightarrow> kernel \<Rightarrow> kernel" where
  "upd_thread t f s = s\<lparr> threads := (threads s)(t := f (threads s t)) \<rparr>"

definition prio :: "kernel \<Rightarrow> thread_id \<Rightarrow> nat" where
  "prio s t = unat (current_priority (threads s t))"

section \<open>Lists\<close>

definition rt_list_remove :: "thread_id \<Rightarrow> kernel \<Rightarrow> kernel" where
  "rt_list_remove t s = (case tlist (threads s t) of None \<Rightarrow> s
     | Some q \<Rightarrow> upd_thread t (tlist_update (\<lambda>_. None)) (s\<lparr> queues := (queues s)(q := removeAll t (queues s q)) \<rparr>))"

text \<open>Linking a thread at a place of a list that depends on the list.\<close>

definition link :: "(thread_id list \<Rightarrow> thread_id list) \<Rightarrow> queue \<Rightarrow> thread_id \<Rightarrow> kernel \<Rightarrow> kernel option" where
  "link place q t s = (if tlist (threads s t) = None
     then Some (upd_thread t (tlist_update (\<lambda>_. Some q)) (s\<lparr> queues := (queues s)(q := place (queues s q)) \<rparr>)) else None)"

definition rt_list_insert_before :: "queue \<Rightarrow> thread_id \<Rightarrow> kernel \<Rightarrow> kernel option" where
  "rt_list_insert_before q t = link (\<lambda>ts. ts @ [t]) q t"

definition rt_list_insert_after :: "queue \<Rightarrow> thread_id \<Rightarrow> kernel \<Rightarrow> kernel option" where
  "rt_list_insert_after q t = link (\<lambda>ts. t # ts) q t"

section \<open>The lowest bit of a word\<close>

definition lowest_bit_row :: "nat \<Rightarrow> nat list" where
  "lowest_bit_row a = [a, 0, 1, 0, 2, 0, 1, 0, 3, 0, 1, 0, 2, 0, 1, 0]"

definition lowest_bit_bitmap :: "nat list" where
  "lowest_bit_bitmap =
    lowest_bit_row 0 @ lowest_bit_row 4 @ lowest_bit_row 5 @ lowest_bit_row 4 @
    lowest_bit_row 6 @ lowest_bit_row 4 @ lowest_bit_row 5 @ lowest_bit_row 4 @
    lowest_bit_row 7 @ lowest_bit_row 4 @ lowest_bit_row 5 @ lowest_bit_row 4 @
    lowest_bit_row 6 @ lowest_bit_row 4 @ lowest_bit_row 5 @ lowest_bit_row 4"

definition rt_ffs :: "u32 \<Rightarrow> nat" where
  "rt_ffs v =
    (if v = 0 then 0
     else if v AND 0xff \<noteq> 0 then lowest_bit_bitmap ! unat (v AND 0xff) + 1
     else if v AND 0xff00 \<noteq> 0 then lowest_bit_bitmap ! unat (drop_bit 8 (v AND 0xff00)) + 9
     else if v AND 0xff0000 \<noteq> 0 then lowest_bit_bitmap ! unat (drop_bit 16 (v AND 0xff0000)) + 17
     else lowest_bit_bitmap ! unat (drop_bit 24 (v AND 0xff000000)) + 25)"

section \<open>Scheduler\<close>

definition rt_schedule_insert_thread :: "thread_id \<Rightarrow> kernel \<Rightarrow> kernel option" where
  "rt_schedule_insert_thread t s =
    (if prio s t < 32 then do {
       s1 \<leftarrow> rt_list_insert_before (Ready_Row (prio s t)) t (upd_thread t (stat_update (\<lambda>_. RT_THREAD_READY)) s);
       Some (s1\<lparr> ready_priority_group := ready_priority_group s1 OR (number_mask (threads s1 t)) \<rparr>) }
     else None)"

definition rt_schedule_remove_thread :: "thread_id \<Rightarrow> kernel \<Rightarrow> kernel option" where
  "rt_schedule_remove_thread t s =
    (let s1 = rt_list_remove t s
     in if prio s t < 32 then
          Some (if queues s1 (Ready_Row (prio s t)) = []
                then s1\<lparr> ready_priority_group := ready_priority_group s1 AND NOT (number_mask (threads s1 t)) \<rparr> else s1)
        else None)"

definition highest_ready :: "kernel \<Rightarrow> thread_id option" where
  "highest_ready s = (if ready_priority_group s = 0 then None
     else case queues s (Ready_Row (rt_ffs (ready_priority_group s) - 1)) of [] \<Rightarrow> None | t # _ \<Rightarrow> Some t)"

definition rt_schedule :: "kernel \<Rightarrow> kernel option" where
  "rt_schedule s =
    (if lock_nest s = 0 then do {
       to \<leftarrow> highest_ready s;
       Some (if Some to \<noteq> rt_current_thread s
             then s\<lparr> rt_current_priority := of_nat (rt_ffs (ready_priority_group s) - 1), rt_current_thread := Some to \<rparr> else s) }
     else Some s)"

definition rt_system_scheduler_start :: "kernel \<Rightarrow> kernel option" where
  "rt_system_scheduler_start s = do { to \<leftarrow> highest_ready s; Some (s\<lparr> rt_current_thread := Some to \<rparr>) }"

definition rt_enter_critical :: "kernel \<Rightarrow> kernel" where
  "rt_enter_critical s = s\<lparr> lock_nest := lock_nest s + 1 \<rparr>"

definition rt_exit_critical :: "kernel \<Rightarrow> kernel option" where
  "rt_exit_critical s =
    (let s1 = s\<lparr> lock_nest := lock_nest s - 1 \<rparr>
     in if sint (lock_nest s1) \<le> 0 then rt_schedule (s1\<lparr> lock_nest := 0 \<rparr>) else Some s1)"

section \<open>Threads\<close>

definition init_thread :: "u8 \<Rightarrow> u32 \<Rightarrow> bool \<Rightarrow> rt_thread" where
  "init_thread priority tick static =
    \<lparr> stat = RT_THREAD_INIT, th_error = RT_EOK, current_priority = priority, init_priority = priority, number_mask = 0,
      th_init_tick = tick, remaining_tick = tick, event_set = 0, event_info = 0, is_static = static, tlist = None,
      th_inside = None \<rparr>"

text \<open>What the timer calls of the kernel do to the timer of a thread.\<close>

definition timer_call_for :: "timer_call \<Rightarrow> kernel \<Rightarrow> kernel option" where
  "timer_call_for c s = do { tm \<leftarrow> do_call c (ktimers s); Some (s\<lparr> ktimers := tm \<rparr>) }"

definition rt_thread_suspend :: "thread_id \<Rightarrow> kernel \<Rightarrow> (kernel \<times> rt_err) option" where
  "rt_thread_suspend t s =
    (if stat (threads s t) \<noteq> RT_THREAD_READY then Some (s, RT_ERROR)
     else do {
       s1 \<leftarrow> rt_schedule_remove_thread t (upd_thread t (stat_update (\<lambda>_. RT_THREAD_SUSPEND)) s);
       s2 \<leftarrow> timer_call_for (Stop t) s1;
       Some (s2, RT_EOK) })"

definition rt_thread_resume :: "thread_id \<Rightarrow> kernel \<Rightarrow> (kernel \<times> rt_err) option" where
  "rt_thread_resume t s =
    (if stat (threads s t) \<noteq> RT_THREAD_SUSPEND then Some (s, RT_ERROR)
     else do {
       s1 \<leftarrow> timer_call_for (Stop t) (rt_list_remove t s);
       s2 \<leftarrow> rt_schedule_insert_thread t s1;
       Some (s2, RT_EOK) })"

text \<open>
  The two parts of a resume: interrupts are enabled between them, unless the caller has disabled them. The first does
  nothing to a thread that is not suspended; the second is \<open>rt_schedule_insert_thread\<close>.
\<close>

definition resume_unlink :: "thread_id \<Rightarrow> kernel \<Rightarrow> kernel option" where
  "resume_unlink t s =
    (if stat (threads s t) \<noteq> RT_THREAD_SUSPEND then Some s else timer_call_for (Stop t) (rt_list_remove t s))"

definition rt_thread_timeout :: "thread_id \<Rightarrow> kernel \<Rightarrow> kernel option" where
  "rt_thread_timeout t s =
    (if stat (threads s t) = RT_THREAD_SUSPEND then do {
       s1 \<leftarrow> rt_schedule_insert_thread t (rt_list_remove t (upd_thread t (th_error_update (\<lambda>_. RT_ETIMEOUT)) s));
       rt_schedule s1 }
     else None)"

definition set_priority :: "u8 \<Rightarrow> rt_thread \<Rightarrow> rt_thread" where
  "set_priority p th = th\<lparr> current_priority := p, number_mask := push_bit (unat p) 1 \<rparr>"

definition rt_thread_startup :: "thread_id \<Rightarrow> kernel \<Rightarrow> kernel option" where
  "rt_thread_startup t s =
    (if stat (threads s t) = RT_THREAD_INIT then do {
       (s1, _) \<leftarrow> rt_thread_resume t
         (upd_thread t (\<lambda>th. (set_priority (init_priority th) th)\<lparr> stat := RT_THREAD_SUSPEND \<rparr>) s);
       (if rt_current_thread s1 \<noteq> None then rt_schedule s1 else Some s1) }
     else None)"

text \<open>The start up to the call of \<open>rt_thread_resume\<close>, which nothing protects from interrupts.\<close>

definition startup_prepare :: "thread_id \<Rightarrow> kernel \<Rightarrow> kernel option" where
  "startup_prepare t s =
    (if stat (threads s t) = RT_THREAD_INIT
     then Some (upd_thread t (\<lambda>th. (set_priority (init_priority th) th)\<lparr> stat := RT_THREAD_SUSPEND \<rparr>) s) else None)"

definition change_priority :: "thread_id \<Rightarrow> u8 \<Rightarrow> kernel \<Rightarrow> kernel option" where
  "change_priority t p s =
    (if stat (threads s t) = RT_THREAD_READY then do {
       s1 \<leftarrow> rt_schedule_remove_thread t s;
       rt_schedule_insert_thread t (upd_thread t (set_priority p) s1) }
     else Some (upd_thread t (set_priority p) s))"

definition rt_thread_yield :: "kernel \<Rightarrow> kernel option" where
  "rt_thread_yield s = do {
     t \<leftarrow> rt_current_thread s;
     (if stat (threads s t) = RT_THREAD_READY \<and>
         (case tlist (threads s t) of None \<Rightarrow> False | Some q \<Rightarrow> 1 < length (queues s q)) then do {
        s1 \<leftarrow> rt_list_insert_before (Ready_Row (prio s t)) t (rt_list_remove t s);
        rt_schedule s1 }
      else Some s) }"

text \<open>A sleep, up to the point where the thread gives the processor away, and its end.\<close>

definition rt_thread_sleep :: "u32 \<Rightarrow> kernel \<Rightarrow> kernel option" where
  "rt_thread_sleep tick s = do {
     t \<leftarrow> rt_current_thread s;
     (s1, _) \<leftarrow> rt_thread_suspend t s;
     s2 \<leftarrow> timer_call_for (Control t (SET_TIME tick)) s1;
     s3 \<leftarrow> timer_call_for (Start t) s2;
     rt_schedule (upd_thread t (th_inside_update (\<lambda>_. Some In_Sleep)) s3) }"

definition sleep_end :: "rt_thread \<Rightarrow> rt_thread" where
  "sleep_end th = (if th_error th = RT_ETIMEOUT then th\<lparr> th_error := RT_EOK \<rparr> else th)"

definition rt_thread_exit :: "kernel \<Rightarrow> kernel option" where
  "rt_thread_exit s = do {
     t \<leftarrow> rt_current_thread s;
     s1 \<leftarrow> rt_schedule_remove_thread t s;
     s2 \<leftarrow> timer_call_for (Detach t) (upd_thread t (stat_update (\<lambda>_. RT_THREAD_CLOSE)) s1);
     s3 \<leftarrow> (if is_static (threads s2 t) then Some s2 else rt_list_insert_after Defunct t s2);
     rt_schedule s3 }"

text \<open>
  Only the single operations of a delete and a detach disable interrupts: each is a step of its own as well, in
  \<open>Rt_Ipc\<close>. These definitions are the calls when nothing comes in between.
\<close>

definition rt_thread_delete :: "thread_id \<Rightarrow> kernel \<Rightarrow> kernel option" where
  "rt_thread_delete t s = do {
     s1 \<leftarrow> rt_schedule_remove_thread t s;
     s2 \<leftarrow> timer_call_for (Detach t) s1;
     rt_list_insert_after Defunct t (upd_thread t (stat_update (\<lambda>_. RT_THREAD_CLOSE)) s2) }"

definition rt_thread_detach :: "thread_id \<Rightarrow> kernel \<Rightarrow> kernel option" where
  "rt_thread_detach t s = do {
     s1 \<leftarrow> rt_schedule_remove_thread t s;
     s2 \<leftarrow> timer_call_for (Detach t) s1;
     Some (upd_thread t (stat_update (\<lambda>_. RT_THREAD_CLOSE)) s2) }"

text \<open>One round of the idle thread's loop: the first dead thread leaves the list, and its memory is given back.\<close>

definition idle_excute :: "kernel \<Rightarrow> kernel" where
  "idle_excute s = (case queues s Defunct of [] \<Rightarrow> s | t # _ \<Rightarrow> rt_list_remove t s)"

section \<open>Tick\<close>

definition time_slice :: "kernel \<Rightarrow> kernel option" where
  "time_slice s = do {
     t \<leftarrow> rt_current_thread s;
     let s1 = upd_thread t (\<lambda>th. th\<lparr> remaining_tick := remaining_tick th - 1 \<rparr>) s;
     (if remaining_tick (threads s1 t) = 0
      then rt_thread_yield (upd_thread t (\<lambda>th. th\<lparr> remaining_tick := th_init_tick th \<rparr>) s1)
      else Some s1) }"

fun thread_timeouts :: "thread_id list \<Rightarrow> kernel \<Rightarrow> kernel option" where
  "thread_timeouts [] s = Some s"
| "thread_timeouts (t # ts) s = do { s1 \<leftarrow> rt_thread_timeout t s; thread_timeouts ts s1 }"

text \<open>
  The check of the timers and the time-outs of the threads whose timers are due; a time-out calls no timer, so that
  it does not matter that the kernel does each one before it looks at the next timer.
\<close>

definition tick_increase :: "kernel \<Rightarrow> kernel option" where
  "tick_increase s = do {
     let s1 = s\<lparr> ktimers := (ktimers s)\<lparr> rt_tick := rt_tick (ktimers s) + 1, timeouts := [] \<rparr> \<rparr>;
     s2 \<leftarrow> time_slice s1;
     tm \<leftarrow> rt_timer_check (\<lambda>_. []) (ktimers s2);
     thread_timeouts (map snd (timeouts tm)) (s2\<lparr> ktimers := tm \<rparr>) }"

end
