(* ===== verification/Rt_Ipc.thy ===== *)
theory Rt_Ipc
  imports Rt_Thread
begin

text \<open>
  Semaphores, mutexes and event flags of the RT-Thread kernel, \<open>src/ipc.c\<close>, and the step function of the kernel. A
  call that blocks is modelled up to the switch; the rest of it is a step of its own, \<open>Return\<close>, of the same thread.
  What the calls return is recorded.
\<close>

section \<open>Waiting lists\<close>

abbreviation (input) RT_EVENT_FLAG_AND :: u8 where "RT_EVENT_FLAG_AND \<equiv> 1"
abbreviation (input) RT_EVENT_FLAG_OR :: u8 where "RT_EVENT_FLAG_OR \<equiv> 2"
abbreviation (input) RT_EVENT_FLAG_CLEAR :: u8 where "RT_EVENT_FLAG_CLEAR \<equiv> 4"

text \<open>The place by priority: in front of the first thread of a lower one.\<close>

fun insert_by_prio :: "(thread_id \<Rightarrow> nat) \<Rightarrow> thread_id \<Rightarrow> thread_id list \<Rightarrow> thread_id list" where
  "insert_by_prio p t [] = [t]"
| "insert_by_prio p t (u # us) = (if p t < p u then t # u # us else u # insert_by_prio p t us)"

definition rt_ipc_list_suspend :: "queue \<Rightarrow> thread_id \<Rightarrow> bool \<Rightarrow> kernel \<Rightarrow> kernel option" where
  "rt_ipc_list_suspend q t by_prio s = do {
     (s1, _) \<leftarrow> rt_thread_suspend t s;
     (if by_prio then link (insert_by_prio (prio s1) t) q t s1 else rt_list_insert_before q t s1) }"

definition rt_ipc_list_resume :: "queue \<Rightarrow> kernel \<Rightarrow> kernel option" where
  "rt_ipc_list_resume q s = (case queues s q of [] \<Rightarrow> None | t # _ \<Rightarrow> map_option fst (rt_thread_resume t s))"

text \<open>
  All of them, when nothing comes in between. The source disables interrupts in each round but not for the test of
  the loop, and takes the first element without a second test: on a list that was emptied in between
  \<open>wake_round\<close>, one round on its own, would take the head of the list for a thread (\<open>None\<close>).
\<close>

definition wake_round :: "queue \<Rightarrow> kernel \<Rightarrow> kernel option" where
  "wake_round q s = (case queues s q of [] \<Rightarrow> None
     | t # _ \<Rightarrow> map_option fst (rt_thread_resume t (upd_thread t (th_error_update (\<lambda>_. RT_ERROR)) s)))"

partial_function (option) rt_ipc_list_resume_all :: "queue \<Rightarrow> kernel \<Rightarrow> kernel option" where
  "rt_ipc_list_resume_all q s =
    (case queues s q of [] \<Rightarrow> Some s
     | t # _ \<Rightarrow> do {
         (s1, _) \<leftarrow> rt_thread_resume t (upd_thread t (th_error_update (\<lambda>_. RT_ERROR)) s);
         rt_ipc_list_resume_all q s1 })"

declare rt_ipc_list_resume_all.simps [code]

definition log_result :: "thread_id \<Rightarrow> inside \<Rightarrow> rt_err \<Rightarrow> kernel \<Rightarrow> kernel" where
  "log_result t c e s = s\<lparr> results := results s @ [(t, c, e)] \<rparr>"

text \<open>The part the blocking calls have in common: the wait, with its time limit if there is one.\<close>

definition wait_in :: "queue \<Rightarrow> inside \<Rightarrow> thread_id \<Rightarrow> bool \<Rightarrow> u32 \<Rightarrow> kernel \<Rightarrow> kernel option" where
  "wait_in q c t by_prio time s = do {
     s1 \<leftarrow> rt_ipc_list_suspend q t by_prio s;
     s2 \<leftarrow> (if 0 < sint time then do {
              s2 \<leftarrow> timer_call_for (Control t (SET_TIME time)) s1;
              timer_call_for (Start t) s2 }
            else Some s1);
     rt_schedule (upd_thread t (th_inside_update (\<lambda>_. Some c)) s2) }"

section \<open>Semaphores\<close>

definition upd_sem :: "nat \<Rightarrow> (rt_semaphore \<Rightarrow> rt_semaphore) \<Rightarrow> kernel \<Rightarrow> kernel" where
  "upd_sem k f s = s\<lparr> sems := (sems s)(k := f (sems s k)) \<rparr>"

definition rt_sem_take :: "nat \<Rightarrow> u32 \<Rightarrow> kernel \<Rightarrow> kernel option" where
  "rt_sem_take k time s = do {
     t \<leftarrow> rt_current_thread s;
     (if 0 < sem_value (sems s k)
      then Some (log_result t (In_Sem k) RT_EOK (upd_sem k (\<lambda>m. m\<lparr> sem_value := sem_value m - 1 \<rparr>) s))
      else if time = 0 then Some (log_result t (In_Sem k) RT_ETIMEOUT s)
      else wait_in (Sem_Queue k) (In_Sem k) t (sem_prio (sems s k)) time (upd_thread t (th_error_update (\<lambda>_. RT_EOK)) s)) }"

definition rt_sem_release :: "nat \<Rightarrow> kernel \<Rightarrow> kernel option" where
  "rt_sem_release k s =
    (if queues s (Sem_Queue k) \<noteq> [] then do { s1 \<leftarrow> rt_ipc_list_resume (Sem_Queue k) s; rt_schedule s1 }
     else Some (upd_sem k (\<lambda>m. m\<lparr> sem_value := sem_value m + 1 \<rparr>) s))"

definition sem_reset :: "nat \<Rightarrow> u32 \<Rightarrow> kernel \<Rightarrow> kernel option" where
  "sem_reset k v s = do {
     s1 \<leftarrow> rt_ipc_list_resume_all (Sem_Queue k) s;
     rt_schedule (upd_sem k (\<lambda>m. m\<lparr> sem_value := ucast v \<rparr>) s1) }"

section \<open>Mutexes\<close>

definition upd_mutex :: "nat \<Rightarrow> (rt_mutex \<Rightarrow> rt_mutex) \<Rightarrow> kernel \<Rightarrow> kernel" where
  "upd_mutex k f s = s\<lparr> mutexes := (mutexes s)(k := f (mutexes s k)) \<rparr>"

definition rt_mutex_take :: "nat \<Rightarrow> u32 \<Rightarrow> kernel \<Rightarrow> kernel option" where
  "rt_mutex_take k time s = do {
     t \<leftarrow> rt_current_thread s;
     let s1 = upd_thread t (th_error_update (\<lambda>_. RT_EOK)) s;
     let m = mutexes s k;
     (if mutex_owner m = Some t
      then Some (log_result t (In_Mutex k) RT_EOK (upd_mutex k (\<lambda>m. m\<lparr> mutex_hold := mutex_hold m + 1 \<rparr>) s1))
      else if 0 < mutex_value m
      then Some (log_result t (In_Mutex k) RT_EOK (upd_mutex k (\<lambda>m. m\<lparr> mutex_value := mutex_value m - 1,
             mutex_owner := Some t, original_priority := current_priority (threads s1 t), mutex_hold := mutex_hold m + 1 \<rparr>) s1))
      else if time = 0
      then Some (log_result t (In_Mutex k) RT_ETIMEOUT (upd_thread t (th_error_update (\<lambda>_. RT_ETIMEOUT)) s1))
      else do {
        h \<leftarrow> mutex_owner m;
        s2 \<leftarrow> (if prio s1 t < prio s1 h then change_priority h (current_priority (threads s1 t)) s1 else Some s1);
        wait_in (Mutex_Queue k) (In_Mutex k) t (mutex_prio m) time s2 }) }"

definition rt_mutex_release :: "nat \<Rightarrow> kernel \<Rightarrow> kernel option" where
  "rt_mutex_release k s = do {
     t \<leftarrow> rt_current_thread s;
     (if mutex_owner (mutexes s k) \<noteq> Some t then Some (upd_thread t (th_error_update (\<lambda>_. RT_ERROR)) s)
      else
        let s1 = upd_mutex k (\<lambda>m. m\<lparr> mutex_hold := mutex_hold m - 1 \<rparr>) s
        in if mutex_hold (mutexes s1 k) = 0 then do {
             s2 \<leftarrow> (if original_priority (mutexes s1 k) \<noteq> current_priority (threads s1 t)
                    then change_priority t (original_priority (mutexes s1 k)) s1 else Some s1);
             (case queues s2 (Mutex_Queue k) of
                h # _ \<Rightarrow> do {
                  let s3 = upd_mutex k (\<lambda>m. m\<lparr> mutex_owner := Some h, original_priority := current_priority (threads s2 h),
                             mutex_hold := mutex_hold m + 1 \<rparr>) s2;
                  s4 \<leftarrow> rt_ipc_list_resume (Mutex_Queue k) s3;
                  rt_schedule s4 }
              | [] \<Rightarrow> Some (upd_mutex k (\<lambda>m. m\<lparr> mutex_value := mutex_value m + 1, mutex_owner := None,
                             original_priority := 0xff \<rparr>) s2)) }
           else Some s1) }"

section \<open>Event flags\<close>

definition upd_event :: "nat \<Rightarrow> (rt_event \<Rightarrow> rt_event) \<Rightarrow> kernel \<Rightarrow> kernel" where
  "upd_event k f s = s\<lparr> events := (events s)(k := f (events s k)) \<rparr>"

text \<open>What a thread waits for and what is set; the flags that are taken.\<close>

definition event_there :: "u32 \<Rightarrow> u8 \<Rightarrow> u32 \<Rightarrow> bool" where
  "event_there wanted option flags =
    (if option AND RT_EVENT_FLAG_AND \<noteq> 0 then wanted AND flags = wanted
     else option AND RT_EVENT_FLAG_OR \<noteq> 0 \<and> wanted AND flags \<noteq> 0)"

fun send_round :: "nat \<Rightarrow> thread_id list \<Rightarrow> bool \<Rightarrow> kernel \<Rightarrow> (kernel \<times> bool) option" where
  "send_round k [] need s = Some (s, need)"
| "send_round k (t # ts) need s =
    (let th = threads s t; flags = ev_set (events s k)
     in if event_there (event_set th) (event_info th) flags then do {
          let s1 = (if event_info th AND RT_EVENT_FLAG_AND = 0
                    then upd_thread t (event_set_update (\<lambda>w. w AND flags)) s else s);
          let s2 = (if event_info th AND RT_EVENT_FLAG_CLEAR \<noteq> 0
                    then upd_event k (\<lambda>e. e\<lparr> ev_set := ev_set e AND NOT (event_set (threads s1 t)) \<rparr>) s1 else s1);
          (s3, _) \<leftarrow> rt_thread_resume t s2;
          send_round k ts True s3 }
        else send_round k ts need s)"

definition rt_event_send :: "nat \<Rightarrow> u32 \<Rightarrow> kernel \<Rightarrow> kernel option" where
  "rt_event_send k flags s =
    (if flags = 0 then Some s
     else do {
       let s1 = upd_event k (\<lambda>e. e\<lparr> ev_set := ev_set e OR flags \<rparr>) s;
       (s2, need) \<leftarrow> send_round k (queues s1 (Event_Queue k)) False s1;
       (if need then rt_schedule s2 else Some s2) })"

definition rt_event_recv :: "nat \<Rightarrow> u32 \<Rightarrow> u8 \<Rightarrow> u32 \<Rightarrow> kernel \<Rightarrow> kernel option" where
  "rt_event_recv k wanted option timeout s = do {
     t \<leftarrow> rt_current_thread s;
     (if wanted = 0 then Some (log_result t (In_Event k) RT_ERROR s)
      else if option AND RT_EVENT_FLAG_AND = 0 \<and> option AND RT_EVENT_FLAG_OR = 0 then None
      else
        let s1 = upd_thread t (th_error_update (\<lambda>_. RT_EOK)) s; flags = ev_set (events s1 k)
        in if event_there wanted option flags then
             (let s2 = s1\<lparr> recved := (recved s1)(t := flags AND wanted) \<rparr>
              in Some (log_result t (In_Event k) RT_EOK
                   (if option AND RT_EVENT_FLAG_CLEAR \<noteq> 0 then upd_event k (\<lambda>e. e\<lparr> ev_set := ev_set e AND NOT wanted \<rparr>) s2 else s2)))
           else if timeout = 0
           then Some (log_result t (In_Event k) RT_ETIMEOUT (upd_thread t (th_error_update (\<lambda>_. RT_ETIMEOUT)) s1))
           else wait_in (Event_Queue k) (In_Event k) t (ev_prio (events s1 k)) timeout
                  (upd_thread t (\<lambda>th. th\<lparr> event_set := wanted, event_info := option \<rparr>) s1)) }"

definition event_reset :: "nat \<Rightarrow> kernel \<Rightarrow> kernel option" where
  "event_reset k s = do {
     s1 \<leftarrow> rt_ipc_list_resume_all (Event_Queue k) s;
     rt_schedule (upd_event k (\<lambda>e. e\<lparr> ev_set := 0 \<rparr>) s1) }"

section \<open>The rest of a blocking call\<close>

definition call_end :: "kernel \<Rightarrow> kernel option" where
  "call_end s = do {
     t \<leftarrow> rt_current_thread s;
     c \<leftarrow> th_inside (threads s t);
     let s1 = upd_thread t (th_inside_update (\<lambda>_. None)) s;
     Some (case c of
        In_Sleep \<Rightarrow> log_result t c RT_EOK (upd_thread t sleep_end s1)
      | In_Event k \<Rightarrow> log_result t c (th_error (threads s1 t))
          (if th_error (threads s1 t) = RT_EOK then s1\<lparr> recved := (recved s1)(t := event_set (threads s1 t)) \<rparr> else s1)
      | _ \<Rightarrow> log_result t c (th_error (threads s1 t)) s1) }"

section \<open>Steps\<close>

text \<open>
  A call is one step, up to a switch. Those that the source does not protect from interrupts as a whole are also split
  at the points where it enables them: a delete is \<open>Delete_Unlink\<close>, \<open>Delete_Timer\<close>, \<open>Delete_Close\<close>, \<open>Delete_Defunct\<close>,
  a detach the first three of these, a resume \<open>Resume_Unlink\<close>, \<open>Resume_Insert\<close>, a start \<open>Startup_Prepare\<close>, the
  parts of a resume, \<open>Schedule\<close>, and the detach of an object a \<open>Wake_Round\<close> for each waiter. In a run anything may stand
  between these. A test that precedes a critical section and the switch that follows it are taken together with it.
\<close>

datatype kernel_event =
    Startup thread_id | Scheduler_Start | Tick_Irq | Idle_Round
  | Schedule | Enter_Critical | Exit_Critical | Yield | Sleep u32 | Thread_Exit | Return
  | Suspend thread_id | Resume thread_id | Delete thread_id | Detach_Thread thread_id | Change_Priority thread_id u8
  | Sem_Take nat u32 | Sem_Release nat | Sem_Reset nat u32 | Sem_Detach nat
  | Mutex_Take nat u32 | Mutex_Release nat | Mutex_Detach nat
  | Event_Send nat u32 | Event_Recv nat u32 u8 u32 | Event_Reset nat | Event_Detach nat
  | Delete_Unlink thread_id | Delete_Timer thread_id | Delete_Close thread_id | Delete_Defunct thread_id
  | Resume_Unlink thread_id | Resume_Insert thread_id | Startup_Prepare thread_id | Wake_Round queue

fun kernel_step :: "kernel \<Rightarrow> kernel_event \<Rightarrow> kernel option" where
  "kernel_step s (Startup t) = rt_thread_startup t s"
| "kernel_step s Scheduler_Start = rt_system_scheduler_start s"
| "kernel_step s Tick_Irq = tick_increase s"
| "kernel_step s Idle_Round = Some (idle_excute s)"
| "kernel_step s Schedule = rt_schedule s"
| "kernel_step s Enter_Critical = Some (rt_enter_critical s)"
| "kernel_step s Exit_Critical = rt_exit_critical s"
| "kernel_step s Yield = rt_thread_yield s"
| "kernel_step s (Sleep n) = rt_thread_sleep n s"
| "kernel_step s Thread_Exit = rt_thread_exit s"
| "kernel_step s Return = call_end s"
| "kernel_step s (Suspend t) = map_option fst (rt_thread_suspend t s)"
| "kernel_step s (Resume t) = map_option fst (rt_thread_resume t s)"
| "kernel_step s (Delete t) = rt_thread_delete t s"
| "kernel_step s (Detach_Thread t) = rt_thread_detach t s"
| "kernel_step s (Change_Priority t p) = change_priority t p s"
| "kernel_step s (Sem_Take k time) = rt_sem_take k time s"
| "kernel_step s (Sem_Release k) = rt_sem_release k s"
| "kernel_step s (Sem_Reset k v) = sem_reset k v s"
| "kernel_step s (Sem_Detach k) = rt_ipc_list_resume_all (Sem_Queue k) s"
| "kernel_step s (Mutex_Take k time) = rt_mutex_take k time s"
| "kernel_step s (Mutex_Release k) = rt_mutex_release k s"
| "kernel_step s (Mutex_Detach k) = rt_ipc_list_resume_all (Mutex_Queue k) s"
| "kernel_step s (Event_Send k flags) = rt_event_send k flags s"
| "kernel_step s (Event_Recv k wanted option timeout) = rt_event_recv k wanted option timeout s"
| "kernel_step s (Event_Reset k) = event_reset k s"
| "kernel_step s (Event_Detach k) = rt_ipc_list_resume_all (Event_Queue k) s"
| "kernel_step s (Delete_Unlink t) = rt_schedule_remove_thread t s"
| "kernel_step s (Delete_Timer t) = timer_call_for (Detach t) s"
| "kernel_step s (Delete_Close t) = Some (upd_thread t (stat_update (\<lambda>_. RT_THREAD_CLOSE)) s)"
| "kernel_step s (Delete_Defunct t) = rt_list_insert_after Defunct t s"
| "kernel_step s (Resume_Unlink t) = resume_unlink t s"
| "kernel_step s (Resume_Insert t) = rt_schedule_insert_thread t s"
| "kernel_step s (Startup_Prepare t) = startup_prepare t s"
| "kernel_step s (Wake_Round q) = wake_round q s"

text \<open>The parts, one after the other, are the call.\<close>

lemma delete_parts:
  "rt_thread_delete t s = run_steps kernel_step s [Delete_Unlink t, Delete_Timer t, Delete_Close t, Delete_Defunct t]"
  "rt_thread_detach t s = run_steps kernel_step s [Delete_Unlink t, Delete_Timer t, Delete_Close t]"
  by (simp_all add: rt_thread_delete_def rt_thread_detach_def split: Option.bind_split)

lemma resume_parts:
  "stat (threads s t) = RT_THREAD_SUSPEND \<Longrightarrow>
    map_option fst (rt_thread_resume t s) = run_steps kernel_step s [Resume_Unlink t, Resume_Insert t]"
  by (simp add: rt_thread_resume_def resume_unlink_def split: Option.bind_split)

lemma startup_parts:
  assumes "stat (threads s t) = RT_THREAD_INIT" "rt_current_thread s \<noteq> None"
  shows "rt_thread_startup t s = run_steps kernel_step s [Startup_Prepare t, Resume_Unlink t, Resume_Insert t, Schedule]"
proof -
  define s0 where "s0 = upd_thread t (\<lambda>th. (set_priority (init_priority th) th)\<lparr> stat := RT_THREAD_SUSPEND \<rparr>) s"
  have f: "stat (threads s0 t) = RT_THREAD_SUSPEND" by (simp add: s0_def upd_thread_def)
  have c: "rt_current_thread s2 \<noteq> None" if "rt_thread_resume t s0 = Some (s2, e)" for s2 e
    using that assms(2) f
    by (auto simp: rt_thread_resume_def bind_eq_Some_conv timer_call_for_def rt_list_remove_def s0_def upd_thread_def
        rt_schedule_insert_thread_def rt_list_insert_before_def link_def split: if_splits option.splits)
  have "rt_thread_startup t s = do { s1 \<leftarrow> map_option fst (rt_thread_resume t s0); rt_schedule s1 }"
    using assms(1) c by (cases "rt_thread_resume t s0") (auto simp: rt_thread_startup_def simp flip: s0_def)
  then show ?thesis
    unfolding resume_parts [OF f] using assms(1)
    by (simp add: startup_prepare_def flip: s0_def split: Option.bind_split)
qed

lemma wake_all_round:
  "queues s q \<noteq> [] \<Longrightarrow> rt_ipc_list_resume_all q s = do { s1 \<leftarrow> kernel_step s (Wake_Round q); rt_ipc_list_resume_all q s1 }"
  by (subst rt_ipc_list_resume_all.simps) (auto simp: wake_round_def split: list.splits Option.bind_split)

text \<open>The start: threads that are initialised, with their priorities and time slices, and objects nobody waits for.\<close>

definition kernel_start ::
  "(thread_id \<Rightarrow> u8) \<Rightarrow> (thread_id \<Rightarrow> u32) \<Rightarrow> (thread_id \<Rightarrow> bool) \<Rightarrow> (nat \<Rightarrow> u16) \<Rightarrow> bool \<Rightarrow> u32 \<Rightarrow> kernel" where
  "kernel_start priority ticks static value by_prio tick =
    \<lparr> threads = \<lambda>t. init_thread (priority t) (ticks t) (static t), queues = \<lambda>_. [], ready_priority_group = 0,
      rt_current_thread = None, rt_current_priority = 31, lock_nest = 0,
      sems = \<lambda>k. \<lparr> sem_value = value k, sem_prio = by_prio \<rparr>,
      mutexes = \<lambda>k. \<lparr> mutex_value = 1, original_priority = 0xff, mutex_hold = 0, mutex_owner = None, mutex_prio = by_prio \<rparr>,
      events = \<lambda>k. \<lparr> ev_set = 0, ev_prio = by_prio \<rparr>,
      ktimers = rt_system_timer_init tick (\<lambda>_. 0) (\<lambda>_. 0), recved = \<lambda>_. 0, results = [] \<rparr>"

end
