(* ===== verification/Rt_Ffs.thy ===== *)
theory Rt_Ffs
  imports Rt_Thread
begin

text \<open>The table of the lowest bits and \<open>__rt_ffs\<close>: the lowest bit that is set, counted from one.\<close>

fun table_ok :: "nat \<Rightarrow> nat list \<Rightarrow> bool" where
  "table_ok b [] = True"
| "table_ok b (i # is) = ((b = 0 \<or> i < 8 \<and> odd (b div 2 ^ i) \<and> b mod 2 ^ i = 0) \<and> table_ok (Suc b) is)"

lemma bitmap_table: "table_ok 0 lowest_bit_bitmap"
  by (simp add: lowest_bit_bitmap_def lowest_bit_row_def)

lemma bitmap_length: "length lowest_bit_bitmap = 256"
  by (simp add: lowest_bit_bitmap_def lowest_bit_row_def)

lemma table_ok_nth:
  "table_ok b is \<Longrightarrow> j < length is \<Longrightarrow> b + j = 0 \<or> is ! j < 8 \<and> odd ((b + j) div 2 ^ (is ! j)) \<and> (b + j) mod 2 ^ (is ! j) = 0"
  by (induction b "is" arbitrary: j rule: table_ok.induct) (auto simp: less_Suc_eq_0_disj)

lemma lowest_bit:
  assumes "b < 256" "b \<noteq> 0" shows "lowest_bit_bitmap ! b < 8" "bit b (lowest_bit_bitmap ! b)" "q < lowest_bit_bitmap ! b \<Longrightarrow> \<not> bit b q"
proof -
  define i where "i = lowest_bit_bitmap ! b"
  have t: "i < 8" "odd (b div 2 ^ i)" "b mod 2 ^ i = 0"
    using table_ok_nth [OF bitmap_table, of b] assms by (auto simp: bitmap_length i_def)
  have "take_bit i b = 0" using t(3) by (simp add: take_bit_eq_mod)
  then have "\<not> bit b q" if "q < i" using bit_take_bit_iff [of i b q] that by simp
  then show "q < lowest_bit_bitmap ! b \<Longrightarrow> \<not> bit b q" by (simp add: i_def)
  show "lowest_bit_bitmap ! b < 8" "bit b (lowest_bit_bitmap ! b)" using t by (simp_all add: i_def bit_iff_odd)
qed

lemma byte_bits: "n \<le> 24 \<Longrightarrow> bit (unat (drop_bit n ((v :: u32) AND push_bit n (mask 8)))) q \<longleftrightarrow> q < 8 \<and> bit v (n + q)"
  by (auto simp: bit_unsigned_iff bit_simps)

lemma byte_lowest:
  fixes v :: u32
  assumes "n \<le> 24" "v AND push_bit n (mask 8) \<noteq> 0"
  defines "i \<equiv> lowest_bit_bitmap ! unat (drop_bit n (v AND push_bit n (mask 8)))"
  shows "i < 8" "bit v (n + i)" "n \<le> q \<Longrightarrow> q < n + i \<Longrightarrow> \<not> bit v q"
proof -
  define b where "b = unat (drop_bit n (v AND push_bit n (mask 8)))"
  note bb = byte_bits [OF assms(1), of v, folded b_def]
  obtain r where "bit (v AND push_bit n (mask 8)) r" using assms(2) bit_eq_iff [of "v AND push_bit n (mask 8)" 0] by auto
  then have "r \<ge> n \<and> r - n < 8 \<and> bit v (n + (r - n))" by (auto simp: bit_simps)
  then have "bit b (r - n)" unfolding bb by (elim conjE) (intro conjI)
  then have nz: "b \<noteq> 0" by (cases "b = 0") simp_all
  have lt: "b < 256"
  proof -
    have "take_bit 8 b = b" by (rule bit_eqI) (use bb in \<open>auto simp: bit_simps\<close>)
    then show ?thesis using take_bit_nat_less_exp [of 8 b] by simp
  qed
  note lb = lowest_bit [OF lt nz]
  have i: "i = lowest_bit_bitmap ! b" by (simp add: i_def b_def)
  show "i < 8" using lb(1) by (simp add: i)
  show "bit v (n + i)" using lb(2) bb by (simp add: i)
  show "n \<le> q \<Longrightarrow> q < n + i \<Longrightarrow> \<not> bit v q" using lb(3) [of "q - n"] lb(1) bb [of "q - n"] by (simp add: i)
qed

lemma byte_zero:
  fixes v :: u32
  assumes "v AND push_bit n (mask 8) = 0" "n \<le> q" "q < n + 8" "n \<le> 24" shows "\<not> bit v q"
proof
  assume "bit v q"
  then have "bit (v AND push_bit n (mask 8)) q" using assms(2-4) bit_imp_le_length [of v q] by (auto simp: bit_simps)
  then show False using assms(1) by simp
qed

lemma byte_masks:
  "(0xff :: u32) = push_bit 0 (mask 8)" "(0xff00 :: u32) = push_bit 8 (mask 8)" "(0xff0000 :: u32) = push_bit 16 (mask 8)"
  "(0xff000000 :: u32) = push_bit 24 (mask 8)"
  by (simp_all add: push_bit_eq_mult mask_eq_exp_minus_1)

lemma ffs_lowest:
  assumes "v \<noteq> 0" shows "rt_ffs v - 1 < 32 \<and> bit v (rt_ffs v - 1) \<and> (\<forall>q < rt_ffs v - 1. \<not> bit v q)"
proof -
  define m where "m n = v AND push_bit n (mask 8)" for n
  define i where "i n = lowest_bit_bitmap ! unat (drop_bit n (m n))" for n
  have f: "rt_ffs v = (if m 0 \<noteq> 0 then i 0 + 1 else if m 8 \<noteq> 0 then i 8 + 9 else if m 16 \<noteq> 0 then i 16 + 17 else i 24 + 25)"
    using assms by (simp add: rt_ffs_def byte_masks m_def i_def)
  have lo: "i n < 8 \<and> bit v (n + i n) \<and> (\<forall>q. n \<le> q \<and> q < n + i n \<longrightarrow> \<not> bit v q)" if "m n \<noteq> 0" "n \<le> 24" for n
    using byte_lowest [OF that(2), of v] that(1) by (auto simp: m_def i_def)
  have z: "\<not> bit v q" if "m n = 0" "n \<le> q" "q < n + 8" "n \<le> 24" for n q
    using byte_zero [of v n q] that by (simp add: m_def)
  have all: "m 24 \<noteq> 0" if "m 0 = 0" "m 8 = 0" "m 16 = 0"
  proof
    assume "m 24 = 0"
    then have "\<not> bit v q" for q
    proof -
      consider "q < 8" | "8 \<le> q" "q < 16" | "16 \<le> q" "q < 24" | "24 \<le> q" "q < 32" | "32 \<le> q" by linarith
      then show ?thesis using z [of 0 q] z [of 8 q] z [of 16 q] z [of 24 q] that \<open>m 24 = 0\<close> bit_imp_le_length [of v q] by cases auto
    qed
    then show False using assms bit_eq_iff [of v 0] by simp
  qed
  consider "m 0 \<noteq> 0" | "m 0 = 0" "m 8 \<noteq> 0" | "m 0 = 0" "m 8 = 0" "m 16 \<noteq> 0" | "m 0 = 0" "m 8 = 0" "m 16 = 0" "m 24 \<noteq> 0"
    using all by blast
  then show ?thesis
  proof cases
    case 1 then show ?thesis using lo [of 0] by (auto simp: f)
  next
    case 2 then show ?thesis using lo [of 8] z [of 0] by (auto simp: f add.commute) (meson not_le)
  next
    case 3 then show ?thesis using lo [of 16] z [of 0] z [of 8] by (auto simp: f add.commute) (metis not_le)
  next
    case 4 then show ?thesis using lo [of 24] z [of 0] z [of 8] z [of 16] by (auto simp: f add.commute) (metis not_le)
  qed
qed

end
