(* ===== verification/Rt_Thread_Timers.thy ===== *)
theory Rt_Thread_Timers
  imports Rt_Timer_Inv
begin

text \<open>
  The timers of the threads: one-shot timers without timer calls in their function, set and started in one go,
  stopped before the thread runs. What each use does to them, and the check of a tick in closed form.
\<close>

definition wtimers :: "timer_sys \<Rightarrow> bool" where
  "wtimers s \<longleftrightarrow> linv s \<and> (\<forall>t \<in> set (rt_timer_list s). 0 < due s t \<and> tm_flag (timers s t) AND 1 \<noteq> 0) \<and>
     (\<forall>t. tm_flag (timers s t) AND 2 = 0)"

lemma linv_remove: "linv s \<Longrightarrow> linv (rt_timer_remove t s)"
  by (auto simp: linv_def due_def [abs_def] distinct_removeAll sorted_removeAll)

lemma linv_upd:
  assumes "linv s" "\<forall>u. timeout_tick (f (timers s u)) = timeout_tick (timers s u)" shows "linv (upd_timer t f s)"
proof -
  have "due (upd_timer t f s) = due s" using assms(2) by (auto simp: due_def)
  then show ?thesis using assms(1) by (simp add: linv_def)
qed

lemma flag_period: "((f :: u8) AND - 2) AND 2 = f AND 2"
proof -
  have "- 2 = NOT (1 :: u8)" by simp
  then show ?thesis by (simp only:) (auto intro!: bit_word_eqI simp: bit_simps)
qed

lemma clear_period [simp]: "tm_flag (clear_active m) AND 2 = tm_flag m AND 2"
  by (simp add: clear_active_def flag_period)

lemma flag_active: "((f :: u8) OR 1) AND 1 \<noteq> 0"
  using bit_eq_iff [of "(f OR 1) AND 1" "0 :: u8"] by (auto simp: bit_simps intro!: exI [of _ 0])

lemma upd_list_member: "t \<notin> set (rt_timer_list s) \<Longrightarrow> u \<in> set (rt_timer_list s) \<Longrightarrow> u \<noteq> t"
  by blast

lemma remove_wtimers: "wtimers s \<Longrightarrow> wtimers (rt_timer_remove t s)"
  using linv_remove by (auto simp: wtimers_def due_def)

lemma clear_wtimers:
  assumes "wtimers s" "t \<notin> set (rt_timer_list s)" shows "wtimers (upd_timer t clear_active s)"
  using assms linv_upd [of s clear_active t] by (auto simp: wtimers_def due_def)

lemma detach_timer:
  assumes "wtimers s"
  shows "do_call (Detach t) s = Some (rt_timer_remove t s)" "wtimers (rt_timer_remove t s)"
  using remove_wtimers [OF assms] by (simp_all add: rt_timer_detach_def)

definition stopped :: "timer_id \<Rightarrow> timer_sys \<Rightarrow> timer_sys" where
  "stopped t s = fst (rt_timer_stop t s)"

lemma stop_timer:
  assumes "wtimers s"
  shows "do_call (Stop t) s = Some (stopped t s)" "wtimers (stopped t s)" "set (rt_timer_list (stopped t s)) = set (rt_timer_list s) - {t}"
    "rt_tick (stopped t s) = rt_tick s" "timeouts (stopped t s) = timeouts s" "u \<noteq> t \<Longrightarrow> timers (stopped t s) u = timers s u"
proof -
  have "wtimers (upd_timer t clear_active (rt_timer_remove t s))"
    by (rule clear_wtimers [OF remove_wtimers [OF assms]]) simp
  then show "wtimers (stopped t s)" using assms by (auto simp: stopped_def rt_timer_stop_def)
  show "set (rt_timer_list (stopped t s)) = set (rt_timer_list s) - {t}"
    using assms by (auto simp: stopped_def rt_timer_stop_def wtimers_def)
qed (auto simp: stopped_def rt_timer_stop_def)

lemma arm_timer:
  assumes "wtimers s" "0 < n" "n < HALF_TICK_MAX"
  obtains s1 s2 where "do_call (Control t (SET_TIME n)) s = Some s1" "do_call (Start t) s1 = Some s2" "wtimers s2"
    "set (rt_timer_list s2) = insert t (set (rt_timer_list s))" "due s2 t = unat n" "rt_tick s2 = rt_tick s" "timeouts s2 = timeouts s"
    "\<forall>u. u \<noteq> t \<longrightarrow> timers s2 u = timers s u"
proof -
  define s1 where "s1 = rt_timer_control t (SET_TIME n) s"
  have l: "linv s1" unfolding s1_def rt_timer_control_def by (rule linv_upd) (use assms(1) in \<open>simp_all add: wtimers_def\<close>)
  have i: "unat (init_tick (timers s1 t)) < half" using assms(3) by (simp add: s1_def rt_timer_control_def half_less)
  obtain s2 where s2: "rt_timer_start t s1 = Some s2" "linv s2" "rt_tick s2 = rt_tick s1" "timeouts s2 = timeouts s1"
    "set (rt_timer_list s2) = insert t (set (rt_timer_list s1))"
    "timers s2 = (timers s1)(t := (timers s1 t)\<lparr> timeout_tick := rt_tick s1 + init_tick (timers s1 t),
       tm_flag := (tm_flag (timers s1 t) AND NOT 1) OR 1 \<rparr>)"
    by (rule start_linv [OF l i])
  have o: "\<forall>u. u \<noteq> t \<longrightarrow> timers s2 u = timers s u" using s2(6) by (simp add: s1_def rt_timer_control_def)
  have m: "rt_tick s2 = rt_tick s" "timeouts s2 = timeouts s" "set (rt_timer_list s2) = insert t (set (rt_timer_list s))"
    using s2(3-5) by (simp_all add: s1_def rt_timer_control_def)
  have d: "due s2 t = unat n" using s2(3,6) by (simp add: due_def s1_def rt_timer_control_def)
  have f: "tm_flag (timers s2 t) AND 1 \<noteq> 0" "tm_flag (timers s2 t) AND 2 = 0"
    using s2(6) assms(1) flag_active by (simp_all add: s1_def rt_timer_control_def flag_clear_set wtimers_def)
  have du: "due s2 u = due s u" if "u \<noteq> t" for u using o m(1) that by (simp add: due_def)
  have "\<forall>u \<in> set (rt_timer_list s2). 0 < due s2 u \<and> tm_flag (timers s2 u) AND 1 \<noteq> 0"
  proof
    fix u assume u: "u \<in> set (rt_timer_list s2)"
    show "0 < due s2 u \<and> tm_flag (timers s2 u) AND 1 \<noteq> 0"
    proof (cases "u = t")
      case True
      have "n \<noteq> 0" using assms(2) by auto
      then show ?thesis using d f(1) True by (simp add: unat_gt_0)
    next
      case False
      then show ?thesis using assms(1) u m(3) o du [OF False] by (simp add: wtimers_def)
    qed
  qed
  moreover have "\<forall>u. tm_flag (timers s2 u) AND 2 = 0"
    using assms(1) o f by (auto simp: wtimers_def all_conj_distrib)
  ultimately have "wtimers s2" using s2(2) by (simp add: wtimers_def)
  then show thesis using that [of s1 s2] s2(1) m d o by (simp add: s1_def)
qed

section \<open>The check\<close>

text \<open>The timers that are due leave the list in its order; the others stay.\<close>

lemma check_oneshot:
  assumes "linv s" "\<forall>t. tm_flag (timers s t) AND 2 = 0"
  shows "\<exists>s'. check_loop (\<lambda>_. []) (rt_tick s) s = Some s' \<and> linv s' \<and> rt_tick s' = rt_tick s \<and>
    timeouts s' = timeouts s @ map (\<lambda>t. (rt_tick s, t)) (filter (\<lambda>t. due s t = 0) (rt_timer_list s)) \<and>
    rt_timer_list s' = filter (\<lambda>t. due s t \<noteq> 0) (rt_timer_list s) \<and> (\<forall>t. tm_flag (timers s' t) AND 2 = 0) \<and>
    (\<forall>t. \<not> (t \<in> set (rt_timer_list s) \<and> due s t = 0) \<longrightarrow> timers s' t = timers s t)"
  using assms
proof (induction "rt_timer_list s" arbitrary: s)
  case Nil
  then show ?case by (subst check_loop.simps) (simp flip: Nil(1))
next
  case (Cons t ts)
  note l = Cons.hyps(2) [symmetric]
  have t: "due s t < half" "t \<notin> set ts" "\<forall>u \<in> set ts. due s t \<le> due s u" using Cons.prems(1) l by (simp_all add: linv_def)
  show ?case
  proof (cases "due s t = 0")
    case False
    then have "\<forall>u \<in> set ts. due s u \<noteq> 0" using t(3) by auto
    then have "filter (\<lambda>u. due s u = 0) ts = []" "filter (\<lambda>u. due s u \<noteq> 0) ts = ts" by (auto simp: filter_empty_conv filter_id_conv)
    then show ?thesis
      using Cons.prems l expired [OF t(1)] False by (subst check_loop.simps) simp
  next
    case True
    define s1 where "s1 = upd_timer t clear_active ((rt_timer_remove t s)\<lparr> timeouts := timeouts s @ [(rt_tick s, t)] \<rparr>)"
    have f: "rt_timer_list s1 = ts" "rt_tick s1 = rt_tick s" "timeouts s1 = timeouts s @ [(rt_tick s, t)]"
      "\<forall>u. u \<noteq> t \<longrightarrow> timers s1 u = timers s u"
      using t(2) l by (simp_all add: s1_def)
    have d: "due s1 u = due s u" for u using f(2) by (simp add: s1_def due_def)
    have "linv s1" unfolding linv_def d f(1) using Cons.prems(1) l by (simp add: linv_def)
    moreover have "\<forall>u. tm_flag (timers s1 u) AND 2 = 0" using Cons.prems(2) by (simp add: s1_def)
    ultimately obtain s2 where s2: "check_loop (\<lambda>_. []) (rt_tick s1) s1 = Some s2" "linv s2" "rt_tick s2 = rt_tick s1"
      "timeouts s2 = timeouts s1 @ map (\<lambda>t. (rt_tick s1, t)) (filter (\<lambda>t. due s1 t = 0) (rt_timer_list s1))"
      "rt_timer_list s2 = filter (\<lambda>t. due s1 t \<noteq> 0) (rt_timer_list s1)" "\<forall>t. tm_flag (timers s2 t) AND 2 = 0"
      "\<forall>t. \<not> (t \<in> set (rt_timer_list s1) \<and> due s1 t = 0) \<longrightarrow> timers s2 t = timers s1 t"
      using Cons.hyps(1) [of s1] f(1) by auto
    have "expire (\<lambda>_. []) t s = Some s1" using Cons.prems(2) by (simp add: expire_def Let_def s1_def)
    then have "check_loop (\<lambda>_. []) (rt_tick s) s = Some s2"
      using l True expired [OF t(1)] s2(1) by (subst check_loop.simps) simp
    moreover have "timers s2 u = timers s u" if "\<not> (u \<in> set (rt_timer_list s) \<and> due s u = 0)" for u
    proof -
      have "u \<noteq> t" using that l True by auto
      then show ?thesis using s2(7) f(1,4) l that by (simp add: d)
    qed
    ultimately show ?thesis using s2(2-6) f(1-3) l True by (simp add: d)
  qed
qed

lemma tick_timers:
  assumes "wtimers s"
  obtains s' where "rt_timer_check (\<lambda>_. []) (s\<lparr> rt_tick := rt_tick s + 1 \<rparr>) = Some s'" "wtimers s'" "rt_tick s' = rt_tick s + 1"
    "timeouts s' = timeouts s @ map (\<lambda>t. (rt_tick s + 1, t)) (filter (\<lambda>t. due s t = 1) (rt_timer_list s))"
    "rt_timer_list s' = filter (\<lambda>t. due s t \<noteq> 1) (rt_timer_list s)"
    "\<forall>t \<in> set (rt_timer_list s'). due s' t = due s t - 1"
proof -
  define s0 where "s0 = s\<lparr> rt_tick := rt_tick s + 1 \<rparr>"
  have f: "rt_timer_list s0 = rt_timer_list s" "rt_tick s0 = rt_tick s + 1" "timers s0 = timers s" "timeouts s0 = timeouts s"
    by (simp_all add: s0_def)
  have d: "due s0 t = due s t - 1" if "t \<in> set (rt_timer_list s)" for t
    unfolding s0_def by (rule due_tick) (use assms that in \<open>simp add: wtimers_def\<close>)
  have dec: "sorted (map (\<lambda>n. n - 1) ns)" if "sorted ns" for ns :: "nat list"
    using that by (induction ns) auto
  have "map (due s0) (rt_timer_list s0) = map (\<lambda>n. n - 1) (map (due s) (rt_timer_list s))" using d by (simp add: f(1))
  moreover have "sorted (map (due s) (rt_timer_list s))" using assms by (simp add: wtimers_def linv_def)
  ultimately have so: "sorted (map (due s0) (rt_timer_list s0))" using dec by metis
  have l: "linv s0" "\<forall>t. tm_flag (timers s0 t) AND 2 = 0"
    using so assms d by (fastforce simp: wtimers_def linv_def f)+
  obtain s' where s': "check_loop (\<lambda>_. []) (rt_tick s0) s0 = Some s'" "linv s'" "rt_tick s' = rt_tick s0"
    "timeouts s' = timeouts s0 @ map (\<lambda>t. (rt_tick s0, t)) (filter (\<lambda>t. due s0 t = 0) (rt_timer_list s0))"
    "rt_timer_list s' = filter (\<lambda>t. due s0 t \<noteq> 0) (rt_timer_list s0)" "\<forall>t. tm_flag (timers s' t) AND 2 = 0"
    "\<forall>t. \<not> (t \<in> set (rt_timer_list s0) \<and> due s0 t = 0) \<longrightarrow> timers s' t = timers s0 t"
    using check_oneshot [OF l] by blast
  have p: "due s t \<noteq> 0" if "t \<in> set (rt_timer_list s)" for t using assms that by (simp add: wtimers_def)
  have z: "due s0 t = 0 \<longleftrightarrow> due s t = 1" if "t \<in> set (rt_timer_list s)" for t using d [OF that] p [OF that] by auto
  have e: "filter (\<lambda>t. due s0 t = 0) (rt_timer_list s) = filter (\<lambda>t. due s t = 1) (rt_timer_list s)"
    "filter (\<lambda>t. due s0 t \<noteq> 0) (rt_timer_list s) = filter (\<lambda>t. due s t \<noteq> 1) (rt_timer_list s)"
    by (rule filter_cong [OF refl], simp only: z not_False_eq_True)+
  have m: "t \<in> set (rt_timer_list s) \<and> due s t \<noteq> 1 \<and> timers s' t = timers s t \<and> due s' t = due s t - 1"
    if "t \<in> set (rt_timer_list s')" for t
  proof -
    have t: "t \<in> set (rt_timer_list s)" "due s0 t \<noteq> 0" using that s'(5) f(1) by simp_all
    then have "timers s' t = timers s t" using s'(7) f(3) by simp
    moreover have "due s' t = due s0 t" using calculation s'(3) f(3) by (simp add: due_def)
    ultimately show ?thesis using t d z by simp
  qed
  have "0 < due s' t \<and> tm_flag (timers s' t) AND 1 \<noteq> 0" if "t \<in> set (rt_timer_list s')" for t
  proof -
    have "0 < due s t \<and> tm_flag (timers s t) AND 1 \<noteq> 0" using m [OF that] assms by (simp add: wtimers_def)
    moreover have "timers s' t = timers s t" "due s' t = due s t - 1" "due s t \<noteq> 1" using m [OF that] by blast+
    ultimately show ?thesis by simp
  qed
  then have "wtimers s'" using s'(2,6) by (simp add: wtimers_def)
  then have w: "wtimers s'" .
  show thesis
  proof (rule that [of s'])
    show "rt_timer_check (\<lambda>_. []) (s\<lparr> rt_tick := rt_tick s + 1 \<rparr>) = Some s'"
      using s'(1) unfolding rt_timer_check_def s0_def .
    show "wtimers s'" by (rule w)
    show "rt_tick s' = rt_tick s + 1" unfolding s'(3) f(2) ..
    show "timeouts s' = timeouts s @ map (\<lambda>t. (rt_tick s + 1, t)) (filter (\<lambda>t. due s t = 1) (rt_timer_list s))"
      using s'(4) unfolding f e .
    show "rt_timer_list s' = filter (\<lambda>t. due s t \<noteq> 1) (rt_timer_list s)"
      using s'(5) unfolding f e .
    show "\<forall>t \<in> set (rt_timer_list s'). due s' t = due s t - 1" using m by blast
  qed
qed

end
