(* ===== verification/Rt_Kernel_Inv.thy ===== *)
theory Rt_Kernel_Inv
  imports Rt_Ipc Rt_Ffs Rt_Thread_Timers
begin

text \<open>
  The invariant of the kernel, component by component, and the operations of the scheduler in closed form: lists and
  the threads' nodes agree, the bits of the ready group are the rows that are not empty, every thread is where its
  state says, only suspended threads have a running timer, mutexes have their owners, nobody waits for what is there.
\<close>

section \<open>Lists and nodes\<close>

definition links :: "(queue \<Rightarrow> thread_id list) \<Rightarrow> (thread_id \<Rightarrow> rt_thread) \<Rightarrow> bool" where
  "links Q T \<longleftrightarrow> (\<forall>q. distinct (Q q) \<and> (\<forall>t. t \<in> set (Q q) \<longleftrightarrow> tlist (T t) = Some q))"

lemma links_member: "links Q T \<Longrightarrow> t \<in> set (Q q) \<longleftrightarrow> tlist (T t) = Some q"
  by (simp add: links_def)

lemma links_empty: "links Q T \<Longrightarrow> Q q = [] \<longleftrightarrow> (\<forall>t. tlist (T t) \<noteq> Some q)"
  by (metis links_member empty_set equals0D last_in_set)

lemma links_distinct [simp]: "links Q T \<Longrightarrow> distinct (Q q)"
  by (simp add: links_def)

lemma links_off: "links Q T \<Longrightarrow> tlist th = None \<Longrightarrow> links (\<lambda>q. removeAll t (Q q)) (T(t := th))"
  by (auto simp: links_def distinct_removeAll)

lemma links_on:
  assumes "links Q T" "tlist (T t) = None" "tlist th = Some q" "set ts = insert t (set (Q q))" "distinct ts"
  shows "links (Q(q := ts)) (T(t := th))"
  using assms by (auto simp: links_def)

lemma links_same: "tlist th = tlist (T t) \<Longrightarrow> links Q (T(t := th)) \<longleftrightarrow> links Q T"
  by (auto simp: links_def)

lemma removeAll_links: "links Q T \<Longrightarrow> tlist (T t) \<noteq> Some q \<Longrightarrow> removeAll t (Q q) = Q q"
  using links_member by (metis removeAll_id)

section \<open>The ready group\<close>

definition group_ok :: "(queue \<Rightarrow> thread_id list) \<Rightarrow> u32 \<Rightarrow> bool" where
  "group_ok Q g \<longleftrightarrow> (\<forall>p. bit g p \<longleftrightarrow> p < 32 \<and> Q (Ready_Row p) \<noteq> [])"

definition row_mask :: "nat \<Rightarrow> u32" where
  "row_mask p = push_bit p 1"

lemma bit_mask: "bit (row_mask p) n \<longleftrightarrow> n = p \<and> p < 32"
  by (auto simp: row_mask_def bit_simps)

lemma group_on:
  assumes "group_ok Q g" "p < 32" "ts \<noteq> []" shows "group_ok (Q(Ready_Row p := ts)) (g OR row_mask p)"
  unfolding group_ok_def
proof
  fix n
  show "bit (g OR row_mask p) n \<longleftrightarrow> n < 32 \<and> (Q(Ready_Row p := ts)) (Ready_Row n) \<noteq> []"
    using assms by (cases "n = p") (simp_all add: group_ok_def bit_or_iff bit_mask)
qed

lemma group_other: "\<forall>p. q \<noteq> Ready_Row p \<Longrightarrow> group_ok (Q(q := ts)) g \<longleftrightarrow> group_ok Q g"
  unfolding group_ok_def by (metis fun_upd_other)

lemma group_off:
  assumes "group_ok Q g" "\<forall>p'. p' \<noteq> p \<longrightarrow> Q' (Ready_Row p') = Q (Ready_Row p')" "m = row_mask p \<or> m = 0 \<and> Q' (Ready_Row p) = Q (Ready_Row p)"
    "Q (Ready_Row p) = [] \<longrightarrow> Q' (Ready_Row p) = []"
  shows "group_ok Q' (if Q' (Ready_Row p) = [] then g AND NOT m else g)"
  unfolding group_ok_def
proof
  fix n
  show "bit (if Q' (Ready_Row p) = [] then g AND NOT m else g) n \<longleftrightarrow> n < 32 \<and> Q' (Ready_Row n) \<noteq> []"
  proof (cases "n = p")
    case True
    have "bit g p \<longleftrightarrow> p < 32 \<and> Q (Ready_Row p) \<noteq> []" using assms(1) by (simp add: group_ok_def)
    then show ?thesis using True assms(3,4) by (auto simp: bit_and_iff bit_not_iff bit_mask)
  next
    case False
    have "bit g n \<longleftrightarrow> n < 32 \<and> Q (Ready_Row n) \<noteq> []" using assms(1) by (simp add: group_ok_def)
    moreover have "\<not> bit m n" using False assms(3) by (auto simp: bit_mask)
    moreover have "Q' (Ready_Row n) = Q (Ready_Row n)" using False assms(2) by simp
    ultimately show ?thesis by (auto simp: bit_and_iff bit_not_iff)
  qed
qed

section \<open>Threads\<close>

fun wait_queue :: "queue \<Rightarrow> bool" where
  "wait_queue (Ready_Row _) = False"
| "wait_queue Defunct = False"
| "wait_queue _ = True"

definition well_placed :: "rt_thread \<Rightarrow> bool" where
  "well_placed th = (case stat th of
      RT_THREAD_INIT \<Rightarrow> tlist th = None
    | RT_THREAD_READY \<Rightarrow> tlist th = Some (Ready_Row (unat (current_priority th)))
    | RT_THREAD_SUSPEND \<Rightarrow> (\<forall>q. tlist th = Some q \<longrightarrow> wait_queue q)
    | RT_THREAD_CLOSE \<Rightarrow> tlist th = None \<or> tlist th = Some Defunct)"

text \<open>The priority of a thread and its bit.\<close>

definition sane :: "rt_thread \<Rightarrow> bool" where
  "sane th \<longleftrightarrow> unat (init_priority th) < 32 \<and> unat (current_priority th) < 32 \<and>
     (number_mask th = row_mask (unat (current_priority th)) \<or> number_mask th = 0 \<and> stat th \<in> {RT_THREAD_INIT, RT_THREAD_CLOSE})"

definition threads_ok :: "(thread_id \<Rightarrow> rt_thread) \<Rightarrow> bool" where
  "threads_ok T \<longleftrightarrow> (\<forall>t. sane (T t) \<and> well_placed (T t))"

definition timers_ok :: "timer_sys \<Rightarrow> (thread_id \<Rightarrow> rt_thread) \<Rightarrow> bool" where
  "timers_ok tm T \<longleftrightarrow> wtimers tm \<and> (\<forall>t \<in> set (rt_timer_list tm). stat (T t) = RT_THREAD_SUSPEND)"

definition live :: "rt_thread \<Rightarrow> bool" where
  "live th \<longleftrightarrow> stat th = RT_THREAD_READY \<or> stat th = RT_THREAD_SUSPEND"

section \<open>Objects\<close>

definition mutex_ok :: "rt_mutex \<Rightarrow> thread_id list \<Rightarrow> (thread_id \<Rightarrow> rt_thread) \<Rightarrow> bool" where
  "mutex_ok m ws T = (case mutex_owner m of
      None \<Rightarrow> mutex_value m = 1 \<and> mutex_hold m = 0 \<and> ws = []
    | Some t \<Rightarrow> mutex_value m = 0 \<and> mutex_hold m \<noteq> 0 \<and> unat (original_priority m) < 32 \<and> live (T t))"

definition objects_ok :: "kernel \<Rightarrow> bool" where
  "objects_ok s \<longleftrightarrow>
     (\<forall>k. mutex_ok (mutexes s k) (queues s (Mutex_Queue k)) (threads s)) \<and>
     (\<forall>k. 0 < sem_value (sems s k) \<longrightarrow> queues s (Sem_Queue k) = []) \<and>
     (\<forall>k. \<forall>t \<in> set (queues s (Event_Queue k)). \<not> event_there (event_set (threads s t)) (event_info (threads s t)) (ev_set (events s k)))"

text \<open>A thread inside of \<open>rt_mutex_take\<close> waits, or will return an error, or owns the mutex.\<close>

definition inside_ok :: "rt_thread \<Rightarrow> thread_id \<Rightarrow> (nat \<Rightarrow> rt_mutex) \<Rightarrow> bool" where
  "inside_ok th t M \<longleftrightarrow> (\<forall>k. th_inside th = Some (In_Mutex k) \<longrightarrow> stat th \<noteq> RT_THREAD_CLOSE \<longrightarrow>
     tlist th = Some (Mutex_Queue k) \<or> th_error th \<noteq> RT_EOK \<or> mutex_owner (M k) = Some t)"

definition core :: "kernel \<Rightarrow> bool" where
  "core s \<longleftrightarrow> links (queues s) (threads s) \<and> group_ok (queues s) (ready_priority_group s) \<and> threads_ok (threads s) \<and>
     timers_ok (ktimers s) (threads s)"

definition kinv0 :: "kernel \<Rightarrow> bool" where
  "kinv0 s \<longleftrightarrow> core s \<and> objects_ok s \<and> (\<forall>t. inside_ok (threads s t) t (mutexes s))"

abbreviation idle_ready :: "kernel \<Rightarrow> bool" where
  "idle_ready s \<equiv> stat (threads s 0) = RT_THREAD_READY"

definition current_ok :: "kernel \<Rightarrow> bool" where
  "current_ok s \<longleftrightarrow> (\<forall>c. rt_current_thread s = Some c \<longrightarrow> stat (threads s c) = RT_THREAD_READY \<and> idle_ready s)"

definition kinv :: "kernel \<Rightarrow> bool" where
  "kinv s \<longleftrightarrow> kinv0 s \<and> current_ok s"

lemma upd_thread_fields [simp]:
  "threads (upd_thread t f s) = (threads s)(t := f (threads s t))" "queues (upd_thread t f s) = queues s"
  "ready_priority_group (upd_thread t f s) = ready_priority_group s" "rt_current_thread (upd_thread t f s) = rt_current_thread s"
  "lock_nest (upd_thread t f s) = lock_nest s" "sems (upd_thread t f s) = sems s" "mutexes (upd_thread t f s) = mutexes s"
  "events (upd_thread t f s) = events s" "ktimers (upd_thread t f s) = ktimers s" "results (upd_thread t f s) = results s"
  by (simp_all add: upd_thread_def)

section \<open>Closed forms of the scheduler\<close>

definition off :: "thread_id \<Rightarrow> kernel \<Rightarrow> kernel" where
  "off t s = s\<lparr> threads := (threads s)(t := (threads s t)\<lparr> tlist := None \<rparr>), queues := \<lambda>q. removeAll t (queues s q) \<rparr>"

lemma list_remove_off:
  assumes "links (queues s) (threads s)" shows "rt_list_remove t s = off t s"
proof (cases "tlist (threads s t)")
  case None
  have "(threads s)(t := (threads s t)\<lparr> tlist := None \<rparr>) = threads s" using None by auto
  moreover have "(\<lambda>q. removeAll t (queues s q)) = queues s" using removeAll_links [OF assms] None by fastforce
  ultimately show ?thesis using None by (simp add: rt_list_remove_def off_def)
next
  case (Some q)
  have "(queues s)(q := removeAll t (queues s q)) = (\<lambda>q. removeAll t (queues s q))"
    using removeAll_links [OF assms, of t] Some by fastforce
  then show ?thesis using Some by (simp add: rt_list_remove_def off_def upd_thread_def)
qed

definition row_off :: "thread_id \<Rightarrow> kernel \<Rightarrow> kernel" where
  "row_off t s = (off t s)\<lparr> ready_priority_group := (if removeAll t (queues s (Ready_Row (prio s t))) = []
      then ready_priority_group s AND NOT (number_mask (threads s t)) else ready_priority_group s) \<rparr>"

lemma remove_thread_form:
  assumes "links (queues s) (threads s)" "prio s t < 32" shows "rt_schedule_remove_thread t s = Some (row_off t s)"
  using assms by (simp add: rt_schedule_remove_thread_def list_remove_off Let_def row_off_def) (simp add: off_def)

definition row_on :: "thread_id \<Rightarrow> kernel \<Rightarrow> kernel" where
  "row_on t s = s\<lparr> threads := (threads s)(t := (threads s t)\<lparr> stat := RT_THREAD_READY, tlist := Some (Ready_Row (prio s t)) \<rparr>),
     queues := (queues s)(Ready_Row (prio s t) := queues s (Ready_Row (prio s t)) @ [t]),
     ready_priority_group := ready_priority_group s OR number_mask (threads s t) \<rparr>"

lemma insert_thread_form:
  assumes "tlist (threads s t) = None" "prio s t < 32" shows "rt_schedule_insert_thread t s = Some (row_on t s)"
  using assms by (simp add: rt_schedule_insert_thread_def rt_list_insert_before_def link_def upd_thread_def row_on_def prio_def)

lemma off_fields [simp]:
  "threads (off t s) = (threads s)(t := (threads s t)\<lparr> tlist := None \<rparr>)" "queues (off t s) q = removeAll t (queues s q)"
  "ready_priority_group (off t s) = ready_priority_group s" "rt_current_thread (off t s) = rt_current_thread s"
  "lock_nest (off t s) = lock_nest s" "sems (off t s) = sems s" "mutexes (off t s) = mutexes s"
  "events (off t s) = events s" "ktimers (off t s) = ktimers s" "results (off t s) = results s"
  by (simp_all add: off_def)

lemma row_off_fields [simp]:
  "threads (row_off t s) = (threads s)(t := (threads s t)\<lparr> tlist := None \<rparr>)" "queues (row_off t s) q = removeAll t (queues s q)"
  "rt_current_thread (row_off t s) = rt_current_thread s"
  "lock_nest (row_off t s) = lock_nest s" "sems (row_off t s) = sems s" "mutexes (row_off t s) = mutexes s"
  "events (row_off t s) = events s" "ktimers (row_off t s) = ktimers s" "results (row_off t s) = results s"
  by (simp_all add: row_off_def)

lemma row_on_fields [simp]:
  "threads (row_on t s) = (threads s)(t := (threads s t)\<lparr> stat := RT_THREAD_READY, tlist := Some (Ready_Row (prio s t)) \<rparr>)"
  "rt_current_thread (row_on t s) = rt_current_thread s" "lock_nest (row_on t s) = lock_nest s" "sems (row_on t s) = sems s"
  "mutexes (row_on t s) = mutexes s" "events (row_on t s) = events s" "ktimers (row_on t s) = ktimers s"
  "results (row_on t s) = results s"
  by (simp_all add: row_on_def)

lemma row_on_queue: "queues (row_on t s) q = (if q = Ready_Row (prio s t) then queues s q @ [t] else queues s q)"
  by (simp add: row_on_def)

lemma row_on_core:
  assumes "links (queues s) (threads s)" "group_ok (queues s) (ready_priority_group s)" "tlist (threads s t) = None"
    "\<forall>u. u \<noteq> t \<longrightarrow> sane (threads s u) \<and> well_placed (threads s u)" "sane (threads s t)" "number_mask (threads s t) = row_mask (prio s t)"
    "wtimers (ktimers s)" "\<forall>u \<in> set (rt_timer_list (ktimers s)). u \<noteq> t \<and> stat (threads s u) = RT_THREAD_SUSPEND"
  shows "core (row_on t s)"
proof -
  have p: "prio s t < 32" using assms(5) by (simp add: sane_def prio_def)
  have "t \<notin> set (queues s q)" for q using assms(1,3) by (simp add: links_member)
  then have "links (queues (row_on t s)) (threads (row_on t s))"
    unfolding row_on_def using assms(1,3) by (simp add: links_on)
  moreover have "group_ok (queues (row_on t s)) (ready_priority_group (row_on t s))"
    unfolding row_on_def using assms(2,6) p by (simp add: group_on)
  moreover have "threads_ok (threads (row_on t s))"
    using assms(4,5,6) by (auto simp: threads_ok_def sane_def well_placed_def prio_def)
  ultimately show ?thesis using assms(7,8) by (auto simp: core_def timers_ok_def)
qed

lemma row_off_group:
  assumes "links (queues s) (threads s)" "group_ok (queues s) (ready_priority_group s)"
    "\<forall>p. tlist (threads s t) = Some (Ready_Row p) \<longrightarrow> p = prio s t \<and> number_mask (threads s t) = row_mask p"
    "number_mask (threads s t) = row_mask (prio s t) \<or> number_mask (threads s t) = 0"
  shows "links (queues (row_off t s)) (threads (row_off t s))" "group_ok (queues (row_off t s)) (ready_priority_group (row_off t s))"
proof -
  show "links (queues (row_off t s)) (threads (row_off t s))"
    using assms(1) unfolding row_off_def off_def by (simp add: links_off)
  have o: "removeAll t (queues s (Ready_Row p)) = queues s (Ready_Row p)" if "p \<noteq> prio s t" for p
    using removeAll_links [OF assms(1)] assms(3) that by blast
  have z: "removeAll t (queues s (Ready_Row (prio s t))) = queues s (Ready_Row (prio s t))" if "number_mask (threads s t) \<noteq> row_mask (prio s t)"
    using removeAll_links [OF assms(1)] assms(3) that by blast
  have "group_ok (\<lambda>q. removeAll t (queues s q)) (if removeAll t (queues s (Ready_Row (prio s t))) = []
      then ready_priority_group s AND NOT (number_mask (threads s t)) else ready_priority_group s)"
    by (rule group_off [OF assms(2), of "prio s t" "\<lambda>q. removeAll t (queues s q)"]) (use o z assms(4) in auto)
  then show "group_ok (queues (row_off t s)) (ready_priority_group (row_off t s))" by (simp add: row_off_def off_def)
qed

end
