(* ===== verification/Rt_Kernel_Ops.thy ===== *)
theory Rt_Kernel_Ops
  imports Rt_Kernel_Inv
begin

text \<open>
  The operations on single threads in closed form, that they keep the invariant, and what they leave alone.
\<close>

section \<open>Parts of the invariant\<close>

lemma coreD:
  assumes "core s"
  shows "links (queues s) (threads s)" "group_ok (queues s) (ready_priority_group s)" "threads_ok (threads s)"
    "sane (threads s t)" "well_placed (threads s t)" "prio s t < 32" "wtimers (ktimers s)"
    "t \<in> set (rt_timer_list (ktimers s)) \<Longrightarrow> stat (threads s t) = RT_THREAD_SUSPEND"
  using assms by (auto simp: core_def threads_ok_def timers_ok_def prio_def sane_def)

lemma kinv0_core: "kinv0 s \<Longrightarrow> core s"
  by (simp add: kinv0_def)

lemmas kinv0D = coreD [OF kinv0_core]

lemma core_place:
  assumes "core s" "t \<in> set (queues s q)"
  shows "tlist (threads s t) = Some q"
    "q = Ready_Row p \<Longrightarrow> stat (threads s t) = RT_THREAD_READY \<and> p = prio s t"
    "wait_queue q \<Longrightarrow> stat (threads s t) = RT_THREAD_SUSPEND"
    "q = Defunct \<Longrightarrow> stat (threads s t) = RT_THREAD_CLOSE"
proof -
  show t: "tlist (threads s t) = Some q" using assms(2) links_member [OF coreD(1) [OF assms(1)]] by simp
  have p: "well_placed (threads s t)" by (rule coreD(5) [OF assms(1)])
  show "q = Ready_Row p \<Longrightarrow> stat (threads s t) = RT_THREAD_READY \<and> p = prio s t"
    using p t by (auto simp: well_placed_def prio_def split: thread_stat.splits)
  show "wait_queue q \<Longrightarrow> stat (threads s t) = RT_THREAD_SUSPEND"
    using p t by (auto simp: well_placed_def split: thread_stat.splits)
  show "q = Defunct \<Longrightarrow> stat (threads s t) = RT_THREAD_CLOSE"
    using p t by (auto simp: well_placed_def split: thread_stat.splits)
qed

lemma core_ready:
  assumes "core s" "stat (threads s t) = RT_THREAD_READY"
  shows "tlist (threads s t) = Some (Ready_Row (prio s t))" "t \<in> set (queues s (Ready_Row (prio s t)))"
    "number_mask (threads s t) = row_mask (prio s t)"
  using coreD(4,5) [OF assms(1), of t] links_member [OF coreD(1) [OF assms(1)]] assms(2)
  by (auto simp: well_placed_def sane_def prio_def)

lemma core_suspended:
  assumes "core s" "stat (threads s t) = RT_THREAD_SUSPEND"
  shows "tlist (threads s t) \<noteq> Some (Ready_Row p)" "tlist (threads s t) \<noteq> Some Defunct"
    "number_mask (threads s t) = row_mask (prio s t)" "t \<notin> set (queues s (Ready_Row p))"
proof -
  show a: "tlist (threads s t) \<noteq> Some (Ready_Row p)"
    using coreD(5) [OF assms(1), of t] assms(2) by (auto simp: well_placed_def)
  show "tlist (threads s t) \<noteq> Some Defunct"
    using coreD(5) [OF assms(1), of t] assms(2) by (auto simp: well_placed_def)
  show "number_mask (threads s t) = row_mask (prio s t)"
    using coreD(4) [OF assms(1), of t] assms(2) by (auto simp: sane_def prio_def)
  show "t \<notin> set (queues s (Ready_Row p))" using a links_member [OF coreD(1) [OF assms(1)]] by simp
qed

lemma objects_mono:
  assumes "objects_ok s" "mutexes s' = mutexes s" "sems s' = sems s" "events s' = events s"
    and "\<And>q. wait_queue q \<Longrightarrow> set (queues s' q) \<subseteq> set (queues s q)"
    and "\<And>k u. mutex_owner (mutexes s k) = Some u \<Longrightarrow> live (threads s u) \<Longrightarrow> live (threads s' u)"
    and "\<And>k u. u \<in> set (queues s' (Event_Queue k)) \<Longrightarrow>
      event_set (threads s' u) = event_set (threads s u) \<and> event_info (threads s' u) = event_info (threads s u)"
  shows "objects_ok s'"
proof -
  have e: "queues s' q = []" if "wait_queue q" "queues s q = []" for q using assms(5) [OF that(1)] that(2) by simp
  have "mutex_ok (mutexes s k) (queues s' (Mutex_Queue k)) (threads s')" for k
  proof -
    have "mutex_ok (mutexes s k) (queues s (Mutex_Queue k)) (threads s)" using assms(1) by (simp add: objects_ok_def)
    then show ?thesis using assms(6) [of k] e [of "Mutex_Queue k"] by (simp add: mutex_ok_def split: option.splits)
  qed
  moreover have "queues s' (Sem_Queue k) = []" if "0 < sem_value (sems s k)" for k
    using e assms(1) that by (simp add: objects_ok_def)
  moreover have "\<not> event_there (event_set (threads s' u)) (event_info (threads s' u)) (ev_set (events s k))"
    if "u \<in> set (queues s' (Event_Queue k))" for k u
  proof -
    have "u \<in> set (queues s (Event_Queue k))" using assms(5) [of "Event_Queue k"] that by auto
    then show ?thesis using assms(1) assms(7) [OF that] by (simp add: objects_ok_def)
  qed
  ultimately show ?thesis unfolding objects_ok_def assms(2-4) by blast
qed

lemma inside_same:
  assumes "inside_ok th t M" "th_inside th' = th_inside th" "tlist th' = tlist th" "th_error th' = th_error th"
    "stat th' = RT_THREAD_CLOSE \<or> stat th \<noteq> RT_THREAD_CLOSE"
  shows "inside_ok th' t M"
  using assms by (auto simp: inside_ok_def)

section \<open>Suspend\<close>

definition suspended :: "thread_id \<Rightarrow> kernel \<Rightarrow> kernel" where
  "suspended t s = (row_off t (upd_thread t (stat_update (\<lambda>_. RT_THREAD_SUSPEND)) s))\<lparr> ktimers := stopped t (ktimers s) \<rparr>"

lemma suspended_fields [simp]:
  "threads (suspended t s) = (threads s)(t := (threads s t)\<lparr> stat := RT_THREAD_SUSPEND, tlist := None \<rparr>)"
  "queues (suspended t s) q = removeAll t (queues s q)" "rt_current_thread (suspended t s) = rt_current_thread s"
  "lock_nest (suspended t s) = lock_nest s" "sems (suspended t s) = sems s" "mutexes (suspended t s) = mutexes s"
  "events (suspended t s) = events s" "ktimers (suspended t s) = stopped t (ktimers s)" "results (suspended t s) = results s"
  by (simp_all add: suspended_def)

lemma suspend_form:
  assumes "core s" "stat (threads s t) = RT_THREAD_READY"
  shows "rt_thread_suspend t s = Some (suspended t s, RT_EOK)" "core (suspended t s)"
proof -
  define s0 where "s0 = upd_thread t (stat_update (\<lambda>_. RT_THREAD_SUSPEND)) s"
  have l: "links (queues s0) (threads s0)" using coreD(1) [OF assms(1)] by (simp add: s0_def links_same)
  have p: "prio s0 t = prio s t" by (simp add: s0_def prio_def)
  have g: "group_ok (queues s0) (ready_priority_group s0)" using coreD(2) [OF assms(1)] by (simp add: s0_def)
  show "rt_thread_suspend t s = Some (suspended t s, RT_EOK)"
    using assms remove_thread_form [OF l, of t] p coreD(6) [OF assms(1), of t] stop_timer(1) [OF coreD(7) [OF assms(1)], of t]
    by (simp add: rt_thread_suspend_def suspended_def timer_call_for_def flip: s0_def) (simp add: s0_def)
  have row: "\<forall>p. tlist (threads s0 t) = Some (Ready_Row p) \<longrightarrow> p = prio s0 t \<and> number_mask (threads s0 t) = row_mask p"
    using core_ready [OF assms] p by (simp add: s0_def)
  have mask: "number_mask (threads s0 t) = row_mask (prio s0 t) \<or> number_mask (threads s0 t) = 0"
    using core_ready [OF assms] p by (simp add: s0_def)
  note lg = row_off_group [OF l g row mask]
  have "links (queues (suspended t s)) (threads (suspended t s))" "group_ok (queues (suspended t s)) (ready_priority_group (suspended t s))"
    using lg by (simp_all add: suspended_def s0_def)
  moreover have th: "sane (threads (suspended t s) u) \<and> well_placed (threads (suspended t s) u)" for u
    using coreD(4,5) [OF assms(1), of u] assms(2) by (auto simp: sane_def well_placed_def)
  moreover have "timers_ok (ktimers (suspended t s)) (threads (suspended t s))"
    using stop_timer(2,3) [OF coreD(7) [OF assms(1)], of t] coreD(8) [OF assms(1)] by (auto simp: timers_ok_def)
  ultimately show "core (suspended t s)" unfolding core_def threads_ok_def by blast
qed

lemma suspend_kinv0:
  assumes "kinv0 s" "stat (threads s t) = RT_THREAD_READY" shows "kinv0 (suspended t s)"
proof -
  have "objects_ok (suspended t s)"
    by (rule objects_mono [of s]) (use assms(1) in \<open>auto simp: kinv0_def live_def\<close>)
  moreover have "inside_ok (threads (suspended t s) u) u (mutexes (suspended t s))" for u
  proof -
    have "inside_ok (threads s u) u (mutexes s)" using assms(1) by (simp add: kinv0_def)
    then show ?thesis using assms(2) core_ready(1) [OF kinv0_core [OF assms(1)] assms(2)] by (cases "u = t") (auto simp: inside_ok_def)
  qed
  ultimately show ?thesis using suspend_form [OF kinv0_core [OF assms(1)] assms(2)] by (simp add: kinv0_def)
qed

section \<open>Into the ready row\<close>

lemma prio_cong: "current_priority (threads s' t) = current_priority (threads s t) \<Longrightarrow> prio s' t = prio s t"
  by (simp add: prio_def)

definition woken :: "thread_id \<Rightarrow> kernel \<Rightarrow> kernel" where
  "woken t s = row_on t (off t s)"

lemma woken_fields [simp]:
  "threads (woken t s) = (threads s)(t := (threads s t)\<lparr> stat := RT_THREAD_READY, tlist := Some (Ready_Row (prio s t)) \<rparr>)"
  "rt_current_thread (woken t s) = rt_current_thread s" "lock_nest (woken t s) = lock_nest s" "sems (woken t s) = sems s"
  "mutexes (woken t s) = mutexes s" "events (woken t s) = events s" "ktimers (woken t s) = ktimers s"
  "results (woken t s) = results s"
  by (simp_all add: woken_def prio_def)

lemma woken_queue: "wait_queue q \<Longrightarrow> queues (woken t s) q = removeAll t (queues s q)"
  by (auto simp: woken_def row_on_queue)

text \<open>A thread that is not in a row and whose timer does not run.\<close>

definition wakeable :: "thread_id \<Rightarrow> kernel \<Rightarrow> bool" where
  "wakeable t s \<longleftrightarrow> links (queues s) (threads s) \<and> group_ok (queues s) (ready_priority_group s) \<and> wtimers (ktimers s) \<and>
     (\<forall>u. u \<noteq> t \<longrightarrow> sane (threads s u) \<and> well_placed (threads s u)) \<and> sane (threads s t) \<and> number_mask (threads s t) = row_mask (prio s t) \<and>
     (\<forall>u \<in> set (rt_timer_list (ktimers s)). u \<noteq> t \<and> stat (threads s u) = RT_THREAD_SUSPEND) \<and>
     (\<forall>p. tlist (threads s t) \<noteq> Some (Ready_Row p))"

lemma woken_form:
  assumes "wakeable t s"
  shows "rt_schedule_insert_thread t (rt_list_remove t s) = Some (woken t s)" "core (woken t s)"
proof -
  have w: "links (queues s) (threads s)" "group_ok (queues s) (ready_priority_group s)" "sane (threads s t)"
    "number_mask (threads s t) = row_mask (prio s t)" "\<forall>p. tlist (threads s t) \<noteq> Some (Ready_Row p)"
    using assms by (simp_all add: wakeable_def)
  have f: "tlist (threads (off t s) t) = None" "prio (off t s) t = prio s t" by (simp_all add: prio_def)
  have "prio s t < 32" using w(3) by (simp add: sane_def prio_def)
  then show "rt_schedule_insert_thread t (rt_list_remove t s) = Some (woken t s)"
    using insert_thread_form [OF f(1)] f(2) by (simp add: list_remove_off [OF w(1)] woken_def)
  have l: "links (queues (off t s)) (threads (off t s))" using w(1) by (simp add: off_def links_off)
  have "removeAll t (queues s (Ready_Row p)) = queues s (Ready_Row p)" for p
    using removeAll_links [OF w(1)] w(5) by simp
  then have g: "group_ok (queues (off t s)) (ready_priority_group (off t s))" using w(2) by (simp add: group_ok_def)
  show "core (woken t s)"
    unfolding woken_def by (rule row_on_core [OF l g f(1)]) (use assms f(2) in \<open>auto simp: wakeable_def sane_def\<close>)
qed

lemma woken_objects:
  assumes "objects_ok s" shows "objects_ok (woken t s)"
  by (rule objects_mono [OF assms]) (auto simp: live_def woken_queue)

lemma woken_kinv0:
  assumes "wakeable t s" "objects_ok s" "\<And>u. inside_ok (threads s u) u (mutexes s)" "stat (threads s t) \<noteq> RT_THREAD_CLOSE"
    "\<And>k. tlist (threads s t) = Some (Mutex_Queue k) \<Longrightarrow> th_error (threads s t) = RT_EOK \<Longrightarrow> mutex_owner (mutexes s k) = Some t"
  shows "kinv0 (woken t s)"
proof -
  have "inside_ok (threads (woken t s) u) u (mutexes (woken t s))" for u
    using assms(3) [of u] assms(4,5) by (cases "u = t") (auto simp: inside_ok_def)
  then show ?thesis using woken_form(2) [OF assms(1)] woken_objects [OF assms(2)] by (simp add: kinv0_def)
qed

lemma suspended_wakeable:
  assumes "core s" "stat (threads s t) = RT_THREAD_SUSPEND"
  shows "t \<notin> set (rt_timer_list (ktimers s)) \<Longrightarrow> wakeable t s" "wakeable t (s\<lparr> ktimers := stopped t (ktimers s) \<rparr>)"
  using coreD [OF assms(1)] core_suspended [OF assms] stop_timer(2,3) [OF coreD(7) [OF assms(1)], of t]
  by (auto simp: wakeable_def prio_def)

definition resumed :: "thread_id \<Rightarrow> kernel \<Rightarrow> kernel" where
  "resumed t s = woken t (s\<lparr> ktimers := stopped t (ktimers s) \<rparr>)"

lemma resumed_fields [simp]:
  "threads (resumed t s) = (threads s)(t := (threads s t)\<lparr> stat := RT_THREAD_READY, tlist := Some (Ready_Row (prio s t)) \<rparr>)"
  "rt_current_thread (resumed t s) = rt_current_thread s" "lock_nest (resumed t s) = lock_nest s" "sems (resumed t s) = sems s"
  "mutexes (resumed t s) = mutexes s" "events (resumed t s) = events s" "ktimers (resumed t s) = stopped t (ktimers s)"
  "results (resumed t s) = results s"
  by (simp_all add: resumed_def prio_def)

lemma resumed_queue: "wait_queue q \<Longrightarrow> queues (resumed t s) q = removeAll t (queues s q)"
  by (simp add: resumed_def woken_queue)

lemma resume_form:
  assumes "links (queues s) (threads s)" "wtimers (ktimers s)" "wakeable t (s\<lparr> ktimers := stopped t (ktimers s) \<rparr>)"
    "stat (threads s t) = RT_THREAD_SUSPEND"
  shows "rt_thread_resume t s = Some (resumed t s, RT_EOK)"
proof -
  have "(rt_list_remove t s)\<lparr> ktimers := stopped t (ktimers s) \<rparr> = rt_list_remove t (s\<lparr> ktimers := stopped t (ktimers s) \<rparr>)"
    using assms(1) by (simp add: list_remove_off off_def)
  then show ?thesis
    using assms(4) woken_form(1) [OF assms(3)] stop_timer(1) [OF assms(2), of t] list_remove_off [OF assms(1)]
    by (simp add: rt_thread_resume_def timer_call_for_def resumed_def)
qed

lemma resume_core:
  assumes "core s" "stat (threads s t) = RT_THREAD_SUSPEND"
  shows "rt_thread_resume t s = Some (resumed t s, RT_EOK)" "core (resumed t s)"
  using resume_form [OF coreD(1) [OF assms(1)] coreD(7) [OF assms(1)] suspended_wakeable(2) [OF assms] assms(2)]
    woken_form(2) [OF suspended_wakeable(2) [OF assms]] by (simp_all add: resumed_def)

lemma resume_kinv0:
  assumes "kinv0 s" "stat (threads s t) = RT_THREAD_SUSPEND"
    "\<And>k. tlist (threads s t) = Some (Mutex_Queue k) \<Longrightarrow> th_error (threads s t) = RT_EOK \<Longrightarrow> mutex_owner (mutexes s k) = Some t"
  shows "kinv0 (resumed t s)"
  unfolding resumed_def
proof (rule woken_kinv0 [OF suspended_wakeable(2) [OF kinv0_core [OF assms(1)] assms(2)]])
  show "objects_ok (s\<lparr> ktimers := stopped t (ktimers s) \<rparr>)" using assms(1) by (simp add: kinv0_def objects_ok_def)
qed (use assms in \<open>auto simp: kinv0_def\<close>)

section \<open>The switch\<close>

definition top :: "kernel \<Rightarrow> thread_id \<Rightarrow> bool" where
  "top s c \<longleftrightarrow> stat (threads s c) = RT_THREAD_READY \<and> (\<exists>ts. queues s (Ready_Row (prio s c)) = c # ts) \<and>
     (\<forall>u. stat (threads s u) = RT_THREAD_READY \<longrightarrow> prio s c \<le> prio s u)"

lemma highest_exists:
  assumes "core s" "stat (threads s u) = RT_THREAD_READY"
  obtains c where "highest_ready s = Some c" "top s c"
proof -
  let ?g = "ready_priority_group s"
  note r = core_ready [OF assms]
  have bits: "bit ?g p \<longleftrightarrow> p < 32 \<and> queues s (Ready_Row p) \<noteq> []" for p using coreD(2) [OF assms(1)] by (simp add: group_ok_def)
  have "bit ?g (prio s u)" unfolding bits using r(2) coreD(6) [OF assms(1)] by auto
  then have nz: "?g \<noteq> 0" by auto
  define h where "h = rt_ffs ?g - 1"
  have h: "bit ?g h" "\<forall>q < h. \<not> bit ?g q" using ffs_lowest [OF nz] by (simp_all add: h_def)
  then obtain c ts where c: "queues s (Ready_Row h) = c # ts" unfolding bits by (cases "queues s (Ready_Row h)") auto
  then have cr: "stat (threads s c) = RT_THREAD_READY" "h = prio s c" using core_place(2) [OF assms(1), of c "Ready_Row h" h] by simp_all
  have "prio s c \<le> prio s v" if "stat (threads s v) = RT_THREAD_READY" for v
  proof -
    have "bit ?g (prio s v)" unfolding bits using core_ready(2) [OF assms(1) that] coreD(6) [OF assms(1)] by auto
    then show ?thesis using h(2) cr(2) by (meson not_le)
  qed
  then have "top s c" using cr c by (auto simp: top_def)
  moreover have "highest_ready s = Some c" using nz c by (simp add: highest_ready_def h_def)
  ultimately show thesis using that by blast
qed

lemma top_unique: "top s c \<Longrightarrow> top s d \<Longrightarrow> c = d"
  unfolding top_def by (metis le_antisym list.inject)

text \<open>What the running thread is, unless the scheduler is locked.\<close>

definition tops :: "kernel \<Rightarrow> bool" where
  "tops s \<longleftrightarrow> (\<forall>c. rt_current_thread s = Some c \<longrightarrow> lock_nest s = 0 \<longrightarrow> top s c)"

definition only_switch :: "kernel \<Rightarrow> kernel \<Rightarrow> bool" where
  "only_switch s s' \<longleftrightarrow> (\<exists>c p. s' = s\<lparr> rt_current_thread := c, rt_current_priority := p \<rparr>)"

lemma only_switch_fields:
  assumes "only_switch s s'"
  shows "threads s' = threads s" "queues s' = queues s" "ready_priority_group s' = ready_priority_group s" "lock_nest s' = lock_nest s"
    "sems s' = sems s" "mutexes s' = mutexes s" "events s' = events s" "ktimers s' = ktimers s" "results s' = results s"
  using assms by (auto simp: only_switch_def)

lemma only_switch_refl [simp]: "only_switch s s"
  unfolding only_switch_def by (rule exI [of _ "rt_current_thread s"], rule exI [of _ "rt_current_priority s"]) simp

lemma only_switchI: "only_switch s (s\<lparr> rt_current_priority := p, rt_current_thread := c \<rparr>)"
  unfolding only_switch_def by (rule exI [of _ c], rule exI [of _ p]) simp

lemma kinv0_cong:
  assumes "threads s' = threads s" "queues s' = queues s" "ready_priority_group s' = ready_priority_group s"
    "sems s' = sems s" "mutexes s' = mutexes s" "events s' = events s" "ktimers s' = ktimers s"
  shows "kinv0 s' \<longleftrightarrow> kinv0 s"
  by (simp add: kinv0_def core_def objects_ok_def assms)

lemma schedule_ok:
  assumes "kinv0 s" "idle_ready s" "lock_nest s \<noteq> 0 \<Longrightarrow> current_ok s"
  obtains s' where "rt_schedule s = Some s'" "kinv s'" "only_switch s s'" "tops s'" "lock_nest s = 0 \<Longrightarrow> rt_current_thread s' \<noteq> None"
proof (cases "lock_nest s = 0")
  case True
  obtain c where c: "highest_ready s = Some c" "top s c"
    by (rule highest_exists [OF kinv0_core [OF assms(1)] assms(2)])
  define s' where "s' = (if Some c \<noteq> rt_current_thread s
    then s\<lparr> rt_current_priority := of_nat (rt_ffs (ready_priority_group s) - 1), rt_current_thread := Some c \<rparr> else s)"
  have f: "only_switch s s'" "rt_current_thread s' = Some c" by (auto simp: s'_def intro: only_switchI)
  note g = only_switch_fields [OF f(1)]
  have t: "top s' c" using c(2) by (simp add: top_def prio_def g)
  have "kinv s'"
    using assms(1,2) t kinv0_cong [of s' s] by (simp add: kinv_def current_ok_def f(2) g top_def)
  then show thesis using that [of s'] True c(1) f t by (simp add: rt_schedule_def s'_def tops_def)
next
  case False
  then show thesis using that [of s] assms by (simp add: rt_schedule_def kinv_def tops_def)
qed

end
