(* ===== verification/Rt_Kernel_Steps.thy ===== *)
theory Rt_Kernel_Steps
  imports Rt_Kernel_Ops
begin

text \<open>
  The calls of threads and interrupts but for the mutexes: each is defined, keeps the invariant, leaves sleeping
  threads alone, and, where it calls the scheduler, leaves the best thread running.
\<close>

section \<open>Sleeping threads\<close>

definition sleeper :: "kernel \<Rightarrow> thread_id \<Rightarrow> bool" where
  "sleeper s x \<longleftrightarrow> stat (threads s x) = RT_THREAD_SUSPEND \<and> tlist (threads s x) = None"

definition calm :: "thread_id \<Rightarrow> kernel \<Rightarrow> kernel \<Rightarrow> bool" where
  "calm x s s' \<longleftrightarrow> stat (threads s' x) = stat (threads s x) \<and> tlist (threads s' x) = tlist (threads s x) \<and> kept x (ktimers s) (ktimers s') \<and> rt_tick (ktimers s') = rt_tick (ktimers s)"

definition still :: "thread_id set \<Rightarrow> kernel \<Rightarrow> kernel \<Rightarrow> bool" where
  "still X s s' \<longleftrightarrow> (\<forall>x. x \<notin> X \<longrightarrow> sleeper s x \<longrightarrow> calm x s s')"

lemma calm_refl [simp]: "calm x s s"
  by (simp add: calm_def)

lemma still_refl [simp]: "still X s s"
  by (simp add: still_def)

lemma calm_trans: "calm x s s1 \<Longrightarrow> calm x s1 s2 \<Longrightarrow> calm x s s2"
  unfolding calm_def using kept_trans by metis

lemma calm_sleeper: "calm x s s1 \<Longrightarrow> sleeper s x \<Longrightarrow> sleeper s1 x"
  by (simp add: calm_def sleeper_def)

lemma still_trans: "still X s s1 \<Longrightarrow> still X s1 s2 \<Longrightarrow> still X s s2"
  using calm_trans calm_sleeper unfolding still_def by blast

lemma still_mono: "still X s s' \<Longrightarrow> X \<subseteq> Y \<Longrightarrow> still Y s s'"
  by (auto simp: still_def)

lemma still_same:
  "threads s' = threads s \<Longrightarrow> ktimers s' = ktimers s \<Longrightarrow> still X s s'"
  by (simp add: still_def calm_def)

lemma still_thread:
  assumes "\<forall>x. x \<noteq> t \<longrightarrow> threads s' x = threads s x" "\<forall>x. x \<noteq> t \<longrightarrow> kept x (ktimers s) (ktimers s')"
    "rt_tick (ktimers s') = rt_tick (ktimers s)" "\<not> sleeper s t \<or> t \<in> X"
  shows "still X s s'"
  using assms by (auto simp: still_def calm_def)

lemma stopped_kept: "wtimers tm \<Longrightarrow> x \<noteq> t \<Longrightarrow> kept x tm (stopped t tm)"
  using stop_timer(3,6) by (simp add: kept_def)

lemma still_suspended:
  assumes "core s" "stat (threads s t) = RT_THREAD_READY" shows "still X s (suspended t s)"
  by (rule still_thread [of t]) (use assms stopped_kept [OF coreD(7)] stop_timer(4) [OF coreD(7)] in \<open>auto simp: sleeper_def\<close>)

lemma still_resumed: "core s \<Longrightarrow> \<not> sleeper s t \<or> t \<in> X \<Longrightarrow> still X s (resumed t s)"
  by (rule still_thread [of t]) (use stopped_kept [OF coreD(7)] stop_timer(4) [OF coreD(7)] in auto)

lemma still_switch: "only_switch s s' \<Longrightarrow> still X s s'"
  by (rule still_same) (simp_all add: only_switch_fields)

section \<open>Steps\<close>

definition step_ok :: "thread_id set \<Rightarrow> bool \<Rightarrow> kernel \<Rightarrow> kernel option \<Rightarrow> bool" where
  "step_ok X P s r \<longleftrightarrow> (\<exists>s'. r = Some s' \<and> kinv s' \<and> still X s s' \<and> mutexes s' = mutexes s \<and> results s' = results s \<and> (P \<longrightarrow> tops s'))"

lemma step_okI: "kinv s' \<Longrightarrow> still X s s' \<Longrightarrow> mutexes s' = mutexes s \<Longrightarrow> results s' = results s \<Longrightarrow> (P \<Longrightarrow> tops s') \<Longrightarrow> step_ok X P s (Some s')"
  by (simp add: step_ok_def)

lemma kinv_kinv0 [simp]: "kinv s \<Longrightarrow> kinv0 s"
  by (simp add: kinv_def)

lemma kinv_current: "kinv s \<Longrightarrow> rt_current_thread s = Some c \<Longrightarrow> stat (threads s c) = RT_THREAD_READY \<and> idle_ready s"
  by (simp add: kinv_def current_ok_def)

text \<open>The end of a call that switches.\<close>

lemma then_schedule:
  assumes "kinv0 s1" "idle_ready s1" "lock_nest s1 \<noteq> 0 \<Longrightarrow> current_ok s1" "still X s s1" "mutexes s1 = mutexes s" "results s1 = results s"
  shows "step_ok X P s (rt_schedule s1)"
proof -
  obtain s' where s': "rt_schedule s1 = Some s'" "kinv s'" "only_switch s1 s'" "tops s'"
    by (rule schedule_ok [OF assms(1-3)])
  then show ?thesis
    using assms(4-6) still_switch still_trans only_switch_fields [OF s'(3)] by (fastforce simp: step_ok_def)
qed

lemma kinv0_timers: "kinv0 s \<Longrightarrow> timers_ok tm (threads s) \<Longrightarrow> kinv0 (s\<lparr> ktimers := tm \<rparr>)"
  by (simp add: kinv0_def core_def objects_ok_def)

lemma placed_cong:
  "stat th' = stat th \<Longrightarrow> tlist th' = tlist th \<Longrightarrow> current_priority th' = current_priority th \<Longrightarrow> well_placed th' \<longleftrightarrow> well_placed th"
  by (simp add: well_placed_def split: thread_stat.split)

lemma sane_cong:
  "stat th' = stat th \<Longrightarrow> current_priority th' = current_priority th \<Longrightarrow> init_priority th' = init_priority th \<Longrightarrow>
    number_mask th' = number_mask th \<Longrightarrow> sane th' \<longleftrightarrow> sane th"
  by (simp add: sane_def)

lemma kinv0_thread:
  assumes "kinv0 s" "stat (f (threads s t)) = stat (threads s t)" "tlist (f (threads s t)) = tlist (threads s t)"
    "current_priority (f (threads s t)) = current_priority (threads s t)" "init_priority (f (threads s t)) = init_priority (threads s t)"
    "number_mask (f (threads s t)) = number_mask (threads s t)" "inside_ok (f (threads s t)) t (mutexes s)"
    "(\<exists>k. tlist (threads s t) = Some (Event_Queue k)) \<Longrightarrow>
      event_set (f (threads s t)) = event_set (threads s t) \<and> event_info (f (threads s t)) = event_info (threads s t)"
  shows "kinv0 (upd_thread t f s)"
proof -
  have c: "core s" using assms(1) by (simp add: kinv0_def)
  have "objects_ok (upd_thread t f s)"
  proof (rule objects_mono [of s])
    show "event_set (threads (upd_thread t f s) u) = event_set (threads s u) \<and> event_info (threads (upd_thread t f s) u) = event_info (threads s u)"
      if "u \<in> set (queues (upd_thread t f s) (Event_Queue k))" for k u
      using assms(8) core_place(1) [OF c, of u "Event_Queue k"] that by auto
  qed (use assms(1,2) in \<open>auto simp: kinv0_def live_def\<close>)
  moreover have "core (upd_thread t f s)"
    using c assms(2-3) placed_cong [OF assms(2-4)] sane_cong [OF assms(2,4-6)]
    by (auto simp: core_def threads_ok_def timers_ok_def links_same)
  moreover have "inside_ok (threads (upd_thread t f s) u) u (mutexes (upd_thread t f s))" for u
    using assms(1,7) by (simp add: kinv0_def)
  ultimately show ?thesis by (simp add: kinv0_def)
qed

lemma kinv_thread:
  assumes "kinv s" "kinv0 (upd_thread t f s)" "stat (f (threads s t)) = stat (threads s t)"
  shows "kinv (upd_thread t f s)"
proof -
  have e: "stat (threads (upd_thread t f s) u) = stat (threads s u)" for u using assms(3) by simp
  show ?thesis using assms(1,2) unfolding kinv_def current_ok_def e by simp
qed

lemma tops_cong:
  assumes "tops s" "rt_current_thread s' = rt_current_thread s" "lock_nest s' = lock_nest s" "queues s' = queues s"
    "\<And>u. stat (threads s' u) = stat (threads s u)" "\<And>u. current_priority (threads s' u) = current_priority (threads s u)"
  shows "tops s'"
  using assms(1) unfolding tops_def top_def prio_def assms(2-6) .

lemma top_without:
  assumes "top s c" "c \<noteq> t" "\<And>p. queues s' (Ready_Row p) = removeAll t (queues s (Ready_Row p))" "\<And>u. u \<noteq> t \<Longrightarrow> threads s' u = threads s u"
    "stat (threads s' t) \<noteq> RT_THREAD_READY"
  shows "top s' c"
proof -
  have p: "prio s' u = prio s u" if "u \<noteq> t" for u using assms(4) [OF that] by (simp add: prio_def)
  have "stat (threads s' u) = RT_THREAD_READY \<Longrightarrow> u \<noteq> t \<and> stat (threads s u) = RT_THREAD_READY" for u
    using assms(4,5) by (cases "u = t") auto
  moreover have "\<exists>ts. removeAll t (queues s (Ready_Row (prio s c))) = c # ts" using assms(1,2) by (auto simp: top_def)
  ultimately show ?thesis using assms(1) p p [OF assms(2)] unfolding top_def assms(3) assms(4) [OF assms(2)] by auto
qed

lemma tops_without:
  assumes "tops s" "rt_current_thread s' = rt_current_thread s" "lock_nest s' = lock_nest s" "rt_current_thread s \<noteq> Some t"
    "\<And>p. queues s' (Ready_Row p) = removeAll t (queues s (Ready_Row p))" "\<And>u. u \<noteq> t \<Longrightarrow> threads s' u = threads s u" "stat (threads s' t) \<noteq> RT_THREAD_READY"
  shows "tops s'"
  unfolding tops_def
proof (intro allI impI)
  fix c assume "rt_current_thread s' = Some c" "lock_nest s' = 0"
  then have "top s c" "c \<noteq> t" using assms(1-4) by (auto simp: tops_def)
  then show "top s' c" by (rule top_without) (use assms(5-7) in auto)
qed

section \<open>Waiting\<close>

lemma insert_prio_set [simp]: "set (insert_by_prio p t us) = insert t (set us)"
  by (induction us) auto

lemma insert_prio_distinct: "distinct us \<Longrightarrow> t \<notin> set us \<Longrightarrow> distinct (insert_by_prio p t us)"
  by (induction us) auto

text \<open>What must hold of an object for a thread to wait for it.\<close>

fun may_wait :: "kernel \<Rightarrow> thread_id \<Rightarrow> queue \<Rightarrow> bool" where
  "may_wait s t (Sem_Queue k) = (sem_value (sems s k) = 0)"
| "may_wait s t (Mutex_Queue k) = (mutex_owner (mutexes s k) \<noteq> None)"
| "may_wait s t (Event_Queue k) = (\<not> event_there (event_set (threads s t)) (event_info (threads s t)) (ev_set (events s k)))"
| "may_wait s t _ = False"

lemma may_wait_queue: "may_wait s t q \<Longrightarrow> wait_queue q"
  by (cases q) simp_all

lemma link_waiting:
  assumes "kinv0 s" "stat (threads s t) = RT_THREAD_SUSPEND" "tlist (threads s t) = None" "may_wait s t q"
    "\<And>ts. set (f ts) = insert t (set ts)" "\<And>ts. distinct ts \<Longrightarrow> t \<notin> set ts \<Longrightarrow> distinct (f ts)"
  obtains s' where "link f q t s = Some s'" "kinv0 s'" "threads s' = (threads s)(t := (threads s t)\<lparr> tlist := Some q \<rparr>)"
    "ktimers s' = ktimers s" "mutexes s' = mutexes s" "results s' = results s" "lock_nest s' = lock_nest s"
proof -
  define s' where "s' = upd_thread t (tlist_update (\<lambda>_. Some q)) (s\<lparr> queues := (queues s)(q := f (queues s q)) \<rparr>)"
  note c = kinv0D [OF assms(1)]
  have n: "t \<notin> set (queues s r)" for r using links_member [OF c(1)] assms(3) by simp
  have l: "links (queues s') (threads s')"
    unfolding s'_def using c(1) assms(3,5,6) n by (simp add: links_on)
  have wq: "wait_queue q" by (rule may_wait_queue [OF assms(4)])
  have g: "group_ok (queues s') (ready_priority_group s')"
  proof -
    have "\<forall>p. q \<noteq> Ready_Row p" using wq by auto
    then show ?thesis using c(2) by (simp add: s'_def group_other)
  qed
  have th: "sane (threads s' u) \<and> well_placed (threads s' u)" for u
    using c(4,5) [of u] assms(2) wq by (auto simp: s'_def sane_def well_placed_def)
  have tm: "timers_ok (ktimers s') (threads s')" using c(7,8) assms(2) by (auto simp: timers_ok_def s'_def)
  have o: "objects_ok s" and i: "\<And>u. inside_ok (threads s u) u (mutexes s)" using assms(1) by (simp_all add: kinv0_def)
  have "mutex_ok (mutexes s' k) (queues s' (Mutex_Queue k)) (threads s')" for k
  proof -
    have "mutex_ok (mutexes s k) (queues s (Mutex_Queue k)) (threads s)" using o by (simp add: objects_ok_def)
    then show ?thesis using assms(4) by (auto simp: s'_def mutex_ok_def live_def split: option.splits)
  qed
  moreover have "0 < sem_value (sems s' k) \<longrightarrow> queues s' (Sem_Queue k) = []" for k
    using o assms(4) by (auto simp: s'_def objects_ok_def)
  moreover have "\<not> event_there (event_set (threads s' u)) (event_info (threads s' u)) (ev_set (events s' k))"
    if "u \<in> set (queues s' (Event_Queue k))" for k u
    using o assms(4,5) n that by (cases "u = t") (auto simp: s'_def objects_ok_def split: if_splits)
  ultimately have "objects_ok s'" unfolding objects_ok_def by blast
  moreover have "inside_ok (threads s' u) u (mutexes s')" for u
    using i [of u] assms(3) by (cases "u = t") (auto simp: s'_def inside_ok_def)
  ultimately have "kinv0 s'" using l g th tm by (simp add: kinv0_def core_def threads_ok_def)
  then show thesis using that [of s'] assms(3) by (simp add: link_def s'_def)
qed

lemma arm_ok:
  assumes "kinv0 s" "stat (threads s t) = RT_THREAD_SUSPEND" "0 < n" "n < HALF_TICK_MAX"
  obtains s1 tm where "timer_call_for (Control t (SET_TIME n)) s = Some s1" "timer_call_for (Start t) s1 = Some (s\<lparr> ktimers := tm \<rparr>)"
    "kinv0 (s\<lparr> ktimers := tm \<rparr>)" "t \<in> set (rt_timer_list tm)" "due tm t = unat n" "rt_tick tm = rt_tick (ktimers s)"
    "\<forall>u. u \<noteq> t \<longrightarrow> kept u (ktimers s) tm"
proof -
  note c = kinv0D [OF assms(1)]
  obtain tm1 tm where tm: "do_call (Control t (SET_TIME n)) (ktimers s) = Some tm1" "do_call (Start t) tm1 = Some tm" "wtimers tm"
    "set (rt_timer_list tm) = insert t (set (rt_timer_list (ktimers s)))" "due tm t = unat n" "rt_tick tm = rt_tick (ktimers s)"
    "timeouts tm = timeouts (ktimers s)" "\<forall>u. u \<noteq> t \<longrightarrow> timers tm u = timers (ktimers s) u"
    by (rule arm_timer [OF c(7) assms(3,4)])
  have "timers_ok tm (threads s)" using tm(3,4) c(8) assms(2) by (auto simp: timers_ok_def)
  then have "kinv0 (s\<lparr> ktimers := tm \<rparr>)" by (rule kinv0_timers [OF assms(1)])
  moreover have "timer_call_for (Control t (SET_TIME n)) s = Some (s\<lparr> ktimers := tm1 \<rparr>)"
    "timer_call_for (Start t) (s\<lparr> ktimers := tm1 \<rparr>) = Some (s\<lparr> ktimers := tm \<rparr>)"
    unfolding timer_call_for_def tm(1) using tm(2) by (simp_all del: do_call.simps)
  moreover have "\<forall>u. u \<noteq> t \<longrightarrow> kept u (ktimers s) tm" using tm(4,8) by (simp add: kept_def)
  moreover have "t \<in> set (rt_timer_list tm)" using tm(4) by simp
  ultimately show thesis using that [of "s\<lparr> ktimers := tm1 \<rparr>" tm] tm(5,6) by blast
qed

definition asleep :: "nat \<Rightarrow> thread_id \<Rightarrow> kernel \<Rightarrow> bool" where
  "asleep n x s \<longleftrightarrow> sleeper s x \<and> x \<in> set (rt_timer_list (ktimers s)) \<and> due (ktimers s) x = n"

text \<open>The thread that may block: it is not the idle thread, and the scheduler is not locked.\<close>

definition may_block :: "kernel \<Rightarrow> bool" where
  "may_block s \<longleftrightarrow> (\<exists>t. rt_current_thread s = Some t \<and> t \<noteq> 0) \<and> lock_nest s = 0"

lemma inside_at_end:
  assumes "kinv0 s" "\<And>k. c = Some (In_Mutex k) \<Longrightarrow> tlist (threads s t) = Some (Mutex_Queue k)"
  shows "kinv0 (upd_thread t (th_inside_update (\<lambda>_. c)) s)"
  by (rule kinv0_thread [OF assms(1)]) (use assms(2) in \<open>auto simp: inside_ok_def\<close>)

lemma sleep_ok:
  assumes "kinv s" "rt_current_thread s = Some t" "t \<noteq> 0" "lock_nest s = 0" "0 < n" "n < HALF_TICK_MAX"
  shows "step_ok X P s (rt_thread_sleep n s)" "\<exists>s'. rt_thread_sleep n s = Some s' \<and> asleep (unat n) t s'"
proof -
  have r: "stat (threads s t) = RT_THREAD_READY" "idle_ready s" using kinv_current [OF assms(1,2)] by simp_all
  have k: "kinv0 s" "core s" using assms(1) kinv0_core by auto
  note su = suspend_form(1) [OF k(2) r(1)] suspend_kinv0 [OF k(1) r(1)] still_suspended [OF k(2) r(1)]
  have f: "stat (threads (suspended t s) t) = RT_THREAD_SUSPEND" "\<not> sleeper s t" using r by (simp_all add: sleeper_def)
  obtain s1 tm where s1: "timer_call_for (Control t (SET_TIME n)) (suspended t s) = Some s1"
    "timer_call_for (Start t) s1 = Some ((suspended t s)\<lparr> ktimers := tm \<rparr>)" "kinv0 ((suspended t s)\<lparr> ktimers := tm \<rparr>)"
    "t \<in> set (rt_timer_list tm)" "due tm t = unat n" "rt_tick tm = rt_tick (ktimers (suspended t s))"
    "\<forall>u. u \<noteq> t \<longrightarrow> kept u (ktimers (suspended t s)) tm"
    by (rule arm_ok [OF su(2) f(1) assms(5,6)])
  define s2 where "s2 = upd_thread t (th_inside_update (\<lambda>_. Some In_Sleep)) ((suspended t s)\<lparr> ktimers := tm \<rparr>)"
  have run: "rt_thread_sleep n s = rt_schedule s2"
    using assms(2) su(1) s1(1,2) by (simp add: rt_thread_sleep_def s2_def)
  have k2: "kinv0 s2" unfolding s2_def by (rule inside_at_end [OF s1(3)]) simp
  have i2: "idle_ready s2" "lock_nest s2 = 0" using r assms(3,4) by (simp_all add: s2_def)
  have w: "wtimers (ktimers s)" by (rule coreD(7) [OF k(2)])
  have "kept u (ktimers s) tm" if "u \<noteq> t" for u using kept_trans [OF stopped_kept [OF w that]] s1(7) that by simp
  then have "still X s s2"
    by (intro still_thread [of t]) (use f s1(6) stop_timer(4) [OF w] in \<open>auto simp: s2_def\<close>)
  then show "step_ok X P s (rt_thread_sleep n s)"
    unfolding run using k2 i2 by (intro then_schedule) (simp_all add: s2_def)
  obtain s3 where s3: "rt_schedule s2 = Some s3" "kinv s3" "only_switch s2 s3" "tops s3"
    by (rule schedule_ok [OF k2 i2(1)]) (use i2(2) in auto)
  have "asleep (unat n) t s3"
    using s1(4,5) by (simp add: asleep_def sleeper_def only_switch_fields [OF s3(3)] s2_def)
  then show "\<exists>s'. rt_thread_sleep n s = Some s' \<and> asleep (unat n) t s'" using run s3(1) by simp
qed

lemma list_suspend_ok:
  assumes "kinv0 s" "stat (threads s t) = RT_THREAD_READY" "may_wait s t q"
  obtains s' where "rt_ipc_list_suspend q t f s = Some s'" "kinv0 s'" "tlist (threads s' t) = Some q" "stat (threads s' t) = RT_THREAD_SUSPEND"
    "\<forall>u. u \<noteq> t \<longrightarrow> threads s' u = threads s u" "ktimers s' = stopped t (ktimers s)" "mutexes s' = mutexes s" "results s' = results s"
    "lock_nest s' = lock_nest s"
proof -
  have c: "core s" by (rule kinv0_core [OF assms(1)])
  define g where "g = (if f then insert_by_prio (prio (suspended t s)) t else (\<lambda>ts. ts @ [t]))"
  have g: "set (g ts) = insert t (set ts)" "distinct ts \<Longrightarrow> t \<notin> set ts \<Longrightarrow> distinct (g ts)" for ts
    by (simp_all add: g_def insert_prio_distinct)
  have w: "may_wait (suspended t s) t q" using assms(3) by (cases q) simp_all
  obtain s' where s': "link g q t (suspended t s) = Some s'" "kinv0 s'"
    "threads s' = (threads (suspended t s))(t := (threads (suspended t s) t)\<lparr> tlist := Some q \<rparr>)"
    "ktimers s' = ktimers (suspended t s)" "mutexes s' = mutexes (suspended t s)" "results s' = results (suspended t s)"
    "lock_nest s' = lock_nest (suspended t s)"
    by (rule link_waiting [of "suspended t s" t q g]) (use suspend_kinv0 [OF assms(1,2)] w g in auto)
  have "rt_ipc_list_suspend q t f s = Some s'"
    using s'(1) suspend_form(1) [OF c assms(2)] by (cases f) (simp_all add: rt_ipc_list_suspend_def rt_list_insert_before_def g_def)
  then show thesis using that [of s'] s'(2-7) by simp
qed

definition time_ok :: "u32 \<Rightarrow> bool" where
  "time_ok time \<longleftrightarrow> (0 < sint time \<longrightarrow> time < HALF_TICK_MAX)"

lemma sint_pos: "0 < sint (w :: u32) \<Longrightarrow> 0 < w"
  using word_gt_0 by fastforce

lemma wait_ok:
  assumes "kinv0 s" "stat (threads s t) = RT_THREAD_READY" "idle_ready s" "t \<noteq> 0" "lock_nest s = 0" "may_wait s t q" "time_ok time"
    "\<And>k. c = In_Mutex k \<Longrightarrow> q = Mutex_Queue k"
  shows "step_ok X P s (wait_in q c t f time s)"
proof -
  have ns: "\<not> sleeper s t" using assms(2) by (simp add: sleeper_def)
  obtain s1 where s1: "rt_ipc_list_suspend q t f s = Some s1" "kinv0 s1" "tlist (threads s1 t) = Some q"
    "stat (threads s1 t) = RT_THREAD_SUSPEND" "\<forall>u. u \<noteq> t \<longrightarrow> threads s1 u = threads s u" "ktimers s1 = stopped t (ktimers s)"
    "mutexes s1 = mutexes s" "results s1 = results s" "lock_nest s1 = lock_nest s"
    by (rule list_suspend_ok [OF assms(1,2,6)])
  have st1: "still X s s1"
    by (rule still_thread [of t])
      (use s1(5,6) ns stopped_kept [OF kinv0D(7) [OF assms(1)]] stop_timer(4) [OF kinv0D(7) [OF assms(1)]] in auto)
  have "\<exists>s2. (if 0 < sint time then do { s2 \<leftarrow> timer_call_for (Control t (SET_TIME time)) s1; timer_call_for (Start t) s2 }
      else Some s1) = Some s2 \<and> kinv0 s2 \<and> threads s2 = threads s1 \<and> mutexes s2 = mutexes s1 \<and> results s2 = results s1 \<and>
      lock_nest s2 = lock_nest s1 \<and> still X s s2"
  proof (cases "0 < sint time")
    case True
    then have n: "0 < time" "time < HALF_TICK_MAX" using assms(7) sint_pos by (simp_all add: time_ok_def)
    obtain s0 tm where tm: "timer_call_for (Control t (SET_TIME time)) s1 = Some s0" "timer_call_for (Start t) s0 = Some (s1\<lparr> ktimers := tm \<rparr>)"
      "kinv0 (s1\<lparr> ktimers := tm \<rparr>)" "t \<in> set (rt_timer_list tm)" "due tm t = unat time" "rt_tick tm = rt_tick (ktimers s1)"
      "\<forall>u. u \<noteq> t \<longrightarrow> kept u (ktimers s1) tm"
      by (rule arm_ok [OF s1(2,4) n])
    have "still X s (s1\<lparr> ktimers := tm \<rparr>)"
      by (rule still_trans [OF st1], rule still_thread [of t]) (use tm(6,7) s1(3) in \<open>auto simp: sleeper_def\<close>)
    then show ?thesis using True tm(1-3) by (intro exI [of _ "s1\<lparr> ktimers := tm \<rparr>"]) simp
  next
    case False
    then show ?thesis using s1(2) st1 by (intro exI [of _ s1]) simp
  qed
  then obtain s2 where s2: "(if 0 < sint time then do { s2 \<leftarrow> timer_call_for (Control t (SET_TIME time)) s1; timer_call_for (Start t) s2 }
      else Some s1) = Some s2" "kinv0 s2" "threads s2 = threads s1" "mutexes s2 = mutexes s1" "results s2 = results s1"
      "lock_nest s2 = lock_nest s1" "still X s s2" by blast
  define s3 where "s3 = upd_thread t (th_inside_update (\<lambda>_. Some c)) s2"
  have run: "wait_in q c t f time s = rt_schedule s3"
    unfolding wait_in_def s1(1) bind.bind_lunit s2(1) by (simp add: s3_def)
  have k3: "kinv0 s3" unfolding s3_def by (rule inside_at_end [OF s2(2)]) (use s1(3) s2(3) assms(8) in auto)
  have "still X s s3"
    by (rule still_trans [OF s2(7)], rule still_thread [of t]) (use s2(3) s1(3) in \<open>auto simp: s3_def sleeper_def\<close>)
  then show ?thesis
    unfolding run using k3 s1 s2 assms(3-5) by (intro then_schedule) (simp_all add: s3_def)
qed

end
