(* ===== verification/Rt_Kernel_Calls.thy ===== *)
theory Rt_Kernel_Calls
  imports Rt_Kernel_Steps
begin

text \<open>
  The remaining calls: threads that are suspended, resumed, started, closed; the tick; semaphores and event flags.
\<close>

section \<open>Threads\<close>

lemma suspend_ok:
  assumes "kinv s" "rt_current_thread s \<noteq> Some t" "t \<noteq> 0"
  shows "step_ok X (tops s) s (map_option fst (rt_thread_suspend t s))"
proof (cases "stat (threads s t) = RT_THREAD_READY")
  case True
  have k: "kinv0 s" "core s" using assms(1) kinv0_core by auto
  have "current_ok (suspended t s)" using assms by (auto simp: kinv_def current_ok_def)
  then have "kinv (suspended t s)" using suspend_kinv0 [OF k(1) True] by (simp add: kinv_def)
  moreover have "tops (suspended t s)" if "tops s"
    by (rule tops_without [OF that, of _ t]) (use assms(2) in auto)
  ultimately show ?thesis
    using suspend_form(1) [OF k(2) True] still_suspended [OF k(2) True] by (simp add: step_okI)
next
  case False
  then show ?thesis using assms(1) by (simp add: rt_thread_suspend_def step_okI)
qed

lemma resumed_current_ok: "current_ok s \<Longrightarrow> current_ok (resumed t s)"
  by (auto simp: current_ok_def)

lemma resume_ok:
  assumes "kinv s" "\<And>k. tlist (threads s t) \<noteq> Some (Mutex_Queue k)"
  shows "step_ok {t} False s (map_option fst (rt_thread_resume t s))"
proof (cases "stat (threads s t) = RT_THREAD_SUSPEND")
  case True
  have k: "kinv0 s" "core s" using assms(1) kinv0_core by auto
  have "kinv (resumed t s)"
    using resume_kinv0 [OF k(1) True] assms resumed_current_ok by (simp add: kinv_def)
  then show ?thesis
    using resume_core(1) [OF k(2) True] still_resumed [OF k(2), of t "{t}"] by (simp add: step_okI)
next
  case False
  then show ?thesis using assms(1) by (simp add: rt_thread_resume_def step_okI)
qed

text \<open>Priorities as the threads are initialised with are in range; a thread that is not started yet is unlinked.\<close>

lemma startup_ok:
  assumes "kinv s" "stat (threads s t) = RT_THREAD_INIT"
  shows "step_ok X (rt_current_thread s = None \<longrightarrow> tops s) s (rt_thread_startup t s)"
    "rt_current_thread s = None \<Longrightarrow> \<exists>s'. rt_thread_startup t s = Some s' \<and> rt_current_thread s' = None"
proof -
  define s0 where "s0 = upd_thread t (\<lambda>th. (set_priority (init_priority th) th)\<lparr> stat := RT_THREAD_SUSPEND \<rparr>) s"
  define s1 where "s1 = s0\<lparr> ktimers := stopped t (ktimers s) \<rparr>"
  have k: "kinv0 s" "core s" using assms(1) kinv0_core by auto
  note c = coreD [OF k(2)]
  have tl: "tlist (threads s t) = None" using c(5) [of t] assms(2) by (simp add: well_placed_def)
  have l0: "links (queues s0) (threads s0)" using c(1) by (simp add: s0_def set_priority_def links_same)
  have f0: "tlist (threads s0 t) = None" "ktimers s0 = ktimers s" "stat (threads s0 t) = RT_THREAD_SUSPEND"
    using tl by (simp_all add: s0_def set_priority_def)
  have w: "wakeable t s1"
    unfolding wakeable_def s1_def
  proof (intro conjI allI impI ballI)
    show "links (queues (s0\<lparr>ktimers := stopped t (ktimers s)\<rparr>)) (threads (s0\<lparr>ktimers := stopped t (ktimers s)\<rparr>))" using l0 by simp
    show "group_ok (queues (s0\<lparr>ktimers := stopped t (ktimers s)\<rparr>)) (ready_priority_group (s0\<lparr>ktimers := stopped t (ktimers s)\<rparr>))"
      using c(2) by (simp add: s0_def)
    show "wtimers (ktimers (s0\<lparr>ktimers := stopped t (ktimers s)\<rparr>))" using stop_timer(2) [OF c(7)] by simp
    show "sane (threads (s0\<lparr>ktimers := stopped t (ktimers s)\<rparr>) u)" if "u \<noteq> t" for u using c(4) [of u] that by (simp add: s0_def)
    show "well_placed (threads (s0\<lparr>ktimers := stopped t (ktimers s)\<rparr>) u)" if "u \<noteq> t" for u using c(5) [of u] that by (simp add: s0_def)
    show "sane (threads (s0\<lparr>ktimers := stopped t (ktimers s)\<rparr>) t)"
      using c(4) [of t] by (simp add: s0_def sane_def set_priority_def row_mask_def)
    show "number_mask (threads (s0\<lparr>ktimers := stopped t (ktimers s)\<rparr>) t) = row_mask (prio (s0\<lparr>ktimers := stopped t (ktimers s)\<rparr>) t)"
      by (simp add: s0_def set_priority_def row_mask_def prio_def)
    fix u assume "u \<in> set (rt_timer_list (ktimers (s0\<lparr>ktimers := stopped t (ktimers s)\<rparr>)))"
    then have u: "u \<in> set (rt_timer_list (ktimers s))" "u \<noteq> t" using stop_timer(3) [OF c(7)] by auto
    show "u \<noteq> t" by (rule u(2))
    show "stat (threads (s0\<lparr>ktimers := stopped t (ktimers s)\<rparr>) u) = RT_THREAD_SUSPEND" using c(8) [OF u(1)] u(2) by (simp add: s0_def)
  next
    show "tlist (threads (s0\<lparr>ktimers := stopped t (ktimers s)\<rparr>) t) \<noteq> Some (Ready_Row p)" for p using f0(1) by simp
  qed
  have "objects_ok s0"
    by (rule objects_mono [of s])
      (use k(1) assms(2) core_place(1) [OF k(2), of t] tl in \<open>auto simp: kinv0_def s0_def live_def set_priority_def\<close>)
  then have o: "objects_ok s1" by (simp add: s1_def objects_ok_def)
  have i: "inside_ok (threads s1 u) u (mutexes s1)" for u
  proof -
    have "inside_ok (threads s u) u (mutexes s)" using k(1) by (simp add: kinv0_def)
    then show ?thesis using assms(2) by (cases "u = t") (auto simp: s1_def s0_def inside_ok_def set_priority_def)
  qed
  have r: "rt_thread_resume t s0 = Some (resumed t s0, RT_EOK)"
    by (rule resume_form [OF l0]) (use c(7) w f0 in \<open>simp_all add: s1_def\<close>)
  have "kinv0 (woken t s1)" by (rule woken_kinv0 [OF w o i]) (use f0 in \<open>auto simp: s1_def\<close>)
  then have kr: "kinv0 (resumed t s0)" by (simp add: resumed_def s1_def f0(2))
  have f: "mutexes (resumed t s0) = mutexes s" "results (resumed t s0) = results s" "rt_current_thread (resumed t s0) = rt_current_thread s"
    by (simp_all add: s0_def)
  have cu: "current_ok (resumed t s0)" using assms by (auto simp: kinv_def current_ok_def s0_def)
  have st: "still X s (resumed t s0)"
    by (rule still_thread [of t])
      (use stopped_kept [OF c(7)] stop_timer(4) [OF c(7)] assms(2) in \<open>auto simp: s0_def sleeper_def\<close>)
  show "step_ok X (rt_current_thread s = None \<longrightarrow> tops s) s (rt_thread_startup t s)"
  proof (cases "rt_current_thread s = None")
    case True
    then have "rt_thread_startup t s = Some (resumed t s0)"
      using assms(2) r f(3) by (simp add: rt_thread_startup_def flip: s0_def)
    moreover have "tops (resumed t s0)" using True f(3) by (simp add: tops_def)
    ultimately show ?thesis using kr cu st f by (simp add: step_okI kinv_def)
  next
    case False
    then have "rt_thread_startup t s = rt_schedule (resumed t s0)"
      using assms(2) r f(3) by (simp add: rt_thread_startup_def flip: s0_def)
    moreover have "idle_ready (resumed t s0)" using False cu f(3) by (auto simp: current_ok_def)
    ultimately show ?thesis using then_schedule [OF kr _ _ st f(1,2)] cu by simp
  qed
  show "rt_current_thread s = None \<Longrightarrow> \<exists>s'. rt_thread_startup t s = Some s' \<and> rt_current_thread s' = None"
    using assms(2) r f(3) by (simp add: rt_thread_startup_def flip: s0_def)
qed

text \<open>Leaving for good.\<close>

definition closed :: "thread_id \<Rightarrow> kernel \<Rightarrow> kernel" where
  "closed t s = (upd_thread t (stat_update (\<lambda>_. RT_THREAD_CLOSE)) (row_off t s))\<lparr> ktimers := rt_timer_remove t (ktimers s) \<rparr>"

lemma closed_fields [simp]:
  "threads (closed t s) = (threads s)(t := (threads s t)\<lparr> tlist := None, stat := RT_THREAD_CLOSE \<rparr>)"
  "queues (closed t s) q = removeAll t (queues s q)" "rt_current_thread (closed t s) = rt_current_thread s"
  "lock_nest (closed t s) = lock_nest s" "sems (closed t s) = sems s" "mutexes (closed t s) = mutexes s"
  "events (closed t s) = events s" "ktimers (closed t s) = rt_timer_remove t (ktimers s)" "results (closed t s) = results s"
  by (simp_all add: closed_def)

lemma close_form:
  assumes "core s"
  shows "rt_schedule_remove_thread t s = Some (row_off t s)"
    "timer_call_for (Detach t) (upd_thread t (stat_update (\<lambda>_. RT_THREAD_CLOSE)) (row_off t s)) = Some (closed t s)"
    "timer_call_for (Detach t) (row_off t s) = Some ((row_off t s)\<lparr> ktimers := rt_timer_remove t (ktimers s) \<rparr>)"
    "upd_thread t (stat_update (\<lambda>_. RT_THREAD_CLOSE)) ((row_off t s)\<lparr> ktimers := rt_timer_remove t (ktimers s) \<rparr>) = closed t s"
    "core (closed t s)"
proof -
  note c = coreD [OF assms]
  show "rt_schedule_remove_thread t s = Some (row_off t s)" by (rule remove_thread_form [OF c(1,6)])
  show "timer_call_for (Detach t) (upd_thread t (stat_update (\<lambda>_. RT_THREAD_CLOSE)) (row_off t s)) = Some (closed t s)"
    "timer_call_for (Detach t) (row_off t s) = Some ((row_off t s)\<lparr> ktimers := rt_timer_remove t (ktimers s) \<rparr>)"
    using detach_timer(1) [OF c(7), of t] by (simp_all add: timer_call_for_def closed_def)
  show "upd_thread t (stat_update (\<lambda>_. RT_THREAD_CLOSE)) ((row_off t s)\<lparr> ktimers := rt_timer_remove t (ktimers s) \<rparr>) = closed t s"
    by (simp add: closed_def upd_thread_def)
  have row: "\<forall>p. tlist (threads s t) = Some (Ready_Row p) \<longrightarrow> p = prio s t \<and> number_mask (threads s t) = row_mask p"
    using c(4,5) [of t] by (auto simp: well_placed_def sane_def prio_def split: thread_stat.splits)
  have mask: "number_mask (threads s t) = row_mask (prio s t) \<or> number_mask (threads s t) = 0"
    using c(4) [of t] by (auto simp: sane_def prio_def)
  note lg = row_off_group [OF c(1,2) row mask]
  have "links (queues (closed t s)) (threads (closed t s))" "group_ok (queues (closed t s)) (ready_priority_group (closed t s))"
  proof -
    have e: "threads (closed t s) = (threads (row_off t s))(t := (threads (row_off t s) t)\<lparr> stat := RT_THREAD_CLOSE \<rparr>)"
      "queues (closed t s) = queues (row_off t s)" "ready_priority_group (closed t s) = ready_priority_group (row_off t s)"
      by (simp_all only: closed_fields row_off_fields fun_upd_upd fun_upd_same) (simp_all add: closed_def)
    show "links (queues (closed t s)) (threads (closed t s))" unfolding e by (subst links_same) (use lg(1) in simp_all)
    show "group_ok (queues (closed t s)) (ready_priority_group (closed t s))" unfolding e by (rule lg(2))
  qed
  moreover have "threads_ok (threads (closed t s))"
    using c(4,5) by (auto simp: threads_ok_def sane_def well_placed_def)
  moreover have "timers_ok (ktimers (closed t s)) (threads (closed t s))"
    using detach_timer(2) [OF c(7)] c(8) by (auto simp: timers_ok_def)
  ultimately show "core (closed t s)" by (simp add: core_def)
qed

lemma close_kinv0:
  assumes "kinv0 s" "\<And>k. mutex_owner (mutexes s k) \<noteq> Some t" shows "kinv0 (closed t s)"
proof -
  have "objects_ok (closed t s)"
    by (rule objects_mono [of s]) (use assms in \<open>auto simp: kinv0_def live_def\<close>)
  moreover have "inside_ok (threads (closed t s) u) u (mutexes (closed t s))" for u
    using assms(1) by (cases "u = t") (auto simp: kinv0_def inside_ok_def)
  ultimately show ?thesis using close_form(5) [OF kinv0_core [OF assms(1)]] by (simp add: kinv0_def)
qed

lemma bury_ok:
  assumes "kinv0 s" "stat (threads s t) = RT_THREAD_CLOSE" "tlist (threads s t) = None"
  obtains s' where "rt_list_insert_after Defunct t s = Some s'" "kinv0 s'" "threads s' = (threads s)(t := (threads s t)\<lparr> tlist := Some Defunct \<rparr>)"
    "queues s' = (queues s)(Defunct := t # queues s Defunct)" "ktimers s' = ktimers s" "mutexes s' = mutexes s" "results s' = results s"
    "lock_nest s' = lock_nest s" "rt_current_thread s' = rt_current_thread s"
proof -
  define s' where "s' = upd_thread t (tlist_update (\<lambda>_. Some Defunct)) (s\<lparr> queues := (queues s)(Defunct := t # queues s Defunct) \<rparr>)"
  note c = kinv0D [OF assms(1)]
  have n: "t \<notin> set (queues s r)" for r using links_member [OF c(1)] assms(3) by simp
  have "links (queues s') (threads s')" unfolding s'_def using c(1) assms(3) n by (simp add: links_on)
  moreover have "group_ok (queues s') (ready_priority_group s')" using c(2) by (simp add: s'_def group_ok_def)
  moreover have "threads_ok (threads s')" using c(4,5) assms(2) by (auto simp: threads_ok_def s'_def sane_def well_placed_def)
  moreover have "timers_ok (ktimers s') (threads s')" using c(7,8) assms(2) by (auto simp: timers_ok_def s'_def)
  moreover have "objects_ok s'"
    by (rule objects_mono [of s]) (use assms(1) in \<open>auto simp: kinv0_def s'_def live_def\<close>)
  moreover have "inside_ok (threads s' u) u (mutexes s')" for u
    using assms(1,2) by (cases "u = t") (auto simp: kinv0_def inside_ok_def s'_def)
  ultimately have "kinv0 s'" by (simp add: kinv0_def core_def)
  then show thesis using that [of s'] assms(3) by (simp add: rt_list_insert_after_def link_def s'_def)
qed

lemma exit_ok:
  assumes "kinv s" "rt_current_thread s = Some t" "t \<noteq> 0" "lock_nest s = 0" "\<And>k. mutex_owner (mutexes s k) \<noteq> Some t"
  shows "step_ok X P s (rt_thread_exit s)"
proof -
  have r: "stat (threads s t) = RT_THREAD_READY" "idle_ready s" using kinv_current [OF assms(1,2)] by simp_all
  have k: "kinv0 s" "core s" using assms(1) kinv0_core by auto
  note c = close_form [OF k(2), of t] close_kinv0 [OF k(1) assms(5)]
  have st: "still X s (closed t s)"
    by (rule still_thread [of t]) (use r in \<open>auto simp: sleeper_def kept_def\<close>)
  have ns: "\<not> sleeper (closed t s) t" by (simp add: sleeper_def)
  show ?thesis
  proof (cases "is_static (threads s t)")
    case True
    then have "rt_thread_exit s = rt_schedule (closed t s)"
      using assms(2) c(1,2) by (simp add: rt_thread_exit_def)
    then show ?thesis using then_schedule [OF c(6) _ _ st] r assms(3,4) by simp
  next
    case False
    obtain s' where s': "rt_list_insert_after Defunct t (closed t s) = Some s'" "kinv0 s'"
      "threads s' = (threads (closed t s))(t := (threads (closed t s) t)\<lparr> tlist := Some Defunct \<rparr>)"
      "queues s' = (queues (closed t s))(Defunct := t # queues (closed t s) Defunct)"
      "ktimers s' = ktimers (closed t s)" "mutexes s' = mutexes (closed t s)" "results s' = results (closed t s)"
      "lock_nest s' = lock_nest (closed t s)" "rt_current_thread s' = rt_current_thread (closed t s)"
      by (rule bury_ok [of "closed t s" t]) (use c(6) in auto)
    have "rt_thread_exit s = rt_schedule s'"
      using assms(2) c(1,2) s'(1) False by (simp add: rt_thread_exit_def)
    moreover have "still X s s'"
      by (rule still_trans [OF st], rule still_thread [of t]) (use s'(3,5) ns in auto)
    ultimately show ?thesis using then_schedule [OF s'(2)] s'(3,6-8) r assms(3,4) by simp
  qed
qed

lemma delete_ok:
  assumes "kinv s" "rt_current_thread s \<noteq> Some t" "t \<noteq> 0" "\<And>k. mutex_owner (mutexes s k) \<noteq> Some t"
  shows "step_ok {t} (tops s) s (rt_thread_delete t s)" "step_ok {t} (tops s) s (rt_thread_detach t s)"
proof -
  have k: "kinv0 s" "core s" using assms(1) kinv0_core by auto
  note c = close_form [OF k(2), of t] close_kinv0 [OF k(1) assms(4)]
  have st: "still {t} s (closed t s)" by (rule still_thread [of t]) (auto simp: kept_def)
  have "current_ok (closed t s)" using assms(1-3) by (auto simp: kinv_def current_ok_def)
  then have kc: "kinv (closed t s)" using c(6) by (simp add: kinv_def)
  have "tops (closed t s)" if "tops s"
    by (rule tops_without [OF that, of _ t]) (use assms(2) in auto)
  then show "step_ok {t} (tops s) s (rt_thread_detach t s)"
    using kc st c(1,3,4) by (simp add: rt_thread_detach_def step_okI)
  obtain s' where s': "rt_list_insert_after Defunct t (closed t s) = Some s'" "kinv0 s'"
    "threads s' = (threads (closed t s))(t := (threads (closed t s) t)\<lparr> tlist := Some Defunct \<rparr>)"
    "queues s' = (queues (closed t s))(Defunct := t # queues (closed t s) Defunct)"
    "ktimers s' = ktimers (closed t s)" "mutexes s' = mutexes (closed t s)" "results s' = results (closed t s)"
    "lock_nest s' = lock_nest (closed t s)" "rt_current_thread s' = rt_current_thread (closed t s)"
    by (rule bury_ok [of "closed t s" t]) (use c(6) in auto)
  have "rt_thread_delete t s = Some s'"
    using c(1,3,4) s'(1) by (simp add: rt_thread_delete_def)
  moreover have "still {t} s s'"
    by (rule still_trans [OF st], rule still_thread [of t]) (use s'(3,5) in auto)
  moreover have "kinv s'"
  proof -
    have e: "stat (threads s' u) = stat (threads (closed t s) u)" for u unfolding s'(3) by simp
    show ?thesis using s'(2) kc unfolding kinv_def current_ok_def e s'(9) by blast
  qed
  moreover have "tops s'" if "tops s"
    by (rule tops_without [OF that, of _ t]) (use assms(2) s' in auto)
  ultimately show "step_ok {t} (tops s) s (rt_thread_delete t s)" using s' by (simp add: step_okI)
qed

lemma idle_round_ok:
  assumes "kinv s" shows "step_ok X (tops s) s (Some (idle_excute s))"
proof (cases "queues s Defunct")
  case Nil
  then show ?thesis using assms by (simp add: idle_excute_def step_okI)
next
  case (Cons t ts)
  have k: "kinv0 s" "core s" using assms kinv0_core by auto
  note c = coreD [OF k(2)]
  have t: "stat (threads s t) = RT_THREAD_CLOSE" "tlist (threads s t) = Some Defunct"
    using core_place [OF k(2), of t Defunct] Cons by simp_all
  have e: "idle_excute s = off t s" using Cons list_remove_off [OF c(1)] by (simp add: idle_excute_def)
  have row: "removeAll t (queues s (Ready_Row p)) = queues s (Ready_Row p)" for p
    using removeAll_links [OF c(1)] t(2) by simp
  have "links (queues (off t s)) (threads (off t s))" using c(1) by (simp add: off_def links_off)
  moreover have "group_ok (queues (off t s)) (ready_priority_group (off t s))" using c(2) row by (simp add: group_ok_def)
  moreover have "threads_ok (threads (off t s))" using c(4,5) t by (auto simp: threads_ok_def sane_def well_placed_def)
  moreover have "timers_ok (ktimers (off t s)) (threads (off t s))" using c(7,8) by (auto simp: timers_ok_def)
  moreover have "objects_ok (off t s)"
    by (rule objects_mono [of s]) (use k(1) in \<open>auto simp: kinv0_def live_def split: if_splits\<close>)
  moreover have "inside_ok (threads (off t s) u) u (mutexes (off t s))" for u
  proof -
    have "inside_ok (threads s u) u (mutexes s)" using k(1) by (simp add: kinv0_def)
    then show ?thesis using t(1) by (cases "u = t") (auto simp: inside_ok_def)
  qed
  ultimately have "kinv0 (off t s)" by (simp add: kinv0_def core_def)
  moreover have "current_ok (off t s)" using assms by (auto simp: kinv_def current_ok_def)
  moreover have "still X s (off t s)" by (rule still_thread [of t]) (use t in \<open>auto simp: sleeper_def\<close>)
  moreover have "tops (off t s)" if "tops s"
  proof -
    have "rt_current_thread s \<noteq> Some t" using kinv_current [OF assms] t(1) by fastforce
    then show ?thesis by (intro tops_without [OF that, of _ t]) (use t in auto)
  qed
  ultimately show ?thesis by (simp add: e step_okI kinv_def)
qed

text \<open>A change of priority, and the turn to the end of the row.\<close>

definition repriced :: "thread_id \<Rightarrow> u8 \<Rightarrow> kernel \<Rightarrow> kernel" where
  "repriced t p s = (if stat (threads s t) = RT_THREAD_READY then row_on t (upd_thread t (set_priority p) (row_off t s))
     else upd_thread t (set_priority p) s)"

lemma repriced_fields [simp]:
  "rt_current_thread (repriced t p s) = rt_current_thread s" "lock_nest (repriced t p s) = lock_nest s" "sems (repriced t p s) = sems s"
  "mutexes (repriced t p s) = mutexes s" "events (repriced t p s) = events s" "ktimers (repriced t p s) = ktimers s"
  "results (repriced t p s) = results s" "u \<noteq> t \<Longrightarrow> threads (repriced t p s) u = threads s u"
  "stat (threads (repriced t p s) u) = stat (threads s u)" "th_inside (threads (repriced t p s) u) = th_inside (threads s u)"
  "th_error (threads (repriced t p s) u) = th_error (threads s u)" "event_set (threads (repriced t p s) u) = event_set (threads s u)"
  "event_info (threads (repriced t p s) u) = event_info (threads s u)"
  by (auto simp: repriced_def set_priority_def)

lemma change_priority_form:
  assumes "kinv0 s" "unat p < 32"
  shows "change_priority t p s = Some (repriced t p s)" "kinv0 (repriced t p s)"
    "stat (threads s t) \<noteq> RT_THREAD_READY \<Longrightarrow> tlist (threads (repriced t p s) t) = tlist (threads s t)"
    "wait_queue q \<Longrightarrow> queues (repriced t p s) q = queues s q"
proof -
  note c = kinv0D [OF assms(1)]
  have k: "core s" by (rule kinv0_core [OF assms(1)])
  have "change_priority t p s = Some (repriced t p s) \<and> kinv0 (repriced t p s) \<and> (\<forall>q. wait_queue q \<longrightarrow> queues (repriced t p s) q = queues s q)"
  proof (cases "stat (threads s t) = RT_THREAD_READY")
    case True
    define s1 where "s1 = upd_thread t (set_priority p) (row_off t s)"
    note r = core_ready [OF k True]
    have f: "tlist (threads s1 t) = None" "prio s1 t = unat p" by (simp_all add: s1_def set_priority_def prio_def)
    have run: "change_priority t p s = Some (row_on t s1)"
      using True remove_thread_form [OF c(1,6), of t] insert_thread_form [OF f(1)] f(2) assms(2)
      by (simp add: change_priority_def flip: s1_def)
    have lg: "links (queues (row_off t s)) (threads (row_off t s))" "group_ok (queues (row_off t s)) (ready_priority_group (row_off t s))"
      by (rule row_off_group [OF c(1,2)]; use r in simp)+
    have l1: "links (queues s1) (threads s1)"
    proof -
      have "threads s1 = (threads (row_off t s))(t := set_priority p (threads (row_off t s) t))" "queues s1 = queues (row_off t s)"
        by (simp_all add: s1_def)
      then show ?thesis using lg(1) by (simp only:) (subst links_same, simp_all add: set_priority_def)
    qed
    have g1: "group_ok (queues s1) (ready_priority_group s1)" using lg(2) by (simp add: s1_def)
    have co: "core (row_on t s1)"
    proof (rule row_on_core [OF l1 g1 f(1)])
      show "\<forall>u. u \<noteq> t \<longrightarrow> sane (threads s1 u) \<and> well_placed (threads s1 u)" using c(4,5) by (simp add: s1_def)
      show "sane (threads s1 t)" using c(4) [of t] assms(2) by (simp add: s1_def sane_def set_priority_def row_mask_def)
      show "number_mask (threads s1 t) = row_mask (prio s1 t)" by (simp add: s1_def set_priority_def row_mask_def prio_def)
      show "wtimers (ktimers s1)" using c(7) by (simp add: s1_def)
      show "\<forall>u \<in> set (rt_timer_list (ktimers s1)). u \<noteq> t \<and> stat (threads s1 u) = RT_THREAD_SUSPEND"
        using c(8) True by (fastforce simp: s1_def)
    qed
    have q: "queues (row_on t s1) q = queues s q" if "wait_queue q" for q
    proof -
      have "removeAll t (queues s q) = queues s q" by (rule removeAll_links [OF c(1)]) (use r(1) that in auto)
      then show ?thesis using that by (auto simp: row_on_queue s1_def)
    qed
    have "objects_ok (row_on t s1)"
      by (rule objects_mono [of s])
        (use assms(1) True q in \<open>auto simp: kinv0_def s1_def live_def set_priority_def\<close>)
    moreover have "inside_ok (threads (row_on t s1) u) u (mutexes (row_on t s1))" for u
    proof -
      have "inside_ok (threads s u) u (mutexes s)" using assms(1) by (simp add: kinv0_def)
      then show ?thesis using True r(1) by (cases "u = t") (auto simp: inside_ok_def s1_def set_priority_def)
    qed
    ultimately have "kinv0 (row_on t s1)" using co by (simp add: kinv0_def)
    then show ?thesis using run q True by (simp add: repriced_def flip: s1_def)
  next
    case False
    define s1 where "s1 = upd_thread t (set_priority p) s"
    have pl: "well_placed (set_priority p (threads s t))"
      using c(5) [of t] False by (simp add: well_placed_def set_priority_def split: thread_stat.splits)
    have sa: "sane (set_priority p (threads s t))" using c(4) [of t] assms(2) by (simp add: sane_def set_priority_def row_mask_def)
    have "core s1"
      using c(1,2,4,5,7,8) pl sa by (auto simp: s1_def core_def threads_ok_def timers_ok_def links_same set_priority_def)
    moreover have "objects_ok s1"
      by (rule objects_mono [of s]) (use assms(1) in \<open>auto simp: kinv0_def s1_def live_def set_priority_def\<close>)
    moreover have "inside_ok (threads s1 u) u (mutexes s1)" for u
    proof -
      have "inside_ok (threads s u) u (mutexes s)" using assms(1) by (simp add: kinv0_def)
      then show ?thesis by (cases "u = t") (auto simp: inside_ok_def s1_def set_priority_def)
    qed
    ultimately have "kinv0 s1" by (simp add: kinv0_def)
    then show ?thesis using False by (simp add: change_priority_def repriced_def s1_def)
  qed
  then show "change_priority t p s = Some (repriced t p s)" "kinv0 (repriced t p s)"
    "wait_queue q \<Longrightarrow> queues (repriced t p s) q = queues s q" by auto
  show "stat (threads s t) \<noteq> RT_THREAD_READY \<Longrightarrow> tlist (threads (repriced t p s) t) = tlist (threads s t)"
    by (simp add: repriced_def set_priority_def)
qed

lemma repriced_current_ok: "current_ok (repriced t p s) \<longleftrightarrow> current_ok s"
  by (simp add: current_ok_def)

lemma still_repriced:
  assumes "kinv0 s" "unat p < 32" shows "still X s (repriced t p s)"
  unfolding still_def
proof (intro allI impI)
  fix x assume "sleeper s x"
  then show "calm x s (repriced t p s)"
    using change_priority_form(3) [OF assms, where t = t] by (cases "x = t") (auto simp: calm_def sleeper_def)
qed

lemma change_ok:
  assumes "kinv s" "unat p < 32" shows "step_ok X False s (change_priority t p s)"
  using assms change_priority_form [OF kinv_kinv0 [OF assms(1)] assms(2), where t = t] still_repriced [OF kinv_kinv0 [OF assms(1)] assms(2)]
  by (simp add: step_okI kinv_def repriced_current_ok)

end
