(* ===== verification/Rt_Kernel_Tick.thy ===== *)
theory Rt_Kernel_Tick
  imports Rt_Kernel_Calls
begin

text \<open>
  The tick: the time slice of the running thread, then the threads whose timers are due become ready, all others sleep
  one tick less.
\<close>

section \<open>Yield\<close>

lemma schedule_current: "rt_schedule s = Some s' \<Longrightarrow> rt_current_thread s \<noteq> None \<Longrightarrow> rt_current_thread s' \<noteq> None"
  by (cases "highest_ready s") (auto simp: rt_schedule_def split: if_splits)

lemma yield_ok:
  assumes "kinv s" "rt_current_thread s = Some c"
  shows "\<exists>s'. rt_thread_yield s = Some s' \<and> kinv s' \<and> (tops s \<longrightarrow> tops s') \<and> threads s' = threads s \<and> ktimers s' = ktimers s \<and>
    mutexes s' = mutexes s \<and> results s' = results s \<and> rt_current_thread s' \<noteq> None"
proof (cases "1 < length (queues s (Ready_Row (prio s c)))")
  case True
  have k: "kinv0 s" "core s" using assms(1) kinv0_core by auto
  have r: "stat (threads s c) = RT_THREAD_READY" "idle_ready s" using kinv_current [OF assms] by simp_all
  note cr = core_ready [OF k(2) r(1)] and cc = coreD [OF k(2)]
  define s1 where "s1 = s\<lparr> queues := (queues s)(Ready_Row (prio s c) := removeAll c (queues s (Ready_Row (prio s c))) @ [c]) \<rparr>"
  have run: "rt_thread_yield s = rt_schedule s1"
  proof -
    have "(threads s)(c := (threads s c)\<lparr> tlist := Some (Ready_Row (prio s c)) \<rparr>) = threads s" using cr(1) by auto
    then have "rt_list_insert_before (Ready_Row (prio s c)) c (rt_list_remove c s) = Some s1"
      using cr(1) by (simp add: rt_list_remove_def rt_list_insert_before_def link_def upd_thread_def s1_def)
    then show ?thesis using assms(2) r(1) cr(1) True by (simp add: rt_thread_yield_def)
  qed
  have f: "threads s1 = threads s" "ktimers s1 = ktimers s" "mutexes s1 = mutexes s" "results s1 = results s" "lock_nest s1 = lock_nest s"
    "rt_current_thread s1 = rt_current_thread s" "ready_priority_group s1 = ready_priority_group s" "sems s1 = sems s" "events s1 = events s"
    by (simp_all add: s1_def)
  have q: "set (queues s1 q) = set (queues s q)" for q using cr(2) by (auto simp: s1_def)
  have d: "distinct (queues s1 q)" for q using cc(1) by (auto simp: s1_def links_def distinct_removeAll)
  have e: "queues s1 q = [] \<longleftrightarrow> queues s q = []" for q using q by (metis set_empty)
  have "links (queues s1) (threads s1)" using cc(1) d by (simp add: links_def q f)
  moreover have "group_ok (queues s1) (ready_priority_group s1)" using cc(2) by (simp add: group_ok_def e f)
  ultimately have "core s1" using k(2) by (simp add: core_def f)
  moreover have "objects_ok s1" by (rule objects_mono [of s]) (use k(1) q in \<open>simp_all add: kinv0_def f\<close>)
  ultimately have k1: "kinv0 s1" using k(1) by (simp add: kinv0_def f)
  have i1: "idle_ready s1" "current_ok s1" using r(2) assms(1) by (simp_all add: f kinv_def current_ok_def)
  obtain s' where s': "rt_schedule s1 = Some s'" "kinv s'" "only_switch s1 s'" "tops s'"
    by (rule schedule_ok [OF k1 i1(1)]) (use i1(2) in simp)
  have "rt_current_thread s' \<noteq> None"
    using schedule_current [OF s'(1)] assms(2) by (simp add: f)
  then show ?thesis
    using s' run only_switch_fields [OF s'(3)] by (simp add: f)
next
  case False
  have "stat (threads s c) = RT_THREAD_READY" using kinv_current [OF assms] by simp
  then have "tlist (threads s c) = Some (Ready_Row (prio s c))" using core_ready(1) [OF kinv0_core [OF kinv_kinv0 [OF assms(1)]]] by simp
  then have "rt_thread_yield s = Some s" using False assms(2) by (simp add: rt_thread_yield_def)
  then show ?thesis using assms by simp
qed

section \<open>Time slice\<close>

lemma slice_ok:
  assumes "kinv s" "rt_current_thread s = Some c"
  shows "\<exists>s'. time_slice s = Some s' \<and> kinv s' \<and> (tops s \<longrightarrow> tops s') \<and> ktimers s' = ktimers s \<and>
    mutexes s' = mutexes s \<and> results s' = results s \<and> rt_current_thread s' \<noteq> None \<and>
    (\<forall>u. stat (threads s' u) = stat (threads s u) \<and> tlist (threads s' u) = tlist (threads s u))"
proof -
  have upd: "kinv (upd_thread c f s) \<and> (tops s \<longrightarrow> tops (upd_thread c f s))"
    if "f = (\<lambda>th. th\<lparr> remaining_tick := g th \<rparr>)" for f g
  proof -
    have "inside_ok (threads s c) c (mutexes s)" using assms(1) by (simp add: kinv_def kinv0_def)
    then have "kinv0 (upd_thread c f s)"
      by (intro kinv0_thread) (use assms(1) that in \<open>simp_all add: inside_ok_def\<close>)
    moreover have "tops (upd_thread c f s)" if "tops s"
      by (rule tops_cong [OF that]) (simp_all add: \<open>f = _\<close>)
    ultimately show ?thesis using kinv_thread [OF assms(1)] that by simp
  qed
  define s1 where "s1 = upd_thread c (\<lambda>th. th\<lparr> remaining_tick := remaining_tick th - 1 \<rparr>) s"
  have k1: "kinv s1" "tops s \<longrightarrow> tops s1" using upd [OF refl, of "\<lambda>th. remaining_tick th - 1"] by (simp_all add: s1_def)
  have ts: "time_slice s = (if remaining_tick (threads s1 c) = 0
      then rt_thread_yield (upd_thread c (\<lambda>th. th\<lparr> remaining_tick := th_init_tick th \<rparr>) s1) else Some s1)"
    using assms(2) by (simp add: time_slice_def Let_def s1_def)
  show ?thesis
  proof (cases "remaining_tick (threads s1 c) = 0")
    case False
    then have "time_slice s = Some s1" using ts by simp
    then show ?thesis using k1 assms(2) by (simp add: s1_def)
  next
    case True
    define s2 where "s2 = upd_thread c (\<lambda>th. th\<lparr> remaining_tick := th_init_tick th \<rparr>) s1"
    have e: "s2 = upd_thread c (\<lambda>th. th\<lparr> remaining_tick := th_init_tick th \<rparr>) s" by (simp add: s2_def s1_def upd_thread_def)
    have k2: "kinv s2" "tops s \<longrightarrow> tops s2" using upd [OF refl, of th_init_tick] by (simp_all add: e)
    have c2: "rt_current_thread s2 = Some c" using assms(2) by (simp add: e)
    have "time_slice s = rt_thread_yield s2"
      using True ts by (simp add: s2_def)
    then show ?thesis using yield_ok [OF k2(1) c2] k2(2) by (auto simp: e)
  qed
qed

text \<open>The time slice and the timers do not touch each other.\<close>

lemma upd_timers_commute: "upd_thread t f (s\<lparr> ktimers := k \<rparr>) = (upd_thread t f s)\<lparr> ktimers := k \<rparr>"
  by (simp add: upd_thread_def)

lemma highest_commute [simp]: "highest_ready (s\<lparr> ktimers := k \<rparr>) = highest_ready s"
  by (simp add: highest_ready_def)

lemma schedule_commute: "rt_schedule (s\<lparr> ktimers := k \<rparr>) = map_option (\<lambda>s. s\<lparr> ktimers := k \<rparr>) (rt_schedule s)"
  by (cases "highest_ready s") (simp_all add: rt_schedule_def)

lemma remove_commute: "rt_list_remove t (s\<lparr> ktimers := k \<rparr>) = (rt_list_remove t s)\<lparr> ktimers := k \<rparr>"
  by (simp add: rt_list_remove_def upd_thread_def split: option.split)

lemma insert_commute:
  "rt_list_insert_before q t (s\<lparr> ktimers := k \<rparr>) = map_option (\<lambda>s. s\<lparr> ktimers := k \<rparr>) (rt_list_insert_before q t s)"
  by (simp add: rt_list_insert_before_def link_def upd_thread_def)

lemma yield_commute: "rt_thread_yield (s\<lparr> ktimers := k \<rparr>) = map_option (\<lambda>s. s\<lparr> ktimers := k \<rparr>) (rt_thread_yield s)"
proof (cases "rt_current_thread s")
  case (Some c)
  have p: "prio (s\<lparr> ktimers := k \<rparr>) c = prio s c" by (simp add: prio_def)
  show ?thesis
  proof (cases "tlist (threads s c)")
    case None
    then show ?thesis by (simp add: rt_thread_yield_def Some)
  next
    case q: (Some q)
    show ?thesis
      by (cases "rt_list_insert_before (Ready_Row (prio s c)) c (rt_list_remove c s)")
        (simp_all add: rt_thread_yield_def Some q p remove_commute insert_commute schedule_commute)
  qed
qed (simp add: rt_thread_yield_def)

lemma slice_commute: "time_slice (s\<lparr> ktimers := k \<rparr>) = map_option (\<lambda>s. s\<lparr> ktimers := k \<rparr>) (time_slice s)"
  by (cases "rt_current_thread s") (simp_all add: time_slice_def Let_def upd_timers_commute yield_commute)

section \<open>Time-outs\<close>

definition timed_out :: "thread_id \<Rightarrow> kernel \<Rightarrow> kernel" where
  "timed_out t s = woken t (upd_thread t (th_error_update (\<lambda>_. RT_ETIMEOUT)) s)"

lemma timeout_ok:
  assumes "kinv s" "stat (threads s t) = RT_THREAD_SUSPEND" "t \<notin> set (rt_timer_list (ktimers s))" "rt_current_thread s \<noteq> None"
  obtains s' where "rt_thread_timeout t s = Some s'" "kinv s'" "tops s'" "ktimers s' = ktimers s" "mutexes s' = mutexes s"
    "results s' = results s" "rt_current_thread s' \<noteq> None" "stat (threads s' t) = RT_THREAD_READY" "\<forall>u. u \<noteq> t \<longrightarrow> threads s' u = threads s u"
proof -
  have k: "kinv0 s" "idle_ready s" using assms(1,4) kinv_current by (auto simp: kinv_def)
  define s0 where "s0 = upd_thread t (th_error_update (\<lambda>_. RT_ETIMEOUT)) s"
  have k0: "kinv0 s0"
    unfolding s0_def by (rule kinv0_thread [OF k(1)]) (auto simp: inside_ok_def)
  have f0: "stat (threads s0 t) = RT_THREAD_SUSPEND" "t \<notin> set (rt_timer_list (ktimers s0))" "th_error (threads s0 t) = RT_ETIMEOUT"
    using assms(2,3) by (simp_all add: s0_def)
  have w: "wakeable t s0" by (rule suspended_wakeable(1) [OF kinv0_core [OF k0] f0(1,2)])
  have run: "rt_thread_timeout t s = rt_schedule (woken t s0)"
    using assms(2) woken_form(1) [OF w] by (simp add: rt_thread_timeout_def flip: s0_def)
  have kw: "kinv0 (woken t s0)"
    by (rule woken_kinv0 [OF w]) (use k0 f0 in \<open>auto simp: kinv0_def\<close>)
  have cw: "current_ok (woken t s0)" "idle_ready (woken t s0)"
    using assms(1) k(2) by (auto simp: kinv_def current_ok_def s0_def)
  obtain s' where s': "rt_schedule (woken t s0) = Some s'" "kinv s'" "only_switch (woken t s0) s'" "tops s'"
    by (rule schedule_ok [OF kw cw(2)]) (use cw(1) in simp)
  have "rt_current_thread s' \<noteq> None"
    using schedule_current [OF s'(1)] assms(4) by (simp add: s0_def)
  moreover have "stat (threads s' t) = RT_THREAD_READY" "\<forall>u. u \<noteq> t \<longrightarrow> threads s' u = threads s u" "ktimers s' = ktimers s"
    "mutexes s' = mutexes s" "results s' = results s"
    using only_switch_fields [OF s'(3)] by (simp_all add: s0_def)
  moreover have "rt_thread_timeout t s = Some s'" using run s'(1) by simp
  ultimately show thesis using that s'(2,4) by blast
qed

lemma timeouts_ok:
  assumes "kinv s" "\<forall>t \<in> set ts. stat (threads s t) = RT_THREAD_SUSPEND \<and> t \<notin> set (rt_timer_list (ktimers s))" "distinct ts"
    "rt_current_thread s \<noteq> None"
  shows "\<exists>s'. thread_timeouts ts s = Some s' \<and> kinv s' \<and> (tops s \<longrightarrow> tops s') \<and> ktimers s' = ktimers s \<and> mutexes s' = mutexes s \<and>
    results s' = results s \<and> rt_current_thread s' \<noteq> None \<and> (\<forall>t \<in> set ts. stat (threads s' t) = RT_THREAD_READY) \<and> (\<forall>u. u \<notin> set ts \<longrightarrow> threads s' u = threads s u)"
  using assms
proof (induction ts arbitrary: s)
  case (Cons t ts)
  obtain s1 where s1: "rt_thread_timeout t s = Some s1" "kinv s1" "tops s1" "ktimers s1 = ktimers s" "mutexes s1 = mutexes s"
    "results s1 = results s" "rt_current_thread s1 \<noteq> None" "stat (threads s1 t) = RT_THREAD_READY" "\<forall>u. u \<noteq> t \<longrightarrow> threads s1 u = threads s u"
    by (rule timeout_ok [OF Cons.prems(1), of t]) (use Cons.prems in auto)
  have m: "\<forall>u \<in> set ts. stat (threads s1 u) = RT_THREAD_SUSPEND \<and> u \<notin> set (rt_timer_list (ktimers s1))" "distinct ts" "t \<notin> set ts"
    using Cons.prems(2,3) s1(4,9) by auto
  obtain s2 where s2: "thread_timeouts ts s1 = Some s2" "kinv s2" "tops s1 \<longrightarrow> tops s2" "ktimers s2 = ktimers s1" "mutexes s2 = mutexes s1"
    "results s2 = results s1" "rt_current_thread s2 \<noteq> None" "\<forall>t \<in> set ts. stat (threads s2 t) = RT_THREAD_READY" "\<forall>u. u \<notin> set ts \<longrightarrow> threads s2 u = threads s1 u"
    using Cons.IH [OF s1(2) m(1,2) s1(7)] by blast
  show ?case using s1 s2 m(3) by (intro exI [of _ s2]) auto
qed simp

lemma tick_ok:
  assumes "kinv s" "rt_current_thread s = Some c"
  obtains s' where "tick_increase s = Some s'" "kinv s'" "tops s \<longrightarrow> tops s'" "mutexes s' = mutexes s" "results s' = results s"
    "\<forall>x n. asleep n x s \<longrightarrow> (if n = 1 then stat (threads s' x) = RT_THREAD_READY else asleep (n - 1) x s')"
    "rt_tick (ktimers s') = rt_tick (ktimers s) + 1"
proof -
  obtain s1 where s1: "time_slice s = Some s1" "kinv s1" "tops s \<longrightarrow> tops s1" "ktimers s1 = ktimers s" "mutexes s1 = mutexes s"
    "results s1 = results s" "rt_current_thread s1 \<noteq> None"
    "\<forall>u. stat (threads s1 u) = stat (threads s u) \<and> tlist (threads s1 u) = tlist (threads s u)"
    using slice_ok [OF assms] by blast
  define k0 where "k0 = (ktimers s)\<lparr> timeouts := [] \<rparr>"
  have d0: "due k0 t = due (ktimers s) t" for t by (simp add: due_def k0_def)
  have l0: "rt_timer_list k0 = rt_timer_list (ktimers s)" "timeouts k0 = []" "rt_tick k0 = rt_tick (ktimers s)" by (simp_all add: k0_def)
  have wt: "wtimers (ktimers s)" "\<forall>t \<in> set (rt_timer_list (ktimers s)). stat (threads s t) = RT_THREAD_SUSPEND"
    using kinv0D(7,8) [OF kinv_kinv0 [OF assms(1)]] by auto
  then have w0: "wtimers k0" by (simp add: wtimers_def linv_def d0 l0(1) cong: map_cong) (simp add: k0_def)
  obtain tm where tm: "rt_timer_check (\<lambda>_. []) (k0\<lparr> rt_tick := rt_tick k0 + 1 \<rparr>) = Some tm" "wtimers tm" "rt_tick tm = rt_tick k0 + 1"
    "timeouts tm = timeouts k0 @ map (\<lambda>t. (rt_tick k0 + 1, t)) (filter (\<lambda>t. due k0 t = 1) (rt_timer_list k0))"
    "rt_timer_list tm = filter (\<lambda>t. due k0 t \<noteq> 1) (rt_timer_list k0)" "\<forall>t \<in> set (rt_timer_list tm). due tm t = due k0 t - 1"
    by (rule tick_timers [OF w0])
  define ts where "ts = filter (\<lambda>t. due (ktimers s) t = 1) (rt_timer_list (ktimers s))"
  have ts: "map snd (timeouts tm) = ts" using tm(4) by (simp add: l0 d0 ts_def comp_def)
  define s2 where "s2 = s1\<lparr> ktimers := tm \<rparr>"
  have "timers_ok tm (threads s1)" using tm(2,5) wt(2) s1(8) by (auto simp: timers_ok_def l0)
  then have "kinv0 s2" unfolding s2_def by (intro kinv0_timers) (use s1(2) in auto)
  then have k2: "kinv s2" using s1(2) by (simp add: kinv_def current_ok_def s2_def)
  have m2: "\<forall>t \<in> set ts. stat (threads s2 t) = RT_THREAD_SUSPEND \<and> t \<notin> set (rt_timer_list (ktimers s2))"
    using wt(2) s1(8) tm(5) by (auto simp: ts_def s2_def l0 d0)
  have dts: "distinct ts" using wt(1) by (simp add: ts_def wtimers_def linv_def)
  have c2: "rt_current_thread s2 \<noteq> None" using s1(7) by (simp add: s2_def)
  obtain s3 where s3: "thread_timeouts ts s2 = Some s3" "kinv s3" "tops s2 \<longrightarrow> tops s3" "ktimers s3 = ktimers s2" "mutexes s3 = mutexes s2"
    "results s3 = results s2" "\<forall>t \<in> set ts. stat (threads s3 t) = RT_THREAD_READY" "\<forall>u. u \<notin> set ts \<longrightarrow> threads s3 u = threads s2 u"
    using timeouts_ok [OF k2 m2 dts c2] by blast
  have k00: "(ktimers s)\<lparr> rt_tick := rt_tick (ktimers s) + 1, timeouts := [] \<rparr> = k0\<lparr> rt_tick := rt_tick k0 + 1 \<rparr>" by (simp add: k0_def)
  have "tick_increase s = Some s3"
    unfolding tick_increase_def Let_def k00 slice_commute s1(1)
    using tm(1) ts s3(1) by (simp add: s2_def)
  moreover have "tops s \<longrightarrow> tops s3"
    using s1(3) s3(3) tops_cong [of s1 s2] by (simp add: s2_def)
  moreover have "if n = 1 then stat (threads s3 x) = RT_THREAD_READY else asleep (n - 1) x s3" if "asleep n x s" for n x
  proof -
    have x: "sleeper s x" "x \<in> set (rt_timer_list (ktimers s))" "due (ktimers s) x = n" using that by (simp_all add: asleep_def)
    show ?thesis
    proof (cases "n = 1")
      case True
      then show ?thesis using x s3(7) by (simp add: ts_def)
    next
      case False
      then have xt: "x \<notin> set ts" "x \<in> set (rt_timer_list tm)" using x by (simp_all add: ts_def tm(5) l0 d0)
      then have "due tm x = n - 1" using tm(6) x(3) by (simp add: d0)
      then show ?thesis using False x(1) xt s3(4,8) s1(8) by (simp add: asleep_def sleeper_def s2_def)
    qed
  qed
  moreover have "mutexes s3 = mutexes s" "results s3 = results s" "rt_tick (ktimers s3) = rt_tick (ktimers s) + 1"
    using s3(4-6) s1(5,6) tm(3) by (simp_all add: s2_def l0)
  ultimately show thesis using that s3(2) by blast
qed

end
