(* ===== verification/Rt_Kernel_Objects.thy ===== *)
theory Rt_Kernel_Objects
  imports Rt_Kernel_Tick
begin

text \<open>
  Semaphores, mutexes and event flags: their calls keep the invariant; a mutex is handed on only by its owner, and a
  call that reports success to a thread has made it the owner.
\<close>

section \<open>Effects of a call\<close>

definition keeps :: "(nat \<times> thread_id) set \<Rightarrow> kernel \<Rightarrow> kernel \<Rightarrow> bool" where
  "keeps F s s' \<longleftrightarrow> (\<forall>k t. (k, t) \<notin> F \<longrightarrow> mutex_owner (mutexes s k) = Some t \<longrightarrow> mutex_owner (mutexes s' k) = Some t)"

definition log_ok :: "kernel \<Rightarrow> kernel \<Rightarrow> bool" where
  "log_ok s s' \<longleftrightarrow> (\<exists>new. results s' = results s @ new \<and>
     (\<forall>t k. (t, In_Mutex k, RT_EOK) \<in> set new \<longrightarrow> mutex_owner (mutexes s' k) = Some t))"

definition kcall_ok :: "thread_id set \<Rightarrow> (nat \<times> thread_id) set \<Rightarrow> bool \<Rightarrow> kernel \<Rightarrow> kernel option \<Rightarrow> bool" where
  "kcall_ok X F P s r \<longleftrightarrow> (\<exists>s'. r = Some s' \<and> kinv s' \<and> still X s s' \<and> keeps F s s' \<and> log_ok s s' \<and> (P \<longrightarrow> tops s'))"

lemma keeps_same: "mutexes s' = mutexes s \<Longrightarrow> keeps F s s'"
  by (simp add: keeps_def)

lemma log_same: "results s' = results s \<Longrightarrow> log_ok s s'"
  by (simp add: log_ok_def)

lemma step_kcall: "step_ok X P s r \<Longrightarrow> kcall_ok X F P s r"
  by (auto simp: step_ok_def kcall_ok_def intro: keeps_same log_same)

lemma kcall_okI:
  "kinv s' \<Longrightarrow> still X s s' \<Longrightarrow> keeps F s s' \<Longrightarrow> log_ok s s' \<Longrightarrow> (P \<Longrightarrow> tops s') \<Longrightarrow> kcall_ok X F P s (Some s')"
  by (simp add: kcall_ok_def)

lemma step_ok_from:
  assumes "still X s s1" "mutexes s1 = mutexes s" "results s1 = results s" "step_ok X P s1 r"
  shows "step_ok X P s r"
  using assms still_trans by (fastforce simp: step_ok_def)

lemma log_fields [simp]:
  "threads (log_result t c e s) = threads s" "queues (log_result t c e s) = queues s"
  "ready_priority_group (log_result t c e s) = ready_priority_group s" "rt_current_thread (log_result t c e s) = rt_current_thread s"
  "lock_nest (log_result t c e s) = lock_nest s" "sems (log_result t c e s) = sems s" "mutexes (log_result t c e s) = mutexes s"
  "events (log_result t c e s) = events s" "ktimers (log_result t c e s) = ktimers s"
  "results (log_result t c e s) = results s @ [(t, c, e)]"
  by (simp_all add: log_result_def)

lemma upd_sem_fields [simp]:
  "threads (upd_sem k f s) = threads s" "queues (upd_sem k f s) = queues s" "ready_priority_group (upd_sem k f s) = ready_priority_group s"
  "rt_current_thread (upd_sem k f s) = rt_current_thread s" "lock_nest (upd_sem k f s) = lock_nest s"
  "sems (upd_sem k f s) = (sems s)(k := f (sems s k))" "mutexes (upd_sem k f s) = mutexes s" "events (upd_sem k f s) = events s"
  "ktimers (upd_sem k f s) = ktimers s" "results (upd_sem k f s) = results s"
  by (simp_all add: upd_sem_def)

lemma upd_mutex_fields [simp]:
  "threads (upd_mutex k f s) = threads s" "queues (upd_mutex k f s) = queues s" "ready_priority_group (upd_mutex k f s) = ready_priority_group s"
  "rt_current_thread (upd_mutex k f s) = rt_current_thread s" "lock_nest (upd_mutex k f s) = lock_nest s" "sems (upd_mutex k f s) = sems s"
  "mutexes (upd_mutex k f s) = (mutexes s)(k := f (mutexes s k))" "events (upd_mutex k f s) = events s"
  "ktimers (upd_mutex k f s) = ktimers s" "results (upd_mutex k f s) = results s"
  by (simp_all add: upd_mutex_def)

lemma upd_event_fields [simp]:
  "threads (upd_event k f s) = threads s" "queues (upd_event k f s) = queues s" "ready_priority_group (upd_event k f s) = ready_priority_group s"
  "rt_current_thread (upd_event k f s) = rt_current_thread s" "lock_nest (upd_event k f s) = lock_nest s" "sems (upd_event k f s) = sems s"
  "mutexes (upd_event k f s) = mutexes s" "events (upd_event k f s) = (events s)(k := f (events s k))"
  "ktimers (upd_event k f s) = ktimers s" "results (upd_event k f s) = results s"
  by (simp_all add: upd_event_def)

lemma kinv_log [simp]: "kinv (log_result t c e s) \<longleftrightarrow> kinv s"
  using kinv0_cong [of "log_result t c e s" s] by (simp add: kinv_def current_ok_def)

lemma tops_log [simp]: "tops (log_result t c e s) \<longleftrightarrow> tops s"
  by (simp add: tops_def top_def prio_def)

lemma still_log [simp]: "still X s (log_result t c e s') \<longleftrightarrow> still X s s'"
  by (simp add: still_def calm_def)

lemma log_ok_log:
  assumes "results s' = results s" "\<And>k. c = In_Mutex k \<Longrightarrow> e = RT_EOK \<Longrightarrow> mutex_owner (mutexes s' k) = Some t"
  shows "log_ok s (log_result t c e s')"
  using assms by (auto simp: log_ok_def)

section \<open>Queue heads\<close>

lemma head_resume:
  assumes "kinv0 s" "queues s q = t # ts" "wait_queue q"
    "\<And>k. q = Mutex_Queue k \<Longrightarrow> th_error (threads s t) = RT_EOK \<Longrightarrow> mutex_owner (mutexes s k) = Some t"
  shows "rt_thread_resume t s = Some (resumed t s, RT_EOK)" "kinv0 (resumed t s)" "still X s (resumed t s)" "queues (resumed t s) q = ts"
proof -
  have k: "core s" by (rule kinv0_core [OF assms(1)])
  have t: "stat (threads s t) = RT_THREAD_SUSPEND" "tlist (threads s t) = Some q"
    using core_place(1,3) [OF k, of t q] assms(2,3) by simp_all
  show "rt_thread_resume t s = Some (resumed t s, RT_EOK)" by (rule resume_core(1) [OF k t(1)])
  show "kinv0 (resumed t s)" by (rule resume_kinv0 [OF assms(1) t(1)]) (use t(2) assms(4) in auto)
  show "still X s (resumed t s)" by (rule still_resumed [OF k]) (simp add: sleeper_def t)
  have "distinct (t # ts)" using links_distinct [OF coreD(1) [OF k], of q] assms(2) by simp
  then show "queues (resumed t s) q = ts" using assms(2) by (simp add: resumed_queue [OF assms(3)])
qed

lemma resume_all_ok:
  assumes "kinv0 s" "wait_queue q"
  shows "\<exists>s'. rt_ipc_list_resume_all q s = Some s' \<and> kinv0 s' \<and> still X s s' \<and> queues s' q = [] \<and> (current_ok s \<longrightarrow> current_ok s') \<and>
    (idle_ready s \<longrightarrow> idle_ready s') \<and> mutexes s' = mutexes s \<and> results s' = results s \<and> rt_current_thread s' = rt_current_thread s \<and>
    lock_nest s' = lock_nest s \<and> (queues s q = [] \<longrightarrow> s' = s)"
  using assms(1)
proof (induction "length (queues s q)" arbitrary: s)
  case 0
  then show ?case by (subst rt_ipc_list_resume_all.simps) simp
next
  case (Suc n)
  then obtain t ts where q: "queues s q = t # ts" by (cases "queues s q") auto
  define s0 where "s0 = upd_thread t (th_error_update (\<lambda>_. RT_ERROR)) s"
  have k0: "kinv0 s0" unfolding s0_def by (rule kinv0_thread [OF Suc.prems]) (simp_all add: inside_ok_def)
  have q0: "queues s0 q = t # ts" "th_error (threads s0 t) \<noteq> RT_EOK" by (simp_all add: s0_def q)
  note h = head_resume [OF k0 q0(1) assms(2)]
  have r: "rt_thread_resume t s0 = Some (resumed t s0, RT_EOK)" "kinv0 (resumed t s0)" "still X s0 (resumed t s0)" "queues (resumed t s0) q = ts"
    using h q0(2) by auto
  have n: "n = length (queues (resumed t s0) q)" using Suc.hyps(2) q r(4) by simp
  obtain s' where s': "rt_ipc_list_resume_all q (resumed t s0) = Some s'" "kinv0 s'" "still X (resumed t s0) s'" "queues s' q = []"
    "current_ok (resumed t s0) \<longrightarrow> current_ok s'" "idle_ready (resumed t s0) \<longrightarrow> idle_ready s'" "mutexes s' = mutexes (resumed t s0)"
    "results s' = results (resumed t s0)" "rt_current_thread s' = rt_current_thread (resumed t s0)" "lock_nest s' = lock_nest (resumed t s0)"
    using Suc.hyps(1) [OF n r(2)] by blast
  have "rt_ipc_list_resume_all q s = Some s'"
    using q r(1) s'(1) by (subst rt_ipc_list_resume_all.simps) (simp flip: s0_def)
  moreover have "still X s s0" by (auto simp: still_def calm_def s0_def)
  then have "still X s s'" using still_trans r(3) s'(3) by blast
  moreover have "current_ok s \<longrightarrow> current_ok (resumed t s0)" "idle_ready s \<longrightarrow> idle_ready (resumed t s0)"
    by (auto simp: current_ok_def s0_def)
  ultimately show ?case using s' q by (simp add: s0_def)
qed

section \<open>Semaphores\<close>

lemma error_reset:
  assumes "kinv s" "rt_current_thread s = Some t" "th_inside (threads s t) = None"
  shows "kinv0 (upd_thread t (th_error_update (\<lambda>_. e)) s)" "still X s (upd_thread t (th_error_update (\<lambda>_. e)) s)"
    "kinv (upd_thread t (th_error_update (\<lambda>_. e)) s)" "tops s \<Longrightarrow> tops (upd_thread t (th_error_update (\<lambda>_. e)) s)"
proof -
  show k: "kinv0 (upd_thread t (th_error_update (\<lambda>_. e)) s)"
    by (rule kinv0_thread [OF kinv_kinv0 [OF assms(1)]]) (simp_all add: inside_ok_def assms(3))
  show "still X s (upd_thread t (th_error_update (\<lambda>_. e)) s)" by (simp add: still_def calm_def)
  show "kinv (upd_thread t (th_error_update (\<lambda>_. e)) s)" by (rule kinv_thread [OF assms(1) k]) simp
  show "tops (upd_thread t (th_error_update (\<lambda>_. e)) s)" if "tops s" by (rule tops_cong [OF that]) simp_all
qed

lemma kinv0_sem:
  assumes "kinv0 s" "0 < sem_value (f (sems s k)) \<Longrightarrow> queues s (Sem_Queue k) = []"
  shows "kinv0 (upd_sem k f s)"
proof -
  have o: "objects_ok s" using assms(1) by (simp add: kinv0_def)
  have "0 < sem_value (sems (upd_sem k f s) j) \<longrightarrow> queues s (Sem_Queue j) = []" for j
    using o assms(2) unfolding objects_ok_def upd_sem_fields by (cases "j = k") auto
  then have "objects_ok (upd_sem k f s)" using o unfolding objects_ok_def upd_sem_fields by blast
  then show ?thesis using assms(1) by (simp add: kinv0_def core_def)
qed

lemma sem_take_ok:
  assumes "kinv s" "rt_current_thread s = Some t" "sem_value (sems s k) \<noteq> 0 \<or> time = 0 \<or> may_block s \<and> time_ok time"
    "th_inside (threads s t) = None"
  shows "kcall_ok X F (tops s) s (rt_sem_take k time s)"
proof -
  have r: "stat (threads s t) = RT_THREAD_READY" "idle_ready s" using kinv_current [OF assms(1,2)] by simp_all
  consider "0 < sem_value (sems s k)" | "sem_value (sems s k) = 0" "time = 0"
    | "sem_value (sems s k) = 0" "time \<noteq> 0" "may_block s" "time_ok time"
    using assms(3) by (cases "sem_value (sems s k) = 0") (auto simp: word_gt_0)
  then show ?thesis
  proof cases
    case 1
    define s1 where "s1 = upd_sem k (\<lambda>m. m\<lparr> sem_value := sem_value m - 1 \<rparr>) s"
    have "queues s (Sem_Queue k) = []" using assms(1) 1 by (simp add: kinv_def kinv0_def objects_ok_def)
    then have "kinv s1" using assms(1) unfolding s1_def by (auto simp: kinv_def current_ok_def intro: kinv0_sem)
    moreover have "tops s1" if "tops s" by (rule tops_cong [OF that]) (simp_all add: s1_def)
    ultimately have "kcall_ok X F (tops s) s (Some (log_result t (In_Sem k) RT_EOK s1))"
      by (intro kcall_okI) (auto simp: s1_def intro: still_same keeps_same log_ok_log)
    then show ?thesis using 1 assms(2) by (simp add: rt_sem_take_def s1_def)
  next
    case 2
    have "kcall_ok X F (tops s) s (Some (log_result t (In_Sem k) RT_ETIMEOUT s))"
      using assms(1) by (intro kcall_okI) (auto intro: still_same keeps_same log_ok_log)
    then show ?thesis using 2 assms(2) by (simp add: rt_sem_take_def)
  next
    case 3
    define s1 where "s1 = upd_thread t (th_error_update (\<lambda>_. RT_EOK)) s"
    have k1: "kinv0 s1" "still X s s1" unfolding s1_def by (rule error_reset [OF assms(1,2,4)])+
    have run: "rt_sem_take k time s = wait_in (Sem_Queue k) (In_Sem k) t (sem_prio (sems s k)) time s1"
      using 3 assms(2) by (simp add: rt_sem_take_def s1_def)
    have "step_ok X (tops s) s1 (wait_in (Sem_Queue k) (In_Sem k) t (sem_prio (sems s k)) time s1)"
      by (rule wait_ok [OF k1(1)]) (use 3 r assms(2) in \<open>auto simp: s1_def may_block_def\<close>)
    then show ?thesis unfolding run by (intro step_kcall step_ok_from [OF k1(2)]) (simp_all add: s1_def)
  qed
qed

lemma sem_release_ok:
  assumes "kinv s" "rt_current_thread s \<noteq> None"
  shows "step_ok X (tops s) s (rt_sem_release k s)"
proof (cases "queues s (Sem_Queue k)")
  case Nil
  define s1 where "s1 = upd_sem k (\<lambda>m. m\<lparr> sem_value := sem_value m + 1 \<rparr>) s"
  have "kinv s1" using assms(1) Nil unfolding s1_def by (auto simp: kinv_def current_ok_def intro: kinv0_sem)
  moreover have "tops s1" if "tops s" by (rule tops_cong [OF that]) (simp_all add: s1_def)
  ultimately show ?thesis
    using Nil by (simp add: rt_sem_release_def flip: s1_def) (rule step_okI, auto simp: s1_def intro: still_same)
next
  case (Cons t ts)
  have k: "kinv0 s" "current_ok s" "idle_ready s" using assms kinv_current by (auto simp: kinv_def)
  have h: "rt_thread_resume t s = Some (resumed t s, RT_EOK)" "kinv0 (resumed t s)" "still X s (resumed t s)"
    using head_resume [OF k(1) Cons] by auto
  have "rt_sem_release k s = rt_schedule (resumed t s)"
    using Cons h(1) by (simp add: rt_sem_release_def rt_ipc_list_resume_def)
  moreover have "idle_ready (resumed t s)" using k(3) by simp
  ultimately show ?thesis
    using then_schedule [OF h(2) _ _ h(3)] resumed_current_ok [OF k(2)] by simp
qed

lemma sem_reset_ok:
  assumes "kinv s" "rt_current_thread s \<noteq> None"
  shows "step_ok X P s (sem_reset k v s)"
proof -
  have k: "kinv0 s" "current_ok s" "idle_ready s" using assms kinv_current by (auto simp: kinv_def)
  obtain s1 where s1: "rt_ipc_list_resume_all (Sem_Queue k) s = Some s1" "kinv0 s1" "still X s s1" "queues s1 (Sem_Queue k) = []"
    "current_ok s1" "idle_ready s1" "mutexes s1 = mutexes s" "results s1 = results s"
    using resume_all_ok [OF k(1), of "Sem_Queue k" X] k(2,3) by auto
  define s2 where "s2 = upd_sem k (\<lambda>m. m\<lparr> sem_value := ucast v \<rparr>) s1"
  have "kinv0 s2" unfolding s2_def by (rule kinv0_sem [OF s1(2)]) (rule s1(4))
  moreover have "still X s s2" by (rule still_trans [OF s1(3)], rule still_same) (simp_all add: s2_def)
  moreover have "current_ok s2" "idle_ready s2" using s1(5,6) by (simp_all add: s2_def current_ok_def)
  ultimately have "step_ok X P s (rt_schedule s2)" by (intro then_schedule) (simp_all add: s2_def s1)
  then show ?thesis by (simp add: sem_reset_def s1(1) s2_def)
qed

lemma detach_ok:
  assumes "kinv s" "wait_queue q"
  shows "step_ok X False s (rt_ipc_list_resume_all q s)"
  using resume_all_ok [OF kinv_kinv0 [OF assms(1)] assms(2), of X] assms(1) by (auto simp: step_ok_def kinv_def)

end
