(* ===== verification/Rt_Kernel_Mutex.thy ===== *)
theory Rt_Kernel_Mutex
  imports Rt_Kernel_Objects
begin

text \<open>
  The mutex calls, with the change of the owner's priority, and the ends of blocking calls.
\<close>

section \<open>Taking\<close>

lemma kinv0_mutex:
  assumes "kinv0 s" "mutex_ok (f (mutexes s k)) (queues s (Mutex_Queue k)) (threads s)"
    "\<And>u. mutex_owner (mutexes s k) = Some u \<Longrightarrow> mutex_owner (f (mutexes s k)) \<noteq> Some u \<Longrightarrow> th_inside (threads s u) \<noteq> Some (In_Mutex k)"
  shows "kinv0 (upd_mutex k f s)"
proof -
  have o: "objects_ok s" and i: "\<And>u. inside_ok (threads s u) u (mutexes s)" using assms(1) by (simp_all add: kinv0_def)
  have "mutex_ok (mutexes (upd_mutex k f s) j) (queues s (Mutex_Queue j)) (threads s)" for j
    using o assms(2) by (simp add: objects_ok_def)
  then have "objects_ok (upd_mutex k f s)" using o unfolding objects_ok_def upd_mutex_fields by blast
  moreover have "inside_ok (threads s u) u (mutexes (upd_mutex k f s))" for u
    unfolding inside_ok_def
  proof (intro allI impI)
    fix j assume a: "th_inside (threads s u) = Some (In_Mutex j)" "stat (threads s u) \<noteq> RT_THREAD_CLOSE"
    then have "tlist (threads s u) = Some (Mutex_Queue j) \<or> th_error (threads s u) \<noteq> RT_EOK \<or> mutex_owner (mutexes s j) = Some u"
      using i [of u] by (simp add: inside_ok_def)
    then show "tlist (threads s u) = Some (Mutex_Queue j) \<or> th_error (threads s u) \<noteq> RT_EOK \<or>
        mutex_owner (mutexes (upd_mutex k f s) j) = Some u"
      using assms(3) [of u] a(1) by auto
  qed
  ultimately show ?thesis using assms(1) by (simp add: kinv0_def core_def)
qed

lemma mutexD: "kinv0 s \<Longrightarrow> mutex_ok (mutexes s k) (queues s (Mutex_Queue k)) (threads s)"
  by (simp add: kinv0_def objects_ok_def)

lemma mutex_take_ok:
  assumes "kinv s" "rt_current_thread s = Some t" "th_inside (threads s t) = None"
    "mutex_owner (mutexes s k) = Some t \<Longrightarrow> mutex_hold (mutexes s k) \<noteq> 255"
    "mutex_owner (mutexes s k) \<noteq> None \<Longrightarrow> mutex_owner (mutexes s k) \<noteq> Some t \<Longrightarrow> time \<noteq> 0 \<Longrightarrow> may_block s \<and> time_ok time"
  shows "kcall_ok X F (tops s) s (rt_mutex_take k time s)"
proof -
  have r: "stat (threads s t) = RT_THREAD_READY" "idle_ready s" using kinv_current [OF assms(1,2)] by simp_all
  define s1 where "s1 = upd_thread t (th_error_update (\<lambda>_. RT_EOK)) s"
  have e: "kinv0 s1" "still X s s1" "kinv s1" "tops s \<Longrightarrow> tops s1"
    unfolding s1_def using error_reset [OF assms(1-3)] by blast+
  have f1: "mutexes s1 = mutexes s" "results s1 = results s" "rt_current_thread s1 = Some t" "queues s1 = queues s" "lock_nest s1 = lock_nest s"
    using assms(2) by (simp_all add: s1_def)
  note m = mutexD [OF e(1), of k]
  have took: "kcall_ok X F (tops s) s (Some (log_result t (In_Mutex k) c (upd_mutex k f s1)))"
    if "mutex_ok (f (mutexes s k)) (queues s (Mutex_Queue k)) (threads s1)" "mutex_owner (f (mutexes s k)) = Some t"
      "mutex_owner (mutexes s k) = None \<or> mutex_owner (mutexes s k) = Some t" for f c
  proof -
    have "kinv0 (upd_mutex k f s1)" by (rule kinv0_mutex [OF e(1)]) (use that f1 in auto)
    then have "kinv (upd_mutex k f s1)" using e(3) by (simp add: kinv_def current_ok_def)
    moreover have "still X s (upd_mutex k f s1)" by (rule still_trans [OF e(2) still_same]) simp_all
    moreover have "keeps F s (upd_mutex k f s1)" using that(2,3) by (auto simp: keeps_def f1)
    moreover have "tops (upd_mutex k f s1)" if "tops s" by (rule tops_cong [OF e(4) [OF that]]) simp_all
    moreover have "log_ok s (log_result t (In_Mutex k) c (upd_mutex k f s1))"
      by (rule log_ok_log) (use that(2) f1 in auto)
    ultimately show ?thesis by (intro kcall_okI) (simp_all add: keeps_def)
  qed
  consider "mutex_owner (mutexes s k) = Some t" | "mutex_owner (mutexes s k) = None"
    | h where "mutex_owner (mutexes s k) = Some h" "h \<noteq> t" by fastforce
  then show ?thesis
  proof cases
    case 1
    have "mutex_hold (mutexes s k) + 1 \<noteq> 0"
    proof
      assume "mutex_hold (mutexes s k) + 1 = 0"
      then have "mutex_hold (mutexes s k) = - 1" by (simp add: eq_neg_iff_add_eq_0)
      then show False using assms(4) [OF 1] by simp
    qed
    then have "mutex_ok ((mutexes s k)\<lparr> mutex_hold := mutex_hold (mutexes s k) + 1 \<rparr>) (queues s (Mutex_Queue k)) (threads s1)"
      using m 1 by (simp add: mutex_ok_def f1)
    then show ?thesis
      using took [of "\<lambda>m. m\<lparr> mutex_hold := mutex_hold m + 1 \<rparr>" RT_EOK] 1 assms(2)
      by (simp add: rt_mutex_take_def Let_def flip: s1_def)
  next
    case 2
    have v: "mutex_value (mutexes s k) = 1" "mutex_hold (mutexes s k) = 0" "queues s (Mutex_Queue k) = []"
      using m 2 by (simp_all add: mutex_ok_def f1)
    have cp: "current_priority (threads s1 t) = current_priority (threads s t)" by (simp add: s1_def)
    have "unat (current_priority (threads s1 t)) < 32" using kinv0D(6) [OF e(1), of t] by (simp add: prio_def)
    then have "mutex_ok ((mutexes s k)\<lparr> mutex_value := mutex_value (mutexes s k) - 1, mutex_owner := Some t,
        original_priority := current_priority (threads s1 t), mutex_hold := mutex_hold (mutexes s k) + 1 \<rparr>) (queues s (Mutex_Queue k)) (threads s1)"
      using v r by (simp add: mutex_ok_def live_def s1_def)
    then show ?thesis
      using took [of "\<lambda>m. m\<lparr> mutex_value := mutex_value m - 1, mutex_owner := Some t,
        original_priority := current_priority (threads s1 t), mutex_hold := mutex_hold m + 1 \<rparr>" RT_EOK] 2 v assms(2)
      by (simp add: rt_mutex_take_def Let_def cp flip: s1_def)
  next
    case 3
    have v: "mutex_value (mutexes s k) = 0" using m 3(1) by (simp add: mutex_ok_def f1)
    show ?thesis
    proof (cases "time = 0")
      case True
      define s2 where "s2 = upd_thread t (th_error_update (\<lambda>_. RT_ETIMEOUT)) s1"
      have i: "th_inside (threads s1 t) = None" using assms(3) by (simp add: s1_def)
      have k2: "kinv s2" "tops s1 \<Longrightarrow> tops s2" "still X s1 s2" unfolding s2_def using error_reset [OF e(3) f1(3) i] by blast+
      have "kcall_ok X F (tops s) s (Some (log_result t (In_Mutex k) RT_ETIMEOUT s2))"
        by (rule kcall_okI) (use k2 e still_trans in \<open>auto simp: s2_def f1 keeps_def intro!: log_ok_log\<close>)
      then show ?thesis
        using True 3 v assms(2) by (simp add: rt_mutex_take_def Let_def s2_def flip: s1_def)
    next
      case False
      then have b: "may_block s" "time_ok time" using assms(5) 3 by auto
      then have tb: "t \<noteq> 0" "lock_nest s = 0" using assms(2) by (auto simp: may_block_def)
      define p where "p = current_priority (threads s1 t)"
      have p: "unat p < 32" using kinv0D(6) [OF e(1), of t] by (simp add: prio_def p_def)
      define s2 where "s2 = (if prio s1 t < prio s1 h then repriced h p s1 else s1)"
      have s2: "(if prio s1 t < prio s1 h then change_priority h p s1 else Some s1) = Some s2" "kinv0 s2" "still X s1 s2"
        using change_priority_form(1,2) [OF e(1) p] still_repriced [OF e(1) p] e(1) by (auto simp: s2_def)
      have f2: "mutexes s2 = mutexes s" "results s2 = results s" "lock_nest s2 = lock_nest s" "stat (threads s2 u) = stat (threads s1 u)" for u
        by (simp_all add: s2_def f1)
      have st: "stat (threads s2 t) = RT_THREAD_READY" "idle_ready s2" using r by (simp_all add: f2) (simp_all add: s1_def)
      have run: "rt_mutex_take k time s = wait_in (Mutex_Queue k) (In_Mutex k) t (mutex_prio (mutexes s k)) time s2"
        using False 3 v assms(2) s2(1) [unfolded p_def]
        by (cases "prio s1 t < prio s1 h") (simp_all add: rt_mutex_take_def Let_def flip: s1_def)
      have "step_ok X (tops s) s2 (wait_in (Mutex_Queue k) (In_Mutex k) t (mutex_prio (mutexes s k)) time s2)"
        by (rule wait_ok [OF s2(2) st tb(1)]) (use tb(2) b(2) 3 in \<open>auto simp: f2\<close>)
      then show ?thesis
        unfolding run by (intro step_kcall step_ok_from [OF still_trans [OF e(2) s2(3)]]) (simp_all add: f2)
    qed
  qed
qed

section \<open>Releasing\<close>

lemma remove_mutex_commute:
  "rt_schedule_remove_thread t (s\<lparr> mutexes := M \<rparr>) = map_option (\<lambda>s. s\<lparr> mutexes := M \<rparr>) (rt_schedule_remove_thread t s)"
  by (simp add: rt_schedule_remove_thread_def Let_def prio_def rt_list_remove_def upd_thread_def split: option.split)

lemma insert_mutex_commute:
  "rt_schedule_insert_thread t (s\<lparr> mutexes := M \<rparr>) = map_option (\<lambda>s. s\<lparr> mutexes := M \<rparr>) (rt_schedule_insert_thread t s)"
  by (simp add: rt_schedule_insert_thread_def prio_def rt_list_insert_before_def link_def upd_thread_def)

lemma upd_thread_mutex_commute: "upd_thread t f (s\<lparr> mutexes := M \<rparr>) = (upd_thread t f s)\<lparr> mutexes := M \<rparr>"
  by (simp add: upd_thread_def)

lemma change_mutex_commute:
  "change_priority t p (s\<lparr> mutexes := M \<rparr>) = map_option (\<lambda>s. s\<lparr> mutexes := M \<rparr>) (change_priority t p s)"
  by (cases "rt_schedule_remove_thread t s")
    (simp_all add: change_priority_def remove_mutex_commute insert_mutex_commute upd_thread_mutex_commute)

text \<open>The release is complete: the mutex goes to the first waiting thread or becomes free.\<close>

lemma hand_on_ok:
  assumes "kinv0 s" "current_ok s" "rt_current_thread s = Some t" "th_inside (threads s t) = None" "mutex_owner (mutexes s k) = Some t"
    "mutex_hold (mutexes s k) = 1"
  defines "rest \<equiv> (case queues s (Mutex_Queue k) of
      h # _ \<Rightarrow> do {
        s4 \<leftarrow> rt_ipc_list_resume (Mutex_Queue k) (upd_mutex k (\<lambda>m. m\<lparr> mutex_owner := Some h,
                original_priority := current_priority (threads s h), mutex_hold := mutex_hold m + 1 \<rparr>)
              (upd_mutex k (\<lambda>m. m\<lparr> mutex_hold := mutex_hold m - 1 \<rparr>) s));
        rt_schedule s4 }
    | [] \<Rightarrow> Some (upd_mutex k (\<lambda>m. m\<lparr> mutex_value := mutex_value m + 1, mutex_owner := None, original_priority := 0xff \<rparr>)
              (upd_mutex k (\<lambda>m. m\<lparr> mutex_hold := mutex_hold m - 1 \<rparr>) s)))"
  shows "kcall_ok X {(k, t)} (queues s (Mutex_Queue k) = [] \<longrightarrow> tops s) s rest"
proof (cases "queues s (Mutex_Queue k)")
  case Nil
  note m = mutexD [OF assms(1), of k]
  define f where "f m = m\<lparr> mutex_hold := mutex_hold m - 1, mutex_value := mutex_value m + 1, mutex_owner := None, original_priority := 0xff \<rparr>" for m :: rt_mutex
  have e: "upd_mutex k (\<lambda>m. m\<lparr> mutex_value := mutex_value m + 1, mutex_owner := None, original_priority := 0xff \<rparr>)
      (upd_mutex k (\<lambda>m. m\<lparr> mutex_hold := mutex_hold m - 1 \<rparr>) s) = upd_mutex k f s"
    by (simp add: upd_mutex_def f_def)
  have "kinv0 (upd_mutex k f s)"
    by (rule kinv0_mutex [OF assms(1)]) (use m Nil assms(4-6) in \<open>auto simp: f_def mutex_ok_def\<close>)
  then have "kinv (upd_mutex k f s)" using assms(2) by (simp add: kinv_def current_ok_def)
  moreover have "tops (upd_mutex k f s)" if "tops s" by (rule tops_cong [OF that]) simp_all
  ultimately show ?thesis
    unfolding rest_def Nil list.case e by (intro kcall_okI) (auto simp: keeps_def assms(5) intro!: still_same log_same)
next
  case (Cons h hs)
  note m = mutexD [OF assms(1), of k]
  have k: "core s" by (rule kinv0_core [OF assms(1)])
  have h: "stat (threads s h) = RT_THREAD_SUSPEND" using core_place(3) [OF k, of h "Mutex_Queue k"] Cons by simp
  have i: "idle_ready s" using assms(2,3) by (auto simp: current_ok_def)
  define f where "f m = m\<lparr> mutex_owner := Some h, original_priority := current_priority (threads s h), mutex_hold := 1 \<rparr>" for m :: rt_mutex
  define s1 where "s1 = upd_mutex k f s"
  have e: "upd_mutex k (\<lambda>m. m\<lparr> mutex_owner := Some h, original_priority := current_priority (threads s h), mutex_hold := mutex_hold m + 1 \<rparr>)
      (upd_mutex k (\<lambda>m. m\<lparr> mutex_hold := mutex_hold m - 1 \<rparr>) s) = s1"
    using assms(6) by (simp add: upd_mutex_def f_def s1_def)
  have p: "unat (current_priority (threads s h)) < 32" using coreD(6) [OF k, of h] by (simp add: prio_def)
  have k1: "kinv0 s1"
    unfolding s1_def by (rule kinv0_mutex [OF assms(1)]) (use m assms(4,5) h p in \<open>auto simp: f_def mutex_ok_def live_def\<close>)
  have q1: "queues s1 (Mutex_Queue k) = h # hs" "mutex_owner (mutexes s1 k) = Some h" using Cons by (simp_all add: s1_def f_def)
  have r: "rt_thread_resume h s1 = Some (resumed h s1, RT_EOK)" "kinv0 (resumed h s1)" "still X s1 (resumed h s1)"
    using head_resume [OF k1 q1(1)] q1(2) by auto
  have c: "current_ok (resumed h s1)" "idle_ready (resumed h s1)"
    using assms(2) i by (auto simp: current_ok_def s1_def)
  have st: "still X s (resumed h s1)" by (rule still_trans [OF still_same r(3)]) (simp_all add: s1_def)
  have run: "rest = rt_schedule (resumed h s1)"
    unfolding rest_def Cons list.case e using q1(1) r(1) by (simp add: rt_ipc_list_resume_def)
  obtain s' where s': "rt_schedule (resumed h s1) = Some s'" "kinv s'" "only_switch (resumed h s1) s'" "tops s'"
    by (rule schedule_ok [OF r(2) c(2)]) (use c(1) in simp)
  have f': "mutexes s' = (mutexes s)(k := f (mutexes s k))" "results s' = results s"
    using only_switch_fields [OF s'(3)] by (simp_all add: s1_def)
  have "still X s s'" by (rule still_trans [OF st still_switch [OF s'(3)]])
  then show ?thesis
    unfolding run s'(1) using s'(2,4) f' assms(5) by (intro kcall_okI) (auto simp: keeps_def intro!: log_same)
qed

lemma mutex_release_ok:
  assumes "kinv s" "rt_current_thread s = Some t" "th_inside (threads s t) = None"
  shows "kcall_ok X {(k, t)} (tops s \<and> (mutex_owner (mutexes s k) = Some t \<and> mutex_hold (mutexes s k) = 1 \<and> queues s (Mutex_Queue k) = [] \<longrightarrow>
      original_priority (mutexes s k) = current_priority (threads s t))) s (rt_mutex_release k s)"
proof (cases "mutex_owner (mutexes s k) = Some t")
  case False
  define s1 where "s1 = upd_thread t (th_error_update (\<lambda>_. RT_ERROR)) s"
  have e: "still X s s1" "kinv s1" "tops s \<Longrightarrow> tops s1"
    unfolding s1_def using error_reset [OF assms] by blast+
  then show ?thesis
    using False assms(2) by (simp add: rt_mutex_release_def flip: s1_def) (rule kcall_okI, auto simp: s1_def intro!: keeps_same log_same)
next
  case True
  have k: "kinv0 s" "current_ok s" using assms(1) by (simp_all add: kinv_def)
  note m = mutexD [OF k(1), of k]
  define dec where "dec m = m\<lparr> mutex_hold := mutex_hold m - 1 \<rparr>" for m :: rt_mutex
  show ?thesis
  proof (cases "mutex_hold (mutexes s k) = 1")
    case False
    then have "mutex_hold (mutexes s k) - 1 \<noteq> 0" by simp
    then have "kinv0 (upd_mutex k dec s)"
      by (intro kinv0_mutex [OF k(1)]) (use m True in \<open>auto simp: dec_def mutex_ok_def\<close>)
    then have "kinv (upd_mutex k dec s)" using k(2) by (simp add: kinv_def current_ok_def)
    moreover have "tops (upd_mutex k dec s)" if "tops s" by (rule tops_cong [OF that]) simp_all
    moreover have "rt_mutex_release k s = Some (upd_mutex k dec s)"
      using True False assms(2) by (simp add: rt_mutex_release_def Let_def dec_def [abs_def])
    ultimately show ?thesis using True by (simp only:) (rule kcall_okI, auto simp: keeps_def dec_def intro!: still_same log_same)
  next
    case hold: True
    define p where "p = original_priority (mutexes s k)"
    have p: "unat p < 32" using m True by (simp add: mutex_ok_def p_def)
    define sp where "sp = (if p \<noteq> current_priority (threads s t) then repriced t p s else s)"
    have sp: "kinv0 sp" "current_ok sp" "still X s sp" "mutexes sp = mutexes s" "results sp = results s" "rt_current_thread sp = rt_current_thread s"
      "th_inside (threads sp t) = None" "queues sp (Mutex_Queue k) = queues s (Mutex_Queue k)"
      using k assms(3) change_priority_form(2,4) [OF k(1) p] still_repriced [OF k(1) p] repriced_current_ok by (auto simp: sp_def)
    have "upd_mutex k dec s = s\<lparr> mutexes := (mutexes s)(k := dec (mutexes s k)) \<rparr>" by (simp add: upd_mutex_def)
    then have ch: "(if p \<noteq> current_priority (threads s t) then change_priority t p (upd_mutex k dec s) else Some (upd_mutex k dec s)) =
        Some (upd_mutex k dec sp)"
      using change_priority_form(1) [OF k(1) p] by (simp add: sp_def change_mutex_commute upd_mutex_def)
    have "rt_mutex_release k s = (if p \<noteq> current_priority (threads s t) then change_priority t p (upd_mutex k dec s) else Some (upd_mutex k dec s)) \<bind>
      (\<lambda>s2. case queues s2 (Mutex_Queue k) of
          h # _ \<Rightarrow> do {
            s4 \<leftarrow> rt_ipc_list_resume (Mutex_Queue k) (upd_mutex k (\<lambda>m. m\<lparr> mutex_owner := Some h,
                    original_priority := current_priority (threads s2 h), mutex_hold := mutex_hold m + 1 \<rparr>) s2);
            rt_schedule s4 }
        | [] \<Rightarrow> Some (upd_mutex k (\<lambda>m. m\<lparr> mutex_value := mutex_value m + 1, mutex_owner := None, original_priority := 0xff \<rparr>) s2))"
      unfolding rt_mutex_release_def Let_def using True hold assms(2) by (simp add: p_def dec_def [abs_def])
    then have run: "rt_mutex_release k s = (case queues sp (Mutex_Queue k) of
      h # _ \<Rightarrow> do {
        s4 \<leftarrow> rt_ipc_list_resume (Mutex_Queue k) (upd_mutex k (\<lambda>m. m\<lparr> mutex_owner := Some h,
                original_priority := current_priority (threads sp h), mutex_hold := mutex_hold m + 1 \<rparr>) (upd_mutex k dec sp));
        rt_schedule s4 }
    | [] \<Rightarrow> Some (upd_mutex k (\<lambda>m. m\<lparr> mutex_value := mutex_value m + 1, mutex_owner := None, original_priority := 0xff \<rparr>)
              (upd_mutex k dec sp)))"
      unfolding ch Option.bind_lunit upd_mutex_fields .
    have "kcall_ok X {(k, t)} (queues sp (Mutex_Queue k) = [] \<longrightarrow> tops sp) sp (rt_mutex_release k s)"
      unfolding run dec_def [abs_def]
      by (rule hand_on_ok) (use sp True hold assms(2) in auto)
    then obtain s' where s': "rt_mutex_release k s = Some s'" "kinv s'" "still X sp s'" "keeps {(k, t)} sp s'" "log_ok sp s'"
      "(queues sp (Mutex_Queue k) = [] \<longrightarrow> tops sp) \<longrightarrow> tops s'"
      by (auto simp: kcall_ok_def)
    moreover have "still X s s'" by (rule still_trans [OF sp(3) s'(3)])
    moreover have "keeps {(k, t)} s s'" "log_ok s s'" using s'(4,5) sp(4,5) by (simp_all add: keeps_def log_ok_def)
    moreover have "tops sp" if "tops s" "queues s (Mutex_Queue k) = [] \<longrightarrow> p = current_priority (threads s t)" "queues s (Mutex_Queue k) = []"
      using that by (simp add: sp_def)
    ultimately show ?thesis
      unfolding s'(1) using sp(8) True hold by (intro kcall_okI) (auto simp: p_def)
  qed
qed

section \<open>The end of a blocking call\<close>

lemma call_end_ok:
  assumes "kinv s" "rt_current_thread s = Some t" "th_inside (threads s t) \<noteq> None"
  shows "kcall_ok X F (tops s) s (call_end s)"
proof -
  obtain c where c: "th_inside (threads s t) = Some c" using assms(3) by blast
  have r: "stat (threads s t) = RT_THREAD_READY" using kinv_current [OF assms(1,2)] by simp
  have k: "kinv0 s" "core s" using assms(1) kinv0_core by auto
  have own: "mutex_owner (mutexes s k) = Some t" if "c = In_Mutex k" "th_error (threads s t) = RT_EOK" for k
  proof -
    have "inside_ok (threads s t) t (mutexes s)" using k(1) by (simp add: kinv0_def)
    then show ?thesis using core_ready(1) [OF k(2) r] r c that by (simp add: inside_ok_def)
  qed
  have u: "kinv (upd_thread t f s)" "tops s \<Longrightarrow> tops (upd_thread t f s)" "still X s (upd_thread t f s)"
    if "f = th_inside_update (\<lambda>_. None) \<or> f = (\<lambda>th. sleep_end (th_inside_update (\<lambda>_. None) th))" for f
  proof -
    have f: "stat (f th) = stat th" "tlist (f th) = tlist th" "current_priority (f th) = current_priority th" "init_priority (f th) = init_priority th"
      "number_mask (f th) = number_mask th" "event_set (f th) = event_set th" "event_info (f th) = event_info th" "th_inside (f th) = None" for th
      using that by (auto simp: sleep_end_def)
    have "kinv0 (upd_thread t f s)" by (rule kinv0_thread [OF k(1)]) (simp_all add: f inside_ok_def)
    then show "kinv (upd_thread t f s)" by (rule kinv_thread [OF assms(1)]) (rule f)
    show "tops (upd_thread t f s)" if "tops s" by (rule tops_cong [OF that]) (simp_all add: f)
    show "still X s (upd_thread t f s)" by (auto simp: still_def calm_def f)
  qed
  define s1 where "s1 = upd_thread t (th_inside_update (\<lambda>_. None)) s"
  have s1: "kinv s1" "tops s \<Longrightarrow> tops s1" "still X s s1" using u [of "th_inside_update (\<lambda>_. None)"] by (simp_all add: s1_def)
  have e1: "th_error (threads s1 t) = th_error (threads s t)" by (simp add: s1_def)
  have plain: "kcall_ok X F (tops s) s (Some (log_result t c (th_error (threads s t)) s1))"
    by (rule kcall_okI) (use s1 own in \<open>auto simp: s1_def keeps_def intro!: log_ok_log\<close>)
  have run: "call_end s = Some (case c of
        In_Sleep \<Rightarrow> log_result t c RT_EOK (upd_thread t sleep_end s1)
      | In_Event k \<Rightarrow> log_result t c (th_error (threads s1 t))
          (if th_error (threads s1 t) = RT_EOK then s1\<lparr> recved := (recved s1)(t := event_set (threads s1 t)) \<rparr> else s1)
      | _ \<Rightarrow> log_result t c (th_error (threads s1 t)) s1)"
    using assms(2) c by (simp add: call_end_def Let_def s1_def cong: inside.case_cong)
  show ?thesis
  proof (cases c)
    case In_Sleep
    have "upd_thread t sleep_end s1 = upd_thread t (\<lambda>th. sleep_end (th_inside_update (\<lambda>_. None) th)) s"
      by (simp add: s1_def upd_thread_def)
    then have s2: "kinv (upd_thread t sleep_end s1)" "tops s \<Longrightarrow> tops (upd_thread t sleep_end s1)" "still X s (upd_thread t sleep_end s1)"
      using u [of "\<lambda>th. sleep_end (th_inside_update (\<lambda>_. None) th)"] by simp_all
    have "kcall_ok X F (tops s) s (Some (log_result t c RT_EOK (upd_thread t sleep_end s1)))"
      by (rule kcall_okI) (use s2 In_Sleep in \<open>auto simp: s1_def keeps_def intro!: log_ok_log\<close>)
    then show ?thesis using run In_Sleep by simp
  next
    case (In_Event k)
    define s2 where "s2 = (if th_error (threads s1 t) = RT_EOK then s1\<lparr> recved := (recved s1)(t := event_set (threads s1 t)) \<rparr> else s1)"
    have f2: "threads s2 = threads s1" "queues s2 = queues s1" "ready_priority_group s2 = ready_priority_group s1" "sems s2 = sems s1"
      "mutexes s2 = mutexes s1" "events s2 = events s1" "ktimers s2 = ktimers s1" "rt_current_thread s2 = rt_current_thread s1"
      "lock_nest s2 = lock_nest s1" "results s2 = results s1" by (simp_all add: s2_def)
    have "kinv s2" using s1(1) kinv0_cong [OF f2(1-7)] by (simp add: kinv_def current_ok_def f2)
    moreover have "tops s2" if "tops s" by (rule tops_cong [OF s1(2) [OF that]]) (simp_all add: f2)
    moreover have "still X s s2" by (rule still_trans [OF s1(3) still_same]) (simp_all add: f2)
    ultimately have "kcall_ok X F (tops s) s (Some (log_result t c (th_error (threads s t)) s2))"
      by (intro kcall_okI) (use In_Event in \<open>auto simp: f2 s1_def keeps_def intro!: log_ok_log\<close>)
    then show ?thesis using run In_Event e1 by (simp add: s2_def)
  qed (use plain run e1 in simp_all)
qed

end
