(* ===== verification/Rt_Kernel_Events.thy ===== *)
theory Rt_Kernel_Events
  imports Rt_Kernel_Mutex
begin

text \<open>
  The event flags: a send wakes every thread whose condition it meets, so that nobody waits for flags that are set.
\<close>

lemma there_mono: "event_there w opt (f AND g) \<Longrightarrow> event_there w opt f"
proof -
  have "w AND f = w" if "w AND (f AND g) = w"
  proof (rule bit_eqI)
    fix n show "bit (w AND f) n = bit w n"
      using arg_cong [OF that, of "\<lambda>x. bit x n"] by (auto simp: bit_and_iff)
  qed
  moreover have "w AND f \<noteq> 0" if "w AND (f AND g) \<noteq> 0" using that by (auto simp flip: and.assoc)
  ultimately show "event_there w opt (f AND g) \<Longrightarrow> event_there w opt f" by (auto simp: event_there_def split: if_splits)
qed

text \<open>The invariant of the objects while a send looks through the list: the rest of it is not checked yet.\<close>

definition objects_but :: "nat \<Rightarrow> thread_id set \<Rightarrow> kernel \<Rightarrow> bool" where
  "objects_but k W s \<longleftrightarrow>
     (\<forall>j. mutex_ok (mutexes s j) (queues s (Mutex_Queue j)) (threads s)) \<and>
     (\<forall>j. 0 < sem_value (sems s j) \<longrightarrow> queues s (Sem_Queue j) = []) \<and>
     (\<forall>j. \<forall>t \<in> set (queues s (Event_Queue j)). j = k \<and> t \<in> W \<or>
        \<not> event_there (event_set (threads s t)) (event_info (threads s t)) (ev_set (events s j)))"

lemma objects_but_none: "objects_but k {} s \<longleftrightarrow> objects_ok s"
  by (simp add: objects_but_def objects_ok_def)

definition send_open :: "nat \<Rightarrow> thread_id list \<Rightarrow> kernel \<Rightarrow> bool" where
  "send_open k ts s \<longleftrightarrow> core s \<and> objects_but k (set ts) s \<and> (\<forall>u. inside_ok (threads s u) u (mutexes s)) \<and> distinct ts \<and>
     (\<forall>t \<in> set ts. t \<in> set (queues s (Event_Queue k)))"

definition taken_flags :: "nat \<Rightarrow> thread_id \<Rightarrow> kernel \<Rightarrow> kernel" where
  "taken_flags k t s =
    (let th = threads s t; flags = ev_set (events s k);
         s1 = (if event_info th AND RT_EVENT_FLAG_AND = 0 then upd_thread t (event_set_update (\<lambda>w. w AND flags)) s else s)
     in if event_info th AND RT_EVENT_FLAG_CLEAR \<noteq> 0
        then upd_event k (\<lambda>e. e\<lparr> ev_set := ev_set e AND NOT (event_set (threads s1 t)) \<rparr>) s1 else s1)"

lemma taken_fields:
  "queues (taken_flags k t s) = queues s" "ready_priority_group (taken_flags k t s) = ready_priority_group s"
  "rt_current_thread (taken_flags k t s) = rt_current_thread s" "lock_nest (taken_flags k t s) = lock_nest s"
  "sems (taken_flags k t s) = sems s" "mutexes (taken_flags k t s) = mutexes s" "ktimers (taken_flags k t s) = ktimers s"
  "results (taken_flags k t s) = results s" "u \<noteq> t \<Longrightarrow> threads (taken_flags k t s) u = threads s u"
  "stat (threads (taken_flags k t s) u) = stat (threads s u)" "tlist (threads (taken_flags k t s) u) = tlist (threads s u)"
  "current_priority (threads (taken_flags k t s) u) = current_priority (threads s u)"
  "init_priority (threads (taken_flags k t s) u) = init_priority (threads s u)"
  "number_mask (threads (taken_flags k t s) u) = number_mask (threads s u)"
  "th_inside (threads (taken_flags k t s) u) = th_inside (threads s u)"
  "th_error (threads (taken_flags k t s) u) = th_error (threads s u)"
  by (simp_all add: taken_flags_def Let_def)

lemma taken_less: "\<exists>g. ev_set (events (taken_flags k t s) j) = ev_set (events s j) AND g"
  by (auto simp: taken_flags_def Let_def intro: exI [of _ "- 1"])

lemma core_cong:
  assumes "core s" "queues s' = queues s" "ready_priority_group s' = ready_priority_group s" "ktimers s' = ktimers s"
    "\<And>u. stat (threads s' u) = stat (threads s u)" "\<And>u. tlist (threads s' u) = tlist (threads s u)"
    "\<And>u. current_priority (threads s' u) = current_priority (threads s u)" "\<And>u. init_priority (threads s' u) = init_priority (threads s u)"
    "\<And>u. number_mask (threads s' u) = number_mask (threads s u)"
  shows "core s'"
  using assms(1) placed_cong [OF assms(5,6,7)] sane_cong [OF assms(5,7,8,9)]
  by (simp add: core_def links_def threads_ok_def timers_ok_def assms(2-6))

lemma send_one:
  assumes "send_open k (t # ts) s" "event_there (event_set (threads s t)) (event_info (threads s t)) (ev_set (events s k))"
  defines "s1 \<equiv> taken_flags k t s"
  shows "rt_thread_resume t s1 = Some (resumed t s1, RT_EOK)" "send_open k ts (resumed t s1)" "still X s (resumed t s1)"
proof -
  have c: "core s" "objects_but k (set (t # ts)) s" "\<And>u. inside_ok (threads s u) u (mutexes s)" "distinct (t # ts)"
    "\<forall>u \<in> set (t # ts). u \<in> set (queues s (Event_Queue k))" using assms(1) by (auto simp: send_open_def)
  have t: "stat (threads s t) = RT_THREAD_SUSPEND" "tlist (threads s t) = Some (Event_Queue k)"
    using core_place(1,3) [OF c(1), of t "Event_Queue k"] c(5) by simp_all
  have c1: "core s1" by (rule core_cong [OF c(1)]) (simp_all add: s1_def taken_fields)
  have t1: "stat (threads s1 t) = RT_THREAD_SUSPEND" using t(1) by (simp add: s1_def taken_fields)
  note r = resume_core [OF c1 t1]
  show "rt_thread_resume t s1 = Some (resumed t s1, RT_EOK)" by (rule r(1))
  have f: "mutexes s1 = mutexes s" "sems s1 = sems s" by (simp_all add: s1_def taken_fields)
  have q: "queues (resumed t s1) q = removeAll t (queues s q)" if "wait_queue q" for q
    using that by (simp add: resumed_queue s1_def taken_fields)
  have qq: "queues (resumed t s1) (Mutex_Queue j) = removeAll t (queues s (Mutex_Queue j))"
    "queues (resumed t s1) (Sem_Queue j) = removeAll t (queues s (Sem_Queue j))" for j by (rule q, simp)+
  have "mutex_ok (mutexes (resumed t s1) j) (queues (resumed t s1) (Mutex_Queue j)) (threads (resumed t s1))" for j
  proof -
    have "mutex_ok (mutexes s j) (queues s (Mutex_Queue j)) (threads s)" using c(2) by (simp add: objects_but_def)
    moreover have "live (threads (resumed t s1) u)" if "live (threads s u)" for u using that by (simp add: live_def s1_def taken_fields)
    moreover have "mutexes (resumed t s1) = mutexes s" by (simp add: f)
    ultimately show ?thesis unfolding mutex_ok_def qq(1) by (simp del: resumed_fields split: option.splits)
  qed
  moreover have "0 < sem_value (sems (resumed t s1) j) \<longrightarrow> queues (resumed t s1) (Sem_Queue j) = []" for j
    using c(2) unfolding qq(2) by (simp add: objects_but_def f)
  moreover have "j = k \<and> u \<in> set ts \<or>
      \<not> event_there (event_set (threads (resumed t s1) u)) (event_info (threads (resumed t s1) u)) (ev_set (events (resumed t s1) j))"
    if "u \<in> set (queues (resumed t s1) (Event_Queue j))" for j u
  proof -
    have u: "u \<noteq> t" "u \<in> set (queues s (Event_Queue j))" using that by (simp_all add: q)
    obtain g where g: "ev_set (events s1 j) = ev_set (events s j) AND g" using taken_less [of k t s j] unfolding s1_def by blast
    have "j = k \<and> u \<in> set ts \<or> \<not> event_there (event_set (threads s u)) (event_info (threads s u)) (ev_set (events s j))"
      using c(2) u by (auto simp: objects_but_def)
    then show ?thesis using u(1) g there_mono by (auto simp: s1_def taken_fields)
  qed
  ultimately have "objects_but k (set ts) (resumed t s1)" unfolding objects_but_def by blast
  moreover have "inside_ok (threads (resumed t s1) u) u (mutexes (resumed t s1))" for u
    using c(3) [of u] t by (cases "u = t") (auto simp: inside_ok_def s1_def taken_fields)
  moreover have "\<forall>u \<in> set ts. u \<in> set (queues (resumed t s1) (Event_Queue k))" using c(4,5) by (auto simp: q)
  ultimately show "send_open k ts (resumed t s1)" using r(2) c(4) by (simp add: send_open_def)
  have "\<not> sleeper s t" using t(2) by (simp add: sleeper_def)
  moreover have "wtimers (ktimers s)" by (rule coreD(7) [OF c(1)])
  ultimately show "still X s (resumed t s1)"
    by (intro still_thread [of t]) (use stopped_kept stop_timer(4) in \<open>auto simp: s1_def taken_fields\<close>)
qed

lemma send_round_there:
  "event_there (event_set (threads s t)) (event_info (threads s t)) (ev_set (events s k)) \<Longrightarrow>
    send_round k (t # ts) need s = do { (s3, _) \<leftarrow> rt_thread_resume t (taken_flags k t s); send_round k ts True s3 }"
  by (simp add: Let_def taken_flags_def)

lemma send_round_need: "send_round k ts True s = Some (s', need) \<Longrightarrow> need"
proof (induction ts arbitrary: s)
  case (Cons t ts)
  show ?case
  proof (cases "event_there (event_set (threads s t)) (event_info (threads s t)) (ev_set (events s k))")
    case True
    then show ?thesis
      using Cons.prems Cons.IH unfolding send_round_there [OF True] by (auto simp: bind_eq_Some_conv)
  next
    case False
    then show ?thesis using Cons.prems Cons.IH by (simp add: Let_def)
  qed
qed simp

lemma send_round_ok:
  assumes "send_open k ts s"
  shows "\<exists>s' need'. send_round k ts need s = Some (s', need') \<and> send_open k [] s' \<and> still X s s' \<and> (current_ok s \<longrightarrow> current_ok s') \<and>
    mutexes s' = mutexes s \<and> results s' = results s \<and> rt_current_thread s' = rt_current_thread s \<and> (idle_ready s \<longrightarrow> idle_ready s') \<and>
    lock_nest s' = lock_nest s \<and> (\<not> need' \<longrightarrow> s' = s)"
  using assms
proof (induction ts arbitrary: s need)
  case Nil
  then show ?case by auto
next
  case (Cons t ts)
  show ?case
  proof (cases "event_there (event_set (threads s t)) (event_info (threads s t)) (ev_set (events s k))")
    case False
    then have "send_open k ts s" using Cons.prems by (auto simp: send_open_def objects_but_def)
    then show ?thesis using Cons.IH [of s need] False by (simp add: Let_def)
  next
    case True
    define s1 where "s1 = taken_flags k t s"
    note o = send_one [OF Cons.prems True, folded s1_def]
    have run: "send_round k (t # ts) need s = send_round k ts True (resumed t s1)"
      unfolding send_round_there [OF True] s1_def [symmetric] o(1) by simp
    obtain s' need' where s': "send_round k ts True (resumed t s1) = Some (s', need')" "send_open k [] s'" "still X (resumed t s1) s'"
      "current_ok (resumed t s1) \<longrightarrow> current_ok s'" "mutexes s' = mutexes (resumed t s1)" "results s' = results (resumed t s1)"
      "rt_current_thread s' = rt_current_thread (resumed t s1)" "idle_ready (resumed t s1) \<longrightarrow> idle_ready s'" "lock_nest s' = lock_nest (resumed t s1)"
      using Cons.IH [OF o(2)] by blast
    have n: need' using s'(1) by (rule send_round_need)
    have "still X s s'" by (rule still_trans [OF o(3) s'(3)])
    moreover have "current_ok s \<longrightarrow> current_ok (resumed t s1)" "idle_ready s \<longrightarrow> idle_ready (resumed t s1)"
      by (auto simp: current_ok_def s1_def taken_fields)
    ultimately show ?thesis using run s' n by (auto simp: s1_def taken_fields)
  qed
qed

section \<open>The calls\<close>

lemma sending_kinv0: "send_open k [] s \<Longrightarrow> kinv0 s"
  by (simp add: send_open_def kinv0_def objects_but_none)

lemma upd_event_sending:
  assumes "kinv0 s" "ts = queues s (Event_Queue k)" shows "send_open k ts (upd_event k f s)"
proof -
  have "distinct ts" using links_distinct [OF kinv0D(1) [OF assms(1)]] assms(2) by simp
  moreover have "objects_but k (set ts) (upd_event k f s)"
    using assms by (auto simp: kinv0_def objects_ok_def objects_but_def)
  moreover have "core (upd_event k f s)" using kinv0_core [OF assms(1)] by (simp add: core_def)
  ultimately show ?thesis using assms by (simp add: send_open_def kinv0_def)
qed

lemma event_send_ok:
  assumes "kinv s" "rt_current_thread s \<noteq> None"
  shows "step_ok X (tops s) s (rt_event_send k flags s)"
proof (cases "flags = 0")
  case True
  then show ?thesis using assms(1) by (simp add: rt_event_send_def step_okI)
next
  case False
  have k: "kinv0 s" "current_ok s" "idle_ready s" using assms kinv_current by (auto simp: kinv_def)
  define s1 where "s1 = upd_event k (\<lambda>e. e\<lparr> ev_set := ev_set e OR flags \<rparr>) s"
  have "send_open k (queues s1 (Event_Queue k)) s1" unfolding s1_def by (rule upd_event_sending [OF k(1)]) simp
  then obtain s2 need where s2: "send_round k (queues s1 (Event_Queue k)) False s1 = Some (s2, need)" "send_open k [] s2" "still X s1 s2"
    "current_ok s1 \<longrightarrow> current_ok s2" "mutexes s2 = mutexes s1" "results s2 = results s1" "idle_ready s1 \<longrightarrow> idle_ready s2"
    "\<not> need \<longrightarrow> s2 = s1"
    using send_round_ok by blast
  have k2: "kinv0 s2" by (rule sending_kinv0 [OF s2(2)])
  have st: "still X s s2" by (rule still_trans [OF still_same s2(3)]) (simp_all add: s1_def)
  have c: "current_ok s2" "idle_ready s2" using k(2,3) s2(4,7) by (simp_all add: s1_def current_ok_def)
  have run: "rt_event_send k flags s = (if need then rt_schedule s2 else Some s2)"
    using False s2(1) by (simp add: rt_event_send_def Let_def flip: s1_def)
  show ?thesis
  proof (cases need)
    case True
    then show ?thesis unfolding run using then_schedule [OF k2 c(2) c(1) st] s2(5,6) by (simp add: s1_def)
  next
    case False
    then have e: "s2 = s1" using s2(8) by simp
    have "tops s1" if "tops s" by (rule tops_cong [OF that]) (simp_all add: s1_def)
    then show ?thesis
      unfolding run using False k2 c(1) st s2(5,6) e by (simp, intro step_okI) (simp_all add: kinv_def s1_def)
  qed
qed

lemma upd_event_less:
  assumes "kinv0 s" "\<And>e. \<exists>g. ev_set (f e) = ev_set e AND g" shows "kinv0 (upd_event k f s)"
proof -
  have "\<not> event_there w opt (ev_set (f e))" if "\<not> event_there w opt (ev_set e)" for w opt e
    using assms(2) [of e] there_mono that by auto
  then have "objects_ok (upd_event k f s)" using assms(1) by (auto simp: kinv0_def objects_ok_def)
  then show ?thesis using assms(1) by (simp add: kinv0_def core_def)
qed

lemma event_reset_ok:
  assumes "kinv s" "rt_current_thread s \<noteq> None"
  shows "step_ok X P s (event_reset k s)"
proof -
  have k: "kinv0 s" "current_ok s" "idle_ready s" using assms kinv_current by (auto simp: kinv_def)
  obtain s1 where s1: "rt_ipc_list_resume_all (Event_Queue k) s = Some s1" "kinv0 s1" "still X s s1"
    "current_ok s1" "idle_ready s1" "mutexes s1 = mutexes s" "results s1 = results s"
    using resume_all_ok [OF k(1), of "Event_Queue k" X] k(2,3) by auto
  define s2 where "s2 = upd_event k (\<lambda>e. e\<lparr> ev_set := 0 \<rparr>) s1"
  have "kinv0 s2" unfolding s2_def by (rule upd_event_less [OF s1(2)]) (auto intro: exI [of _ 0])
  moreover have "still X s s2" by (rule still_trans [OF s1(3)], rule still_same) (simp_all add: s2_def)
  moreover have "current_ok s2" "idle_ready s2" using s1(4,5) by (simp_all add: s2_def current_ok_def)
  ultimately have "step_ok X P s (rt_schedule s2)" by (intro then_schedule) (simp_all add: s2_def s1)
  then show ?thesis by (simp add: event_reset_def s1(1) s2_def)
qed

lemma event_recv_ok:
  assumes "kinv s" "rt_current_thread s = Some t" "th_inside (threads s t) = None"
    "wanted = 0 \<or> option AND RT_EVENT_FLAG_AND \<noteq> 0 \<or> option AND RT_EVENT_FLAG_OR \<noteq> 0"
    "wanted = 0 \<or> event_there wanted option (ev_set (events s k)) \<or> timeout = 0 \<or> may_block s \<and> time_ok timeout"
  shows "kcall_ok X F (tops s) s (rt_event_recv k wanted option timeout s)"
proof -
  have r: "stat (threads s t) = RT_THREAD_READY" "idle_ready s" using kinv_current [OF assms(1,2)] by simp_all
  define s1 where "s1 = upd_thread t (th_error_update (\<lambda>_. RT_EOK)) s"
  have e: "kinv0 s1" "still X s s1" "kinv s1" "tops s \<Longrightarrow> tops s1"
    unfolding s1_def using error_reset [OF assms(1-3)] by blast+
  have f1: "mutexes s1 = mutexes s" "results s1 = results s" "events s1 = events s" "rt_current_thread s1 = Some t" "lock_nest s1 = lock_nest s"
    "stat (threads s1 u) = stat (threads s u)" "tlist (threads s1 u) = tlist (threads s u)" "th_inside (threads s1 u) = th_inside (threads s u)" for u
    using assms(2) by (simp_all add: s1_def)
  have logged: "kcall_ok X F (tops s) s (Some (log_result t (In_Event k) c s2))"
    if "kinv s2" "tops s \<Longrightarrow> tops s2" "still X s s2" "mutexes s2 = mutexes s" "results s2 = results s" for c s2
    by (rule kcall_okI) (use that in \<open>auto simp: keeps_def intro!: log_ok_log\<close>)
  consider "wanted = 0" | "wanted \<noteq> 0" "event_there wanted option (ev_set (events s k))"
    | "wanted \<noteq> 0" "\<not> event_there wanted option (ev_set (events s k))" "timeout = 0"
    | "wanted \<noteq> 0" "\<not> event_there wanted option (ev_set (events s k))" "timeout \<noteq> 0" "may_block s" "time_ok timeout"
    using assms(5) by blast
  then show ?thesis
  proof cases
    case 1
    then show ?thesis using logged [of s RT_ERROR] assms(1,2) by (simp add: rt_event_recv_def)
  next
    case 2
    define s2 where "s2 = s1\<lparr> recved := (recved s1)(t := ev_set (events s k) AND wanted) \<rparr>"
    define s3 where "s3 = (if option AND RT_EVENT_FLAG_CLEAR \<noteq> 0 then upd_event k (\<lambda>e. e\<lparr> ev_set := ev_set e AND NOT wanted \<rparr>) s2 else s2)"
    have "kinv0 s2 \<longleftrightarrow> kinv0 s1" by (rule kinv0_cong) (simp_all add: s2_def)
    then have "kinv0 s3" using e(1) upd_event_less [of s2 "\<lambda>e. e\<lparr> ev_set := ev_set e AND NOT wanted \<rparr>" k] by (auto simp: s3_def)
    then have "kinv s3" using e(3) by (simp add: kinv_def current_ok_def s3_def s2_def)
    moreover have "tops s3" if "tops s" by (rule tops_cong [OF e(4) [OF that]]) (simp_all add: s3_def s2_def)
    moreover have "still X s s3" by (rule still_trans [OF e(2) still_same]) (simp_all add: s3_def s2_def)
    moreover have "mutexes s3 = mutexes s" "results s3 = results s" by (simp_all add: s3_def s2_def f1)
    ultimately have "kcall_ok X F (tops s) s (Some (log_result t (In_Event k) RT_EOK s3))" by (intro logged)
    moreover have "rt_event_recv k wanted option timeout s = Some (log_result t (In_Event k) RT_EOK s3)"
      using 2 assms(2,4) f1(3) by (simp add: rt_event_recv_def Let_def s3_def s2_def flip: s1_def)
    ultimately show ?thesis by simp
  next
    case 3
    define s2 where "s2 = upd_thread t (th_error_update (\<lambda>_. RT_ETIMEOUT)) s1"
    have i: "th_inside (threads s1 t) = None" using assms(3) by (simp add: f1)
    have "kinv s2" "tops s1 \<Longrightarrow> tops s2" "still X s1 s2" unfolding s2_def using error_reset [OF e(3) f1(4) i] by blast+
    then have "kcall_ok X F (tops s) s (Some (log_result t (In_Event k) RT_ETIMEOUT s2))"
      using e(2,4) still_trans by (intro logged) (auto simp: s2_def f1)
    moreover have "rt_event_recv k wanted option timeout s = Some (log_result t (In_Event k) RT_ETIMEOUT s2)"
      using 3 assms(2,4) f1(3) by (simp add: rt_event_recv_def Let_def s2_def flip: s1_def)
    ultimately show ?thesis by simp
  next
    case 4
    define s2 where "s2 = upd_thread t (\<lambda>th. th\<lparr> event_set := wanted, event_info := option \<rparr>) s1"
    have tl: "tlist (threads s1 t) = Some (Ready_Row (prio s t))"
      using core_ready(1) [OF kinv0_core [OF kinv_kinv0 [OF assms(1)]] r(1)] by (simp add: f1)
    have k2: "kinv0 s2" unfolding s2_def
      by (rule kinv0_thread [OF e(1)]) (use tl assms(3) in \<open>simp_all add: inside_ok_def f1\<close>)
    have st: "still X s s2" by (rule still_trans [OF e(2)]) (simp add: still_def calm_def s2_def)
    have run: "rt_event_recv k wanted option timeout s = wait_in (Event_Queue k) (In_Event k) t (ev_prio (events s k)) timeout s2"
      using 4 assms(2,4) f1(3) by (auto simp: rt_event_recv_def Let_def s2_def simp flip: s1_def)
    have "step_ok X (tops s) s2 (wait_in (Event_Queue k) (In_Event k) t (ev_prio (events s k)) timeout s2)"
      by (rule wait_ok [OF k2]) (use 4 r assms(2) in \<open>auto simp: s2_def f1 may_block_def\<close>)
    then show ?thesis unfolding run by (intro step_kcall step_ok_from [OF st]) (simp_all add: s2_def f1)
  qed
qed

end
