(* ===== verification/Rt_Kernel_Parts.thy ===== *)
theory Rt_Kernel_Parts
  imports Rt_Kernel_Events
begin

text \<open>
  The parts of the calls that the source does not protect from interrupts as a whole: what each does to the invariant
  when other calls and ticks stand between them.
\<close>

section \<open>Unlinking\<close>

text \<open>A thread that is off its list and not in a row, with the timers as they are now.\<close>

lemma loose_kinv0:
  assumes "kinv0 s" "stat (threads s t) = RT_THREAD_SUSPEND \<or> stat (threads s t) = RT_THREAD_INIT"
    "\<And>k. tlist (threads s t) \<noteq> Some (Mutex_Queue k)"
    "threads s' = (threads s)(t := (threads s t)\<lparr> tlist := None \<rparr>)" "\<And>q. queues s' q = removeAll t (queues s q)"
    "group_ok (queues s') (ready_priority_group s')" "sems s' = sems s" "mutexes s' = mutexes s" "events s' = events s"
    "timers_ok (ktimers s') (threads s)"
  shows "kinv0 s'"
proof -
  note c = kinv0D [OF assms(1)]
  have "queues s' = (\<lambda>q. removeAll t (queues s q))" by (rule ext) (rule assms(5))
  then have "links (queues s') (threads s')" using links_off [OF c(1)] assms(4) by simp
  moreover have "sane (threads s' u) \<and> well_placed (threads s' u)" for u
    using c(4,5) [of u] assms(2) by (auto simp: assms(4) sane_def well_placed_def)
  moreover have "timers_ok (ktimers s') (threads s')" using assms(10) by (auto simp: timers_ok_def assms(4))
  moreover have "objects_ok s'"
    by (rule objects_mono [of s]) (use assms in \<open>auto simp: kinv0_def live_def split: if_splits\<close>)
  moreover have "inside_ok (threads s' u) u (mutexes s')" for u
  proof -
    have "inside_ok (threads s u) u (mutexes s)" using assms(1) by (simp add: kinv0_def)
    then show ?thesis using assms(3) by (cases "u = t") (auto simp: inside_ok_def assms(4,8))
  qed
  ultimately show ?thesis using assms(6) by (simp add: kinv0_def core_def threads_ok_def)
qed

lemma delete_unlink_ok:
  assumes "kinv s" "stat (threads s t) = RT_THREAD_SUSPEND \<or> stat (threads s t) = RT_THREAD_INIT"
    "\<And>k. tlist (threads s t) \<noteq> Some (Mutex_Queue k)"
  shows "step_ok {t} (tops s) s (rt_schedule_remove_thread t s)"
proof -
  have k: "kinv0 s" "core s" using assms(1) kinv0_core by auto
  note c = coreD [OF k(2)]
  have row: "\<forall>p. tlist (threads s t) = Some (Ready_Row p) \<longrightarrow> p = prio s t \<and> number_mask (threads s t) = row_mask p"
    using c(5) [of t] assms(2) by (auto simp: well_placed_def)
  have mask: "number_mask (threads s t) = row_mask (prio s t) \<or> number_mask (threads s t) = 0"
    using c(4) [of t] by (auto simp: sane_def prio_def)
  have "timers_ok (ktimers s) (threads s)" using k(2) by (simp add: core_def)
  then have "kinv0 (row_off t s)"
    by (intro loose_kinv0 [OF k(1) assms(2,3)]) (use row_off_group(2) [OF c(1,2) row mask] in simp_all)
  moreover have "current_ok (row_off t s)" using assms(1) by (auto simp: kinv_def current_ok_def)
  moreover have "still {t} s (row_off t s)" by (rule still_thread [of t]) (auto simp: kept_def)
  moreover have "tops (row_off t s)" if "tops s"
  proof -
    have "rt_current_thread s \<noteq> Some t" using kinv_current [OF assms(1)] assms(2) by fastforce
    then show ?thesis by (intro tops_without [OF that, of _ t]) (use assms(2) in auto)
  qed
  ultimately show ?thesis by (simp add: remove_thread_form [OF c(1,6)] step_okI kinv_def)
qed

lemma resume_unlink_ok:
  assumes "kinv s" "\<And>k. tlist (threads s t) \<noteq> Some (Mutex_Queue k)"
  shows "step_ok {t} (tops s) s (resume_unlink t s)"
proof (cases "stat (threads s t) = RT_THREAD_SUSPEND")
  case False
  then show ?thesis using assms(1) by (simp add: resume_unlink_def step_okI)
next
  case True
  define s' where "s' = (off t s)\<lparr> ktimers := stopped t (ktimers s) \<rparr>"
  have k: "kinv0 s" "core s" using assms(1) kinv0_core by auto
  note c = coreD [OF k(2)]
  have e: "resume_unlink t s = Some s'"
    using True stop_timer(1) [OF c(7), of t]
    by (simp add: resume_unlink_def timer_call_for_def list_remove_off [OF c(1)] s'_def)
  have "removeAll t (queues s (Ready_Row p)) = queues s (Ready_Row p)" for p
    using removeAll_links [OF c(1)] core_suspended(1) [OF k(2) True] by simp
  then have g: "group_ok (queues s') (ready_priority_group s')" using c(2) by (simp add: group_ok_def s'_def)
  have tm: "timers_ok (ktimers s') (threads s)"
    using stop_timer(2,3) [OF c(7), of t] c(8) by (auto simp: timers_ok_def s'_def)
  have "kinv0 s'"
    by (rule loose_kinv0 [OF k(1) _ assms(2) _ _ g _ _ _ tm]) (use True in \<open>simp_all add: s'_def\<close>)
  moreover have "current_ok s'" using assms(1) True by (auto simp: kinv_def current_ok_def s'_def)
  moreover have "still {t} s s'"
    by (rule still_thread [of t]) (use stopped_kept [OF c(7)] stop_timer(4) [OF c(7)] in \<open>auto simp: s'_def\<close>)
  moreover have "tops s'" if "tops s"
  proof -
    have "rt_current_thread s \<noteq> Some t" using kinv_current [OF assms(1)] True by fastforce
    then show ?thesis by (intro tops_without [OF that, of _ t]) (use True in \<open>auto simp: s'_def\<close>)
  qed
  ultimately show ?thesis by (simp add: e step_okI kinv_def s'_def)
qed

section \<open>Closing\<close>

lemma delete_timer_ok:
  assumes "kinv s" shows "step_ok {t} (tops s) s (timer_call_for (Detach t) s)"
proof -
  define s' where "s' = s\<lparr> ktimers := rt_timer_remove t (ktimers s) \<rparr>"
  note c = kinv0D [OF kinv_kinv0 [OF assms]]
  have "timers_ok (rt_timer_remove t (ktimers s)) (threads s)"
    using detach_timer(2) [OF c(7)] c(8) by (auto simp: timers_ok_def)
  then have "kinv s'" using assms kinv0_timers by (simp add: s'_def kinv_def current_ok_def)
  moreover have "still {t} s s'" by (rule still_thread [of t]) (auto simp: kept_def s'_def)
  moreover have "tops s'" if "tops s" by (rule tops_cong [OF that]) (simp_all add: s'_def)
  ultimately show ?thesis
    using detach_timer(1) [OF c(7), of t] by (simp add: timer_call_for_def step_okI s'_def)
qed

definition loose :: "kernel \<Rightarrow> thread_id \<Rightarrow> bool" where
  "loose s t \<longleftrightarrow> tlist (threads s t) = None \<and> t \<notin> set (rt_timer_list (ktimers s))"

lemma loose_not_ready: "kinv s \<Longrightarrow> loose s t \<Longrightarrow> stat (threads s t) \<noteq> RT_THREAD_READY"
  using core_ready(1) [OF kinv0_core, of s t] by (auto simp: loose_def)

lemma delete_close_ok:
  assumes "kinv s" "loose s t" "\<And>k. mutex_owner (mutexes s k) \<noteq> Some t"
  shows "step_ok {t} (tops s) s (Some (upd_thread t (stat_update (\<lambda>_. RT_THREAD_CLOSE)) s))"
proof -
  define s' where "s' = upd_thread t (stat_update (\<lambda>_. RT_THREAD_CLOSE)) s"
  have k: "kinv0 s" "core s" using assms(1) kinv0_core by auto
  note c = coreD [OF k(2)]
  have nr: "stat (threads s t) \<noteq> RT_THREAD_READY" by (rule loose_not_ready [OF assms(1,2)])
  have "core s'"
    using c(1,2,4,5,7,8) assms(2)
    by (auto simp: core_def threads_ok_def timers_ok_def links_same s'_def sane_def well_placed_def loose_def)
  moreover have "objects_ok s'"
    by (rule objects_mono [of s]) (use k(1) assms(3) in \<open>auto simp: kinv0_def live_def s'_def split: if_splits\<close>)
  moreover have "inside_ok (threads s' u) u (mutexes s')" for u
    using k(1) by (cases "u = t") (auto simp: kinv0_def inside_ok_def s'_def)
  ultimately have "kinv0 s'" by (simp add: kinv0_def)
  moreover have "current_ok s'" using assms(1) nr by (auto simp: kinv_def current_ok_def s'_def)
  moreover have "still {t} s s'" by (rule still_thread [of t]) (auto simp: s'_def)
  moreover have "tops s'" if "tops s"
  proof -
    have t: "t \<notin> set (queues s q)" for q using links_member [OF c(1)] assms(2) by (simp add: loose_def)
    have "rt_current_thread s \<noteq> Some t" using kinv_current [OF assms(1)] nr by fastforce
    then show ?thesis by (intro tops_without [OF that, of _ t]) (use t in \<open>auto simp: s'_def\<close>)
  qed
  ultimately show ?thesis unfolding s'_def [symmetric] by (intro step_okI) (simp_all add: kinv_def, simp_all add: s'_def)
qed

lemma delete_defunct_ok:
  assumes "kinv s" "stat (threads s t) = RT_THREAD_CLOSE" "tlist (threads s t) = None"
  shows "step_ok {t} (tops s) s (rt_list_insert_after Defunct t s)"
proof -
  obtain s' where s': "rt_list_insert_after Defunct t s = Some s'" "kinv0 s'" "threads s' = (threads s)(t := (threads s t)\<lparr> tlist := Some Defunct \<rparr>)"
    "queues s' = (queues s)(Defunct := t # queues s Defunct)" "ktimers s' = ktimers s" "mutexes s' = mutexes s" "results s' = results s"
    "lock_nest s' = lock_nest s" "rt_current_thread s' = rt_current_thread s"
    by (rule bury_ok [OF kinv_kinv0 [OF assms(1)] assms(2,3)])
  have e: "stat (threads s' u) = stat (threads s u)" for u unfolding s'(3) by simp
  have "kinv s'" using s'(2) assms(1) unfolding kinv_def current_ok_def e s'(9) by simp
  moreover have "still {t} s s'" by (rule still_thread [of t]) (use s'(3,5) in auto)
  moreover have "tops s'" if "tops s"
  proof -
    have n: "t \<notin> set (queues s q)" for q using links_member [OF kinv0D(1) [OF kinv_kinv0 [OF assms(1)]]] assms(3) by simp
    have "rt_current_thread s \<noteq> Some t" using kinv_current [OF assms(1)] assms(2) by fastforce
    then show ?thesis by (intro tops_without [OF that s'(9,8), of t]) (use assms(2) s'(3,4) n in auto)
  qed
  ultimately show ?thesis using s' by (simp add: step_okI)
qed

section \<open>Starting and waking\<close>

lemma resume_insert_ok:
  assumes "kinv s" "stat (threads s t) = RT_THREAD_SUSPEND" "loose s t"
  shows "step_ok {t} False s (rt_schedule_insert_thread t s)"
proof -
  have k: "kinv0 s" "core s" using assms(1) kinv0_core by auto
  have w: "wakeable t s" using suspended_wakeable(1) [OF k(2) assms(2)] assms(3) by (simp add: loose_def)
  have e: "rt_schedule_insert_thread t s = Some (woken t s)"
    using woken_form(1) [OF w] assms(3) by (simp add: rt_list_remove_def loose_def)
  have "kinv0 (woken t s)" by (rule woken_kinv0 [OF w]) (use k(1) assms(2,3) in \<open>auto simp: kinv0_def loose_def\<close>)
  moreover have "current_ok (woken t s)" using assms(1) by (auto simp: kinv_def current_ok_def)
  moreover have "still {t} s (woken t s)" by (rule still_thread [of t]) auto
  ultimately show ?thesis unfolding e by (intro step_okI) (simp_all add: kinv_def)
qed

lemma startup_prepare_ok:
  assumes "kinv s" "stat (threads s t) = RT_THREAD_INIT"
  shows "step_ok X (tops s) s (startup_prepare t s)"
proof -
  define s' where "s' = upd_thread t (\<lambda>th. (set_priority (init_priority th) th)\<lparr> stat := RT_THREAD_SUSPEND \<rparr>) s"
  have k: "kinv0 s" "core s" using assms(1) kinv0_core by auto
  note c = coreD [OF k(2)]
  have tl: "tlist (threads s t) = None" using c(5) [of t] assms(2) by (simp add: well_placed_def)
  have n: "t \<notin> set (queues s q)" for q using links_member [OF c(1)] tl by simp
  have "core s'"
    using c(1,2,4,5,7,8) tl
    by (auto simp: core_def threads_ok_def timers_ok_def links_same s'_def sane_def well_placed_def set_priority_def row_mask_def)
  moreover have "objects_ok s'"
    by (rule objects_mono [of s]) (use k(1) assms(2) n in \<open>auto simp: kinv0_def live_def s'_def set_priority_def split: if_splits\<close>)
  moreover have "inside_ok (threads s' u) u (mutexes s')" for u
  proof -
    have "inside_ok (threads s u) u (mutexes s)" using k(1) by (simp add: kinv0_def)
    then show ?thesis using assms(2) by (cases "u = t") (auto simp: inside_ok_def s'_def set_priority_def)
  qed
  ultimately have "kinv0 s'" by (simp add: kinv0_def)
  moreover have "current_ok s'" using assms by (auto simp: kinv_def current_ok_def s'_def set_priority_def)
  moreover have "still X s s'" by (rule still_thread [of t]) (use assms(2) in \<open>auto simp: s'_def sleeper_def\<close>)
  moreover have "tops s'" if "tops s"
  proof -
    have "rt_current_thread s \<noteq> Some t" using kinv_current [OF assms(1)] assms(2) by fastforce
    then show ?thesis by (intro tops_without [OF that, of _ t]) (use n in \<open>auto simp: s'_def set_priority_def\<close>)
  qed
  ultimately show ?thesis
    using assms(2) unfolding startup_prepare_def by (simp add: step_okI kinv_def flip: s'_def) (simp add: step_okI kinv_def s'_def)
qed

lemma wake_round_ok:
  assumes "kinv s" "wait_queue q" "queues s q \<noteq> []"
  shows "step_ok X False s (wake_round q s)"
proof -
  obtain t ts where q: "queues s q = t # ts" using assms(3) by (cases "queues s q") auto
  define s0 where "s0 = upd_thread t (th_error_update (\<lambda>_. RT_ERROR)) s"
  have k0: "kinv0 s0" unfolding s0_def by (rule kinv0_thread [OF kinv_kinv0 [OF assms(1)]]) (simp_all add: inside_ok_def)
  have q0: "queues s0 q = t # ts" "th_error (threads s0 t) \<noteq> RT_EOK" by (simp_all add: s0_def q)
  note h = head_resume [OF k0 q0(1) assms(2)]
  have "current_ok s0" using assms(1) by (auto simp: kinv_def current_ok_def s0_def)
  then have "kinv (resumed t s0)" using h(2) q0(2) resumed_current_ok by (auto simp: kinv_def)
  moreover have "still X s s0" by (auto simp: still_def calm_def s0_def)
  then have "still X s (resumed t s0)" using still_trans h(3) q0(2) by blast
  moreover have "wake_round q s = Some (resumed t s0)" using h(1) q0(2) q by (simp add: wake_round_def flip: s0_def)
  ultimately show ?thesis by (simp add: step_okI) (simp add: s0_def step_okI)
qed

end
