(* ===== verification/Rt_Kernel_Run.thy ===== *)
theory Rt_Kernel_Run
  imports Rt_Kernel_Parts
begin

text \<open>
  The machine of the kernel: the conditions under which a call is admissible, its invariant, and what holds along
  every run from the start.
\<close>

section \<open>Admissible calls\<close>

definition started :: "kernel \<Rightarrow> bool" where
  "started s \<longleftrightarrow> rt_current_thread s \<noteq> None"

text \<open>The running thread is not inside of a call that has still to return.\<close>

definition free_caller :: "kernel \<Rightarrow> bool" where
  "free_caller s \<longleftrightarrow> (case rt_current_thread s of None \<Rightarrow> False | Some t \<Rightarrow> th_inside (threads s t) = None)"

lemma may_block_code [code]: "may_block s \<longleftrightarrow> (case rt_current_thread s of None \<Rightarrow> False | Some t \<Rightarrow> t \<noteq> 0) \<and> lock_nest s = 0"
  by (auto simp: may_block_def split: option.splits)

definition no_owner :: "kernel \<Rightarrow> thread_id \<Rightarrow> bool" where
  "no_owner s t \<longleftrightarrow> (\<forall>k. mutex_owner (mutexes s k) \<noteq> Some t)"

definition waits_ok :: "kernel \<Rightarrow> u32 \<Rightarrow> bool" where
  "waits_ok s time \<longleftrightarrow> time = 0 \<or> may_block s \<and> time_ok time"

fun usual_ok :: "kernel \<Rightarrow> kernel_event \<Rightarrow> bool" where
  "usual_ok s (Startup t) \<longleftrightarrow> stat (threads s t) = RT_THREAD_INIT"
| "usual_ok s Scheduler_Start \<longleftrightarrow> \<not> started s \<and> idle_ready s"
| "usual_ok s Idle_Round \<longleftrightarrow> True"
| "usual_ok s Enter_Critical \<longleftrightarrow> started s \<and> lock_nest s < 0x7fff"
| "usual_ok s (Sleep n) \<longleftrightarrow> free_caller s \<and> may_block s \<and> 0 < n \<and> n < HALF_TICK_MAX"
| "usual_ok s Thread_Exit \<longleftrightarrow> may_block s"
| "usual_ok s Return \<longleftrightarrow> started s \<and> \<not> free_caller s"
| "usual_ok s (Suspend t) \<longleftrightarrow> started s \<and> rt_current_thread s \<noteq> Some t \<and> t \<noteq> 0"
| "usual_ok s (Resume t) \<longleftrightarrow> started s"
| "usual_ok s (Delete t) \<longleftrightarrow> started s \<and> rt_current_thread s \<noteq> Some t \<and> t \<noteq> 0 \<and> stat (threads s t) \<noteq> RT_THREAD_CLOSE"
| "usual_ok s (Detach_Thread t) \<longleftrightarrow> started s \<and> rt_current_thread s \<noteq> Some t \<and> t \<noteq> 0 \<and> stat (threads s t) \<noteq> RT_THREAD_CLOSE"
| "usual_ok s (Change_Priority t p) \<longleftrightarrow> unat p < 32"
| "usual_ok s (Sem_Take k time) \<longleftrightarrow> free_caller s \<and> (sem_value (sems s k) \<noteq> 0 \<or> waits_ok s time)"
| "usual_ok s (Mutex_Take k time) \<longleftrightarrow> free_caller s \<and>
     (if mutex_owner (mutexes s k) = None then True
      else if mutex_owner (mutexes s k) = rt_current_thread s then mutex_hold (mutexes s k) \<noteq> 255 else waits_ok s time)"
| "usual_ok s (Mutex_Release k) \<longleftrightarrow> free_caller s"
| "usual_ok s (Event_Recv k wanted option time) \<longleftrightarrow> free_caller s \<and>
     (wanted = 0 \<or> (option AND RT_EVENT_FLAG_AND \<noteq> 0 \<or> option AND RT_EVENT_FLAG_OR \<noteq> 0) \<and>
        (event_there wanted option (ev_set (events s k)) \<or> waits_ok s time))"
| "usual_ok s (Delete_Unlink t) \<longleftrightarrow> started s \<and> (stat (threads s t) = RT_THREAD_SUSPEND \<or> stat (threads s t) = RT_THREAD_INIT)"
| "usual_ok s (Delete_Close t) \<longleftrightarrow> started s \<and> loose s t"
| "usual_ok s (Delete_Defunct t) \<longleftrightarrow> started s \<and> stat (threads s t) = RT_THREAD_CLOSE \<and> tlist (threads s t) = None"
| "usual_ok s (Resume_Insert t) \<longleftrightarrow> started s \<and> stat (threads s t) = RT_THREAD_SUSPEND \<and> loose s t"
| "usual_ok s (Startup_Prepare t) \<longleftrightarrow> stat (threads s t) = RT_THREAD_INIT"
| "usual_ok s (Wake_Round q) \<longleftrightarrow> started s \<and> wait_queue q \<and> queues s q \<noteq> []"
| "usual_ok s _ \<longleftrightarrow> started s"

text \<open>
  So the parts of a delete, of a resume and of a wake-up are admissible anywhere in a run as long as, when their turn
  comes, nothing that stood in between has undone the parts before: the thread is still off its list (\<open>loose\<close>), its timer
  is not started again, a waiter is still there. The delete of a ready thread is admissible in one piece only.
\<close>

text \<open>A thread that ends owns no mutex, and one that waits for a mutex is not resumed by hand.\<close>

fun owner_ok :: "kernel \<Rightarrow> kernel_event \<Rightarrow> bool" where
  "owner_ok s Thread_Exit \<longleftrightarrow> (\<exists>t. rt_current_thread s = Some t \<and> no_owner s t)"
| "owner_ok s (Resume t) \<longleftrightarrow> (\<forall>k. tlist (threads s t) \<noteq> Some (Mutex_Queue k))"
| "owner_ok s (Delete t) \<longleftrightarrow> no_owner s t"
| "owner_ok s (Detach_Thread t) \<longleftrightarrow> no_owner s t"
| "owner_ok s (Delete_Unlink t) \<longleftrightarrow> (\<forall>k. tlist (threads s t) \<noteq> Some (Mutex_Queue k))"
| "owner_ok s (Delete_Close t) \<longleftrightarrow> no_owner s t"
| "owner_ok s (Resume_Unlink t) \<longleftrightarrow> (\<forall>k. tlist (threads s t) \<noteq> Some (Mutex_Queue k))"
| "owner_ok s _ \<longleftrightarrow> True"

definition kernel_ok :: "kernel \<Rightarrow> kernel_event \<Rightarrow> bool" where
  [simp]: "kernel_ok s e \<longleftrightarrow> usual_ok s e \<and> owner_ok s e"

text \<open>
  The calls after which the best thread runs: not those that make a thread ready or change a priority without
  calling the scheduler. A release that gives back a lent priority while nobody waits is one of them.
\<close>

fun prompt :: "kernel \<Rightarrow> kernel_event \<Rightarrow> bool" where
  "prompt s (Resume _) = False"
| "prompt s (Change_Priority _ _) = False"
| "prompt s (Resume_Insert _) = False"
| "prompt s (Wake_Round _) = False"
| "prompt s (Sem_Detach _) = False"
| "prompt s (Mutex_Detach _) = False"
| "prompt s (Event_Detach _) = False"
| "prompt s (Mutex_Release k) = (\<forall>t. rt_current_thread s = Some t \<and> mutex_owner (mutexes s k) = Some t \<and> mutex_hold (mutexes s k) = 1 \<and>
     queues s (Mutex_Queue k) = [] \<longrightarrow> original_priority (mutexes s k) = current_priority (threads s t))"
| "prompt s _ = True"

fun touched :: "kernel_event \<Rightarrow> thread_id set" where
  "touched (Resume t) = {t}"
| "touched (Delete t) = {t}"
| "touched (Detach_Thread t) = {t}"
| "touched (Delete_Unlink t) = {t}"
| "touched (Delete_Timer t) = {t}"
| "touched (Delete_Close t) = {t}"
| "touched (Delete_Defunct t) = {t}"
| "touched (Resume_Unlink t) = {t}"
| "touched (Resume_Insert t) = {t}"
| "touched _ = {}"

fun given_back :: "kernel \<Rightarrow> kernel_event \<Rightarrow> (nat \<times> thread_id) set" where
  "given_back s (Mutex_Release k) = {(k, t) | t. rt_current_thread s = Some t}"
| "given_back s _ = {}"

section \<open>One step\<close>

lemma lock_ok:
  assumes "kinv s" "started s"
  shows "lock_nest s < 0x7fff \<Longrightarrow> step_ok X P s (Some (rt_enter_critical s))" "step_ok X P s (rt_exit_critical s)"
proof -
  have k: "kinv0 s" "current_ok s" "idle_ready s" using assms kinv_current by (auto simp: kinv_def started_def)
  have c: "kinv0 (s\<lparr> lock_nest := n \<rparr>)" for n using k(1) kinv0_cong [of "s\<lparr> lock_nest := n \<rparr>" s] by simp
  have cu: "current_ok (s\<lparr> lock_nest := n \<rparr>)" for n using k(2) by (simp add: current_ok_def)
  have st: "still X s (s\<lparr> lock_nest := n \<rparr>)" for n by (rule still_same) simp_all
  show "lock_nest s < 0x7fff \<Longrightarrow> step_ok X P s (Some (rt_enter_critical s))"
  proof -
    assume l: "lock_nest s < 0x7fff"
    have "lock_nest s + 1 \<noteq> 0"
    proof
      assume "lock_nest s + 1 = 0"
      then have "lock_nest s = - 1" by (simp add: eq_neg_iff_add_eq_0)
      then show False using l by simp
    qed
    then have "tops (rt_enter_critical s)" by (simp add: tops_def rt_enter_critical_def)
    then show ?thesis using c cu st by (intro step_okI) (simp_all add: rt_enter_critical_def kinv_def)
  qed
  show "step_ok X P s (rt_exit_critical s)"
  proof (cases "sint (lock_nest s - 1) \<le> 0")
    case True
    then have "rt_exit_critical s = rt_schedule (s\<lparr> lock_nest := 0 \<rparr>)" by (simp add: rt_exit_critical_def Let_def)
    then show ?thesis using then_schedule [OF c [of 0] _ _ st] cu [of 0] k(3) by simp
  next
    case False
    then have "lock_nest s - 1 \<noteq> 0" by auto
    then have "tops (s\<lparr> lock_nest := lock_nest s - 1 \<rparr>)" by (simp add: tops_def)
    then have "step_ok X P s (Some (s\<lparr> lock_nest := lock_nest s - 1 \<rparr>))" using c cu st by (intro step_okI) (simp_all add: kinv_def)
    then show ?thesis using False by (simp add: rt_exit_critical_def Let_def)
  qed
qed

lemma yield_step: "kinv s \<Longrightarrow> rt_current_thread s = Some c \<Longrightarrow> step_ok X (tops s) s (rt_thread_yield s)"
  using yield_ok [of s c] still_same by (fastforce simp: step_ok_def)

lemma scheduler_start_ok:
  assumes "kinv s" "\<not> started s" "idle_ready s" shows "step_ok X P s (rt_system_scheduler_start s)"
proof -
  obtain c where c: "highest_ready s = Some c" "top s c"
    by (rule highest_exists [OF kinv0_core [OF kinv_kinv0 [OF assms(1)]] assms(3)])
  define s' where "s' = s\<lparr> rt_current_thread := Some c \<rparr>"
  have "top s' c" using c(2) by (simp add: top_def prio_def s'_def)
  then have "tops s'" "current_ok s'" using assms(3) by (simp_all add: tops_def current_ok_def s'_def top_def)
  moreover have "kinv0 s'" using assms(1) kinv0_cong [of s' s] by (simp add: s'_def)
  ultimately have "step_ok X P s (Some s')"
    by (intro step_okI) (simp_all add: kinv_def s'_def still_same)
  then show ?thesis by (simp add: rt_system_scheduler_start_def c(1) s'_def)
qed

lemma schedule_step:
  assumes "kinv s" "started s" shows "step_ok X P s (rt_schedule s)"
  by (rule then_schedule) (use assms kinv_current in \<open>auto simp: kinv_def started_def\<close>)

lemma step_P: "step_ok X Q s r \<Longrightarrow> (P \<Longrightarrow> Q) \<Longrightarrow> step_ok X P s r"
  by (auto simp: step_ok_def)

lemma kcall_P: "kcall_ok X F Q s r \<Longrightarrow> (P \<Longrightarrow> Q) \<Longrightarrow> kcall_ok X F P s r"
  by (auto simp: kcall_ok_def)

lemma calls_ok:
  assumes "kinv s" "kernel_ok s e" "\<And>k time. e \<noteq> Sem_Take k time" "\<And>k time. e \<noteq> Mutex_Take k time" "\<And>k. e \<noteq> Mutex_Release k"
    "\<And>k w opt time. e \<noteq> Event_Recv k w opt time" "e \<noteq> Return" "e \<noteq> Tick_Irq"
  shows "step_ok (touched e) (tops s \<and> prompt s e) s (kernel_step s e)"
proof (cases e)
  case (Startup t)
  then show ?thesis using startup_ok(1) [OF assms(1), of t] assms(2) by (auto intro: step_P)
next
  case Scheduler_Start
  then show ?thesis using scheduler_start_ok [OF assms(1)] assms(2) by simp
next
  case Idle_Round
  then show ?thesis using idle_round_ok [OF assms(1)] by (auto intro: step_P)
next
  case Schedule
  then show ?thesis using schedule_step [OF assms(1)] assms(2) by simp
next
  case Enter_Critical
  then show ?thesis using lock_ok(1) [OF assms(1)] assms(2) by simp
next
  case Exit_Critical
  then show ?thesis using lock_ok(2) [OF assms(1)] assms(2) by simp
next
  case Yield
  then show ?thesis using yield_step [OF assms(1)] assms(2) by (auto simp: started_def intro: step_P)
next
  case (Sleep n)
  then obtain t where "rt_current_thread s = Some t" "t \<noteq> 0" "lock_nest s = 0" using assms(2) by (auto simp: may_block_def)
  then show ?thesis using sleep_ok(1) [OF assms(1)] assms(2) Sleep by simp
next
  case Thread_Exit
  then obtain t where "rt_current_thread s = Some t" "t \<noteq> 0" "lock_nest s = 0" "no_owner s t" using assms(2) by (auto simp: may_block_def)
  then show ?thesis using exit_ok [OF assms(1)] Thread_Exit by (simp add: no_owner_def)
next
  case (Suspend t)
  then show ?thesis using suspend_ok [OF assms(1), of t] assms(2) by (auto intro: step_P)
next
  case (Resume t)
  then show ?thesis using resume_ok [OF assms(1), of t] assms(2) by (auto intro: step_P)
next
  case (Delete t)
  then show ?thesis using delete_ok(1) [OF assms(1), of t] assms(2) by (auto simp: no_owner_def intro: step_P)
next
  case (Detach_Thread t)
  then show ?thesis using delete_ok(2) [OF assms(1), of t] assms(2) by (auto simp: no_owner_def intro: step_P)
next
  case (Change_Priority t p)
  then show ?thesis using change_ok [OF assms(1), of p] assms(2) by (auto intro: step_P)
next
  case (Sem_Release k)
  then show ?thesis using sem_release_ok [OF assms(1)] assms(2) by (auto simp: started_def intro: step_P)
next
  case (Sem_Reset k v)
  then show ?thesis using sem_reset_ok [OF assms(1)] assms(2) by (simp add: started_def)
next
  case (Sem_Detach k)
  then show ?thesis using detach_ok [OF assms(1)] by (auto intro: step_P)
next
  case (Mutex_Detach k)
  then show ?thesis using detach_ok [OF assms(1)] by (auto intro: step_P)
next
  case (Event_Send k flags)
  then show ?thesis using event_send_ok [OF assms(1)] assms(2) by (auto simp: started_def intro: step_P)
next
  case (Event_Reset k)
  then show ?thesis using event_reset_ok [OF assms(1)] assms(2) by (simp add: started_def)
next
  case (Event_Detach k)
  then show ?thesis using detach_ok [OF assms(1)] by (auto intro: step_P)
next
  case (Delete_Unlink t)
  then show ?thesis using delete_unlink_ok [OF assms(1), of t] assms(2) by (auto intro: step_P)
next
  case (Delete_Timer t)
  then show ?thesis using delete_timer_ok [OF assms(1), of t] by (auto intro: step_P)
next
  case (Delete_Close t)
  then show ?thesis using delete_close_ok [OF assms(1), of t] assms(2) by (auto simp: no_owner_def intro: step_P)
next
  case (Delete_Defunct t)
  then show ?thesis using delete_defunct_ok [OF assms(1), of t] assms(2) by (auto intro: step_P)
next
  case (Resume_Unlink t)
  then show ?thesis using resume_unlink_ok [OF assms(1), of t] assms(2) by (auto intro: step_P)
next
  case (Resume_Insert t)
  then show ?thesis using resume_insert_ok [OF assms(1), of t] assms(2) by (auto intro: step_P)
next
  case (Startup_Prepare t)
  then show ?thesis using startup_prepare_ok [OF assms(1), of t] assms(2) by (auto intro: step_P)
next
  case (Wake_Round q)
  then show ?thesis using wake_round_ok [OF assms(1), of q] assms(2) by (auto intro: step_P)
qed (use assms(3-8) in simp_all)

lemma kernel_call:
  assumes "kinv s" "kernel_ok s e" "e \<noteq> Tick_Irq"
  shows "kcall_ok (touched e) (given_back s e) (tops s \<and> prompt s e) s (kernel_step s e)"
proof -
  have free: "\<exists>t. rt_current_thread s = Some t \<and> th_inside (threads s t) = None" if "free_caller s" using that by (simp add: free_caller_def split: option.splits)
  show ?thesis
  proof (cases e)
    case (Sem_Take k time)
    then obtain t where t: "rt_current_thread s = Some t" "th_inside (threads s t) = None" using assms(2) free by auto
    have "kcall_ok (touched e) (given_back s e) (tops s) s (rt_sem_take k time s)"
      by (rule sem_take_ok [OF assms(1) t(1)]) (use assms(2) Sem_Take t(2) in \<open>auto simp: waits_ok_def\<close>)
    then show ?thesis using Sem_Take by (auto intro: kcall_P)
  next
    case (Mutex_Take k time)
    then obtain t where t: "rt_current_thread s = Some t" "th_inside (threads s t) = None" using assms(2) free by auto
    have "kcall_ok (touched e) (given_back s e) (tops s) s (rt_mutex_take k time s)"
      by (rule mutex_take_ok [OF assms(1) t]) (use assms(2) Mutex_Take t(1) in \<open>auto simp: waits_ok_def\<close>)
    then show ?thesis using Mutex_Take by (auto intro: kcall_P)
  next
    case (Mutex_Release k)
    then obtain t where t: "rt_current_thread s = Some t" "th_inside (threads s t) = None" using assms(2) free by auto
    then show ?thesis using mutex_release_ok [OF assms(1) t, of "{}" k] Mutex_Release by (auto intro: kcall_P)
  next
    case (Event_Recv k w opt time)
    then obtain t where t: "rt_current_thread s = Some t" "th_inside (threads s t) = None" using assms(2) free by auto
    have "kcall_ok (touched e) (given_back s e) (tops s) s (rt_event_recv k w opt time s)"
      by (rule event_recv_ok [OF assms(1) t]) (use assms(2) Event_Recv in \<open>auto simp: waits_ok_def\<close>)
    then show ?thesis using Event_Recv by (auto intro: kcall_P)
  next
    case Return
    then obtain t where t: "rt_current_thread s = Some t" "th_inside (threads s t) \<noteq> None"
      using assms(2) by (auto simp: started_def free_caller_def split: option.splits)
    then show ?thesis using call_end_ok [OF assms(1) t] Return by (auto intro: kcall_P)
  qed (use calls_ok [OF assms(1,2)] assms(3) in \<open>auto intro!: step_kcall\<close>)
qed

end
