(* ===== verification/Rt_Kernel_Hazards.thy ===== *)
theory Rt_Kernel_Hazards
  imports Rt_Kernel_Run
begin

text \<open>
  Sample runs of the kernel, evaluated, and those where it does not do what it should: lent priorities that are not
  given back, threads that wait although they are the best, waits that report success without having got anything.
\<close>

section \<open>Samples\<close>

text \<open>Thread 0 is the idle thread; of the others a smaller number is a better priority.\<close>

definition sample_priority :: "thread_id \<Rightarrow> u8" where
  "sample_priority t = (if t = 0 then 31 else if t < 4 then of_nat (4 + t) else 8)"

abbreviation sample_start :: kernel where
  "sample_start \<equiv> kernel_start sample_priority (\<lambda>_. 5) (\<lambda>_. False) (\<lambda>_. 0) True 0"

definition sample_run :: "kernel_event list \<Rightarrow> kernel option" where
  "sample_run es = run_steps kernel_step sample_start es"

text \<open>Thread 3 takes mutex 0; the better thread 1 waits for it, 3 ticks at most; thread 2, between them, gets ready.\<close>

definition contend :: "kernel_event list" where
  "contend = [Startup 0, Startup 3, Scheduler_Start, Mutex_Take 0 0, Startup 1, Mutex_Take 0 3, Startup 2]"

definition give_up :: "kernel_event list" where
  "give_up = [Tick_Irq, Tick_Irq, Tick_Irq, Yield, Return, Sleep 100]"

text \<open>What is looked at: the running thread, the priority and the state of a thread, the owner of a mutex, the results.\<close>

definition view :: "thread_id \<Rightarrow> nat \<Rightarrow> kernel option \<Rightarrow> (thread_id option \<times> u8 \<times> thread_stat \<times> thread_id option) option" where
  "view t k r = map_option (\<lambda>s. (rt_current_thread s, current_priority (threads s t), stat (threads s t), mutex_owner (mutexes s k))) r"

definition last_result :: "kernel option \<Rightarrow> (thread_id \<times> inside \<times> rt_err) option" where
  "last_result r = (case r of None \<Rightarrow> None | Some s \<Rightarrow> if results s = [] then None else Some (last (results s)))"

lemma sample_priorities: "unat (sample_priority t) < 32"
proof (cases "t < 4")
  case True
  then have "t = 0 \<or> t = 1 \<or> t = 2 \<or> t = 3" by auto
  then show ?thesis by (auto simp: sample_priority_def)
qed (simp add: sample_priority_def)

lemma inputs_ok_conj:
  "inputs_ok step P s es \<Longrightarrow> (\<And>s e. e \<in> set es \<Longrightarrow> Q s e) \<Longrightarrow> inputs_ok step (\<lambda>s e. P s e \<and> Q s e) s es"
  by (induction es arbitrary: s) (auto split: option.splits)

lemma inputs_ok_weak:
  "inputs_ok step P s es \<Longrightarrow> (\<And>s e. P s e \<Longrightarrow> Q s e) \<Longrightarrow> inputs_ok step Q s es"
  by (induction es arbitrary: s) (auto split: option.splits)

section \<open>Priorities\<close>

text \<open>
  The owner is lent the priority of the waiter; when the waiter has given up it still has it, and it gives it back
  when it releases the mutex, but goes on running although thread 2 is ready and has the better priority.
\<close>

lemma lent_priority_kept:
  "view 3 0 (sample_run contend) = Some (Some 3, 5, RT_THREAD_READY, Some 3)"
  "last_result (sample_run (contend @ give_up)) = Some (1, In_Mutex 0, RT_ETIMEOUT)"
  "view 3 0 (sample_run (contend @ give_up)) = Some (Some 3, 5, RT_THREAD_READY, Some 3)"
  by code_simp+

lemma better_thread_waits:
  "view 3 0 (sample_run (contend @ give_up @ [Mutex_Release 0])) = Some (Some 3, 7, RT_THREAD_READY, None)"
  "view 2 0 (sample_run (contend @ give_up @ [Mutex_Release 0])) = Some (Some 3, 6, RT_THREAD_READY, None)"
  by code_simp+

text \<open>
  A second mutex that is taken while the priority is lent restores the lent one when it is released last: thread 3 owns
  nothing any more and runs with the priority of thread 1.
\<close>

lemma raised_for_good:
  "view 3 1 (sample_run (contend @ [Mutex_Take 1 0, Mutex_Release 0, Return, Sleep 100, Sleep 100, Mutex_Release 1]))
     = Some (Some 3, 5, RT_THREAD_READY, None)"
  "view 3 0 (sample_run (contend @ [Mutex_Take 1 0, Mutex_Release 0, Return, Sleep 100, Sleep 100, Mutex_Release 1]))
     = Some (Some 3, 5, RT_THREAD_READY, Some 1)"
  by code_simp+

text \<open>A detached semaphore makes its waiter ready, and the worse thread goes on running.\<close>

lemma detach_without_switch:
  "view 1 0 (sample_run [Startup 0, Startup 3, Scheduler_Start, Startup 1, Sem_Take 0 10, Sem_Detach 0])
     = Some (Some 3, 5, RT_THREAD_READY, None)"
  by code_simp

section \<open>Success without the object\<close>

text \<open>A waiter that is resumed by hand, and one that waits while the scheduler is locked, believe they own the mutex.\<close>

lemma resumed_without_mutex:
  "last_result (sample_run (contend @ [Resume 1, Schedule, Yield, Return])) = Some (1, In_Mutex 0, RT_EOK)"
  "view 1 0 (sample_run (contend @ [Resume 1, Schedule, Yield, Return])) = Some (Some 1, 5, RT_THREAD_READY, Some 3)"
  by code_simp+

definition locked_wait :: "kernel_event list" where
  "locked_wait = [Startup 0, Startup 3, Scheduler_Start, Mutex_Take 0 0, Startup 1, Enter_Critical, Mutex_Take 0 3, Return]"

lemma locked_without_mutex:
  "last_result (sample_run locked_wait) = Some (1, In_Mutex 0, RT_EOK)"
  "view 1 0 (sample_run locked_wait) = Some (Some 1, 5, RT_THREAD_SUSPEND, Some 3)"
  by code_simp+

text \<open>Its node is still in the list of the mutex when it waits a second time: it is linked twice.\<close>

lemma linked_twice: "view 1 0 (sample_run (locked_wait @ [Mutex_Take 0 3])) = None"
  by code_simp

text \<open>A deleted owner leaves its mutex locked for ever.\<close>

lemma orphaned_mutex:
  "last_result (sample_run [Startup 0, Startup 3, Startup 1, Scheduler_Start, Mutex_Take 0 0, Sleep 5, Delete 1, Mutex_Take 0 0])
     = Some (3, In_Mutex 0, RT_ETIMEOUT)"
  "view 1 0 (sample_run [Startup 0, Startup 3, Startup 1, Scheduler_Start, Mutex_Take 0 0, Sleep 5, Delete 1, Mutex_Take 0 0])
     = Some (Some 3, 5, RT_THREAD_CLOSE, Some 1)"
  by code_simp+

section \<open>Calls that are not atomic\<close>

text \<open>
  Thread 1 deletes thread 3, which sleeps. Nothing in between: it ends up in the defunct list. A tick on which the sleep
  ends after the first part: the timer has put it into the ready row again when it is marked as closed, and there it
  is linked a second time.
\<close>

definition sleeping3 :: "kernel_event list" where
  "sleeping3 = [Startup 0, Startup 3, Scheduler_Start, Sleep 1, Startup 1]"

definition lists_of :: "thread_id \<Rightarrow> kernel option \<Rightarrow> (thread_stat \<times> queue option \<times> thread_id list \<times> thread_id list) option" where
  "lists_of t r = map_option (\<lambda>s. (stat (threads s t), tlist (threads s t), queues s (Ready_Row (prio s t)), queues s Defunct)) r"

lemma delete_in_parts:
  "lists_of 3 (sample_run (sleeping3 @ [Delete_Unlink 3, Delete_Timer 3, Tick_Irq, Delete_Close 3, Tick_Irq, Delete_Defunct 3])) =
     Some (RT_THREAD_CLOSE, Some Defunct, [], [3])"
  by code_simp

lemma delete_races_tick:
  "lists_of 3 (sample_run (sleeping3 @ [Delete_Unlink 3, Tick_Irq, Delete_Timer 3, Delete_Close 3])) =
     Some (RT_THREAD_CLOSE, Some (Ready_Row 7), [3], [])"
  "sample_run (sleeping3 @ [Delete_Unlink 3, Tick_Irq, Delete_Timer 3, Delete_Close 3, Delete_Defunct 3]) = None"
proof -
  show "lists_of 3 (sample_run (sleeping3 @ [Delete_Unlink 3, Tick_Irq, Delete_Timer 3, Delete_Close 3])) =
      Some (RT_THREAD_CLOSE, Some (Ready_Row 7), [3], [])"
    by code_simp
  have "lists_of 3 (sample_run (sleeping3 @ [Delete_Unlink 3, Tick_Irq, Delete_Timer 3, Delete_Close 3, Delete_Defunct 3])) = None"
    by code_simp
  then show "sample_run (sleeping3 @ [Delete_Unlink 3, Tick_Irq, Delete_Timer 3, Delete_Close 3, Delete_Defunct 3]) = None"
    by (simp add: lists_of_def)
qed

text \<open>
  Two resumes of one thread, the second by an interrupt between the parts of the first: it is linked twice. And the only
  waiter of a semaphore gives up between the test of the loop that wakes them all and its round.
\<close>

lemma resume_races_resume:
  "lists_of 3 (sample_run (sleeping3 @ [Resume_Unlink 3, Resume_Insert 3])) = Some (RT_THREAD_READY, Some (Ready_Row 7), [3], [])"
  "lists_of 3 (sample_run (sleeping3 @ [Resume_Unlink 3, Resume 3, Resume_Insert 3])) = None"
  by code_simp+

lemma wake_all_races_tick:
  "lists_of 3 (sample_run [Startup 0, Startup 3, Scheduler_Start, Sem_Take 0 1, Startup 1, Wake_Round (Sem_Queue 0), Tick_Irq]) =
     Some (RT_THREAD_READY, Some (Ready_Row 7), [3], [])"
  "lists_of 3 (sample_run [Startup 0, Startup 3, Scheduler_Start, Sem_Take 0 1, Startup 1, Tick_Irq, Wake_Round (Sem_Queue 0)]) = None"
  by code_simp+

section \<open>Counters\<close>

text \<open>The counter of a semaphore wraps.\<close>

lemma sem_value_wraps:
  "queues s (Sem_Queue k) = [] \<Longrightarrow> sem_value (sems s k) = 0xffff \<Longrightarrow>
     map_option (\<lambda>s. sem_value (sems s k)) (rt_sem_release k s) = Some 0"
  by (simp add: rt_sem_release_def upd_sem_def)

end
