(* ===== verification/Rt_Kernel_Properties.thy ===== *)
theory Rt_Kernel_Properties
  imports Rt_Kernel_Hazards
begin

text \<open>
  What holds along every admissible run of the kernel: lists, bits and states agree, the best thread runs, sleeps end on
  time, no wake-up is lost, mutexes exclude; and where the code does not do what it should.
\<close>

section \<open>Runs\<close>

definition priorities_ok :: "(thread_id \<Rightarrow> u8) \<Rightarrow> bool" where
  "priorities_ok priority \<longleftrightarrow> (\<forall>t. unat (priority t) < 32)"

lemma start_kinv:
  assumes "priorities_ok priority"
  shows "kinv (kernel_start priority ticks static value by_prio tick)" "tops (kernel_start priority ticks static value by_prio tick)"
  using assms
  by (simp_all add: kinv_def kinv0_def core_def current_ok_def kernel_start_def links_def group_ok_def threads_ok_def timers_ok_def
      sane_def well_placed_def init_thread_def objects_ok_def mutex_ok_def inside_ok_def wtimers_def linv_def rt_system_timer_init_def
      init_timer_def priorities_ok_def tops_def)

lemma kernel_step_kinv:
  assumes "kinv s" "kernel_ok s e"
  shows "\<exists>s'. kernel_step s e = Some s' \<and> kinv s' \<and> (tops s \<and> prompt s e \<longrightarrow> tops s')"
proof (cases "e = Tick_Irq")
  case True
  then obtain c where c: "rt_current_thread s = Some c" using assms(2) by (auto simp: started_def)
  obtain s' where "tick_increase s = Some s'" "kinv s'" "tops s \<longrightarrow> tops s'" by (rule tick_ok [OF assms(1) c])
  then show ?thesis using True by simp
next
  case False
  then show ?thesis using kernel_call [OF assms False] by (auto simp: kcall_ok_def)
qed

interpretation kn: safe_machine kernel_step kinv kernel_ok
  using kernel_step_kinv by unfold_locales blast

interpretation kt: safe_machine kernel_step "\<lambda>s. kinv s \<and> tops s" "\<lambda>s e. kernel_ok s e \<and> prompt s e"
  using kernel_step_kinv by unfold_locales blast

lemma inputs_ok_front: "inputs_ok step ok s (es @ fs) \<Longrightarrow> inputs_ok step ok s es"
  by (induction es arbitrary: s) (auto split: option.splits)

lemma inputs_ok_last: "inputs_ok step ok s (es @ [e]) \<Longrightarrow> run_steps step s es = Some s' \<Longrightarrow> ok s' e"
  by (induction es arbitrary: s) (auto simp: bind_eq_Some_conv split: option.splits)

section \<open>Lists, bits and states\<close>

definition consistent :: "kernel \<Rightarrow> bool" where
  "consistent s \<longleftrightarrow>
     (\<forall>q. distinct (queues s q)) \<and>
     (\<forall>q r t. t \<in> set (queues s q) \<and> t \<in> set (queues s r) \<longrightarrow> q = r) \<and>
     (\<forall>t. stat (threads s t) = RT_THREAD_READY \<longleftrightarrow> t \<in> set (queues s (Ready_Row (prio s t)))) \<and>
     (\<forall>p t. t \<in> set (queues s (Ready_Row p)) \<longrightarrow> p = prio s t) \<and>
     (\<forall>p. bit (ready_priority_group s) p \<longleftrightarrow> p < 32 \<and> queues s (Ready_Row p) \<noteq> []) \<and>
     (\<forall>q t. wait_queue q \<and> t \<in> set (queues s q) \<longrightarrow> stat (threads s t) = RT_THREAD_SUSPEND) \<and>
     (\<forall>t \<in> set (rt_timer_list (ktimers s)). stat (threads s t) = RT_THREAD_SUSPEND)"

lemma kinv_consistent: "kinv s \<Longrightarrow> consistent s"
proof -
  assume "kinv s"
  then have c: "core s" using kinv0_core by simp
  note d = coreD [OF c]
  have "t \<in> set (queues s (Ready_Row (prio s t))) \<longleftrightarrow> stat (threads s t) = RT_THREAD_READY" for t
    using core_ready(2) [OF c, of t] core_place(2) [OF c, of t "Ready_Row (prio s t)" "prio s t"] by auto
  moreover have "p = prio s t" if "t \<in> set (queues s (Ready_Row p))" for p t
    using core_place(2) [OF c that, of p] by simp
  moreover have "q = r" if "t \<in> set (queues s q)" "t \<in> set (queues s r)" for q r t
    using core_place(1) [OF c that(1)] core_place(1) [OF c that(2)] by simp
  ultimately show ?thesis
    unfolding consistent_def using d(1,2,8) core_place(3) [OF c] by (auto simp: group_ok_def)
qed

lemma waiter_blocked:
  assumes "objects_ok s" "t \<in> set (queues s q)"
  shows "case q of
      Sem_Queue k \<Rightarrow> sem_value (sems s k) = 0
    | Mutex_Queue k \<Rightarrow> (\<exists>u. mutex_owner (mutexes s k) = Some u \<and> stat (threads s u) \<in> {RT_THREAD_READY, RT_THREAD_SUSPEND})
    | Event_Queue k \<Rightarrow> \<not> event_there (event_set (threads s t)) (event_info (threads s t)) (ev_set (events s k))
    | _ \<Rightarrow> True"
proof (cases q)
  case (Sem_Queue k)
  have "0 < sem_value (sems s k) \<longrightarrow> queues s (Sem_Queue k) = []" using assms(1) by (simp add: objects_ok_def)
  then show ?thesis using Sem_Queue assms(2) by (auto simp: word_gt_0)
next
  case (Mutex_Queue k)
  have "mutex_ok (mutexes s k) (queues s (Mutex_Queue k)) (threads s)" using assms(1) by (simp add: objects_ok_def)
  then show ?thesis using Mutex_Queue assms(2) by (auto simp: mutex_ok_def live_def split: option.splits)
qed (use assms in \<open>auto simp: objects_ok_def\<close>)

section \<open>Sleeping\<close>

definition tick_count :: "kernel_event list \<Rightarrow> nat" where
  "tick_count es = length (filter (\<lambda>e. e = Tick_Irq) es)"

lemma tick_count_simps [simp]: "tick_count [] = 0" "tick_count (e # es) = (if e = Tick_Irq then Suc (tick_count es) else tick_count es)"
  by (simp_all add: tick_count_def)

lemma asleep_step:
  assumes "kinv s" "kernel_ok s e" "asleep n x s" "x \<notin> touched e" "e = Tick_Irq \<Longrightarrow> 1 < n"
  shows "\<exists>s'. kernel_step s e = Some s' \<and> kinv s' \<and> asleep (if e = Tick_Irq then n - 1 else n) x s'"
proof (cases "e = Tick_Irq")
  case True
  then obtain c where c: "rt_current_thread s = Some c" using assms(2) by (auto simp: started_def)
  obtain s' where s': "tick_increase s = Some s'" "kinv s'"
    "\<forall>x n. asleep n x s \<longrightarrow> (if n = 1 then stat (threads s' x) = RT_THREAD_READY else asleep (n - 1) x s')"
    by (rule tick_ok [OF assms(1) c])
  have "asleep (n - 1) x s'" using s'(3) [rule_format, OF assms(3)] assms(5) [OF True] by simp
  then show ?thesis using True s'(1,2) by simp
next
  case False
  obtain s' where s': "kernel_step s e = Some s'" "kinv s'" "still (touched e) s s'"
    using kernel_call [OF assms(1,2) False] by (auto simp: kcall_ok_def)
  have "calm x s s'" using s'(3) assms(3,4) by (simp add: still_def asleep_def)
  then have "asleep n x s'" using assms(3) kept_due by (auto simp: asleep_def sleeper_def calm_def kept_def due_def)
  then show ?thesis using False s'(1,2) by simp
qed

lemma asleep_run:
  assumes "kinv s" "inputs_ok kernel_step kernel_ok s es" "asleep n x s" "\<forall>e \<in> set es. x \<notin> touched e" "tick_count es < n"
  shows "\<exists>s'. run_steps kernel_step s es = Some s' \<and> kinv s' \<and> asleep (n - tick_count es) x s'"
  using assms
proof (induction es arbitrary: s n)
  case (Cons e es)
  have t: "e = Tick_Irq \<Longrightarrow> 1 < n" using Cons.prems(5) by simp
  obtain s1 where s1: "kernel_step s e = Some s1" "kinv s1" "asleep (if e = Tick_Irq then n - 1 else n) x s1"
    using asleep_step [OF Cons.prems(1) _ Cons.prems(3) _ t] Cons.prems(2,4) by auto
  have "\<exists>s'. run_steps kernel_step s1 es = Some s' \<and> kinv s' \<and> asleep ((if e = Tick_Irq then n - 1 else n) - tick_count es) x s'"
    by (rule Cons.IH [OF s1(2) _ s1(3)]) (use Cons.prems(2,4,5) s1(1) t in auto)
  then show ?case using s1(1) by (auto simp: diff_diff_left split: if_splits)
qed simp

lemma sleep_step:
  assumes "kinv s" "rt_current_thread s = Some t" "kernel_ok s (Sleep n)"
  shows "\<exists>s'. kernel_step s (Sleep n) = Some s' \<and> kinv s' \<and> asleep (unat n) t s'"
proof -
  have t: "t \<noteq> 0" "lock_nest s = 0" "0 < n" "n < HALF_TICK_MAX" using assms(2,3) by (auto simp: may_block_def)
  obtain s' where "rt_thread_sleep n s = Some s'" "asleep (unat n) t s'" using sleep_ok(2) [OF assms(1,2) t] by blast
  then show ?thesis using kernel_step_kinv [OF assms(1,3)] by simp
qed

lemma wakes:
  assumes "kinv s" "asleep n x s" "kernel_ok s Tick_Irq"
  shows "\<exists>s'. kernel_step s Tick_Irq = Some s' \<and> stat (threads s' x) = (if n = 1 then RT_THREAD_READY else RT_THREAD_SUSPEND)"
proof -
  obtain c where c: "rt_current_thread s = Some c" using assms(3) by (auto simp: started_def)
  obtain s' where s': "tick_increase s = Some s'"
    "\<forall>x n. asleep n x s \<longrightarrow> (if n = 1 then stat (threads s' x) = RT_THREAD_READY else asleep (n - 1) x s')"
    by (rule tick_ok [OF assms(1) c])
  have "stat (threads s' x) = (if n = 1 then RT_THREAD_READY else RT_THREAD_SUSPEND)"
    using s'(2) [rule_format, OF assms(2)] by (auto simp: asleep_def sleeper_def split: if_splits)
  then show ?thesis using s'(1) by simp
qed

section \<open>Owners\<close>

definition not_released :: "nat \<Rightarrow> thread_id \<Rightarrow> kernel \<Rightarrow> kernel_event \<Rightarrow> bool" where
  "not_released k t s e \<longleftrightarrow> \<not> (e = Mutex_Release k \<and> rt_current_thread s = Some t)"

lemma owner_step:
  assumes "kinv s" "kernel_ok s e" "kernel_step s e = Some s'"
  shows "log_ok s s'" "mutex_owner (mutexes s k) = Some t \<Longrightarrow> not_released k t s e \<Longrightarrow> mutex_owner (mutexes s' k) = Some t"
proof -
  have "log_ok s s' \<and> keeps (given_back s e) s s'"
  proof (cases "e = Tick_Irq")
    case True
    then obtain c where c: "rt_current_thread s = Some c" using assms(2) by (auto simp: started_def)
    obtain s1 where "tick_increase s = Some s1" "mutexes s1 = mutexes s" "results s1 = results s" by (rule tick_ok [OF assms(1) c])
    then show ?thesis using True assms(3) by (simp add: keeps_same log_same)
  next
    case False
    then show ?thesis using kernel_call [OF assms(1,2) False] assms(3) by (auto simp: kcall_ok_def)
  qed
  then show "log_ok s s'" "mutex_owner (mutexes s k) = Some t \<Longrightarrow> not_released k t s e \<Longrightarrow> mutex_owner (mutexes s' k) = Some t"
    by (cases e; auto simp: keeps_def not_released_def)+
qed

lemma owner_run:
  assumes "kinv s" "mutex_owner (mutexes s k) = Some t" "inputs_ok kernel_step (\<lambda>s e. kernel_ok s e \<and> not_released k t s e) s es"
    "run_steps kernel_step s es = Some s'"
  shows "\<exists>new. results s' = results s @ new \<and> (\<forall>u. (u, In_Mutex k, RT_EOK) \<in> set new \<longrightarrow> u = t)"
  using assms
proof (induction es arbitrary: s)
  case (Cons e es)
  obtain s1 where s1: "kernel_step s e = Some s1" "run_steps kernel_step s1 es = Some s'"
    using Cons.prems(4) by (auto simp: bind_eq_Some_conv)
  have ok: "kernel_ok s e" "not_released k t s e" "inputs_ok kernel_step (\<lambda>s e. kernel_ok s e \<and> not_released k t s e) s1 es"
    using Cons.prems(3) s1(1) by auto
  have k1: "kinv s1" using kernel_step_kinv [OF Cons.prems(1) ok(1)] s1(1) by simp
  note o = owner_step [OF Cons.prems(1) ok(1) s1(1)]
  have o1: "mutex_owner (mutexes s1 k) = Some t" by (rule o(2) [OF Cons.prems(2) ok(2)])
  obtain new where new: "results s1 = results s @ new" "\<forall>u. (u, In_Mutex k, RT_EOK) \<in> set new \<longrightarrow> mutex_owner (mutexes s1 k) = Some u"
    using o(1) by (auto simp: log_ok_def)
  obtain more where more: "results s' = results s1 @ more" "\<forall>u. (u, In_Mutex k, RT_EOK) \<in> set more \<longrightarrow> u = t"
    using Cons.IH [OF k1 o1 ok(3) s1(2)] by blast
  show ?case using new more o1 by (intro exI [of _ "new @ more"]) auto
qed simp

section \<open>Properties\<close>

text \<open>
  C33: From the start on, every sequence of admissible steps runs on: nothing is linked twice, no assertion fails, no
  wake-up loop runs on for ever. Afterwards lists, bits and states agree: a thread is ready if and only if it is in the
  row of its priority, a bit of the group is set if and only if its row is not empty, no thread is in two lists, and only
  suspended threads wait or have a running timer. The steps are ticks, whole calls (up to a switch, which is taken with
  the call), and the parts of the calls that do not disable interrupts as a whole, with anything in between them.
  Admissible (\<open>kernel_ok\<close>) means: priorities below 32; times of less than half the range of the tick counter; a thread
  waits only if it is not the idle thread and the scheduler is not locked; no call while the caller is inside of another;
  recursion depth and lock depth in range; only threads that are not started are started; the running and the idle thread
  are not suspended or deleted by others, nor are owners of mutexes deleted; a thread that waits for a mutex is neither
  resumed by hand nor deleted in parts; a ready thread is not deleted in parts; and a part of a delete, a resume or a
  wake-up finds what the part before left (\<open>delete_races_tick\<close>, \<open>resume_races_resume\<close>, \<open>wake_all_races_tick\<close> show runs
  in which it does not).
\<close>

theorem kernel_consistent:
  assumes "priorities_ok priority" "inputs_ok kernel_step kernel_ok (kernel_start priority ticks static value by_prio tick) es"
  shows "\<exists>s. run_steps kernel_step (kernel_start priority ticks static value by_prio tick) es = Some s \<and> consistent s"
  using kn.run_safe [OF start_kinv(1) [OF assms(1)] assms(2)] kinv_consistent by auto

text \<open>
  C34: While the scheduler is not locked, the running thread is ready, the first of its row, and no ready thread has a
  higher priority, after every admissible run without the steps that make a thread ready or change a priority without
  calling the scheduler (\<open>prompt\<close>): no \<open>rt_thread_resume\<close> by hand, no change of a priority by \<open>rt_thread_control\<close>, no
  detach of a semaphore, a mutex or an event (nor a round of its wake-up), and no \<open>rt_mutex_release\<close> that gives back a
  lent priority while nobody waits for the mutex. The last exception is needed in normal use: \<open>better_thread_waits\<close>.
\<close>

theorem highest_priority_runs:
  assumes "priorities_ok priority"
    "inputs_ok kernel_step (\<lambda>s e. kernel_ok s e \<and> prompt s e) (kernel_start priority ticks static value by_prio tick) es"
    "run_steps kernel_step (kernel_start priority ticks static value by_prio tick) es = Some s"
    "rt_current_thread s = Some c" "lock_nest s = 0"
  shows "stat (threads s c) = RT_THREAD_READY \<and> (\<exists>ts. queues s (Ready_Row (prio s c)) = c # ts) \<and>
    (\<forall>u. stat (threads s u) = RT_THREAD_READY \<longrightarrow> prio s c \<le> prio s u)"
proof -
  have "tops s" using kt.run_inv [OF _ assms(2,3)] start_kinv [OF assms(1)] by simp
  then show ?thesis using assms(4,5) by (simp add: tops_def top_def)
qed

text \<open>
  C35: A thread that sleeps for n ticks, n less than half the range of the tick counter, is suspended until the n-th tick
  and is ready after it, not earlier and not later, in every admissible run in which no step resumes, deletes or detaches
  this thread (\<open>touched\<close>), in one piece or in parts. What the other threads do otherwise does not matter.
\<close>

theorem sleep_ends_on_time:
  assumes "priorities_ok priority"
    "inputs_ok kernel_step kernel_ok (kernel_start priority ticks static value by_prio tick) es"
    "run_steps kernel_step (kernel_start priority ticks static value by_prio tick) es = Some s"
    "rt_current_thread s = Some t" "inputs_ok kernel_step kernel_ok s (Sleep n # fs @ [Tick_Irq])"
    "\<forall>e \<in> set fs. t \<notin> touched e" "tick_count fs < unat n"
  shows "\<exists>s1 s2. run_steps kernel_step s (Sleep n # fs) = Some s1 \<and> stat (threads s1 t) = RT_THREAD_SUSPEND \<and>
    kernel_step s1 Tick_Irq = Some s2 \<and> stat (threads s2 t) = (if Suc (tick_count fs) = unat n then RT_THREAD_READY else RT_THREAD_SUSPEND)"
proof -
  have k: "kinv s" using kn.run_inv [OF start_kinv(1) [OF assms(1)] assms(2,3)] .
  have ok: "kernel_ok s (Sleep n)" using assms(5) by simp
  obtain s0 where s0: "kernel_step s (Sleep n) = Some s0" "kinv s0" "asleep (unat n) t s0"
    using sleep_step [OF k assms(4) ok] by blast
  have i: "inputs_ok kernel_step kernel_ok s0 (fs @ [Tick_Irq])" using assms(5) s0(1) by simp
  obtain s1 where s1: "run_steps kernel_step s0 fs = Some s1" "kinv s1" "asleep (unat n - tick_count fs) t s1"
    using asleep_run [OF s0(2) inputs_ok_front [OF i] s0(3) assms(6,7)] by blast
  have "kernel_ok s1 Tick_Irq" using inputs_ok_last [OF i s1(1)] .
  then obtain s2 where s2: "kernel_step s1 Tick_Irq = Some s2"
    "stat (threads s2 t) = (if unat n - tick_count fs = 1 then RT_THREAD_READY else RT_THREAD_SUSPEND)"
    using wakes [OF s1(2,3)] by auto
  have "(unat n - tick_count fs = 1) = (Suc (tick_count fs) = unat n)" using assms(7) by auto
  moreover have "stat (threads s1 t) = RT_THREAD_SUSPEND" using s1(3) by (simp add: asleep_def sleeper_def)
  ultimately show ?thesis using s0(1) s1(1) s2 by simp
qed

text \<open>
  C36: No wake-up is lost: while a thread waits for a semaphore its value is 0, while one waits for a mutex the mutex
  has an owner that can still run, and while one waits for event flags they are not there.
\<close>

theorem no_lost_wakeup:
  assumes "priorities_ok priority"
    "inputs_ok kernel_step kernel_ok (kernel_start priority ticks static value by_prio tick) es"
    "run_steps kernel_step (kernel_start priority ticks static value by_prio tick) es = Some s"
    "t \<in> set (queues s q)"
  shows "case q of
      Sem_Queue k \<Rightarrow> sem_value (sems s k) = 0
    | Mutex_Queue k \<Rightarrow> (\<exists>u. mutex_owner (mutexes s k) = Some u \<and> stat (threads s u) \<in> {RT_THREAD_READY, RT_THREAD_SUSPEND})
    | Event_Queue k \<Rightarrow> \<not> event_there (event_set (threads s t)) (event_info (threads s t)) (ev_set (events s k))
    | _ \<Rightarrow> True"
proof -
  have "objects_ok s" using kn.run_inv [OF start_kinv(1) [OF assms(1)] assms(2,3)] by (simp add: kinv_def kinv0_def)
  then show ?thesis using assms(4) waiter_blocked by blast
qed

text \<open>
  C37: A mutex excludes along admissible runs: from the step on that lets \<open>rt_mutex_take\<close> return success to a thread until
  this thread releases the mutex, it returns success to no other thread. Admissible leaves out what breaks this in the
  code: a thread that waits for a mutex is not resumed by \<open>rt_thread_resume\<close> and not deleted in parts
  (\<open>resumed_without_mutex\<close>), no thread waits while the scheduler is locked (\<open>locked_without_mutex\<close>), and no thread is
  deleted or exits while it owns a mutex.
\<close>

theorem mutex_excludes:
  assumes "priorities_ok priority"
    "inputs_ok kernel_step kernel_ok (kernel_start priority ticks static value by_prio tick) (es @ [e])"
    "run_steps kernel_step (kernel_start priority ticks static value by_prio tick) es = Some s"
    "kernel_step s e = Some s1" "(t, In_Mutex k, RT_EOK) \<in> set (drop (length (results s)) (results s1))"
    "inputs_ok kernel_step (\<lambda>s e. kernel_ok s e \<and> not_released k t s e) s1 fs" "run_steps kernel_step s1 fs = Some s2"
    "(u, In_Mutex k, RT_EOK) \<in> set (drop (length (results s1)) (results s2))"
  shows "u = t"
proof -
  have k: "kinv s" using kn.run_inv [OF start_kinv(1) [OF assms(1)] inputs_ok_front [OF assms(2)] assms(3)] .
  have ok: "kernel_ok s e" using inputs_ok_last [OF assms(2,3)] .
  have k1: "kinv s1" using kernel_step_kinv [OF k ok] assms(4) by simp
  have "mutex_owner (mutexes s1 k) = Some t" using owner_step(1) [OF k ok assms(4)] assms(5) by (auto simp: log_ok_def)
  then show ?thesis using owner_run [OF k1 _ assms(6,7)] assms(8) by auto
qed

section \<open>Witnesses\<close>

lemma sample_ok: "priorities_ok sample_priority"
  by (simp add: priorities_ok_def sample_priorities)

definition release_demo :: "kernel_event list" where
  "release_demo = contend @ [Sem_Take 0 0, Event_Send 0 3, Event_Recv 0 1 6 0, Tick_Irq, Mutex_Release 0, Return, Sleep 100, Tick_Irq,
     Startup_Prepare 4, Tick_Irq, Resume_Unlink 4, Tick_Irq, Resume_Insert 4, Schedule]"

text \<open>What can be evaluated of the conditions on a start in parts.\<close>

definition part_ok :: "kernel \<Rightarrow> kernel_event \<Rightarrow> bool" where
  "part_ok s e \<longleftrightarrow> usual_ok s e \<and> (case e of Resume_Unlink t \<Rightarrow> tlist (threads s t) = None | _ \<Rightarrow> True)"

theorem kernel_consistent_witness: "\<exists>s. run_steps kernel_step sample_start release_demo = Some s \<and> consistent s"
proof (rule kernel_consistent [OF sample_ok])
  have "inputs_ok kernel_step part_ok sample_start release_demo" by code_simp
  then have "inputs_ok kernel_step (\<lambda>s e. part_ok s e \<and> e \<in> set release_demo) sample_start release_demo"
    by (rule inputs_ok_conj)
  then show "inputs_ok kernel_step kernel_ok sample_start release_demo"
    by (rule inputs_ok_weak) (auto simp: release_demo_def contend_def part_ok_def)
qed

lemma contend_usual: "inputs_ok kernel_step usual_ok sample_start contend"
  by code_simp

lemma contend_ok: "inputs_ok kernel_step kernel_ok sample_start contend"
  unfolding kernel_ok_def by (rule inputs_ok_conj [OF contend_usual]) (auto simp: contend_def)

lemma contend_prompt: "inputs_ok kernel_step (\<lambda>s e. kernel_ok s e \<and> prompt s e) sample_start contend"
  by (rule inputs_ok_conj [OF contend_ok]) (auto simp: contend_def)

text \<open>What a run that has been evaluated gives.\<close>

lemma obtained:
  assumes "map_option f (run_steps step s es) = Some x" obtains s' where "run_steps step s es = Some s'" "f s' = x"
  using assms by auto

theorem highest_priority_runs_witness:
  "\<exists>s. run_steps kernel_step sample_start contend = Some s \<and> (\<forall>u. \<not> (stat (threads s u) = RT_THREAD_READY \<and> prio s u < prio s 3))"
proof -
  have e: "map_option (\<lambda>s. (rt_current_thread s, lock_nest s)) (run_steps kernel_step sample_start contend) = Some (Some 3, 0)"
    by code_simp
  obtain s where s: "run_steps kernel_step sample_start contend = Some s" "rt_current_thread s = Some 3" "lock_nest s = 0"
    by (rule obtained [OF e]) auto
  have "\<forall>u. stat (threads s u) = RT_THREAD_READY \<longrightarrow> prio s 3 \<le> prio s u"
    using highest_priority_runs [OF sample_ok contend_prompt s] by blast
  then show ?thesis using s(1) by (auto simp: not_less)
qed

text \<open>Thread 3 sleeps for two ticks while thread 2 runs and releases a semaphore.\<close>

theorem sleep_ends_on_time_witness:
  "\<exists>s s2. run_steps kernel_step sample_start contend = Some s \<and>
     run_steps kernel_step s [Sleep 2, Sem_Release 0, Tick_Irq, Tick_Irq] = Some s2 \<and> stat (threads s2 3) = RT_THREAD_READY"
proof -
  have e: "map_option (\<lambda>s. (rt_current_thread s, inputs_ok kernel_step usual_ok s [Sleep 2, Sem_Release 0, Tick_Irq, Tick_Irq]))
      (run_steps kernel_step sample_start contend) = Some (Some 3, True)"
    by code_simp
  obtain s where s: "run_steps kernel_step sample_start contend = Some s" "rt_current_thread s = Some 3"
    "inputs_ok kernel_step usual_ok s [Sleep 2, Sem_Release 0, Tick_Irq, Tick_Irq]"
    by (rule obtained [OF e]) auto
  have i: "inputs_ok kernel_step kernel_ok s (Sleep 2 # [Sem_Release 0, Tick_Irq] @ [Tick_Irq])"
    unfolding kernel_ok_def by (rule inputs_ok_conj) (use s(3) in auto)
  obtain s1 s2 where "run_steps kernel_step s (Sleep 2 # [Sem_Release 0, Tick_Irq]) = Some s1" "kernel_step s1 Tick_Irq = Some s2"
    "stat (threads s2 3) = RT_THREAD_READY"
    using sleep_ends_on_time [OF sample_ok contend_ok s(1,2) i] by auto
  then show ?thesis using s(1) run_steps_append [of kernel_step s "Sleep 2 # [Sem_Release 0, Tick_Irq]" "[Tick_Irq]"] by auto
qed

text \<open>The mutex thread 1 waits for has an owner that can run.\<close>

theorem no_lost_wakeup_witness:
  "\<exists>s u. run_steps kernel_step sample_start contend = Some s \<and> 1 \<in> set (queues s (Mutex_Queue 0)) \<and>
     mutex_owner (mutexes s 0) = Some u \<and> stat (threads s u) \<in> {RT_THREAD_READY, RT_THREAD_SUSPEND}"
proof -
  have e: "map_option (\<lambda>s. queues s (Mutex_Queue 0)) (run_steps kernel_step sample_start contend) = Some [1]"
    by code_simp
  obtain s where s: "run_steps kernel_step sample_start contend = Some s" "queues s (Mutex_Queue 0) = [1]"
    by (rule obtained [OF e]) auto
  show ?thesis using no_lost_wakeup [OF sample_ok contend_ok s(1), of 1 "Mutex_Queue 0"] s by auto
qed

text \<open>While thread 3 owns the mutex and thread 1 waits for it and gives up, only thread 3 gets it, a second time.\<close>

definition take_demo :: "kernel_event list" where
  "take_demo = [Startup 1, Mutex_Take 0 3, Mutex_Take 0 0, Tick_Irq, Tick_Irq, Tick_Irq, Yield, Return]"

theorem mutex_excludes_witness:
  "\<exists>s. run_steps kernel_step sample_start ([Startup 0, Startup 3, Scheduler_Start] @ Mutex_Take 0 0 # take_demo) = Some s \<and>
     {u. (u, In_Mutex 0, RT_EOK) \<in> set (drop 1 (results s))} = {3}"
proof -
  let ?es = "[Startup 0, Startup 3, Scheduler_Start]"
  have e: "map_option (\<lambda>s. (results s, map_option (\<lambda>s1. (results s1, inputs_ok kernel_step (\<lambda>s e. usual_ok s e \<and> not_released 0 3 s e) s1 take_demo,
        map_option results (run_steps kernel_step s1 take_demo))) (kernel_step s (Mutex_Take 0 0))))
      (run_steps kernel_step sample_start ?es) =
    Some ([], Some ([(3, In_Mutex 0, RT_EOK)], True,
      Some [(3, In_Mutex 0, RT_EOK), (3, In_Mutex 0, RT_EOK), (1, In_Mutex 0, RT_ETIMEOUT)]))"
    by code_simp
  obtain s s1 s2 where s: "run_steps kernel_step sample_start ?es = Some s" "results s = []"
    "kernel_step s (Mutex_Take 0 0) = Some s1" "results s1 = [(3, In_Mutex 0, RT_EOK)]"
    "inputs_ok kernel_step (\<lambda>s e. usual_ok s e \<and> not_released 0 3 s e) s1 take_demo"
    "run_steps kernel_step s1 take_demo = Some s2"
    "results s2 = [(3, In_Mutex 0, RT_EOK), (3, In_Mutex 0, RT_EOK), (1, In_Mutex 0, RT_ETIMEOUT)]"
    by (rule obtained [OF e]) auto
  have u: "inputs_ok kernel_step usual_ok sample_start (?es @ [Mutex_Take 0 0])" by code_simp
  have i: "inputs_ok kernel_step kernel_ok sample_start (?es @ [Mutex_Take 0 0])"
    unfolding kernel_ok_def by (rule inputs_ok_conj [OF u]) auto
  have o: "owner_ok r x" if "x \<in> set take_demo" for r x
    using that by (auto simp: take_demo_def)
  have j: "inputs_ok kernel_step (\<lambda>s e. kernel_ok s e \<and> not_released 0 3 s e) s1 take_demo"
    by (rule inputs_ok_weak [OF inputs_ok_conj [OF s(5) o]]) auto
  have t: "(3, In_Mutex 0, RT_EOK) \<in> set (drop (length (results s)) (results s1))" by (simp add: s)
  have only: "u = 3" if "(u, In_Mutex 0, RT_EOK) \<in> set (drop 1 (results s2))" for u
    by (rule mutex_excludes [OF sample_ok i s(1,3) t j s(6)]) (use that in \<open>simp add: s(4)\<close>)
  have again: "(3, In_Mutex 0, RT_EOK) \<in> set (drop 1 (results s2))" by (simp add: s(7))
  have "run_steps kernel_step s (Mutex_Take 0 0 # take_demo) = Some s2" using s(3,6) by simp
  then have all: "run_steps kernel_step sample_start (?es @ Mutex_Take 0 0 # take_demo) = Some s2"
    unfolding run_steps_append s(1) by simp
  have "{u. (u, In_Mutex 0, RT_EOK) \<in> set (drop 1 (results s2))} = {3}" using only again by blast
  then show ?thesis using all by blast
qed

end
