(* ===== verification/Mb_Crc.thy ===== *)
theory Mb_Crc
  imports Firmware_Prelude
begin

text \<open>
  The frame check of Modbus RTU, \<open>modbus/rtu/mbcrc.c\<close>: the two tables and the loop of
  \<open>usMBCRC16\<close>, proved to be the bitwise polynomial division by 0xA001, and the consequences for
  frames: a frame with its check appended has residue zero, and only that check does.
\<close>

section \<open>The code\<close>

definition aucCRCHi :: "u8 list" where
  "aucCRCHi =
    [0x00, 0xC1, 0x81, 0x40, 0x01, 0xC0, 0x80, 0x41, 0x01, 0xC0, 0x80, 0x41, 0x00, 0xC1, 0x81, 0x40,
     0x01, 0xC0, 0x80, 0x41, 0x00, 0xC1, 0x81, 0x40, 0x00, 0xC1, 0x81, 0x40, 0x01, 0xC0, 0x80, 0x41,
     0x01, 0xC0, 0x80, 0x41, 0x00, 0xC1, 0x81, 0x40, 0x00, 0xC1, 0x81, 0x40, 0x01, 0xC0, 0x80, 0x41,
     0x00, 0xC1, 0x81, 0x40, 0x01, 0xC0, 0x80, 0x41, 0x01, 0xC0, 0x80, 0x41, 0x00, 0xC1, 0x81, 0x40,
     0x01, 0xC0, 0x80, 0x41, 0x00, 0xC1, 0x81, 0x40, 0x00, 0xC1, 0x81, 0x40, 0x01, 0xC0, 0x80, 0x41,
     0x00, 0xC1, 0x81, 0x40, 0x01, 0xC0, 0x80, 0x41, 0x01, 0xC0, 0x80, 0x41, 0x00, 0xC1, 0x81, 0x40,
     0x00, 0xC1, 0x81, 0x40, 0x01, 0xC0, 0x80, 0x41, 0x01, 0xC0, 0x80, 0x41, 0x00, 0xC1, 0x81, 0x40,
     0x01, 0xC0, 0x80, 0x41, 0x00, 0xC1, 0x81, 0x40, 0x00, 0xC1, 0x81, 0x40, 0x01, 0xC0, 0x80, 0x41,
     0x01, 0xC0, 0x80, 0x41, 0x00, 0xC1, 0x81, 0x40, 0x00, 0xC1, 0x81, 0x40, 0x01, 0xC0, 0x80, 0x41,
     0x00, 0xC1, 0x81, 0x40, 0x01, 0xC0, 0x80, 0x41, 0x01, 0xC0, 0x80, 0x41, 0x00, 0xC1, 0x81, 0x40,
     0x00, 0xC1, 0x81, 0x40, 0x01, 0xC0, 0x80, 0x41, 0x01, 0xC0, 0x80, 0x41, 0x00, 0xC1, 0x81, 0x40,
     0x01, 0xC0, 0x80, 0x41, 0x00, 0xC1, 0x81, 0x40, 0x00, 0xC1, 0x81, 0x40, 0x01, 0xC0, 0x80, 0x41,
     0x00, 0xC1, 0x81, 0x40, 0x01, 0xC0, 0x80, 0x41, 0x01, 0xC0, 0x80, 0x41, 0x00, 0xC1, 0x81, 0x40,
     0x01, 0xC0, 0x80, 0x41, 0x00, 0xC1, 0x81, 0x40, 0x00, 0xC1, 0x81, 0x40, 0x01, 0xC0, 0x80, 0x41,
     0x01, 0xC0, 0x80, 0x41, 0x00, 0xC1, 0x81, 0x40, 0x00, 0xC1, 0x81, 0x40, 0x01, 0xC0, 0x80, 0x41,
     0x00, 0xC1, 0x81, 0x40, 0x01, 0xC0, 0x80, 0x41, 0x01, 0xC0, 0x80, 0x41, 0x00, 0xC1, 0x81, 0x40]"

definition aucCRCLo :: "u8 list" where
  "aucCRCLo =
    [0x00, 0xC0, 0xC1, 0x01, 0xC3, 0x03, 0x02, 0xC2, 0xC6, 0x06, 0x07, 0xC7, 0x05, 0xC5, 0xC4, 0x04,
     0xCC, 0x0C, 0x0D, 0xCD, 0x0F, 0xCF, 0xCE, 0x0E, 0x0A, 0xCA, 0xCB, 0x0B, 0xC9, 0x09, 0x08, 0xC8,
     0xD8, 0x18, 0x19, 0xD9, 0x1B, 0xDB, 0xDA, 0x1A, 0x1E, 0xDE, 0xDF, 0x1F, 0xDD, 0x1D, 0x1C, 0xDC,
     0x14, 0xD4, 0xD5, 0x15, 0xD7, 0x17, 0x16, 0xD6, 0xD2, 0x12, 0x13, 0xD3, 0x11, 0xD1, 0xD0, 0x10,
     0xF0, 0x30, 0x31, 0xF1, 0x33, 0xF3, 0xF2, 0x32, 0x36, 0xF6, 0xF7, 0x37, 0xF5, 0x35, 0x34, 0xF4,
     0x3C, 0xFC, 0xFD, 0x3D, 0xFF, 0x3F, 0x3E, 0xFE, 0xFA, 0x3A, 0x3B, 0xFB, 0x39, 0xF9, 0xF8, 0x38,
     0x28, 0xE8, 0xE9, 0x29, 0xEB, 0x2B, 0x2A, 0xEA, 0xEE, 0x2E, 0x2F, 0xEF, 0x2D, 0xED, 0xEC, 0x2C,
     0xE4, 0x24, 0x25, 0xE5, 0x27, 0xE7, 0xE6, 0x26, 0x22, 0xE2, 0xE3, 0x23, 0xE1, 0x21, 0x20, 0xE0,
     0xA0, 0x60, 0x61, 0xA1, 0x63, 0xA3, 0xA2, 0x62, 0x66, 0xA6, 0xA7, 0x67, 0xA5, 0x65, 0x64, 0xA4,
     0x6C, 0xAC, 0xAD, 0x6D, 0xAF, 0x6F, 0x6E, 0xAE, 0xAA, 0x6A, 0x6B, 0xAB, 0x69, 0xA9, 0xA8, 0x68,
     0x78, 0xB8, 0xB9, 0x79, 0xBB, 0x7B, 0x7A, 0xBA, 0xBE, 0x7E, 0x7F, 0xBF, 0x7D, 0xBD, 0xBC, 0x7C,
     0xB4, 0x74, 0x75, 0xB5, 0x77, 0xB7, 0xB6, 0x76, 0x72, 0xB2, 0xB3, 0x73, 0xB1, 0x71, 0x70, 0xB0,
     0x50, 0x90, 0x91, 0x51, 0x93, 0x53, 0x52, 0x92, 0x96, 0x56, 0x57, 0x97, 0x55, 0x95, 0x94, 0x54,
     0x9C, 0x5C, 0x5D, 0x9D, 0x5F, 0x9F, 0x9E, 0x5E, 0x5A, 0x9A, 0x9B, 0x5B, 0x99, 0x59, 0x58, 0x98,
     0x88, 0x48, 0x49, 0x89, 0x4B, 0x8B, 0x8A, 0x4A, 0x4E, 0x8E, 0x8F, 0x4F, 0x8D, 0x4D, 0x4C, 0x8C,
     0x44, 0x84, 0x85, 0x45, 0x87, 0x47, 0x46, 0x86, 0x82, 0x42, 0x43, 0x83, 0x41, 0x81, 0x80, 0x40]"

text \<open>The loop \<open>while (usLen--)\<close>; the pair is \<open>(ucCRCHi, ucCRCLo)\<close>.\<close>

fun crc_loop :: "u8 list \<Rightarrow> nat \<Rightarrow> nat \<Rightarrow> u8 \<times> u8 \<Rightarrow> (u8 \<times> u8) option" where
  "crc_loop buf i 0 crc = Some crc"
| "crc_loop buf i (Suc n) (ucCRCHi, ucCRCLo) = do {
     b \<leftarrow> buf_get buf i;
     let iIndex = unat (ucCRCLo XOR b);
     crc_loop buf (Suc i) n (aucCRCLo ! iIndex, ucCRCHi XOR aucCRCHi ! iIndex) }"

definition usMBCRC16 :: "u8 list \<Rightarrow> u16 \<Rightarrow> u16 option" where
  "usMBCRC16 pucFrame usLen = do {
     (ucCRCHi, ucCRCLo) \<leftarrow> crc_loop pucFrame 0 (unat usLen) (0xFF, 0xFF);
     Some (be16 ucCRCHi ucCRCLo) }"

section \<open>Division by the polynomial\<close>

definition poly_bit :: "u16 \<Rightarrow> u16" where
  "poly_bit c = (if bit c 0 then drop_bit 1 c XOR 0xA001 else drop_bit 1 c)"

definition poly_byte :: "u16 \<Rightarrow> u16" where
  "poly_byte c =
    poly_bit (poly_bit (poly_bit (poly_bit (poly_bit (poly_bit (poly_bit (poly_bit c)))))))"

definition crc_spec :: "u16 \<Rightarrow> u8 list \<Rightarrow> u16" where
  "crc_spec c bs = fold (\<lambda>b c. poly_byte (c XOR ucast b)) bs c"

lemma poly_bit_xor: "poly_bit (x XOR y) = poly_bit x XOR poly_bit y"
  by (rule bit_word_eqI) (auto simp: poly_bit_def bit_simps)

lemma poly_byte_xor: "poly_byte (x XOR y) = poly_byte x XOR poly_byte y"
  by (simp add: poly_byte_def poly_bit_xor)

lemma bit_A001: "bit (0xA001 :: u16) n \<longleftrightarrow> n = 0 \<or> n = 13 \<or> n = 15"
proof (cases "n < 16")
  case True
  have "list_all (\<lambda>n. bit (0xA001 :: u16) n \<longleftrightarrow> n = 0 \<or> n = 13 \<or> n = 15) [0..<16]"
    by (simp add: upt_rec)
  with True show ?thesis by (simp add: list_all_iff)
next
  case False
  then have "\<not> bit (0xA001 :: u16) n" by (auto dest: bit_imp_le_length)
  with False show ?thesis by auto
qed

text \<open>The top bit of the result tells which case was taken, so the step loses nothing.\<close>

lemma poly_bit_0_iff: "poly_bit c = 0 \<longleftrightarrow> c = 0"
proof
  assume z: "poly_bit c = 0"
  then have "\<not> bit (poly_bit c) 15" by simp
  moreover have "\<not> bit c 16" by (auto dest: bit_imp_le_length)
  ultimately have "\<not> bit c 0" by (auto simp: poly_bit_def bit_simps bit_A001)
  with z have "drop_bit 1 c = 0" by (simp add: poly_bit_def)
  then have suc: "\<not> bit c (Suc n)" for n
  proof -
    have "bit (drop_bit 1 c) n \<longleftrightarrow> bit c (1 + n)" by (rule bit_drop_bit_eq [unfolded comp_def, THEN fun_cong])
    with \<open>drop_bit 1 c = 0\<close> show ?thesis by simp
  qed
  show "c = 0"
  proof (rule bit_word_eqI)
    fix n show "bit c n \<longleftrightarrow> bit 0 n" using suc \<open>\<not> bit c 0\<close> by (cases n) auto
  qed
qed (simp add: poly_bit_def)

lemma poly_byte_0_iff: "poly_byte c = 0 \<longleftrightarrow> c = 0"
  by (simp add: poly_byte_def poly_bit_0_iff)

lemma poly_byte_inj: "poly_byte x = poly_byte y \<longleftrightarrow> x = y"
proof -
  have "a XOR b = 0 \<longleftrightarrow> a = b" for a b :: u16 by (auto simp: bit_eq_iff bit_simps)
  then show ?thesis using poly_byte_0_iff [of "x XOR y"] by (simp add: poly_byte_xor)
qed

lemma poly_bit_even: "\<not> bit c 0 \<Longrightarrow> poly_bit c = drop_bit 1 c"
  by (simp add: poly_bit_def)

lemma poly_bit_shift: "n < 8 \<Longrightarrow> poly_bit (push_bit (Suc n) (ucast (h :: u8))) = push_bit n (ucast h)"
proof -
  assume n: "n < 8"
  have "poly_bit (push_bit (Suc n) (ucast h)) = drop_bit 1 (push_bit (Suc n) (ucast h))"
    by (rule poly_bit_even) (simp add: bit_push_bit_iff del: push_bit_Suc bit_0)
  also have "\<dots> = push_bit n (ucast h)"
  proof (rule bit_word_eqI)
    fix k assume "k < LENGTH(16)"
    moreover have "bit h (k - n) \<Longrightarrow> k - n < 8" by (auto dest: bit_imp_le_length)
    ultimately show "bit (drop_bit 1 (push_bit (Suc n) (ucast h :: u16))) k \<longleftrightarrow> bit (push_bit n (ucast h :: u16)) k"
      using n by (auto simp: bit_simps simp del: push_bit_Suc)
  qed
  finally show ?thesis .
qed

lemma poly_byte_high: "poly_byte (push_bit 8 (ucast (h :: u8))) = ucast h"
proof -
  have "poly_bit (push_bit 2 (ucast h)) = push_bit 1 (ucast h)"
    using poly_bit_shift [of 1 h] by (simp add: numeral_2_eq_2 del: push_bit_Suc)
  then show ?thesis
  using poly_bit_shift [of 7 h] poly_bit_shift [of 6 h] poly_bit_shift [of 5 h] poly_bit_shift [of 4 h]
    poly_bit_shift [of 3 h] poly_bit_shift [of 2 h] poly_bit_shift [of 0 h]
    by (simp add: poly_byte_def del: push_bit_Suc)
qed

text \<open>The table, doubled up from the eight powers of two.\<close>

fun double_table :: "u16 list \<Rightarrow> u16 list" where
  "double_table [] = [0]"
| "double_table (b # bs) = (let t = double_table bs in t @ map (\<lambda>x. x XOR b) t)"

lemma poly_powers:
  "map poly_byte [128, 64, 32, 16, 8, 4, 2, 1] =
    [0xA001, 0xF001, 0xD801, 0xCC01, 0xC601, 0xC301, 0xC181, 0xC0C1]"
  by code_simp

lemma tables_doubled:
  "map2 be16 aucCRCLo aucCRCHi = double_table [0xA001, 0xF001, 0xD801, 0xCC01, 0xC601, 0xC301, 0xC181, 0xC0C1]"
  by (simp add: aucCRCLo_def aucCRCHi_def be16_def Let_def)

lemma double_table_nth:
  assumes "i < 2 ^ length bs"
    "\<forall>k < length bs. rev bs ! k = poly_byte (push_bit k 1)" "length bs \<le> 8"
  shows "length (double_table bs) = 2 ^ length bs \<and> double_table bs ! i = poly_byte (word_of_nat i)"
  using assms
proof (induction bs arbitrary: i)
  case Nil
  then show ?case by (simp add: poly_byte_def poly_bit_def)
next
  case (Cons b bs)
  let ?t = "double_table bs" and ?n = "length bs"
  have pow: "\<forall>k < ?n. rev bs ! k = poly_byte (push_bit k 1)"
    using Cons.prems(2) by (auto simp: nth_append less_Suc_eq split: if_splits)
  have b: "b = poly_byte (push_bit ?n 1)" using Cons.prems(2) by (auto simp: nth_append)
  have IH: "length ?t = 2 ^ ?n" "j < 2 ^ ?n \<Longrightarrow> ?t ! j = poly_byte (word_of_nat j)" for j
    using Cons.IH [OF _ pow, of 0] Cons.IH [OF _ pow, of j] Cons.prems(3) by simp_all
  show ?case
  proof (cases "i < 2 ^ ?n")
    case True
    then show ?thesis using IH by (simp add: Let_def nth_append)
  next
    case False
    then obtain j where j: "i = 2 ^ ?n + j" "j < 2 ^ ?n"
      using Cons.prems(1) by (auto simp: le_iff_add not_less)
    have "(word_of_nat i :: u16) = word_of_nat j XOR push_bit ?n 1"
    proof -
      have n: "?n < 16" using Cons.prems(3) by simp
      have "take_bit ?n (word_of_nat j :: u16) = word_of_nat (take_bit ?n j)" by (simp add: take_bit_of_nat)
      then have low: "(word_of_nat j :: u16) = take_bit ?n (word_of_nat j)"
        using j(2) by (simp add: take_bit_nat_eq_self)
      have "word_of_nat j AND push_bit ?n (1 :: u16) = 0"
        by (subst low) (auto simp: bit_eq_iff bit_simps simp del: push_bit_of_1)
      then have "word_of_nat j + push_bit ?n (1 :: u16) = word_of_nat j XOR push_bit ?n 1"
        by (simp add: disjunctive_xor_eq_or disjunctive_add_eq_or)
      then show ?thesis by (simp add: j(1) add.commute)
    qed
    then show ?thesis using j IH b by (simp add: Let_def nth_append poly_byte_xor)
  qed
qed

lemma length_tables [simp]: "length aucCRCHi = 256" "length aucCRCLo = 256"
  by (simp_all add: aucCRCHi_def aucCRCLo_def)

lemma table_entry:
  assumes "i < 256"
  shows "be16 (aucCRCLo ! i) (aucCRCHi ! i) = poly_byte (word_of_nat i)"
proof -
  let ?p = "map poly_byte [128, 64, 32, 16, 8, 4, 2, 1]"
  have "\<forall>k < length ?p. rev ?p ! k = poly_byte (push_bit k 1)"
    by (auto simp: less_Suc_eq)
  with double_table_nth [of i ?p] assms have "double_table ?p ! i = poly_byte (word_of_nat i)" by simp
  then have "map2 be16 aucCRCLo aucCRCHi ! i = poly_byte (word_of_nat i)"
    by (simp only: tables_doubled poly_powers)
  with assms show ?thesis by simp
qed

lemma be16_xor: "be16 a b XOR be16 c d = be16 (a XOR c) (b XOR d)"
  by (rule bit_word_eqI) (auto simp: bit_be16 bit_xor_iff)

text \<open>One table step is division by the polynomial.\<close>

lemma table_step:
  "be16 (aucCRCLo ! unat (lo XOR b)) (hi XOR aucCRCHi ! unat (lo XOR b)) = poly_byte (be16 hi lo XOR ucast b)"
proof -
  let ?i = "unat (lo XOR b)"
  have i: "?i < 256" using unsigned_less [where ?'a = nat, of "lo XOR b"] by simp
  have "be16 hi lo XOR ucast b = push_bit 8 (ucast hi) XOR ucast (lo XOR b)"
    by (rule bit_word_eqI) (auto simp: bit_be16 bit_ucast_u8 bit_xor_iff bit_push_bit_iff)
  then have "poly_byte (be16 hi lo XOR ucast b) = ucast hi XOR poly_byte (ucast (lo XOR b))"
    by (simp add: poly_byte_xor poly_byte_high)
  also have "poly_byte (ucast (lo XOR b)) = be16 (aucCRCLo ! ?i) (aucCRCHi ! ?i)"
    using table_entry [OF i] by simp
  also have "ucast hi XOR be16 (aucCRCLo ! ?i) (aucCRCHi ! ?i) = be16 (aucCRCLo ! ?i) (hi XOR aucCRCHi ! ?i)"
    by (rule bit_word_eqI) (auto simp: bit_be16 bit_ucast_u8 bit_xor_iff bit_push_bit_iff)
  finally show ?thesis by simp
qed

lemma crc_loop_eq:
  "i + n \<le> length buf \<Longrightarrow>
    \<exists>h l. crc_loop buf i n (hi, lo) = Some (h, l) \<and> be16 h l = crc_spec (be16 hi lo) (take n (drop i buf))"
proof (induction n arbitrary: i hi lo)
  case 0
  then show ?case by (simp add: crc_spec_def)
next
  case (Suc n)
  let ?j = "unat (lo XOR buf ! i)"
  have "take (Suc n) (drop i buf) = buf ! i # take n (drop (Suc i) buf)"
    using Suc.prems by (simp add: Cons_nth_drop_Suc [symmetric])
  with Suc.IH [of "Suc i" "aucCRCLo ! ?j" "hi XOR aucCRCHi ! ?j"] Suc.prems show ?case
    by (simp add: crc_spec_def table_step Let_def)
qed

definition crc16 :: "u8 list \<Rightarrow> u16" where
  "crc16 bs = crc_spec 0xFFFF bs"

lemma usMBCRC16_eq:
  assumes "unat n \<le> length buf"
  shows "usMBCRC16 buf n = Some (crc16 (take (unat n) buf))"
proof -
  have "be16 0xFF 0xFF = 0xFFFF" by (simp add: be16_def)
  with crc_loop_eq [of 0 "unat n" buf "0xFF" "0xFF"] assms show ?thesis
    by (auto simp: usMBCRC16_def crc16_def)
qed

section \<open>Frames\<close>

lemma crc_spec_append: "crc_spec c (xs @ ys) = crc_spec (crc_spec c xs) ys"
  by (simp add: crc_spec_def)

lemma crc_spec_inj: "length xs = length ys \<Longrightarrow> xs = ys \<Longrightarrow> crc_spec c xs = crc_spec d ys \<longleftrightarrow> c = d"
proof (induction xs arbitrary: ys c d)
  case Nil
  then show ?case by (simp add: crc_spec_def)
next
  case (Cons x xs)
  have "c XOR ucast x = d XOR ucast x \<longleftrightarrow> c = d" for c d :: u16
    by (auto simp: bit_eq_iff bit_simps)
  with Cons show ?case by (auto simp: crc_spec_def poly_byte_inj)
qed

lemma crc_spec_two: "crc_spec c [a, b] = poly_byte (poly_byte (c XOR be16 b a))"
proof -
  have "be16 b a = ucast a XOR push_bit 8 (ucast b)"
    by (rule bit_word_eqI) (auto simp: bit_be16 bit_ucast_u8 bit_xor_iff bit_push_bit_iff)
  then have "poly_byte (c XOR be16 b a) = poly_byte (c XOR ucast a) XOR ucast b"
    by (simp add: poly_byte_xor poly_byte_high flip: xor.assoc)
  then show ?thesis by (simp add: crc_spec_def)
qed

text \<open>A sealed frame carries its check, low byte first; receivers ask for residue zero.\<close>

definition rtu_seal :: "u8 list \<Rightarrow> u8 list" where
  "rtu_seal p = p @ [lo8 (crc16 p), hi8 (crc16 p)]"

definition rtu_accept :: "u8 list \<Rightarrow> bool" where
  "rtu_accept f \<longleftrightarrow> 2 \<le> length f \<and> length f < 65536 \<and> usMBCRC16 f (word_of_nat (length f)) = Some 0"

definition rtu_payload :: "u8 list \<Rightarrow> u8 list" where
  "rtu_payload f = take (length f - 2) f"

lemma xor_eq_0: "a XOR b = 0 \<longleftrightarrow> a = (b :: u16)"
  by (auto simp: bit_eq_iff bit_simps)

lemma crc16_residue: "crc16 (p @ [a, b]) = 0 \<longleftrightarrow> a = lo8 (crc16 p) \<and> b = hi8 (crc16 p)"
  by (auto simp: crc16_def crc_spec_append crc_spec_two poly_byte_0_iff xor_eq_0)

lemma rtu_accept_crc:
  assumes "length f < 65536"
  shows "rtu_accept f \<longleftrightarrow> 2 \<le> length f \<and> crc16 f = 0"
proof -
  have "unat (word_of_nat (length f) :: u16) = length f"
    using assms by (simp add: unsigned_of_nat take_bit_eq_mod)
  with usMBCRC16_eq [of "word_of_nat (length f)" f] assms show ?thesis by (auto simp: rtu_accept_def)
qed

interpretation rtu: frame_code rtu_seal rtu_accept rtu_payload "\<lambda>p. length p + 2 < 65536"
proof
  fix p :: "u8 list" assume "length p + 2 < 65536"
  then show "rtu_accept (rtu_seal p)" by (simp add: rtu_accept_crc rtu_seal_def crc16_residue)
  show "rtu_payload (rtu_seal p) = p" by (simp add: rtu_payload_def rtu_seal_def)
next
  fix f :: "u8 list" assume a: "rtu_accept f"
  then have len: "2 \<le> length f" "length f < 65536" by (simp_all add: rtu_accept_def)
  obtain g b where g: "f = g @ [b]" using len(1) by (cases f rule: rev_cases) auto
  obtain p c where p: "g = p @ [c]" using len(1) g by (cases g rule: rev_cases) auto
  from a len show "f = rtu_seal (rtu_payload f)"
    by (simp add: g p rtu_accept_crc rtu_seal_def rtu_payload_def crc16_residue)
qed

section \<open>Properties\<close>

text \<open>
  C9: The table-driven loop computes the division by the polynomial 0xA001, bit by bit, of any
  frame inside its buffer.
\<close>

theorem crc_is_polynomial_division:
  assumes "unat n \<le> length buf"
  shows "usMBCRC16 buf n =
    Some (fold (\<lambda>b c. (poly_bit ^^ 8) (c XOR ucast b)) (take (unat n) buf) 0xFFFF)"
proof -
  have "(poly_bit ^^ 8) = poly_byte"
    by (rule ext) (simp add: poly_byte_def eval_nat_numeral)
  then show ?thesis
    using usMBCRC16_eq [OF assms] by (simp add: crc16_def crc_spec_def)
qed

theorem crc_is_polynomial_division_witness:
  "usMBCRC16 [0x01, 0x03, 0x00] 2 = Some (fold (\<lambda>b c. (poly_bit ^^ 8) (c XOR ucast b)) [0x01 :: u8, 0x03] 0xFFFF)"
  using crc_is_polynomial_division [of 2 "[0x01, 0x03, 0x00]"] by simp

text \<open>
  C10: A sealed frame is accepted, and an accepted frame in which two consecutive bytes are changed
  in any way, its check bytes included, is not.
\<close>

theorem crc_detects_burst:
  assumes "length (p @ [a, b] @ q) < 65536" "(c, d) \<noteq> (a, b)" "rtu_accept (p @ [a, b] @ q)"
  shows "\<not> rtu_accept (p @ [c, d] @ q)"
proof -
  have "length (p @ [c, d] @ q) < 65536" using assms(1) by simp
  moreover have "crc16 (p @ [c, d] @ q) \<noteq> crc16 (p @ [a, b] @ q)"
  proof
    let ?s = "crc_spec 0xFFFF p"
    assume "crc16 (p @ [c, d] @ q) = crc16 (p @ [a, b] @ q)"
    then have "crc_spec (crc_spec ?s [c, d]) q = crc_spec (crc_spec ?s [a, b]) q"
      by (simp only: crc16_def crc_spec_append)
    then have "?s XOR be16 d c = ?s XOR be16 b a"
      by (simp add: crc_spec_inj crc_spec_two poly_byte_inj)
    then have "be16 d c = be16 b a" by (auto simp: bit_eq_iff bit_xor_iff)
    with assms(2) show False by (auto simp: be16_eq_iff)
  qed
  ultimately show ?thesis using assms(1,3) by (simp add: rtu_accept_crc)
qed

theorem crc_detects_burst_witness:
  "\<not> rtu_accept ([0x01] @ [0x04, 0x00] @ [lo8 (crc16 [0x01, 0x03, 0x00]), hi8 (crc16 [0x01, 0x03, 0x00])])"
  by (rule crc_detects_burst [of _ "0x03" "0x00"])
    (use rtu.accept_seal [of "[0x01, 0x03, 0x00]"] in \<open>simp_all add: rtu_seal_def\<close>)

end
