(* ===== verification/Mb_Utils.thy ===== *)
theory Mb_Utils
  imports Firmware_Prelude
begin

text \<open>
  The protocol stack's shared types and bit utilities, \<open>FreeModbus/modbus\<close>: error codes and
  exceptions (\<open>include/mb.h\<close>, \<open>include/mbproto.h\<close>), \<open>xMBUtilSetBits\<close>, \<open>xMBUtilGetBits\<close> and the
  mapping of errors to exceptions (\<open>functions/mbutils.c\<close>).
\<close>

section \<open>Codes\<close>

datatype eMBErrorCode = MB_ENOERR | MB_ENOREG | MB_EINVAL | MB_EPORTERR | MB_ENORES | MB_EIO
  | MB_EILLSTATE | MB_ETIMEDOUT

datatype eMBException = MB_EX_NONE | MB_EX_ILLEGAL_FUNCTION | MB_EX_ILLEGAL_DATA_ADDRESS
  | MB_EX_ILLEGAL_DATA_VALUE | MB_EX_SLAVE_DEVICE_FAILURE | MB_EX_ACKNOWLEDGE | MB_EX_SLAVE_BUSY
  | MB_EX_MEMORY_PARITY_ERROR | MB_EX_GATEWAY_PATH_FAILED | MB_EX_GATEWAY_TGT_FAILED

fun exception_code :: "eMBException \<Rightarrow> u8" where
  "exception_code MB_EX_NONE = 0x00"
| "exception_code MB_EX_ILLEGAL_FUNCTION = 0x01"
| "exception_code MB_EX_ILLEGAL_DATA_ADDRESS = 0x02"
| "exception_code MB_EX_ILLEGAL_DATA_VALUE = 0x03"
| "exception_code MB_EX_SLAVE_DEVICE_FAILURE = 0x04"
| "exception_code MB_EX_ACKNOWLEDGE = 0x05"
| "exception_code MB_EX_SLAVE_BUSY = 0x06"
| "exception_code MB_EX_MEMORY_PARITY_ERROR = 0x08"
| "exception_code MB_EX_GATEWAY_PATH_FAILED = 0x0A"
| "exception_code MB_EX_GATEWAY_TGT_FAILED = 0x0B"

datatype eMBRegisterMode = MB_REG_READ | MB_REG_WRITE

definition prveMBError2Exception :: "eMBErrorCode \<Rightarrow> eMBException" where
  "prveMBError2Exception eErrorCode =
    (case eErrorCode of
       MB_ENOERR \<Rightarrow> MB_EX_NONE
     | MB_ENOREG \<Rightarrow> MB_EX_ILLEGAL_DATA_ADDRESS
     | MB_ETIMEDOUT \<Rightarrow> MB_EX_SLAVE_BUSY
     | _ \<Rightarrow> MB_EX_SLAVE_DEVICE_FAILURE)"

lemma prveMBError2Exception_none [simp]:
  "prveMBError2Exception e = MB_EX_NONE \<longleftrightarrow> e = MB_ENOERR"
  by (simp add: prveMBError2Exception_def split: eMBErrorCode.splits)

section \<open>Bit fields\<close>

text \<open>The buffer pointer of the source is the list with the offset \<open>base\<close>; the first test is an \<open>assert_param\<close>.\<close>

definition xMBUtilSetBits :: "u8 list \<Rightarrow> nat \<Rightarrow> u16 \<Rightarrow> u8 \<Rightarrow> u8 \<Rightarrow> u8 list option" where
  "xMBUtilSetBits buf base usBitOffset ucNBits ucValue =
    (if 8 < ucNBits then None
     else let usByteOffset = usBitOffset div 8;
         usNPreBits = usBitOffset - usByteOffset * 8;
         usValue = push_bit (unat usNPreBits) (ucast ucValue) :: u16;
         usMask = push_bit (unat usNPreBits) (ucast (push_bit (unat ucNBits) (1 :: u32) - 1)) :: u16
     in do {
       lo \<leftarrow> buf_get buf (base + unat usByteOffset);
       hi \<leftarrow> buf_get buf (base + unat usByteOffset + 1);
       let usWordBuf = (be16 hi lo AND NOT usMask) OR usValue;
       buf1 \<leftarrow> buf_set buf (base + unat usByteOffset) (lo8 usWordBuf);
       buf_set buf1 (base + unat usByteOffset + 1) (hi8 usWordBuf) })"

definition xMBUtilGetBits :: "u8 list \<Rightarrow> nat \<Rightarrow> u16 \<Rightarrow> u8 \<Rightarrow> u8 option" where
  "xMBUtilGetBits buf base usBitOffset ucNBits =
    (let usByteOffset = usBitOffset div 8;
         usNPreBits = usBitOffset - usByteOffset * 8;
         usMask = ucast (push_bit (unat ucNBits) (1 :: u32) - 1) :: u16
     in do {
       lo \<leftarrow> buf_get buf (base + unat usByteOffset);
       hi \<leftarrow> buf_get buf (base + unat usByteOffset + 1);
       Some (ucast (drop_bit (unat usNPreBits) (be16 hi lo) AND usMask)) })"

text \<open>The bit vector a buffer holds, least significant bit of byte 0 first.\<close>

definition nth_bit :: "u8 list \<Rightarrow> nat \<Rightarrow> bool" where
  "nth_bit buf k \<longleftrightarrow> bit (buf ! (k div 8)) (k mod 8)"

text \<open>For an offset inside the first byte.\<close>

lemma small_offset:
  assumes "unat (j :: u16) < 8"
  shows "j div 8 = 0" "j - j div 8 * 8 = j"
proof -
  have "unat (j div 8) = unat j div 8" by (simp add: unat_div_distrib)
  also have "\<dots> = 0" using assms by simp
  finally show "j div 8 = 0" by (simp add: unat_eq_0)
  then show "j - j div 8 * 8 = j" by simp
qed

lemma ones_mask: "n \<le> 8 \<Longrightarrow> (ucast (push_bit n (1 :: u32) - 1) :: u16) = mask n"
proof -
  assume "n \<le> 8"
  then have "(push_bit n (1 :: u32) - 1) = mask n"
    by (simp add: mask_eq_exp_minus_1 push_bit_eq_mult)
  then show ?thesis using \<open>n \<le> 8\<close> by (simp add: ucast_mask_eq min_def)
qed

lemma xMBUtilGetBits_bit:
  assumes "unat j < 8" "unat n \<le> 8" "i + 1 < length buf"
  shows "\<exists>v. xMBUtilGetBits buf i j n = Some v \<and>
    (\<forall>k < 8. bit v k \<longleftrightarrow> k < unat n \<and> nth_bit buf (8 * i + unat j + k))"
proof -
  have "bit (ucast (drop_bit (unat j) (be16 (buf ! (i + 1)) (buf ! i)) AND mask (unat n)) :: u8) k \<longleftrightarrow>
      k < unat n \<and> nth_bit buf (8 * i + unat j + k)" if "k < 8" for k
  proof -
    have "(8 * i + unat j + k) div 8 = (if unat j + k < 8 then i else i + 1)"
      "(8 * i + unat j + k) mod 8 = (if unat j + k < 8 then unat j + k else unat j + k - 8)"
      using that assms(1) by (auto simp: add.assoc div_nat_eqI mod_nat_eqI)
    then show ?thesis
      using that assms by (auto simp: bit_simps bit_be16 nth_bit_def add.commute)
  qed
  then show ?thesis
    using assms by (simp add: xMBUtilGetBits_def small_offset ones_mask Let_def del: push_bit_of_1)
qed

lemma nth_bit_pair:
  assumes "i + 1 < length buf" "8 * i \<le> k" "k < 8 * i + 16"
  shows "nth_bit (buf[i := lo8 w, i + 1 := hi8 w]) k \<longleftrightarrow> bit w (k - 8 * i)"
proof -
  define d where "d = k - 8 * i"
  have k: "k = 8 * i + d" "d < 16" using assms(2,3) by (auto simp: d_def)
  show ?thesis
  proof (cases "d < 8")
    case True
    then show ?thesis using assms(1) by (simp add: nth_bit_def k lo8_def bit_simps)
  next
    case False
    then obtain e where e: "d = e + 8" by (metis add.commute le_Suc_ex not_less)
    have div: "k div 8 = i + 1" by (rule div_nat_eqI) (use k e in simp_all)
    have "k mod 8 = k - 8 * (k div 8)" by (simp add: minus_mult_div_eq_mod)
    then have "k mod 8 = e" using k e unfolding div by simp
    with div show ?thesis using assms(1) k e by (simp add: nth_bit_def hi8_def bit_simps add.commute)
  qed
qed

lemma nth_bit_far:
  assumes "k < 8 * i \<or> 8 * i + 16 \<le> k"
  shows "nth_bit (buf[i := x, i + 1 := y]) k \<longleftrightarrow> nth_bit buf k"
proof -
  have "k div 8 \<noteq> i" "k div 8 \<noteq> i + 1" using assms by auto
  then show ?thesis by (simp add: nth_bit_def)
qed

lemma nth_bit_be16:
  assumes "i + 1 < length buf" "8 * i \<le> k" "k < 8 * i + 16"
  shows "bit (be16 (buf ! (i + 1)) (buf ! i)) (k - 8 * i) \<longleftrightarrow> nth_bit buf k"
  using nth_bit_pair [OF assms, of "be16 (buf ! (i + 1)) (buf ! i)"] assms(1)
  by simp

lemma xMBUtilSetBits_bit:
  assumes "unat j < 8" "unat n \<le> 8" "i + 1 < length buf"
  shows "\<exists>buf'. xMBUtilSetBits buf i j n v = Some buf' \<and> length buf' = length buf \<and>
    (\<forall>k. nth_bit buf' k \<longleftrightarrow>
       (let s = 8 * i + unat j
        in if s \<le> k \<and> k < s + unat n then bit v (k - s)
           else nth_bit buf k \<or> (s \<le> k \<and> k < s + 8 \<and> bit v (k - s))))"
proof -
  define w where "w = (be16 (buf ! (i + 1)) (buf ! i) AND NOT (push_bit (unat j) (mask (unat n))))
    OR push_bit (unat j) (ucast v)"
  define buf' where "buf' = buf[i := lo8 w, i + 1 := hi8 w]"
  have res: "xMBUtilSetBits buf i j n v = Some buf'"
    using assms by (simp add: xMBUtilSetBits_def word_less_nat_alt small_offset ones_mask Let_def w_def buf'_def
        del: push_bit_of_1)
  have w: "bit w k \<longleftrightarrow> (if unat j \<le> k \<and> k < unat j + unat n then bit v (k - unat j)
      else bit (be16 (buf ! (i + 1)) (buf ! i)) k \<or> unat j \<le> k \<and> bit v (k - unat j))" if "k < 16" for k
    using that assms by (auto simp: w_def bit_simps)
  have v: "bit v k \<Longrightarrow> k < 8" for k by (auto dest: bit_imp_le_length)
  have "nth_bit buf' k \<longleftrightarrow>
       (let s = 8 * i + unat j
        in if s \<le> k \<and> k < s + unat n then bit v (k - s)
           else nth_bit buf k \<or> (s \<le> k \<and> k < s + 8 \<and> bit v (k - s)))" for k
  proof (cases "8 * i \<le> k \<and> k < 8 * i + 16")
    case True
    then obtain d where d: "k = 8 * i + d" "d < 16" by (auto simp: le_iff_add)
    have "nth_bit buf' k \<longleftrightarrow> bit w d"
      unfolding buf'_def using nth_bit_pair [OF assms(3), of k w] d by simp
    moreover have "bit (be16 (buf ! (i + 1)) (buf ! i)) d \<longleftrightarrow> nth_bit buf k"
      using nth_bit_be16 [OF assms(3), of k] d by simp
    ultimately show ?thesis using w [OF d(2)] v [of "d - unat j"] by (auto simp: d(1) Let_def)
  next
    case False
    then have "nth_bit buf' k \<longleftrightarrow> nth_bit buf k"
      unfolding buf'_def by (intro nth_bit_far) linarith
    with False assms(1,2) show ?thesis by (auto simp: Let_def)
  qed
  with res show ?thesis by (auto simp: buf'_def)
qed

section \<open>The bit-field interface\<close>

text \<open>
  What the register callbacks rely on: a field of at most 8 bits written at a bit position is read
  back, and disjoint fields are left alone, provided the value has no bits above the field.
\<close>

locale bit_field =
  fixes setf :: "'b \<Rightarrow> nat \<Rightarrow> nat \<Rightarrow> u8 \<Rightarrow> 'b option"
    and getf :: "'b \<Rightarrow> nat \<Rightarrow> nat \<Rightarrow> u8 option"
    and room :: "'b \<Rightarrow> nat \<Rightarrow> bool"
  assumes set_ok: "room b p \<Longrightarrow> n \<le> 8 \<Longrightarrow> \<exists>b'. setf b p n v = Some b' \<and> (\<forall>q. room b' q = room b q)"
    and get_ok: "room b p \<Longrightarrow> n \<le> 8 \<Longrightarrow> \<exists>v. getf b p n = Some v"
    and get_set: "room b p \<Longrightarrow> n \<le> 8 \<Longrightarrow> v = take_bit n v \<Longrightarrow> setf b p n v = Some b' \<Longrightarrow> getf b' p n = Some v"
    and get_set_other: "room b p \<Longrightarrow> room b q \<Longrightarrow> n \<le> 8 \<Longrightarrow> m \<le> 8 \<Longrightarrow> v = take_bit n v \<Longrightarrow>
      q + m \<le> p \<or> p + n \<le> q \<Longrightarrow> setf b p n v = Some b' \<Longrightarrow> getf b' q m = getf b q m"
begin

text \<open>Two disjoint fields written one after the other are both there.\<close>

lemma two_fields:
  assumes "room b p" "room b q" "n \<le> 8" "m \<le> 8" "v = take_bit n v" "u = take_bit m u" "p + n \<le> q \<or> q + m \<le> p"
  shows "\<exists>b1 b2. setf b p n v = Some b1 \<and> setf b1 q m u = Some b2 \<and>
    getf b2 p n = Some v \<and> getf b2 q m = Some u"
proof -
  obtain b1 where b1: "setf b p n v = Some b1" "\<forall>q. room b1 q = room b q" using set_ok assms by blast
  then obtain b2 where b2: "setf b1 q m u = Some b2" using set_ok [of b1 q m u] assms by auto
  have "getf b2 q m = Some u" using get_set [of b1 q m u b2] b1 b2 assms by simp
  moreover have "getf b2 p n = getf b1 p n"
    using get_set_other [of b1 q p m n u b2] b1(2) b2 assms by auto
  moreover have "getf b1 p n = Some v" using get_set b1 assms by blast
  ultimately show ?thesis using b1 b2 by auto
qed

end

definition set_field :: "u8 list \<Rightarrow> nat \<Rightarrow> nat \<Rightarrow> u8 \<Rightarrow> u8 list option" where
  "set_field buf p n v = xMBUtilSetBits buf (p div 8) (word_of_nat (p mod 8)) (word_of_nat n) v"

definition get_field :: "u8 list \<Rightarrow> nat \<Rightarrow> nat \<Rightarrow> u8 option" where
  "get_field buf p n = xMBUtilGetBits buf (p div 8) (word_of_nat (p mod 8)) (word_of_nat n)"

definition field_room :: "u8 list \<Rightarrow> nat \<Rightarrow> bool" where
  "field_room buf p \<longleftrightarrow> p div 8 + 1 < length buf"

lemma set_field_bit:
  assumes "field_room buf p" "n \<le> 8" "v = take_bit n v"
  shows "\<exists>buf'. set_field buf p n v = Some buf' \<and> length buf' = length buf \<and>
    (\<forall>k. nth_bit buf' k \<longleftrightarrow> (if p \<le> k \<and> k < p + n then bit v (k - p) else nth_bit buf k))"
proof -
  have j: "unat (word_of_nat (p mod 8) :: u16) = p mod 8" "unat (word_of_nat n :: u8) = n"
    using assms(2) by (simp_all add: unsigned_of_nat take_bit_eq_mod)
  have p: "8 * (p div 8) + p mod 8 = p" by simp
  have "bit v k \<Longrightarrow> k < n" for k using assms(3) by (metis bit_take_bit_iff)
  with xMBUtilSetBits_bit [of "word_of_nat (p mod 8)" "word_of_nat n" "p div 8" buf v] assms
  show ?thesis
    unfolding set_field_def field_room_def j p Let_def by fastforce
qed

lemma get_field_bit:
  assumes "field_room buf p" "n \<le> 8"
  shows "\<exists>v. get_field buf p n = Some v \<and> (\<forall>k < 8. bit v k \<longleftrightarrow> k < n \<and> nth_bit buf (p + k))"
proof -
  have j: "unat (word_of_nat (p mod 8) :: u16) = p mod 8" "unat (word_of_nat n :: u8) = n"
    using assms(2) by (simp_all add: unsigned_of_nat take_bit_eq_mod)
  have p: "8 * (p div 8) + p mod 8 = p" by simp
  show ?thesis
    using xMBUtilGetBits_bit [of "word_of_nat (p mod 8)" "word_of_nat n" "p div 8" buf] assms
    unfolding get_field_def field_room_def j p by simp
qed

lemma u8_eqI: "(\<And>k. k < 8 \<Longrightarrow> bit v k = bit (w :: u8) k) \<Longrightarrow> v = w"
  by (rule bit_word_eqI) simp

interpretation bits: bit_field set_field get_field field_room
proof
  fix b b' :: "u8 list" and p q n m :: nat and v :: u8
  assume p: "field_room b p" and n: "n \<le> 8"
  show "\<exists>v. get_field b p n = Some v" using get_field_bit [OF p n] by blast
  {
    assume v: "v = take_bit n v" and s: "set_field b p n v = Some b'"
    from set_field_bit [OF p n v] s have len: "length b' = length b" and
      bits: "nth_bit b' k \<longleftrightarrow> (if p \<le> k \<and> k < p + n then bit v (k - p) else nth_bit b k)" for k
      by auto
    have vk: "bit v k \<Longrightarrow> k < n" for k using v by (metis bit_take_bit_iff)
    have "field_room b' p" using p len by (simp add: field_room_def)
    from get_field_bit [OF this n] obtain u where
      u: "get_field b' p n = Some u" "\<forall>k < 8. bit u k \<longleftrightarrow> k < n \<and> nth_bit b' (p + k)" by blast
    have "u = v" by (rule u8_eqI) (use u(2) bits vk in auto)
    with u(1) show "get_field b' p n = Some v" by simp
    assume q: "field_room b q" and m: "m \<le> 8" and dis: "q + m \<le> p \<or> p + n \<le> q"
    have "field_room b' q" using q len by (simp add: field_room_def)
    from get_field_bit [OF this m] get_field_bit [OF q m] show "get_field b' q m = get_field b q m"
      using dis by (auto intro!: u8_eqI simp: bits)
  }
next
  fix b :: "u8 list" and p n :: nat and v :: u8
  assume p: "field_room b p" and n: "n \<le> 8"
  have "unat (word_of_nat (p mod 8) :: u16) < 8" "unat (word_of_nat n :: u8) \<le> 8"
    using n by (simp_all add: unsigned_of_nat take_bit_eq_mod)
  from xMBUtilSetBits_bit [OF this, of "p div 8" b v] p
  show "\<exists>b'. set_field b p n v = Some b' \<and> (\<forall>q. field_room b' q = field_room b q)"
    by (auto simp: set_field_def field_room_def)
qed

section \<open>Properties\<close>

text \<open>
  Writing a bit field sets its bits to the value's, at any position of the buffer with a byte
  after it; a value with bits above the field also sets those bits behind the field, since it is
  not masked. Reading returns exactly the bits of the field.
\<close>

lemma bit_field_access:
  assumes "unat j < 8" "unat n \<le> 8" "i + 1 < length buf"
  shows "(\<exists>buf'. xMBUtilSetBits buf i j n v = Some buf' \<and> length buf' = length buf \<and>
      (\<forall>k. nth_bit buf' k \<longleftrightarrow>
         (let s = 8 * i + unat j
          in if s \<le> k \<and> k < s + unat n then bit v (k - s)
             else nth_bit buf k \<or> (s \<le> k \<and> k < s + 8 \<and> bit v (k - s))))) \<and>
    (\<exists>r. xMBUtilGetBits buf i j n = Some r \<and>
      (\<forall>k < 8. bit r k \<longleftrightarrow> k < unat n \<and> nth_bit buf (8 * i + unat j + k)))"
  using xMBUtilSetBits_bit [OF assms] xMBUtilGetBits_bit [OF assms] by blast

lemma bit_field_access_witness:
  "\<exists>buf'. xMBUtilSetBits [0, 0, 0] 0 6 3 0x0D = Some buf' \<and> nth_bit buf' 6 \<and> \<not> nth_bit buf' 7 \<and>
    nth_bit buf' 8 \<and> nth_bit buf' 9"
proof -
  have "bit (0x0D :: u8) 0" "\<not> bit (0x0D :: u8) 1" "bit (0x0D :: u8) 2" "bit (0x0D :: u8) 3" by simp_all
  with bit_field_access [of 6 3 0 "[0, 0, 0]" "0x0D"] show ?thesis by (force simp: Let_def)
qed

lemma bit_fields_roundtrip:
  assumes "p div 8 + 1 < length buf" "q div 8 + 1 < length buf" "n \<le> 8" "m \<le> 8"
    "v = take_bit n v" "u = take_bit m u" "p + n \<le> q \<or> q + m \<le> p"
  shows "\<exists>b1 b2. set_field buf p n v = Some b1 \<and> set_field b1 q m u = Some b2 \<and>
    get_field b2 p n = Some v \<and> get_field b2 q m = Some u"
  using bits.two_fields [of buf p q n m v u] assms by (simp add: field_room_def)

end
