(* ===== verification/Mb_Line.thy ===== *)
theory Mb_Line
  imports Mb_Crc Mb_Utils
begin

text \<open>
  What the two RTU stacks (\<open>mbrtu.c\<close>, \<open>mbrtu_m.c\<close>) share: the asserts of the firmware, the event
  flags of the operating system, the character timer, the states of the stacks, and the interfaces
  of a receiver and a sender of bytes, in which the transfer of a whole frame is proved once.
\<close>

text \<open>
  \<open>USE_FULL_ASSERT\<close> is defined (\<open>drivers/stm32f10x_conf.h\<close>) and \<open>assert_failed\<close>
  (\<open>applications/startup.c\<close>) ends in \<open>while (1);\<close>, so a failed \<open>assert_param\<close> never continues: \<open>None\<close>.
\<close>

definition assert_param :: "bool \<Rightarrow> unit option" where
  "assert_param expr = (if expr then Some () else None)"

lemma assert_param_simps [simp]: "assert_param True = Some ()" "assert_param False = None"
  by (simp_all add: assert_param_def)

datatype mb_state = STATE_ENABLED | STATE_DISABLED | STATE_NOT_INITIALIZED

datatype eMBMode = MB_RTU | MB_ASCII | MB_TCP

section \<open>Event flags\<close>

text \<open>
  An RT-Thread event object is its flag word. \<open>event_flags_send\<close> sets flags; a receive with
  \<open>RT_EVENT_FLAG_OR | RT_EVENT_FLAG_CLEAR\<close> takes all requested flags that are set, and waits
  (\<open>None\<close>) when there are none.
\<close>

definition event_flags_send :: "u32 \<Rightarrow> u32 \<Rightarrow> u32" where
  "event_flags_send ev flags = ev OR flags"

definition rt_event_recv_or :: "u32 \<Rightarrow> u32 \<Rightarrow> (u32 \<times> u32) option" where
  "rt_event_recv_or ev flags = (if ev AND flags = 0 then None else Some (ev AND flags, ev AND NOT flags))"

section \<open>The character timer\<close>

text \<open>
  The reload in units of 50 us for 3.5 characters (\<open>eMBRTUInit\<close>, \<open>eMBMasterRTUInit\<close>), narrowed to
  16 bits, and the operating system ticks of it (10000 per second); a baud rate of zero divides by
  zero.
\<close>

definition t35_50us :: "u32 \<Rightarrow> u16 option" where
  "t35_50us ulBaudRate =
    (if ulBaudRate > 19200 then Some 35
     else if ulBaudRate = 0 then None
     else Some (ucast ((7 * 220000) div (2 * ulBaudRate))))"

definition t35_ticks :: "u16 \<Rightarrow> nat" where
  "t35_ticks us = (50 * unat us) div (1000 * 1000 div 10000)"

section \<open>Bytes arriving\<close>

text \<open>
  A receiver that collects up to \<open>cap\<close> bytes: \<open>got s bs\<close> is the state after \<open>bs\<close> has arrived in the
  ready state \<open>s\<close>.
\<close>

locale byte_receiver =
  fixes rx :: "'s \<Rightarrow> u8 \<Rightarrow> 's option"
    and ready :: "'s \<Rightarrow> bool"
    and got :: "'s \<Rightarrow> u8 list \<Rightarrow> 's"
    and cap :: nat
  assumes rx_first: "ready s \<Longrightarrow> rx s b = Some (got s [b])"
    and rx_next: "ready s \<Longrightarrow> bs \<noteq> [] \<Longrightarrow> length bs < cap \<Longrightarrow> rx (got s bs) b = Some (got s (bs @ [b]))"
begin

lemma rx_more:
  "ready s \<Longrightarrow> as \<noteq> [] \<Longrightarrow> length as + length bs \<le> cap \<Longrightarrow>
     run_steps rx (got s as) bs = Some (got s (as @ bs))"
proof (induction bs arbitrary: as)
  case Nil
  then show ?case by simp
next
  case (Cons b bs)
  then show ?case using rx_next [of s as b] Cons.IH [of "as @ [b]"] by simp
qed

lemma rx_frame:
  assumes "ready s" "bs \<noteq> []" "length bs \<le> cap"
  shows "run_steps rx s bs = Some (got s bs)"
proof (cases bs)
  case Nil
  with assms(2) show ?thesis by simp
next
  case (Cons b cs)
  then show ?thesis using rx_more [of s "[b]" cs] rx_first [of s b] assms by simp
qed

end

section \<open>Bytes leaving\<close>

text \<open>
  A sender with the bytes \<open>bs\<close> to go: each step emits one, and one more step finishes.
\<close>

locale byte_sender =
  fixes tx :: "'s \<Rightarrow> 's option"
    and sending :: "'s \<Rightarrow> u8 list \<Rightarrow> bool"
    and emitted :: "u8 list \<Rightarrow> 's \<Rightarrow> 's"
    and finish :: "'s \<Rightarrow> 's"
  assumes tx_byte: "sending s (b # bs) \<Longrightarrow> tx s = Some (emitted [b] s) \<and> sending (emitted [b] s) bs"
    and tx_end: "sending s [] \<Longrightarrow> tx s = Some (finish s)"
    and emitted_Nil: "emitted [] s = s"
    and emitted_append: "emitted (as @ bs) s = emitted bs (emitted as s)"
begin

lemma tx_frame:
  "sending s bs \<Longrightarrow>
     run_steps (\<lambda>s _. tx s) s (replicate (Suc (length bs)) ()) = Some (finish (emitted bs s))"
proof (induction bs arbitrary: s)
  case Nil
  then show ?case by (simp add: tx_end emitted_Nil)
next
  case (Cons b bs)
  from tx_byte [OF Cons.prems] Cons.IH [of "emitted [b] s"] show ?case
    using emitted_append [of "[b]" bs s] by simp
qed

end

section \<open>Sealing a frame in place\<close>

text \<open>Writing the address before and the CRC behind a PDU in a buffer seals the frame in place.\<close>

lemma seal_in_place:
  assumes "n + 3 \<le> length buf"
  shows "(buf[0 := addr])[n + 1 := lo8 (crc16 (addr # take n (drop 1 buf))),
      n + 2 := hi8 (crc16 (addr # take n (drop 1 buf)))]
    = rtu_seal (addr # take n (drop 1 buf)) @ drop (n + 3) buf" (is "?l = ?r")
proof (rule nth_equalityI)
  have ln: "length (rtu_seal (addr # take n (drop 1 buf))) = n + 3"
    using assms by (simp add: rtu_seal_def)
  show "length ?l = length ?r" using assms ln by simp
  fix i assume "i < length ?l"
  then have i: "i < length buf" by simp
  consider "i = 0" | "0 < i" "i \<le> n" | "i = n + 1" | "i = n + 2" | "n + 2 < i" by linarith
  then show "?l ! i = ?r ! i"
  proof cases
    case 1
    then show ?thesis using assms by (cases buf) (simp_all add: rtu_seal_def)
  next
    case 2
    then obtain j where "i = Suc j" by (cases i) auto
    with 2 assms show ?thesis by (simp add: rtu_seal_def nth_append)
  next
    case 3
    then show ?thesis using assms by (simp add: rtu_seal_def nth_append)
  next
    case 4
    then show ?thesis using assms by (simp add: rtu_seal_def nth_append)
  next
    case 5
    then have "?r ! i = drop (n + 3) buf ! (i - (n + 3))" using ln by (simp add: nth_append)
    also have "\<dots> = buf ! i" using 5 i assms by simp
    finally show ?thesis using 5 by simp
  qed
qed

end
