(* ===== verification/Mb_Registers.thy ===== *)
theory Mb_Registers
  imports Mb_Utils
begin

text \<open>
  The loops by which the register callbacks of \<open>FreeModbus/port/user_mb_app.c\<close> and
  \<open>user_mb_app_m.c\<close> move register words and bits between a frame and a register buffer, and what
  they do: words travel big-endian, bits least significant first. The frame pointer of the source
  is the list \<open>buf\<close> with the offset \<open>p\<close>; indices are the 16-bit counters of the code.
\<close>

section \<open>Words\<close>

text \<open>\<open>while (usNRegs > 0) { *pucRegBuffer++ = reg[iRegIndex] >> 8; ... }\<close>\<close>

fun regs_out :: "u16 list \<Rightarrow> u16 \<Rightarrow> u8 list \<Rightarrow> nat \<Rightarrow> nat \<Rightarrow> u8 list option" where
  "regs_out regs iRegIndex buf p 0 = Some buf"
| "regs_out regs iRegIndex buf p (Suc n) = do {
     w \<leftarrow> buf_get regs (unat iRegIndex);
     buf1 \<leftarrow> buf_set buf p (ucast (drop_bit 8 w));
     buf2 \<leftarrow> buf_set buf1 (Suc p) (ucast (w AND 0xFF));
     regs_out regs (iRegIndex + 1) buf2 (Suc (Suc p)) n }"

text \<open>\<open>while (usNRegs > 0) { reg[iRegIndex] = *pucRegBuffer++ << 8; reg[iRegIndex] |= ... }\<close>\<close>

fun regs_in :: "u16 list \<Rightarrow> u16 \<Rightarrow> u8 list \<Rightarrow> nat \<Rightarrow> nat \<Rightarrow> u16 list option" where
  "regs_in regs iRegIndex buf p 0 = Some regs"
| "regs_in regs iRegIndex buf p (Suc n) = do {
     h \<leftarrow> buf_get buf p;
     regs1 \<leftarrow> buf_set regs (unat iRegIndex) (push_bit 8 (ucast h));
     l \<leftarrow> buf_get buf (Suc p);
     w \<leftarrow> buf_get regs1 (unat iRegIndex);
     regs2 \<leftarrow> buf_set regs1 (unat iRegIndex) (w OR ucast l);
     regs_in regs2 (iRegIndex + 1) buf (Suc (Suc p)) n }"

fun be_bytes :: "u16 list \<Rightarrow> u8 list" where
  "be_bytes [] = []"
| "be_bytes (w # ws) = hi8 w # lo8 w # be_bytes ws"

fun be_words :: "u8 list \<Rightarrow> u16 list" where
  "be_words (h # l # bs) = be16 h l # be_words bs"
| "be_words _ = []"

lemma length_be_bytes [simp]: "length (be_bytes ws) = 2 * length ws"
  by (induction ws) auto

lemma length_be_words [simp]: "length (be_words bs) = length bs div 2"
  by (induction bs rule: be_words.induct) auto

lemma be_words_be_bytes [simp]: "be_words (be_bytes ws) = ws"
  by (induction ws) auto

lemma be_bytes_be_words: "even (length bs) \<Longrightarrow> be_bytes (be_words bs) = bs"
  by (induction bs rule: be_words.induct) auto

lemma lo8_and: "ucast (w AND 0xFF :: u16) = lo8 w"
proof -
  have m: "(0xFF :: u16) = mask 8" by (simp add: mask_eq_exp_minus_1)
  show ?thesis unfolding m by (rule bit_word_eqI) (auto simp: lo8_def bit_simps)
qed

lemma unat_Suc_u16: "unat (i :: u16) < 65535 \<Longrightarrow> unat (i + 1) = Suc (unat i)"
  by (simp add: unat_word_ariths)

lemma regs_out_eq:
  assumes "p + 2 * n \<le> length buf" "unat i + n \<le> length regs" "length regs < 65536"
  shows "regs_out regs i buf p n =
    Some (take p buf @ be_bytes (take n (drop (unat i) regs)) @ drop (p + 2 * n) buf)"
  using assms
proof (induction n arbitrary: i buf p)
  case 0
  then show ?case by simp
next
  case (Suc n)
  define w where "w = regs ! unat i"
  define buf2 where "buf2 = buf[p := hi8 w, Suc p := lo8 w]"
  have i: "unat (i + 1) = Suc (unat i)" using Suc.prems by (intro unat_Suc_u16) linarith
  have tk: "take (Suc (Suc p)) buf2 = take p buf @ [hi8 w, lo8 w]"
    using Suc.prems by (simp add: buf2_def take_Suc_update)
  have dr: "drop (Suc (Suc p) + 2 * n) buf2 = drop (p + 2 * Suc n) buf"
    by (simp add: buf2_def)
  have "regs_out regs i buf p (Suc n) = regs_out regs (i + 1) buf2 (Suc (Suc p)) n"
    using Suc.prems by (simp add: buf2_def w_def hi8_def [symmetric] lo8_and)
  also have "\<dots> = Some (take (Suc (Suc p)) buf2 @ be_bytes (take n (drop (unat (i + 1)) regs)) @
      drop (Suc (Suc p) + 2 * n) buf2)"
    using Suc.prems i by (intro Suc.IH) (simp_all add: buf2_def)
  also have "take (Suc n) (drop (unat i) regs) = w # take n (drop (unat (i + 1)) regs)"
    using Suc.prems i by (simp add: w_def Cons_nth_drop_Suc [symmetric])
  ultimately show ?case unfolding tk dr by simp
qed

lemma regs_in_eq:
  assumes "p + 2 * n \<le> length buf" "unat i + n \<le> length regs" "length regs < 65536"
  shows "regs_in regs i buf p n =
    Some (take (unat i) regs @ be_words (take (2 * n) (drop p buf)) @ drop (unat i + n) regs)"
  using assms
proof (induction n arbitrary: i regs p)
  case 0
  then show ?case by simp
next
  case (Suc n)
  define w where "w = be16 (buf ! p) (buf ! Suc p)"
  define regs2 where "regs2 = regs[unat i := w]"
  have i: "unat (i + 1) = Suc (unat i)" using Suc.prems by (intro unat_Suc_u16) linarith
  have tk: "take (Suc (unat i)) regs2 = take (unat i) regs @ [w]"
    using Suc.prems by (simp add: regs2_def take_Suc_update)
  have dr: "drop (Suc (unat i) + n) regs2 = drop (unat i + Suc n) regs"
    by (simp add: regs2_def)
  have bs: "take (2 * Suc n) (drop p buf) = buf ! p # buf ! Suc p # take (2 * n) (drop (Suc (Suc p)) buf)"
    using Suc.prems by (simp add: Cons_nth_drop_Suc [symmetric])
  have "regs_in regs i buf p (Suc n) = regs_in regs2 (i + 1) buf (Suc (Suc p)) n"
    using Suc.prems by (simp add: regs2_def w_def be16_def)
  also have "\<dots> = Some (take (unat (i + 1)) regs2 @ be_words (take (2 * n) (drop (Suc (Suc p)) buf)) @
      drop (unat (i + 1) + n) regs2)"
    using Suc.prems i by (intro Suc.IH) (simp_all add: regs2_def)
  finally show ?case unfolding i tk dr bs by (simp add: w_def)
qed

section \<open>Bits\<close>

text \<open>\<open>while (iNReg > 0) *pucRegBuffer++ = xMBUtilGetBits(&buf[iRegIndex++], iRegBitIndex, 8);\<close>\<close>

fun bits_out :: "u8 list \<Rightarrow> u16 \<Rightarrow> u16 \<Rightarrow> u8 list \<Rightarrow> nat \<Rightarrow> nat \<Rightarrow> u8 list option" where
  "bits_out store iRegIndex iRegBitIndex buf p 0 = Some buf"
| "bits_out store iRegIndex iRegBitIndex buf p (Suc n) = do {
     v \<leftarrow> xMBUtilGetBits store (unat iRegIndex) iRegBitIndex 8;
     buf1 \<leftarrow> buf_set buf p v;
     bits_out store (iRegIndex + 1) iRegBitIndex buf1 (Suc p) n }"

text \<open>\<open>*pucRegBuffer = *pucRegBuffer << (8 - n); *pucRegBuffer = *pucRegBuffer >> (8 - n);\<close>\<close>

definition clear_high_bits :: "u8 list \<Rightarrow> nat \<Rightarrow> u16 \<Rightarrow> u8 list option" where
  "clear_high_bits buf p usNBits = do {
     v \<leftarrow> buf_get buf p;
     buf1 \<leftarrow> buf_set buf p (push_bit (8 - unat usNBits) v);
     v1 \<leftarrow> buf_get buf1 p;
     buf_set buf1 p (drop_bit (8 - unat usNBits) v1) }"

text \<open>
  \<open>while (iNReg > 1) xMBUtilSetBits(&buf[iRegIndex++], iRegBitIndex, 8, *pucRegBuffer++);\<close>, and
  the rest of fewer than eight bits.
\<close>

fun bits_in :: "u8 list \<Rightarrow> u16 \<Rightarrow> u16 \<Rightarrow> u8 list \<Rightarrow> nat \<Rightarrow> nat \<Rightarrow> u16 \<Rightarrow> u8 list option" where
  "bits_in store iRegIndex iRegBitIndex buf p 0 rest =
     (if rest \<noteq> 0 then do {
        v \<leftarrow> buf_get buf p;
        xMBUtilSetBits store (unat iRegIndex) iRegBitIndex (ucast rest) v }
      else Some store)"
| "bits_in store iRegIndex iRegBitIndex buf p (Suc n) rest = do {
     v \<leftarrow> buf_get buf p;
     store1 \<leftarrow> xMBUtilSetBits store (unat iRegIndex) iRegBitIndex 8 v;
     bits_in store1 (iRegIndex + 1) iRegBitIndex buf (Suc p) n rest }"

lemma div8_iff: "k div 8 = p \<longleftrightarrow> 8 * p \<le> k \<and> k < 8 * p + (8::nat)"
  by auto

lemma nth_bit_update:
  "p < length buf \<Longrightarrow> nth_bit (buf[p := v]) k \<longleftrightarrow> (if k div 8 = p then bit v (k mod 8) else nth_bit buf k)"
  by (auto simp: nth_bit_def)

lemma bits_out_ok:
  assumes "unat j < 8" "unat i + n < length store" "p + n \<le> length buf" "length store < 65536"
  shows "\<exists>buf'. bits_out store i j buf p n = Some buf' \<and> length buf' = length buf \<and>
    (\<forall>k. nth_bit buf' k \<longleftrightarrow>
      (if 8 * p \<le> k \<and> k < 8 * (p + n) then nth_bit store (8 * unat i + unat j + (k - 8 * p))
       else nth_bit buf k))"
  using assms
proof (induction n arbitrary: i buf p)
  case 0
  then show ?case by auto
next
  case (Suc n)
  from Suc.prems xMBUtilGetBits_bit [of j 8 "unat i" store]
  obtain v where v: "xMBUtilGetBits store (unat i) j 8 = Some v"
    "\<forall>k < 8. bit v k \<longleftrightarrow> nth_bit store (8 * unat i + unat j + k)" by auto
  have i: "unat (i + 1) = Suc (unat i)" using Suc.prems by (intro unat_Suc_u16) linarith
  have p: "p < length buf" using Suc.prems by simp
  from Suc.IH [of "i + 1" "Suc p" "buf[p := v]"] Suc.prems i
  obtain buf' where b: "bits_out store (i + 1) j (buf[p := v]) (Suc p) n = Some buf'"
    "length buf' = length buf"
    "\<forall>k. nth_bit buf' k \<longleftrightarrow>
      (if 8 * Suc p \<le> k \<and> k < 8 * (Suc p + n) then nth_bit store (8 * unat (i + 1) + unat j + (k - 8 * Suc p))
       else nth_bit (buf[p := v]) k)" by auto
  have "nth_bit buf' k \<longleftrightarrow>
      (if 8 * p \<le> k \<and> k < 8 * (p + Suc n) then nth_bit store (8 * unat i + unat j + (k - 8 * p))
       else nth_bit buf k)" for k
  proof (cases "8 * Suc p \<le> k")
    case True
    then obtain d where "k = 8 * Suc p + d" using le_iff_add by blast
    then have "8 * unat (i + 1) + unat j + (k - 8 * Suc p) = 8 * unat i + unat j + (k - 8 * p)"
      unfolding i by simp
    moreover have "k div 8 \<noteq> p" using True by (simp add: div8_iff)
    ultimately show ?thesis using b(3) True nth_bit_update [OF p, of v k]
      by (simp del: mult_Suc_right) auto
  next
    case False
    then have lo: "nth_bit buf' k \<longleftrightarrow> nth_bit (buf[p := v]) k" using b(3) by auto
    show ?thesis
    proof (cases "8 * p \<le> k")
      case True
      with False have "k div 8 = p" by (simp add: div8_iff)
      moreover from this True have "k mod 8 = k - 8 * p" by (simp add: modulo_nat_def)
      ultimately show ?thesis
        using v(2) lo True False nth_bit_update [OF p, of v k] by auto
    next
      case out: False
      then have "k div 8 \<noteq> p" by (simp add: div8_iff)
      then show ?thesis using lo out nth_bit_update [OF p, of v k] by simp
    qed
  qed
  with b v p show ?case by auto
qed

lemma clear_high_bits_ok:
  assumes "p < length buf" "unat n < 8"
  shows "\<exists>buf'. clear_high_bits buf p n = Some buf' \<and> length buf' = length buf \<and>
    (\<forall>k. nth_bit buf' k \<longleftrightarrow> nth_bit buf k \<and> (k div 8 = p \<longrightarrow> k mod 8 < unat n))"
proof -
  have "bit (drop_bit (8 - unat n) (push_bit (8 - unat n) (buf ! p))) m \<longleftrightarrow> bit (buf ! p) m \<and> m < unat n"
    if "m < 8" for m
    using that assms(2) by (auto simp: bit_simps)
  then show ?thesis
    using assms by (auto simp: clear_high_bits_def nth_bit_update) (auto simp: nth_bit_def)
qed

lemma xMBUtilSetBits_byte:
  assumes "unat j < 8" "i + 1 < length buf"
  shows "\<exists>buf'. xMBUtilSetBits buf i j 8 v = Some buf' \<and> length buf' = length buf \<and>
    (\<forall>k. nth_bit buf' k \<longleftrightarrow>
      (if 8 * i + unat j \<le> k \<and> k < 8 * i + unat j + 8 then bit v (k - (8 * i + unat j)) else nth_bit buf k))"
proof -
  define e where "e = 8 * i + unat j"
  from xMBUtilSetBits_bit [of j 8 i buf v] assms obtain buf' where
    b: "xMBUtilSetBits buf i j 8 v = Some buf'" "length buf' = length buf" and
    n: "\<forall>k. nth_bit buf' k \<longleftrightarrow> (if e \<le> k \<and> k < e + 8 then bit v (k - e)
           else nth_bit buf k \<or> (e \<le> k \<and> k < e + 8 \<and> bit v (k - e)))"
    unfolding e_def [symmetric] Let_def by auto
  have "nth_bit buf' k \<longleftrightarrow> (if e \<le> k \<and> k < e + 8 then bit v (k - e) else nth_bit buf k)" for k
    using n by (metis (full_types))
  with b show ?thesis unfolding e_def by blast
qed

text \<open>What arrives: full bytes overwrite, the last one is not masked.\<close>

lemma bits_in_ok:
  assumes "unat j < 8" "unat r < 8" "unat i + n + (if r = 0 then 0 else 1) < length store"
    "p + n + (if r = 0 then 0 else 1) \<le> length buf" "length store < 65536"
  shows "\<exists>store'. bits_in store i j buf p n r = Some store' \<and> length store' = length store \<and>
    (\<forall>k. nth_bit store' k \<longleftrightarrow>
      (let s = 8 * unat i + unat j
       in if s \<le> k \<and> k < s + 8 * n + unat r then nth_bit buf (8 * p + (k - s))
          else nth_bit store k \<or>
            (r \<noteq> 0 \<and> s + 8 * n \<le> k \<and> k < s + 8 * n + 8 \<and> nth_bit buf (8 * p + (k - s)))))"
  using assms
proof (induction n arbitrary: i store p)
  case 0
  show ?case
  proof (cases "r = 0")
    case True
    then show ?thesis by (auto simp: Let_def)
  next
    case False
    have r: "unat (ucast r :: u8) = unat r"
      using "0.prems"(2) by (simp add: unsigned_ucast_eq take_bit_eq_mod)
    have nb: "bit (buf ! p) m \<longleftrightarrow> nth_bit buf (8 * p + m)" if "m < 8" for m
      using that by (simp add: nth_bit_def)
    from False "0.prems" xMBUtilSetBits_bit [of j "ucast r" "unat i" store "buf ! p"] r
    obtain store' where s: "xMBUtilSetBits store (unat i) j (ucast r) (buf ! p) = Some store'"
      "length store' = length store"
      "\<forall>k. nth_bit store' k \<longleftrightarrow>
         (let s = 8 * unat i + unat j
          in if s \<le> k \<and> k < s + unat r then bit (buf ! p) (k - s)
             else nth_bit store k \<or> (s \<le> k \<and> k < s + 8 \<and> bit (buf ! p) (k - s)))" by auto
    define e where "e = 8 * unat i + unat j"
    have "nth_bit store' k \<longleftrightarrow>
      (if e \<le> k \<and> k < e + unat r then nth_bit buf (8 * p + (k - e))
          else nth_bit store k \<or> (e \<le> k \<and> k < e + 8 \<and> nth_bit buf (8 * p + (k - e))))" for k
    proof -
      have "nth_bit store' k \<longleftrightarrow>
        (if e \<le> k \<and> k < e + unat r then bit (buf ! p) (k - e)
         else nth_bit store k \<or> (e \<le> k \<and> k < e + 8 \<and> bit (buf ! p) (k - e)))"
        using s(3) by (simp add: e_def Let_def)
      moreover have "bit (buf ! p) (k - e) \<longleftrightarrow> nth_bit buf (8 * p + (k - e))" if "e \<le> k" "k < e + 8"
        using that by (intro nb) linarith
      moreover have "k < e + 8" if "k < e + unat r" using that "0.prems"(2) by linarith
      ultimately show ?thesis by (metis (full_types))
    qed
    moreover have "bits_in store i j buf p 0 r = Some store'" using s(1) False "0.prems"(4) by simp
    ultimately show ?thesis using s(2) False
      unfolding Let_def e_def [symmetric] by (intro exI [of _ store']) simp
  qed
next
  case (Suc n)
  define s where "s = 8 * unat i + unat j"
  have p: "p < length buf" using Suc.prems by simp
  have "unat i + 1 < length store" using Suc.prems by simp
  from xMBUtilSetBits_byte [OF Suc.prems(1) this, of "buf ! p"]
  obtain store1 where s1: "xMBUtilSetBits store (unat i) j 8 (buf ! p) = Some store1"
    "length store1 = length store"
    "\<forall>k. nth_bit store1 k \<longleftrightarrow> (if s \<le> k \<and> k < s + 8 then bit (buf ! p) (k - s) else nth_bit store k)"
    unfolding s_def by blast
  have i: "unat (i + 1) = Suc (unat i)" using Suc.prems by (intro unat_Suc_u16) linarith
  have si: "8 * unat (i + 1) + unat j = s + 8" unfolding i s_def by simp
  from Suc.IH [of "i + 1" store1 "Suc p"] Suc.prems i s1(2)
  obtain store' where s2: "bits_in store1 (i + 1) j buf (Suc p) n r = Some store'"
    "length store' = length store"
    "\<forall>k. nth_bit store' k \<longleftrightarrow>
      (if s + 8 \<le> k \<and> k < s + 8 + 8 * n + unat r then nth_bit buf (8 * Suc p + (k - (s + 8)))
          else nth_bit store1 k \<or>
            (r \<noteq> 0 \<and> s + 8 + 8 * n \<le> k \<and> k < s + 8 + 8 * n + 8 \<and> nth_bit buf (8 * Suc p + (k - (s + 8)))))"
    unfolding si by (auto simp: Let_def)
  have "nth_bit store' k \<longleftrightarrow>
      (if s \<le> k \<and> k < s + 8 * Suc n + unat r then nth_bit buf (8 * p + (k - s))
          else nth_bit store k \<or>
            (r \<noteq> 0 \<and> s + 8 * Suc n \<le> k \<and> k < s + 8 * Suc n + 8 \<and> nth_bit buf (8 * p + (k - s))))" for k
  proof (cases "s + 8 \<le> k")
    case True
    then have "8 * Suc p + (k - (s + 8)) = 8 * p + (k - s)" by simp
    with s2(3) s1(3) True show ?thesis by (simp add: algebra_simps)
  next
    case False
    then have "nth_bit store' k \<longleftrightarrow> nth_bit store1 k" using s2(3) by simp
    moreover have "bit (buf ! p) (k - s) \<longleftrightarrow> nth_bit buf (8 * p + (k - s))" if "s \<le> k"
    proof -
      have "k - s < 8" using that False by linarith
      then show ?thesis unfolding nth_bit_def by simp
    qed
    ultimately show ?thesis using s1(3) False by auto
  qed
  moreover have "bits_in store i j buf p (Suc n) r = Some store'" using s1(1) s2(1) p by simp
  ultimately show ?case using s2(2)
    unfolding Let_def s_def [symmetric] by (intro exI [of _ store']) (simp del: mult_Suc_right)
qed

section \<open>Bit blocks\<close>

text \<open>
  The callbacks split an address \<open>a\<close> into \<open>a / 8\<close> and \<open>a % 8\<close> and transfer \<open>n / 8 + 1\<close> bytes. Reading
  looks one byte further than the last one it needs.
\<close>

lemma u16_div8: "unat ((a :: u16) div 8) = unat a div 8" "unat (a mod 8) = unat a mod 8"
  by (simp_all add: unat_div_distrib unat_mod_distrib)

lemma u16_div8_Suc: "unat ((n :: u16) div 8 + 1) = Suc (unat n div 8)"
proof -
  have "unat n < 65536" using unsigned_less [where ?'a = nat, of n] by simp
  then have "unat n div 8 < 8192" by (simp add: less_mult_imp_div_less)
  then have "unat (n div 8) < 65535" by (simp add: u16_div8)
  then show ?thesis by (simp add: unat_Suc_u16 u16_div8)
qed

lemma bits_read_ok:
  assumes "unat a div 8 + unat n div 8 + 1 < length store" "p + unat n div 8 + 1 \<le> length buf"
    "length store < 65536"
  shows "\<exists>buf1 buf'. bits_out store (a div 8) (a mod 8) buf p (unat (n div 8 + 1)) = Some buf1 \<and>
    clear_high_bits buf1 (p + unat (n div 8 + 1) - 1) (n mod 8) = Some buf' \<and> length buf' = length buf \<and>
    (\<forall>k. nth_bit buf' k \<longleftrightarrow>
      (if 8 * p \<le> k \<and> k < 8 * (p + unat n div 8 + 1)
       then k - 8 * p < unat n \<and> nth_bit store (unat a + (k - 8 * p)) else nth_bit buf k))"
proof -
  define q where "q = p + unat n div 8"
  have a: "8 * unat (a div 8) + unat (a mod 8) = unat a" by (simp add: u16_div8)
  have q1: "p + Suc (unat n div 8) = q + 1" "p + Suc (unat n div 8) - 1 = q" by (simp_all add: q_def)
  from bits_out_ok [of "a mod 8" "a div 8" "Suc (unat n div 8)" store p buf] assms
  obtain buf1 where b1: "bits_out store (a div 8) (a mod 8) buf p (Suc (unat n div 8)) = Some buf1"
    "length buf1 = length buf"
    "\<forall>k. nth_bit buf1 k \<longleftrightarrow> (if 8 * p \<le> k \<and> k < 8 * (q + 1) then nth_bit store (unat a + (k - 8 * p))
       else nth_bit buf k)"
    unfolding a q1 by (simp add: u16_div8 q_def del: bits_out.simps) blast
  have "q < length buf1" using assms(2) b1(2) by (simp add: q_def)
  from clear_high_bits_ok [OF this, of "n mod 8"]
  obtain buf' where b2: "clear_high_bits buf1 q (n mod 8) = Some buf'" "length buf' = length buf"
    "\<forall>k. nth_bit buf' k \<longleftrightarrow> nth_bit buf1 k \<and> (k div 8 = q \<longrightarrow> k mod 8 < unat n mod 8)"
    using b1(2) by (auto simp: u16_div8)
  have "nth_bit buf' k \<longleftrightarrow>
      (if 8 * p \<le> k \<and> k < 8 * (q + 1) then k - 8 * p < unat n \<and> nth_bit store (unat a + (k - 8 * p))
       else nth_bit buf k)" for k
  proof (cases "8 * p \<le> k \<and> k < 8 * (q + 1)")
    case True
    then obtain d where d: "k = 8 * p + d" using le_iff_add by blast
    have "(k div 8 = q \<longrightarrow> k mod 8 < unat n mod 8) \<longleftrightarrow> d < unat n"
    proof -
      have kd: "k div 8 = p + d div 8" "k mod 8 = d mod 8" by (simp_all add: d)
      have dn: "d div 8 \<le> unat n div 8" using True by (simp add: d q_def)
      have e: "unat n = 8 * (unat n div 8) + unat n mod 8" "d = 8 * (d div 8) + d mod 8" by simp_all
      show ?thesis
      proof (cases "d div 8 = unat n div 8")
        case True
        then have "d < unat n \<longleftrightarrow> d mod 8 < unat n mod 8" using e by (metis nat_add_left_cancel_less)
        with True show ?thesis unfolding kd q_def by simp
      next
        case False
        then have "d < unat n" using dn by (metis div_le_mono le_antisym not_less)
        with False show ?thesis unfolding kd q_def by simp
      qed
    qed
    with True d b1(3) b2(3) show ?thesis by auto
  next
    case False
    then have "k div 8 \<noteq> q" by (auto simp: div8_iff q_def)
    with False b1(3) b2(3) show ?thesis by auto
  qed
  then show ?thesis using b1(1) b2(1,2) by (simp add: u16_div8_Suc q1 q_def add.assoc)
qed

lemma bits_write_ok:
  assumes "unat a div 8 + unat n div 8 + (if unat n mod 8 = 0 then 0 else 1) < length store"
    "p + unat n div 8 + (if unat n mod 8 = 0 then 0 else 1) \<le> length buf" "length store < 65536"
  shows "\<exists>store'. bits_in store (a div 8) (a mod 8) buf p (unat (n div 8 + 1) - 1) (n mod 8) = Some store' \<and>
    length store' = length store \<and>
    (\<forall>k. nth_bit store' k \<longleftrightarrow>
      (if unat a \<le> k \<and> k < unat a + unat n then nth_bit buf (8 * p + (k - unat a))
       else nth_bit store k \<or>
         (unat n mod 8 \<noteq> 0 \<and> unat a + unat n \<le> k \<and> k < unat a + 8 * (unat n div 8) + 8 \<and>
          nth_bit buf (8 * p + (k - unat a)))))"
proof -
  have a: "8 * unat (a div 8) + unat (a mod 8) = unat a" by (simp add: u16_div8)
  have n: "unat a + 8 * (unat n div 8) + unat (n mod 8) = unat a + unat n" by (simp add: u16_div8)
  have z: "n mod 8 = 0 \<longleftrightarrow> unat n mod 8 = 0"
    by (metis u16_div8(2) unat_eq_0)
  have ge: "unat a + 8 * (unat n div 8) \<le> unat a + unat n" by simp
  from bits_in_ok [of "a mod 8" "n mod 8" "a div 8" "unat n div 8" store p buf] assms
  obtain store' where s: "bits_in store (a div 8) (a mod 8) buf p (unat n div 8) (n mod 8) = Some store'"
    "length store' = length store"
    "\<forall>k. nth_bit store' k \<longleftrightarrow>
      (if unat a \<le> k \<and> k < unat a + unat n then nth_bit buf (8 * p + (k - unat a))
       else nth_bit store k \<or>
         (unat n mod 8 \<noteq> 0 \<and> unat a + 8 * (unat n div 8) \<le> k \<and> k < unat a + 8 * (unat n div 8) + 8 \<and>
          nth_bit buf (8 * p + (k - unat a))))"
    unfolding a n Let_def z by (auto simp: u16_div8)
  have "nth_bit store' k \<longleftrightarrow>
      (if unat a \<le> k \<and> k < unat a + unat n then nth_bit buf (8 * p + (k - unat a))
       else nth_bit store k \<or>
         (unat n mod 8 \<noteq> 0 \<and> unat a + unat n \<le> k \<and> k < unat a + 8 * (unat n div 8) + 8 \<and>
          nth_bit buf (8 * p + (k - unat a))))" for k
  proof (cases "unat a + unat n \<le> k")
    case True
    with ge have "unat a + 8 * (unat n div 8) \<le> k" by linarith
    with s(3) True show ?thesis by auto
  next
    case False
    then show ?thesis using s(3) by auto
  qed
  with s(1,2) show ?thesis by (simp add: u16_div8_Suc)
qed

text \<open>A read that needs the byte behind the buffer has no defined result.\<close>

lemma xMBUtilGetBits_None:
  "unat j < 8 \<Longrightarrow> length store \<le> i + 1 \<Longrightarrow> xMBUtilGetBits store i j n = None"
  by (simp add: xMBUtilGetBits_def small_offset Let_def bind_eq_None_conv)

lemma bits_out_None:
  "unat j < 8 \<Longrightarrow> length store < 65536 \<Longrightarrow> unat i < length store \<Longrightarrow> length store \<le> unat i + n \<Longrightarrow>
     bits_out store i j buf p n = None"
proof (induction n arbitrary: i buf p)
  case 0
  then show ?case by simp
next
  case (Suc n)
  show ?case
  proof (cases "unat i + 1 < length store")
    case True
    then have "unat (i + 1) = Suc (unat i)" using Suc.prems(2) by (intro unat_Suc_u16) linarith
    with True Suc show ?thesis by (auto simp: bind_eq_None_conv)
  next
    case False
    then show ?thesis using Suc.prems by (simp add: xMBUtilGetBits_None)
  qed
qed

end
