(* ===== verification/Mb_Slave_App.thy ===== *)
theory Mb_Slave_App
  imports Mb_Registers
begin

text \<open>
  The register callbacks of the Modbus slave, \<open>FreeModbus/port/user_mb_app.c\<close>, over the four
  register buffers. A callback receives the frame with the offset of its data, the address already
  incremented by the protocol handler, and the count. \<open>None\<close> is an access outside a buffer.
\<close>

section \<open>Buffers\<close>

definition S_DISCRETE_INPUT_START :: u16 where "S_DISCRETE_INPUT_START = 0"
definition S_DISCRETE_INPUT_NDISCRETES :: nat where "S_DISCRETE_INPUT_NDISCRETES = 16"
definition S_COIL_START :: u16 where "S_COIL_START = 0"
definition S_COIL_NCOILS :: nat where "S_COIL_NCOILS = 64"
definition S_REG_INPUT_START :: u16 where "S_REG_INPUT_START = 0"
definition S_REG_INPUT_NREGS :: nat where "S_REG_INPUT_NREGS = 100"
definition S_REG_HOLDING_START :: u16 where "S_REG_HOLDING_START = 0"
definition S_REG_HOLDING_NREGS :: nat where "S_REG_HOLDING_NREGS = 100"

lemmas slave_sizes = S_DISCRETE_INPUT_START_def S_DISCRETE_INPUT_NDISCRETES_def S_COIL_START_def
  S_COIL_NCOILS_def S_REG_INPUT_START_def S_REG_INPUT_NREGS_def S_REG_HOLDING_START_def
  S_REG_HOLDING_NREGS_def

record slave_regs =
  ucSDiscInBuf :: "u8 list"
  ucSCoilBuf :: "u8 list"
  usSRegInBuf :: "u16 list"
  usSRegHoldBuf :: "u16 list"

definition slave_regs_init :: slave_regs where
  "slave_regs_init = \<lparr> ucSDiscInBuf = replicate (S_DISCRETE_INPUT_NDISCRETES div 8) 0,
     ucSCoilBuf = replicate (S_COIL_NCOILS div 8) 0,
     usSRegInBuf = replicate S_REG_INPUT_NREGS 0,
     usSRegHoldBuf = replicate S_REG_HOLDING_NREGS 0 \<rparr>"

definition slave_regs_wf :: "slave_regs \<Rightarrow> bool" where
  "slave_regs_wf r \<longleftrightarrow> length (ucSDiscInBuf r) = 2 \<and> length (ucSCoilBuf r) = 8 \<and>
     length (usSRegInBuf r) = 100 \<and> length (usSRegHoldBuf r) = 100"

lemma slave_regs_init_wf [simp]: "slave_regs_wf slave_regs_init"
  by (simp add: slave_regs_wf_def slave_regs_init_def slave_sizes)

section \<open>Callbacks\<close>

text \<open>The sums of the range checks are computed in \<open>int\<close>, hence without wrap-around.\<close>

definition eMBRegInputCB ::
  "slave_regs \<Rightarrow> u8 list \<Rightarrow> nat \<Rightarrow> u16 \<Rightarrow> u16 \<Rightarrow> (u8 list \<times> eMBErrorCode) option" where
  "eMBRegInputCB r pucRegBuffer p usAddress0 usNRegs =
    (let usAddress = usAddress0 - 1
     in if S_REG_INPUT_START \<le> usAddress \<and>
           unat usAddress + unat usNRegs \<le> unat S_REG_INPUT_START + S_REG_INPUT_NREGS
        then do {
          buf \<leftarrow> regs_out (usSRegInBuf r) (usAddress - S_REG_INPUT_START) pucRegBuffer p (unat usNRegs);
          Some (buf, MB_ENOERR) }
        else Some (pucRegBuffer, MB_ENOREG))"

definition eMBRegHoldingCB :: "slave_regs \<Rightarrow> u8 list \<Rightarrow> nat \<Rightarrow> u16 \<Rightarrow> u16 \<Rightarrow> eMBRegisterMode \<Rightarrow>
    (slave_regs \<times> u8 list \<times> eMBErrorCode) option" where
  "eMBRegHoldingCB r pucRegBuffer p usAddress0 usNRegs eMode =
    (let usAddress = usAddress0 - 1
     in if S_REG_HOLDING_START \<le> usAddress \<and>
           unat usAddress + unat usNRegs \<le> unat S_REG_HOLDING_START + S_REG_HOLDING_NREGS
        then let iRegIndex = usAddress - S_REG_HOLDING_START
             in case eMode of
                  MB_REG_READ \<Rightarrow> do {
                    buf \<leftarrow> regs_out (usSRegHoldBuf r) iRegIndex pucRegBuffer p (unat usNRegs);
                    Some (r, buf, MB_ENOERR) }
                | MB_REG_WRITE \<Rightarrow> do {
                    regs \<leftarrow> regs_in (usSRegHoldBuf r) iRegIndex pucRegBuffer p (unat usNRegs);
                    Some (r\<lparr> usSRegHoldBuf := regs \<rparr>, pucRegBuffer, MB_ENOERR) }
        else Some (r, pucRegBuffer, MB_ENOREG))"

definition eMBRegCoilsCB :: "slave_regs \<Rightarrow> u8 list \<Rightarrow> nat \<Rightarrow> u16 \<Rightarrow> u16 \<Rightarrow> eMBRegisterMode \<Rightarrow>
    (slave_regs \<times> u8 list \<times> eMBErrorCode) option" where
  "eMBRegCoilsCB r pucRegBuffer p usAddress0 usNCoils eMode =
    (let iNReg = usNCoils div 8 + 1;
         usAddress = usAddress0 - 1
     in if S_COIL_START \<le> usAddress \<and>
           unat usAddress + unat usNCoils \<le> unat S_COIL_START + S_COIL_NCOILS
        then let iRegIndex = (usAddress - S_COIL_START) div 8;
                 iRegBitIndex = (usAddress - S_COIL_START) mod 8
             in case eMode of
                  MB_REG_READ \<Rightarrow> do {
                    buf \<leftarrow> bits_out (ucSCoilBuf r) iRegIndex iRegBitIndex pucRegBuffer p (unat iNReg);
                    buf' \<leftarrow> clear_high_bits buf (p + unat iNReg - 1) (usNCoils mod 8);
                    Some (r, buf', MB_ENOERR) }
                | MB_REG_WRITE \<Rightarrow> do {
                    coils \<leftarrow> bits_in (ucSCoilBuf r) iRegIndex iRegBitIndex pucRegBuffer p
                               (unat iNReg - 1) (usNCoils mod 8);
                    Some (r\<lparr> ucSCoilBuf := coils \<rparr>, pucRegBuffer, MB_ENOERR) }
        else Some (r, pucRegBuffer, MB_ENOREG))"

definition eMBRegDiscreteCB ::
  "slave_regs \<Rightarrow> u8 list \<Rightarrow> nat \<Rightarrow> u16 \<Rightarrow> u16 \<Rightarrow> (u8 list \<times> eMBErrorCode) option" where
  "eMBRegDiscreteCB r pucRegBuffer p usAddress0 usNDiscrete =
    (let iNReg = usNDiscrete div 8 + 1;
         usAddress = usAddress0 - 1
     in if S_DISCRETE_INPUT_START \<le> usAddress \<and>
           unat usAddress + unat usNDiscrete \<le> unat S_DISCRETE_INPUT_START + S_DISCRETE_INPUT_NDISCRETES
        then let iRegIndex = (usAddress - S_DISCRETE_INPUT_START) div 8;
                 iRegBitIndex = (usAddress - S_DISCRETE_INPUT_START) mod 8
             in do {
               buf \<leftarrow> bits_out (ucSDiscInBuf r) iRegIndex iRegBitIndex pucRegBuffer p (unat iNReg);
               buf' \<leftarrow> clear_high_bits buf (p + unat iNReg - 1) (usNDiscrete mod 8);
               Some (buf', MB_ENOERR) }
        else Some (pucRegBuffer, MB_ENOREG))"

section \<open>Words: what the callbacks do\<close>

lemma eMBRegInputCB_eq:
  assumes "slave_regs_wf r" "unat a + unat n \<le> 100 \<Longrightarrow> p + 2 * unat n \<le> length buf"
  shows "eMBRegInputCB r buf p (a + 1) n =
    Some (if unat a + unat n \<le> 100
          then (take p buf @ be_bytes (take (unat n) (drop (unat a) (usSRegInBuf r))) @
                drop (p + 2 * unat n) buf, MB_ENOERR)
          else (buf, MB_ENOREG))"
  using assms regs_out_eq [of p "unat n" buf a "usSRegInBuf r"]
  by (simp add: eMBRegInputCB_def slave_regs_wf_def slave_sizes Let_def)

lemma eMBRegHoldingCB_read:
  assumes "slave_regs_wf r" "unat a + unat n \<le> 100 \<Longrightarrow> p + 2 * unat n \<le> length buf"
  shows "eMBRegHoldingCB r buf p (a + 1) n MB_REG_READ =
    Some (r, if unat a + unat n \<le> 100
          then (take p buf @ be_bytes (take (unat n) (drop (unat a) (usSRegHoldBuf r))) @
                drop (p + 2 * unat n) buf, MB_ENOERR)
          else (buf, MB_ENOREG))"
  using assms regs_out_eq [of p "unat n" buf a "usSRegHoldBuf r"]
  by (simp add: eMBRegHoldingCB_def slave_regs_wf_def slave_sizes Let_def)

definition put_words :: "u16 list \<Rightarrow> nat \<Rightarrow> u16 list \<Rightarrow> u16 list" where
  "put_words regs a ws = take a regs @ ws @ drop (a + length ws) regs"

lemma eMBRegHoldingCB_write:
  assumes "slave_regs_wf r" "unat a + unat n \<le> 100 \<Longrightarrow> p + 2 * unat n \<le> length buf"
  shows "eMBRegHoldingCB r buf p (a + 1) n MB_REG_WRITE =
    Some (if unat a + unat n \<le> 100
          then (r\<lparr> usSRegHoldBuf := put_words (usSRegHoldBuf r) (unat a)
                     (be_words (take (2 * unat n) (drop p buf))) \<rparr>, buf, MB_ENOERR)
          else (r, buf, MB_ENOREG))"
proof (cases "unat a + unat n \<le> 100")
  case True
  then have "length (be_words (take (2 * unat n) (drop p buf))) = unat n" using assms(2) by simp
  with True show ?thesis
    using assms regs_in_eq [of p "unat n" buf a "usSRegHoldBuf r"]
    by (simp add: eMBRegHoldingCB_def slave_regs_wf_def slave_sizes put_words_def
        del: length_be_words)
qed (simp add: eMBRegHoldingCB_def slave_sizes)

section \<open>The holding registers as a register file\<close>

text \<open>
  What a client of the holding registers relies on: blocks are read back as written, other blocks
  are untouched, and reading is by position.
\<close>

locale register_file =
  fixes rd :: "'r \<Rightarrow> nat \<Rightarrow> nat \<Rightarrow> 'w list option"
    and wr :: "'r \<Rightarrow> nat \<Rightarrow> 'w list \<Rightarrow> 'r option"
    and room :: "'r \<Rightarrow> nat"
  assumes rd_ok: "a + n \<le> room r \<Longrightarrow> \<exists>ws. rd r a n = Some ws \<and> length ws = n"
    and wr_ok: "a + length ws \<le> room r \<Longrightarrow> \<exists>r'. wr r a ws = Some r' \<and> room r' = room r"
    and rd_wr: "a + length ws \<le> room r \<Longrightarrow> wr r a ws = Some r' \<Longrightarrow> rd r' a (length ws) = Some ws"
    and rd_wr_other: "a + length ws \<le> room r \<Longrightarrow> b + n \<le> room r \<Longrightarrow> b + n \<le> a \<or> a + length ws \<le> b \<Longrightarrow>
      wr r a ws = Some r' \<Longrightarrow> rd r' b n = rd r b n"
    and rd_split: "a + (n + m) \<le> room r \<Longrightarrow> rd r a (n + m) = do {
      ws \<leftarrow> rd r a n; vs \<leftarrow> rd r (a + n) m; Some (ws @ vs) }"
begin

text \<open>Two adjacent blocks written one after the other read back as one block.\<close>

lemma adjacent_blocks:
  assumes "a + length ws + length vs \<le> room r"
  shows "\<exists>r1 r2. wr r a ws = Some r1 \<and> wr r1 (a + length ws) vs = Some r2 \<and> room r2 = room r \<and>
    rd r2 a (length ws + length vs) = Some (ws @ vs)"
proof -
  obtain r1 where r1: "wr r a ws = Some r1" "room r1 = room r" using wr_ok [of a ws r] assms by auto
  obtain r2 where r2: "wr r1 (a + length ws) vs = Some r2" "room r2 = room r"
    using wr_ok [of "a + length ws" vs r1] assms r1(2) by auto
  have "rd r2 a (length ws) = rd r1 a (length ws)"
    using rd_wr_other [OF _ _ _ r2(1), of a "length ws"] assms r1(2) by simp
  also have "\<dots> = Some ws" using rd_wr [OF _ r1(1)] assms by simp
  finally have "rd r2 a (length ws) = Some ws" .
  moreover have "rd r2 (a + length ws) (length vs) = Some vs"
    using rd_wr [OF _ r2(1)] assms r1(2) by simp
  ultimately have "rd r2 a (length ws + length vs) = Some (ws @ vs)"
    using rd_split [of a "length ws" "length vs" r2] assms r2(2) by simp
  with r1 r2 show ?thesis by blast
qed

text \<open>The last write of a block counts.\<close>

lemma overwrite:
  assumes "a + length ws \<le> room r" "length vs = length ws"
  shows "\<exists>r1 r2. wr r a ws = Some r1 \<and> wr r1 a vs = Some r2 \<and> rd r2 a (length ws) = Some vs"
proof -
  obtain r1 where r1: "wr r a ws = Some r1" "room r1 = room r" using wr_ok [OF assms(1)] by blast
  then have v: "a + length vs \<le> room r1" using assms by simp
  then obtain r2 where r2: "wr r1 a vs = Some r2" using wr_ok [OF v] by blast
  have "rd r2 a (length ws) = Some vs" using rd_wr [OF v r2] assms(2) by simp
  with r1 r2 show ?thesis by blast
qed

end

definition hold_rd :: "slave_regs \<Rightarrow> nat \<Rightarrow> nat \<Rightarrow> u16 list option" where
  "hold_rd r a n =
    (case eMBRegHoldingCB r (replicate (2 * n) 0) 0 (word_of_nat a + 1) (word_of_nat n) MB_REG_READ of
       Some (_, buf, MB_ENOERR) \<Rightarrow> Some (be_words buf)
     | _ \<Rightarrow> None)"

definition hold_wr :: "slave_regs \<Rightarrow> nat \<Rightarrow> u16 list \<Rightarrow> slave_regs option" where
  "hold_wr r a ws =
    (case eMBRegHoldingCB r (be_bytes ws) 0 (word_of_nat a + 1) (word_of_nat (length ws)) MB_REG_WRITE of
       Some (r', _, MB_ENOERR) \<Rightarrow> Some r'
     | _ \<Rightarrow> None)"

definition hold_room :: "slave_regs \<Rightarrow> nat" where
  "hold_room r = (if slave_regs_wf r then 100 else 0)"

lemma hold_rd_eq:
  assumes "slave_regs_wf r" "a + n \<le> 100"
  shows "hold_rd r a n = Some (take n (drop a (usSRegHoldBuf r)))"
proof -
  have u: "unat (word_of_nat a :: u16) = a" "unat (word_of_nat n :: u16) = n"
    by (rule unat_small_u16, use assms(2) in linarith)+
  have "eMBRegHoldingCB r (replicate (2 * n) 0) 0 (word_of_nat a + 1) (word_of_nat n) MB_REG_READ =
      Some (r, be_bytes (take n (drop a (usSRegHoldBuf r))), MB_ENOERR)"
    using assms eMBRegHoldingCB_read [OF assms(1), of "word_of_nat a" "word_of_nat n" 0 "replicate (2 * n) 0"]
    unfolding u by simp
  then show ?thesis by (simp add: hold_rd_def)
qed

lemma hold_wr_eq:
  assumes "slave_regs_wf r" "a + length ws \<le> 100"
  shows "hold_wr r a ws = Some (r\<lparr> usSRegHoldBuf := put_words (usSRegHoldBuf r) a ws \<rparr>)"
proof -
  have u: "unat (word_of_nat a :: u16) = a" "unat (word_of_nat (length ws) :: u16) = length ws"
    by (rule unat_small_u16, use assms(2) in linarith)+
  have "eMBRegHoldingCB r (be_bytes ws) 0 (word_of_nat a + 1) (word_of_nat (length ws)) MB_REG_WRITE =
      Some (r\<lparr> usSRegHoldBuf := put_words (usSRegHoldBuf r) a ws \<rparr>, be_bytes ws, MB_ENOERR)"
    using assms eMBRegHoldingCB_write [OF assms(1), of "word_of_nat a" "word_of_nat (length ws)" 0 "be_bytes ws"]
    unfolding u by simp
  then show ?thesis by (simp add: hold_wr_def)
qed

lemma length_put_words: "a + length ws \<le> length regs \<Longrightarrow> length (put_words regs a ws) = length regs"
  by (simp add: put_words_def)

lemma put_words_wf:
  "slave_regs_wf r \<Longrightarrow> a + length ws \<le> 100 \<Longrightarrow>
     slave_regs_wf (r\<lparr> usSRegHoldBuf := put_words (usSRegHoldBuf r) a ws \<rparr>)"
  by (simp add: slave_regs_wf_def length_put_words)

lemma hold_rd_0: "hold_rd r 0 0 = Some []"
  by (simp add: hold_rd_def eMBRegHoldingCB_def slave_sizes)

lemma hold_wr_0: "hold_wr r 0 [] = Some r"
  by (simp add: hold_wr_def eMBRegHoldingCB_def slave_sizes)

interpretation hold: register_file hold_rd hold_wr hold_room
proof
  fix r r' :: slave_regs and a b n m :: nat and ws :: "u16 list"
  show "a + n \<le> hold_room r \<Longrightarrow> \<exists>ws. hold_rd r a n = Some ws \<and> length ws = n"
    by (auto simp: hold_room_def hold_rd_eq slave_regs_wf_def hold_rd_0 split: if_splits)
  show "a + length ws \<le> hold_room r \<Longrightarrow> \<exists>r'. hold_wr r a ws = Some r' \<and> hold_room r' = hold_room r"
    by (auto simp: hold_room_def hold_wr_eq put_words_wf hold_wr_0 split: if_splits)
  {
    assume a: "a + length ws \<le> hold_room r" and w: "hold_wr r a ws = Some r'"
    show "hold_rd r' a (length ws) = Some ws"
    proof (cases "slave_regs_wf r")
      case True
      with a have al: "a + length ws \<le> 100" by (simp add: hold_room_def)
      with True w have "r' = r\<lparr> usSRegHoldBuf := put_words (usSRegHoldBuf r) a ws \<rparr>"
        by (simp add: hold_wr_eq)
      with True al show ?thesis
        by (simp add: hold_rd_eq put_words_wf) (simp add: put_words_def slave_regs_wf_def min_def)
    next
      case False
      with a show ?thesis by (simp add: hold_room_def hold_rd_0)
    qed
    assume b: "b + n \<le> hold_room r" and d: "b + n \<le> a \<or> a + length ws \<le> b"
    show "hold_rd r' b n = hold_rd r b n"
    proof (cases "slave_regs_wf r")
      case True
      with a b have al: "a + length ws \<le> 100" "b + n \<le> 100" by (simp_all add: hold_room_def)
      with True w have r': "r' = r\<lparr> usSRegHoldBuf := put_words (usSRegHoldBuf r) a ws \<rparr>"
        by (simp add: hold_wr_eq)
      have len: "length (usSRegHoldBuf r) = 100" using True by (simp add: slave_regs_wf_def)
      have "take n (drop b (put_words (usSRegHoldBuf r) a ws)) = take n (drop b (usSRegHoldBuf r))"
        by (rule nth_equalityI) (use d al len in \<open>auto simp: put_words_def nth_append\<close>)
      with True al show ?thesis by (simp add: r' hold_rd_eq put_words_wf)
    next
      case False
      with b show ?thesis by (simp add: hold_room_def hold_rd_0)
    qed
  }
  show "a + (n + m) \<le> hold_room r \<Longrightarrow> hold_rd r a (n + m) = do {
      ws \<leftarrow> hold_rd r a n; vs \<leftarrow> hold_rd r (a + n) m; Some (ws @ vs) }"
    by (auto simp: hold_room_def hold_rd_eq take_add add.assoc add.commute [of n a] hold_rd_0 split: if_splits)
qed

section \<open>Coils and discrete inputs\<close>

definition last_byte_touched :: "u16 \<Rightarrow> u16 \<Rightarrow> nat \<Rightarrow> bool" where
  "last_byte_touched a n bytes \<longleftrightarrow> bytes \<le> unat a div 8 + unat n div 8 + 1"

lemma eMBRegCoilsCB_read:
  assumes "slave_regs_wf r" "unat a + unat n \<le> 64" "\<not> last_byte_touched a n 8"
    "p + unat n div 8 + 1 \<le> length buf"
  shows "\<exists>buf'. eMBRegCoilsCB r buf p (a + 1) n MB_REG_READ = Some (r, buf', MB_ENOERR) \<and>
    length buf' = length buf \<and>
    (\<forall>k. nth_bit buf' k \<longleftrightarrow>
      (if 8 * p \<le> k \<and> k < 8 * (p + unat n div 8 + 1)
       then k - 8 * p < unat n \<and> nth_bit (ucSCoilBuf r) (unat a + (k - 8 * p)) else nth_bit buf k))"
  using assms bits_read_ok [of a n "ucSCoilBuf r" p buf]
  by (force simp: eMBRegCoilsCB_def slave_sizes Let_def slave_regs_wf_def last_byte_touched_def)

lemma eMBRegCoilsCB_read_oob:
  assumes "slave_regs_wf r" "unat a + unat n \<le> 64" "unat a < 64" "last_byte_touched a n 8"
  shows "eMBRegCoilsCB r buf p (a + 1) n MB_REG_READ = None"
proof -
  have "unat a div 8 < 8" using assms(3) by (simp add: less_mult_imp_div_less)
  then have "bits_out (ucSCoilBuf r) (a div 8) (a mod 8) buf p (unat (n div 8 + 1)) = None"
    using assms by (intro bits_out_None) (simp_all add: slave_regs_wf_def last_byte_touched_def
      u16_div8 u16_div8_Suc)
  then show ?thesis
    using assms by (simp add: eMBRegCoilsCB_def slave_sizes Let_def)
qed

lemma eMBRegCoilsCB_write:
  assumes "slave_regs_wf r" "unat a + unat n \<le> 64" "\<not> last_byte_touched a n 8"
    "p + unat n div 8 + 1 \<le> length buf"
  shows "\<exists>coils. eMBRegCoilsCB r buf p (a + 1) n MB_REG_WRITE =
      Some (r\<lparr> ucSCoilBuf := coils \<rparr>, buf, MB_ENOERR) \<and> length coils = 8 \<and>
    (\<forall>k. nth_bit coils k \<longleftrightarrow>
      (if unat a \<le> k \<and> k < unat a + unat n then nth_bit buf (8 * p + (k - unat a))
       else nth_bit (ucSCoilBuf r) k \<or>
         (unat n mod 8 \<noteq> 0 \<and> unat a + unat n \<le> k \<and> k < unat a + 8 * (unat n div 8) + 8 \<and>
          nth_bit buf (8 * p + (k - unat a)))))"
proof -
  have len: "length (ucSCoilBuf r) = 8" using assms(1) by (simp add: slave_regs_wf_def)
  have "unat a div 8 + unat n div 8 + (if unat n mod 8 = 0 then 0 else 1) < length (ucSCoilBuf r)"
    "p + unat n div 8 + (if unat n mod 8 = 0 then 0 else 1) \<le> length buf" "length (ucSCoilBuf r) < 65536"
    using assms(3,4) len by (simp_all add: last_byte_touched_def)
  from bits_write_ok [OF this] obtain coils where
    c: "bits_in (ucSCoilBuf r) (a div 8) (a mod 8) buf p (unat (n div 8 + 1) - 1) (n mod 8) = Some coils"
      "length coils = length (ucSCoilBuf r)" and
    b: "\<forall>k. nth_bit coils k \<longleftrightarrow>
      (if unat a \<le> k \<and> k < unat a + unat n then nth_bit buf (8 * p + (k - unat a))
       else nth_bit (ucSCoilBuf r) k \<or>
         (unat n mod 8 \<noteq> 0 \<and> unat a + unat n \<le> k \<and> k < unat a + 8 * (unat n div 8) + 8 \<and>
          nth_bit buf (8 * p + (k - unat a))))" by blast
  have "eMBRegCoilsCB r buf p (a + 1) n MB_REG_WRITE = Some (r\<lparr> ucSCoilBuf := coils \<rparr>, buf, MB_ENOERR)"
    using assms(2) c(1) by (simp add: eMBRegCoilsCB_def slave_sizes)
  then show ?thesis using c(2) len b by (intro exI [of _ coils] conjI) simp_all
qed

lemma eMBRegCoilsCB_noreg:
  "64 < unat a + unat n \<Longrightarrow> eMBRegCoilsCB r buf p (a + 1) n m = Some (r, buf, MB_ENOREG)"
  by (simp add: eMBRegCoilsCB_def slave_sizes Let_def)

lemma eMBRegDiscreteCB_eq:
  assumes "slave_regs_wf r" "unat a + unat n \<le> 16" "\<not> last_byte_touched a n 2"
    "p + unat n div 8 + 1 \<le> length buf"
  shows "\<exists>buf'. eMBRegDiscreteCB r buf p (a + 1) n = Some (buf', MB_ENOERR) \<and>
    length buf' = length buf \<and>
    (\<forall>k. nth_bit buf' k \<longleftrightarrow>
      (if 8 * p \<le> k \<and> k < 8 * (p + unat n div 8 + 1)
       then k - 8 * p < unat n \<and> nth_bit (ucSDiscInBuf r) (unat a + (k - 8 * p)) else nth_bit buf k))"
  using assms bits_read_ok [of a n "ucSDiscInBuf r" p buf]
  by (force simp: eMBRegDiscreteCB_def slave_sizes Let_def slave_regs_wf_def last_byte_touched_def)

lemma eMBRegDiscreteCB_oob:
  assumes "slave_regs_wf r" "unat a + unat n \<le> 16" "unat a < 16" "last_byte_touched a n 2"
  shows "eMBRegDiscreteCB r buf p (a + 1) n = None"
proof -
  have "unat a div 8 < 2" using assms(3) by (simp add: less_mult_imp_div_less)
  then have "bits_out (ucSDiscInBuf r) (a div 8) (a mod 8) buf p (unat (n div 8 + 1)) = None"
    using assms by (intro bits_out_None) (simp_all add: slave_regs_wf_def last_byte_touched_def
      u16_div8 u16_div8_Suc)
  then show ?thesis
    using assms by (simp add: eMBRegDiscreteCB_def slave_sizes Let_def)
qed

lemma eMBRegDiscreteCB_noreg:
  "16 < unat a + unat n \<Longrightarrow> eMBRegDiscreteCB r buf p (a + 1) n = Some (buf, MB_ENOREG)"
  by (simp add: eMBRegDiscreteCB_def slave_sizes Let_def)

section \<open>Properties\<close>

text \<open>
  The coil callback on requests that stay clear of the last coil byte. Reading fills the frame
  with exactly the requested coils and zeroes the rest of the last byte; writing sets exactly the
  requested coils from the frame, except that bits of the last frame byte beyond the request also
  set the coils behind them, because the last field is not masked.
\<close>

lemma coil_access:
  assumes "slave_regs_wf r" "unat a + unat n \<le> 64" "unat a div 8 + unat n div 8 < 7"
    "p + unat n div 8 + 1 \<le> length buf"
  shows "(\<exists>buf'. eMBRegCoilsCB r buf p (a + 1) n MB_REG_READ = Some (r, buf', MB_ENOERR) \<and>
      length buf' = length buf \<and>
      (\<forall>k. nth_bit buf' k \<longleftrightarrow>
        (if 8 * p \<le> k \<and> k < 8 * (p + unat n div 8 + 1)
         then k - 8 * p < unat n \<and> nth_bit (ucSCoilBuf r) (unat a + (k - 8 * p)) else nth_bit buf k))) \<and>
    (\<exists>coils. eMBRegCoilsCB r buf p (a + 1) n MB_REG_WRITE =
        Some (r\<lparr> ucSCoilBuf := coils \<rparr>, buf, MB_ENOERR) \<and> length coils = 8 \<and>
      (\<forall>k. nth_bit coils k \<longleftrightarrow>
        (if unat a \<le> k \<and> k < unat a + unat n then nth_bit buf (8 * p + (k - unat a))
         else nth_bit (ucSCoilBuf r) k \<or>
           (unat n mod 8 \<noteq> 0 \<and> unat a + unat n \<le> k \<and> k < unat a + 8 * (unat n div 8) + 8 \<and>
            nth_bit buf (8 * p + (k - unat a))))))"
proof -
  have "\<not> last_byte_touched a n 8" using assms(3) by (simp add: last_byte_touched_def)
  with eMBRegCoilsCB_read [OF assms(1,2) _ assms(4)] eMBRegCoilsCB_write [OF assms(1,2) _ assms(4)]
  show ?thesis by blast
qed

text \<open>One coil is written at address 5, but the data byte sets a second one.\<close>

lemma coil_access_witness:
  "\<exists>coils. eMBRegCoilsCB slave_regs_init [0x03] 0 6 1 MB_REG_WRITE =
      Some (slave_regs_init\<lparr> ucSCoilBuf := coils \<rparr>, [0x03], MB_ENOERR) \<and>
    nth_bit coils 5 \<and> nth_bit coils 6 \<and> \<not> nth_bit coils 7"
proof -
  have bits: "nth_bit [0x03] 0" "nth_bit [0x03] 1" "\<not> nth_bit [0x03] 2"
    "\<not> nth_bit (ucSCoilBuf slave_regs_init) 7"
    by (simp_all add: nth_bit_def slave_regs_init_def slave_sizes)
  have n: "unat (5 :: u16) = 5" "unat (1 :: u16) = 1" "(5 :: u16) + 1 = 6" by simp_all
  obtain coils where c: "eMBRegCoilsCB slave_regs_init [0x03] 0 6 1 MB_REG_WRITE =
      Some (slave_regs_init\<lparr> ucSCoilBuf := coils \<rparr>, [0x03], MB_ENOERR)" and
    k: "\<forall>k. nth_bit coils k \<longleftrightarrow>
        (if 5 \<le> k \<and> k < 6 then nth_bit [0x03] (k - 5)
         else nth_bit (ucSCoilBuf slave_regs_init) k \<or> (6 \<le> k \<and> k < 13 \<and> nth_bit [0x03] (k - 5)))"
    using coil_access [of slave_regs_init 5 1 0 "[0x03]"] unfolding n by auto
  from k have "nth_bit coils 5" "nth_bit coils 6" "\<not> nth_bit coils 7" using bits by simp_all
  with c show ?thesis by blast
qed

text \<open>
  Reading any in-range coils or discrete inputs of the last byte of their buffer reads one byte
  behind the buffer: the coils from 56 on and every block reaching them, and, the discrete inputs
  having two bytes, every block that leaves the first seven inputs of the first byte.
\<close>

lemma last_bits_read_past_buffer:
  assumes "slave_regs_wf r" "unat a + unat n \<le> 64" "unat a < 64" "7 \<le> unat a div 8 + unat n div 8"
    "unat b + unat m \<le> 16" "unat b < 16" "1 \<le> unat b div 8 + unat m div 8"
  shows "eMBRegCoilsCB r buf p (a + 1) n MB_REG_READ = None \<and> eMBRegDiscreteCB r buf p (b + 1) m = None"
  using eMBRegCoilsCB_read_oob [OF assms(1-3)] eMBRegDiscreteCB_oob [OF assms(1,5,6)] assms(4,7)
  by (simp add: last_byte_touched_def)

lemma last_bits_read_past_buffer_witness:
  "eMBRegCoilsCB slave_regs_init [0, 0] 0 57 1 MB_REG_READ = None \<and>
   eMBRegDiscreteCB slave_regs_init [0, 0] 0 1 8 = None"
  using last_bits_read_past_buffer [of slave_regs_init 56 1 0 8 "[0, 0]" 0] by simp

end
