(* ===== verification/Mb_Slave_Func.thy ===== *)
theory Mb_Slave_Func
  imports Mb_Slave_App
begin

text \<open>
  The function handlers of the Modbus slave, \<open>FreeModbus/modbus/functions/mbfuncholding.c\<close>,
  \<open>mbfunccoils.c\<close>, \<open>mbfuncdisc.c\<close> and \<open>mbfuncinput.c\<close>. A handler gets the PDU buffer (from the
  function code on, with the request's length) and turns it into the response in place: the result
  is the register buffers, the PDU buffer, its new length and the exception.
\<close>

type_synonym handler_result = "(slave_regs \<times> u8 list \<times> u16 \<times> eMBException) option"

text \<open>\<open>x = (USHORT)(pucFrame[i] << 8); x |= (USHORT)(pucFrame[i + 1]);\<close>\<close>

definition frame_u16 :: "u8 list \<Rightarrow> nat \<Rightarrow> u16 option" where
  "frame_u16 pucFrame i = do {
     h \<leftarrow> buf_get pucFrame i; l \<leftarrow> buf_get pucFrame (Suc i); Some (be16 h l) }"

text \<open>The bytes that hold a number of bits; the source repeats this test in four handlers.\<close>

definition bit_bytes :: "u16 \<Rightarrow> u8" where
  "bit_bytes n = (if n AND 0x0007 \<noteq> 0 then ucast (n div 8 + 1) else ucast (n div 8))"

section \<open>Holding registers\<close>

definition eMBFuncWriteHoldingRegister :: "slave_regs \<Rightarrow> u8 list \<Rightarrow> u16 \<Rightarrow> handler_result" where
  "eMBFuncWriteHoldingRegister r pucFrame usLen =
    (if usLen = 4 + 1 then do {
       a \<leftarrow> frame_u16 pucFrame 1;
       (r', pucFrame', eRegStatus) \<leftarrow> eMBRegHoldingCB r pucFrame 3 (a + 1) 1 MB_REG_WRITE;
       Some (r', pucFrame', usLen,
         if eRegStatus \<noteq> MB_ENOERR then prveMBError2Exception eRegStatus else MB_EX_NONE) }
     else Some (r, pucFrame, usLen, MB_EX_ILLEGAL_DATA_VALUE))"

definition eMBFuncWriteMultipleHoldingRegister :: "slave_regs \<Rightarrow> u8 list \<Rightarrow> u16 \<Rightarrow> handler_result" where
  "eMBFuncWriteMultipleHoldingRegister r pucFrame usLen =
    (if usLen \<ge> 5 + 1 then do {
       a \<leftarrow> frame_u16 pucFrame 1;
       usRegCount \<leftarrow> frame_u16 pucFrame 3;
       ucRegByteCount \<leftarrow> buf_get pucFrame 5;
       if usRegCount \<ge> 1 \<and> usRegCount \<le> 0x0078 \<and> ucRegByteCount = ucast (2 * usRegCount)
       then do {
         (r', pucFrame', eRegStatus) \<leftarrow> eMBRegHoldingCB r pucFrame 6 (a + 1) usRegCount MB_REG_WRITE;
         if eRegStatus \<noteq> MB_ENOERR
         then Some (r', pucFrame', usLen, prveMBError2Exception eRegStatus)
         else Some (r', pucFrame', 5, MB_EX_NONE) }
       else Some (r, pucFrame, usLen, MB_EX_ILLEGAL_DATA_VALUE) }
     else Some (r, pucFrame, usLen, MB_EX_ILLEGAL_DATA_VALUE))"

definition eMBFuncReadHoldingRegister :: "slave_regs \<Rightarrow> u8 list \<Rightarrow> u16 \<Rightarrow> handler_result" where
  "eMBFuncReadHoldingRegister r pucFrame usLen =
    (if usLen = 4 + 1 then do {
       a \<leftarrow> frame_u16 pucFrame 1;
       usRegCount \<leftarrow> frame_u16 pucFrame 3;
       if usRegCount \<ge> 1 \<and> usRegCount \<le> 0x007D
       then do {
         f1 \<leftarrow> buf_set pucFrame 0 3;
         f2 \<leftarrow> buf_set f1 1 (ucast (usRegCount * 2));
         (r', f3, eRegStatus) \<leftarrow> eMBRegHoldingCB r f2 2 (a + 1) usRegCount MB_REG_READ;
         if eRegStatus \<noteq> MB_ENOERR
         then Some (r', f3, 2, prveMBError2Exception eRegStatus)
         else Some (r', f3, 2 + usRegCount * 2, MB_EX_NONE) }
       else Some (r, pucFrame, usLen, MB_EX_ILLEGAL_DATA_VALUE) }
     else Some (r, pucFrame, usLen, MB_EX_ILLEGAL_DATA_VALUE))"

text \<open>A request too short for this handler is neither executed nor rejected.\<close>

definition eMBFuncReadWriteMultipleHoldingRegister :: "slave_regs \<Rightarrow> u8 list \<Rightarrow> u16 \<Rightarrow> handler_result" where
  "eMBFuncReadWriteMultipleHoldingRegister r pucFrame usLen =
    (if usLen \<ge> 9 + 1 then do {
       ra \<leftarrow> frame_u16 pucFrame 1;
       usRegReadCount \<leftarrow> frame_u16 pucFrame 3;
       wa \<leftarrow> frame_u16 pucFrame 5;
       usRegWriteCount \<leftarrow> frame_u16 pucFrame 7;
       ucRegWriteByteCount \<leftarrow> buf_get pucFrame 9;
       if usRegReadCount \<ge> 1 \<and> usRegReadCount \<le> 0x7D \<and> usRegWriteCount \<ge> 1 \<and>
          usRegWriteCount \<le> 0x79 \<and> 2 * unat usRegWriteCount = unat ucRegWriteByteCount
       then do {
         (r', f1, eRegStatus) \<leftarrow> eMBRegHoldingCB r pucFrame 10 (wa + 1) usRegWriteCount MB_REG_WRITE;
         if eRegStatus = MB_ENOERR
         then do {
           f2 \<leftarrow> buf_set f1 0 23;
           f3 \<leftarrow> buf_set f2 1 (ucast (usRegReadCount * 2));
           (r'', f4, eRegStatus') \<leftarrow> eMBRegHoldingCB r' f3 2 (ra + 1) usRegReadCount MB_REG_READ;
           if eRegStatus' = MB_ENOERR
           then Some (r'', f4, 2 + 2 * usRegReadCount, MB_EX_NONE)
           else Some (r'', f4, 2, prveMBError2Exception eRegStatus') }
         else Some (r', f1, usLen, prveMBError2Exception eRegStatus) }
       else Some (r, pucFrame, usLen, MB_EX_ILLEGAL_DATA_VALUE) }
     else Some (r, pucFrame, usLen, MB_EX_NONE))"

section \<open>Input registers\<close>

definition eMBFuncReadInputRegister :: "slave_regs \<Rightarrow> u8 list \<Rightarrow> u16 \<Rightarrow> handler_result" where
  "eMBFuncReadInputRegister r pucFrame usLen =
    (if usLen = 4 + 1 then do {
       a \<leftarrow> frame_u16 pucFrame 1;
       usRegCount \<leftarrow> frame_u16 pucFrame 3;
       if usRegCount \<ge> 1 \<and> usRegCount < 0x007D
       then do {
         f1 \<leftarrow> buf_set pucFrame 0 4;
         f2 \<leftarrow> buf_set f1 1 (ucast (usRegCount * 2));
         (f3, eRegStatus) \<leftarrow> eMBRegInputCB r f2 2 (a + 1) usRegCount;
         if eRegStatus \<noteq> MB_ENOERR
         then Some (r, f3, 2, prveMBError2Exception eRegStatus)
         else Some (r, f3, 2 + usRegCount * 2, MB_EX_NONE) }
       else Some (r, pucFrame, usLen, MB_EX_ILLEGAL_DATA_VALUE) }
     else Some (r, pucFrame, usLen, MB_EX_ILLEGAL_DATA_VALUE))"

section \<open>Coils and discrete inputs\<close>

definition eMBFuncReadCoils :: "slave_regs \<Rightarrow> u8 list \<Rightarrow> u16 \<Rightarrow> handler_result" where
  "eMBFuncReadCoils r pucFrame usLen =
    (if usLen = 4 + 1 then do {
       a \<leftarrow> frame_u16 pucFrame 1;
       usCoilCount \<leftarrow> frame_u16 pucFrame 3;
       if usCoilCount \<ge> 1 \<and> usCoilCount < 0x07D0
       then do {
         f1 \<leftarrow> buf_set pucFrame 0 1;
         let ucNBytes = bit_bytes usCoilCount;
         f2 \<leftarrow> buf_set f1 1 ucNBytes;
         (r', f3, eRegStatus) \<leftarrow> eMBRegCoilsCB r f2 2 (a + 1) usCoilCount MB_REG_READ;
         if eRegStatus \<noteq> MB_ENOERR
         then Some (r', f3, 2, prveMBError2Exception eRegStatus)
         else Some (r', f3, 2 + ucast ucNBytes, MB_EX_NONE) }
       else Some (r, pucFrame, usLen, MB_EX_ILLEGAL_DATA_VALUE) }
     else Some (r, pucFrame, usLen, MB_EX_ILLEGAL_DATA_VALUE))"

definition eMBFuncWriteCoil :: "slave_regs \<Rightarrow> u8 list \<Rightarrow> u16 \<Rightarrow> handler_result" where
  "eMBFuncWriteCoil r pucFrame usLen =
    (if usLen = 4 + 1 then do {
       a \<leftarrow> frame_u16 pucFrame 1;
       hi \<leftarrow> buf_get pucFrame 3;
       lo \<leftarrow> buf_get pucFrame 4;
       if lo = 0x00 \<and> (hi = 0xFF \<or> hi = 0x00)
       then do {
         let ucBuf = [if hi = 0xFF then 1 else 0, 0];
         (r', _, eRegStatus) \<leftarrow> eMBRegCoilsCB r ucBuf 0 (a + 1) 1 MB_REG_WRITE;
         Some (r', pucFrame, usLen,
           if eRegStatus \<noteq> MB_ENOERR then prveMBError2Exception eRegStatus else MB_EX_NONE) }
       else Some (r, pucFrame, usLen, MB_EX_ILLEGAL_DATA_VALUE) }
     else Some (r, pucFrame, usLen, MB_EX_ILLEGAL_DATA_VALUE))"

definition eMBFuncWriteMultipleCoils :: "slave_regs \<Rightarrow> u8 list \<Rightarrow> u16 \<Rightarrow> handler_result" where
  "eMBFuncWriteMultipleCoils r pucFrame usLen =
    (if usLen > 4 + 1 then do {
       a \<leftarrow> frame_u16 pucFrame 1;
       usCoilCnt \<leftarrow> frame_u16 pucFrame 3;
       ucByteCount \<leftarrow> buf_get pucFrame 5;
       let ucByteCountVerify = bit_bytes usCoilCnt;
       if usCoilCnt \<ge> 1 \<and> usCoilCnt \<le> 0x07B0 \<and> ucByteCountVerify = ucByteCount
       then do {
         (r', f, eRegStatus) \<leftarrow> eMBRegCoilsCB r pucFrame 6 (a + 1) usCoilCnt MB_REG_WRITE;
         if eRegStatus \<noteq> MB_ENOERR
         then Some (r', f, usLen, prveMBError2Exception eRegStatus)
         else Some (r', f, 5, MB_EX_NONE) }
       else Some (r, pucFrame, usLen, MB_EX_ILLEGAL_DATA_VALUE) }
     else Some (r, pucFrame, usLen, MB_EX_ILLEGAL_DATA_VALUE))"

definition eMBFuncReadDiscreteInputs :: "slave_regs \<Rightarrow> u8 list \<Rightarrow> u16 \<Rightarrow> handler_result" where
  "eMBFuncReadDiscreteInputs r pucFrame usLen =
    (if usLen = 4 + 1 then do {
       a \<leftarrow> frame_u16 pucFrame 1;
       usDiscreteCnt \<leftarrow> frame_u16 pucFrame 3;
       if usDiscreteCnt \<ge> 1 \<and> usDiscreteCnt < 0x07D0
       then do {
         f1 \<leftarrow> buf_set pucFrame 0 2;
         let ucNBytes = bit_bytes usDiscreteCnt;
         f2 \<leftarrow> buf_set f1 1 ucNBytes;
         (f3, eRegStatus) \<leftarrow> eMBRegDiscreteCB r f2 2 (a + 1) usDiscreteCnt;
         if eRegStatus \<noteq> MB_ENOERR
         then Some (r, f3, 2, prveMBError2Exception eRegStatus)
         else Some (r, f3, 2 + ucast ucNBytes, MB_EX_NONE) }
       else Some (r, pucFrame, usLen, MB_EX_ILLEGAL_DATA_VALUE) }
     else Some (r, pucFrame, usLen, MB_EX_ILLEGAL_DATA_VALUE))"

section \<open>What the handlers do\<close>

lemma frame_u16_eq: "i + 1 < length f \<Longrightarrow> frame_u16 f i = Some (be16 (f ! i) (f ! Suc i))"
  by (simp add: frame_u16_def)

abbreviation req_addr :: "u8 list \<Rightarrow> u16" where "req_addr f \<equiv> be16 (f ! 1) (f ! 2)"
abbreviation req_count :: "u8 list \<Rightarrow> u16" where "req_count f \<equiv> be16 (f ! 3) (f ! 4)"

lemma frame_u16_req [simp]:
  "5 \<le> length f \<Longrightarrow> frame_u16 f (Suc 0) = Some (req_addr f)"
  "5 \<le> length f \<Longrightarrow> frame_u16 f 3 = Some (req_count f)"
  by (simp_all add: frame_u16_def eval_nat_numeral)

lemma u16_count_bounds:
  "(1 \<le> n) = (n \<noteq> (0 :: u16))" "(n \<le> 0x7D) = (unat n \<le> 125)" "(n \<le> 0x78) = (unat n \<le> 120)"
  "(n < 0x7D) = (unat n < 125)" "(n \<le> 0x79) = (unat n \<le> 121)" "(n < 0x7D0) = (unat n < 2000)"
  "(n \<le> 0x7B0) = (unat n \<le> 1968)"
  by (simp_all add: word_le_nat_alt word_less_nat_alt Suc_le_eq unat_gt_0)

lemma exception_of_noreg [simp]: "prveMBError2Exception MB_ENOREG = MB_EX_ILLEGAL_DATA_ADDRESS"
  by (simp add: prveMBError2Exception_def)

text \<open>A read response: two header bytes, then the register block.\<close>

lemma reply_header: "2 \<le> length f \<Longrightarrow> take 2 (f[0 := x, Suc 0 := y]) = [x, y]"
  by (cases f; cases "tl f") auto

lemma read_holding_eq:
  assumes "slave_regs_wf r" "202 \<le> length f" "a = req_addr f" "n = req_count f"
  shows "eMBFuncReadHoldingRegister r f len =
     Some (if len \<noteq> 5 \<or> n = 0 \<or> 125 < unat n then (r, f, len, MB_EX_ILLEGAL_DATA_VALUE)
       else if 100 < unat a + unat n
       then (r, f[0 := 3, 1 := ucast (n * 2)], 2, MB_EX_ILLEGAL_DATA_ADDRESS)
       else (r, [3, ucast (n * 2)] @ be_bytes (take (unat n) (drop (unat a) (usSRegHoldBuf r))) @
              drop (2 + 2 * unat n) f, 2 + n * 2, MB_EX_NONE))"
proof -
  define g where "g = f[0 := 3, Suc 0 := ucast (n * 2)]"
  have ne: "f \<noteq> []" using assms(2) by auto
  have g: "length g = length f" "take 2 g = [3, ucast (n * 2)]" "drop (Suc (Suc m)) g = drop (Suc (Suc m)) f" for m
    using assms(2) by (simp_all add: g_def reply_header)
  have an: "be16 (f ! Suc 0) (f ! 2) = a" "be16 (f ! 3) (f ! 4) = n" using assms(3,4) by simp_all
  have "eMBRegHoldingCB r g 2 (a + 1) n MB_REG_READ =
    Some (r, if unat a + unat n \<le> 100
          then (take 2 g @ be_bytes (take (unat n) (drop (unat a) (usSRegHoldBuf r))) @ drop (2 + 2 * unat n) g,
            MB_ENOERR)
          else (g, MB_ENOREG))"
    by (rule eMBRegHoldingCB_read) (use assms(1,2) g(1) in simp_all)
  then show ?thesis
    using assms(2) ne unfolding eMBFuncReadHoldingRegister_def
    by (simp add: an u16_count_bounds g_def [symmetric] g not_le not_less)
qed

lemma read_input_eq:
  assumes "slave_regs_wf r" "202 \<le> length f" "a = req_addr f" "n = req_count f"
  shows "eMBFuncReadInputRegister r f len =
     Some (if len \<noteq> 5 \<or> n = 0 \<or> 125 \<le> unat n then (r, f, len, MB_EX_ILLEGAL_DATA_VALUE)
       else if 100 < unat a + unat n
       then (r, f[0 := 4, 1 := ucast (n * 2)], 2, MB_EX_ILLEGAL_DATA_ADDRESS)
       else (r, [4, ucast (n * 2)] @ be_bytes (take (unat n) (drop (unat a) (usSRegInBuf r))) @
              drop (2 + 2 * unat n) f, 2 + n * 2, MB_EX_NONE))"
proof -
  define g where "g = f[0 := 4, Suc 0 := ucast (n * 2)]"
  have ne: "f \<noteq> []" using assms(2) by auto
  have g: "length g = length f" "take 2 g = [4, ucast (n * 2)]" "drop (Suc (Suc m)) g = drop (Suc (Suc m)) f" for m
    using assms(2) by (simp_all add: g_def reply_header)
  have an: "be16 (f ! Suc 0) (f ! 2) = a" "be16 (f ! 3) (f ! 4) = n" using assms(3,4) by simp_all
  have "eMBRegInputCB r g 2 (a + 1) n =
    Some (if unat a + unat n \<le> 100
          then (take 2 g @ be_bytes (take (unat n) (drop (unat a) (usSRegInBuf r))) @ drop (2 + 2 * unat n) g,
            MB_ENOERR)
          else (g, MB_ENOREG))"
    by (rule eMBRegInputCB_eq) (use assms(1,2) g(1) in simp_all)
  then show ?thesis
    using assms(2) ne unfolding eMBFuncReadInputRegister_def
    by (simp add: an u16_count_bounds g_def [symmetric] g not_le not_less)
qed

lemma write_holding_eq:
  assumes "slave_regs_wf r" "5 \<le> length f" "a = req_addr f"
  shows "eMBFuncWriteHoldingRegister r f len =
     Some (if len \<noteq> 5 then (r, f, len, MB_EX_ILLEGAL_DATA_VALUE)
       else if 100 < unat a + 1 then (r, f, len, MB_EX_ILLEGAL_DATA_ADDRESS)
       else (r\<lparr> usSRegHoldBuf := put_words (usSRegHoldBuf r) (unat a) [be16 (f ! 3) (f ! 4)] \<rparr>, f, len,
             MB_EX_NONE))"
proof -
  have a: "be16 (f ! Suc 0) (f ! 2) = a" using assms(3) by simp
  have "eMBRegHoldingCB r f 3 (a + 1) 1 MB_REG_WRITE =
    Some (if unat a + unat (1 :: u16) \<le> 100
          then (r\<lparr> usSRegHoldBuf := put_words (usSRegHoldBuf r) (unat a)
                     (be_words (take (2 * unat (1 :: u16)) (drop 3 f))) \<rparr>, f, MB_ENOERR)
          else (r, f, MB_ENOREG))"
    by (rule eMBRegHoldingCB_write) (use assms(1,2) in simp_all)
  moreover have "take 2 (drop 3 f) = [f ! 3, f ! 4]"
    using assms(2) by (simp add: numeral_eq_Suc Cons_nth_drop_Suc [symmetric])
  ultimately show ?thesis
    using assms(2) unfolding eMBFuncWriteHoldingRegister_def by (simp add: a not_le not_less)
qed

lemma write_multiple_eq:
  assumes "slave_regs_wf r" "246 \<le> length f" "a = req_addr f" "n = req_count f"
  shows "eMBFuncWriteMultipleHoldingRegister r f len =
     Some (if len < 6 \<or> n = 0 \<or> 120 < unat n \<or> f ! 5 \<noteq> ucast (2 * n)
       then (r, f, len, MB_EX_ILLEGAL_DATA_VALUE)
       else if 100 < unat a + unat n then (r, f, len, MB_EX_ILLEGAL_DATA_ADDRESS)
       else (r\<lparr> usSRegHoldBuf := put_words (usSRegHoldBuf r) (unat a)
               (be_words (take (2 * unat n) (drop 6 f))) \<rparr>, f, 5, MB_EX_NONE))"
proof -
  have an: "be16 (f ! Suc 0) (f ! 2) = a" "be16 (f ! 3) (f ! 4) = n" using assms(3,4) by simp_all
  have "eMBRegHoldingCB r f 6 (a + 1) n MB_REG_WRITE =
    Some (if unat a + unat n \<le> 100
          then (r\<lparr> usSRegHoldBuf := put_words (usSRegHoldBuf r) (unat a)
                     (be_words (take (2 * unat n) (drop 6 f))) \<rparr>, f, MB_ENOERR)
          else (r, f, MB_ENOREG))"
    by (rule eMBRegHoldingCB_write) (use assms(1,2) in simp_all)
  then show ?thesis
    using assms(2) unfolding eMBFuncWriteMultipleHoldingRegister_def
    by (simp add: an u16_count_bounds not_le not_less)
qed

text \<open>The combined handler is a multiple write followed by a read of the written registers.\<close>

lemma readwrite_eq:
  assumes "slave_regs_wf r" "252 \<le> length f" "ra = req_addr f" "rn = req_count f"
    "wa = be16 (f ! 5) (f ! 6)" "wn = be16 (f ! 7) (f ! 8)"
    "h = put_words (usSRegHoldBuf r) (unat wa) (be_words (take (2 * unat wn) (drop 10 f)))"
  shows "eMBFuncReadWriteMultipleHoldingRegister r f len =
     Some (if len < 10 then (r, f, len, MB_EX_NONE)
       else if rn = 0 \<or> 125 < unat rn \<or> wn = 0 \<or> 121 < unat wn \<or> 2 * unat wn \<noteq> unat (f ! 9)
       then (r, f, len, MB_EX_ILLEGAL_DATA_VALUE)
       else if 100 < unat wa + unat wn then (r, f, len, MB_EX_ILLEGAL_DATA_ADDRESS)
       else if 100 < unat ra + unat rn
       then (r\<lparr> usSRegHoldBuf := h \<rparr>, f[0 := 23, 1 := ucast (rn * 2)], 2, MB_EX_ILLEGAL_DATA_ADDRESS)
       else (r\<lparr> usSRegHoldBuf := h \<rparr>, [23, ucast (rn * 2)] @ be_bytes (take (unat rn) (drop (unat ra) h)) @
              drop (2 + 2 * unat rn) f, 2 + 2 * rn, MB_EX_NONE))"
proof -
  define g where "g = f[0 := 23, Suc 0 := ucast (rn * 2)]"
  have ne: "f \<noteq> []" using assms(2) by auto
  have g: "length g = length f" "take 2 g = [23, ucast (rn * 2)]" "drop (Suc (Suc m)) g = drop (Suc (Suc m)) f" for m
    using assms(2) by (simp_all add: g_def reply_header)
  have an: "be16 (f ! Suc 0) (f ! 2) = ra" "be16 (f ! 3) (f ! 4) = rn" using assms(3,4) by simp_all
  have long: "(len < 10) = (\<not> b)" "(10 \<le> len) = b" if "b = (10 \<le> len)" for b
    using that by auto
  obtain b where b: "b = (10 \<le> len)" by blast
  note long = long [OF b]
  have fw: "frame_u16 f 5 = Some wa" "frame_u16 f 7 = Some wn"
    using assms(2,5,6) by (simp_all add: frame_u16_def)
  have w: "eMBRegHoldingCB r f 10 (wa + 1) wn MB_REG_WRITE =
    Some (if unat wa + unat wn \<le> 100 then (r\<lparr> usSRegHoldBuf := h \<rparr>, f, MB_ENOERR) else (r, f, MB_ENOREG))"
    unfolding assms(7) by (rule eMBRegHoldingCB_write) (use assms(1,2) in simp_all)
  have "eMBRegHoldingCB (r\<lparr> usSRegHoldBuf := h \<rparr>) g 2 (ra + 1) rn MB_REG_READ =
    Some (r\<lparr> usSRegHoldBuf := h \<rparr>, if unat ra + unat rn \<le> 100
          then (take 2 g @ be_bytes (take (unat rn) (drop (unat ra) (usSRegHoldBuf (r\<lparr> usSRegHoldBuf := h \<rparr>)))) @
                drop (2 + 2 * unat rn) g, MB_ENOERR)
          else (g, MB_ENOREG))" if "unat wa + unat wn \<le> 100"
  proof (rule eMBRegHoldingCB_read)
    have "length (be_words (take (2 * unat wn) (drop 10 f))) = unat wn" using assms(2) that by simp
    with that assms(1) show "slave_regs_wf (r\<lparr> usSRegHoldBuf := h \<rparr>)"
      unfolding assms(7) by (intro put_words_wf) simp_all
  qed (use assms(2) g(1) in simp)
  with w show ?thesis
    using assms(2) ne unfolding eMBFuncReadWriteMultipleHoldingRegister_def
    by (cases "unat wa + unat wn \<le> 100")
       (simp_all add: long an fw u16_count_bounds g_def [symmetric] g not_le not_less)
qed

section \<open>Function pointers\<close>

text \<open>The handlers as the values of \<open>pxMBFunctionHandler\<close>, and the call through one.\<close>

datatype mb_handler = ReadInputRegister | ReadHoldingRegister | WriteMultipleHoldingRegister
  | WriteHoldingRegister | ReadWriteMultipleHoldingRegister | ReadCoils | WriteCoil
  | WriteMultipleCoils | ReadDiscreteInputs

fun call_handler :: "mb_handler \<Rightarrow> slave_regs \<Rightarrow> u8 list \<Rightarrow> u16 \<Rightarrow> handler_result" where
  "call_handler ReadInputRegister = eMBFuncReadInputRegister"
| "call_handler ReadHoldingRegister = eMBFuncReadHoldingRegister"
| "call_handler WriteMultipleHoldingRegister = eMBFuncWriteMultipleHoldingRegister"
| "call_handler WriteHoldingRegister = eMBFuncWriteHoldingRegister"
| "call_handler ReadWriteMultipleHoldingRegister = eMBFuncReadWriteMultipleHoldingRegister"
| "call_handler ReadCoils = eMBFuncReadCoils"
| "call_handler WriteCoil = eMBFuncWriteCoil"
| "call_handler WriteMultipleCoils = eMBFuncWriteMultipleCoils"
| "call_handler ReadDiscreteInputs = eMBFuncReadDiscreteInputs"

text \<open>
  Requests that stay clear of the last byte of the coil and discrete input buffers; word requests
  all do.
\<close>

fun request_clear :: "mb_handler \<Rightarrow> u8 list \<Rightarrow> bool" where
  "request_clear ReadCoils f \<longleftrightarrow>
     unat (req_addr f) + unat (req_count f) \<le> 64 \<longrightarrow> \<not> last_byte_touched (req_addr f) (req_count f) 8"
| "request_clear WriteMultipleCoils f \<longleftrightarrow>
     unat (req_addr f) + unat (req_count f) \<le> 64 \<longrightarrow> \<not> last_byte_touched (req_addr f) (req_count f) 8"
| "request_clear WriteCoil f \<longleftrightarrow>
     unat (req_addr f) + 1 \<le> 64 \<longrightarrow> \<not> last_byte_touched (req_addr f) 1 8"
| "request_clear ReadDiscreteInputs f \<longleftrightarrow>
     unat (req_addr f) + unat (req_count f) \<le> 16 \<longrightarrow> \<not> last_byte_touched (req_addr f) (req_count f) 2"
| "request_clear _ f \<longleftrightarrow> True"

definition handler_ok :: "u8 list \<Rightarrow> u16 \<Rightarrow> handler_result \<Rightarrow> bool" where
  "handler_ok f len res \<longleftrightarrow> (\<exists>r' f' len' e. res = Some (r', f', len', e) \<and> slave_regs_wf r' \<and>
     length f' = length f \<and> unat len' \<le> max (unat len) 252)"

lemma handler_okI [intro]:
  "res = Some (r', f', len', e) \<Longrightarrow> slave_regs_wf r' \<Longrightarrow> length f' = length f \<Longrightarrow>
    unat len' \<le> max (unat len) 252 \<Longrightarrow> handler_ok f len res"
  by (auto simp: handler_ok_def)

lemma wf_coils [simp]:
  "slave_regs_wf r \<Longrightarrow> length c = 8 \<Longrightarrow> slave_regs_wf (r\<lparr> ucSCoilBuf := c \<rparr>)"
  by (simp add: slave_regs_wf_def)

lemma unat_double: "unat (n :: u16) \<le> 125 \<Longrightarrow> unat (2 + n * 2) = 2 + 2 * unat n"
  "unat (n :: u16) \<le> 125 \<Longrightarrow> unat (2 + 2 * n) = 2 + 2 * unat n"
  by (simp_all add: unat_word_ariths mult.commute)

lemma bit_bytes_len: "unat (n :: u16) < 2000 \<Longrightarrow> unat (2 + ucast (bit_bytes n) :: u16) \<le> 252"
proof -
  assume n: "unat n < 2000"
  have "unat n div 8 < 250" using n by (simp add: less_mult_imp_div_less)
  then have "unat (bit_bytes n) \<le> 250"
    by (auto simp: bit_bytes_def unsigned_ucast_eq take_bit_eq_mod u16_div8 u16_div8_Suc)
  then show ?thesis by (simp add: unat_word_ariths unsigned_ucast_eq take_bit_eq_mod)
qed

lemma handler_words_ok:
  assumes "slave_regs_wf r" "252 \<le> length f"
  shows "handler_ok f len (eMBFuncReadHoldingRegister r f len)"
    "handler_ok f len (eMBFuncReadInputRegister r f len)"
    "handler_ok f len (eMBFuncWriteHoldingRegister r f len)"
    "handler_ok f len (eMBFuncWriteMultipleHoldingRegister r f len)"
    "handler_ok f len (eMBFuncReadWriteMultipleHoldingRegister r f len)"
proof -
  define a n where an: "a = req_addr f" "n = req_count f"
  have regs: "length (usSRegHoldBuf r) = 100" "length (usSRegInBuf r) = 100"
    using assms(1) by (simp_all add: slave_regs_wf_def)
  show "handler_ok f len (eMBFuncReadHoldingRegister r f len)"
    using assms read_holding_eq [OF assms(1) _ an, of len] regs
    by (auto simp: handler_ok_def unat_double)
  show "handler_ok f len (eMBFuncReadInputRegister r f len)"
    using assms read_input_eq [OF assms(1) _ an, of len] regs
    by (auto simp: handler_ok_def unat_double)
  show "handler_ok f len (eMBFuncWriteHoldingRegister r f len)"
    using assms write_holding_eq [OF assms(1) _ an(1), of len]
    by (auto simp: handler_ok_def intro!: put_words_wf)
  show "handler_ok f len (eMBFuncWriteMultipleHoldingRegister r f len)"
    using assms write_multiple_eq [OF assms(1) _ an, of len]
    by (auto simp: handler_ok_def intro!: put_words_wf)
  show "handler_ok f len (eMBFuncReadWriteMultipleHoldingRegister r f len)"
    using assms readwrite_eq [OF assms(1,2) an refl refl refl, of len] regs
    by (auto simp: handler_ok_def unat_double length_put_words intro!: put_words_wf)
qed

text \<open>The bit requests, when they are clear of the last byte.\<close>

lemma handler_bits_ok:
  assumes "slave_regs_wf r" "252 \<le> length f"
  shows "request_clear ReadCoils f \<Longrightarrow> handler_ok f len (eMBFuncReadCoils r f len)"
    "request_clear WriteCoil f \<Longrightarrow> handler_ok f len (eMBFuncWriteCoil r f len)"
    "request_clear WriteMultipleCoils f \<Longrightarrow> handler_ok f len (eMBFuncWriteMultipleCoils r f len)"
    "request_clear ReadDiscreteInputs f \<Longrightarrow> handler_ok f len (eMBFuncReadDiscreteInputs r f len)"
proof -
  obtain a n where an: "be16 (f ! Suc 0) (f ! 2) = a" "be16 (f ! 3) (f ! 4) = n" by blast
  have ne: "f \<noteq> []" using assms(2) by auto
  have fit: "p + unat n div 8 + 1 \<le> length f" if "unat n \<le> 64" "p \<le> 6" for p
    using that assms(2) div_le_mono [OF that(1), of 8] by simp
  show "handler_ok f len (eMBFuncReadCoils r f len)" if clr: "request_clear ReadCoils f"
  proof (cases "unat a + unat n \<le> 64")
    case True
    define g where "g = f[0 := 1, Suc 0 := bit_bytes n]"
    have "length g = length f" by (simp add: g_def)
    then obtain f' where "eMBRegCoilsCB r g 2 (a + 1) n MB_REG_READ = Some (r, f', MB_ENOERR)" "length f' = length f"
      using eMBRegCoilsCB_read [OF assms(1) True, of 2 g] clr True fit [of 2] by (auto simp: an)
    with assms ne show ?thesis unfolding eMBFuncReadCoils_def handler_ok_def
      by (simp add: an u16_count_bounds g_def [symmetric] bit_bytes_len)
  next
    case False
    with assms ne show ?thesis unfolding eMBFuncReadCoils_def handler_ok_def
      by (simp add: an eMBRegCoilsCB_noreg)
  qed
  show "handler_ok f len (eMBFuncReadDiscreteInputs r f len)" if clr: "request_clear ReadDiscreteInputs f"
  proof (cases "unat a + unat n \<le> 16")
    case True
    define g where "g = f[0 := 2, Suc 0 := bit_bytes n]"
    have "length g = length f" by (simp add: g_def)
    then obtain f' where "eMBRegDiscreteCB r g 2 (a + 1) n = Some (f', MB_ENOERR)" "length f' = length f"
      using eMBRegDiscreteCB_eq [OF assms(1) True, of 2 g] clr True fit [of 2] by (auto simp: an)
    with assms ne show ?thesis unfolding eMBFuncReadDiscreteInputs_def handler_ok_def
      by (simp add: an u16_count_bounds g_def [symmetric] bit_bytes_len)
  next
    case False
    with assms ne show ?thesis unfolding eMBFuncReadDiscreteInputs_def handler_ok_def
      by (simp add: an eMBRegDiscreteCB_noreg)
  qed
  show "handler_ok f len (eMBFuncWriteMultipleCoils r f len)" if clr: "request_clear WriteMultipleCoils f"
  proof (cases "unat a + unat n \<le> 64")
    case True
    then obtain c where "eMBRegCoilsCB r f 6 (a + 1) n MB_REG_WRITE = Some (r\<lparr> ucSCoilBuf := c \<rparr>, f, MB_ENOERR)"
      "length c = 8"
      using eMBRegCoilsCB_write [OF assms(1) True, of 6 f] clr True fit [of 6] by (auto simp: an)
    with assms show ?thesis unfolding eMBFuncWriteMultipleCoils_def handler_ok_def
      by (simp add: an le_max_iff_disj)
  next
    case False
    with assms show ?thesis unfolding eMBFuncWriteMultipleCoils_def handler_ok_def
      by (simp add: an eMBRegCoilsCB_noreg)
  qed
  show "handler_ok f len (eMBFuncWriteCoil r f len)" if clr: "request_clear WriteCoil f"
  proof (cases "unat a + unat (1 :: u16) \<le> 64")
    case True
    have "\<exists>c. eMBRegCoilsCB r [x, 0] 0 (a + 1) 1 MB_REG_WRITE = Some (r\<lparr> ucSCoilBuf := c \<rparr>, [x, 0], MB_ENOERR) \<and>
        length c = 8" for x
      using eMBRegCoilsCB_write [OF assms(1) True, of 0 "[x, 0]"] clr True by (auto simp: an)
    then obtain c where "\<And>x. eMBRegCoilsCB r [x, 0] 0 (a + 1) 1 MB_REG_WRITE =
        Some (r\<lparr> ucSCoilBuf := c x \<rparr>, [x, 0], MB_ENOERR) \<and> length (c x) = 8" by metis
    with assms show ?thesis unfolding eMBFuncWriteCoil_def handler_ok_def by (simp add: an)
  next
    case False
    then have "eMBRegCoilsCB r buf 0 (a + 1) 1 MB_REG_WRITE = Some (r, buf, MB_ENOREG)" for buf
      by (intro eMBRegCoilsCB_noreg) simp
    with assms show ?thesis unfolding eMBFuncWriteCoil_def handler_ok_def by (simp add: an)
  qed
qed

lemma call_handler_ok:
  assumes "slave_regs_wf r" "252 \<le> length f" "request_clear h f"
  shows "handler_ok f len (call_handler h r f len)"
  using assms(3) handler_words_ok [OF assms(1,2), of len] handler_bits_ok [OF assms(1,2), of len]
  by (cases h) (simp_all only: call_handler.simps)

section \<open>Properties\<close>

text \<open>
  The answer to a read of holding registers, on every branch: a wrong length or a count outside
  1 to 125 is an illegal value, a block that leaves the 100 registers an illegal address (without
  wrap-around at the largest address), and otherwise the response is the function code, the byte
  count and the registers big-endian, 2 + 2n bytes; the registers do not change.
\<close>

lemma read_holding_reply:
  assumes "slave_regs_wf r" "202 \<le> length f"
    and a_def: "a = be16 (f ! 1) (f ! 2)" and n_def: "n = be16 (f ! 3) (f ! 4)"
  shows "eMBFuncReadHoldingRegister r f len =
     Some (if len \<noteq> 5 \<or> n = 0 \<or> 125 < unat n then (r, f, len, MB_EX_ILLEGAL_DATA_VALUE)
       else if 100 < unat a + unat n
       then (r, f[0 := 3, 1 := ucast (n * 2)], 2, MB_EX_ILLEGAL_DATA_ADDRESS)
       else (r, [3, ucast (n * 2)] @ be_bytes (take (unat n) (drop (unat a) (usSRegHoldBuf r))) @
              drop (2 + 2 * unat n) f, 2 + n * 2, MB_EX_NONE))"
  by (rule read_holding_eq [OF assms])

lemma read_holding_reply_witness:
  "eMBFuncReadHoldingRegister slave_regs_init ([3, 0, 98, 0, 2] @ replicate 250 0) 5 =
     Some (slave_regs_init, [3, 4, 0, 0, 0, 0] @ replicate 249 0, 6, MB_EX_NONE)"
proof -
  have f: "(([3, 0, 98, 0, 2] @ replicate 250 0) :: u8 list) ! 1 = 0"
    "(([3, 0, 98, 0, 2] @ replicate 250 0) :: u8 list) ! 2 = 98"
    "(([3, 0, 98, 0, 2] @ replicate 250 0) :: u8 list) ! 3 = 0"
    "(([3, 0, 98, 0, 2] @ replicate 250 0) :: u8 list) ! 4 = 2" by simp_all
  have u: "unat (be16 0 98) = 98" "unat (be16 0 2) = 2" by (simp_all add: unat_be16)
  have n: "be16 0 2 = 2" by (simp add: be16_def)
  have b: "be_bytes (take 2 (drop 98 (usSRegHoldBuf slave_regs_init))) = [0, 0, 0, 0]"
  proof -
    have "take 2 (drop 98 (usSRegHoldBuf slave_regs_init)) = [0, 0]"
      by (simp add: slave_regs_init_def slave_sizes numeral_2_eq_2)
    then show ?thesis by (simp add: hi8_def lo8_def)
  qed
  show ?thesis
    using read_holding_reply [of slave_regs_init "[3, 0, 98, 0, 2] @ replicate 250 0", OF _ _ refl refl, of 5]
    unfolding f by (simp add: u b n)
qed

text \<open>
  C11: Registers written by a multiple write are what a later read of the same block returns: the
  response to the read carries the data bytes of the write request unchanged.
\<close>

theorem write_then_read_registers:
  assumes "slave_regs_wf r" "246 \<le> length f" "202 \<le> length g"
    and a_def: "a = be16 (f ! 1) (f ! 2)" and n_def: "n = be16 (f ! 3) (f ! 4)"
    and "be16 (g ! 1) (g ! 2) = a" "be16 (g ! 3) (g ! 4) = n"
    and "6 \<le> len" "n \<noteq> 0" "f ! 5 = ucast (2 * n)" "unat a + unat n \<le> 100"
  shows "\<exists>r' g'. eMBFuncWriteMultipleHoldingRegister r f len = Some (r', f, 5, MB_EX_NONE) \<and>
    eMBFuncReadHoldingRegister r' g 5 = Some (r', g', 2 + n * 2, MB_EX_NONE) \<and>
    take (2 * unat n) (drop 2 g') = take (2 * unat n) (drop 6 f)"
proof -
  define ws where "ws = be_words (take (2 * unat n) (drop 6 f))"
  have len: "length ws = unat n" using assms(2,11) by (simp add: ws_def)
  have ev: "even (length (take (2 * unat n) (drop 6 f)))" using assms(2,11) by simp
  obtain r' where r': "hold_wr r (unat a) ws = Some r'" "hold_room r' = hold_room r"
    using hold.wr_ok [of "unat a" ws r] assms(1,11) len by (auto simp: hold_room_def)
  have "hold_rd r' (unat a) (unat n) = Some ws"
    using hold.rd_wr [OF _ r'(1)] assms(1,11) len by (simp add: hold_room_def)
  moreover have wf: "slave_regs_wf r'" using r'(2) assms(1) by (simp add: hold_room_def split: if_splits)
  ultimately have rd: "take (unat n) (drop (unat a) (usSRegHoldBuf r')) = ws"
    using assms(11) by (simp add: hold_rd_eq)
  have "r' = r\<lparr> usSRegHoldBuf := put_words (usSRegHoldBuf r) (unat a) ws \<rparr>"
    using r'(1) hold_wr_eq [OF assms(1), of "unat a" ws] assms(11) len by simp
  then have w: "eMBFuncWriteMultipleHoldingRegister r f len = Some (r', f, 5, MB_EX_NONE)"
    using write_multiple_eq [OF assms(1,2) a_def n_def, of len] assms(8-11)
    by (simp add: ws_def not_less)
  have "eMBFuncReadHoldingRegister r' g 5 =
      Some (r', [3, ucast (n * 2)] @ be_bytes ws @ drop (2 + 2 * unat n) g, 2 + n * 2, MB_EX_NONE)"
    using read_holding_eq [OF wf assms(3) assms(6,7) [symmetric], of 5] assms(9,11) by (simp add: rd)
  with w show ?thesis
    by (intro exI conjI) (assumption, assumption, use assms(2,11) in \<open>simp add: ws_def be_bytes_be_words [OF ev]\<close>)
qed

theorem write_then_read_registers_witness:
  "\<exists>r' g'. eMBFuncWriteMultipleHoldingRegister slave_regs_init ([16, 0, 7, 0, 1, 2, 0xAB, 0xCD] @ replicate 247 0) 8 =
      Some (r', [16, 0, 7, 0, 1, 2, 0xAB, 0xCD] @ replicate 247 0, 5, MB_EX_NONE) \<and>
    eMBFuncReadHoldingRegister r' ([3, 0, 7, 0, 1] @ replicate 250 0) 5 =
      Some (r', g', 4, MB_EX_NONE) \<and> take 2 (drop 2 g') = [0xAB, 0xCD]"
proof -
  have u: "unat (be16 0 7) = 7" "unat (be16 0 1) = 1" by (simp_all add: unat_be16)
  have n: "be16 0 1 = 1" by (simp add: be16_def)
  show ?thesis
    using write_then_read_registers [of slave_regs_init "[16, 0, 7, 0, 1, 2, 0xAB, 0xCD] @ replicate 247 0"
        "[3, 0, 7, 0, 1] @ replicate 250 0", OF _ _ _ refl refl, of 8]
    by (simp add: u n)
qed

end
