(* ===== verification/Mb_Slave_Rtu.thy ===== *)
theory Mb_Slave_Rtu
  imports Mb_Line Mb_Slave_Func
begin

text \<open>
  The RTU layer of the Modbus slave, \<open>modbus/rtu/mbrtu.c\<close>, with its port, \<open>port/rtt/portevent.c\<close>,
  \<open>portserial.c\<close> and \<open>porttimer.c\<close>: receive and transmit state machines, the 3.5-character timer, and
  the frame buffer they share with the protocol layer. The state is one record for the whole slave,
  the statics of \<open>mb.c\<close> and the register buffers included.
\<close>

section \<open>State\<close>

datatype eMBRcvState = STATE_RX_INIT | STATE_RX_IDLE | STATE_RX_RCV | STATE_RX_ERROR

datatype eMBSndState = STATE_TX_IDLE | STATE_TX_XMIT

text \<open>
  Of the port: \<open>serial_rx\<close> and \<open>serial_tx\<close> are the enabled directions, \<open>serial_out\<close> the bytes put on
  the line so far, \<open>timer_on\<close> whether the one-shot timer runs. \<open>pucSndBufferCur\<close> and \<open>ucMBFrame\<close> are
  offsets into \<open>ucRTUBuf\<close>; \<open>ucMBFrame\<close> is a null pointer until the first frame.
\<close>

record mb_slave =
  eSndState :: eMBSndState
  eRcvState :: eMBRcvState
  ucRTUBuf :: "u8 list"
  pucSndBufferCur :: nat
  usSndBufferCount :: u16
  usRcvBufferPos :: u16
  serial_rx :: bool
  serial_tx :: bool
  serial_out :: "u8 list"
  timer_on :: bool
  timer_ticks :: nat
  xSlaveOsEvent :: u32
  ucMBAddress :: u8
  eMBState :: mb_state
  ucMBFrame :: "nat option"
  ucRcvAddress :: u8
  usLength :: u16
  xFuncHandlers :: "(u8 \<times> mb_handler option) list"
  regs :: slave_regs

definition MB_SER_PDU_SIZE_MIN :: u16 where "MB_SER_PDU_SIZE_MIN = 4"
definition MB_SER_PDU_SIZE_MAX :: u16 where "MB_SER_PDU_SIZE_MAX = 256"

definition EV_READY :: u32 where "EV_READY = 1"
definition EV_FRAME_RECEIVED :: u32 where "EV_FRAME_RECEIVED = 2"
definition EV_EXECUTE :: u32 where "EV_EXECUTE = 4"
definition EV_FRAME_SENT :: u32 where "EV_FRAME_SENT = 8"

lemmas slave_events = EV_READY_def EV_FRAME_RECEIVED_def EV_EXECUTE_def EV_FRAME_SENT_def

section \<open>Port\<close>

definition xMBPortEventPost :: "u32 \<Rightarrow> mb_slave \<Rightarrow> mb_slave" where
  "xMBPortEventPost eEvent s = s\<lparr> xSlaveOsEvent := event_flags_send (xSlaveOsEvent s) eEvent \<rparr>"

definition vMBPortSerialEnable :: "bool \<Rightarrow> bool \<Rightarrow> mb_slave \<Rightarrow> mb_slave" where
  "vMBPortSerialEnable xRxEnable xTxEnable s = s\<lparr> serial_rx := xRxEnable, serial_tx := xTxEnable \<rparr>"

definition xMBPortSerialPutByte :: "u8 \<Rightarrow> mb_slave \<Rightarrow> mb_slave" where
  "xMBPortSerialPutByte b s = s\<lparr> serial_out := serial_out s @ [b] \<rparr>"

definition xMBPortTimersInit :: "u16 \<Rightarrow> mb_slave \<Rightarrow> mb_slave" where
  "xMBPortTimersInit usTim1Timerout50us s = s\<lparr> timer_ticks := t35_ticks usTim1Timerout50us \<rparr>"

definition vMBPortTimersEnable :: "mb_slave \<Rightarrow> mb_slave" where
  "vMBPortTimersEnable s = s\<lparr> timer_on := True \<rparr>"

definition vMBPortTimersDisable :: "mb_slave \<Rightarrow> mb_slave" where
  "vMBPortTimersDisable s = s\<lparr> timer_on := False \<rparr>"

lemmas slave_port = xMBPortEventPost_def vMBPortSerialEnable_def xMBPortSerialPutByte_def
  vMBPortTimersEnable_def vMBPortTimersDisable_def event_flags_send_def

section \<open>Operations\<close>

text \<open>The outcome of \<open>xMBPortSerialInit\<close>, which opens the device, is the argument \<open>serial_ok\<close>.\<close>

definition eMBRTUInit :: "bool \<Rightarrow> u32 \<Rightarrow> mb_slave \<Rightarrow> (mb_slave \<times> eMBErrorCode) option" where
  "eMBRTUInit serial_ok ulBaudRate s =
    (if \<not> serial_ok then Some (s, MB_EPORTERR)
     else do {
       usTimerT35_50us \<leftarrow> t35_50us ulBaudRate;
       Some (xMBPortTimersInit usTimerT35_50us s, MB_ENOERR) })"

definition eMBRTUStart :: "mb_slave \<Rightarrow> mb_slave" where
  "eMBRTUStart s = vMBPortTimersEnable (vMBPortSerialEnable True False (s\<lparr> eRcvState := STATE_RX_INIT \<rparr>))"

definition eMBRTUStop :: "mb_slave \<Rightarrow> mb_slave" where
  "eMBRTUStop s = vMBPortTimersDisable (vMBPortSerialEnable False False s)"

text \<open>The error code, or the address, the offset of the PDU and its length.\<close>

definition eMBRTUReceive :: "mb_slave \<Rightarrow> (eMBErrorCode + u8 \<times> nat \<times> u16) option" where
  "eMBRTUReceive s = do {
     _ \<leftarrow> assert_param (usRcvBufferPos s < MB_SER_PDU_SIZE_MAX);
     if usRcvBufferPos s \<ge> MB_SER_PDU_SIZE_MIN
     then do {
       crc \<leftarrow> usMBCRC16 (ucRTUBuf s) (usRcvBufferPos s);
       if crc = 0
       then do {
         addr \<leftarrow> buf_get (ucRTUBuf s) 0;
         Some (Inr (addr, 1, usRcvBufferPos s - 1 - 2)) }
       else Some (Inl MB_EIO) }
     else Some (Inl MB_EIO) }"

definition eMBRTUSend :: "u8 \<Rightarrow> nat \<Rightarrow> u16 \<Rightarrow> mb_slave \<Rightarrow> (mb_slave \<times> eMBErrorCode) option" where
  "eMBRTUSend ucSlaveAddress pucFrame len s =
    (if eRcvState s = STATE_RX_IDLE then do {
       let cur = pucFrame - 1;
       buf \<leftarrow> buf_set (ucRTUBuf s) cur ucSlaveAddress;
       let count = 1 + len;
       usCRC16 \<leftarrow> usMBCRC16 (drop cur buf) count;
       buf1 \<leftarrow> buf_set buf (unat count) (ucast (usCRC16 AND 0xFF));
       buf2 \<leftarrow> buf_set buf1 (unat (count + 1)) (ucast (drop_bit 8 usCRC16));
       Some (vMBPortSerialEnable False True
         (s\<lparr> ucRTUBuf := buf2, pucSndBufferCur := cur, usSndBufferCount := count + 2,
            eSndState := STATE_TX_XMIT \<rparr>), MB_ENOERR) }
     else Some (s, MB_EIO))"

definition xMBRTUReceiveFSM :: "mb_slave \<Rightarrow> u8 \<Rightarrow> mb_slave option" where
  "xMBRTUReceiveFSM s ucByte = do {
     _ \<leftarrow> assert_param (eSndState s = STATE_TX_IDLE);
     case eRcvState s of
       STATE_RX_INIT \<Rightarrow> Some (vMBPortTimersEnable s)
     | STATE_RX_ERROR \<Rightarrow> Some (vMBPortTimersEnable s)
     | STATE_RX_IDLE \<Rightarrow> do {
         buf \<leftarrow> buf_set (ucRTUBuf s) 0 ucByte;
         Some (vMBPortTimersEnable (s\<lparr> ucRTUBuf := buf, usRcvBufferPos := 1, eRcvState := STATE_RX_RCV \<rparr>)) }
     | STATE_RX_RCV \<Rightarrow>
         (if usRcvBufferPos s < MB_SER_PDU_SIZE_MAX
          then do {
            buf \<leftarrow> buf_set (ucRTUBuf s) (unat (usRcvBufferPos s)) ucByte;
            Some (vMBPortTimersEnable (s\<lparr> ucRTUBuf := buf, usRcvBufferPos := usRcvBufferPos s + 1 \<rparr>)) }
          else Some (vMBPortTimersEnable (s\<lparr> eRcvState := STATE_RX_ERROR \<rparr>))) }"

definition xMBRTUTransmitFSM :: "mb_slave \<Rightarrow> mb_slave option" where
  "xMBRTUTransmitFSM s = do {
     _ \<leftarrow> assert_param (eRcvState s = STATE_RX_IDLE);
     case eSndState s of
       STATE_TX_IDLE \<Rightarrow> Some (vMBPortSerialEnable True False s)
     | STATE_TX_XMIT \<Rightarrow>
         (if usSndBufferCount s \<noteq> 0
          then do {
            b \<leftarrow> buf_get (ucRTUBuf s) (pucSndBufferCur s);
            Some ((xMBPortSerialPutByte b s)\<lparr> pucSndBufferCur := pucSndBufferCur s + 1,
              usSndBufferCount := usSndBufferCount s - 1 \<rparr>) }
          else Some ((vMBPortSerialEnable True False (xMBPortEventPost EV_FRAME_SENT s))
            \<lparr> eSndState := STATE_TX_IDLE \<rparr>)) }"

definition xMBRTUTimerT35Expired :: "mb_slave \<Rightarrow> mb_slave option" where
  "xMBRTUTimerT35Expired s = do {
     s1 \<leftarrow> (case eRcvState s of
        STATE_RX_INIT \<Rightarrow> Some (xMBPortEventPost EV_READY s)
      | STATE_RX_RCV \<Rightarrow> Some (xMBPortEventPost EV_FRAME_RECEIVED s)
      | STATE_RX_ERROR \<Rightarrow> Some s
      | _ \<Rightarrow> do {
          _ \<leftarrow> assert_param (eRcvState s = STATE_RX_INIT \<or> eRcvState s = STATE_RX_RCV \<or>
                 eRcvState s = STATE_RX_ERROR);
          Some s });
     Some ((vMBPortTimersDisable s1)\<lparr> eRcvState := STATE_RX_IDLE \<rparr>) }"

section \<open>Whole frames\<close>

definition rx_ready :: "mb_slave \<Rightarrow> bool" where
  "rx_ready s \<longleftrightarrow> eRcvState s = STATE_RX_IDLE \<and> eSndState s = STATE_TX_IDLE \<and> length (ucRTUBuf s) = 256"

definition rx_got :: "mb_slave \<Rightarrow> u8 list \<Rightarrow> mb_slave" where
  "rx_got s bs = s\<lparr> ucRTUBuf := bs @ drop (length bs) (ucRTUBuf s), usRcvBufferPos := word_of_nat (length bs),
     eRcvState := STATE_RX_RCV, timer_on := True \<rparr>"

interpretation slave_rx: byte_receiver xMBRTUReceiveFSM rx_ready rx_got 256
proof
  fix s b assume s: "rx_ready s"
  then show "xMBRTUReceiveFSM s b = Some (rx_got s [b])"
    by (cases "ucRTUBuf s")
       (auto simp: xMBRTUReceiveFSM_def rx_ready_def rx_got_def slave_port buf_set_def)
  fix bs :: "u8 list" assume bs: "bs \<noteq> []" "length bs < 256"
  have u: "unat (word_of_nat (length bs) :: u16) = length bs"
    by (rule unat_small_u16) (use bs(2) in simp)
  have lt: "(word_of_nat (length bs) :: u16) < 256" using bs(2) u by (simp add: word_less_nat_alt)
  have d: "drop (length bs) (ucRTUBuf s) = ucRTUBuf s ! length bs # drop (Suc (length bs)) (ucRTUBuf s)"
    using s bs(2) by (simp add: rx_ready_def Cons_nth_drop_Suc)
  have "buf_set (bs @ drop (length bs) (ucRTUBuf s)) (length bs) b = Some ((bs @ [b]) @ drop (Suc (length bs)) (ucRTUBuf s))"
    using s bs(2) by (simp add: buf_set_def rx_ready_def d)
  with s bs lt u show "xMBRTUReceiveFSM (rx_got s bs) b = Some (rx_got s (bs @ [b]))"
    by (simp add: xMBRTUReceiveFSM_def rx_ready_def rx_got_def slave_port MB_SER_PDU_SIZE_MAX_def add.commute)
qed

definition tx_sending :: "mb_slave \<Rightarrow> u8 list \<Rightarrow> bool" where
  "tx_sending s bs \<longleftrightarrow> eRcvState s = STATE_RX_IDLE \<and> eSndState s = STATE_TX_XMIT \<and>
     length bs < 65536 \<and> usSndBufferCount s = word_of_nat (length bs) \<and>
     pucSndBufferCur s + length bs \<le> length (ucRTUBuf s) \<and>
     bs = take (length bs) (drop (pucSndBufferCur s) (ucRTUBuf s))"

definition tx_emitted :: "u8 list \<Rightarrow> mb_slave \<Rightarrow> mb_slave" where
  "tx_emitted bs s = s\<lparr> serial_out := serial_out s @ bs, pucSndBufferCur := pucSndBufferCur s + length bs,
     usSndBufferCount := usSndBufferCount s - word_of_nat (length bs) \<rparr>"

definition tx_finish :: "mb_slave \<Rightarrow> mb_slave" where
  "tx_finish s = s\<lparr> xSlaveOsEvent := xSlaveOsEvent s OR EV_FRAME_SENT, serial_rx := True, serial_tx := False,
     eSndState := STATE_TX_IDLE \<rparr>"

interpretation slave_tx: byte_sender xMBRTUTransmitFSM tx_sending tx_emitted tx_finish
proof
  fix s b bs assume s: "tx_sending s (b # bs)"
  have ne: "usSndBufferCount s \<noteq> 0"
  proof
    assume "usSndBufferCount s = 0"
    then have "(word_of_nat (Suc (length bs)) :: u16) = 0" using s by (simp add: tx_sending_def)
    then have "unat (word_of_nat (Suc (length bs)) :: u16) = 0" by simp
    then show False using s unat_small_u16 [of "Suc (length bs)"] by (simp add: tx_sending_def)
  qed
  have lt: "pucSndBufferCur s < length (ucRTUBuf s)" using s by (simp add: tx_sending_def)
  have "drop (pucSndBufferCur s) (ucRTUBuf s) =
      ucRTUBuf s ! pucSndBufferCur s # drop (Suc (pucSndBufferCur s)) (ucRTUBuf s)"
    using lt by (simp add: Cons_nth_drop_Suc)
  then have b: "ucRTUBuf s ! pucSndBufferCur s = b"
    "bs = take (length bs) (drop (Suc (pucSndBufferCur s)) (ucRTUBuf s))"
    using s by (simp_all add: tx_sending_def)
  show "xMBRTUTransmitFSM s = Some (tx_emitted [b] s) \<and> tx_sending (tx_emitted [b] s) bs"
    using s ne lt b by (auto simp: xMBRTUTransmitFSM_def tx_sending_def tx_emitted_def slave_port)
next
  fix s assume "tx_sending s []"
  then show "xMBRTUTransmitFSM s = Some (tx_finish s)"
    by (simp add: xMBRTUTransmitFSM_def tx_sending_def tx_finish_def slave_port)
next
  fix s show "tx_emitted [] s = s" by (simp add: tx_emitted_def)
next
  fix as bs s show "tx_emitted (as @ bs) s = tx_emitted bs (tx_emitted as s)"
    by (simp add: tx_emitted_def)
qed

section \<open>Frames sent and received\<close>

lemma eMBRTUSend_eq:
  assumes "eRcvState s = STATE_RX_IDLE" "length (ucRTUBuf s) = 256" "unat len \<le> 253"
  shows "eMBRTUSend addr 1 len s = Some (s\<lparr>
      ucRTUBuf := rtu_seal (addr # take (unat len) (drop 1 (ucRTUBuf s))) @ drop (unat len + 3) (ucRTUBuf s),
      pucSndBufferCur := 0, usSndBufferCount := len + 3, eSndState := STATE_TX_XMIT,
      serial_rx := False, serial_tx := True \<rparr>, MB_ENOERR)"
proof -
  define b where "b = ucRTUBuf s"
  have lb: "length b = 256" using assms(2) by (simp add: b_def)
  have u: "unat (1 + len) = unat len + 1" "unat (1 + len + 1) = unat len + 2"
    using assms(3) by (simp_all add: unat_word_ariths)
  have crc: "usMBCRC16 (b[0 := addr]) (1 + len) = Some (crc16 (addr # take (unat len) (drop 1 b)))"
    using usMBCRC16_eq [of "1 + len" "b[0 := addr]"] lb assms(3) unfolding u
    by (cases b) simp_all
  have w: "ucast (x AND 0xFF) = lo8 x" "ucast (drop_bit 8 x) = hi8 x" for x :: u16
    by (simp_all add: lo8_and hi8_def)
  have "1 + len + 2 = len + 3" by (simp add: add.commute)
  moreover have "buf_set (b[0 := addr]) (unat (1 + len)) x = Some ((b[0 := addr])[unat len + 1 := x])" for x
    unfolding u using lb assms(3) by simp
  moreover have "buf_set ((b[0 := addr])[unat len + 1 := x]) (unat (1 + len + 1)) y =
      Some ((b[0 := addr])[unat len + 1 := x, unat len + 2 := y])" for x y
    unfolding u using lb assms(3) by simp
  moreover have "buf_set b 0 addr = Some (b[0 := addr])" using lb by (simp add: buf_set_def)
  ultimately show ?thesis
    using seal_in_place [of "unat len" b addr] lb assms(3) crc
    unfolding eMBRTUSend_def b_def [symmetric]
    by (simp add: assms(1) w vMBPortSerialEnable_def Let_def)
qed

lemma eMBRTUReceive_eq:
  assumes "length (ucRTUBuf s) = 256" "unat (usRcvBufferPos s) < 256"
  shows "eMBRTUReceive s = Some (if 4 \<le> unat (usRcvBufferPos s) \<and>
        crc16 (take (unat (usRcvBufferPos s)) (ucRTUBuf s)) = 0
      then Inr (ucRTUBuf s ! 0, 1, usRcvBufferPos s - 3) else Inl MB_EIO)"
proof -
  have ne: "ucRTUBuf s \<noteq> []" using assms(1) by auto
  have "usRcvBufferPos s < MB_SER_PDU_SIZE_MAX"
    "(MB_SER_PDU_SIZE_MIN \<le> usRcvBufferPos s) = (4 \<le> unat (usRcvBufferPos s))"
    using assms(2) by (simp_all add: MB_SER_PDU_SIZE_MAX_def MB_SER_PDU_SIZE_MIN_def word_less_nat_alt word_le_nat_alt)
  then show ?thesis
    using usMBCRC16_eq [of "usRcvBufferPos s" "ucRTUBuf s"] assms ne
    by (simp add: eMBRTUReceive_def)
qed

text \<open>A frame of the full 256 bytes fails the assert.\<close>

lemma eMBRTUReceive_full: "usRcvBufferPos s = 256 \<Longrightarrow> eMBRTUReceive s = None"
  by (simp add: eMBRTUReceive_def MB_SER_PDU_SIZE_MAX_def)

end
