(* ===== verification/Mb_Slave.thy ===== *)
theory Mb_Slave
  imports Mb_Slave_Rtu
begin

text \<open>
  The Modbus slave's protocol layer, \<open>modbus/mb.c\<close> with \<open>port/rtt/portevent.c\<close>: life cycle,
  registration of handlers and the poll function; the whole slave as a machine of interrupts and
  polls, its invariant, and the answer to a request from the bytes received to the bytes sent.
\<close>

section \<open>Life cycle\<close>

definition MB_ADDRESS_BROADCAST :: u8 where "MB_ADDRESS_BROADCAST = 0"
definition MB_ADDRESS_MIN :: u8 where "MB_ADDRESS_MIN = 1"
definition MB_ADDRESS_MAX :: u8 where "MB_ADDRESS_MAX = 247"
definition MB_FUNC_ERROR :: u8 where "MB_FUNC_ERROR = 128"
definition MB_FUNC_HANDLERS_MAX :: nat where "MB_FUNC_HANDLERS_MAX = 16"

lemmas slave_consts = MB_ADDRESS_BROADCAST_def MB_ADDRESS_MIN_def MB_ADDRESS_MAX_def
  MB_FUNC_ERROR_def MB_FUNC_HANDLERS_MAX_def

definition handlers_init :: "(u8 \<times> mb_handler option) list" where
  "handlers_init =
    [(4, Some ReadInputRegister), (3, Some ReadHoldingRegister), (16, Some WriteMultipleHoldingRegister),
     (6, Some WriteHoldingRegister), (23, Some ReadWriteMultipleHoldingRegister), (1, Some ReadCoils),
     (5, Some WriteCoil), (15, Some WriteMultipleCoils), (2, Some ReadDiscreteInputs)]
    @ replicate (MB_FUNC_HANDLERS_MAX - 9) (0, None)"

text \<open>The statics at power-on.\<close>

definition mb_slave0 :: mb_slave where
  "mb_slave0 = \<lparr> eSndState = STATE_TX_IDLE, eRcvState = STATE_RX_INIT, ucRTUBuf = replicate 256 0,
     pucSndBufferCur = 0, usSndBufferCount = 0, usRcvBufferPos = 0, serial_rx = False, serial_tx = False,
     serial_out = [], timer_on = False, timer_ticks = 0, xSlaveOsEvent = 0, ucMBAddress = 0,
     eMBState = STATE_NOT_INITIALIZED, ucMBFrame = None, ucRcvAddress = 0, usLength = 0,
     xFuncHandlers = handlers_init, regs = slave_regs_init \<rparr>"

definition xMBPortEventInit :: "mb_slave \<Rightarrow> mb_slave" where
  "xMBPortEventInit s = s\<lparr> xSlaveOsEvent := 0 \<rparr>"

definition eMBInit ::
  "bool \<Rightarrow> eMBMode \<Rightarrow> u8 \<Rightarrow> u32 \<Rightarrow> mb_slave \<Rightarrow> (mb_slave \<times> eMBErrorCode) option" where
  "eMBInit serial_ok eMode ucSlaveAddress ulBaudRate s =
    (if ucSlaveAddress = MB_ADDRESS_BROADCAST \<or> ucSlaveAddress < MB_ADDRESS_MIN \<or>
        ucSlaveAddress > MB_ADDRESS_MAX
     then Some (s, MB_EINVAL)
     else do {
       let s1 = s\<lparr> ucMBAddress := ucSlaveAddress \<rparr>;
       (s2, eStatus) \<leftarrow> (case eMode of
          MB_RTU \<Rightarrow> eMBRTUInit serial_ok ulBaudRate s1
        | _ \<Rightarrow> Some (s1, MB_EINVAL));
       if eStatus = MB_ENOERR
       then Some ((xMBPortEventInit s2)\<lparr> eMBState := STATE_DISABLED \<rparr>, MB_ENOERR)
       else Some (s2, eStatus) })"

text \<open>The port has no close function (\<open>MB_PORT_HAS_CLOSE\<close> is 0), so closing only checks the state.\<close>

definition eMBClose :: "mb_slave \<Rightarrow> mb_slave \<times> eMBErrorCode" where
  "eMBClose s = (s, if eMBState s = STATE_DISABLED then MB_ENOERR else MB_EILLSTATE)"

definition eMBEnable :: "mb_slave \<Rightarrow> mb_slave \<times> eMBErrorCode" where
  "eMBEnable s =
    (if eMBState s = STATE_DISABLED
     then ((eMBRTUStart s)\<lparr> eMBState := STATE_ENABLED \<rparr>, MB_ENOERR)
     else (s, MB_EILLSTATE))"

definition eMBDisable :: "mb_slave \<Rightarrow> mb_slave \<times> eMBErrorCode" where
  "eMBDisable s =
    (if eMBState s = STATE_ENABLED
     then ((eMBRTUStop s)\<lparr> eMBState := STATE_DISABLED \<rparr>, MB_ENOERR)
     else if eMBState s = STATE_DISABLED then (s, MB_ENOERR)
     else (s, MB_EILLSTATE))"

section \<open>Handlers\<close>

text \<open>The first free entry or the handler's own; \<open>None\<close> when the loop runs through.\<close>

fun register_loop ::
  "u8 \<Rightarrow> mb_handler \<Rightarrow> (u8 \<times> mb_handler option) list \<Rightarrow> (u8 \<times> mb_handler option) list option" where
  "register_loop fc h [] = None"
| "register_loop fc h ((c, p) # es) =
    (if p = None \<or> p = Some h then Some ((fc, Some h) # es)
     else do { es' \<leftarrow> register_loop fc h es; Some ((c, p) # es') })"

fun unregister_loop :: "u8 \<Rightarrow> (u8 \<times> mb_handler option) list \<Rightarrow> (u8 \<times> mb_handler option) list" where
  "unregister_loop fc [] = []"
| "unregister_loop fc ((c, p) # es) =
    (if c = fc then (0, None) # es else (c, p) # unregister_loop fc es)"

definition eMBRegisterCB :: "u8 \<Rightarrow> mb_handler option \<Rightarrow> mb_slave \<Rightarrow> mb_slave \<times> eMBErrorCode" where
  "eMBRegisterCB ucFunctionCode pxHandler s =
    (if 0 < ucFunctionCode \<and> ucFunctionCode \<le> 127
     then case pxHandler of
       Some h \<Rightarrow> (case register_loop ucFunctionCode h (xFuncHandlers s) of
           Some es \<Rightarrow> (s\<lparr> xFuncHandlers := es \<rparr>, MB_ENOERR)
         | None \<Rightarrow> (s, MB_ENORES))
     | None \<Rightarrow> (s\<lparr> xFuncHandlers := unregister_loop ucFunctionCode (xFuncHandlers s) \<rparr>, MB_ENOERR)
     else (s, MB_EINVAL))"

text \<open>
  The search of \<open>eMBPoll\<close>: it ends at the first entry with function code 0. The result is the
  pointer called, or \<open>None\<close> when there is no match.
\<close>

fun find_handler :: "u8 \<Rightarrow> (u8 \<times> mb_handler option) list \<Rightarrow> mb_handler option option" where
  "find_handler fc [] = None"
| "find_handler fc ((c, p) # es) =
    (if c = 0 then None else if c = fc then Some p else find_handler fc es)"

section \<open>Poll\<close>

datatype poll_outcome = Waits | Returns eMBErrorCode

text \<open>
  \<open>xMBPortEventGet\<close> waits while no event is set. When several are set at once none of its cases
  matches and \<open>*eEvent\<close> keeps what it held: the argument \<open>junk\<close>, the caller's uninitialised local.
\<close>

definition xMBPortEventGet :: "u32 \<Rightarrow> mb_slave \<Rightarrow> (mb_slave \<times> u32) option" where
  "xMBPortEventGet junk s =
    (case rt_event_recv_or (xSlaveOsEvent s) (EV_READY OR EV_FRAME_RECEIVED OR EV_EXECUTE OR EV_FRAME_SENT) of
       None \<Rightarrow> None
     | Some (recved, rest) \<Rightarrow>
         Some (s\<lparr> xSlaveOsEvent := rest \<rparr>,
           if recved = EV_READY \<or> recved = EV_FRAME_RECEIVED \<or> recved = EV_EXECUTE \<or> recved = EV_FRAME_SENT
           then recved else junk))"

definition poll_received :: "mb_slave \<Rightarrow> mb_slave option" where
  "poll_received s = do {
     r \<leftarrow> eMBRTUReceive s;
     case r of
       Inl e \<Rightarrow> Some s
     | Inr (addr, off, len) \<Rightarrow>
         let s1 = s\<lparr> ucRcvAddress := addr, ucMBFrame := Some off, usLength := len \<rparr>
         in if ucRcvAddress s1 = ucMBAddress s1 \<or> ucRcvAddress s1 = MB_ADDRESS_BROADCAST
            then Some (xMBPortEventPost EV_EXECUTE s1) else Some s1 }"

text \<open>The frame is the part of \<open>ucRTUBuf\<close> from \<open>ucMBFrame\<close> on; a handler writes it in place.\<close>

definition poll_call :: "mb_slave \<Rightarrow> nat \<Rightarrow> (mb_slave \<times> u8 \<times> eMBException) option" where
  "poll_call s off = do {
     ucFunctionCode \<leftarrow> buf_get (ucRTUBuf s) off;
     case find_handler ucFunctionCode (xFuncHandlers s) of
       None \<Rightarrow> Some (s, ucFunctionCode, MB_EX_ILLEGAL_FUNCTION)
     | Some None \<Rightarrow> None
     | Some (Some h) \<Rightarrow> do {
         (r, f, len, e) \<leftarrow> call_handler h (regs s) (drop off (ucRTUBuf s)) (usLength s);
         Some (s\<lparr> regs := r, ucRTUBuf := take off (ucRTUBuf s) @ f, usLength := len \<rparr>, ucFunctionCode, e) } }"

definition poll_execute :: "mb_slave \<Rightarrow> mb_slave option" where
  "poll_execute s =
    (case ucMBFrame s of
       None \<Rightarrow> None
     | Some off \<Rightarrow> do {
         (s1, ucFunctionCode, eException) \<leftarrow> poll_call s off;
         if ucRcvAddress s1 \<noteq> MB_ADDRESS_BROADCAST
         then do {
           s2 \<leftarrow> (if eException \<noteq> MB_EX_NONE
                 then do {
                   b1 \<leftarrow> buf_set (ucRTUBuf s1) off (ucFunctionCode OR MB_FUNC_ERROR);
                   b2 \<leftarrow> buf_set b1 (off + 1) (exception_code eException);
                   Some (s1\<lparr> ucRTUBuf := b2, usLength := 2 \<rparr>) }
                 else Some s1);
           (s3, _) \<leftarrow> eMBRTUSend (ucMBAddress s2) off (usLength s2) s2;
           Some s3 }
         else Some s1 })"

definition eMBPoll :: "u32 \<Rightarrow> mb_slave \<Rightarrow> (mb_slave \<times> poll_outcome) option" where
  "eMBPoll junk s =
    (if eMBState s \<noteq> STATE_ENABLED then Some (s, Returns MB_EILLSTATE)
     else case xMBPortEventGet junk s of
       None \<Rightarrow> Some (s, Waits)
     | Some (s1, eEvent) \<Rightarrow> do {
         s2 \<leftarrow> (if eEvent = EV_FRAME_RECEIVED then poll_received s1
               else if eEvent = EV_EXECUTE then poll_execute s1
               else Some s1);
         Some (s2, Returns MB_ENOERR) })"

section \<open>The slave as a machine\<close>

text \<open>
  Interrupts and threads, one step each: a byte arrives (only with the receiver enabled), the
  timer runs out (only when it runs), the transmit thread is scheduled (only with the transmitter
  enabled), the polling thread runs one \<open>eMBPoll\<close>.
\<close>

datatype slave_event = Rx_Byte u8 | Timer_Expires | Tx_Ready | Poll_Runs u32

fun slave_step :: "mb_slave \<Rightarrow> slave_event \<Rightarrow> mb_slave option" where
  "slave_step s (Rx_Byte b) = (if serial_rx s then xMBRTUReceiveFSM s b else Some s)"
| "slave_step s Timer_Expires = (if timer_on s then xMBRTUTimerT35Expired s else Some s)"
| "slave_step s Tx_Ready = (if serial_tx s then xMBRTUTransmitFSM s else Some s)"
| "slave_step s (Poll_Runs junk) = map_option fst (eMBPoll junk s)"

section \<open>Invariant\<close>

definition slave_ok :: "mb_slave \<Rightarrow> bool" where
  "slave_ok s \<longleftrightarrow>
     length (ucRTUBuf s) = 256 \<and> slave_regs_wf (regs s) \<and>
     (\<forall>c p. (c, p) \<in> set (xFuncHandlers s) \<longrightarrow> c \<noteq> 0 \<longrightarrow> p \<noteq> None) \<and>
     (timer_on s \<longrightarrow> eRcvState s \<noteq> STATE_RX_IDLE) \<and>
     (serial_rx s \<longrightarrow> eSndState s = STATE_TX_IDLE) \<and>
     (serial_tx s \<longrightarrow> eRcvState s = STATE_RX_IDLE \<and> eSndState s = STATE_TX_XMIT \<and> \<not> timer_on s \<and>
        \<not> serial_rx s \<and> pucSndBufferCur s + unat (usSndBufferCount s) \<le> 256) \<and>
     unat (usRcvBufferPos s) \<le> 256 \<and>
     (\<forall>off. ucMBFrame s = Some off \<longrightarrow> off = 1 \<and> unat (usLength s) \<le> 252) \<and>
     (bit (xSlaveOsEvent s) 2 \<longrightarrow> ucMBFrame s \<noteq> None)"

text \<open>
  What the environment must not do: let the poll run when a frame of the full 256 bytes is in the
  buffer, leave a stale \<open>EV_EXECUTE\<close> in the poll's uninitialised local, or request bits of the last
  byte of the coil or discrete input buffers.
\<close>

fun slave_event_ok :: "mb_slave \<Rightarrow> slave_event \<Rightarrow> bool" where
  "slave_event_ok s (Poll_Runs junk) \<longleftrightarrow> unat (usRcvBufferPos s) < 256 \<and> junk \<noteq> EV_EXECUTE \<and>
     (\<forall>h. find_handler (ucRTUBuf s ! 1) (xFuncHandlers s) = Some (Some h) \<longrightarrow>
        request_clear h (drop 1 (ucRTUBuf s)))"
| "slave_event_ok s _ \<longleftrightarrow> True"

lemma slave_ok_rx:
  assumes "slave_ok s" "serial_rx s"
  shows "\<exists>s'. xMBRTUReceiveFSM s b = Some s' \<and> slave_ok s'"
proof -
  have ne: "ucRTUBuf s \<noteq> []" using assms(1) by (auto simp: slave_ok_def)
  have tx: "eSndState s = STATE_TX_IDLE" "\<not> serial_tx s" using assms by (auto simp: slave_ok_def)
  have lt: "usRcvBufferPos s < MB_SER_PDU_SIZE_MAX \<longleftrightarrow> unat (usRcvBufferPos s) < 256"
    by (simp add: MB_SER_PDU_SIZE_MAX_def word_less_nat_alt)
  have inc: "unat (usRcvBufferPos s) < 256 \<Longrightarrow> unat (usRcvBufferPos s + 1) \<le> 256"
    by (simp add: unat_word_ariths)
  show ?thesis
    using assms tx ne lt inc
    by (cases "eRcvState s")
       (auto simp: xMBRTUReceiveFSM_def slave_ok_def slave_port)
qed

lemma slave_ok_timer:
  assumes "slave_ok s" "timer_on s"
  shows "\<exists>s'. xMBRTUTimerT35Expired s = Some s' \<and> slave_ok s'"
  using assms
  by (cases "eRcvState s")
     (auto simp: xMBRTUTimerT35Expired_def slave_ok_def slave_port slave_events bit_simps)

lemma slave_ok_tx:
  assumes "slave_ok s" "serial_tx s"
  shows "\<exists>s'. xMBRTUTransmitFSM s = Some s' \<and> slave_ok s'"
proof (cases "usSndBufferCount s = 0")
  case True
  with assms show ?thesis
    by (auto simp: xMBRTUTransmitFSM_def slave_ok_def slave_port slave_events bit_simps)
next
  case False
  then have "unat (usSndBufferCount s) \<noteq> 0" by (simp add: unat_gt_0)
  moreover from this have "unat (usSndBufferCount s - 1) = unat (usSndBufferCount s) - 1"
    using unat_minus_one [OF False] by simp
  moreover have b: "pucSndBufferCur s < length (ucRTUBuf s)"
    using assms calculation(1) by (auto simp: slave_ok_def)
  ultimately show ?thesis using assms False
    by (auto simp: xMBRTUTransmitFSM_def slave_ok_def slave_port)
qed

lemma slave_ok_send:
  assumes "slave_ok s" "unat len \<le> 253"
  shows "\<exists>s' e. eMBRTUSend a 1 len s = Some (s', e) \<and> slave_ok s'"
proof (cases "eRcvState s = STATE_RX_IDLE")
  case True
  have "length (ucRTUBuf s) = 256" using assms(1) by (simp add: slave_ok_def)
  moreover have "unat (len + 3) = unat len + 3" using assms(2) by (simp add: unat_word_ariths)
  ultimately show ?thesis
    using eMBRTUSend_eq [OF True _ assms(2), of a] assms True
    by (auto simp: slave_ok_def rtu_seal_def)
next
  case False
  with assms(1) show ?thesis by (simp add: eMBRTUSend_def)
qed

lemma slave_ok_received:
  assumes "slave_ok s" "unat (usRcvBufferPos s) < 256"
  shows "\<exists>s'. poll_received s = Some s' \<and> slave_ok s'"
proof -
  have "length (ucRTUBuf s) = 256" using assms(1) by (simp add: slave_ok_def)
  from eMBRTUReceive_eq [OF this assms(2)] show ?thesis
  proof (cases "4 \<le> unat (usRcvBufferPos s) \<and> crc16 (take (unat (usRcvBufferPos s)) (ucRTUBuf s)) = 0")
    case True
    then have "unat (usRcvBufferPos s - 3) \<le> 252"
      using assms(2) by (simp add: unat_sub word_le_nat_alt)
    with True eMBRTUReceive_eq [OF \<open>length (ucRTUBuf s) = 256\<close> assms(2)] assms(1) show ?thesis
      by (auto simp: poll_received_def slave_ok_def slave_port Let_def)
  next
    case False
    with eMBRTUReceive_eq [OF \<open>length (ucRTUBuf s) = 256\<close> assms(2)] assms(1) show ?thesis
      by (auto simp: poll_received_def)
  qed
qed

lemma find_handler_entry:
  "find_handler fc es = Some p \<Longrightarrow> fc \<noteq> 0 \<and> (fc, p) \<in> set es"
  by (induction fc es rule: find_handler.induct) (auto split: if_splits)

lemma slave_ok_call:
  assumes "slave_ok s" "ucMBFrame s = Some 1"
    "\<forall>h. find_handler (ucRTUBuf s ! 1) (xFuncHandlers s) = Some (Some h) \<longrightarrow> request_clear h (drop 1 (ucRTUBuf s))"
  shows "\<exists>s' fc e. poll_call s 1 = Some (s', fc, e) \<and> slave_ok s' \<and> ucMBFrame s' = Some 1"
proof -
  have len: "length (ucRTUBuf s) = 256" "unat (usLength s) \<le> 252" "slave_regs_wf (regs s)"
    using assms(1,2) by (auto simp: slave_ok_def)
  show ?thesis
  proof (cases "find_handler (ucRTUBuf s ! 1) (xFuncHandlers s)")
    case None
    with assms(1,2) len show ?thesis by (simp add: poll_call_def)
  next
    case (Some p)
    with find_handler_entry [OF Some] assms(1) obtain h where h: "p = Some h"
      unfolding slave_ok_def by blast
    have "handler_ok (drop 1 (ucRTUBuf s)) (usLength s) (call_handler h (regs s) (drop 1 (ucRTUBuf s)) (usLength s))"
      using len assms(3) Some h by (intro call_handler_ok) simp_all
    then obtain r f l e where r: "call_handler h (regs s) (drop 1 (ucRTUBuf s)) (usLength s) = Some (r, f, l, e)"
      "slave_regs_wf r" "length f = 255" "unat l \<le> 252"
      using len by (auto simp: handler_ok_def max_def split: if_splits)
    have "length (take 1 (ucRTUBuf s) @ f) = 256" using r(3) len by simp
    with assms(1,2) r Some h len show ?thesis by (simp add: poll_call_def slave_ok_def)
  qed
qed

lemma slave_ok_execute:
  assumes "slave_ok s" "ucMBFrame s \<noteq> None"
    "\<forall>h. find_handler (ucRTUBuf s ! 1) (xFuncHandlers s) = Some (Some h) \<longrightarrow> request_clear h (drop 1 (ucRTUBuf s))"
  shows "\<exists>s'. poll_execute s = Some s' \<and> slave_ok s'"
proof -
  have fr: "ucMBFrame s = Some 1" using assms(1,2) by (auto simp: slave_ok_def)
  from slave_ok_call [OF assms(1) fr assms(3)] obtain s1 fc e where
    c: "poll_call s 1 = Some (s1, fc, e)" "slave_ok s1" "ucMBFrame s1 = Some 1" by blast
  then have l1: "length (ucRTUBuf s1) = 256" "unat (usLength s1) \<le> 252" by (auto simp: slave_ok_def)
  define s2 where "s2 = (if e \<noteq> MB_EX_NONE
      then s1\<lparr> ucRTUBuf := (ucRTUBuf s1)[1 := fc OR MB_FUNC_ERROR, 2 := exception_code e], usLength := 2 \<rparr> else s1)"
  have s2: "slave_ok s2" "unat (usLength s2) \<le> 253"
    using c(2,3) l1 by (auto simp: s2_def slave_ok_def)
  obtain s3 e3 where "eMBRTUSend (ucMBAddress s2) 1 (usLength s2) s2 = Some (s3, e3)" "slave_ok s3"
    using slave_ok_send [OF s2] by blast
  with c l1 fr s2_def show ?thesis
    by (cases "e = MB_EX_NONE") (simp_all add: poll_execute_def numeral_2_eq_2)
qed

lemma slave_ok_poll:
  assumes "slave_ok s" "slave_event_ok s (Poll_Runs junk)"
  shows "\<exists>s' o'. eMBPoll junk s = Some (s', o') \<and> slave_ok s'"
proof (cases "eMBState s = STATE_ENABLED")
  case False
  with assms(1) show ?thesis by (simp add: eMBPoll_def)
next
  case en: True
  show ?thesis
  proof (cases "xMBPortEventGet junk s")
    case None
    with en assms(1) show ?thesis by (simp add: eMBPoll_def)
  next
    case (Some q)
    obtain s1 ev where q: "q = (s1, ev)" by (cases q) auto
    have m: "EV_READY OR EV_FRAME_RECEIVED OR EV_EXECUTE OR EV_FRAME_SENT = 15"
      by (simp add: slave_events)
    have b15: "bit (15 :: u32) 2" by simp
    from Some q have s1: "s1 = s\<lparr> xSlaveOsEvent := xSlaveOsEvent s AND NOT 15 \<rparr>"
      and ev: "ev = xSlaveOsEvent s AND 15 \<or> ev = junk"
      by (auto simp: xMBPortEventGet_def rt_event_recv_or_def m split: if_splits)
    have ok1: "slave_ok s1" using assms(1) b15 by (simp add: s1 slave_ok_def bit_simps)
    have fr: "ucMBFrame s1 \<noteq> None" if "ev = EV_EXECUTE"
    proof -
      have "xSlaveOsEvent s AND 15 = 4" using ev that assms(2) by (auto simp: slave_events)
      then have "bit (xSlaveOsEvent s AND 15) 2" by simp
      then have "bit (xSlaveOsEvent s) 2" by (simp add: bit_and_iff)
      with assms(1) show ?thesis by (simp add: s1 slave_ok_def)
    qed
    have e: "\<exists>s2. poll_execute s1 = Some s2 \<and> slave_ok s2" if "ev = EV_EXECUTE"
      using slave_ok_execute [OF ok1 fr [OF that]] assms(2) by (simp add: s1)
    have r: "\<exists>s2. poll_received s1 = Some s2 \<and> slave_ok s2"
      using slave_ok_received [OF ok1] assms(2) by (simp add: s1)
    show ?thesis
      using en Some q e r ok1 by (auto simp: eMBPoll_def)
  qed
qed

interpretation slave: safe_machine slave_step slave_ok slave_event_ok
proof
  fix s e assume s: "slave_ok s" "slave_event_ok s e"
  show "\<exists>s'. slave_step s e = Some s' \<and> slave_ok s'"
  proof (cases e)
    case (Rx_Byte b)
    then show ?thesis using slave_ok_rx [OF s(1), of b] s(1) by (cases "serial_rx s") auto
  next
    case Timer_Expires
    then show ?thesis using slave_ok_timer [OF s(1)] s(1) by (cases "timer_on s") auto
  next
    case Tx_Ready
    then show ?thesis using slave_ok_tx [OF s(1)] s(1) by (cases "serial_tx s") auto
  next
    case (Poll_Runs junk)
    then show ?thesis using slave_ok_poll [OF s(1), of junk] s(2) by auto
  qed
qed

end
