(* ===== verification/Mb_Master_App.thy ===== *)
theory Mb_Master_App
  imports Mb_Registers
begin

text \<open>
  The register callbacks of the Modbus master, \<open>FreeModbus/port/user_mb_app_m.c\<close>: what a slave
  answered is stored in the buffers of that slave. Each of the four buffers has one row per slave;
  the row is the destination address less one, so that address 0 has none.
\<close>

section \<open>Buffers\<close>

definition MB_MASTER_TOTAL_SLAVE_NUM :: nat where "MB_MASTER_TOTAL_SLAVE_NUM = 16"
definition M_DISCRETE_INPUT_START :: u16 where "M_DISCRETE_INPUT_START = 0"
definition M_DISCRETE_INPUT_NDISCRETES :: nat where "M_DISCRETE_INPUT_NDISCRETES = 16"
definition M_COIL_START :: u16 where "M_COIL_START = 0"
definition M_COIL_NCOILS :: nat where "M_COIL_NCOILS = 64"
definition M_REG_INPUT_START :: u16 where "M_REG_INPUT_START = 0"
definition M_REG_INPUT_NREGS :: nat where "M_REG_INPUT_NREGS = 10"
definition M_REG_HOLDING_START :: u16 where "M_REG_HOLDING_START = 0"
definition M_REG_HOLDING_NREGS :: nat where "M_REG_HOLDING_NREGS = 50"

lemmas master_sizes = MB_MASTER_TOTAL_SLAVE_NUM_def M_DISCRETE_INPUT_START_def
  M_DISCRETE_INPUT_NDISCRETES_def M_COIL_START_def M_COIL_NCOILS_def M_REG_INPUT_START_def
  M_REG_INPUT_NREGS_def M_REG_HOLDING_START_def M_REG_HOLDING_NREGS_def

record master_regs =
  ucMDiscInBuf :: "u8 list list"
  ucMCoilBuf :: "u8 list list"
  usMRegInBuf :: "u16 list list"
  usMRegHoldBuf :: "u16 list list"

definition master_regs_init :: master_regs where
  "master_regs_init =
    \<lparr> ucMDiscInBuf = replicate MB_MASTER_TOTAL_SLAVE_NUM (replicate (M_DISCRETE_INPUT_NDISCRETES div 8) 0),
      ucMCoilBuf = replicate MB_MASTER_TOTAL_SLAVE_NUM (replicate (M_COIL_NCOILS div 8) 0),
      usMRegInBuf = replicate MB_MASTER_TOTAL_SLAVE_NUM (replicate M_REG_INPUT_NREGS 0),
      usMRegHoldBuf = replicate MB_MASTER_TOTAL_SLAVE_NUM (replicate M_REG_HOLDING_NREGS 0) \<rparr>"

definition rows :: "nat \<Rightarrow> nat \<Rightarrow> 'a list list \<Rightarrow> bool" where
  "rows m n b \<longleftrightarrow> length b = m \<and> (\<forall>r \<in> set b. length r = n)"

definition master_regs_wf :: "master_regs \<Rightarrow> bool" where
  "master_regs_wf r \<longleftrightarrow> rows 16 2 (ucMDiscInBuf r) \<and> rows 16 8 (ucMCoilBuf r) \<and>
     rows 16 10 (usMRegInBuf r) \<and> rows 16 50 (usMRegHoldBuf r)"

lemma master_regs_init_wf [simp]: "master_regs_wf master_regs_init"
  by (simp add: master_regs_wf_def master_regs_init_def master_sizes rows_def)

lemma rows_nth: "rows m n b \<Longrightarrow> i < m \<Longrightarrow> length (b ! i) = n"
  by (simp add: rows_def)

lemma rows_update: "rows m n b \<Longrightarrow> length r = n \<Longrightarrow> rows m n (b[i := r])"
  by (auto simp: rows_def dest: subsetD [OF set_update_subset_insert])

text \<open>\<open>buf[ucMBMasterGetDestAddress() - 1]\<close>\<close>

definition slave_row :: "'a list list \<Rightarrow> u8 \<Rightarrow> 'a list option" where
  "slave_row b dest = (if dest = 0 then None else buf_get b (unat dest - 1))"

section \<open>Callbacks\<close>

text \<open>
  The holding and coil callbacks set \<open>eMode = MB_REG_WRITE\<close> first, so that only that branch of
  their switch is ever taken.
\<close>

definition eMBMasterRegInputCB ::
  "master_regs \<Rightarrow> u8 \<Rightarrow> u8 list \<Rightarrow> nat \<Rightarrow> u16 \<Rightarrow> u16 \<Rightarrow> (master_regs \<times> eMBErrorCode) option" where
  "eMBMasterRegInputCB r dest pucRegBuffer p usAddress0 usNRegs = do {
     row \<leftarrow> slave_row (usMRegInBuf r) dest;
     let usAddress = usAddress0 - 1;
     if M_REG_INPUT_START \<le> usAddress \<and>
        unat usAddress + unat usNRegs \<le> unat M_REG_INPUT_START + M_REG_INPUT_NREGS
     then do {
       row' \<leftarrow> regs_in row (usAddress - M_REG_INPUT_START) pucRegBuffer p (unat usNRegs);
       Some (r\<lparr> usMRegInBuf := (usMRegInBuf r)[unat dest - 1 := row'] \<rparr>, MB_ENOERR) }
     else Some (r, MB_ENOREG) }"

definition eMBMasterRegHoldingCB ::
  "master_regs \<Rightarrow> u8 \<Rightarrow> u8 list \<Rightarrow> nat \<Rightarrow> u16 \<Rightarrow> u16 \<Rightarrow> (master_regs \<times> eMBErrorCode) option" where
  "eMBMasterRegHoldingCB r dest pucRegBuffer p usAddress0 usNRegs = do {
     row \<leftarrow> slave_row (usMRegHoldBuf r) dest;
     let usAddress = usAddress0 - 1;
     if M_REG_HOLDING_START \<le> usAddress \<and>
        unat usAddress + unat usNRegs \<le> unat M_REG_HOLDING_START + M_REG_HOLDING_NREGS
     then do {
       row' \<leftarrow> regs_in row (usAddress - M_REG_HOLDING_START) pucRegBuffer p (unat usNRegs);
       Some (r\<lparr> usMRegHoldBuf := (usMRegHoldBuf r)[unat dest - 1 := row'] \<rparr>, MB_ENOERR) }
     else Some (r, MB_ENOREG) }"

definition eMBMasterRegCoilsCB ::
  "master_regs \<Rightarrow> u8 \<Rightarrow> u8 list \<Rightarrow> nat \<Rightarrow> u16 \<Rightarrow> u16 \<Rightarrow> (master_regs \<times> eMBErrorCode) option" where
  "eMBMasterRegCoilsCB r dest pucRegBuffer p usAddress0 usNCoils = do {
     row \<leftarrow> slave_row (ucMCoilBuf r) dest;
     let iNReg = usNCoils div 8 + 1;
     let usAddress = usAddress0 - 1;
     if M_COIL_START \<le> usAddress \<and>
        unat usAddress + unat usNCoils \<le> unat M_COIL_START + M_COIL_NCOILS
     then do {
       row' \<leftarrow> bits_in row ((usAddress - M_COIL_START) div 8) ((usAddress - M_COIL_START) mod 8)
                 pucRegBuffer p (unat iNReg - 1) (usNCoils mod 8);
       Some (r\<lparr> ucMCoilBuf := (ucMCoilBuf r)[unat dest - 1 := row'] \<rparr>, MB_ENOERR) }
     else Some (r, MB_ENOREG) }"

definition eMBMasterRegDiscreteCB ::
  "master_regs \<Rightarrow> u8 \<Rightarrow> u8 list \<Rightarrow> nat \<Rightarrow> u16 \<Rightarrow> u16 \<Rightarrow> (master_regs \<times> eMBErrorCode) option" where
  "eMBMasterRegDiscreteCB r dest pucRegBuffer p usAddress0 usNDiscrete = do {
     row \<leftarrow> slave_row (ucMDiscInBuf r) dest;
     let iNReg = usNDiscrete div 8 + 1;
     let usAddress = usAddress0 - 1;
     if M_DISCRETE_INPUT_START \<le> usAddress \<and>
        unat usAddress + unat usNDiscrete \<le> unat M_DISCRETE_INPUT_START + M_DISCRETE_INPUT_NDISCRETES
     then do {
       row' \<leftarrow> bits_in row ((usAddress - M_DISCRETE_INPUT_START) div 8)
                 ((usAddress - M_DISCRETE_INPUT_START) mod 8) pucRegBuffer p (unat iNReg - 1) (usNDiscrete mod 8);
       Some (r\<lparr> ucMDiscInBuf := (ucMDiscInBuf r)[unat dest - 1 := row'] \<rparr>, MB_ENOERR) }
     else Some (r, MB_ENOREG) }"

section \<open>What they store\<close>

definition dest_ok :: "u8 \<Rightarrow> bool" where
  "dest_ok dest \<longleftrightarrow> 1 \<le> unat dest \<and> unat dest \<le> 16"

lemma dest_row: "dest_ok dest \<Longrightarrow> rows 16 n b \<Longrightarrow> length (b ! (unat dest - 1)) = n"
  by (rule rows_nth) (auto simp: dest_ok_def)

lemma slave_row_eq: "dest_ok dest \<Longrightarrow> rows 16 n b \<Longrightarrow> slave_row b dest = Some (b ! (unat dest - 1))"
  by (auto simp: slave_row_def dest_ok_def rows_def)

text \<open>Words received replace a block of the slave's row.\<close>

definition store_words :: "u16 list list \<Rightarrow> u8 \<Rightarrow> nat \<Rightarrow> u16 list \<Rightarrow> u16 list list" where
  "store_words b dest a ws =
    (let i = unat dest - 1 in b[i := take a (b ! i) @ ws @ drop (a + length ws) (b ! i)])"

lemma rows_store_words:
  "rows 16 n b \<Longrightarrow> dest_ok dest \<Longrightarrow> a + length ws \<le> n \<Longrightarrow> rows 16 n (store_words b dest a ws)"
  unfolding store_words_def Let_def
  by (rule rows_update) (auto simp: rows_def dest_ok_def)

lemma eMBMasterRegHoldingCB_eq:
  assumes "master_regs_wf r" "dest_ok dest" "unat a + unat n \<le> 50 \<Longrightarrow> p + 2 * unat n \<le> length buf"
  shows "eMBMasterRegHoldingCB r dest buf p (a + 1) n =
    Some (if unat a + unat n \<le> 50
          then (r\<lparr> usMRegHoldBuf := store_words (usMRegHoldBuf r) dest (unat a)
                     (be_words (take (2 * unat n) (drop p buf))) \<rparr>, MB_ENOERR)
          else (r, MB_ENOREG))"
proof (cases "unat a + unat n \<le> 50")
  case True
  have w: "rows 16 50 (usMRegHoldBuf r)" using assms(1) by (simp add: master_regs_wf_def)
  have i: "length (usMRegHoldBuf r ! (unat dest - 1)) = 50"
    using assms(2) w by (rule dest_row)
  have "length (be_words (take (2 * unat n) (drop p buf))) = unat n" using assms(3) True by simp
  then show ?thesis
    using True assms(3) i regs_in_eq [of p "unat n" buf a "usMRegHoldBuf r ! (unat dest - 1)"]
      slave_row_eq [OF assms(2) w]
    by (simp add: eMBMasterRegHoldingCB_def master_sizes store_words_def Let_def del: length_be_words)
next
  case False
  have w: "rows 16 50 (usMRegHoldBuf r)" using assms(1) by (simp add: master_regs_wf_def)
  with False slave_row_eq [OF assms(2) w] show ?thesis
    by (simp add: eMBMasterRegHoldingCB_def master_sizes)
qed

lemma eMBMasterRegInputCB_eq:
  assumes "master_regs_wf r" "dest_ok dest" "unat a + unat n \<le> 10 \<Longrightarrow> p + 2 * unat n \<le> length buf"
  shows "eMBMasterRegInputCB r dest buf p (a + 1) n =
    Some (if unat a + unat n \<le> 10
          then (r\<lparr> usMRegInBuf := store_words (usMRegInBuf r) dest (unat a)
                     (be_words (take (2 * unat n) (drop p buf))) \<rparr>, MB_ENOERR)
          else (r, MB_ENOREG))"
proof -
  have w: "rows 16 10 (usMRegInBuf r)" using assms(1) by (simp add: master_regs_wf_def)
  have i: "length (usMRegInBuf r ! (unat dest - 1)) = 10"
    using assms(2) w by (rule dest_row)
  show ?thesis
  proof (cases "unat a + unat n \<le> 10")
    case True
    have "length (be_words (take (2 * unat n) (drop p buf))) = unat n" using assms(3) True by simp
    then show ?thesis
      using True assms(3) i regs_in_eq [of p "unat n" buf a "usMRegInBuf r ! (unat dest - 1)"]
        slave_row_eq [OF assms(2) w]
      by (simp add: eMBMasterRegInputCB_def master_sizes store_words_def Let_def del: length_be_words)
  next
    case False
    with slave_row_eq [OF assms(2) w] show ?thesis
      by (simp add: eMBMasterRegInputCB_def master_sizes)
  qed
qed

lemma master_words_wf:
  assumes "master_regs_wf r" "dest_ok dest"
  shows "a + length ws \<le> 50 \<Longrightarrow>
      master_regs_wf (r\<lparr> usMRegHoldBuf := store_words (usMRegHoldBuf r) dest a ws \<rparr>)"
    "a + length ws \<le> 10 \<Longrightarrow>
      master_regs_wf (r\<lparr> usMRegInBuf := store_words (usMRegInBuf r) dest a ws \<rparr>)"
  using assms rows_store_words by (auto simp: master_regs_wf_def)

text \<open>Bits received are written into the slave's row, if they stay clear of its last byte.\<close>

definition block_clear :: "u16 \<Rightarrow> u16 \<Rightarrow> nat \<Rightarrow> bool" where
  "block_clear a n bytes \<longleftrightarrow> unat a div 8 + unat n div 8 + (if unat n mod 8 = 0 then 0 else 1) < bytes"

lemma eMBMasterRegCoilsCB_ok:
  assumes "master_regs_wf r" "dest_ok dest" "unat a + unat n \<le> 64 \<Longrightarrow> block_clear a n 8"
    "unat a + unat n \<le> 64 \<Longrightarrow> p + unat n div 8 + 1 \<le> length buf"
  shows "\<exists>r' e. eMBMasterRegCoilsCB r dest buf p (a + 1) n = Some (r', e) \<and> master_regs_wf r'"
proof -
  have w: "rows 16 8 (ucMCoilBuf r)" using assms(1) by (simp add: master_regs_wf_def)
  show ?thesis
  proof (cases "unat a + unat n \<le> 64")
    case True
    have i: "length (ucMCoilBuf r ! (unat dest - 1)) = 8"
      using assms(2) w by (rule dest_row)
    have pre: "unat a div 8 + unat n div 8 + (if unat n mod 8 = 0 then 0 else 1) < length (ucMCoilBuf r ! (unat dest - 1))"
      "p + unat n div 8 + (if unat n mod 8 = 0 then 0 else 1) \<le> length buf"
      "length (ucMCoilBuf r ! (unat dest - 1)) < 65536"
      using assms(3,4) [OF True] i by (simp_all add: block_clear_def)
    from bits_write_ok [OF pre] obtain row where
      "bits_in (ucMCoilBuf r ! (unat dest - 1)) (a div 8) (a mod 8) buf p (unat (n div 8 + 1) - 1) (n mod 8) = Some row"
      "length row = 8" using i by auto
    with True slave_row_eq [OF assms(2) w] rows_update [OF w] assms(1) show ?thesis
      by (simp add: eMBMasterRegCoilsCB_def master_sizes master_regs_wf_def)
  next
    case False
    with slave_row_eq [OF assms(2) w] assms(1) show ?thesis
      by (simp add: eMBMasterRegCoilsCB_def master_sizes)
  qed
qed

lemma eMBMasterRegDiscreteCB_ok:
  assumes "master_regs_wf r" "dest_ok dest" "unat a + unat n \<le> 16 \<Longrightarrow> block_clear a n 2"
    "unat a + unat n \<le> 16 \<Longrightarrow> p + unat n div 8 + 1 \<le> length buf"
  shows "\<exists>r' e. eMBMasterRegDiscreteCB r dest buf p (a + 1) n = Some (r', e) \<and> master_regs_wf r'"
proof -
  have w: "rows 16 2 (ucMDiscInBuf r)" using assms(1) by (simp add: master_regs_wf_def)
  show ?thesis
  proof (cases "unat a + unat n \<le> 16")
    case True
    have i: "length (ucMDiscInBuf r ! (unat dest - 1)) = 2"
      using assms(2) w by (rule dest_row)
    have pre: "unat a div 8 + unat n div 8 + (if unat n mod 8 = 0 then 0 else 1) < length (ucMDiscInBuf r ! (unat dest - 1))"
      "p + unat n div 8 + (if unat n mod 8 = 0 then 0 else 1) \<le> length buf"
      "length (ucMDiscInBuf r ! (unat dest - 1)) < 65536"
      using assms(3,4) [OF True] i by (simp_all add: block_clear_def)
    from bits_write_ok [OF pre] obtain row where
      "bits_in (ucMDiscInBuf r ! (unat dest - 1)) (a div 8) (a mod 8) buf p (unat (n div 8 + 1) - 1) (n mod 8) = Some row"
      "length row = 2" using i by auto
    with True slave_row_eq [OF assms(2) w] rows_update [OF w] assms(1) show ?thesis
      by (simp add: eMBMasterRegDiscreteCB_def master_sizes master_regs_wf_def)
  next
    case False
    with slave_row_eq [OF assms(2) w] assms(1) show ?thesis
      by (simp add: eMBMasterRegDiscreteCB_def master_sizes)
  qed
qed

end
