(* ===== verification/Mb_Master_Func.thy ===== *)
theory Mb_Master_Func
  imports Mb_Slave_Func Mb_Master_App
begin

text \<open>
  The function handlers of the Modbus master, \<open>FreeModbus/modbus/functions/mbfuncholding_m.c\<close>,
  \<open>mbfunccoils_m.c\<close>, \<open>mbfuncdisc_m.c\<close> and \<open>mbfuncinput_m.c\<close>: they take a response and store what it
  says. Addresses and counts of a read come from the request, which is still in the transmit
  buffer.
\<close>

section \<open>Handlers\<close>

text \<open>
  What a handler works on: the destination address, whether the request was a broadcast
  (\<open>xMBMasterRequestIsBroadcast\<close>), the PDU part of the transmit buffer (\<open>vMBMasterGetPDUSndBuf\<close>), the
  frame \<open>pucFrame\<close> and its length \<open>*usLen\<close>.
\<close>

record master_call =
  dest_address :: u8
  is_broadcast :: bool
  snd_pdu :: "u8 list"
  frame :: "u8 list"
  us_len :: u16

type_synonym master_result = "(master_regs \<times> eMBException) option"

definition reg_status :: "master_regs \<times> eMBErrorCode \<Rightarrow> master_regs \<times> eMBException" where
  "reg_status = (\<lambda>(r, eRegStatus). (r,
     if eRegStatus \<noteq> MB_ENOERR then prveMBError2Exception eRegStatus else MB_EX_NONE))"

definition eMBMasterFuncWriteHoldingRegister :: "master_call \<Rightarrow> master_regs \<Rightarrow> master_result" where
  "eMBMasterFuncWriteHoldingRegister c r =
    (if us_len c = 1 + 4 then do {
       usRegAddress \<leftarrow> frame_u16 (frame c) 1;
       map_option reg_status (eMBMasterRegHoldingCB r (dest_address c) (frame c) 3 (usRegAddress + 1) 1) }
     else Some (r, MB_EX_ILLEGAL_DATA_VALUE))"

definition eMBMasterFuncWriteMultipleHoldingRegister :: "master_call \<Rightarrow> master_regs \<Rightarrow> master_result" where
  "eMBMasterFuncWriteMultipleHoldingRegister c r =
    (if us_len c = 1 + 4 \<or> is_broadcast c then do {
       usRegAddress \<leftarrow> frame_u16 (snd_pdu c) 1;
       usRegCount \<leftarrow> frame_u16 (snd_pdu c) 3;
       ucRegByteCount \<leftarrow> buf_get (snd_pdu c) 5;
       if unat ucRegByteCount = 2 * unat usRegCount
       then map_option reg_status
         (eMBMasterRegHoldingCB r (dest_address c) (snd_pdu c) 6 (usRegAddress + 1) usRegCount)
       else Some (r, MB_EX_ILLEGAL_DATA_VALUE) }
     else Some (r, MB_EX_ILLEGAL_DATA_VALUE))"

definition eMBMasterFuncReadHoldingRegister :: "master_call \<Rightarrow> master_regs \<Rightarrow> master_result" where
  "eMBMasterFuncReadHoldingRegister c r =
    (if is_broadcast c then Some (r, MB_EX_NONE)
     else if us_len c \<ge> 1 + 1 then do {
       usRegAddress \<leftarrow> frame_u16 (snd_pdu c) 1;
       usRegCount \<leftarrow> frame_u16 (snd_pdu c) 3;
       bytes \<leftarrow> buf_get (frame c) 1;
       if usRegCount \<ge> 1 \<and> 2 * unat usRegCount = unat bytes
       then map_option reg_status
         (eMBMasterRegHoldingCB r (dest_address c) (frame c) 2 (usRegAddress + 1) usRegCount)
       else Some (r, MB_EX_ILLEGAL_DATA_VALUE) }
     else Some (r, MB_EX_ILLEGAL_DATA_VALUE))"

text \<open>A response too short for this handler counts as a success.\<close>

definition eMBMasterFuncReadWriteMultipleHoldingRegister :: "master_call \<Rightarrow> master_regs \<Rightarrow> master_result" where
  "eMBMasterFuncReadWriteMultipleHoldingRegister c r =
    (if is_broadcast c then Some (r, MB_EX_NONE)
     else if us_len c \<ge> 1 + 1 then do {
       usRegReadAddress \<leftarrow> frame_u16 (snd_pdu c) 1;
       usRegReadCount \<leftarrow> frame_u16 (snd_pdu c) 3;
       usRegWriteAddress \<leftarrow> frame_u16 (snd_pdu c) 5;
       usRegWriteCount \<leftarrow> frame_u16 (snd_pdu c) 7;
       bytes \<leftarrow> buf_get (frame c) 1;
       if 2 * unat usRegReadCount = unat bytes
       then do {
         (r', eRegStatus) \<leftarrow> eMBMasterRegHoldingCB r (dest_address c) (snd_pdu c) 10
           (usRegWriteAddress + 1) usRegWriteCount;
         if eRegStatus = MB_ENOERR
         then map_option reg_status
           (eMBMasterRegHoldingCB r' (dest_address c) (frame c) 2 (usRegReadAddress + 1) usRegReadCount)
         else Some (reg_status (r', eRegStatus)) }
       else Some (r, MB_EX_ILLEGAL_DATA_VALUE) }
     else Some (r, MB_EX_NONE))"

definition eMBMasterFuncReadInputRegister :: "master_call \<Rightarrow> master_regs \<Rightarrow> master_result" where
  "eMBMasterFuncReadInputRegister c r =
    (if is_broadcast c then Some (r, MB_EX_NONE)
     else if us_len c \<ge> 1 + 1 then do {
       usRegAddress \<leftarrow> frame_u16 (snd_pdu c) 1;
       usRegCount \<leftarrow> frame_u16 (snd_pdu c) 3;
       bytes \<leftarrow> buf_get (frame c) 1;
       if usRegCount \<ge> 1 \<and> 2 * unat usRegCount = unat bytes
       then map_option reg_status
         (eMBMasterRegInputCB r (dest_address c) (frame c) 2 (usRegAddress + 1) usRegCount)
       else Some (r, MB_EX_ILLEGAL_DATA_VALUE) }
     else Some (r, MB_EX_ILLEGAL_DATA_VALUE))"

definition eMBMasterFuncReadCoils :: "master_call \<Rightarrow> master_regs \<Rightarrow> master_result" where
  "eMBMasterFuncReadCoils c r =
    (if is_broadcast c then Some (r, MB_EX_NONE)
     else if us_len c \<ge> 1 + 1 then do {
       usRegAddress \<leftarrow> frame_u16 (snd_pdu c) 1;
       usCoilCount \<leftarrow> frame_u16 (snd_pdu c) 3;
       bytes \<leftarrow> buf_get (frame c) 1;
       if usCoilCount \<ge> 1 \<and> bit_bytes usCoilCount = bytes
       then map_option reg_status
         (eMBMasterRegCoilsCB r (dest_address c) (frame c) 2 (usRegAddress + 1) usCoilCount)
       else Some (r, MB_EX_ILLEGAL_DATA_VALUE) }
     else Some (r, MB_EX_ILLEGAL_DATA_VALUE))"

definition eMBMasterFuncWriteCoil :: "master_call \<Rightarrow> master_regs \<Rightarrow> master_result" where
  "eMBMasterFuncWriteCoil c r =
    (if us_len c = 4 + 1 then do {
       usRegAddress \<leftarrow> frame_u16 (frame c) 1;
       hi \<leftarrow> buf_get (frame c) 3;
       lo \<leftarrow> buf_get (frame c) 4;
       if lo = 0x00 \<and> (hi = 0xFF \<or> hi = 0x00)
       then map_option reg_status
         (eMBMasterRegCoilsCB r (dest_address c) [if hi = 0xFF then 1 else 0, 0] 0 (usRegAddress + 1) 1)
       else Some (r, MB_EX_ILLEGAL_DATA_VALUE) }
     else Some (r, MB_EX_ILLEGAL_DATA_VALUE))"

definition eMBMasterFuncWriteMultipleCoils :: "master_call \<Rightarrow> master_regs \<Rightarrow> master_result" where
  "eMBMasterFuncWriteMultipleCoils c r =
    (if us_len c = 5 \<or> is_broadcast c then do {
       usRegAddress \<leftarrow> frame_u16 (frame c) 1;
       usCoilCnt \<leftarrow> frame_u16 (frame c) 3;
       ucByteCount \<leftarrow> buf_get (snd_pdu c) 5;
       let ucByteCountVerify = bit_bytes usCoilCnt;
       if usCoilCnt \<ge> 1 \<and> ucByteCountVerify = ucByteCount
       then map_option reg_status
         (eMBMasterRegCoilsCB r (dest_address c) (snd_pdu c) 6 (usRegAddress + 1) usCoilCnt)
       else Some (r, MB_EX_ILLEGAL_DATA_VALUE) }
     else Some (r, MB_EX_ILLEGAL_DATA_VALUE))"

definition eMBMasterFuncReadDiscreteInputs :: "master_call \<Rightarrow> master_regs \<Rightarrow> master_result" where
  "eMBMasterFuncReadDiscreteInputs c r =
    (if is_broadcast c then Some (r, MB_EX_NONE)
     else if us_len c \<ge> 1 + 1 then do {
       usRegAddress \<leftarrow> frame_u16 (snd_pdu c) 1;
       usDiscreteCnt \<leftarrow> frame_u16 (snd_pdu c) 3;
       bytes \<leftarrow> buf_get (frame c) 1;
       if usDiscreteCnt \<ge> 1 \<and> bit_bytes usDiscreteCnt = bytes
       then map_option reg_status
         (eMBMasterRegDiscreteCB r (dest_address c) (frame c) 2 (usRegAddress + 1) usDiscreteCnt)
       else Some (r, MB_EX_ILLEGAL_DATA_VALUE) }
     else Some (r, MB_EX_ILLEGAL_DATA_VALUE))"

text \<open>The pointers of \<open>xMasterFuncHandlers\<close>, by the names of the slave's.\<close>

fun call_master_handler :: "mb_handler \<Rightarrow> master_call \<Rightarrow> master_regs \<Rightarrow> master_result" where
  "call_master_handler ReadInputRegister = eMBMasterFuncReadInputRegister"
| "call_master_handler ReadHoldingRegister = eMBMasterFuncReadHoldingRegister"
| "call_master_handler WriteMultipleHoldingRegister = eMBMasterFuncWriteMultipleHoldingRegister"
| "call_master_handler WriteHoldingRegister = eMBMasterFuncWriteHoldingRegister"
| "call_master_handler ReadWriteMultipleHoldingRegister = eMBMasterFuncReadWriteMultipleHoldingRegister"
| "call_master_handler ReadCoils = eMBMasterFuncReadCoils"
| "call_master_handler WriteCoil = eMBMasterFuncWriteCoil"
| "call_master_handler WriteMultipleCoils = eMBMasterFuncWriteMultipleCoils"
| "call_master_handler ReadDiscreteInputs = eMBMasterFuncReadDiscreteInputs"

section \<open>No handler leaves its buffers\<close>

text \<open>Bit blocks must stay clear of the last byte of the slave's row.\<close>

fun master_clear :: "mb_handler \<Rightarrow> master_call \<Rightarrow> bool" where
  "master_clear ReadCoils c \<longleftrightarrow> (let a = req_addr (snd_pdu c); n = req_count (snd_pdu c) in
     unat a + unat n \<le> 64 \<longrightarrow> block_clear a n 8)"
| "master_clear ReadDiscreteInputs c \<longleftrightarrow> (let a = req_addr (snd_pdu c); n = req_count (snd_pdu c) in
     unat a + unat n \<le> 16 \<longrightarrow> block_clear a n 2)"
| "master_clear WriteMultipleCoils c \<longleftrightarrow> (let a = req_addr (frame c); n = req_count (frame c) in
     unat a + unat n \<le> 64 \<longrightarrow> block_clear a n 8)"
| "master_clear WriteCoil c \<longleftrightarrow> (unat (req_addr (frame c)) + 1 \<le> 64 \<longrightarrow> block_clear (req_addr (frame c)) 1 8)"
| "master_clear _ c \<longleftrightarrow> True"

definition master_call_ok :: "master_call \<Rightarrow> bool" where
  "master_call_ok c \<longleftrightarrow> length (snd_pdu c) = 252 \<and> 252 \<le> length (frame c) \<and> dest_ok (dest_address c)"

definition stored :: "('a \<Rightarrow> bool) \<Rightarrow> ('a \<times> 'e) option \<Rightarrow> bool" where
  "stored P res \<longleftrightarrow> (\<exists>r e. res = Some (r, e) \<and> P r)"

lemma stored_status [simp]: "stored P (Some (reg_status x)) \<longleftrightarrow> P (fst x)"
  by (auto simp: stored_def reg_status_def split: prod.splits)

lemma stored_simps [simp]: "stored P (Some (r, e)) \<longleftrightarrow> P r" "stored P None \<longleftrightarrow> False"
  "stored P (map_option reg_status res) \<longleftrightarrow> stored P res"
  by (auto simp: stored_def reg_status_def)

lemma holding_stored:
  assumes "master_regs_wf r" "dest_ok dest" "p + 100 \<le> length buf \<or> n = 1 \<and> p + 2 \<le> length buf"
  shows "stored master_regs_wf (eMBMasterRegHoldingCB r dest buf p (a + 1) n)"
proof -
  have b: "unat a + unat n \<le> 50 \<Longrightarrow> p + 2 * unat n \<le> length buf" using assms(3) by auto
  show ?thesis
    using master_words_wf(1) [OF assms(1,2), of "unat a"] assms(1) b
    by (auto simp: eMBMasterRegHoldingCB_eq [OF assms(1,2) b])
qed

lemma input_stored:
  assumes "master_regs_wf r" "dest_ok dest" "p + 100 \<le> length buf"
  shows "stored master_regs_wf (eMBMasterRegInputCB r dest buf p (a + 1) n)"
proof -
  have b: "unat a + unat n \<le> 10 \<Longrightarrow> p + 2 * unat n \<le> length buf" using assms(3) by simp
  show ?thesis
    using master_words_wf(2) [OF assms(1,2), of "unat a"] assms(1) b
    by (auto simp: eMBMasterRegInputCB_eq [OF assms(1,2) b])
qed

lemma bits_stored:
  assumes "master_regs_wf r" "dest_ok dest"
  shows "(unat a + unat n \<le> 64 \<Longrightarrow> block_clear a n 8) \<Longrightarrow> p + 9 \<le> length buf \<or> n = 1 \<and> p + 1 \<le> length buf \<Longrightarrow>
      stored master_regs_wf (eMBMasterRegCoilsCB r dest buf p (a + 1) n)"
    "(unat a + unat n \<le> 16 \<Longrightarrow> block_clear a n 2) \<Longrightarrow> p + 9 \<le> length buf \<Longrightarrow>
      stored master_regs_wf (eMBMasterRegDiscreteCB r dest buf p (a + 1) n)"
proof -
  have d: "unat n \<le> 64 \<Longrightarrow> unat n div 8 \<le> 8" using div_le_mono [of "unat n" 64 8] by simp
  have 1: "unat (1 :: u16) div 8 = 0" by simp
  show "stored master_regs_wf (eMBMasterRegCoilsCB r dest buf p (a + 1) n)"
    if "unat a + unat n \<le> 64 \<Longrightarrow> block_clear a n 8" "p + 9 \<le> length buf \<or> n = 1 \<and> p + 1 \<le> length buf"
    unfolding stored_def by (rule eMBMasterRegCoilsCB_ok [OF assms that(1)]) (use that(2) d 1 in auto)
  show "stored master_regs_wf (eMBMasterRegDiscreteCB r dest buf p (a + 1) n)"
    if "unat a + unat n \<le> 16 \<Longrightarrow> block_clear a n 2" "p + 9 \<le> length buf"
    unfolding stored_def by (rule eMBMasterRegDiscreteCB_ok [OF assms that(1)]) (use that(2) d in auto)
qed

lemma word_handlers_stored:
  assumes "master_regs_wf r" "master_call_ok c"
  shows "stored master_regs_wf (eMBMasterFuncWriteHoldingRegister c r)"
    "stored master_regs_wf (eMBMasterFuncWriteMultipleHoldingRegister c r)"
    "stored master_regs_wf (eMBMasterFuncReadHoldingRegister c r)"
    "stored master_regs_wf (eMBMasterFuncReadInputRegister c r)"
    "stored master_regs_wf (eMBMasterFuncReadWriteMultipleHoldingRegister c r)"
proof -
  note h = holding_stored [OF _ assms(2) [unfolded master_call_ok_def, THEN conjunct2, THEN conjunct2]]
  note i = input_stored [OF _ assms(2) [unfolded master_call_ok_def, THEN conjunct2, THEN conjunct2]]
  have c: "length (snd_pdu c) = 252" "252 \<le> length (frame c)" using assms(2) by (auto simp: master_call_ok_def)
  show "stored master_regs_wf (eMBMasterFuncWriteHoldingRegister c r)"
    "stored master_regs_wf (eMBMasterFuncWriteMultipleHoldingRegister c r)"
    "stored master_regs_wf (eMBMasterFuncReadHoldingRegister c r)"
    "stored master_regs_wf (eMBMasterFuncReadInputRegister c r)"
    using assms(1) c h i
    by (simp_all add: eMBMasterFuncWriteHoldingRegister_def eMBMasterFuncWriteMultipleHoldingRegister_def
        eMBMasterFuncReadHoldingRegister_def eMBMasterFuncReadInputRegister_def)
  have f: "frame_u16 (snd_pdu c) 5 = Some x \<or> True" "i + 1 < 252 \<Longrightarrow> frame_u16 (snd_pdu c) i =
      Some (be16 (snd_pdu c ! i) (snd_pdu c ! Suc i))" for x i
    using c by (simp_all add: frame_u16_eq)
  show "stored master_regs_wf (eMBMasterFuncReadWriteMultipleHoldingRegister c r)"
  proof -
    define w where "w = eMBMasterRegHoldingCB r (dest_address c) (snd_pdu c) 10
      (be16 (snd_pdu c ! 5) (snd_pdu c ! 6) + 1) (be16 (snd_pdu c ! 7) (snd_pdu c ! 8))"
    have "stored master_regs_wf w" unfolding w_def by (rule h) (use assms(1) c in auto)
    then obtain r1 e1 where w: "w = Some (r1, e1)" "master_regs_wf r1" by (auto simp: stored_def)
    then show ?thesis
      using assms(1) c h [OF w(2)] f(2) [of 5] f(2) [of 7]
      by (simp add: eMBMasterFuncReadWriteMultipleHoldingRegister_def w_def)
  qed
qed

lemma bit_handlers_stored:
  assumes "master_regs_wf r" "master_call_ok c"
  shows "master_clear ReadCoils c \<Longrightarrow> stored master_regs_wf (eMBMasterFuncReadCoils c r)"
    "master_clear WriteCoil c \<Longrightarrow> stored master_regs_wf (eMBMasterFuncWriteCoil c r)"
    "master_clear WriteMultipleCoils c \<Longrightarrow> stored master_regs_wf (eMBMasterFuncWriteMultipleCoils c r)"
    "master_clear ReadDiscreteInputs c \<Longrightarrow> stored master_regs_wf (eMBMasterFuncReadDiscreteInputs c r)"
proof -
  note b = bits_stored [OF _ assms(2) [unfolded master_call_ok_def, THEN conjunct2, THEN conjunct2]]
  have c: "length (snd_pdu c) = 252" "252 \<le> length (frame c)" using assms(2) by (auto simp: master_call_ok_def)
  have n: "buf_get (frame c) i = Some (frame c ! i)" "buf_get (snd_pdu c) i = Some (snd_pdu c ! i)" if "i < 252" for i
    using that c by simp_all
  show "stored master_regs_wf (eMBMasterFuncReadCoils c r)" if "master_clear ReadCoils c"
    using that assms(1) c b(1) by (simp add: eMBMasterFuncReadCoils_def Let_def)
  show "stored master_regs_wf (eMBMasterFuncWriteMultipleCoils c r)" if "master_clear WriteMultipleCoils c"
    using that assms(1) c b(1) by (simp add: eMBMasterFuncWriteMultipleCoils_def Let_def)
  show "stored master_regs_wf (eMBMasterFuncWriteCoil c r)" if "master_clear WriteCoil c"
  proof -
    have "stored master_regs_wf (eMBMasterRegCoilsCB r (dest_address c) [x, 0] 0 (req_addr (frame c) + 1) 1)" for x
      by (rule b(1)) (use that assms(1) in auto)
    then show ?thesis using assms(1) c by (simp add: eMBMasterFuncWriteCoil_def)
  qed
  show "stored master_regs_wf (eMBMasterFuncReadDiscreteInputs c r)" if "master_clear ReadDiscreteInputs c"
    using that assms(1) c b(2) by (simp add: eMBMasterFuncReadDiscreteInputs_def Let_def)
qed

lemma call_master_handler_stored:
  assumes "master_regs_wf r" "master_call_ok c" "master_clear h c"
  shows "stored master_regs_wf (call_master_handler h c r)"
  using assms(3) word_handlers_stored [OF assms(1,2)] bit_handlers_stored [OF assms(1,2)]
  by (cases h) (simp_all only: call_master_handler.simps)

end
