(* ===== verification/Mb_Master_Rtu.thy ===== *)
theory Mb_Master_Rtu
  imports Mb_Line Mb_Master_Func
begin

text \<open>
  The RTU layer of the Modbus master, \<open>modbus/rtu/mbrtu_m.c\<close>, with its port, \<open>port/rtt/portevent_m.c\<close>,
  \<open>portserial_m.c\<close> and \<open>porttimer_m.c\<close>: the receive and transmit state machines, the one timer with
  its three modes, and the transmit and receive buffers. The state is one record for the whole
  master, the statics of \<open>mb_m.c\<close> and the slaves' registers included.
\<close>

section \<open>State\<close>

datatype eMBMasterRcvState = STATE_M_RX_INIT | STATE_M_RX_IDLE | STATE_M_RX_RCV | STATE_M_RX_ERROR

datatype eMBMasterSndState = STATE_M_TX_IDLE | STATE_M_TX_XMIT | STATE_M_TX_XFWR

datatype eMBMasterTimerMode = MB_TMODE_T35 | MB_TMODE_RESPOND_TIMEOUT | MB_TMODE_CONVERT_DELAY

datatype eMBMasterErrorEventType = EV_ERROR_RESPOND_TIMEOUT | EV_ERROR_RECEIVE_DATA | EV_ERROR_EXECUTE_FUNCTION

datatype eMBMasterReqErrCode = MB_MRE_NO_ERR | MB_MRE_NO_REG | MB_MRE_ILL_ARG | MB_MRE_REV_DATA
  | MB_MRE_TIMEDOUT | MB_MRE_MASTER_BUSY | MB_MRE_EXE_FUN

text \<open>
  \<open>pucMasterSndBufferCur\<close> points into \<open>ucMasterRTUSndBuf\<close> or, for a raw message, into the
  application's \<open>rs485_send_buf_not_modbus\<close>; \<open>ucMBFrame\<close> of \<open>eMBMasterPoll\<close> is a null pointer or the
  PDU part of the transmit or of the receive buffer.
\<close>

datatype snd_ptr = In_Snd_Buf nat | In_Raw_Buf nat

datatype frame_ptr = Snd_PDU | Rcv_PDU

text \<open>
  Of the port: \<open>rx_direction\<close> is the line driver's pin, \<open>trans_start\<close> the flag that lets the transmit
  thread run, \<open>line_out\<close> the bytes put on the line so far, \<open>m_timer_on\<close> and \<open>m_timer_ticks\<close> the one-shot
  timer. \<open>waiting\<close> is the requesting thread: free, or between a request or a raw message and its result;
  \<open>replies\<close> is what its requests returned. \<open>second_waits\<close> and \<open>second_replies\<close> are the same for the thread of the DC motor.
\<close>

datatype requester = Free | Waits_Reply | Waits_Raw_Reply

record mb_master =
  m_eSndState :: eMBMasterSndState
  m_eRcvState :: eMBMasterRcvState
  ucMasterRTUSndBuf :: "u8 list"
  ucMasterRTURcvBuf :: "u8 list"
  usMasterSendPDULength :: u16
  pucMasterSndBufferCur :: snd_ptr
  usMasterSndBufferCount :: u16
  usMasterRcvBufferPos :: u16
  xFrameIsBroadcast :: bool
  eMasterCurTimerMode :: eMBMasterTimerMode
  rx_direction :: bool
  trans_start :: bool
  line_out :: "u8 list"
  m_timer_on :: bool
  m_timer_ticks :: nat
  usT35TimeOut50us :: u16
  xMasterOsEvent :: u32
  xMasterRunRes :: u16
  ucMBMasterDestAddress :: u8
  xMBRunInMasterMode :: bool
  eMBMasterCurErrorType :: eMBMasterErrorEventType
  m_eMBState :: mb_state
  m_ucMBFrame :: "frame_ptr option"
  m_ucRcvAddress :: u8
  m_usLength :: u16
  mb_switch_flag :: u8
  mb_not_rtu_data_len :: u8
  rs485_send_buf_not_modbus :: "u8 list"
  m_regs :: master_regs
  waiting :: requester
  replies :: "eMBMasterReqErrCode list"
  second_waits :: bool
  second_replies :: "eMBMasterReqErrCode list"

definition MB_PDU_SIZE_MAX :: nat where "MB_PDU_SIZE_MAX = 253"
definition M_SER_PDU_SIZE_MIN :: u16 where "M_SER_PDU_SIZE_MIN = 4"
definition M_SER_PDU_SIZE_MAX :: u16 where "M_SER_PDU_SIZE_MAX = 256"

definition EV_MASTER_READY :: u32 where "EV_MASTER_READY = 1"
definition EV_MASTER_FRAME_RECEIVED :: u32 where "EV_MASTER_FRAME_RECEIVED = 2"
definition EV_MASTER_EXECUTE :: u32 where "EV_MASTER_EXECUTE = 4"
definition EV_MASTER_FRAME_SENT :: u32 where "EV_MASTER_FRAME_SENT = 8"
definition EV_MASTER_ERROR_PROCESS :: u32 where "EV_MASTER_ERROR_PROCESS = 16"
definition EV_MASTER_PROCESS_SUCESS :: u32 where "EV_MASTER_PROCESS_SUCESS = 32"
definition EV_MASTER_ERROR_RESPOND_TIMEOUT :: u32 where "EV_MASTER_ERROR_RESPOND_TIMEOUT = 64"
definition EV_MASTER_ERROR_RECEIVE_DATA :: u32 where "EV_MASTER_ERROR_RECEIVE_DATA = 128"
definition EV_MASTER_ERROR_EXECUTE_FUNCTION :: u32 where "EV_MASTER_ERROR_EXECUTE_FUNCTION = 256"

lemmas master_events = EV_MASTER_READY_def EV_MASTER_FRAME_RECEIVED_def EV_MASTER_EXECUTE_def
  EV_MASTER_FRAME_SENT_def EV_MASTER_ERROR_PROCESS_def EV_MASTER_PROCESS_SUCESS_def
  EV_MASTER_ERROR_RESPOND_TIMEOUT_def EV_MASTER_ERROR_RECEIVE_DATA_def EV_MASTER_ERROR_EXECUTE_FUNCTION_def

section \<open>Port\<close>

definition xMBMasterPortEventPost :: "u32 \<Rightarrow> mb_master \<Rightarrow> mb_master" where
  "xMBMasterPortEventPost eEvent s = s\<lparr> xMasterOsEvent := event_flags_send (xMasterOsEvent s) eEvent \<rparr>"

text \<open>The receive interrupt is never disabled; only the line driver's direction changes.\<close>

definition vMBMasterPortSerialEnable :: "bool \<Rightarrow> bool \<Rightarrow> mb_master \<Rightarrow> mb_master" where
  "vMBMasterPortSerialEnable xRxEnable xTxEnable s = s\<lparr> rx_direction := xRxEnable, trans_start := xTxEnable \<rparr>"

definition xMBMasterPortSerialPutByte :: "u8 \<Rightarrow> mb_master \<Rightarrow> mb_master" where
  "xMBMasterPortSerialPutByte b s = s\<lparr> line_out := line_out s @ [b] \<rparr>"

definition xMBMasterPortTimersInit :: "u16 \<Rightarrow> mb_master \<Rightarrow> mb_master" where
  "xMBMasterPortTimersInit usTimeOut50us s =
    s\<lparr> usT35TimeOut50us := usTimeOut50us, m_timer_ticks := t35_ticks usTimeOut50us, m_timer_on := False \<rparr>"

definition vMBMasterPortTimersT35Enable :: "mb_master \<Rightarrow> mb_master" where
  "vMBMasterPortTimersT35Enable s =
    s\<lparr> eMasterCurTimerMode := MB_TMODE_T35, m_timer_ticks := t35_ticks (usT35TimeOut50us s), m_timer_on := True \<rparr>"

definition vMBMasterPortTimersConvertDelayEnable :: "mb_master \<Rightarrow> mb_master" where
  "vMBMasterPortTimersConvertDelayEnable s =
    s\<lparr> eMasterCurTimerMode := MB_TMODE_CONVERT_DELAY, m_timer_ticks := 200 * 10000 div 1000, m_timer_on := True \<rparr>"

definition vMBMasterPortTimersRespondTimeoutEnable :: "mb_master \<Rightarrow> mb_master" where
  "vMBMasterPortTimersRespondTimeoutEnable s =
    s\<lparr> eMasterCurTimerMode := MB_TMODE_RESPOND_TIMEOUT, m_timer_ticks := 200 * 10000 div 1000, m_timer_on := True \<rparr>"

definition vMBMasterPortTimersDisable :: "mb_master \<Rightarrow> mb_master" where
  "vMBMasterPortTimersDisable s = s\<lparr> m_timer_on := False \<rparr>"

lemmas master_port = xMBMasterPortEventPost_def vMBMasterPortSerialEnable_def xMBMasterPortSerialPutByte_def
  vMBMasterPortTimersT35Enable_def vMBMasterPortTimersConvertDelayEnable_def
  vMBMasterPortTimersRespondTimeoutEnable_def vMBMasterPortTimersDisable_def event_flags_send_def

section \<open>Operations\<close>

text \<open>The outcome of \<open>xMBMasterPortSerialInit\<close>, which opens the device, is the argument \<open>serial_ok\<close>.\<close>

definition eMBMasterRTUInit :: "bool \<Rightarrow> u32 \<Rightarrow> mb_master \<Rightarrow> (mb_master \<times> eMBErrorCode) option" where
  "eMBMasterRTUInit serial_ok ulBaudRate s =
    (if \<not> serial_ok then Some (s, MB_EPORTERR)
     else do {
       usTimerT35_50us \<leftarrow> t35_50us ulBaudRate;
       Some (xMBMasterPortTimersInit usTimerT35_50us s, MB_ENOERR) })"

definition eMBMasterRTUStart :: "mb_master \<Rightarrow> mb_master" where
  "eMBMasterRTUStart s =
    vMBMasterPortTimersT35Enable (vMBMasterPortSerialEnable True False (s\<lparr> m_eRcvState := STATE_M_RX_INIT \<rparr>))"

definition eMBMasterRTUStop :: "mb_master \<Rightarrow> mb_master" where
  "eMBMasterRTUStop s = vMBMasterPortTimersDisable (vMBMasterPortSerialEnable False False s)"

text \<open>The error code, or the address, the frame pointer and the length of the PDU.\<close>

definition eMBMasterRTUReceive :: "mb_master \<Rightarrow> (eMBErrorCode + u8 \<times> frame_ptr \<times> u16) option" where
  "eMBMasterRTUReceive s = do {
     _ \<leftarrow> assert_param (usMasterRcvBufferPos s < M_SER_PDU_SIZE_MAX);
     if usMasterRcvBufferPos s \<ge> M_SER_PDU_SIZE_MIN
     then do {
       crc \<leftarrow> usMBCRC16 (ucMasterRTURcvBuf s) (usMasterRcvBufferPos s);
       if crc = 0
       then do {
         addr \<leftarrow> buf_get (ucMasterRTURcvBuf s) 0;
         Some (Inr (addr, Rcv_PDU, usMasterRcvBufferPos s - 1 - 2)) }
       else Some (Inl MB_EIO) }
     else Some (Inl MB_EIO) }"

definition eMBMaster_Send_not_datas :: "u16 \<Rightarrow> mb_master \<Rightarrow> mb_master \<times> eMBErrorCode" where
  "eMBMaster_Send_not_datas len s =
    (if m_eRcvState s = STATE_M_RX_IDLE
     then (vMBMasterPortSerialEnable False True
       (s\<lparr> pucMasterSndBufferCur := In_Raw_Buf 0, usMasterSndBufferCount := len, m_eSndState := STATE_M_TX_XMIT \<rparr>),
       MB_ENOERR)
     else (s, MB_EIO))"

text \<open>\<open>pucFrame\<close> is an offset into \<open>ucMasterRTUSndBuf\<close>.\<close>

definition eMBMasterRTUSend :: "u8 \<Rightarrow> nat \<Rightarrow> u16 \<Rightarrow> mb_master \<Rightarrow> (mb_master \<times> eMBErrorCode) option" where
  "eMBMasterRTUSend ucSlaveAddress pucFrame len s =
    (if mb_switch_flag s \<noteq> 0 then Some (eMBMaster_Send_not_datas (ucast (mb_not_rtu_data_len s)) s)
     else if unat ucSlaveAddress > MB_MASTER_TOTAL_SLAVE_NUM then Some (s, MB_EINVAL)
     else if m_eRcvState s = STATE_M_RX_IDLE then do {
       let cur = pucFrame - 1;
       buf \<leftarrow> buf_set (ucMasterRTUSndBuf s) cur ucSlaveAddress;
       let count = 1 + len;
       usCRC16 \<leftarrow> usMBCRC16 (drop cur buf) count;
       buf1 \<leftarrow> buf_set buf (unat count) (ucast (usCRC16 AND 0xFF));
       buf2 \<leftarrow> buf_set buf1 (unat (count + 1)) (ucast (drop_bit 8 usCRC16));
       Some (vMBMasterPortSerialEnable False True
         (s\<lparr> ucMasterRTUSndBuf := buf2, pucMasterSndBufferCur := In_Snd_Buf cur,
            usMasterSndBufferCount := count + 2, m_eSndState := STATE_M_TX_XMIT \<rparr>), MB_ENOERR) }
     else Some (s, MB_EIO))"

definition xMBMasterRTUReceiveFSM :: "mb_master \<Rightarrow> u8 \<Rightarrow> mb_master option" where
  "xMBMasterRTUReceiveFSM s ucByte = do {
     _ \<leftarrow> assert_param (m_eSndState s = STATE_M_TX_IDLE \<or> m_eSndState s = STATE_M_TX_XFWR);
     case m_eRcvState s of
       STATE_M_RX_INIT \<Rightarrow> Some (vMBMasterPortTimersT35Enable s)
     | STATE_M_RX_ERROR \<Rightarrow> Some (vMBMasterPortTimersT35Enable s)
     | STATE_M_RX_IDLE \<Rightarrow> do {
         let s1 = (vMBMasterPortTimersDisable s)\<lparr> m_eSndState := STATE_M_TX_IDLE \<rparr>;
         buf \<leftarrow> buf_set (ucMasterRTURcvBuf s1) 0 ucByte;
         Some (vMBMasterPortTimersT35Enable
           (s1\<lparr> ucMasterRTURcvBuf := buf, usMasterRcvBufferPos := 1, m_eRcvState := STATE_M_RX_RCV \<rparr>)) }
     | STATE_M_RX_RCV \<Rightarrow>
         (if usMasterRcvBufferPos s < M_SER_PDU_SIZE_MAX
          then do {
            buf \<leftarrow> buf_set (ucMasterRTURcvBuf s) (unat (usMasterRcvBufferPos s)) ucByte;
            Some (vMBMasterPortTimersT35Enable
              (s\<lparr> ucMasterRTURcvBuf := buf, usMasterRcvBufferPos := usMasterRcvBufferPos s + 1 \<rparr>)) }
          else Some (vMBMasterPortTimersT35Enable (s\<lparr> m_eRcvState := STATE_M_RX_ERROR \<rparr>))) }"

definition snd_byte :: "mb_master \<Rightarrow> u8 option" where
  "snd_byte s = (case pucMasterSndBufferCur s of
       In_Snd_Buf i \<Rightarrow> buf_get (ucMasterRTUSndBuf s) i
     | In_Raw_Buf i \<Rightarrow> buf_get (rs485_send_buf_not_modbus s) i)"

fun snd_skip :: "nat \<Rightarrow> snd_ptr \<Rightarrow> snd_ptr" where
  "snd_skip n (In_Snd_Buf i) = In_Snd_Buf (i + n)"
| "snd_skip n (In_Raw_Buf i) = In_Raw_Buf (i + n)"

definition xMBMasterRTUTransmitFSM :: "mb_master \<Rightarrow> mb_master option" where
  "xMBMasterRTUTransmitFSM s = do {
     _ \<leftarrow> assert_param (m_eRcvState s = STATE_M_RX_IDLE);
     case m_eSndState s of
       STATE_M_TX_IDLE \<Rightarrow> Some (vMBMasterPortSerialEnable True False s)
     | STATE_M_TX_XMIT \<Rightarrow>
         (if usMasterSndBufferCount s \<noteq> 0
          then do {
            b \<leftarrow> snd_byte s;
            Some ((xMBMasterPortSerialPutByte b s)\<lparr> pucMasterSndBufferCur := snd_skip 1 (pucMasterSndBufferCur s),
              usMasterSndBufferCount := usMasterSndBufferCount s - 1 \<rparr>) }
          else do {
            a \<leftarrow> buf_get (ucMasterRTUSndBuf s) 0;
            let s1 = (vMBMasterPortSerialEnable True False (s\<lparr> xFrameIsBroadcast := (a = 0) \<rparr>))
              \<lparr> m_eSndState := STATE_M_TX_XFWR \<rparr>;
            Some (if xFrameIsBroadcast s1 then vMBMasterPortTimersConvertDelayEnable s1
              else vMBMasterPortTimersRespondTimeoutEnable s1) })
     | STATE_M_TX_XFWR \<Rightarrow> Some s }"

definition xMBMasterRTUTimerExpired :: "mb_master \<Rightarrow> mb_master option" where
  "xMBMasterRTUTimerExpired s = do {
     let s1 = (case m_eRcvState s of
         STATE_M_RX_INIT \<Rightarrow> xMBMasterPortEventPost EV_MASTER_READY s
       | STATE_M_RX_RCV \<Rightarrow> xMBMasterPortEventPost EV_MASTER_FRAME_RECEIVED s
       | STATE_M_RX_ERROR \<Rightarrow> xMBMasterPortEventPost EV_MASTER_ERROR_PROCESS
           (s\<lparr> eMBMasterCurErrorType := EV_ERROR_RECEIVE_DATA \<rparr>)
       | STATE_M_RX_IDLE \<Rightarrow> s);
     let s2 = s1\<lparr> m_eRcvState := STATE_M_RX_IDLE \<rparr>;
     s3 \<leftarrow> (if m_eSndState s2 = STATE_M_TX_XFWR
        then Some (if \<not> xFrameIsBroadcast s2
          then xMBMasterPortEventPost EV_MASTER_ERROR_PROCESS
            (s2\<lparr> eMBMasterCurErrorType := EV_ERROR_RESPOND_TIMEOUT \<rparr>)
          else s2)
        else do {
          _ \<leftarrow> assert_param (m_eSndState s2 = STATE_M_TX_XFWR \<or> m_eSndState s2 = STATE_M_TX_IDLE);
          Some s2 });
     let s4 = vMBMasterPortTimersDisable (s3\<lparr> m_eSndState := STATE_M_TX_IDLE \<rparr>);
     Some (if eMasterCurTimerMode s4 = MB_TMODE_CONVERT_DELAY
       then xMBMasterPortEventPost EV_MASTER_EXECUTE s4 else s4) }"

section \<open>Whole frames\<close>

definition m_rx_ready :: "mb_master \<Rightarrow> bool" where
  "m_rx_ready s \<longleftrightarrow> m_eRcvState s = STATE_M_RX_IDLE \<and> m_eSndState s \<noteq> STATE_M_TX_XMIT \<and>
     length (ucMasterRTURcvBuf s) = 256"

definition m_rx_got :: "mb_master \<Rightarrow> u8 list \<Rightarrow> mb_master" where
  "m_rx_got s bs = s\<lparr> m_eSndState := STATE_M_TX_IDLE, m_eRcvState := STATE_M_RX_RCV,
     ucMasterRTURcvBuf := bs @ drop (length bs) (ucMasterRTURcvBuf s),
     usMasterRcvBufferPos := word_of_nat (length bs), eMasterCurTimerMode := MB_TMODE_T35,
     m_timer_on := True, m_timer_ticks := t35_ticks (usT35TimeOut50us s) \<rparr>"

interpretation master_rx: byte_receiver xMBMasterRTUReceiveFSM m_rx_ready m_rx_got 256
proof
  fix s b assume s: "m_rx_ready s"
  then show "xMBMasterRTUReceiveFSM s b = Some (m_rx_got s [b])"
    by (cases "ucMasterRTURcvBuf s"; cases "m_eSndState s")
       (auto simp: xMBMasterRTUReceiveFSM_def m_rx_ready_def m_rx_got_def master_port buf_set_def)
  fix bs :: "u8 list" assume bs: "bs \<noteq> []" "length bs < 256"
  have u: "unat (word_of_nat (length bs) :: u16) = length bs"
    by (rule unat_small_u16) (use bs(2) in simp)
  have lt: "(word_of_nat (length bs) :: u16) < 256" using bs(2) u by (simp add: word_less_nat_alt)
  have d: "drop (length bs) (ucMasterRTURcvBuf s) =
      ucMasterRTURcvBuf s ! length bs # drop (Suc (length bs)) (ucMasterRTURcvBuf s)"
    using s bs(2) by (simp add: m_rx_ready_def Cons_nth_drop_Suc)
  have "buf_set (bs @ drop (length bs) (ucMasterRTURcvBuf s)) (length bs) b =
      Some ((bs @ [b]) @ drop (Suc (length bs)) (ucMasterRTURcvBuf s))"
    using s bs(2) by (simp add: buf_set_def m_rx_ready_def d)
  with s bs lt u show "xMBMasterRTUReceiveFSM (m_rx_got s bs) b = Some (m_rx_got s (bs @ [b]))"
    by (simp add: xMBMasterRTUReceiveFSM_def m_rx_ready_def m_rx_got_def master_port M_SER_PDU_SIZE_MAX_def
        add.commute)
qed

definition snd_source :: "mb_master \<Rightarrow> u8 list" where
  "snd_source s = (case pucMasterSndBufferCur s of
       In_Snd_Buf i \<Rightarrow> drop i (ucMasterRTUSndBuf s)
     | In_Raw_Buf i \<Rightarrow> drop i (rs485_send_buf_not_modbus s))"

definition m_tx_sending :: "mb_master \<Rightarrow> u8 list \<Rightarrow> bool" where
  "m_tx_sending s bs \<longleftrightarrow> m_eRcvState s = STATE_M_RX_IDLE \<and> m_eSndState s = STATE_M_TX_XMIT \<and>
     length bs < 65536 \<and> usMasterSndBufferCount s = word_of_nat (length bs) \<and>
     bs = take (length bs) (snd_source s) \<and> ucMasterRTUSndBuf s \<noteq> []"

definition m_tx_emitted :: "u8 list \<Rightarrow> mb_master \<Rightarrow> mb_master" where
  "m_tx_emitted bs s = s\<lparr> line_out := line_out s @ bs,
     pucMasterSndBufferCur := snd_skip (length bs) (pucMasterSndBufferCur s),
     usMasterSndBufferCount := usMasterSndBufferCount s - word_of_nat (length bs) \<rparr>"

definition m_tx_finish :: "mb_master \<Rightarrow> mb_master" where
  "m_tx_finish s = s\<lparr> xFrameIsBroadcast := (ucMasterRTUSndBuf s ! 0 = 0), rx_direction := True,
     trans_start := False, m_eSndState := STATE_M_TX_XFWR,
     eMasterCurTimerMode := (if ucMasterRTUSndBuf s ! 0 = 0 then MB_TMODE_CONVERT_DELAY else MB_TMODE_RESPOND_TIMEOUT),
     m_timer_ticks := 2000, m_timer_on := True \<rparr>"

lemma snd_byte_source: "snd_byte s = (case snd_source s of [] \<Rightarrow> None | b # _ \<Rightarrow> Some b)"
  by (auto simp: snd_byte_def snd_source_def buf_get_def hd_drop_conv_nth [symmetric]
      split: snd_ptr.splits list.splits)

lemma snd_source_emitted: "snd_source (m_tx_emitted bs s) = drop (length bs) (snd_source s)"
  by (cases "pucMasterSndBufferCur s") (simp_all add: snd_source_def m_tx_emitted_def add.commute)

interpretation master_tx: byte_sender xMBMasterRTUTransmitFSM m_tx_sending m_tx_emitted m_tx_finish
proof
  fix s b bs assume s: "m_tx_sending s (b # bs)"
  have ne: "usMasterSndBufferCount s \<noteq> 0"
  proof
    assume "usMasterSndBufferCount s = 0"
    then have "(word_of_nat (Suc (length bs)) :: u16) = 0" using s by (simp add: m_tx_sending_def)
    then have "unat (word_of_nat (Suc (length bs)) :: u16) = 0" by simp
    then show False using s unat_small_u16 [of "Suc (length bs)"] by (simp add: m_tx_sending_def)
  qed
  obtain src where src: "snd_source s = b # src" "bs = take (length bs) src"
    using s by (cases "snd_source s") (auto simp: m_tx_sending_def)
  then have "snd_byte s = Some b" by (simp add: snd_byte_source)
  then have "xMBMasterRTUTransmitFSM s = Some (m_tx_emitted [b] s)"
    using s ne by (auto simp: xMBMasterRTUTransmitFSM_def m_tx_sending_def m_tx_emitted_def master_port)
  moreover have "m_tx_sending (m_tx_emitted [b] s) bs"
    using s src snd_source_emitted [of "[b]" s] by (simp add: m_tx_sending_def m_tx_emitted_def)
  ultimately show "xMBMasterRTUTransmitFSM s = Some (m_tx_emitted [b] s) \<and> m_tx_sending (m_tx_emitted [b] s) bs" ..
next
  fix s assume "m_tx_sending s []"
  then show "xMBMasterRTUTransmitFSM s = Some (m_tx_finish s)"
    by (auto simp: xMBMasterRTUTransmitFSM_def m_tx_sending_def m_tx_finish_def master_port)
next
  fix s show "m_tx_emitted [] s = s" by (cases "pucMasterSndBufferCur s") (simp_all add: m_tx_emitted_def)
next
  fix as bs s show "m_tx_emitted (as @ bs) s = m_tx_emitted bs (m_tx_emitted as s)"
    by (cases "pucMasterSndBufferCur s") (simp_all add: m_tx_emitted_def add.assoc)
qed

section \<open>Frames sent and received\<close>

lemma eMBMasterRTUSend_eq:
  assumes "m_eRcvState s = STATE_M_RX_IDLE" "mb_switch_flag s = 0" "unat addr \<le> 16"
    "unat len + 3 \<le> length (ucMasterRTUSndBuf s)" "length (ucMasterRTUSndBuf s) < 65536"
  shows "eMBMasterRTUSend addr 1 len s = Some (s\<lparr>
      ucMasterRTUSndBuf := rtu_seal (addr # take (unat len) (drop 1 (ucMasterRTUSndBuf s))) @
        drop (unat len + 3) (ucMasterRTUSndBuf s),
      pucMasterSndBufferCur := In_Snd_Buf 0, usMasterSndBufferCount := len + 3, m_eSndState := STATE_M_TX_XMIT,
      rx_direction := False, trans_start := True \<rparr>, MB_ENOERR)"
proof -
  define b where "b = ucMasterRTUSndBuf s"
  have lb: "unat len + 3 \<le> length b" "length b < 65536" using assms(4,5) by (simp_all add: b_def)
  have u: "unat (1 + len) = unat len + 1" "unat (1 + len + 1) = unat len + 2"
    using lb by (simp_all add: unat_word_ariths)
  have crc: "usMBCRC16 (b[0 := addr]) (1 + len) = Some (crc16 (addr # take (unat len) (drop 1 b)))"
    using usMBCRC16_eq [of "1 + len" "b[0 := addr]"] lb unfolding u
    by (cases b) simp_all
  have w: "ucast (x AND 0xFF) = lo8 x" "ucast (drop_bit 8 x) = hi8 x" for x :: u16
    by (simp_all add: lo8_and hi8_def)
  have "1 + len + 2 = len + 3" by (simp add: add.commute)
  moreover have "buf_set (b[0 := addr]) (unat (1 + len)) x = Some ((b[0 := addr])[unat len + 1 := x])" for x
    unfolding u using lb by simp
  moreover have "buf_set ((b[0 := addr])[unat len + 1 := x]) (unat (1 + len + 1)) y =
      Some ((b[0 := addr])[unat len + 1 := x, unat len + 2 := y])" for x y
    unfolding u using lb by simp
  moreover have "buf_set b 0 addr = Some (b[0 := addr])" using lb by (auto simp: buf_set_def)
  ultimately show ?thesis
    using seal_in_place [of "unat len" b addr] lb crc
    unfolding eMBMasterRTUSend_def b_def [symmetric]
    by (simp add: assms(1-3) not_less MB_MASTER_TOTAL_SLAVE_NUM_def w vMBMasterPortSerialEnable_def Let_def)
qed

lemma eMBMasterRTUReceive_eq:
  assumes "length (ucMasterRTURcvBuf s) = 256" "unat (usMasterRcvBufferPos s) < 256"
  shows "eMBMasterRTUReceive s = Some (if 4 \<le> unat (usMasterRcvBufferPos s) \<and>
        crc16 (take (unat (usMasterRcvBufferPos s)) (ucMasterRTURcvBuf s)) = 0
      then Inr (ucMasterRTURcvBuf s ! 0, Rcv_PDU, usMasterRcvBufferPos s - 3) else Inl MB_EIO)"
proof -
  have ne: "ucMasterRTURcvBuf s \<noteq> []" using assms(1) by auto
  have "usMasterRcvBufferPos s < M_SER_PDU_SIZE_MAX"
    "(M_SER_PDU_SIZE_MIN \<le> usMasterRcvBufferPos s) = (4 \<le> unat (usMasterRcvBufferPos s))"
    using assms(2) by (simp_all add: M_SER_PDU_SIZE_MAX_def M_SER_PDU_SIZE_MIN_def word_less_nat_alt word_le_nat_alt)
  then show ?thesis
    using usMBCRC16_eq [of "usMasterRcvBufferPos s" "ucMasterRTURcvBuf s"] assms ne
    by (simp add: eMBMasterRTUReceive_def)
qed

text \<open>A PDU longer than 250 bytes leaves no room for its CRC behind the transmit buffer.\<close>

lemma eMBMasterRTUSend_None:
  assumes "m_eRcvState s = STATE_M_RX_IDLE" "mb_switch_flag s = 0" "unat addr \<le> 16"
    "length (ucMasterRTUSndBuf s) = 253" "250 < unat len" "unat len < 65000"
  shows "eMBMasterRTUSend addr 1 len s = None"
proof -
  define b where "b = ucMasterRTUSndBuf s"
  have lb: "length b = 253" using assms(4) by (simp add: b_def)
  have u: "unat (1 + len) = unat len + 1" "unat (1 + len + 1) = unat len + 2"
    "unat (2 + len) = unat len + 2"
    using assms(6) by (simp_all add: unat_word_ariths)
  have "b \<noteq> []" using lb by auto
  then show ?thesis
    using lb assms(5) unfolding eMBMasterRTUSend_def b_def [symmetric]
    by (auto simp: assms(1-3) not_less MB_MASTER_TOTAL_SLAVE_NUM_def Let_def u bind_eq_None_conv buf_set_def
        split: Option.bind_splits)
qed

end
