(* ===== verification/Mb_Master.thy ===== *)
theory Mb_Master
  imports Mb_Slave Mb_Master_Rtu
begin

text \<open>
  The Modbus master's protocol layer, \<open>modbus/mb_m.c\<close> with \<open>port/rtt/portevent_m.c\<close> and the request
  functions of \<open>modbus/functions/*_m.c\<close>: life cycle, requests, the poll function and its error
  processing; the whole master as a machine of interrupts, polls and one requesting thread.
\<close>

section \<open>Life cycle\<close>

text \<open>The handler table; no function changes it.\<close>

definition xMasterFuncHandlers :: "(u8 \<times> mb_handler option) list" where
  "xMasterFuncHandlers =
    [(4, Some ReadInputRegister), (3, Some ReadHoldingRegister), (16, Some WriteMultipleHoldingRegister),
     (6, Some WriteHoldingRegister), (23, Some ReadWriteMultipleHoldingRegister), (1, Some ReadCoils),
     (5, Some WriteCoil), (15, Some WriteMultipleCoils), (2, Some ReadDiscreteInputs)]
    @ replicate (MB_FUNC_HANDLERS_MAX - 9) (0, None)"

text \<open>The statics at power-on.\<close>

definition mb_master0 :: mb_master where
  "mb_master0 = \<lparr> m_eSndState = STATE_M_TX_IDLE, m_eRcvState = STATE_M_RX_INIT,
     ucMasterRTUSndBuf = replicate MB_PDU_SIZE_MAX 0, ucMasterRTURcvBuf = replicate 256 0,
     usMasterSendPDULength = 0, pucMasterSndBufferCur = In_Snd_Buf 0, usMasterSndBufferCount = 0,
     usMasterRcvBufferPos = 0, xFrameIsBroadcast = False, eMasterCurTimerMode = MB_TMODE_T35,
     rx_direction = False, trans_start = False, line_out = [], m_timer_on = False, m_timer_ticks = 0,
     usT35TimeOut50us = 0, xMasterOsEvent = 0, xMasterRunRes = 0, ucMBMasterDestAddress = 0,
     xMBRunInMasterMode = False, eMBMasterCurErrorType = EV_ERROR_RESPOND_TIMEOUT,
     m_eMBState = STATE_NOT_INITIALIZED, m_ucMBFrame = None, m_ucRcvAddress = 0, m_usLength = 0,
     mb_switch_flag = 0, mb_not_rtu_data_len = 0, rs485_send_buf_not_modbus = replicate 50 0,
     m_regs = master_regs_init, waiting = Free, replies = [], second_waits = False, second_replies = [] \<rparr>"

definition xMBMasterPortEventInit :: "mb_master \<Rightarrow> mb_master" where
  "xMBMasterPortEventInit s = s\<lparr> xMasterOsEvent := 0 \<rparr>"

definition vMBMasterOsResInit :: "mb_master \<Rightarrow> mb_master" where
  "vMBMasterOsResInit s = s\<lparr> xMasterRunRes := 1 \<rparr>"

definition eMBMasterInit :: "bool \<Rightarrow> eMBMode \<Rightarrow> u32 \<Rightarrow> mb_master \<Rightarrow> (mb_master \<times> eMBErrorCode) option" where
  "eMBMasterInit serial_ok eMode ulBaudRate s = do {
     (s1, eStatus) \<leftarrow> (case eMode of
        MB_RTU \<Rightarrow> eMBMasterRTUInit serial_ok ulBaudRate s
      | _ \<Rightarrow> Some (s, MB_EINVAL));
     if eStatus = MB_ENOERR
     then Some (vMBMasterOsResInit ((xMBMasterPortEventInit s1)\<lparr> m_eMBState := STATE_DISABLED \<rparr>), MB_ENOERR)
     else Some (s1, eStatus) }"

text \<open>The port's close function is not used (\<open>MB_PORT_HAS_CLOSE\<close> is 0).\<close>

definition eMBMasterClose :: "mb_master \<Rightarrow> mb_master \<times> eMBErrorCode" where
  "eMBMasterClose s = (s, if m_eMBState s = STATE_DISABLED then MB_ENOERR else MB_EILLSTATE)"

definition eMBMasterEnable :: "mb_master \<Rightarrow> mb_master \<times> eMBErrorCode" where
  "eMBMasterEnable s =
    (if m_eMBState s = STATE_DISABLED
     then ((eMBMasterRTUStart s)\<lparr> m_eMBState := STATE_ENABLED \<rparr>, MB_ENOERR)
     else (s, MB_EILLSTATE))"

definition eMBMasterDisable :: "mb_master \<Rightarrow> mb_master \<times> eMBErrorCode" where
  "eMBMasterDisable s =
    (if m_eMBState s = STATE_ENABLED
     then ((eMBMasterRTUStop s)\<lparr> m_eMBState := STATE_DISABLED \<rparr>, MB_ENOERR)
     else if m_eMBState s = STATE_DISABLED then (s, MB_ENOERR)
     else (s, MB_EILLSTATE))"

section \<open>Requests\<close>

text \<open>
  A semaphore is its count. A take that finds no resource within its timeout fails (\<open>None\<close>); one
  that waits and then gets it is a later take.
\<close>

definition sem_count_take :: "u16 \<Rightarrow> u16 option" where
  "sem_count_take value = (if value > 0 then Some (value - 1) else None)"

definition sem_count_release :: "u16 \<Rightarrow> u16" where
  "sem_count_release value = value + 1"

definition vMBMasterRunResRelease :: "mb_master \<Rightarrow> mb_master" where
  "vMBMasterRunResRelease s = s\<lparr> xMasterRunRes := sem_count_release (xMasterRunRes s) \<rparr>"

definition reply :: "eMBMasterReqErrCode \<Rightarrow> mb_master \<Rightarrow> mb_master" where
  "reply e s = s\<lparr> replies := replies s @ [e] \<rparr>"

text \<open>
  What the nine request functions share: the argument check, the resource, the PDU written behind
  the address byte of the transmit buffer, its length, and the event; then the thread waits for the
  result.
\<close>

definition master_request :: "bool \<Rightarrow> u8 \<Rightarrow> u8 list option \<Rightarrow> u16 \<Rightarrow> mb_master \<Rightarrow> mb_master option" where
  "master_request legal ucSndAddr pdu len s =
    (if unat ucSndAddr > MB_MASTER_TOTAL_SLAVE_NUM \<or> \<not> legal then Some (reply MB_MRE_ILL_ARG s)
     else case sem_count_take (xMasterRunRes s) of
       None \<Rightarrow> Some (reply MB_MRE_MASTER_BUSY s)
     | Some v \<Rightarrow> do {
         bs \<leftarrow> pdu;
         buf \<leftarrow> buf_puts (ucMasterRTUSndBuf s) 1 bs;
         Some ((xMBMasterPortEventPost EV_MASTER_FRAME_SENT
           (s\<lparr> xMasterRunRes := v, ucMBMasterDestAddress := ucSndAddr, ucMasterRTUSndBuf := buf,
              usMasterSendPDULength := len \<rparr>))\<lparr> waiting := Waits_Reply \<rparr>) })"

definition eMBMasterReqReadHoldingRegister :: "u8 \<Rightarrow> u16 \<Rightarrow> u16 \<Rightarrow> mb_master \<Rightarrow> mb_master option" where
  "eMBMasterReqReadHoldingRegister ucSndAddr usRegAddr usNRegs =
    master_request True ucSndAddr
      (Some [3, hi8 usRegAddr, lo8 usRegAddr, hi8 usNRegs, lo8 usNRegs]) (1 + 4)"

definition eMBMasterReqReadInputRegister :: "u8 \<Rightarrow> u16 \<Rightarrow> u16 \<Rightarrow> mb_master \<Rightarrow> mb_master option" where
  "eMBMasterReqReadInputRegister ucSndAddr usRegAddr usNRegs =
    master_request True ucSndAddr
      (Some [4, hi8 usRegAddr, lo8 usRegAddr, hi8 usNRegs, lo8 usNRegs]) (1 + 4)"

definition eMBMasterReqReadCoils :: "u8 \<Rightarrow> u16 \<Rightarrow> u16 \<Rightarrow> mb_master \<Rightarrow> mb_master option" where
  "eMBMasterReqReadCoils ucSndAddr usCoilAddr usNCoils =
    master_request True ucSndAddr
      (Some [1, hi8 usCoilAddr, lo8 usCoilAddr, hi8 usNCoils, lo8 usNCoils]) (1 + 4)"

definition eMBMasterReqReadDiscreteInputs :: "u8 \<Rightarrow> u16 \<Rightarrow> u16 \<Rightarrow> mb_master \<Rightarrow> mb_master option" where
  "eMBMasterReqReadDiscreteInputs ucSndAddr usDiscreteAddr usNDiscreteIn =
    master_request True ucSndAddr
      (Some [2, hi8 usDiscreteAddr, lo8 usDiscreteAddr, hi8 usNDiscreteIn, lo8 usNDiscreteIn]) (1 + 4)"

definition eMBMasterReqWriteHoldingRegister :: "u8 \<Rightarrow> u16 \<Rightarrow> u16 \<Rightarrow> mb_master \<Rightarrow> mb_master option" where
  "eMBMasterReqWriteHoldingRegister ucSndAddr usRegAddr usRegData =
    master_request True ucSndAddr
      (Some [6, hi8 usRegAddr, lo8 usRegAddr, hi8 usRegData, lo8 usRegData]) (1 + 4)"

definition eMBMasterReqWriteCoil :: "u8 \<Rightarrow> u16 \<Rightarrow> u16 \<Rightarrow> mb_master \<Rightarrow> mb_master option" where
  "eMBMasterReqWriteCoil ucSndAddr usCoilAddr usCoilData =
    master_request (usCoilData = 0xFF00 \<or> usCoilData = 0x0000) ucSndAddr
      (Some [5, hi8 usCoilAddr, lo8 usCoilAddr, hi8 usCoilData, lo8 usCoilData]) (1 + 4)"

text \<open>The caller's buffer is read to the requested number of items.\<close>

definition eMBMasterReqWriteMultipleHoldingRegister ::
  "u8 \<Rightarrow> u16 \<Rightarrow> u16 \<Rightarrow> u16 list \<Rightarrow> mb_master \<Rightarrow> mb_master option" where
  "eMBMasterReqWriteMultipleHoldingRegister ucSndAddr usRegAddr usNRegs pusDataBuffer =
    master_request True ucSndAddr
      (do { ws \<leftarrow> buf_gets pusDataBuffer 0 (unat usNRegs);
            Some ([16, hi8 usRegAddr, lo8 usRegAddr, hi8 usNRegs, lo8 usNRegs, ucast (usNRegs * 2)] @ be_bytes ws) })
      (1 + 5 + 2 * usNRegs)"

definition eMBMasterReqReadWriteMultipleHoldingRegister ::
  "u8 \<Rightarrow> u16 \<Rightarrow> u16 \<Rightarrow> u16 list \<Rightarrow> u16 \<Rightarrow> u16 \<Rightarrow> mb_master \<Rightarrow> mb_master option" where
  "eMBMasterReqReadWriteMultipleHoldingRegister ucSndAddr usReadRegAddr usNReadRegs pusDataBuffer
      usWriteRegAddr usNWriteRegs =
    master_request True ucSndAddr
      (do { ws \<leftarrow> buf_gets pusDataBuffer 0 (unat usNWriteRegs);
            Some ([23, hi8 usReadRegAddr, lo8 usReadRegAddr, hi8 usNReadRegs, lo8 usNReadRegs,
              hi8 usWriteRegAddr, lo8 usWriteRegAddr, hi8 usNWriteRegs, lo8 usNWriteRegs,
              ucast (usNWriteRegs * 2)] @ be_bytes ws) })
      (1 + 9 + 2 * usNWriteRegs)"

definition eMBMasterReqWriteMultipleCoils ::
  "u8 \<Rightarrow> u16 \<Rightarrow> u16 \<Rightarrow> u8 list \<Rightarrow> mb_master \<Rightarrow> mb_master option" where
  "eMBMasterReqWriteMultipleCoils ucSndAddr usCoilAddr usNCoils pucDataBuffer =
    (let ucByteCount = bit_bytes usNCoils in
     master_request (usNCoils \<le> 0x07B0) ucSndAddr
       (do { bs \<leftarrow> buf_gets pucDataBuffer 0 (unat ucByteCount);
             Some ([15, hi8 usCoilAddr, lo8 usCoilAddr, hi8 usNCoils, lo8 usNCoils, ucByteCount] @ bs) })
       (1 + 5 + ucast ucByteCount))"

text \<open>
  A message that is not Modbus: the caller's bytes are copied to the start of the transmit buffer,
  but the transmitter takes them from \<open>rs485_send_buf_not_modbus\<close>, which is the buffer that every
  caller passes (\<open>set_dc_motor\<close>, \<open>get_display_board_data\<close> and others in \<open>applications/application.c\<close>).
  The 8-bit loop counter never reaches a length above 255; the copy has left the buffer by then.
\<close>

definition eMBMasterReqRead_not_rtu_datas :: "u8 list \<Rightarrow> u16 \<Rightarrow> mb_master \<Rightarrow> mb_master option" where
  "eMBMasterReqRead_not_rtu_datas pucData len s =
    (case sem_count_take (xMasterRunRes s) of
       None \<Rightarrow> Some (reply MB_MRE_MASTER_BUSY s)
     | Some v \<Rightarrow> do {
         bs \<leftarrow> buf_gets pucData 0 (unat len);
         buf \<leftarrow> buf_puts (ucMasterRTUSndBuf s) 0 bs;
         Some ((xMBMasterPortEventPost EV_MASTER_FRAME_SENT
           (s\<lparr> xMasterRunRes := v, ucMasterRTUSndBuf := buf, mb_switch_flag := 1, mb_not_rtu_data_len := ucast len,
              usMasterSendPDULength := len \<rparr>))\<lparr> waiting := Waits_Raw_Reply \<rparr>) })"

text \<open>
  The end of a request. When several result flags are set at once, no case matches and the result
  is success.
\<close>

definition eMBMasterWaitRequestFinish :: "mb_master \<Rightarrow> (mb_master \<times> eMBMasterReqErrCode) option" where
  "eMBMasterWaitRequestFinish s =
    (case rt_event_recv_or (xMasterOsEvent s) (EV_MASTER_PROCESS_SUCESS OR EV_MASTER_ERROR_RESPOND_TIMEOUT OR
        EV_MASTER_ERROR_RECEIVE_DATA OR EV_MASTER_ERROR_EXECUTE_FUNCTION) of
       None \<Rightarrow> None
     | Some (recved, rest) \<Rightarrow> Some (s\<lparr> xMasterOsEvent := rest \<rparr>,
         if recved = EV_MASTER_ERROR_RESPOND_TIMEOUT then MB_MRE_TIMEDOUT
         else if recved = EV_MASTER_ERROR_RECEIVE_DATA then MB_MRE_REV_DATA
         else if recved = EV_MASTER_ERROR_EXECUTE_FUNCTION then MB_MRE_EXE_FUN
         else MB_MRE_NO_ERR))"

definition requester_runs :: "mb_master \<Rightarrow> mb_master" where
  "requester_runs s =
    (if waiting s = Free then s
     else case eMBMasterWaitRequestFinish s of
       None \<Rightarrow> s
     | Some (s1, e) \<Rightarrow> (reply e s1)
         \<lparr> mb_switch_flag := (if waiting s = Waits_Raw_Reply then 0 else mb_switch_flag s1), waiting := Free \<rparr>)"

text \<open>
  The same exchange by the thread that does not take \<open>modbus_mutex\<close>, with \<open>RT_WAITING_FOREVER\<close>: without the
  resource it goes on waiting. Its bytes are those that are in the shared buffer when it gets the resource.
\<close>

definition second_starts :: "u16 \<Rightarrow> mb_master \<Rightarrow> mb_master option" where
  "second_starts len s =
    (if second_waits s then Some s
     else case sem_count_take (xMasterRunRes s) of
       None \<Rightarrow> Some s
     | Some v \<Rightarrow> do {
         bs \<leftarrow> buf_gets (rs485_send_buf_not_modbus s) 0 (unat len);
         buf \<leftarrow> buf_puts (ucMasterRTUSndBuf s) 0 bs;
         Some ((xMBMasterPortEventPost EV_MASTER_FRAME_SENT
           (s\<lparr> xMasterRunRes := v, ucMasterRTUSndBuf := buf, mb_switch_flag := 1, mb_not_rtu_data_len := ucast len,
              usMasterSendPDULength := len \<rparr>))\<lparr> second_waits := True \<rparr>) })"

definition second_runs :: "mb_master \<Rightarrow> mb_master" where
  "second_runs s =
    (if \<not> second_waits s then s
     else case eMBMasterWaitRequestFinish s of
       None \<Rightarrow> s
     | Some (s1, e) \<Rightarrow> s1\<lparr> mb_switch_flag := 0, second_waits := False, second_replies := second_replies s1 @ [e] \<rparr>)"

section \<open>Poll\<close>

text \<open>
  As for the slave: no event waits, several at once leave the caller's uninitialised local \<open>junk\<close>.
\<close>

definition xMBMasterPortEventGet :: "u32 \<Rightarrow> mb_master \<Rightarrow> (mb_master \<times> u32) option" where
  "xMBMasterPortEventGet junk s =
    (case rt_event_recv_or (xMasterOsEvent s) (EV_MASTER_READY OR EV_MASTER_FRAME_RECEIVED OR EV_MASTER_EXECUTE OR
        EV_MASTER_FRAME_SENT OR EV_MASTER_ERROR_PROCESS) of
       None \<Rightarrow> None
     | Some (recved, rest) \<Rightarrow> Some (s\<lparr> xMasterOsEvent := rest \<rparr>,
         if recved = EV_MASTER_READY \<or> recved = EV_MASTER_FRAME_RECEIVED \<or> recved = EV_MASTER_EXECUTE \<or>
            recved = EV_MASTER_FRAME_SENT \<or> recved = EV_MASTER_ERROR_PROCESS
         then recved else junk))"

definition master_error :: "eMBMasterErrorEventType \<Rightarrow> mb_master \<Rightarrow> mb_master" where
  "master_error e s = xMBMasterPortEventPost EV_MASTER_ERROR_PROCESS (s\<lparr> eMBMasterCurErrorType := e \<rparr>)"

definition master_received :: "mb_master \<Rightarrow> mb_master option" where
  "master_received s = do {
     r \<leftarrow> eMBMasterRTUReceive s;
     Some (case r of
       Inl e \<Rightarrow> master_error EV_ERROR_RECEIVE_DATA s
     | Inr (addr, fr, len) \<Rightarrow>
         let s1 = s\<lparr> m_ucRcvAddress := addr, m_ucMBFrame := Some fr, m_usLength := len \<rparr>
         in if m_ucRcvAddress s1 = ucMBMasterDestAddress s1
            then xMBMasterPortEventPost EV_MASTER_EXECUTE s1
            else master_error EV_ERROR_RECEIVE_DATA s1) }"

definition pdu_of :: "frame_ptr \<Rightarrow> mb_master \<Rightarrow> u8 list" where
  "pdu_of fr s = drop 1 (case fr of Snd_PDU \<Rightarrow> ucMasterRTUSndBuf s | Rcv_PDU \<Rightarrow> ucMasterRTURcvBuf s)"

definition call_of :: "frame_ptr \<Rightarrow> mb_master \<Rightarrow> master_call" where
  "call_of fr s = \<lparr> dest_address = ucMBMasterDestAddress s, is_broadcast = xFrameIsBroadcast s,
     snd_pdu = pdu_of Snd_PDU s, frame = pdu_of fr s, us_len = m_usLength s \<rparr>"

definition call_once :: "mb_handler \<Rightarrow> frame_ptr \<Rightarrow> mb_master \<Rightarrow> (mb_master \<times> eMBException) option" where
  "call_once h fr s = do {
     (r, e) \<leftarrow> call_master_handler h (call_of fr s) (m_regs s);
     Some (s\<lparr> m_regs := r \<rparr>, e) }"

text \<open>The handler for every slave in turn, from \<open>j\<close> on; the exception is the last one's.\<close>

fun call_slaves ::
  "mb_handler \<Rightarrow> frame_ptr \<Rightarrow> u8 \<Rightarrow> nat \<Rightarrow> mb_master \<times> eMBException \<Rightarrow> (mb_master \<times> eMBException) option" where
  "call_slaves h fr j 0 (s, e) = Some (s, e)"
| "call_slaves h fr j (Suc n) (s, e) = do {
     q \<leftarrow> call_once h fr (s\<lparr> ucMBMasterDestAddress := j \<rparr>);
     call_slaves h fr (j + 1) n q }"

definition run_handler :: "mb_handler \<Rightarrow> frame_ptr \<Rightarrow> mb_master \<Rightarrow> (mb_master \<times> eMBException) option" where
  "run_handler h fr s0 = do {
     let s = s0\<lparr> xMBRunInMasterMode := True \<rparr>;
     (s1, e) \<leftarrow> (if xFrameIsBroadcast s
       then call_slaves h fr 1 MB_MASTER_TOTAL_SLAVE_NUM
         (s\<lparr> m_usLength := usMasterSendPDULength s \<rparr>, MB_EX_ILLEGAL_FUNCTION)
       else call_once h fr s);
     Some (s1\<lparr> xMBRunInMasterMode := False \<rparr>, e) }"

text \<open>
  An exception response carries an arbitrary byte as its exception: any but 0, which is
  \<open>MB_EX_NONE\<close>, is an error.
\<close>

definition master_exception :: "frame_ptr \<Rightarrow> mb_master \<Rightarrow> (mb_master \<times> bool) option" where
  "master_exception fr s = do {
     ucFunctionCode \<leftarrow> buf_get (pdu_of fr s) 0;
     if drop_bit 7 ucFunctionCode \<noteq> 0
     then do {
       x \<leftarrow> buf_get (pdu_of fr s) 1;
       Some (s, x \<noteq> exception_code MB_EX_NONE) }
     else case find_handler ucFunctionCode xMasterFuncHandlers of
       None \<Rightarrow> Some (s, True)
     | Some None \<Rightarrow> None
     | Some (Some h) \<Rightarrow> do {
         (s1, e) \<leftarrow> run_handler h fr s;
         Some (s1, e \<noteq> MB_EX_NONE) } }"

definition vMBMasterCBRequestScuuess :: "mb_master \<Rightarrow> mb_master" where
  "vMBMasterCBRequestScuuess s =
    s\<lparr> xMasterOsEvent := event_flags_send (xMasterOsEvent s) EV_MASTER_PROCESS_SUCESS \<rparr>"

definition master_execute :: "mb_master \<Rightarrow> mb_master option" where
  "master_execute s =
    (case m_ucMBFrame s of
       None \<Rightarrow> None
     | Some fr \<Rightarrow> do {
         (s1, failed) \<leftarrow> master_exception fr s;
         Some (if failed then master_error EV_ERROR_EXECUTE_FUNCTION s1
           else vMBMasterRunResRelease (vMBMasterCBRequestScuuess s1)) })"

text \<open>What \<open>peMBMasterFrameSendCur\<close> returns is dropped.\<close>

definition master_sent :: "mb_master \<Rightarrow> mb_master option" where
  "master_sent s = do {
     let s1 = s\<lparr> m_ucMBFrame := Some Snd_PDU \<rparr>;
     (s2, _) \<leftarrow> eMBMasterRTUSend (ucMBMasterDestAddress s1) 1 (usMasterSendPDULength s1) s1;
     Some s2 }"

definition vMBMasterErrorCB :: "eMBMasterErrorEventType \<Rightarrow> mb_master \<Rightarrow> mb_master" where
  "vMBMasterErrorCB e s = s\<lparr> xMasterOsEvent := event_flags_send (xMasterOsEvent s)
     (case e of EV_ERROR_RESPOND_TIMEOUT \<Rightarrow> EV_MASTER_ERROR_RESPOND_TIMEOUT
        | EV_ERROR_RECEIVE_DATA \<Rightarrow> EV_MASTER_ERROR_RECEIVE_DATA
        | EV_ERROR_EXECUTE_FUNCTION \<Rightarrow> EV_MASTER_ERROR_EXECUTE_FUNCTION) \<rparr>"

definition master_error_process :: "mb_master \<Rightarrow> mb_master" where
  "master_error_process s =
    (let s1 = s\<lparr> m_ucMBFrame := Some Snd_PDU \<rparr>
     in vMBMasterRunResRelease (vMBMasterErrorCB (eMBMasterCurErrorType s1) s1))"

definition eMBMasterPoll :: "u32 \<Rightarrow> mb_master \<Rightarrow> (mb_master \<times> poll_outcome) option" where
  "eMBMasterPoll junk s =
    (if m_eMBState s \<noteq> STATE_ENABLED then Some (s, Returns MB_EILLSTATE)
     else case xMBMasterPortEventGet junk s of
       None \<Rightarrow> Some (s, Waits)
     | Some (s1, eEvent) \<Rightarrow> do {
         s2 \<leftarrow> (if eEvent = EV_MASTER_FRAME_RECEIVED then master_received s1
               else if eEvent = EV_MASTER_EXECUTE then master_execute s1
               else if eEvent = EV_MASTER_FRAME_SENT then master_sent s1
               else if eEvent = EV_MASTER_ERROR_PROCESS then Some (master_error_process s1)
               else Some s1);
         Some (s2, Returns MB_ENOERR) })"

section \<open>The master as a machine\<close>

text \<open>
  One step each: a byte arrives (once the device is open, whatever the direction of the line), the
  timer runs out (only when it runs), the transmit thread is scheduled (only with its start flag
  set), the polling thread runs one \<open>eMBMasterPoll\<close>, a requesting thread makes a request or a raw
  exchange, or looks for the result it waits for. The application serialises its requesting threads with
  \<open>modbus_mutex\<close>, so that they are one requester, which makes no request while it waits, with one
  exception: \<open>thread_dc_motor_set\<close> takes no mutex. It is the second requester. With \<open>set_dc_motor\<close> it
  writes its message into \<open>rs485_send_buf_not_modbus\<close> and clears the first byte of the receive buffer,
  whatever goes on (\<open>M_Second_Prepares\<close>); it takes the resource, for which it waits as long as there is
  none, and sends (\<open>M_Second_Starts\<close>); and it looks for its result (\<open>M_Second_Runs\<close>).
\<close>

datatype request = Read_Holding u8 u16 u16 | Read_Input u8 u16 u16 | Read_Coils u8 u16 u16
  | Read_Discrete u8 u16 u16 | Write_Holding u8 u16 u16 | Write_Coil u8 u16 u16
  | Write_Multiple_Holding u8 u16 u16 "u16 list" | Write_Multiple_Coils u8 u16 u16 "u8 list"
  | Read_Write_Holding u8 u16 u16 "u16 list" u16 u16

fun run_request :: "request \<Rightarrow> mb_master \<Rightarrow> mb_master option" where
  "run_request (Read_Holding d a n) = eMBMasterReqReadHoldingRegister d a n"
| "run_request (Read_Input d a n) = eMBMasterReqReadInputRegister d a n"
| "run_request (Read_Coils d a n) = eMBMasterReqReadCoils d a n"
| "run_request (Read_Discrete d a n) = eMBMasterReqReadDiscreteInputs d a n"
| "run_request (Write_Holding d a v) = eMBMasterReqWriteHoldingRegister d a v"
| "run_request (Write_Coil d a v) = eMBMasterReqWriteCoil d a v"
| "run_request (Write_Multiple_Holding d a n vs) = eMBMasterReqWriteMultipleHoldingRegister d a n vs"
| "run_request (Write_Multiple_Coils d a n bs) = eMBMasterReqWriteMultipleCoils d a n bs"
| "run_request (Read_Write_Holding d ra rn vs wa wn) = eMBMasterReqReadWriteMultipleHoldingRegister d ra rn vs wa wn"

datatype master_event = M_Rx_Byte u8 | M_Timer_Expires | M_Tx_Ready | M_Poll_Runs u32
  | M_Request request | M_Raw_Request "u8 list" | M_Requester_Runs
  | M_Second_Prepares "u8 list" | M_Second_Starts u16 | M_Second_Runs

fun master_step :: "mb_master \<Rightarrow> master_event \<Rightarrow> mb_master option" where
  "master_step s (M_Rx_Byte b) =
    (if m_eMBState s = STATE_NOT_INITIALIZED then Some s else xMBMasterRTUReceiveFSM s b)"
| "master_step s M_Timer_Expires = (if m_timer_on s then xMBMasterRTUTimerExpired s else Some s)"
| "master_step s M_Tx_Ready = (if trans_start s then xMBMasterRTUTransmitFSM s else Some s)"
| "master_step s (M_Poll_Runs junk) = map_option fst (eMBMasterPoll junk s)"
| "master_step s (M_Request req) = (if waiting s = Free then run_request req s else Some s)"
| "master_step s (M_Raw_Request bs) =
    (if waiting s = Free then do {
       raw \<leftarrow> buf_puts (rs485_send_buf_not_modbus s) 0 bs;
       eMBMasterReqRead_not_rtu_datas raw (word_of_nat (length bs)) (s\<lparr> rs485_send_buf_not_modbus := raw \<rparr>) }
     else Some s)"
| "master_step s M_Requester_Runs = Some (requester_runs s)"
| "master_step s (M_Second_Prepares bs) = do {
     raw \<leftarrow> buf_puts (rs485_send_buf_not_modbus s) 0 bs;
     rcv \<leftarrow> buf_set (ucMasterRTURcvBuf s) 0 0;
     Some (s\<lparr> rs485_send_buf_not_modbus := raw, ucMasterRTURcvBuf := rcv \<rparr>) }"
| "master_step s (M_Second_Starts len) = second_starts len s"
| "master_step s M_Second_Runs = Some (second_runs s)"

end
