(* ===== verification/Mb_Master_Inv.thy ===== *)
theory Mb_Master_Inv
  imports Mb_Master
begin

text \<open>
  The invariant of the Modbus master and the inputs under which no step of it fails an assert or
  leaves a buffer.
\<close>

section \<open>Invariant\<close>

text \<open>
  While transmitting, the receiver is idle and the timer off; with the receiver idle, the timer runs
  only for an answer or the turnaround of a broadcast.
\<close>

fun states_ok :: "eMBMasterSndState \<Rightarrow> eMBMasterRcvState \<Rightarrow> bool \<Rightarrow> frame_ptr option \<Rightarrow> bool" where
  "states_ok STATE_M_TX_IDLE rcv timer fr \<longleftrightarrow> \<not> (timer \<and> rcv = STATE_M_RX_IDLE)"
| "states_ok STATE_M_TX_XMIT rcv timer fr \<longleftrightarrow> rcv = STATE_M_RX_IDLE \<and> \<not> timer \<and> fr \<noteq> None"
| "states_ok STATE_M_TX_XFWR rcv timer fr \<longleftrightarrow> True"

definition master_ok :: "mb_master \<Rightarrow> bool" where
  "master_ok s \<longleftrightarrow>
     length (ucMasterRTUSndBuf s) = 253 \<and> length (ucMasterRTURcvBuf s) = 256 \<and>
     length (rs485_send_buf_not_modbus s) = 50 \<and> master_regs_wf (m_regs s) \<and>
     unat (usMasterSendPDULength s) \<le> 250 \<and> unat (mb_not_rtu_data_len s) \<le> 50 \<and>
     unat (usMasterRcvBufferPos s) \<le> 256 \<and>
     states_ok (m_eSndState s) (m_eRcvState s) (m_timer_on s) (m_ucMBFrame s) \<and>
     (trans_start s \<longrightarrow> m_eSndState s = STATE_M_TX_XMIT \<and>
        unat (usMasterSndBufferCount s) \<le> length (snd_source s)) \<and>
     (eMasterCurTimerMode s = MB_TMODE_CONVERT_DELAY \<longrightarrow> m_ucMBFrame s \<noteq> None) \<and>
     (bit (xMasterOsEvent s) 2 \<longrightarrow> m_ucMBFrame s \<noteq> None) \<and>
     (bit (xMasterOsEvent s) 3 \<longrightarrow> m_eSndState s = STATE_M_TX_IDLE)"

text \<open>A request whose PDU and CRC fit into the transmit buffer and whose data the caller has.\<close>

fun request_fits :: "request \<Rightarrow> bool" where
  "request_fits (Write_Multiple_Holding d a n vs) \<longleftrightarrow> unat n \<le> 122 \<and> unat n \<le> length vs"
| "request_fits (Write_Multiple_Coils d a n bs) \<longleftrightarrow> unat n \<le> 1952 \<and> unat (bit_bytes n) \<le> length bs"
| "request_fits (Read_Write_Holding d ra rn vs wa wn) \<longleftrightarrow> unat wn \<le> 120 \<and> unat wn \<le> length vs"
| "request_fits _ \<longleftrightarrow> True"

text \<open>
  What the environment must not do: send a byte while the master transmits, let the poll run when
  256 bytes are in the buffer or with a stale event in its uninitialised local, have bits of the
  last byte of a row stored or a response executed that belongs to no slave, and issue a request
  that is too long or while the previous one is still under way; the second requester, which takes the
  resource only when there is one, likewise.
\<close>

fun master_event_ok :: "mb_master \<Rightarrow> master_event \<Rightarrow> bool" where
  "master_event_ok s (M_Rx_Byte b) \<longleftrightarrow> m_eSndState s \<noteq> STATE_M_TX_XMIT"
| "master_event_ok s (M_Poll_Runs junk) \<longleftrightarrow> unat (usMasterRcvBufferPos s) < 256 \<and>
     junk \<noteq> EV_MASTER_EXECUTE \<and> junk \<noteq> EV_MASTER_FRAME_SENT \<and>
     (bit (xMasterOsEvent s) 2 \<longrightarrow> (\<forall>fr h. m_ucMBFrame s = Some fr \<longrightarrow>
        find_handler (pdu_of fr s ! 0) xMasterFuncHandlers = Some (Some h) \<longrightarrow>
        (xFrameIsBroadcast s \<or> dest_ok (ucMBMasterDestAddress s)) \<and> master_clear h (call_of fr s)))"
| "master_event_ok s (M_Request req) \<longleftrightarrow>
     (waiting s = Free \<longrightarrow> m_eSndState s = STATE_M_TX_IDLE \<and> request_fits req)"
| "master_event_ok s (M_Raw_Request bs) \<longleftrightarrow>
     (waiting s = Free \<longrightarrow> m_eSndState s = STATE_M_TX_IDLE \<and> length bs \<le> 50)"
| "master_event_ok s (M_Second_Prepares bs) \<longleftrightarrow> length bs \<le> 50"
| "master_event_ok s (M_Second_Starts len) \<longleftrightarrow>
     (\<not> second_waits s \<and> xMasterRunRes s \<noteq> 0 \<longrightarrow> m_eSndState s = STATE_M_TX_IDLE \<and> unat len \<le> 50)"
| "master_event_ok s _ \<longleftrightarrow> True"

section \<open>Interrupts\<close>

lemma master_ok_rx:
  assumes "master_ok s" "m_eSndState s \<noteq> STATE_M_TX_XMIT"
  shows "\<exists>s'. xMBMasterRTUReceiveFSM s b = Some s' \<and> master_ok s'"
proof -
  have ne: "ucMasterRTURcvBuf s \<noteq> []" using assms(1) by (auto simp: master_ok_def)
  have tx: "m_eSndState s = STATE_M_TX_IDLE \<or> m_eSndState s = STATE_M_TX_XFWR"
    using assms(2) by (cases "m_eSndState s") auto
  have st: "\<not> trans_start s" using assms by (auto simp: master_ok_def)
  have lt: "usMasterRcvBufferPos s < M_SER_PDU_SIZE_MAX \<longleftrightarrow> unat (usMasterRcvBufferPos s) < 256"
    by (simp add: M_SER_PDU_SIZE_MAX_def word_less_nat_alt)
  have inc: "unat (usMasterRcvBufferPos s) < 256 \<Longrightarrow> unat (usMasterRcvBufferPos s + 1) \<le> 256"
    by (simp add: unat_word_ariths)
  show ?thesis
    using assms tx st ne lt inc
    by (cases "m_eRcvState s")
       (auto simp: xMBMasterRTUReceiveFSM_def master_ok_def master_port snd_source_def)
qed

lemma master_ok_timer:
  assumes "master_ok s" "m_timer_on s"
  shows "\<exists>s'. xMBMasterRTUTimerExpired s = Some s' \<and> master_ok s'"
proof -
  have tx: "m_eSndState s = STATE_M_TX_IDLE \<or> m_eSndState s = STATE_M_TX_XFWR"
    using assms by (cases "m_eSndState s") (auto simp: master_ok_def)
  have st: "\<not> trans_start s" using assms by (auto simp: master_ok_def)
  show ?thesis
    using assms tx st
    by (cases "m_eRcvState s")
       (auto simp: xMBMasterRTUTimerExpired_def master_ok_def master_port master_events bit_simps Let_def)
qed

lemma master_ok_tx:
  assumes "master_ok s" "trans_start s"
  shows "\<exists>s'. xMBMasterRTUTransmitFSM s = Some s' \<and> master_ok s'"
proof (cases "usMasterSndBufferCount s = 0")
  case True
  have ne: "ucMasterRTUSndBuf s \<noteq> []" using assms(1) by (auto simp: master_ok_def)
  from assms ne True show ?thesis
    by (auto simp: xMBMasterRTUTransmitFSM_def master_ok_def master_port Let_def)
next
  case False
  then have n0: "unat (usMasterSndBufferCount s) \<noteq> 0" by (simp add: unat_gt_0)
  have m1: "unat (usMasterSndBufferCount s - 1) = unat (usMasterSndBufferCount s) - 1"
    using unat_minus_one [OF False] by simp
  obtain b where b: "snd_byte s = Some b"
    using assms n0 by (cases "snd_source s") (auto simp: master_ok_def snd_byte_source)
  define t where "t = m_tx_emitted [b] s"
  have "xMBMasterRTUTransmitFSM s = Some t"
    using assms False b
    by (auto simp: xMBMasterRTUTransmitFSM_def master_ok_def master_port t_def m_tx_emitted_def)
  moreover have "unat (usMasterSndBufferCount t) \<le> length (snd_source t)"
    using assms m1 snd_source_emitted [of "[b]" s]
    by (auto simp: master_ok_def t_def m_tx_emitted_def intro: diff_le_mono)
  then have "master_ok t"
    using assms by (auto simp: master_ok_def t_def m_tx_emitted_def)
  ultimately show ?thesis by blast
qed

section \<open>Requests\<close>

lemma master_ok_reply [simp]: "master_ok (reply e s) = master_ok s"
  by (cases "pucMasterSndBufferCur s") (simp_all add: master_ok_def reply_def snd_source_def)

lemma rt_sem_take_simps [simp]: "sem_count_take 0 = None" "v \<noteq> 0 \<Longrightarrow> sem_count_take v = Some (v - 1)"
  by (simp_all add: sem_count_take_def word_neq_0_conv)

lemma master_ok_request:
  assumes "master_ok s" "m_eSndState s = STATE_M_TX_IDLE"
    "legal \<Longrightarrow> \<exists>bs. pdu = Some bs \<and> length bs \<le> 252" "legal \<Longrightarrow> unat len \<le> 250"
  shows "\<exists>s'. master_request legal d pdu len s = Some s' \<and> master_ok s'"
proof (cases "unat d \<le> 16 \<and> legal")
  case False
  then show ?thesis using assms(1) by (auto simp: master_request_def MB_MASTER_TOTAL_SLAVE_NUM_def)
next
  case legal: True
  show ?thesis
  proof (cases "xMasterRunRes s = 0")
    case True
    with legal show ?thesis using assms(1) by (simp add: master_request_def MB_MASTER_TOTAL_SLAVE_NUM_def)
  next
    case False
    obtain bs where bs: "pdu = Some bs" "length bs \<le> 252" using assms(3) legal by auto
    obtain buf where buf: "buf_puts (ucMasterRTUSndBuf s) 1 bs = Some buf" "length buf = 253"
      using buf_puts_eq [of 1 bs "ucMasterRTUSndBuf s"] bs(2) assms(1) by (auto simp: master_ok_def)
    have st: "\<not> trans_start s" using assms(1,2) by (auto simp: master_ok_def)
    define t where "t = (xMBMasterPortEventPost EV_MASTER_FRAME_SENT
        (s\<lparr> xMasterRunRes := xMasterRunRes s - 1, ucMBMasterDestAddress := d, ucMasterRTUSndBuf := buf,
          usMasterSendPDULength := len \<rparr>))\<lparr> waiting := Waits_Reply \<rparr>"
    have "master_request legal d pdu len s = Some t"
      using legal False bs buf by (simp add: master_request_def MB_MASTER_TOTAL_SLAVE_NUM_def t_def)
    moreover have "master_ok t"
      using assms(1,2,4) legal buf st
      unfolding master_ok_def t_def by (simp add: master_port master_events bit_simps)
    ultimately show ?thesis by blast
  qed
qed

lemma coil_bytes_fit: "unat n \<le> 1952 \<Longrightarrow> unat (bit_bytes n) \<le> 244"
proof -
  assume n: "unat n \<le> 1952"
  have d: "unat n div 8 \<le> 244" using div_le_mono [OF n, of 8] by simp
  have a: "n AND 7 = n mod 8" using take_bit_eq_mask [of 3 n] take_bit_eq_mod [of 3 n] by (simp add: mask_eq_exp_minus_1)
  have u: "unat (ucast x :: u8) \<le> unat x" for x :: u16
    by (simp add: unsigned_ucast_eq take_bit_eq_mod)
  show "unat (bit_bytes n) \<le> 244"
  proof (cases "n AND 7 = 0")
    case True
    then show ?thesis using u [of "n div 8"] d by (simp add: bit_bytes_def u16_div8)
  next
    case False
    then have "unat n mod 8 \<noteq> 0" unfolding a by (metis u16_div8(2) unat_eq_zero)
    moreover have "unat n = 8 * (unat n div 8) + unat n mod 8" by simp
    ultimately have "unat n div 8 \<noteq> 244" using n by linarith
    then show ?thesis using False u [of "n div 8 + 1"] d by (simp add: bit_bytes_def u16_div8_Suc)
  qed
qed

lemma master_ok_run_request:
  assumes "master_ok s" "m_eSndState s = STATE_M_TX_IDLE" "request_fits req"
  shows "\<exists>s'. run_request req s = Some s' \<and> master_ok s'"
proof (cases req)
  case (Write_Multiple_Holding d a n vs)
  have "unat (1 + 5 + 2 * n) = 6 + 2 * unat n" using assms(3) Write_Multiple_Holding
    by (simp add: unat_word_ariths)
  then show ?thesis
    unfolding Write_Multiple_Holding run_request.simps eMBMasterReqWriteMultipleHoldingRegister_def
    using assms(3) Write_Multiple_Holding
    by (intro master_ok_request [OF assms(1,2)]) (simp_all add: buf_gets_eq)
next
  case (Read_Write_Holding d ra rn vs wa wn)
  have "unat (1 + 9 + 2 * wn) = 10 + 2 * unat wn" using assms(3) Read_Write_Holding
    by (simp add: unat_word_ariths)
  then show ?thesis
    unfolding Read_Write_Holding run_request.simps eMBMasterReqReadWriteMultipleHoldingRegister_def
    using assms(3) Read_Write_Holding
    by (intro master_ok_request [OF assms(1,2)]) (simp_all add: buf_gets_eq)
next
  case (Write_Multiple_Coils d a n bs)
  have n: "unat (bit_bytes n) \<le> 244" "unat (bit_bytes n) \<le> length bs"
    using assms(3) Write_Multiple_Coils coil_bytes_fit by auto
  have "unat (ucast (bit_bytes n) :: u16) = unat (bit_bytes n)"
    using n(1) by (simp add: unsigned_ucast_eq take_bit_eq_mod)
  then have "unat (1 + 5 + ucast (bit_bytes n) :: u16) = 6 + unat (bit_bytes n)"
    using n(1) by (simp add: unat_word_ariths)
  then show ?thesis
    unfolding Write_Multiple_Coils run_request.simps eMBMasterReqWriteMultipleCoils_def Let_def
    using n by (intro master_ok_request [OF assms(1,2)]) (simp_all add: buf_gets_eq)
qed (simp_all add: eMBMasterReqReadHoldingRegister_def eMBMasterReqReadInputRegister_def
  eMBMasterReqReadCoils_def eMBMasterReqReadDiscreteInputs_def eMBMasterReqWriteHoldingRegister_def
  eMBMasterReqWriteCoil_def master_ok_request [OF assms(1,2)])

lemma raw_lengths:
  assumes "length bs \<le> 50"
  shows "unat (word_of_nat (length bs) :: u16) = length bs"
    "unat (ucast (word_of_nat (length bs) :: u16) :: u8) = length bs"
proof -
  show u: "unat (word_of_nat (length bs) :: u16) = length bs"
    by (rule unat_small_u16) (use assms in simp)
  show "unat (ucast (word_of_nat (length bs) :: u16) :: u8) = length bs"
    using assms by (simp only: unsigned_ucast_eq take_bit_eq_mod u) simp
qed

lemma master_ok_raw:
  assumes "master_ok s" "m_eSndState s = STATE_M_TX_IDLE" "length bs \<le> 50" "waiting s = Free"
  shows "\<exists>s'. master_step s (M_Raw_Request bs) = Some s' \<and> master_ok s'"
proof -
  obtain l :: u16 where l: "word_of_nat (length bs) = l" "unat l = length bs" "unat (ucast l :: u8) = length bs"
    using raw_lengths [OF assms(3)] by blast
  obtain raw where raw: "buf_puts (rs485_send_buf_not_modbus s) 0 bs = Some raw" "length raw = 50"
    using buf_puts_eq [of 0 bs "rs485_send_buf_not_modbus s"] assms(1,3) by (auto simp: master_ok_def)
  obtain buf where buf: "buf_puts (ucMasterRTUSndBuf s) 0 (take (length bs) raw) = Some buf" "length buf = 253"
    using buf_puts_eq [of 0 "take (length bs) raw" "ucMasterRTUSndBuf s"] assms(1,3) raw by (auto simp: master_ok_def)
  have st: "\<not> trans_start s" using assms(1,2) by (auto simp: master_ok_def)
  have g: "buf_gets raw 0 (length bs) = Some (take (length bs) raw)" using raw(2) assms(3) by (simp add: buf_gets_eq)
  have step: "master_step s (M_Raw_Request bs) =
      eMBMasterReqRead_not_rtu_datas raw l (s\<lparr> rs485_send_buf_not_modbus := raw \<rparr>)"
    using assms(4) raw(1) by (simp add: l(1))
  show ?thesis
  proof (cases "xMasterRunRes s = 0")
    case True
    have "master_ok (s\<lparr> rs485_send_buf_not_modbus := raw \<rparr>)"
      using assms(1) raw(2) st by (simp add: master_ok_def)
    with True show ?thesis unfolding step by (simp add: eMBMasterReqRead_not_rtu_datas_def)
  next
    case False
    define t where "t = (xMBMasterPortEventPost EV_MASTER_FRAME_SENT
        (s\<lparr> rs485_send_buf_not_modbus := raw, xMasterRunRes := xMasterRunRes s - 1, ucMasterRTUSndBuf := buf,
          mb_switch_flag := 1, mb_not_rtu_data_len := ucast l,
          usMasterSendPDULength := l \<rparr>))\<lparr> waiting := Waits_Raw_Reply \<rparr>"
    have "master_step s (M_Raw_Request bs) = Some t"
      using False buf g unfolding step by (simp add: eMBMasterReqRead_not_rtu_datas_def l(2) t_def)
    moreover have "master_ok t"
      using assms(1-3) raw(2) buf(2) st l(2,3)
      unfolding master_ok_def t_def by (simp add: master_port master_events bit_simps)
    ultimately show ?thesis by blast
  qed
qed

section \<open>Poll\<close>

text \<open>The parts of a poll keep the invariant; posting an event other than those of bits 2 and 3 does.\<close>

lemma master_ok_post:
  "\<not> bit ev 2 \<Longrightarrow> \<not> bit ev 3 \<Longrightarrow>
     master_ok (s\<lparr> xMasterOsEvent := event_flags_send (xMasterOsEvent s) ev \<rparr>) = master_ok s"
  by (cases "pucMasterSndBufferCur s") (simp_all add: master_ok_def event_flags_send_def bit_simps snd_source_def)

lemma master_ok_fields [simp]:
  "master_ok (s\<lparr> eMBMasterCurErrorType := e \<rparr>) = master_ok s"
  "master_ok (s\<lparr> m_ucRcvAddress := a \<rparr>) = master_ok s"
  "master_ok (s\<lparr> m_usLength := l \<rparr>) = master_ok s"
  "master_ok (s\<lparr> xMBRunInMasterMode := m \<rparr>) = master_ok s"
  "master_ok (s\<lparr> ucMBMasterDestAddress := a \<rparr>) = master_ok s"
  "master_ok (s\<lparr> xMasterRunRes := v \<rparr>) = master_ok s"
  "master_ok (s\<lparr> waiting := w \<rparr>) = master_ok s"
  "master_ok (s\<lparr> mb_switch_flag := f \<rparr>) = master_ok s"
  "master_ok (s\<lparr> second_waits := g \<rparr>) = master_ok s"
  "master_ok (s\<lparr> second_replies := es \<rparr>) = master_ok s"
  by (cases "pucMasterSndBufferCur s"; simp add: master_ok_def snd_source_def)+

lemma states_ok_frame: "states_ok a b c fr \<Longrightarrow> states_ok a b c (Some x)"
  by (cases a) auto

lemma master_ok_frame: "master_ok s \<Longrightarrow> master_ok (s\<lparr> m_ucMBFrame := Some fr \<rparr>)"
  by (cases "pucMasterSndBufferCur s") (auto simp: master_ok_def snd_source_def states_ok_frame)

lemma master_ok_regs: "master_ok s \<Longrightarrow> master_regs_wf r \<Longrightarrow> master_ok (s\<lparr> m_regs := r \<rparr>)"
  by (cases "pucMasterSndBufferCur s") (auto simp: master_ok_def snd_source_def)

lemma master_ok_error [simp]: "master_ok (master_error e s) = master_ok s"
  using master_ok_post [of EV_MASTER_ERROR_PROCESS "s\<lparr> eMBMasterCurErrorType := e \<rparr>"]
  by (simp add: master_error_def xMBMasterPortEventPost_def master_events)

lemma master_ok_release [simp]: "master_ok (vMBMasterRunResRelease s) = master_ok s"
  by (simp add: vMBMasterRunResRelease_def)

lemma master_ok_success [simp]: "master_ok (vMBMasterCBRequestScuuess s) = master_ok s"
  by (simp add: vMBMasterCBRequestScuuess_def master_events master_ok_post)

lemma master_ok_error_process: "master_ok s \<Longrightarrow> master_ok (master_error_process s)"
  using master_ok_frame [of s Snd_PDU] master_ok_post [of _ "s\<lparr> m_ucMBFrame := Some Snd_PDU \<rparr>"]
  by (cases "eMBMasterCurErrorType s")
     (simp_all add: master_error_process_def vMBMasterErrorCB_def Let_def master_events)

lemma master_ok_received:
  assumes "master_ok s" "unat (usMasterRcvBufferPos s) < 256"
  shows "\<exists>s'. master_received s = Some s' \<and> master_ok s'"
proof -
  have "length (ucMasterRTURcvBuf s) = 256" using assms(1) by (simp add: master_ok_def)
  from eMBMasterRTUReceive_eq [OF this assms(2)] obtain res where res: "eMBMasterRTUReceive s = Some res" by blast
  have x: "master_ok (xMBMasterPortEventPost EV_MASTER_EXECUTE t)" if "master_ok t" "m_ucMBFrame t \<noteq> None" for t
    using that by (cases "pucMasterSndBufferCur t")
      (auto simp: xMBMasterPortEventPost_def master_events event_flags_send_def master_ok_def bit_simps snd_source_def)
  show ?thesis
  proof (cases res)
    case (Inl e)
    with res assms(1) show ?thesis by (simp add: master_received_def)
  next
    case (Inr q)
    obtain a fr l where "q = (a, fr, l)" by (cases q) auto
    then show ?thesis
      using Inr res master_ok_frame [of "s\<lparr> m_ucRcvAddress := a \<rparr>" fr] assms(1)
        x [of "s\<lparr> m_ucRcvAddress := a, m_ucMBFrame := Some fr, m_usLength := l \<rparr>"]
      by (auto simp: master_received_def Let_def)
  qed
qed

lemma master_ok_sent:
  assumes "master_ok s" "m_eSndState s = STATE_M_TX_IDLE" "\<not> bit (xMasterOsEvent s) 3"
  shows "\<exists>s'. master_sent s = Some s' \<and> master_ok s'"
proof (cases "m_eRcvState s = STATE_M_RX_IDLE")
  case False
  then show ?thesis using assms master_ok_frame [OF assms(1), of Snd_PDU]
    by (auto simp: master_sent_def eMBMasterRTUSend_def eMBMaster_Send_not_datas_def Let_def)
next
  case idle: True
  define s1 where "s1 = s\<lparr> m_ucMBFrame := Some Snd_PDU \<rparr>"
  have ok1: "master_ok s1" using master_ok_frame [OF assms(1)] by (simp add: s1_def)
  have l: "unat (ucast (mb_not_rtu_data_len s) :: u16) = unat (mb_not_rtu_data_len s)"
    using unsigned_less [where ?'a = nat, of "mb_not_rtu_data_len s"]
    by (simp add: unsigned_ucast_eq take_bit_eq_mod)
  have tm: "\<not> m_timer_on s" using assms(1,2) idle by (simp add: master_ok_def)
  show ?thesis
  proof (cases "mb_switch_flag s = 0 \<and> unat (ucMBMasterDestAddress s) \<le> 16")
    case True
    have len: "length (ucMasterRTUSndBuf s1) = 253" "unat (usMasterSendPDULength s) \<le> 250"
      using ok1 assms(1) by (simp_all add: master_ok_def)
    have u: "unat (usMasterSendPDULength s + 3) = unat (usMasterSendPDULength s) + 3"
      using len(2) by (simp add: unat_word_ariths)
    show ?thesis
      using eMBMasterRTUSend_eq [of s1 "ucMBMasterDestAddress s" "usMasterSendPDULength s"] True idle len ok1 tm u assms(3)
      by (auto simp: master_sent_def Let_def s1_def master_ok_def snd_source_def rtu_seal_def)
  next
    case False
    show ?thesis
    proof (cases "mb_switch_flag s = 0")
      case True
      with False assms ok1 show ?thesis
        by (auto simp: master_sent_def Let_def s1_def eMBMasterRTUSend_def MB_MASTER_TOTAL_SLAVE_NUM_def)
    next
      case False
      with idle ok1 tm l assms(3) show ?thesis
        by (auto simp: master_sent_def Let_def s1_def eMBMasterRTUSend_def eMBMaster_Send_not_datas_def master_port
            master_ok_def snd_source_def)
    qed
  qed
qed

lemma dest_loop: "1 \<le> unat j \<Longrightarrow> unat j + n \<le> 17 \<Longrightarrow> 0 < n \<Longrightarrow> dest_ok (j :: u8)"
  by (simp add: dest_ok_def)

lemma master_ok_call:
  assumes "master_ok s" "dest_ok (ucMBMasterDestAddress s)" "master_clear h (call_of fr s)"
  shows "\<exists>r e. call_once h fr s = Some (s\<lparr> m_regs := r \<rparr>, e) \<and> master_ok (s\<lparr> m_regs := r \<rparr>)"
proof -
  have l: "length (ucMasterRTUSndBuf s) = 253" "length (ucMasterRTURcvBuf s) = 256" "master_regs_wf (m_regs s)"
    using assms(1) by (simp_all add: master_ok_def)
  then have "master_call_ok (call_of fr s)"
    using assms(2) by (cases fr) (simp_all add: master_call_ok_def call_of_def pdu_of_def)
  from call_master_handler_stored [OF l(3) this assms(3)] obtain r e
    where "call_master_handler h (call_of fr s) (m_regs s) = Some (r, e)" "master_regs_wf r"
    by (auto simp: stored_def)
  then show ?thesis using master_ok_regs [OF assms(1), of r]
    by (intro exI [of _ r] exI [of _ e]) (simp add: call_once_def)
qed

lemma pdu_of_update [simp]:
  "pdu_of fr (s\<lparr> ucMBMasterDestAddress := a \<rparr>) = pdu_of fr s"
  "pdu_of fr (s\<lparr> m_regs := r \<rparr>) = pdu_of fr s"
  "pdu_of fr (s\<lparr> m_usLength := l \<rparr>) = pdu_of fr s"
  "pdu_of fr (s\<lparr> xMBRunInMasterMode := b \<rparr>) = pdu_of fr s"
  by (cases fr; simp add: pdu_of_def)+

text \<open>Whether the bits of a call stay clear depends on its frames only.\<close>

lemma master_clear_cong:
  "snd_pdu c = snd_pdu d \<Longrightarrow> frame c = frame d \<Longrightarrow> master_clear h c = master_clear h d"
  by (cases h) (simp_all add: Let_def)

lemma master_ok_call_slaves:
  "master_ok s \<Longrightarrow> 1 \<le> unat j \<Longrightarrow> unat j + n \<le> 17 \<Longrightarrow> master_clear h (call_of fr s) \<Longrightarrow>
     \<exists>s' e'. call_slaves h fr j n (s, e) = Some (s', e') \<and> master_ok s'"
proof (induction n arbitrary: j s e)
  case 0
  then show ?case by simp
next
  case (Suc n)
  define s1 where "s1 = s\<lparr> ucMBMasterDestAddress := j \<rparr>"
  have c1: "master_clear h (call_of fr s1)"
    using Suc.prems(4) master_clear_cong [of "call_of fr s1" "call_of fr s" h]
    by (simp add: call_of_def s1_def)
  have "master_ok s1" using Suc.prems(1) by (simp add: s1_def)
  moreover have "dest_ok (ucMBMasterDestAddress s1)"
    using dest_loop [of j "Suc n"] Suc.prems(2,3) by (simp add: s1_def)
  ultimately obtain r e1 where r: "call_once h fr s1 = Some (s1\<lparr> m_regs := r \<rparr>, e1)" "master_ok (s1\<lparr> m_regs := r \<rparr>)"
    using master_ok_call [OF _ _ c1] by blast
  have j: "unat (j + 1) = unat j + 1" using Suc.prems(3) by (simp add: unat_word_ariths)
  have "\<exists>s' e'. call_slaves h fr (j + 1) n (s1\<lparr> m_regs := r \<rparr>, e1) = Some (s', e') \<and> master_ok s'"
  proof (rule Suc.IH [OF r(2)])
    show "master_clear h (call_of fr (s1\<lparr> m_regs := r \<rparr>))"
      using c1 master_clear_cong [of "call_of fr (s1\<lparr> m_regs := r \<rparr>)" "call_of fr s1" h]
      by (simp add: call_of_def)
  qed (use Suc.prems(2,3) j in simp_all)
  then show ?case using r(1) by (simp add: s1_def)
qed

lemma master_ok_handler:
  assumes "master_ok s" "xFrameIsBroadcast s \<or> dest_ok (ucMBMasterDestAddress s)" "master_clear h (call_of fr s)"
  shows "\<exists>s' e. run_handler h fr s = Some (s', e) \<and> master_ok s'"
proof -
  define s1 where "s1 = s\<lparr> xMBRunInMasterMode := True \<rparr>"
  define s2 where "s2 = s1\<lparr> m_usLength := usMasterSendPDULength s1 \<rparr>"
  have ok: "master_ok s1" "master_ok s2" using assms(1) by (simp_all add: s1_def s2_def)
  have c: "master_clear h (call_of fr s1)" "master_clear h (call_of fr s2)"
    using assms(3) master_clear_cong [of "call_of fr s1" "call_of fr s" h]
      master_clear_cong [of "call_of fr s2" "call_of fr s" h]
    by (simp_all add: call_of_def s1_def s2_def)
  show ?thesis
  proof (cases "xFrameIsBroadcast s")
    case True
    obtain t e where "call_slaves h fr 1 16 (s2, MB_EX_ILLEGAL_FUNCTION) = Some (t, e)" "master_ok t"
      using master_ok_call_slaves [OF ok(2) _ _ c(2), of 1 16 MB_EX_ILLEGAL_FUNCTION] by auto
    with True show ?thesis
      by (simp add: run_handler_def Let_def MB_MASTER_TOTAL_SLAVE_NUM_def s1_def [symmetric] s2_def [symmetric])
         (simp add: s1_def)
  next
    case False
    with assms(2) have "dest_ok (ucMBMasterDestAddress s1)" by (simp add: s1_def)
    from master_ok_call [OF ok(1) this c(1)] obtain t e where t: "call_once h fr s1 = Some (t, e)" "master_ok t"
      by blast
    have "run_handler h fr s = Some (t\<lparr> xMBRunInMasterMode := False \<rparr>, e)"
      using False t(1) by (simp add: run_handler_def Let_def s1_def)
    with t(2) show ?thesis by simp
  qed
qed

lemma master_ok_execute:
  assumes "master_ok s" "m_ucMBFrame s \<noteq> None"
    "\<forall>fr h. m_ucMBFrame s = Some fr \<longrightarrow> find_handler (pdu_of fr s ! 0) xMasterFuncHandlers = Some (Some h) \<longrightarrow>
        (xFrameIsBroadcast s \<or> dest_ok (ucMBMasterDestAddress s)) \<and> master_clear h (call_of fr s)"
  shows "\<exists>s'. master_execute s = Some s' \<and> master_ok s'"
proof -
  obtain fr where fr: "m_ucMBFrame s = Some fr" using assms(2) by blast
  have l: "length (ucMasterRTUSndBuf s) = 253" "length (ucMasterRTURcvBuf s) = 256"
    using assms(1) by (simp_all add: master_ok_def)
  have p: "2 \<le> length (pdu_of fr s)" using l by (cases fr) (simp_all add: pdu_of_def)
  then have p0: "pdu_of fr s \<noteq> []" "Suc 0 < length (pdu_of fr s)" by auto
  have nn: "find_handler c xMasterFuncHandlers \<noteq> Some None" for c
    using find_handler_entry [of c xMasterFuncHandlers None] by (auto simp: xMasterFuncHandlers_def slave_consts)
  have "\<exists>s1 b. master_exception fr s = Some (s1, b) \<and> master_ok s1"
  proof (cases "find_handler (pdu_of fr s ! 0) xMasterFuncHandlers")
    case None
    with p0 assms(1) show ?thesis by (auto simp: master_exception_def)
  next
    case (Some q)
    then obtain h where h: "find_handler (pdu_of fr s ! 0) xMasterFuncHandlers = Some (Some h)"
      using nn by (cases q) auto
    with master_ok_handler [OF assms(1), of h fr] assms(3) fr obtain t e where
      "run_handler h fr s = Some (t, e)" "master_ok t" by blast
    with h p0 assms(1) show ?thesis by (auto simp: master_exception_def)
  qed
  then show ?thesis using fr by (auto simp: master_execute_def)
qed

lemma master_ok_poll:
  assumes "master_ok s" "master_event_ok s (M_Poll_Runs junk)"
  shows "\<exists>s' o'. eMBMasterPoll junk s = Some (s', o') \<and> master_ok s'"
proof (cases "m_eMBState s = STATE_ENABLED")
  case False
  with assms(1) show ?thesis by (simp add: eMBMasterPoll_def)
next
  case en: True
  show ?thesis
  proof (cases "xMBMasterPortEventGet junk s")
    case None
    with en assms(1) show ?thesis by (simp add: eMBMasterPoll_def)
  next
    case (Some q)
    obtain s1 ev where q: "q = (s1, ev)" by (cases q) auto
    have m: "EV_MASTER_READY OR EV_MASTER_FRAME_RECEIVED OR EV_MASTER_EXECUTE OR EV_MASTER_FRAME_SENT OR
        EV_MASTER_ERROR_PROCESS = 31"
      by (simp add: master_events)
    have b31: "bit (31 :: u32) 2" "bit (31 :: u32) 3" by simp_all
    from Some q have s1: "s1 = s\<lparr> xMasterOsEvent := xMasterOsEvent s AND NOT 31 \<rparr>"
      and ev: "ev = xMasterOsEvent s AND 31 \<or> ev = junk"
      by (auto simp: xMBMasterPortEventGet_def rt_event_recv_or_def m split: if_splits)
    have ok1: "master_ok s1" using assms(1) b31
      by (cases "pucMasterSndBufferCur s") (auto simp: s1 master_ok_def bit_simps snd_source_def)
    have b: "bit (xMasterOsEvent s) 2" if "ev = EV_MASTER_EXECUTE"
    proof -
      have "xMasterOsEvent s AND 31 = 4" using ev that assms(2) by (auto simp: master_events)
      then have "bit (xMasterOsEvent s AND 31) 2" by simp
      then show ?thesis by (simp add: bit_and_iff)
    qed
    have p: "pdu_of fr s1 = pdu_of fr s" "call_of fr s1 = call_of fr s" for fr
      by (cases fr; simp add: s1 pdu_of_def call_of_def)+
    have e: "\<exists>s2. master_execute s1 = Some s2 \<and> master_ok s2" if "ev = EV_MASTER_EXECUTE"
      using master_ok_execute [OF ok1] b [OF that] assms unfolding p by (simp add: s1 master_ok_def)
    have t: "\<exists>s2. master_sent s1 = Some s2 \<and> master_ok s2" if "ev = EV_MASTER_FRAME_SENT"
    proof -
      have "xMasterOsEvent s AND 31 = 8" using ev that assms(2) by (auto simp: master_events)
      then have "bit (xMasterOsEvent s AND 31) 3" by simp
      then have "m_eSndState s1 = STATE_M_TX_IDLE" using assms(1) by (simp add: bit_and_iff master_ok_def s1)
      then show ?thesis using master_ok_sent [OF ok1] b31 by (simp add: s1 bit_simps)
    qed
    have r: "\<exists>s2. master_received s1 = Some s2 \<and> master_ok s2"
      using master_ok_received [OF ok1] assms(2) by (simp add: s1)
    show ?thesis
      using en Some q e t r ok1 master_ok_error_process [OF ok1] by (auto simp: eMBMasterPoll_def)
  qed
qed

lemma master_ok_wait:
  assumes "master_ok s" "eMBMasterWaitRequestFinish s = Some (s1, e)"
  shows "master_ok s1"
proof -
  have b: "bit (x AND NOT f) n \<Longrightarrow> bit x n" for x f :: u32 and n by (simp add: bit_simps)
  define x where "x = EV_MASTER_PROCESS_SUCESS OR EV_MASTER_ERROR_RESPOND_TIMEOUT OR
    EV_MASTER_ERROR_RECEIVE_DATA OR EV_MASTER_ERROR_EXECUTE_FUNCTION"
  have "s1 = s\<lparr> xMasterOsEvent := xMasterOsEvent s AND NOT x \<rparr>"
    using assms(2) by (cases "xMasterOsEvent s AND x = 0")
      (simp_all add: eMBMasterWaitRequestFinish_def rt_event_recv_or_def x_def [symmetric])
  then show ?thesis
    using assms(1) b by (cases "pucMasterSndBufferCur s") (auto simp: master_ok_def snd_source_def)
qed

lemma master_ok_requester: "master_ok s \<Longrightarrow> master_ok (requester_runs s)"
  using master_ok_wait [of s] by (auto simp: requester_runs_def split: option.splits)

section \<open>The second requester\<close>

lemma master_ok_second_runs: "master_ok s \<Longrightarrow> master_ok (second_runs s)"
  using master_ok_wait [of s] by (auto simp: second_runs_def split: option.splits)

lemma master_ok_second_prepares:
  assumes "master_ok s" "length bs \<le> 50"
  shows "\<exists>s'. master_step s (M_Second_Prepares bs) = Some s' \<and> master_ok s'"
  using assms buf_puts_eq [of 0 bs "rs485_send_buf_not_modbus s"]
  by (cases "pucMasterSndBufferCur s") (auto simp: master_ok_def buf_set_def snd_source_def)

lemma master_ok_second_starts:
  assumes "master_ok s" "\<not> second_waits s \<and> xMasterRunRes s \<noteq> 0 \<longrightarrow> m_eSndState s = STATE_M_TX_IDLE \<and> unat len \<le> 50"
  shows "\<exists>s'. second_starts len s = Some s' \<and> master_ok s'"
proof (cases "second_waits s \<or> xMasterRunRes s = 0")
  case True
  then show ?thesis using assms(1) by (auto simp: second_starts_def)
next
  case False
  then have tx: "m_eSndState s = STATE_M_TX_IDLE" "unat len \<le> 50" using assms(2) by simp_all
  have r: "length (rs485_send_buf_not_modbus s) = 50" "length (ucMasterRTUSndBuf s) = 253" using assms(1) by (simp_all add: master_ok_def)
  obtain buf where buf: "buf_puts (ucMasterRTUSndBuf s) 0 (take (unat len) (rs485_send_buf_not_modbus s)) = Some buf" "length buf = 253"
    using buf_puts_eq [of 0 "take (unat len) (rs485_send_buf_not_modbus s)" "ucMasterRTUSndBuf s"] tx r by auto
  have st: "\<not> trans_start s" using assms(1) tx by (auto simp: master_ok_def)
  have u: "unat (ucast len :: u8) = unat len" using tx(2) by (simp add: unsigned_ucast_eq take_bit_eq_mod)
  define t where "t = (xMBMasterPortEventPost EV_MASTER_FRAME_SENT
      (s\<lparr> xMasterRunRes := xMasterRunRes s - 1, ucMasterRTUSndBuf := buf, mb_switch_flag := 1,
        mb_not_rtu_data_len := ucast len, usMasterSendPDULength := len \<rparr>))\<lparr> second_waits := True \<rparr>"
  have "second_starts len s = Some t"
    using False buf r tx by (simp add: second_starts_def buf_gets_eq t_def)
  moreover have "master_ok t"
    using assms(1) tx r buf(2) st u unfolding master_ok_def t_def by (simp add: master_port master_events bit_simps)
  ultimately show ?thesis by blast
qed

section \<open>The machine is safe\<close>

interpretation master: safe_machine master_step master_ok master_event_ok
proof
  fix s e assume s: "master_ok s" "master_event_ok s e"
  show "\<exists>s'. master_step s e = Some s' \<and> master_ok s'"
  proof (cases e)
    case (M_Rx_Byte b)
    then show ?thesis using master_ok_rx [OF s(1), of b] s by (cases "m_eMBState s = STATE_NOT_INITIALIZED") auto
  next
    case M_Timer_Expires
    then show ?thesis using master_ok_timer [OF s(1)] s(1) by (cases "m_timer_on s") auto
  next
    case M_Tx_Ready
    then show ?thesis using master_ok_tx [OF s(1)] s(1) by (cases "trans_start s") auto
  next
    case (M_Poll_Runs junk)
    then show ?thesis using master_ok_poll [OF s(1), of junk] s(2) by auto
  next
    case (M_Request req)
    then show ?thesis using master_ok_run_request [OF s(1), of req] s by (cases "waiting s = Free") auto
  next
    case (M_Raw_Request bs)
    then show ?thesis using master_ok_raw [OF s(1), of bs] s by (cases "waiting s = Free") auto
  next
    case M_Requester_Runs
    then show ?thesis using master_ok_requester [OF s(1)] by simp
  next
    case (M_Second_Prepares bs)
    then show ?thesis using master_ok_second_prepares [OF s(1)] s(2) by simp
  next
    case (M_Second_Starts len)
    then show ?thesis using master_ok_second_starts [OF s(1)] s(2) by simp
  next
    case M_Second_Runs
    then show ?thesis using master_ok_second_runs [OF s(1)] by simp
  qed
qed

end
