(* ===== verification/Mb_Slave_Answer.thy ===== *)
theory Mb_Slave_Answer
  imports Mb_Slave
begin

text \<open>
  The Modbus slave from end to end: the bytes of a request in, the bytes of the answer out. The
  abstract slave is a function from the registers and a request to the new registers and the
  response; the interrupts, the timer and the polls of \<open>Mb_Slave\<close> implement it.
\<close>

section \<open>The abstract slave\<close>

text \<open>What the handler table makes of the PDU at the start of the buffer part \<open>f\<close>.\<close>

definition pdu_response :: "slave_regs \<Rightarrow> u8 list \<Rightarrow> u16 \<Rightarrow> (slave_regs \<times> u8 list) option" where
  "pdu_response r f len = do {
     (r', f', len', e) \<leftarrow> (case find_handler (f ! 0) handlers_init of
         Some (Some h) \<Rightarrow> call_handler h r f len
       | _ \<Rightarrow> Some (r, f, len, MB_EX_ILLEGAL_FUNCTION));
     Some (r', if e = MB_EX_NONE then take (unat len') f' else [f ! 0 OR 0x80, exception_code e]) }"

definition pdu_clear :: "u8 list \<Rightarrow> bool" where
  "pdu_clear f \<longleftrightarrow> (\<forall>h. find_handler (f ! 0) handlers_init = Some (Some h) \<longrightarrow> request_clear h f)"

text \<open>The slave waiting for a request.\<close>

definition listening :: "mb_slave \<Rightarrow> bool" where
  "listening s \<longleftrightarrow> eMBState s = STATE_ENABLED \<and> rx_ready s \<and> serial_rx s \<and> \<not> serial_tx s \<and> \<not> timer_on s \<and>
     xSlaveOsEvent s = 0 \<and> slave_regs_wf (regs s) \<and> xFuncHandlers s = handlers_init"

section \<open>Steps\<close>

lemma rx_keeps_serial: "xMBRTUReceiveFSM s b = Some t \<Longrightarrow> serial_rx t = serial_rx s"
  by (cases "eSndState s"; cases "eRcvState s")
     (auto simp: xMBRTUReceiveFSM_def slave_port bind_eq_Some_conv split: if_splits)

lemma rx_steps:
  "serial_rx s \<Longrightarrow> run_steps slave_step s (map Rx_Byte bs) = run_steps xMBRTUReceiveFSM s bs"
proof (induction bs arbitrary: s)
  case Nil
  then show ?case by simp
next
  case (Cons b bs)
  have "serial_rx t" if "xMBRTUReceiveFSM s b = Some t" for t
    using rx_keeps_serial [OF that] Cons.prems by simp
  then show ?case using Cons by (cases "xMBRTUReceiveFSM s b") auto
qed

lemma tx_steps:
  "serial_tx s \<Longrightarrow> tx_sending s bs \<Longrightarrow>
     run_steps slave_step s (replicate (Suc (length bs)) Tx_Ready) = Some (tx_finish (tx_emitted bs s))"
proof -
  have "serial_tx s \<Longrightarrow> tx_sending s bs \<Longrightarrow> run_steps slave_step s (replicate (Suc (length bs)) Tx_Ready) =
      run_steps (\<lambda>s _. xMBRTUTransmitFSM s) s (replicate (Suc (length bs)) ())"
  proof (induction bs arbitrary: s)
    case Nil
    then show ?case by simp
  next
    case (Cons b bs)
    from slave_tx.tx_byte [OF Cons.prems(2)] Cons.prems(1) Cons.IH [of "tx_emitted [b] s"]
    show ?case by (simp add: tx_emitted_def)
  qed
  then show "serial_tx s \<Longrightarrow> tx_sending s bs \<Longrightarrow> ?thesis" using slave_tx.tx_frame [of s bs] by simp
qed

lemma event_get_one:
  assumes "xSlaveOsEvent s = ev" "ev = EV_READY \<or> ev = EV_FRAME_RECEIVED \<or> ev = EV_EXECUTE \<or> ev = EV_FRAME_SENT"
  shows "xMBPortEventGet junk s = Some (s\<lparr> xSlaveOsEvent := 0 \<rparr>, ev)"
proof -
  have m: "EV_READY OR EV_FRAME_RECEIVED OR EV_EXECUTE OR EV_FRAME_SENT = 15" by (simp add: slave_events)
  have "ev AND 15 = ev" "ev AND NOT 15 = 0" "ev \<noteq> 0"
    using assms(2) by (elim disjE; simp add: slave_events)+
  then show ?thesis
    using assms by (simp add: xMBPortEventGet_def rt_event_recv_or_def m)
qed

text \<open>After the frame and the silence: the frame is in the buffer and the poll is told.\<close>

definition frame_in :: "mb_slave \<Rightarrow> u8 list \<Rightarrow> mb_slave" where
  "frame_in s bs = s\<lparr> ucRTUBuf := bs @ drop (length bs) (ucRTUBuf s), usRcvBufferPos := word_of_nat (length bs),
     xSlaveOsEvent := EV_FRAME_RECEIVED \<rparr>"

lemma frame_arrives:
  assumes "listening s" "bs \<noteq> []" "length bs \<le> 256"
  shows "run_steps slave_step s (map Rx_Byte bs @ [Timer_Expires]) = Some (frame_in s bs)"
proof -
  have "run_steps slave_step s (map Rx_Byte bs) = Some (rx_got s bs)"
    using assms slave_rx.rx_frame [of s bs] by (simp add: rx_steps listening_def)
  then show ?thesis
    using assms(1)
    by (simp add: run_steps_append rx_got_def frame_in_def xMBRTUTimerT35Expired_def slave_port
        listening_def rx_ready_def)
qed

lemma frame_in_receive:
  assumes "listening s" "length bs < 256"
  shows "eMBRTUReceive (frame_in s bs) =
    Some (if 4 \<le> length bs \<and> rtu_accept bs then Inr (bs ! 0, 1, word_of_nat (length bs - 3)) else Inl MB_EIO)"
proof -
  have u: "unat (word_of_nat (length bs) :: u16) = length bs"
    by (rule unat_small_u16) (use assms(2) in simp)
  have l: "length (ucRTUBuf (frame_in s bs)) = 256"
    using assms by (simp add: frame_in_def listening_def rx_ready_def)
  have "unat (usRcvBufferPos (frame_in s bs)) < 256" using assms(2) by (simp add: frame_in_def u)
  from eMBRTUReceive_eq [OF l this]
  have "eMBRTUReceive (frame_in s bs) = Some (if 4 \<le> length bs \<and> crc16 bs = 0
      then Inr ((bs @ drop (length bs) (ucRTUBuf s)) ! 0, 1, word_of_nat (length bs) - 3) else Inl MB_EIO)"
    by (simp add: frame_in_def u)
  moreover have "rtu_accept bs = (2 \<le> length bs \<and> crc16 bs = 0)"
    by (rule rtu_accept_crc) (use assms(2) in simp)
  moreover have "(word_of_nat (length bs) :: u16) - 3 = word_of_nat (length bs - 3)" if "4 \<le> length bs"
    using that by (simp add: of_nat_diff)
  moreover have "(bs @ drop (length bs) (ucRTUBuf s)) ! 0 = bs ! 0" if "4 \<le> length bs"
    using that by (cases bs) simp_all
  ultimately show ?thesis by auto
qed

section \<open>The answer\<close>

text \<open>The poll that executes the request, for a frame addressed to this slave.\<close>

lemma execute_answers:
  assumes "ucMBFrame s = Some 1" "ucRcvAddress s \<noteq> MB_ADDRESS_BROADCAST" "length (ucRTUBuf s) = 256"
    "slave_regs_wf (regs s)" "xFuncHandlers s = handlers_init" "eRcvState s = STATE_RX_IDLE"
    "unat (usLength s) \<le> 252" "pdu_clear (drop 1 (ucRTUBuf s))"
    "pdu_response (regs s) (drop 1 (ucRTUBuf s)) (usLength s) = Some (r', resp)"
  shows "\<exists>s'. poll_execute s = Some s' \<and> serial_tx s' \<and> tx_sending s' (rtu_seal (ucMBAddress s # resp)) \<and>
    s' = s\<lparr> regs := r', ucRTUBuf := ucRTUBuf s', usLength := usLength s', pucSndBufferCur := 0,
      usSndBufferCount := usSndBufferCount s', eSndState := STATE_TX_XMIT, serial_rx := False, serial_tx := True \<rparr> \<and>
    length (ucRTUBuf s') = 256 \<and> slave_regs_wf r'"
proof -
  define f where "f = drop 1 (ucRTUBuf s)"
  have f: "length f = 255" "ucRTUBuf s ! 1 = f ! 0" using assms(3) by (simp_all add: f_def)
  obtain r1 f1 l1 e where call: "(case find_handler (f ! 0) handlers_init of
         Some (Some h) \<Rightarrow> call_handler h (regs s) f (usLength s)
       | _ \<Rightarrow> Some (regs s, f, usLength s, MB_EX_ILLEGAL_FUNCTION)) = Some (r1, f1, l1, e)"
    and r': "r' = r1" "resp = (if e = MB_EX_NONE then take (unat l1) f1 else [f ! 0 OR 0x80, exception_code e])"
    using assms(9) unfolding pdu_response_def f_def [symmetric] by (auto simp: bind_eq_Some_conv)
  have ok: "slave_regs_wf r1 \<and> length f1 = 255 \<and> unat l1 \<le> 252"
  proof (cases "\<exists>h. find_handler (f ! 0) handlers_init = Some (Some h)")
    case True
    then obtain h where h: "find_handler (f ! 0) handlers_init = Some (Some h)" by blast
    have "handler_ok f (usLength s) (call_handler h (regs s) f (usLength s))"
      using assms(4,8) h f by (intro call_handler_ok) (simp_all add: pdu_clear_def f_def)
    with call h show ?thesis using f(1) assms(7) by (auto simp: handler_ok_def max_def split: if_splits)
  next
    case False
    then have "regs s = r1 \<and> f = f1 \<and> usLength s = l1" using call by (auto split: option.splits)
    with assms(4,7) f show ?thesis by auto
  qed
  have nn: "find_handler (f ! 0) handlers_init \<noteq> Some None"
    using find_handler_entry [of "f ! 0" handlers_init None]
    by (auto simp: handlers_init_def slave_consts)
  define s1 where "s1 = s\<lparr> regs := r1, ucRTUBuf := take 1 (ucRTUBuf s) @ f1, usLength := l1 \<rparr>"
  have "drop (Suc 0) (ucRTUBuf s) = f" by (simp add: f_def)
  moreover have "take (Suc 0) (ucRTUBuf s) @ f = ucRTUBuf s" by (simp add: f_def)
  ultimately have pc: "poll_call s 1 = Some (s1, f ! 0, e)"
    using call nn assms(3,5) f
    by (auto simp: poll_call_def s1_def split: option.splits)
  define s2 where "s2 = (if e = MB_EX_NONE then s1
      else s1\<lparr> ucRTUBuf := (ucRTUBuf s1)[1 := f ! 0 OR MB_FUNC_ERROR, 2 := exception_code e], usLength := 2 \<rparr>)"
  have s2: "length (ucRTUBuf s2) = 256" "eRcvState s2 = STATE_RX_IDLE" "unat (usLength s2) \<le> 253"
    "ucMBAddress s2 = ucMBAddress s" "unat (usLength s2) = length resp"
    using ok assms(3,6) by (auto simp: s2_def s1_def r'(2))
  have resp: "take (unat (usLength s2)) (drop 1 (ucRTUBuf s2)) = resp"
  proof (cases "e = MB_EX_NONE")
    case True
    then show ?thesis using assms(3) by (simp add: s2_def s1_def r'(2))
  next
    case False
    have "Suc (Suc (Suc 0)) \<le> length (ucRTUBuf s1)" using ok assms(3) by (simp add: s1_def)
    then obtain x y z b where "ucRTUBuf s1 = x # y # z # b" by (auto simp only: Suc_le_length_iff)
    with False show ?thesis by (simp add: s2_def r'(2) slave_consts)
  qed
  define s3 where "s3 = s2\<lparr>
      ucRTUBuf := rtu_seal (ucMBAddress s # resp) @ drop (unat (usLength s2) + 3) (ucRTUBuf s2),
      pucSndBufferCur := 0, usSndBufferCount := usLength s2 + 3, eSndState := STATE_TX_XMIT,
      serial_rx := False, serial_tx := True \<rparr>"
  have send: "eMBRTUSend (ucMBAddress s2) 1 (usLength s2) s2 = Some (s3, MB_ENOERR)"
    using eMBRTUSend_eq [OF s2(2,1,3), of "ucMBAddress s"] unfolding s2(4) resp s3_def .
  have lr: "length (rtu_seal (ucMBAddress s # resp)) = unat (usLength s2) + 3"
    using s2(5) by (simp add: rtu_seal_def)
  have cnt: "usLength s2 + 3 = word_of_nat (unat (usLength s2) + 3)" by simp
  have "tx_sending s3 (rtu_seal (ucMBAddress s # resp))"
    using lr s2(2,3) cnt by (simp add: tx_sending_def s3_def del: of_nat_add)
  moreover have "poll_execute s = Some s3"
  proof -
    have a: "ucRcvAddress s1 = ucRcvAddress s" by (simp add: s1_def)
    have b: "length (ucRTUBuf s1) = 256" using ok assms(3) by (simp add: s1_def)
    show ?thesis
      using pc send assms(1,2) a b
      by (cases "e = MB_EX_NONE") (simp_all add: poll_execute_def s2_def numeral_2_eq_2)
  qed
  moreover have "length (ucRTUBuf s3) = 256" using lr s2(1,3) by (simp add: s3_def)
  ultimately show ?thesis
    using ok by (intro exI [of _ s3]) (auto simp: s3_def s2_def s1_def r'(1))
qed

text \<open>A frame for this slave, polled: the poll is told to execute it.\<close>

definition request_in :: "mb_slave \<Rightarrow> u8 list \<Rightarrow> mb_slave" where
  "request_in s bs = (frame_in s bs)\<lparr> xSlaveOsEvent := EV_EXECUTE, ucRcvAddress := bs ! 0, ucMBFrame := Some 1,
     usLength := word_of_nat (length bs - 3) \<rparr>"

lemma request_polled:
  assumes "listening s" "fr = rtu_seal (ucMBAddress s # pdu)" "1 \<le> length pdu" "length pdu \<le> 252"
  shows "run_steps slave_step s (map Rx_Byte fr @ [Timer_Expires, Poll_Runs j]) = Some (request_in s fr)"
proof -
  have lf: "length fr = length pdu + 3" using assms(2) by (simp add: rtu_seal_def)
  have acc: "rtu_accept fr" unfolding assms(2) by (rule rtu.accept_seal) (use assms(4) in simp)
  have nf: "fr \<noteq> []" "length fr < 256" using lf assms(4) by auto
  have s1: "run_steps slave_step s (map Rx_Byte fr @ [Timer_Expires]) = Some (frame_in s fr)"
    using frame_arrives [OF assms(1) nf(1)] nf(2) by simp
  have en: "eMBState (frame_in s fr) = STATE_ENABLED" using assms(1) by (simp add: listening_def frame_in_def)
  have "eMBRTUReceive ((frame_in s fr)\<lparr> xSlaveOsEvent := 0 \<rparr>) = eMBRTUReceive (frame_in s fr)"
    by (simp add: eMBRTUReceive_def cong: if_cong)
  also have "\<dots> = Some (Inr (ucMBAddress s, 1, word_of_nat (length pdu)))"
    using frame_in_receive [OF assms(1) nf(2)] acc lf assms(2,3) by (simp add: rtu_seal_def)
  finally have "eMBPoll j (frame_in s fr) = Some (request_in s fr, Returns MB_ENOERR)"
    using event_get_one [of "frame_in s fr" EV_FRAME_RECEIVED j] en lf assms(2)
    by (simp add: eMBPoll_def poll_received_def slave_port request_in_def frame_in_def Let_def rtu_seal_def)
  then have "slave_step (frame_in s fr) (Poll_Runs j) = Some (request_in s fr)" by simp
  then have "run_steps slave_step s ((map Rx_Byte fr @ [Timer_Expires]) @ [Poll_Runs j]) = Some (request_in s fr)"
    unfolding run_steps_append [of _ _ "map Rx_Byte fr @ [Timer_Expires]"] using s1 by simp
  then show ?thesis by simp
qed

text \<open>A sealed frame in the buffer leaves, and the poll after it finds the slave listening again.\<close>

lemma answer_sent:
  assumes "serial_tx s" "tx_sending s bs" "eMBState s = STATE_ENABLED" "eRcvState s = STATE_RX_IDLE" "\<not> timer_on s"
    "xFuncHandlers s = handlers_init" "xSlaveOsEvent s = 0" "length (ucRTUBuf s) = 256" "slave_regs_wf (regs s)"
  shows "\<exists>s'. run_steps slave_step s (replicate (Suc (length bs)) Tx_Ready @ [Poll_Runs j]) = Some s' \<and>
    serial_out s' = serial_out s @ bs \<and> regs s' = regs s \<and> ucMBAddress s' = ucMBAddress s \<and> listening s'"
proof -
  define s5 where "s5 = tx_finish (tx_emitted bs s)"
  define s6 where "s6 = s5\<lparr> xSlaveOsEvent := 0 \<rparr>"
  have tx: "run_steps slave_step s (replicate (Suc (length bs)) Tx_Ready) = Some s5"
    using tx_steps [OF assms(1,2)] unfolding s5_def .
  have f5: "eMBState s5 = STATE_ENABLED" "xSlaveOsEvent s5 = EV_FRAME_SENT"
    using assms(3,7) by (simp_all add: s5_def tx_finish_def tx_emitted_def)
  have "slave_step s5 (Poll_Runs j) = Some s6"
    using event_get_one [OF f5(2), of j] f5(1) by (simp add: eMBPoll_def s6_def slave_events)
  then have "run_steps slave_step s (replicate (Suc (length bs)) Tx_Ready @ [Poll_Runs j]) = Some s6"
    unfolding run_steps_append [of _ _ "replicate (Suc (length bs)) Tx_Ready"] tx by simp
  moreover have "serial_out s6 = serial_out s @ bs \<and> regs s6 = regs s \<and> ucMBAddress s6 = ucMBAddress s \<and> listening s6"
    using assms by (simp add: s6_def s5_def tx_finish_def tx_emitted_def listening_def rx_ready_def)
  ultimately show ?thesis by blast
qed

lemma slave_answers:
  assumes "listening s" and a_def: "a = ucMBAddress s" and "a \<noteq> MB_ADDRESS_BROADCAST"
    and "1 \<le> length pdu" "length pdu \<le> 252"
    and f_def: "f = pdu @ [lo8 (crc16 (a # pdu)), hi8 (crc16 (a # pdu))] @ drop (length pdu + 3) (ucRTUBuf s)"
    and "pdu_clear f" "pdu_response (regs s) f (word_of_nat (length pdu)) = Some (r', resp)"
  shows "\<exists>s'. run_steps slave_step s (map Rx_Byte (rtu_seal (a # pdu)) @ [Timer_Expires, Poll_Runs j1, Poll_Runs j2]
      @ replicate (length resp + 4) Tx_Ready @ [Poll_Runs j3]) = Some s' \<and>
    serial_out s' = serial_out s @ rtu_seal (a # resp) \<and> regs s' = r' \<and> ucMBAddress s' = a \<and> listening s'"
proof -
  define fr where "fr = rtu_seal (a # pdu)"
  define s3 where "s3 = (request_in s fr)\<lparr> xSlaveOsEvent := 0 \<rparr>"
  have lf: "length fr = length pdu + 3" "fr ! 0 = a" by (simp_all add: fr_def rtu_seal_def)
  have p1: "run_steps slave_step s (map Rx_Byte fr @ [Timer_Expires, Poll_Runs j1]) = Some (request_in s fr)"
    using request_polled [OF assms(1) _ assms(4,5)] by (simp add: fr_def a_def)
  have buf: "ucRTUBuf s3 = fr @ drop (length fr) (ucRTUBuf s)" by (simp add: s3_def request_in_def frame_in_def)
  have df: "drop 1 (ucRTUBuf s3) = f"
    unfolding buf f_def fr_def rtu_seal_def by (simp add: add.commute [of _ 3] numeral_3_eq_3)
  have u: "unat (word_of_nat (length pdu) :: u16) = length pdu"
    by (rule unat_small_u16) (use assms(5) in simp)
  have s3: "ucMBFrame s3 = Some 1" "ucRcvAddress s3 = a" "length (ucRTUBuf s3) = 256" "regs s3 = regs s"
    "xFuncHandlers s3 = handlers_init" "eRcvState s3 = STATE_RX_IDLE" "usLength s3 = word_of_nat (length pdu)"
    "ucMBAddress s3 = a" "eMBState s3 = STATE_ENABLED" "serial_out s3 = serial_out s" "timer_on s3 = False"
    "xSlaveOsEvent s3 = 0" "slave_regs_wf (regs s)"
    using assms(1) a_def lf assms(5)
    by (auto simp: s3_def request_in_def frame_in_def listening_def rx_ready_def)
  have "\<exists>s'. poll_execute s3 = Some s' \<and> serial_tx s' \<and> tx_sending s' (rtu_seal (ucMBAddress s3 # resp)) \<and>
    s' = s3\<lparr> regs := r', ucRTUBuf := ucRTUBuf s', usLength := usLength s', pucSndBufferCur := 0,
      usSndBufferCount := usSndBufferCount s', eSndState := STATE_TX_XMIT, serial_rx := False, serial_tx := True \<rparr> \<and>
    length (ucRTUBuf s') = 256 \<and> slave_regs_wf r'"
    by (rule execute_answers) (use s3 u assms(3,5,7,8) df in simp_all)
  then obtain s4 where s4: "poll_execute s3 = Some s4" "serial_tx s4" "tx_sending s4 (rtu_seal (a # resp))"
    "s4 = s3\<lparr> regs := r', ucRTUBuf := ucRTUBuf s4, usLength := usLength s4, pucSndBufferCur := 0,
      usSndBufferCount := usSndBufferCount s4, eSndState := STATE_TX_XMIT, serial_rx := False, serial_tx := True \<rparr>"
    "length (ucRTUBuf s4) = 256" "slave_regs_wf r'"
    unfolding s3(8) by blast
  have f4: "eMBState s4 = STATE_ENABLED" "serial_out s4 = serial_out s" "regs s4 = r'" "eRcvState s4 = STATE_RX_IDLE"
    "timer_on s4 = False" "xFuncHandlers s4 = handlers_init" "xSlaveOsEvent s4 = 0" "ucMBAddress s4 = a"
    by (subst s4(4), simp add: s3)+
  have p2: "slave_step (request_in s fr) (Poll_Runs j2) = Some s4"
    using event_get_one [of "request_in s fr" EV_EXECUTE j2] s4(1) s3(9)
    by (simp add: eMBPoll_def s3_def slave_events request_in_def)
  have lo: "Suc (length (rtu_seal (a # resp))) = length resp + 4" by (simp add: rtu_seal_def)
  obtain s6 where s6: "run_steps slave_step s4 (replicate (length resp + 4) Tx_Ready @ [Poll_Runs j3]) = Some s6"
    "serial_out s6 = serial_out s @ rtu_seal (a # resp)" "regs s6 = r'" "ucMBAddress s6 = a" "listening s6"
    using answer_sent [OF s4(2,3), of j3] f4 s4(5,6) unfolding lo by auto
  have "run_steps slave_step s ((map Rx_Byte fr @ [Timer_Expires, Poll_Runs j1]) @ Poll_Runs j2 #
      replicate (length resp + 4) Tx_Ready @ [Poll_Runs j3]) = Some s6"
    unfolding run_steps_append [of _ _ "map Rx_Byte fr @ [Timer_Expires, Poll_Runs j1]"]
    by (simp only: p1 p2 s6 run_steps.simps bind.simps)
  with s6 show ?thesis unfolding fr_def by auto
qed

section \<open>Properties\<close>

text \<open>
  C12: A request that arrives intact at a listening slave is answered by the sealed response of the
  abstract slave: the bytes of the frame, the 3.5-character silence, two polls and the transmit
  interrupts put exactly the address, the response (the handler's or the exception) and their CRC
  on the line, update the registers as the handler does, and after one more poll the slave listens
  again. No bit request may touch the last byte of its buffer.
\<close>

theorem slave_answers_request:
  assumes "listening s" and a_def: "a = ucMBAddress s" and "a \<noteq> MB_ADDRESS_BROADCAST"
    and "1 \<le> length pdu" "length pdu \<le> 252"
    and f_def: "f = pdu @ [lo8 (crc16 (a # pdu)), hi8 (crc16 (a # pdu))] @ drop (length pdu + 3) (ucRTUBuf s)"
    and "pdu_clear f" "pdu_response (regs s) f (word_of_nat (length pdu)) = Some (r', resp)"
  shows "\<exists>s'. run_steps slave_step s (map Rx_Byte (rtu_seal (a # pdu)) @ [Timer_Expires, Poll_Runs j1, Poll_Runs j2]
      @ replicate (length resp + 4) Tx_Ready @ [Poll_Runs j3]) = Some s' \<and>
    serial_out s' = serial_out s @ rtu_seal (a # resp) \<and> regs s' = r' \<and> listening s'"
  using slave_answers [OF assms] by blast

text \<open>A slave at address 1 that listens, for the examples.\<close>

definition slave1 :: mb_slave where
  "slave1 = mb_slave0\<lparr> eMBState := STATE_ENABLED, eRcvState := STATE_RX_IDLE, serial_rx := True, ucMBAddress := 1 \<rparr>"

lemma slave1_listening: "listening slave1"
  by (simp add: slave1_def listening_def rx_ready_def mb_slave0_def)

text \<open>The example writes register 7; the answer is the request.\<close>

theorem slave_answers_request_witness:
  "\<exists>s' r'. run_steps slave_step slave1 (map Rx_Byte (rtu_seal [1, 6, 0, 7, 0xAB, 0xCD]) @
      [Timer_Expires, Poll_Runs 0, Poll_Runs 0] @ replicate 9 Tx_Ready @ [Poll_Runs 0]) = Some s' \<and>
    serial_out s' = rtu_seal [1, 6, 0, 7, 0xAB, 0xCD] \<and> regs s' = r' \<and> listening s'"
proof -
  define f where "f = [6, 0, 7, 0xAB, 0xCD] @ [lo8 (crc16 (1 # [6, 0, 7, 0xAB, 0xCD])),
    hi8 (crc16 (1 # [6, 0, 7, 0xAB, 0xCD]))] @ drop (length [6, 0, 7, 0xAB, 0xCD :: u8] + 3) (ucRTUBuf slave1)"
  have a: "ucMBAddress slave1 = 1" "regs slave1 = slave_regs_init" "serial_out slave1 = []"
    by (simp_all add: slave1_def mb_slave0_def)
  have f: "f ! 0 = 6" "f ! 1 = 0" "f ! 2 = 7" "5 \<le> length f" "take 5 f = [6, 0, 7, 0xAB, 0xCD]"
    by (simp_all add: f_def)
  have h: "find_handler 6 handlers_init = Some (Some WriteHoldingRegister)"
    by (simp add: handlers_init_def)
  have "unat (be16 0 7) = 7" by (simp add: unat_be16)
  then obtain r' where w: "eMBFuncWriteHoldingRegister slave_regs_init f 5 = Some (r', f, 5, MB_EX_NONE)"
    using write_holding_eq [OF slave_regs_init_wf f(4) refl, of 5] f by simp
  have "pdu_response (regs slave1) f (word_of_nat (length [6, 0, 7, 0xAB, 0xCD :: u8])) =
      Some (r', [6, 0, 7, 0xAB, 0xCD])"
    using h w f a by (simp add: pdu_response_def)
  moreover have "pdu_clear f" using f h by (simp add: pdu_clear_def)
  ultimately show ?thesis
    using slave_answers_request [OF slave1_listening a(1) [symmetric] _ _ _ f_def, of r' "[6, 0, 7, 0xAB, 0xCD]" 0 0 0]
    by (auto simp: a slave_consts)
qed

text \<open>
  C13: A frame of 1 to 255 bytes that is not for the slave changes nothing: with a wrong check, shorter
  than four bytes, or for another address, nothing is sent, the registers keep their values and the slave
  listens again after one poll. The bound is needed: 256 bytes, of whatever content, end in a failed assert
  of the receiver.
\<close>

theorem slave_ignores_frame:
  assumes "listening s" "bs \<noteq> []" "length bs < 256"
    "\<not> rtu_accept bs \<or> length bs < 4 \<or> (bs ! 0 \<noteq> ucMBAddress s \<and> bs ! 0 \<noteq> MB_ADDRESS_BROADCAST)"
  shows "\<exists>s'. run_steps slave_step s (map Rx_Byte bs @ [Timer_Expires, Poll_Runs j]) = Some s' \<and>
    serial_out s' = serial_out s \<and> regs s' = regs s \<and> listening s'"
proof -
  define s1 where "s1 = (frame_in s bs)\<lparr> xSlaveOsEvent := 0 \<rparr>"
  have en: "eMBState (frame_in s bs) = STATE_ENABLED" using assms(1) by (simp add: frame_in_def listening_def)
  have rc: "eMBRTUReceive s1 = Some (if 4 \<le> length bs \<and> rtu_accept bs
      then Inr (bs ! 0, 1, word_of_nat (length bs - 3)) else Inl MB_EIO)"
    using frame_in_receive [OF assms(1,3)] by (simp add: eMBRTUReceive_def s1_def cong: if_cong)
  have ls: "listening s1" "serial_out s1 = serial_out s" "regs s1 = regs s" "ucMBAddress s1 = ucMBAddress s"
    using assms(1,3) by (simp_all add: s1_def frame_in_def listening_def rx_ready_def)
  obtain s2 where s2: "poll_received s1 = Some s2" "serial_out s2 = serial_out s" "regs s2 = regs s" "listening s2"
  proof (cases "4 \<le> length bs \<and> rtu_accept bs")
    case True
    then have "bs ! 0 \<noteq> ucMBAddress s1" "bs ! 0 \<noteq> MB_ADDRESS_BROADCAST" using assms(4) ls(4) by auto
    with True rc ls that show ?thesis by (simp add: poll_received_def listening_def rx_ready_def)
  next
    case False
    with rc ls that show ?thesis by (simp add: poll_received_def)
  qed
  have "slave_step (frame_in s bs) (Poll_Runs j) = Some s2"
    using event_get_one [of "frame_in s bs" EV_FRAME_RECEIVED j] en s2(1)
    by (simp add: eMBPoll_def s1_def frame_in_def)
  then have "run_steps slave_step s ((map Rx_Byte bs @ [Timer_Expires]) @ [Poll_Runs j]) = Some s2"
    unfolding run_steps_append [of _ _ "map Rx_Byte bs @ [Timer_Expires]"]
    using frame_arrives [OF assms(1,2)] assms(3) by simp
  with s2 show ?thesis by simp
qed

theorem slave_ignores_frame_witness:
  "\<exists>s'. run_steps slave_step slave1 (map Rx_Byte [9, 6, 0] @ [Timer_Expires, Poll_Runs 0]) = Some s' \<and>
    serial_out s' = serial_out slave1 \<and> regs s' = regs slave1 \<and> listening s'"
  by (rule slave_ignores_frame [OF slave1_listening]) simp_all

text \<open>Initialised and enabled, the slave is in its invariant.\<close>

lemma slave_started:
  assumes "eMBInit True MB_RTU a baud mb_slave0 = Some (s0, MB_ENOERR)"
  shows "slave_ok (fst (eMBEnable s0))"
proof -
  have "eMBState s0 = STATE_DISABLED \<and> slave_ok ((eMBRTUStart s0)\<lparr> eMBState := STATE_ENABLED \<rparr>)"
    using assms
    by (auto simp: eMBInit_def eMBRTUInit_def xMBPortTimersInit_def xMBPortEventInit_def eMBRTUStart_def
        slave_port slave_ok_def mb_slave0_def handlers_init_def bind_eq_Some_conv split: if_splits)
  then show ?thesis by (simp add: eMBEnable_def)
qed

text \<open>
  C14: The slave never leaves its buffers and never fails an assert: after \<open>eMBInit\<close> and \<open>eMBEnable\<close>
  any run of interrupts and polls is defined and keeps the invariant, as long as no frame of the
  full 256 bytes is polled, the poll's uninitialised local does not hold \<open>EV_EXECUTE\<close>, and no bit
  request touches the last byte of its buffer. The first condition is needed: once 256 bytes have
  been received by a listening slave the poll fails the assert of \<open>eMBRTUReceive\<close> and never returns.
\<close>

theorem slave_never_stuck:
  assumes "eMBInit True MB_RTU a baud mb_slave0 = Some (s0, MB_ENOERR)" and s_def: "s = fst (eMBEnable s0)"
    and "inputs_ok slave_step slave_event_ok s es" "listening t" "length bs = 256"
  shows "(\<exists>s'. run_steps slave_step s es = Some s' \<and> slave_ok s') \<and>
    run_steps slave_step t (map Rx_Byte bs @ [Timer_Expires, Poll_Runs j]) = None"
proof
  show "\<exists>s'. run_steps slave_step s es = Some s' \<and> slave_ok s'"
    using slave.run_safe [OF _ assms(3)] slave_started [OF assms(1)] s_def by blast
  have ne: "bs \<noteq> []" using assms(5) by auto
  have "eMBRTUReceive ((frame_in t bs)\<lparr> xSlaveOsEvent := 0 \<rparr>) = None"
    by (rule eMBRTUReceive_full) (simp add: frame_in_def assms(5))
  then have "slave_step (frame_in t bs) (Poll_Runs j) = None"
    using event_get_one [of "frame_in t bs" EV_FRAME_RECEIVED j] assms(4)
    by (simp add: eMBPoll_def poll_received_def frame_in_def listening_def)
  moreover have "run_steps slave_step t (map Rx_Byte bs @ [Timer_Expires]) = Some (frame_in t bs)"
    by (rule frame_arrives [OF assms(4) ne]) (simp add: assms(5))
  ultimately have "run_steps slave_step t ((map Rx_Byte bs @ [Timer_Expires]) @ [Poll_Runs j]) = None"
    unfolding run_steps_append [of _ _ "map Rx_Byte bs @ [Timer_Expires]"] by simp
  then show "run_steps slave_step t (map Rx_Byte bs @ [Timer_Expires, Poll_Runs j]) = None" by simp
qed

theorem slave_never_stuck_witness:
  "\<exists>s0. eMBInit True MB_RTU 1 9600 mb_slave0 = Some (s0, MB_ENOERR) \<and>
    (\<exists>s'. run_steps slave_step (fst (eMBEnable s0)) [Rx_Byte 5, Timer_Expires, Tx_Ready] = Some s' \<and> slave_ok s') \<and>
    run_steps slave_step slave1 (map Rx_Byte (replicate 256 0) @ [Timer_Expires, Poll_Runs 0]) = None"
proof -
  obtain s0 where s0: "eMBInit True MB_RTU 1 9600 mb_slave0 = Some (s0, MB_ENOERR)"
    by (simp add: eMBInit_def eMBRTUInit_def t35_50us_def slave_consts)
  have "inputs_ok slave_step slave_event_ok (fst (eMBEnable s0)) [Rx_Byte 5, Timer_Expires, Tx_Ready]"
    by (auto split: option.splits)
  from slave_never_stuck [OF s0 refl this slave1_listening, of "replicate 256 0" 0] s0 show ?thesis by simp
qed

end
