(* ===== verification/Mb_Master_Run.thy ===== *)
theory Mb_Master_Run
  imports Mb_Master_Inv Mb_Slave_Answer
begin

text \<open>
  The Modbus master from end to end: from a request to its result, with the bytes on the line in
  between, on every path: answered, refused, garbled, not answered, broadcast, raw. Master and slave
  are put together at the end.
\<close>

section \<open>Idle\<close>

definition idle :: "mb_master \<Rightarrow> bool" where
  "idle s \<longleftrightarrow> m_eMBState s = STATE_ENABLED \<and> m_eRcvState s = STATE_M_RX_IDLE \<and> m_eSndState s = STATE_M_TX_IDLE \<and>
     \<not> m_timer_on s \<and> \<not> trans_start s \<and> xMasterOsEvent s = 0 \<and> xMasterRunRes s = 1 \<and> waiting s = Free \<and>
     mb_switch_flag s = 0 \<and> length (ucMasterRTUSndBuf s) = 253 \<and> length (ucMasterRTURcvBuf s) = 256 \<and>
     length (rs485_send_buf_not_modbus s) = 50 \<and> master_regs_wf (m_regs s)"

lemma master_event_get:
  assumes "xMasterOsEvent s = ev" "ev = EV_MASTER_READY \<or> ev = EV_MASTER_FRAME_RECEIVED \<or> ev = EV_MASTER_EXECUTE \<or>
    ev = EV_MASTER_FRAME_SENT \<or> ev = EV_MASTER_ERROR_PROCESS"
  shows "xMBMasterPortEventGet junk s = Some (s\<lparr> xMasterOsEvent := 0 \<rparr>, ev)"
proof -
  have m: "EV_MASTER_READY OR EV_MASTER_FRAME_RECEIVED OR EV_MASTER_EXECUTE OR EV_MASTER_FRAME_SENT OR
      EV_MASTER_ERROR_PROCESS = 31" by (simp add: master_events)
  have "ev AND 31 = ev" "ev AND NOT 31 = 0" "ev \<noteq> 0"
    using assms(2) by (elim disjE; simp add: master_events)+
  then show ?thesis
    using assms by (simp add: xMBMasterPortEventGet_def rt_event_recv_or_def m)
qed

lemma poll_one:
  assumes "m_eMBState s = STATE_ENABLED" "xMasterOsEvent s = ev" "s0 = s\<lparr> xMasterOsEvent := 0 \<rparr>"
  shows "ev = EV_MASTER_READY \<Longrightarrow> master_step s (M_Poll_Runs j) = Some s0"
    "ev = EV_MASTER_FRAME_RECEIVED \<Longrightarrow> master_step s (M_Poll_Runs j) = master_received s0"
    "ev = EV_MASTER_EXECUTE \<Longrightarrow> master_step s (M_Poll_Runs j) = master_execute s0"
    "ev = EV_MASTER_FRAME_SENT \<Longrightarrow> master_step s (M_Poll_Runs j) = master_sent s0"
    "ev = EV_MASTER_ERROR_PROCESS \<Longrightarrow> master_step s (M_Poll_Runs j) = Some (master_error_process s0)"
  using master_event_get [OF assms(2), of j] assms(1,3)
  by (auto simp: eMBMasterPoll_def master_events split: Option.bind_splits)

text \<open>The result flags and what the requester makes of them.\<close>

lemma requester_result:
  assumes "xMasterOsEvent s = ev" "waiting s \<noteq> Free"
    "(ev, code) \<in> {(EV_MASTER_PROCESS_SUCESS, MB_MRE_NO_ERR), (EV_MASTER_ERROR_RESPOND_TIMEOUT, MB_MRE_TIMEDOUT),
       (EV_MASTER_ERROR_RECEIVE_DATA, MB_MRE_REV_DATA), (EV_MASTER_ERROR_EXECUTE_FUNCTION, MB_MRE_EXE_FUN)}"
  shows "requester_runs s = s\<lparr> xMasterOsEvent := 0, replies := replies s @ [code],
    mb_switch_flag := (if waiting s = Waits_Raw_Reply then 0 else mb_switch_flag s), waiting := Free \<rparr>"
proof -
  have m: "EV_MASTER_PROCESS_SUCESS OR EV_MASTER_ERROR_RESPOND_TIMEOUT OR EV_MASTER_ERROR_RECEIVE_DATA OR
      EV_MASTER_ERROR_EXECUTE_FUNCTION = 480" by (simp add: master_events)
  have "ev AND 480 = ev" "ev AND NOT 480 = 0" "ev \<noteq> 0"
    using assms(3) by (auto simp: master_events)
  then have "eMBMasterWaitRequestFinish s = Some (s\<lparr> xMasterOsEvent := 0 \<rparr>, code)"
    using assms(1,3) by (auto simp: eMBMasterWaitRequestFinish_def rt_event_recv_or_def m master_events)
  then show ?thesis using assms(2) by (simp add: requester_runs_def reply_def)
qed

section \<open>The request leaves\<close>

definition requested :: "mb_master \<Rightarrow> u8 \<Rightarrow> u8 list \<Rightarrow> mb_master" where
  "requested s d pdu = s\<lparr> xMasterRunRes := 0, ucMBMasterDestAddress := d,
     ucMasterRTUSndBuf := take 1 (ucMasterRTUSndBuf s) @ pdu @ drop (Suc (length pdu)) (ucMasterRTUSndBuf s),
     usMasterSendPDULength := word_of_nat (length pdu), xMasterOsEvent := EV_MASTER_FRAME_SENT,
     waiting := Waits_Reply \<rparr>"

text \<open>After the last byte: the master waits for the answer, or for the turnaround delay.\<close>

definition sent :: "mb_master \<Rightarrow> u8 \<Rightarrow> u8 list \<Rightarrow> mb_master" where
  "sent s d pdu = s\<lparr> xMasterRunRes := 0, ucMBMasterDestAddress := d,
     ucMasterRTUSndBuf := rtu_seal (d # pdu) @ drop (length pdu + 3) (ucMasterRTUSndBuf s),
     usMasterSendPDULength := word_of_nat (length pdu), waiting := Waits_Reply, m_ucMBFrame := Some Snd_PDU,
     pucMasterSndBufferCur := In_Snd_Buf (length pdu + 3), usMasterSndBufferCount := 0,
     line_out := line_out s @ rtu_seal (d # pdu), xFrameIsBroadcast := (d = 0), rx_direction := True,
     m_eSndState := STATE_M_TX_XFWR, m_timer_on := True, m_timer_ticks := 2000,
     eMasterCurTimerMode := (if d = 0 then MB_TMODE_CONVERT_DELAY else MB_TMODE_RESPOND_TIMEOUT) \<rparr>"

lemma master_request_step:
  assumes "idle s" "unat d \<le> 16" "length pdu \<le> 252"
  shows "master_request True d (Some pdu) (word_of_nat (length pdu)) s = Some (requested s d pdu)"
  using assms buf_puts_eq [of 1 pdu "ucMasterRTUSndBuf s"]
  by (simp add: master_request_def idle_def MB_MASTER_TOTAL_SLAVE_NUM_def not_less requested_def master_port)

lemma m_tx_steps:
  "trans_start s \<Longrightarrow> m_tx_sending s bs \<Longrightarrow>
     run_steps master_step s (replicate (Suc (length bs)) M_Tx_Ready) = Some (m_tx_finish (m_tx_emitted bs s))"
proof -
  have "trans_start s \<Longrightarrow> m_tx_sending s bs \<Longrightarrow>
      run_steps master_step s (replicate (Suc (length bs)) M_Tx_Ready) =
      run_steps (\<lambda>s _. xMBMasterRTUTransmitFSM s) s (replicate (Suc (length bs)) ())"
  proof (induction bs arbitrary: s)
    case Nil
    then show ?case by simp
  next
    case (Cons b bs)
    from master_tx.tx_byte [OF Cons.prems(2)] Cons.prems(1) Cons.IH [of "m_tx_emitted [b] s"]
    show ?case by (simp add: m_tx_emitted_def)
  qed
  then show "trans_start s \<Longrightarrow> m_tx_sending s bs \<Longrightarrow> ?thesis" using master_tx.tx_frame [of s bs] by simp
qed

text \<open>The poll that finds the request starts the transmission; the transmit thread does the rest.\<close>

definition sending :: "mb_master \<Rightarrow> u8 list \<Rightarrow> mb_master" where
  "sending s pdu = s\<lparr> xMasterOsEvent := 0, m_ucMBFrame := Some Snd_PDU,
     ucMasterRTUSndBuf := rtu_seal (ucMBMasterDestAddress s # pdu) @ drop (length pdu + 3) (ucMasterRTUSndBuf s),
     pucMasterSndBufferCur := In_Snd_Buf 0, usMasterSndBufferCount := word_of_nat (length pdu + 3),
     m_eSndState := STATE_M_TX_XMIT, rx_direction := False, trans_start := True \<rparr>"

lemma poll_sends:
  assumes "m_eMBState s = STATE_ENABLED" "xMasterOsEvent s = EV_MASTER_FRAME_SENT" "m_eRcvState s = STATE_M_RX_IDLE"
    "mb_switch_flag s = 0" "unat (ucMBMasterDestAddress s) \<le> 16" "usMasterSendPDULength s = word_of_nat (length pdu)"
    "length pdu \<le> 250" "length (ucMasterRTUSndBuf s) = 253" "take (length pdu) (drop 1 (ucMasterRTUSndBuf s)) = pdu"
  shows "master_step s (M_Poll_Runs j) = Some (sending s pdu)"
proof -
  define r where "r = s\<lparr> xMasterOsEvent := 0, m_ucMBFrame := Some Snd_PDU \<rparr>"
  have u: "unat (word_of_nat (length pdu) :: u16) = length pdu"
    by (rule unat_small_u16) (use assms(7) in simp)
  have r: "m_eRcvState r = STATE_M_RX_IDLE" "mb_switch_flag r = 0" "ucMasterRTUSndBuf r = ucMasterRTUSndBuf s"
    using assms by (simp_all add: r_def)
  have "eMBMasterRTUSend (ucMBMasterDestAddress s) 1 (word_of_nat (length pdu)) r = Some (sending s pdu, MB_ENOERR)"
    using eMBMasterRTUSend_eq [OF r(1,2) assms(5), of "word_of_nat (length pdu)"] assms(7-9)
    unfolding u r(3) by (simp add: sending_def r_def)
  then show ?thesis
    using poll_one(4) [OF assms(1,2) refl refl, of j] assms(6)
    by (simp add: master_sent_def r_def del: master_step.simps)
qed

lemma sending_sends:
  assumes "m_eRcvState s = STATE_M_RX_IDLE" "length pdu \<le> 250"
  shows "run_steps master_step (sending s pdu) (replicate (length pdu + 4) M_Tx_Ready) =
    Some (m_tx_finish (m_tx_emitted (rtu_seal (ucMBMasterDestAddress s # pdu)) (sending s pdu)))"
proof -
  define fr where "fr = rtu_seal (ucMBMasterDestAddress s # pdu)"
  have lf: "length fr = length pdu + 3" by (simp add: fr_def rtu_seal_def)
  have "m_tx_sending (sending s pdu) fr"
    using lf assms by (simp add: m_tx_sending_def sending_def snd_source_def fr_def [symmetric]) (auto simp: fr_def rtu_seal_def)
  moreover have "trans_start (sending s pdu)" by (simp add: sending_def)
  ultimately show ?thesis
    using m_tx_steps [of "sending s pdu" fr] lf by (simp add: fr_def [symmetric] add.commute)
qed

lemma request_sent:
  assumes "idle s" "unat d \<le> 16" "length pdu \<le> 250"
    "run_request req s = master_request True d (Some pdu) (word_of_nat (length pdu)) s"
  shows "run_steps master_step s ([M_Request req, M_Poll_Runs j] @ replicate (length pdu + 4) M_Tx_Ready) =
    Some (sent s d pdu)"
proof -
  define r where "r = requested s d pdu"
  have s1: "master_step s (M_Request req) = Some r"
    using master_request_step [OF assms(1,2)] assms(1,3,4) by (simp add: idle_def r_def)
  have lr: "length (ucMasterRTUSndBuf r) = 253" "take (length pdu) (drop 1 (ucMasterRTUSndBuf r)) = pdu"
    "drop (length pdu + 3) (ucMasterRTUSndBuf r) = drop (length pdu + 3) (ucMasterRTUSndBuf s)"
    using assms(1,3) by (simp_all add: r_def requested_def idle_def min_def numeral_3_eq_3)
  have idr: "m_eMBState r = STATE_ENABLED" "xMasterOsEvent r = EV_MASTER_FRAME_SENT" "m_eRcvState r = STATE_M_RX_IDLE"
    "mb_switch_flag r = 0" "unat (ucMBMasterDestAddress r) \<le> 16" "usMasterSendPDULength r = word_of_nat (length pdu)"
    using assms(1,2) by (simp_all add: r_def requested_def idle_def)
  have s2: "master_step r (M_Poll_Runs j) = Some (sending r pdu)"
    by (rule poll_sends) (use idr lr assms(3) in simp_all)
  have "m_tx_finish (m_tx_emitted (rtu_seal (ucMBMasterDestAddress r # pdu)) (sending r pdu)) = sent s d pdu"
    using lr(3) assms(1)
    by (simp add: m_tx_finish_def m_tx_emitted_def sending_def sent_def idle_def rtu_seal_def)
       (simp add: r_def requested_def)
  then have "run_steps master_step (sending r pdu) (replicate (length pdu + 4) M_Tx_Ready) = Some (sent s d pdu)"
    using sending_sends [OF idr(3) assms(3)] by simp
  then show ?thesis by (simp only: append_Cons append_Nil run_steps.simps s1 s2 bind.simps)
qed

section \<open>The answer comes\<close>

definition awaiting :: "mb_master \<Rightarrow> bool" where
  "awaiting s \<longleftrightarrow> m_eMBState s = STATE_ENABLED \<and> m_eRcvState s = STATE_M_RX_IDLE \<and> m_eSndState s = STATE_M_TX_XFWR \<and>
     m_timer_on s \<and> \<not> trans_start s \<and> xMasterOsEvent s = 0 \<and> xMasterRunRes s = 0 \<and> waiting s \<noteq> Free \<and>
     (waiting s = Waits_Reply \<longrightarrow> mb_switch_flag s = 0) \<and>
     length (ucMasterRTUSndBuf s) = 253 \<and> length (ucMasterRTURcvBuf s) = 256 \<and>
     length (rs485_send_buf_not_modbus s) = 50 \<and> master_regs_wf (m_regs s)"

lemma sent_awaiting: "idle s \<Longrightarrow> length pdu \<le> 250 \<Longrightarrow> awaiting (sent s d pdu)"
  by (simp add: idle_def awaiting_def sent_def rtu_seal_def)

definition replied :: "mb_master \<Rightarrow> u8 list \<Rightarrow> mb_master" where
  "replied s bs = s\<lparr> m_eSndState := STATE_M_TX_IDLE,
     ucMasterRTURcvBuf := bs @ drop (length bs) (ucMasterRTURcvBuf s), usMasterRcvBufferPos := word_of_nat (length bs),
     eMasterCurTimerMode := MB_TMODE_T35, m_timer_on := False, m_timer_ticks := t35_ticks (usT35TimeOut50us s),
     xMasterOsEvent := EV_MASTER_FRAME_RECEIVED \<rparr>"

lemma m_rx_keeps: "xMBMasterRTUReceiveFSM s b = Some t \<Longrightarrow> m_eMBState t = m_eMBState s"
  by (cases "m_eSndState s"; cases "m_eRcvState s")
     (auto simp: xMBMasterRTUReceiveFSM_def master_port bind_eq_Some_conv Let_def split: if_splits)

lemma m_rx_steps:
  "m_eMBState s \<noteq> STATE_NOT_INITIALIZED \<Longrightarrow>
     run_steps master_step s (map M_Rx_Byte bs) = run_steps xMBMasterRTUReceiveFSM s bs"
proof (induction bs arbitrary: s)
  case Nil
  then show ?case by simp
next
  case (Cons b bs)
  have "m_eMBState t \<noteq> STATE_NOT_INITIALIZED" if "xMBMasterRTUReceiveFSM s b = Some t" for t
    using m_rx_keeps [OF that] Cons.prems by simp
  then show ?case using Cons by (cases "xMBMasterRTUReceiveFSM s b") auto
qed

lemma answer_arrives:
  assumes "awaiting s" "bs \<noteq> []" "length bs \<le> 256"
  shows "run_steps master_step s (map M_Rx_Byte bs @ [M_Timer_Expires]) = Some (replied s bs)"
proof -
  have "run_steps master_step s (map M_Rx_Byte bs) = Some (m_rx_got s bs)"
    using assms master_rx.rx_frame [of s bs] by (simp add: m_rx_steps awaiting_def m_rx_ready_def)
  then show ?thesis
    using assms(1)
    by (simp add: run_steps_append m_rx_got_def replied_def xMBMasterRTUTimerExpired_def master_port awaiting_def Let_def)
qed

lemma replied_receive:
  assumes "awaiting s" "length bs < 256"
  shows "eMBMasterRTUReceive ((replied s bs)\<lparr> xMasterOsEvent := 0 \<rparr>) =
    Some (if 4 \<le> length bs \<and> rtu_accept bs then Inr (bs ! 0, Rcv_PDU, word_of_nat (length bs - 3)) else Inl MB_EIO)"
proof -
  define s1 where "s1 = (replied s bs)\<lparr> xMasterOsEvent := 0 \<rparr>"
  have u: "unat (word_of_nat (length bs) :: u16) = length bs"
    by (rule unat_small_u16) (use assms(2) in simp)
  have b: "ucMasterRTURcvBuf s1 = bs @ drop (length bs) (ucMasterRTURcvBuf s)"
    "usMasterRcvBufferPos s1 = word_of_nat (length bs)"
    by (simp_all add: s1_def replied_def)
  have l: "length (ucMasterRTURcvBuf s1) = 256" using assms by (simp add: b awaiting_def)
  have "unat (usMasterRcvBufferPos s1) < 256" unfolding b u by (rule assms(2))
  from eMBMasterRTUReceive_eq [OF l this] have "eMBMasterRTUReceive s1 = Some (if 4 \<le> length bs \<and> crc16 bs = 0
      then Inr ((bs @ drop (length bs) (ucMasterRTURcvBuf s)) ! 0, Rcv_PDU, word_of_nat (length bs) - 3) else Inl MB_EIO)"
    by (simp add: b u)
  moreover have "rtu_accept bs = (2 \<le> length bs \<and> crc16 bs = 0)"
    by (rule rtu_accept_crc) (use assms(2) in simp)
  moreover have "(word_of_nat (length bs) :: u16) - 3 = word_of_nat (length bs - 3)" if "4 \<le> length bs"
    using that by (simp add: of_nat_diff)
  moreover have "(bs @ drop (length bs) (ucMasterRTURcvBuf s)) ! 0 = bs ! 0" if "4 \<le> length bs"
    using that by (cases bs) simp_all
  ultimately show ?thesis unfolding s1_def by auto
qed

text \<open>A frame of the slave asked, polled: the poll is told to execute it.\<close>

definition executing :: "mb_master \<Rightarrow> u8 list \<Rightarrow> mb_master" where
  "executing s bs = (replied s bs)\<lparr> xMasterOsEvent := EV_MASTER_EXECUTE, m_ucRcvAddress := bs ! 0,
     m_ucMBFrame := Some Rcv_PDU, m_usLength := word_of_nat (length bs - 3) \<rparr>"

lemma answer_polled:
  assumes "awaiting s" "fr = rtu_seal (ucMBMasterDestAddress s # resp)" "1 \<le> length resp" "length resp \<le> 252"
  shows "run_steps master_step s (map M_Rx_Byte fr @ [M_Timer_Expires, M_Poll_Runs j]) = Some (executing s fr)"
proof -
  have lf: "length fr = length resp + 3" "fr ! 0 = ucMBMasterDestAddress s" using assms(2) by (simp_all add: rtu_seal_def)
  have acc: "rtu_accept fr" unfolding assms(2) by (rule rtu.accept_seal) (use assms(4) in simp)
  have nf: "fr \<noteq> []" "length fr < 256" using lf assms(4) by auto
  have en: "m_eMBState (replied s fr) = STATE_ENABLED" "xMasterOsEvent (replied s fr) = EV_MASTER_FRAME_RECEIVED"
    using assms(1) by (simp_all add: awaiting_def replied_def)
  have "master_step (replied s fr) (M_Poll_Runs j) = Some (executing s fr)"
    using poll_one(2) [OF en refl refl, of j] replied_receive [OF assms(1) nf(2)] lf acc assms(3)
    by (simp add: master_received_def executing_def xMBMasterPortEventPost_def event_flags_send_def replied_def Let_def
        del: master_step.simps)
  moreover have "run_steps master_step s (map M_Rx_Byte fr @ [M_Timer_Expires]) = Some (replied s fr)"
    using answer_arrives [OF assms(1) nf(1)] nf(2) by simp
  ultimately have "run_steps master_step s ((map M_Rx_Byte fr @ [M_Timer_Expires]) @ [M_Poll_Runs j]) =
      Some (executing s fr)"
    unfolding run_steps_append [of _ _ "map M_Rx_Byte fr @ [M_Timer_Expires]"] by simp
  then show ?thesis by simp
qed

section \<open>The result\<close>

text \<open>What the requester is left with: the result, and the master idle.\<close>

definition finished :: "mb_master \<Rightarrow> eMBMasterReqErrCode \<Rightarrow> mb_master \<Rightarrow> bool" where
  "finished s e s' \<longleftrightarrow> replies s' = replies s @ [e] \<and> line_out s' = line_out s \<and> idle s'"

lemma success_finishes:
  assumes "xMasterOsEvent s = EV_MASTER_EXECUTE" "m_ucMBFrame s = Some fr"
    "m_eMBState s = STATE_ENABLED" "m_eRcvState s = STATE_M_RX_IDLE" "m_eSndState s = STATE_M_TX_IDLE"
    "\<not> m_timer_on s" "\<not> trans_start s" "xMasterRunRes s = 0" "waiting s = Waits_Reply" "mb_switch_flag s = 0"
    "length (ucMasterRTUSndBuf s) = 253" "length (ucMasterRTURcvBuf s) = 256" "length (rs485_send_buf_not_modbus s) = 50"
    and exec: "master_exception fr (s\<lparr> xMasterOsEvent := 0 \<rparr>) =
      Some (s\<lparr> xMasterOsEvent := 0, m_regs := r, ucMBMasterDestAddress := d, m_usLength := l, xMBRunInMasterMode := False \<rparr>, False)"
    and "master_regs_wf r"
  shows "\<exists>s'. run_steps master_step s [M_Poll_Runs j, M_Requester_Runs] = Some s' \<and>
    finished s MB_MRE_NO_ERR s' \<and> m_regs s' = r"
proof -
  define s1 where "s1 = s\<lparr> xMasterOsEvent := EV_MASTER_PROCESS_SUCESS, m_regs := r, ucMBMasterDestAddress := d,
    m_usLength := l, xMBRunInMasterMode := False, xMasterRunRes := 1 \<rparr>"
  have p1: "master_step s (M_Poll_Runs j) = Some s1"
    using poll_one(3) [OF assms(3) assms(1) refl refl, of j] exec assms(2,8)
    by (simp add: master_execute_def vMBMasterRunResRelease_def sem_count_release_def vMBMasterCBRequestScuuess_def
        event_flags_send_def s1_def del: master_step.simps)
  have run: "run_steps master_step s [M_Poll_Runs j, M_Requester_Runs] = Some (requester_runs s1)"
    by (simp only: run_steps.simps bind.simps p1 master_step.simps(7))
  have req: "requester_runs s1 = s1\<lparr> xMasterOsEvent := 0, replies := replies s1 @ [MB_MRE_NO_ERR],
      mb_switch_flag := (if waiting s1 = Waits_Raw_Reply then 0 else mb_switch_flag s1), waiting := Free \<rparr>"
    by (rule requester_result [OF refl]) (use assms(9) in \<open>simp_all add: s1_def\<close>)
  have "finished s MB_MRE_NO_ERR (requester_runs s1) \<and> m_regs (requester_runs s1) = r"
    unfolding req using assms by (simp add: finished_def idle_def s1_def)
  with run show ?thesis by blast
qed

lemma error_finishes:
  assumes "xMasterOsEvent s = EV_MASTER_ERROR_PROCESS" "m_eMBState s = STATE_ENABLED"
    "m_eRcvState s = STATE_M_RX_IDLE" "m_eSndState s = STATE_M_TX_IDLE"
    "\<not> m_timer_on s" "\<not> trans_start s" "xMasterRunRes s = 0" "waiting s \<noteq> Free"
    "waiting s = Waits_Reply \<longrightarrow> mb_switch_flag s = 0"
    "length (ucMasterRTUSndBuf s) = 253" "length (ucMasterRTURcvBuf s) = 256" "length (rs485_send_buf_not_modbus s) = 50"
    "master_regs_wf (m_regs s)"
    and code: "(eMBMasterCurErrorType s, code) \<in> {(EV_ERROR_RESPOND_TIMEOUT, MB_MRE_TIMEDOUT),
       (EV_ERROR_RECEIVE_DATA, MB_MRE_REV_DATA), (EV_ERROR_EXECUTE_FUNCTION, MB_MRE_EXE_FUN)}"
  shows "\<exists>s'. run_steps master_step s [M_Poll_Runs j, M_Requester_Runs] = Some s' \<and>
    finished s code s' \<and> m_regs s' = m_regs s \<and> ucMasterRTURcvBuf s' = ucMasterRTURcvBuf s"
proof -
  define ev where "ev = (case eMBMasterCurErrorType s of EV_ERROR_RESPOND_TIMEOUT \<Rightarrow> EV_MASTER_ERROR_RESPOND_TIMEOUT
        | EV_ERROR_RECEIVE_DATA \<Rightarrow> EV_MASTER_ERROR_RECEIVE_DATA
        | EV_ERROR_EXECUTE_FUNCTION \<Rightarrow> EV_MASTER_ERROR_EXECUTE_FUNCTION)"
  define s1 where "s1 = s\<lparr> xMasterOsEvent := ev, m_ucMBFrame := Some Snd_PDU, xMasterRunRes := 1 \<rparr>"
  have p1: "master_step s (M_Poll_Runs j) = Some s1"
    using poll_one(5) [OF assms(2) assms(1) refl refl, of j] assms(7)
    by (simp add: master_error_process_def vMBMasterRunResRelease_def sem_count_release_def vMBMasterErrorCB_def
        event_flags_send_def s1_def ev_def Let_def del: master_step.simps)
  have run: "run_steps master_step s [M_Poll_Runs j, M_Requester_Runs] = Some (requester_runs s1)"
    by (simp only: run_steps.simps bind.simps p1 master_step.simps(7))
  have req: "requester_runs s1 = s1\<lparr> xMasterOsEvent := 0, replies := replies s1 @ [code],
      mb_switch_flag := (if waiting s1 = Waits_Raw_Reply then 0 else mb_switch_flag s1), waiting := Free \<rparr>"
    by (rule requester_result [OF refl]) (use assms(8) code in \<open>auto simp: s1_def ev_def\<close>)
  have "waiting s = Waits_Raw_Reply \<or> mb_switch_flag s = 0" using assms(8,9) by (cases "waiting s") auto
  then have "finished s code (requester_runs s1) \<and> m_regs (requester_runs s1) = m_regs s \<and>
      ucMasterRTURcvBuf (requester_runs s1) = ucMasterRTURcvBuf s"
    unfolding req using assms(2-6,10-13) by (auto simp: finished_def idle_def s1_def)
  with run show ?thesis by blast
qed

section \<open>What a request asks\<close>

text \<open>The abstract request: the slave and the PDU, for arguments the request function accepts.\<close>

fun request_legal :: "request \<Rightarrow> bool" where
  "request_legal (Write_Coil d a v) \<longleftrightarrow> v = 0xFF00 \<or> v = 0"
| "request_legal _ \<longleftrightarrow> True"

fun request_dest :: "request \<Rightarrow> u8" where
  "request_dest (Read_Holding d a n) = d"
| "request_dest (Read_Input d a n) = d"
| "request_dest (Read_Coils d a n) = d"
| "request_dest (Read_Discrete d a n) = d"
| "request_dest (Write_Holding d a v) = d"
| "request_dest (Write_Coil d a v) = d"
| "request_dest (Write_Multiple_Holding d a n vs) = d"
| "request_dest (Write_Multiple_Coils d a n bs) = d"
| "request_dest (Read_Write_Holding d ra rn vs wa wn) = d"

fun request_pdu :: "request \<Rightarrow> u8 list" where
  "request_pdu (Read_Holding d a n) = [3, hi8 a, lo8 a, hi8 n, lo8 n]"
| "request_pdu (Read_Input d a n) = [4, hi8 a, lo8 a, hi8 n, lo8 n]"
| "request_pdu (Read_Coils d a n) = [1, hi8 a, lo8 a, hi8 n, lo8 n]"
| "request_pdu (Read_Discrete d a n) = [2, hi8 a, lo8 a, hi8 n, lo8 n]"
| "request_pdu (Write_Holding d a v) = [6, hi8 a, lo8 a, hi8 v, lo8 v]"
| "request_pdu (Write_Coil d a v) = [5, hi8 a, lo8 a, hi8 v, lo8 v]"
| "request_pdu (Write_Multiple_Holding d a n vs) =
    [16, hi8 a, lo8 a, hi8 n, lo8 n, ucast (n * 2)] @ be_bytes (take (unat n) vs)"
| "request_pdu (Write_Multiple_Coils d a n bs) =
    [15, hi8 a, lo8 a, hi8 n, lo8 n, bit_bytes n] @ take (unat (bit_bytes n)) bs"
| "request_pdu (Read_Write_Holding d ra rn vs wa wn) =
    [23, hi8 ra, lo8 ra, hi8 rn, lo8 rn, hi8 wa, lo8 wa, hi8 wn, lo8 wn, ucast (wn * 2)] @ be_bytes (take (unat wn) vs)"

lemma u16_length: "unat w = n \<Longrightarrow> (w :: u16) = word_of_nat n"
  by auto

lemma request_pdu_length: "request_fits req \<Longrightarrow> 1 \<le> length (request_pdu req) \<and> length (request_pdu req) \<le> 250"
proof (cases req)
  case (Write_Multiple_Coils d a n bs)
  then show "request_fits req \<Longrightarrow> ?thesis" using coil_bytes_fit [of n] by simp
qed simp_all

lemma run_request_pdu:
  assumes "request_fits req" "request_legal req"
  shows "run_request req s = master_request True (request_dest req) (Some (request_pdu req))
    (word_of_nat (length (request_pdu req))) s"
proof (cases req)
  case (Write_Multiple_Holding d a n vs)
  have "unat (1 + 5 + 2 * n) = 6 + 2 * unat n" using assms(1) Write_Multiple_Holding by (simp add: unat_word_ariths)
  then have "1 + 5 + 2 * n = word_of_nat (6 + 2 * unat n)"
    using assms(1) Write_Multiple_Holding by (intro u16_length) simp_all
  then show ?thesis using assms(1) Write_Multiple_Holding
    by (simp add: eMBMasterReqWriteMultipleHoldingRegister_def buf_gets_eq min_absorb2)
next
  case (Read_Write_Holding d ra rn vs wa wn)
  have "unat (1 + 9 + 2 * wn) = 10 + 2 * unat wn" using assms(1) Read_Write_Holding by (simp add: unat_word_ariths)
  then have "1 + 9 + 2 * wn = word_of_nat (10 + 2 * unat wn)"
    using assms(1) Read_Write_Holding by (intro u16_length) simp_all
  then show ?thesis using assms(1) Read_Write_Holding
    by (simp add: eMBMasterReqReadWriteMultipleHoldingRegister_def buf_gets_eq min_absorb2)
next
  case (Write_Multiple_Coils d a n bs)
  have n: "unat (bit_bytes n) \<le> 244" "unat (bit_bytes n) \<le> length bs" "n \<le> 0x7B0"
    using assms(1) Write_Multiple_Coils coil_bytes_fit by (auto simp: word_le_nat_alt)
  have "unat (ucast (bit_bytes n) :: u16) = unat (bit_bytes n)"
    using n(1) by (simp add: unsigned_ucast_eq take_bit_eq_mod)
  then have "unat (1 + 5 + ucast (bit_bytes n) :: u16) = 6 + unat (bit_bytes n)"
    using n(1) by (simp add: unat_word_ariths)
  then have "1 + 5 + ucast (bit_bytes n) = (word_of_nat (6 + unat (bit_bytes n)) :: u16)"
    using n(1) by (intro u16_length) simp_all
  then show ?thesis using n Write_Multiple_Coils
    by (simp add: eMBMasterReqWriteMultipleCoils_def buf_gets_eq min_absorb2 Let_def)
next
  case (Write_Coil d a v)
  then show ?thesis using assms(2) by (simp add: eMBMasterReqWriteCoil_def)
qed (simp_all add: eMBMasterReqReadHoldingRegister_def eMBMasterReqReadInputRegister_def
  eMBMasterReqReadCoils_def eMBMasterReqReadDiscreteInputs_def eMBMasterReqWriteHoldingRegister_def)

text \<open>The steps of every request up to its last byte.\<close>

definition ask :: "request \<Rightarrow> u32 \<Rightarrow> master_event list" where
  "ask req j = [M_Request req, M_Poll_Runs j] @ replicate (length (request_pdu req) + 4) M_Tx_Ready"

lemma request_asked:
  assumes "idle s" "request_fits req" "request_legal req" "unat (request_dest req) \<le> 16"
  shows "run_steps master_step s (ask req j) = Some (sent s (request_dest req) (request_pdu req))"
  unfolding ask_def
  using request_sent [OF assms(1,4) _ run_request_pdu [OF assms(2,3)]] request_pdu_length [OF assms(2)] by blast

section \<open>The answer is executed\<close>

text \<open>What the handler of an answer \<open>resp\<close> sees: its bytes, the CRC, and what was in the buffer behind.\<close>

definition answer_call :: "mb_master \<Rightarrow> u8 list \<Rightarrow> master_call" where
  "answer_call s resp = \<lparr> dest_address = ucMBMasterDestAddress s, is_broadcast = xFrameIsBroadcast s,
     snd_pdu = drop 1 (ucMasterRTUSndBuf s),
     frame = drop 1 (rtu_seal (ucMBMasterDestAddress s # resp)) @ drop (length resp + 3) (ucMasterRTURcvBuf s),
     us_len = word_of_nat (length resp) \<rparr>"

lemma executing_frame:
  assumes "awaiting s" "fr = rtu_seal (ucMBMasterDestAddress s # resp)" "1 \<le> length resp"
  shows "pdu_of Rcv_PDU (executing s fr) ! 0 = resp ! 0" "pdu_of Rcv_PDU (executing s fr) \<noteq> []"
    "call_of Rcv_PDU (executing s fr) = answer_call s resp"
    "2 \<le> length resp \<Longrightarrow> pdu_of Rcv_PDU (executing s fr) ! Suc 0 = resp ! 1"
    "Suc 0 < length (pdu_of Rcv_PDU (executing s fr))"
proof -
  obtain x xs where r: "resp = x # xs" using assms(3) by (cases resp) auto
  show "pdu_of Rcv_PDU (executing s fr) ! 0 = resp ! 0" "pdu_of Rcv_PDU (executing s fr) \<noteq> []"
    "Suc 0 < length (pdu_of Rcv_PDU (executing s fr))"
    by (simp_all add: r assms(2) pdu_of_def executing_def replied_def rtu_seal_def)
  show "call_of Rcv_PDU (executing s fr) = answer_call s resp"
    by (simp add: assms(2) call_of_def answer_call_def pdu_of_def executing_def replied_def rtu_seal_def
        add.commute [of _ 3] numeral_3_eq_3)
  show "pdu_of Rcv_PDU (executing s fr) ! Suc 0 = resp ! 1" if "2 \<le> length resp"
    using that by (cases xs) (simp_all add: r assms(2) pdu_of_def executing_def replied_def rtu_seal_def)
qed

lemma executing_idle:
  assumes "awaiting s"
  shows "xMasterOsEvent (executing s fr) = EV_MASTER_EXECUTE" "m_ucMBFrame (executing s fr) = Some Rcv_PDU"
    "m_eMBState (executing s fr) = STATE_ENABLED" "m_eRcvState (executing s fr) = STATE_M_RX_IDLE"
    "m_eSndState (executing s fr) = STATE_M_TX_IDLE" "\<not> m_timer_on (executing s fr)"
    "\<not> trans_start (executing s fr)" "xMasterRunRes (executing s fr) = 0" "waiting (executing s fr) = waiting s"
    "mb_switch_flag (executing s fr) = mb_switch_flag s"
    "length (ucMasterRTUSndBuf (executing s fr)) = 253"
    "length fr \<le> 256 \<Longrightarrow> length (ucMasterRTURcvBuf (executing s fr)) = 256"
    "length (rs485_send_buf_not_modbus (executing s fr)) = 50" "m_regs (executing s fr) = m_regs s"
    "xFrameIsBroadcast (executing s fr) = xFrameIsBroadcast s" "line_out (executing s fr) = line_out s"
    "replies (executing s fr) = replies s"
  using assms by (simp_all add: executing_def replied_def awaiting_def)

lemma run_handler_once:
  assumes "\<not> xFrameIsBroadcast s" "call_master_handler h (call_of fr s) (m_regs s) = Some (r, e)"
  shows "run_handler h fr s = Some (s\<lparr> m_regs := r, xMBRunInMasterMode := False \<rparr>, e)"
proof -
  have "call_of fr (s\<lparr> xMBRunInMasterMode := True \<rparr>) = call_of fr s" by (simp add: call_of_def)
  with assms show ?thesis by (simp add: run_handler_def call_once_def Let_def)
qed

text \<open>An answer whose handler succeeds.\<close>

lemma answer_accepted:
  assumes "awaiting s" "waiting s = Waits_Reply" "\<not> xFrameIsBroadcast s"
    "1 \<le> length resp" "length resp \<le> 252" "drop_bit 7 (resp ! 0) = 0"
    "find_handler (resp ! 0) xMasterFuncHandlers = Some (Some h)"
    "call_master_handler h (answer_call s resp) (m_regs s) = Some (r, MB_EX_NONE)" "master_regs_wf r"
  shows "\<exists>s'. run_steps master_step s (map M_Rx_Byte (rtu_seal (ucMBMasterDestAddress s # resp)) @
      [M_Timer_Expires, M_Poll_Runs j1, M_Poll_Runs j2, M_Requester_Runs]) = Some s' \<and>
    finished s MB_MRE_NO_ERR s' \<and> m_regs s' = r"
proof -
  define fr where "fr = rtu_seal (ucMBMasterDestAddress s # resp)"
  define t where "t = executing s fr"
  have lf: "length fr \<le> 256" using assms(5) by (simp add: fr_def rtu_seal_def)
  note ex = executing_frame [OF assms(1) fr_def assms(4)]
  note id = executing_idle [OF assms(1), of fr]
  have t0: "call_of Rcv_PDU (t\<lparr> xMasterOsEvent := 0 \<rparr>) = call_of Rcv_PDU t"
    "pdu_of Rcv_PDU (t\<lparr> xMasterOsEvent := 0 \<rparr>) = pdu_of Rcv_PDU t"
    by (simp_all add: call_of_def pdu_of_def)
  have rh: "run_handler h Rcv_PDU (t\<lparr> xMasterOsEvent := 0 \<rparr>) =
      Some (t\<lparr> xMasterOsEvent := 0, m_regs := r, xMBRunInMasterMode := False \<rparr>, MB_EX_NONE)"
    using run_handler_once [of "t\<lparr> xMasterOsEvent := 0 \<rparr>" h Rcv_PDU r MB_EX_NONE] assms(3,8) id(14,15) ex(3) t0(1)
    by (simp add: t_def)
  have same: "t\<lparr> xMasterOsEvent := 0, m_regs := r, xMBRunInMasterMode := False \<rparr> = t\<lparr> xMasterOsEvent := 0, m_regs := r,
      ucMBMasterDestAddress := ucMBMasterDestAddress t, m_usLength := m_usLength t, xMBRunInMasterMode := False \<rparr>"
    by (rule mb_master.equality) simp_all
  have x: "master_exception Rcv_PDU (t\<lparr> xMasterOsEvent := 0 \<rparr>) = Some (t\<lparr> xMasterOsEvent := 0, m_regs := r,
      ucMBMasterDestAddress := ucMBMasterDestAddress t, m_usLength := m_usLength t, xMBRunInMasterMode := False \<rparr>, False)"
    using rh assms(6,7) ex(1,2) unfolding t0(2) same [symmetric]
    by (simp add: master_exception_def t0(2) t_def [symmetric])
  have sw: "mb_switch_flag s = 0" using assms(1,2) by (simp add: awaiting_def)
  obtain s' where s': "run_steps master_step t [M_Poll_Runs j2, M_Requester_Runs] = Some s'"
    "finished t MB_MRE_NO_ERR s'" "m_regs s' = r"
    using success_finishes [where s = t and fr = Rcv_PDU and r = r and d = "ucMBMasterDestAddress t" and
        l = "m_usLength t" and j = j2] id lf x assms(2,9) sw
    unfolding t_def [symmetric] by auto
  have p: "run_steps master_step s (map M_Rx_Byte fr @ [M_Timer_Expires, M_Poll_Runs j1]) = Some t"
    unfolding t_def by (rule answer_polled [OF assms(1) fr_def assms(4,5)])
  have "run_steps master_step s ((map M_Rx_Byte fr @ [M_Timer_Expires, M_Poll_Runs j1]) @ [M_Poll_Runs j2, M_Requester_Runs]) = Some s'"
    unfolding run_steps_append [of _ _ "map M_Rx_Byte fr @ [M_Timer_Expires, M_Poll_Runs j1]"] p using s'(1) by simp
  moreover have "finished s MB_MRE_NO_ERR s'" using s'(2) id(16,17) by (simp add: finished_def t_def)
  ultimately show ?thesis using s'(3) unfolding fr_def by auto
qed

section \<open>Answers that fail\<close>

lemma answer_refused:
  assumes "awaiting s" "2 \<le> length resp" "length resp \<le> 252" "drop_bit 7 (resp ! 0) \<noteq> 0" "resp ! 1 \<noteq> 0"
  shows "\<exists>s'. run_steps master_step s (map M_Rx_Byte (rtu_seal (ucMBMasterDestAddress s # resp)) @
      [M_Timer_Expires, M_Poll_Runs j1, M_Poll_Runs j2, M_Poll_Runs j3, M_Requester_Runs]) = Some s' \<and>
    finished s MB_MRE_EXE_FUN s' \<and> m_regs s' = m_regs s"
proof -
  define fr where "fr = rtu_seal (ucMBMasterDestAddress s # resp)"
  define t where "t = executing s fr"
  define u where "u = t\<lparr> xMasterOsEvent := EV_MASTER_ERROR_PROCESS, eMBMasterCurErrorType := EV_ERROR_EXECUTE_FUNCTION \<rparr>"
  have len: "1 \<le> length resp" "length fr \<le> 256" using assms(2,3) by (simp_all add: fr_def rtu_seal_def)
  note ex = executing_frame [OF assms(1) fr_def len(1)]
  note id = executing_idle [OF assms(1), of fr]
  have t0: "pdu_of Rcv_PDU (t\<lparr> xMasterOsEvent := 0 \<rparr>) = pdu_of Rcv_PDU t" by (simp add: pdu_of_def)
  have p2: "master_step t (M_Poll_Runs j2) = Some u"
    using poll_one(3) [of t EV_MASTER_EXECUTE "t\<lparr> xMasterOsEvent := 0 \<rparr>" j2] id ex(1,2,5) ex(4) [OF assms(2)] assms(4,5)
    by (simp add: master_execute_def master_exception_def t0 t_def [symmetric] master_error_def
        xMBMasterPortEventPost_def event_flags_send_def u_def del: master_step.simps)
  obtain s' where s': "run_steps master_step u [M_Poll_Runs j3, M_Requester_Runs] = Some s'"
    "finished u MB_MRE_EXE_FUN s'" "m_regs s' = m_regs s"
    using error_finishes [of u MB_MRE_EXE_FUN j3] id len assms(1) by (auto simp: u_def t_def awaiting_def)
  have p: "run_steps master_step s (map M_Rx_Byte fr @ [M_Timer_Expires, M_Poll_Runs j1]) = Some t"
    unfolding t_def by (rule answer_polled [OF assms(1) fr_def len(1) assms(3)])
  have "run_steps master_step t [M_Poll_Runs j2, M_Poll_Runs j3, M_Requester_Runs] = Some s'"
    using s'(1) by (simp only: run_steps.simps p2 bind.simps)
  then have "run_steps master_step s ((map M_Rx_Byte fr @ [M_Timer_Expires, M_Poll_Runs j1]) @
      [M_Poll_Runs j2, M_Poll_Runs j3, M_Requester_Runs]) = Some s'"
    unfolding run_steps_append [of _ _ "map M_Rx_Byte fr @ [M_Timer_Expires, M_Poll_Runs j1]"] p by simp
  moreover have "finished s MB_MRE_EXE_FUN s'" using s'(2) id(16,17) by (simp add: finished_def t_def u_def)
  ultimately show ?thesis using s'(3) unfolding fr_def by auto
qed

text \<open>The bytes stay in the receive buffer; the raw exchange relies on it.\<close>

lemma answer_garbled:
  assumes "awaiting s" "bs \<noteq> []" "length bs < 256"
    "\<not> rtu_accept bs \<or> length bs < 4 \<or> bs ! 0 \<noteq> ucMBMasterDestAddress s"
  shows "\<exists>s'. run_steps master_step s (map M_Rx_Byte bs @
      [M_Timer_Expires, M_Poll_Runs j1, M_Poll_Runs j2, M_Requester_Runs]) = Some s' \<and>
    finished s MB_MRE_REV_DATA s' \<and> m_regs s' = m_regs s \<and>
    ucMasterRTURcvBuf s' = bs @ drop (length bs) (ucMasterRTURcvBuf s)"
proof -
  define t where "t = (replied s bs)\<lparr> xMasterOsEvent := 0 \<rparr>"
  have en: "m_eMBState (replied s bs) = STATE_ENABLED" "xMasterOsEvent (replied s bs) = EV_MASTER_FRAME_RECEIVED"
    using assms(1) by (simp_all add: awaiting_def replied_def)
  obtain u where u: "master_received t = Some u" "xMasterOsEvent u = EV_MASTER_ERROR_PROCESS"
    "eMBMasterCurErrorType u = EV_ERROR_RECEIVE_DATA" "m_eMBState u = STATE_ENABLED" "m_eRcvState u = STATE_M_RX_IDLE"
    "m_eSndState u = STATE_M_TX_IDLE" "\<not> m_timer_on u" "\<not> trans_start u" "xMasterRunRes u = 0" "waiting u = waiting s"
    "mb_switch_flag u = mb_switch_flag s" "ucMasterRTUSndBuf u = ucMasterRTUSndBuf s"
    "ucMasterRTURcvBuf u = bs @ drop (length bs) (ucMasterRTURcvBuf s)"
    "rs485_send_buf_not_modbus u = rs485_send_buf_not_modbus s" "m_regs u = m_regs s" "line_out u = line_out s"
    "replies u = replies s"
  proof (cases "4 \<le> length bs \<and> rtu_accept bs")
    case True
    with replied_receive [OF assms(1,3)] assms(4)
    have "master_received t = Some (master_error EV_ERROR_RECEIVE_DATA
        (t\<lparr> m_ucRcvAddress := bs ! 0, m_ucMBFrame := Some Rcv_PDU, m_usLength := word_of_nat (length bs - 3) \<rparr>))"
      by (auto simp: master_received_def t_def replied_def Let_def)
    with that assms(1) show ?thesis
      by (simp add: t_def replied_def awaiting_def master_error_def xMBMasterPortEventPost_def event_flags_send_def)
  next
    case False
    with replied_receive [OF assms(1,3)] have "master_received t = Some (master_error EV_ERROR_RECEIVE_DATA t)"
      by (auto simp: master_received_def t_def)
    with that assms(1) show ?thesis
      by (simp add: t_def replied_def awaiting_def master_error_def xMBMasterPortEventPost_def event_flags_send_def)
  qed
  have p1: "master_step (replied s bs) (M_Poll_Runs j1) = Some u"
    using poll_one(2) [OF en t_def refl, of j1] u(1) by (simp del: master_step.simps)
  have aw: "waiting s \<noteq> Free" "waiting s = Waits_Reply \<longrightarrow> mb_switch_flag s = 0" "length (ucMasterRTUSndBuf s) = 253"
    "length (ucMasterRTURcvBuf u) = 256" "length (rs485_send_buf_not_modbus s) = 50" "master_regs_wf (m_regs s)"
    using assms(1,3) by (simp_all add: awaiting_def u(13))
  obtain s' where s': "run_steps master_step u [M_Poll_Runs j2, M_Requester_Runs] = Some s'"
    "finished u MB_MRE_REV_DATA s'" "m_regs s' = m_regs s" "ucMasterRTURcvBuf s' = ucMasterRTURcvBuf u"
    using error_finishes [of u MB_MRE_REV_DATA j2] u aw by auto
  have "run_steps master_step (replied s bs) [M_Poll_Runs j1, M_Poll_Runs j2, M_Requester_Runs] = Some s'"
    using s'(1) by (simp only: run_steps.simps p1 bind.simps)
  then have "run_steps master_step s ((map M_Rx_Byte bs @ [M_Timer_Expires]) @
      [M_Poll_Runs j1, M_Poll_Runs j2, M_Requester_Runs]) = Some s'"
    unfolding run_steps_append [of _ _ "map M_Rx_Byte bs @ [M_Timer_Expires]"]
    using answer_arrives [OF assms(1,2)] assms(3) by simp
  moreover have "finished s MB_MRE_REV_DATA s'" using s'(2) u(16,17) by (simp add: finished_def)
  ultimately show ?thesis using s'(3,4) u(13) by auto
qed

lemma answer_missing:
  assumes "awaiting s" "\<not> xFrameIsBroadcast s" "eMasterCurTimerMode s = MB_TMODE_RESPOND_TIMEOUT"
  shows "\<exists>s'. run_steps master_step s [M_Timer_Expires, M_Poll_Runs j, M_Requester_Runs] = Some s' \<and>
    finished s MB_MRE_TIMEDOUT s' \<and> m_regs s' = m_regs s"
proof -
  define u where "u = s\<lparr> m_eSndState := STATE_M_TX_IDLE, m_timer_on := False,
    xMasterOsEvent := EV_MASTER_ERROR_PROCESS, eMBMasterCurErrorType := EV_ERROR_RESPOND_TIMEOUT \<rparr>"
  have p: "master_step s M_Timer_Expires = Some u"
    using assms by (simp add: awaiting_def xMBMasterRTUTimerExpired_def master_port Let_def u_def)
  obtain s' where s': "run_steps master_step u [M_Poll_Runs j, M_Requester_Runs] = Some s'"
    "finished u MB_MRE_TIMEDOUT s'" "m_regs s' = m_regs s"
    using error_finishes [of u MB_MRE_TIMEDOUT j] assms(1) by (auto simp: awaiting_def u_def)
  have "run_steps master_step s [M_Timer_Expires, M_Poll_Runs j, M_Requester_Runs] = Some s'"
    using s'(1) by (simp only: run_steps.simps p bind.simps)
  moreover have "finished s MB_MRE_TIMEDOUT s'" using s'(2) by (simp add: finished_def u_def)
  ultimately show ?thesis using s'(3) by blast
qed

section \<open>Broadcast\<close>

lemma twice_byte: "unat n \<le> 50 \<Longrightarrow> unat (ucast (n * 2 :: u16) :: u8) = 2 * unat n"
  by (simp add: unsigned_ucast_eq take_bit_eq_mod unat_word_ariths)

lemma write_multiple_stores:
  assumes "master_regs_wf r" "is_broadcast c \<or> us_len c = 5" "dest_ok (dest_address c)" "unat n \<le> length vs"
    "unat a + unat n \<le> 50" "snd_pdu c = request_pdu (Write_Multiple_Holding d a n vs) @ rest"
  shows "eMBMasterFuncWriteMultipleHoldingRegister c r = Some (r\<lparr> usMRegHoldBuf :=
    store_words (usMRegHoldBuf r) (dest_address c) (unat a) (take (unat n) vs) \<rparr>, MB_EX_NONE)"
proof -
  have l: "length (take (unat n) vs) = unat n" using assms(4) by simp
  have f: "frame_u16 (snd_pdu c) 1 = Some a" "frame_u16 (snd_pdu c) 3 = Some n"
    "buf_get (snd_pdu c) 5 = Some (ucast (n * 2))"
    "be_words (take (2 * unat n) (drop 6 (snd_pdu c))) = take (unat n) vs"
    "6 + 2 * unat n \<le> length (snd_pdu c)"
    using l by (simp_all add: assms(6) frame_u16_def)
  have "eMBMasterRegHoldingCB r (dest_address c) (snd_pdu c) 6 (a + 1) n = Some (r\<lparr> usMRegHoldBuf :=
    store_words (usMRegHoldBuf r) (dest_address c) (unat a) (take (unat n) vs) \<rparr>, MB_ENOERR)"
    using eMBMasterRegHoldingCB_eq [OF assms(1,3), of a n 6 "snd_pdu c"] assms(5) f(4,5) by simp
  then show ?thesis
    using assms(2,5) f(1-3) twice_byte [of n]
    by (auto simp: eMBMasterFuncWriteMultipleHoldingRegister_def reg_status_def)
qed

definition put_row :: "nat \<Rightarrow> 'a list \<Rightarrow> 'a list \<Rightarrow> 'a list" where
  "put_row a ws row = take a row @ ws @ drop (a + length ws) row"

lemma nth_store_words:
  "dest_ok dest \<Longrightarrow> rows 16 m b \<Longrightarrow>
     store_words b dest a ws ! i = (if i = unat dest - 1 then put_row a ws (b ! i) else b ! i)"
  by (auto simp: store_words_def Let_def put_row_def rows_def dest_ok_def nth_list_update)

text \<open>The loop over the slaves writes the rows \<open>j - 1\<close> to \<open>j + k - 2\<close>.\<close>

lemma call_slaves_write:
  assumes "unat n \<le> length vs" "unat a + unat n \<le> 50"
  shows "master_regs_wf (m_regs s) \<Longrightarrow> xFrameIsBroadcast s \<Longrightarrow> 1 \<le> unat j \<Longrightarrow> unat j + k \<le> 17 \<Longrightarrow>
    pdu_of Snd_PDU s = request_pdu (Write_Multiple_Holding 0 a n vs) @ rest \<Longrightarrow> 0 < k \<or> e = MB_EX_NONE \<Longrightarrow>
    \<exists>r d. call_slaves WriteMultipleHoldingRegister fr j k (s, e) =
        Some (s\<lparr> ucMBMasterDestAddress := d, m_regs := r \<rparr>, MB_EX_NONE) \<and> master_regs_wf r \<and>
      (\<forall>i < 16. usMRegHoldBuf r ! i = (if unat j \<le> i + 1 \<and> i + 1 < unat j + k
         then put_row (unat a) (take (unat n) vs) (usMRegHoldBuf (m_regs s) ! i) else usMRegHoldBuf (m_regs s) ! i))"
proof (induction k arbitrary: j s e)
  case 0
  have "s = s\<lparr> ucMBMasterDestAddress := ucMBMasterDestAddress s, m_regs := m_regs s \<rparr>"
    by (rule mb_master.equality) simp_all
  with 0 show ?case
    by (intro exI [of _ "m_regs s"] exI [of _ "ucMBMasterDestAddress s"]) auto
next
  case (Suc k)
  define r1 where "r1 = (m_regs s)\<lparr> usMRegHoldBuf :=
    store_words (usMRegHoldBuf (m_regs s)) j (unat a) (take (unat n) vs) \<rparr>"
  define s1 where "s1 = s\<lparr> ucMBMasterDestAddress := j, m_regs := r1 \<rparr>"
  have d: "dest_ok j" using Suc.prems(3,4) by (simp add: dest_ok_def)
  have w: "rows 16 50 (usMRegHoldBuf (m_regs s))" using Suc.prems(1) by (simp add: master_regs_wf_def)
  have wf1: "master_regs_wf r1"
    unfolding r1_def by (rule master_words_wf(1) [OF Suc.prems(1) d]) (use assms in simp)
  have c: "call_once WriteMultipleHoldingRegister fr (s\<lparr> ucMBMasterDestAddress := j \<rparr>) = Some (s1, MB_EX_NONE)"
    using write_multiple_stores [of "m_regs s" "call_of fr (s\<lparr> ucMBMasterDestAddress := j \<rparr>)" n vs a 0 rest]
      Suc.prems(1,2,5) d assms
    by (simp add: call_once_def call_of_def s1_def r1_def)
  have j1: "unat (j + 1) = unat j + 1" using Suc.prems(4) by (simp add: unat_word_ariths)
  obtain r d' where r: "call_slaves WriteMultipleHoldingRegister fr (j + 1) k (s1, MB_EX_NONE) =
      Some (s1\<lparr> ucMBMasterDestAddress := d', m_regs := r \<rparr>, MB_EX_NONE)" "master_regs_wf r"
    "\<forall>i < 16. usMRegHoldBuf r ! i = (if unat (j + 1) \<le> i + 1 \<and> i + 1 < unat (j + 1) + k
       then put_row (unat a) (take (unat n) vs) (usMRegHoldBuf (m_regs s1) ! i) else usMRegHoldBuf (m_regs s1) ! i)"
    using Suc.IH [of s1 "j + 1" MB_EX_NONE] wf1 Suc.prems j1 by (auto simp: s1_def)
  have st: "usMRegHoldBuf (m_regs s1) ! i = (if i = unat j - 1 then put_row (unat a) (take (unat n) vs)
      (usMRegHoldBuf (m_regs s) ! i) else usMRegHoldBuf (m_regs s) ! i)" for i
    using nth_store_words [OF d w] by (simp add: s1_def r1_def)
  have "s1\<lparr> ucMBMasterDestAddress := d', m_regs := r \<rparr> = s\<lparr> ucMBMasterDestAddress := d', m_regs := r \<rparr>"
    by (simp add: s1_def)
  moreover have "\<forall>i < 16. usMRegHoldBuf r ! i = (if unat j \<le> i + 1 \<and> i + 1 < unat j + Suc k
         then put_row (unat a) (take (unat n) vs) (usMRegHoldBuf (m_regs s) ! i) else usMRegHoldBuf (m_regs s) ! i)"
  proof (intro allI impI)
    fix i :: nat assume "i < 16"
    then have e: "usMRegHoldBuf r ! i = (if unat (j + 1) \<le> i + 1 \<and> i + 1 < unat (j + 1) + k
       then put_row (unat a) (take (unat n) vs) (usMRegHoldBuf (m_regs s1) ! i) else usMRegHoldBuf (m_regs s1) ! i)"
      using r(3) by blast
    consider "i + 1 < unat j" | "i + 1 = unat j" | "unat j < i + 1" by linarith
    then show "usMRegHoldBuf r ! i = (if unat j \<le> i + 1 \<and> i + 1 < unat j + Suc k
         then put_row (unat a) (take (unat n) vs) (usMRegHoldBuf (m_regs s) ! i) else usMRegHoldBuf (m_regs s) ! i)"
      by cases (use e st [of i] j1 Suc.prems(3) in auto)
  qed
  ultimately show ?case using c r(1,2) by auto
qed

end
