(* ===== verification/Mb_Master_Answer.thy ===== *)
theory Mb_Master_Answer
  imports Mb_Master_Run
begin

text \<open>
  The properties of the Modbus master: what a request leads to on each path, the master and a slave
  on one line, and the inputs it does not survive.
\<close>

text \<open>The examples start from a master that is enabled and idle.\<close>

definition master1 :: mb_master where
  "master1 = mb_master0\<lparr> m_eMBState := STATE_ENABLED, m_eRcvState := STATE_M_RX_IDLE, xMasterRunRes := 1 \<rparr>"

lemma master1_idle: "idle master1"
  by (simp add: master1_def idle_def mb_master0_def MB_PDU_SIZE_MAX_def)

section \<open>A request and its answer\<close>

lemma sent_fields [simp]:
  "ucMBMasterDestAddress (sent s d pdu) = d" "xFrameIsBroadcast (sent s d pdu) \<longleftrightarrow> d = 0"
  "waiting (sent s d pdu) = Waits_Reply" "m_regs (sent s d pdu) = m_regs s"
  "line_out (sent s d pdu) = line_out s @ rtu_seal (d # pdu)" "replies (sent s d pdu) = replies s"
  "ucMasterRTURcvBuf (sent s d pdu) = ucMasterRTURcvBuf s"
  by (simp_all add: sent_def)

lemma sent_pdu: "drop 1 (ucMasterRTUSndBuf (sent s d pdu)) =
    pdu @ [lo8 (crc16 (d # pdu)), hi8 (crc16 (d # pdu))] @ drop (length pdu + 3) (ucMasterRTUSndBuf s)"
  by (simp add: sent_def rtu_seal_def)

text \<open>A request, then events \<open>es\<close> on the line from the state in which the answer is awaited.\<close>

lemma ask_then:
  assumes "idle s" "request_fits req" "request_legal req" "unat (request_dest req) \<le> 16"
    "run_steps master_step (sent s (request_dest req) (request_pdu req)) es = Some s'"
    "finished (sent s (request_dest req) (request_pdu req)) e s'"
  shows "run_steps master_step s (ask req j @ es) = Some s'"
    "replies s' = replies s @ [e]" "idle s'"
    "line_out s' = line_out s @ rtu_seal (request_dest req # request_pdu req)"
proof -
  show "run_steps master_step s (ask req j @ es) = Some s'"
    unfolding run_steps_append request_asked [OF assms(1-4)] using assms(5) by simp
  show "replies s' = replies s @ [e]" "idle s'"
    "line_out s' = line_out s @ rtu_seal (request_dest req # request_pdu req)"
    using assms(6) by (simp_all add: finished_def)
qed

lemma dest_ok_le: "dest_ok d \<Longrightarrow> unat d \<le> 16 \<and> d \<noteq> 0"
  by (auto simp: dest_ok_def)

lemma master_answered:
  assumes "idle s" "request_fits req" "request_legal req" "dest_ok (request_dest req)"
    and t_def: "t = sent s (request_dest req) (request_pdu req)"
    and "1 \<le> length resp" "length resp \<le> 252" "drop_bit 7 (resp ! 0) = 0"
    "find_handler (resp ! 0) xMasterFuncHandlers = Some (Some h)"
    "call_master_handler h (answer_call t resp) (m_regs s) = Some (r, MB_EX_NONE)"
    "master_regs_wf r"
  shows "\<exists>s'. run_steps master_step s (ask req j @ map M_Rx_Byte (rtu_seal (request_dest req # resp)) @
      [M_Timer_Expires, M_Poll_Runs j1, M_Poll_Runs j2, M_Requester_Runs]) = Some s' \<and>
    line_out s' = line_out s @ rtu_seal (request_dest req # request_pdu req) \<and>
    replies s' = replies s @ [MB_MRE_NO_ERR] \<and> m_regs s' = r \<and> idle s'"
proof -
  note d = dest_ok_le [OF assms(4)]
  have "awaiting t" unfolding t_def using sent_awaiting [OF assms(1)] request_pdu_length [OF assms(2)] by simp
  from answer_accepted [OF this _ _ assms(6-9), of r j1 j2] assms(10,11) d obtain s' where
    s': "run_steps master_step t (map M_Rx_Byte (rtu_seal (request_dest req # resp)) @
      [M_Timer_Expires, M_Poll_Runs j1, M_Poll_Runs j2, M_Requester_Runs]) = Some s'"
    "finished t MB_MRE_NO_ERR s'" "m_regs s' = r" by (auto simp: t_def)
  from ask_then [OF assms(1-3) _ s'(1,2) [unfolded t_def]] d s'(3) show ?thesis by blast
qed

text \<open>The answer to a read of holding registers.\<close>

lemma read_answer_stored:
  assumes "master_regs_wf r" "dest_ok d" "n \<noteq> 0" "unat a + unat n \<le> 50" "length ws = unat n"
    and t_def: "t = sent s d (request_pdu (Read_Holding d a n))"
  shows "call_master_handler ReadHoldingRegister (answer_call t ([3, ucast (n * 2)] @ be_bytes ws)) r =
    Some (r\<lparr> usMRegHoldBuf := store_words (usMRegHoldBuf r) d (unat a) ws \<rparr>, MB_EX_NONE)"
proof -
  define c where "c = answer_call t ([3, ucast (n * 2)] @ be_bytes ws)"
  have sp: "snd_pdu c = [3, hi8 a, lo8 a, hi8 n, lo8 n] @ [lo8 (crc16 (d # request_pdu (Read_Holding d a n))),
      hi8 (crc16 (d # request_pdu (Read_Holding d a n)))] @ drop 8 (ucMasterRTUSndBuf s)"
    unfolding c_def answer_call_def t_def master_call.simps sent_pdu by simp
  have f: "frame_u16 (snd_pdu c) 1 = Some a" "frame_u16 (snd_pdu c) 3 = Some n"
    by (simp_all add: sp frame_u16_def)
  obtain rest where fr: "frame c = [3, ucast (n * 2)] @ be_bytes ws @ rest"
    by (simp add: c_def answer_call_def rtu_seal_def)
  have b: "buf_get (frame c) 1 = Some (ucast (n * 2))" by (simp add: fr)
  have len: "2 + 2 * unat n \<le> length (frame c)" using assms(5) by (simp add: fr)
  have w: "be_words (take (2 * unat n) (drop 2 (frame c))) = ws"
    using assms(5) by (simp add: fr)
  have dc: "dest_address c = d" "is_broadcast c = False" using dest_ok_le [OF assms(2)]
    by (simp_all add: c_def answer_call_def t_def)
  have cnt: "2 + 2 * unat n \<le> 102" "unat (2 + word_of_nat (2 * unat n) :: u16) = 2 + 2 * unat n"
    using assms(4) by (simp_all add: unat_word_ariths unat_of_nat)
  have "us_len c = word_of_nat (2 + 2 * unat n)" using assms(5) by (simp add: c_def answer_call_def)
  then have l: "2 \<le> us_len c" using cnt unat_small_u16 [of "2 + 2 * unat n"] by (simp add: word_le_nat_alt)
  have n1: "1 \<le> n" using assms(3) by (simp add: u16_count_bounds)
  have "eMBMasterRegHoldingCB r d (frame c) 2 (a + 1) n =
      Some (r\<lparr> usMRegHoldBuf := store_words (usMRegHoldBuf r) d (unat a) ws \<rparr>, MB_ENOERR)"
    using eMBMasterRegHoldingCB_eq [OF assms(1,2), of a n 2 "frame c"] assms(4) len w by simp
  then have "eMBMasterFuncReadHoldingRegister c r =
      Some (r\<lparr> usMRegHoldBuf := store_words (usMRegHoldBuf r) d (unat a) ws \<rparr>, MB_EX_NONE)"
    using f b dc l n1 twice_byte [of n] assms(4)
    by (simp add: eMBMasterFuncReadHoldingRegister_def reg_status_def)
  then show ?thesis by (simp add: c_def)
qed

text \<open>The slave's side of that read.\<close>

lemma slave_reads:
  assumes "slave_regs_wf r" "n \<noteq> 0" "unat a + unat n \<le> 100" "length buf = 256"
    and f_def: "f = [3, hi8 a, lo8 a, hi8 n, lo8 n] @ [x, y] @ drop 8 buf"
  shows "pdu_clear f" "pdu_response r f 5 =
    Some (r, [3, ucast (n * 2)] @ be_bytes (take (unat n) (drop (unat a) (usSRegHoldBuf r))))"
proof -
  have h: "find_handler 3 handlers_init = Some (Some ReadHoldingRegister)" by (simp add: handlers_init_def)
  have f: "f ! 0 = 3" "req_addr f = a" "req_count f = n" "202 \<le> length f" using assms(4) by (simp_all add: f_def)
  show "pdu_clear f" using f h by (simp add: pdu_clear_def)
  have hold: "length (take (unat n) (drop (unat a) (usSRegHoldBuf r))) = unat n"
    using assms(1,3) by (simp add: slave_regs_wf_def)
  have u: "unat (2 + n * 2) = 2 + 2 * unat n" using assms(3) by (simp add: unat_word_ariths)
  have "eMBFuncReadHoldingRegister r f 5 =
      Some (r, [3, ucast (n * 2)] @ be_bytes (take (unat n) (drop (unat a) (usSRegHoldBuf r))) @
        drop (2 + 2 * unat n) f, 2 + n * 2, MB_EX_NONE)"
    using read_holding_eq [OF assms(1) f(4) f(2,3) [symmetric], of 5] assms(2,3) by simp
  then show "pdu_response r f 5 =
      Some (r, [3, ucast (n * 2)] @ be_bytes (take (unat n) (drop (unat a) (usSRegHoldBuf r))))"
    using f h hold by (simp add: pdu_response_def u)
qed

lemma slave_serves_read:
  assumes "listening sl" and d_def: "d = ucMBAddress sl" and "d \<noteq> 0" "n \<noteq> 0" "unat a + unat n \<le> 50"
    and ws_def: "ws = take (unat n) (drop (unat a) (usSRegHoldBuf (regs sl)))"
  shows "\<exists>sl'. run_steps slave_step sl (map Rx_Byte (rtu_seal (d # request_pdu (Read_Holding d a n))) @
      [Timer_Expires, Poll_Runs j1, Poll_Runs j2] @ replicate (2 * unat n + 6) Tx_Ready @ [Poll_Runs j3]) = Some sl' \<and>
    serial_out sl' = serial_out sl @ rtu_seal (d # [3, ucast (n * 2)] @ be_bytes ws) \<and> regs sl' = regs sl \<and>
    listening sl'"
proof -
  define pdu where "pdu = request_pdu (Read_Holding d a n)"
  define resp where "resp = [3, ucast (n * 2)] @ be_bytes ws"
  define f where "f = pdu @ [lo8 (crc16 (d # pdu)), hi8 (crc16 (d # pdu))] @ drop (length pdu + 3) (ucRTUBuf sl)"
  have sl: "slave_regs_wf (regs sl)" "length (ucRTUBuf sl) = 256"
    using assms(1) by (simp_all add: listening_def rx_ready_def)
  have wl: "length ws = unat n" using sl(1) assms(5) by (simp add: ws_def slave_regs_wf_def)
  have lp: "length pdu = 5" "1 \<le> length pdu" "length pdu \<le> 252" by (simp_all add: pdu_def)
  have fd: "f = [3, hi8 a, lo8 a, hi8 n, lo8 n] @ [lo8 (crc16 (d # pdu)), hi8 (crc16 (d # pdu))] @ drop 8 (ucRTUBuf sl)"
    by (simp add: f_def lp) (simp add: pdu_def)
  have sr: "pdu_clear f" "pdu_response (regs sl) f (word_of_nat (length pdu)) = Some (regs sl, resp)"
    using slave_reads [OF sl(1) assms(4) _ sl(2) fd] assms(5) by (simp_all add: lp resp_def ws_def)
  have d0: "d \<noteq> MB_ADDRESS_BROADCAST" using assms(3) by (simp add: slave_consts)
  have n6: "length resp + 4 = 2 * unat n + 6" using wl by (simp add: resp_def)
  show ?thesis
    using slave_answers [OF assms(1) d_def d0 lp(2,3) f_def sr, of j1 j2 j3]
    unfolding n6 by (auto simp: pdu_def resp_def)
qed

lemma master_takes_read:
  assumes "idle m" "dest_ok d" "n \<noteq> 0" "unat a + unat n \<le> 50" "length ws = unat n"
    and m1_def: "m1 = sent m d (request_pdu (Read_Holding d a n))"
  shows "\<exists>m'. run_steps master_step m1 (map M_Rx_Byte (rtu_seal (d # [3, ucast (n * 2)] @ be_bytes ws)) @
      [M_Timer_Expires, M_Poll_Runs j4, M_Poll_Runs j5, M_Requester_Runs]) = Some m' \<and>
    finished m1 MB_MRE_NO_ERR m' \<and>
    take (unat n) (drop (unat a) (usMRegHoldBuf (m_regs m') ! (unat d - 1))) = ws"
proof -
  define resp where "resp = [3, ucast (n * 2)] @ be_bytes ws"
  define r where "r = (m_regs m)\<lparr> usMRegHoldBuf := store_words (usMRegHoldBuf (m_regs m)) d (unat a) ws \<rparr>"
  note dd = dest_ok_le [OF assms(2)]
  have lr: "length resp \<le> 252" "1 \<le> length resp" "resp ! 0 = 3"
    using assms(4,5) by (simp_all add: resp_def)
  have mw: "master_regs_wf (m_regs m)" "rows 16 50 (usMRegHoldBuf (m_regs m))"
    using assms(1) by (simp_all add: idle_def master_regs_wf_def)
  have c: "call_master_handler ReadHoldingRegister (answer_call m1 resp) (m_regs m) = Some (r, MB_EX_NONE)"
    unfolding resp_def r_def by (rule read_answer_stored [OF mw(1) assms(2-5) m1_def])
  have w: "master_regs_wf r"
    unfolding r_def by (rule master_words_wf(1) [OF mw(1) assms(2)]) (use assms(4,5) in simp)
  have aw: "awaiting m1" unfolding m1_def by (rule sent_awaiting [OF assms(1)]) simp
  have ma: "ucMBMasterDestAddress m1 = d" "waiting m1 = Waits_Reply" "\<not> xFrameIsBroadcast m1" "m_regs m1 = m_regs m"
    using dd by (simp_all add: m1_def)
  have h: "drop_bit 7 (resp ! 0) = 0" "find_handler (resp ! 0) xMasterFuncHandlers = Some (Some ReadHoldingRegister)"
    by (simp_all add: lr(3) xMasterFuncHandlers_def)
  obtain m' where r3: "run_steps master_step m1 (map M_Rx_Byte (rtu_seal (d # resp)) @
      [M_Timer_Expires, M_Poll_Runs j4, M_Poll_Runs j5, M_Requester_Runs]) = Some m'" "finished m1 MB_MRE_NO_ERR m'"
    "m_regs m' = r"
    using answer_accepted [OF aw ma(2,3) lr(2,1) h, of r j4 j5] c w unfolding ma(1,4) by blast
  have "usMRegHoldBuf r ! (unat d - 1) = put_row (unat a) ws (usMRegHoldBuf (m_regs m) ! (unat d - 1))"
    and "length (usMRegHoldBuf (m_regs m) ! (unat d - 1)) = 50"
    using nth_store_words [OF assms(2) mw(2)] dest_row [OF assms(2) mw(2)] by (simp_all add: r_def)
  then have "take (unat n) (drop (unat a) (usMRegHoldBuf (m_regs m') ! (unat d - 1))) = ws"
    using assms(4,5) by (simp add: r3(3) put_row_def)
  with r3 show ?thesis unfolding resp_def by blast
qed

section \<open>Properties\<close>

text \<open>
  C15: A request that is answered: from an idle master, any legal request to a slave that fits the
  transmit buffer puts exactly the sealed request on the line; an intact answer of that slave, the
  silence after it, two polls and the requester's wake-up store what the handler of the answer's
  function code makes of it, return \<open>MB_MRE_NO_ERR\<close> to the requester, and leave the master idle with
  its resource released. The function code of the answer need not be the one of the request.
\<close>

theorem master_request_answered:
  assumes "idle s" "request_fits req" "request_legal req" "dest_ok (request_dest req)"
    and t_def: "t = sent s (request_dest req) (request_pdu req)"
    and "1 \<le> length resp" "length resp \<le> 252" "drop_bit 7 (resp ! 0) = 0"
    "find_handler (resp ! 0) xMasterFuncHandlers = Some (Some h)"
    "call_master_handler h (answer_call t resp) (m_regs s) = Some (r, MB_EX_NONE)"
    "master_regs_wf r"
  shows "\<exists>s'. run_steps master_step s (ask req j @ map M_Rx_Byte (rtu_seal (request_dest req # resp)) @
      [M_Timer_Expires, M_Poll_Runs j1, M_Poll_Runs j2, M_Requester_Runs]) = Some s' \<and>
    line_out s' = line_out s @ rtu_seal (request_dest req # request_pdu req) \<and>
    replies s' = replies s @ [MB_MRE_NO_ERR] \<and> m_regs s' = r \<and> idle s'"
  by (rule master_answered [OF assms])

theorem master_request_answered_witness:
  "\<exists>s'. run_steps master_step master1 (ask (Read_Holding 1 0 1) 0 @
      map M_Rx_Byte (rtu_seal [1, 3, 2, 0xAB, 0xCD]) @
      [M_Timer_Expires, M_Poll_Runs 0, M_Poll_Runs 0, M_Requester_Runs]) = Some s' \<and>
    line_out s' = rtu_seal [1, 3, 0, 0, 0, 1] \<and> replies s' = [MB_MRE_NO_ERR] \<and>
    hd (usMRegHoldBuf (m_regs s') ! 0) = 0xABCD \<and> idle s'"
proof -
  define t where "t = sent master1 (request_dest (Read_Holding 1 0 1)) (request_pdu (Read_Holding 1 0 1))"
  have m: "m_regs master1 = master_regs_init" "line_out master1 = []" "replies master1 = []"
    by (simp_all add: master1_def mb_master0_def)
  have d: "dest_ok (1 :: u8)" by (simp add: dest_ok_def)
  have b: "be_bytes [0xABCD :: u16] = [0xAB, 0xCD]" by (simp add: hi8_def lo8_def)
  define r where "r = master_regs_init\<lparr> usMRegHoldBuf := store_words (usMRegHoldBuf master_regs_init) 1 0 [0xABCD] \<rparr>"
  have c: "call_master_handler ReadHoldingRegister (answer_call t [3, 2, 0xAB, 0xCD]) (m_regs master1) = Some (r, MB_EX_NONE)"
    using read_answer_stored [OF master_regs_init_wf d, of 1 0 "[0xABCD]" t master1] b
    by (simp add: t_def m r_def)
  have w: "master_regs_wf r"
    unfolding r_def by (rule master_words_wf(1) [OF master_regs_init_wf d]) simp
  have f: "find_handler 3 xMasterFuncHandlers = Some (Some ReadHoldingRegister)" by (simp add: xMasterFuncHandlers_def)
  have x: "hd (usMRegHoldBuf r ! 0) = 0xABCD"
    by (simp add: r_def store_words_def Let_def master_regs_init_def master_sizes)
  have h: "hi8 0 = 0" "lo8 0 = 0" "hi8 1 = 0" "lo8 1 = 1" by (simp_all add: hi8_def lo8_def)
  show ?thesis
    using master_request_answered [where s = master1 and req = "Read_Holding 1 0 1" and t = t and
        resp = "[3, 2, 0xAB, 0xCD]" and h = ReadHoldingRegister and r = r and j = 0 and ?j1.0 = 0 and ?j2.0 = 0]
      master1_idle t_def c w f d m x h by auto
qed

text \<open>
  C16: The ways a legal request to one slave fails, each with its result and an idle master afterwards, the
  registers unchanged: no answer until the respond timeout is \<open>MB_MRE_TIMEDOUT\<close>; an answer of 1 to 255 bytes
  that is garbled, too short or of another slave is \<open>MB_MRE_REV_DATA\<close>; an exception response with a code
  other than 0 is \<open>MB_MRE_EXE_FUN\<close>. The conditions are needed: an answer of 256 bytes fails an assert, and the
  exception code 0 counts as success.
\<close>

theorem master_request_fails:
  assumes "idle s" "request_fits req" "request_legal req" "dest_ok (request_dest req)"
    and d_def: "d = request_dest req"
    and es: "(es = [M_Timer_Expires, M_Poll_Runs j1, M_Requester_Runs] \<and> e = MB_MRE_TIMEDOUT) \<or>
      (es = map M_Rx_Byte bs @ [M_Timer_Expires, M_Poll_Runs j1, M_Poll_Runs j2, M_Requester_Runs] \<and>
        bs \<noteq> [] \<and> length bs < 256 \<and> (\<not> rtu_accept bs \<or> length bs < 4 \<or> bs ! 0 \<noteq> d) \<and> e = MB_MRE_REV_DATA) \<or>
      (es = map M_Rx_Byte (rtu_seal (d # [fc, x])) @
          [M_Timer_Expires, M_Poll_Runs j1, M_Poll_Runs j2, M_Poll_Runs j3, M_Requester_Runs] \<and>
        128 \<le> fc \<and> x \<noteq> 0 \<and> e = MB_MRE_EXE_FUN)"
  shows "\<exists>s'. run_steps master_step s (ask req j @ es) = Some s' \<and>
    line_out s' = line_out s @ rtu_seal (d # request_pdu req) \<and> replies s' = replies s @ [e] \<and>
    m_regs s' = m_regs s \<and> idle s'"
proof -
  define t where "t = sent s (request_dest req) (request_pdu req)"
  note dd = dest_ok_le [OF assms(4)]
  have t: "awaiting t" unfolding t_def using sent_awaiting [OF assms(1)] request_pdu_length [OF assms(2)] by simp
  have tf: "ucMBMasterDestAddress t = d" "\<not> xFrameIsBroadcast t" "eMasterCurTimerMode t = MB_TMODE_RESPOND_TIMEOUT"
    "m_regs t = m_regs s" using dd by (simp_all add: t_def d_def) (simp add: sent_def)
  have hb: "drop_bit 7 fc \<noteq> 0" if "128 \<le> fc"
  proof -
    have "unat (drop_bit 7 fc) = unat fc div 128" by (simp add: drop_bit_eq_div unat_div_distrib)
    moreover have "128 \<le> unat fc" using that by (simp add: word_le_nat_alt)
    ultimately have "unat (drop_bit 7 fc) \<noteq> 0" by (simp add: div_eq_0_iff)
    then show ?thesis by (metis unat_0)
  qed
  have "\<exists>s'. run_steps master_step t es = Some s' \<and> finished t e s' \<and> m_regs s' = m_regs t"
    using es
  proof (elim disjE)
    assume "es = [M_Timer_Expires, M_Poll_Runs j1, M_Requester_Runs] \<and> e = MB_MRE_TIMEDOUT"
    then show ?thesis using answer_missing [OF t tf(2,3), of j1] by simp
  next
    assume "es = map M_Rx_Byte bs @ [M_Timer_Expires, M_Poll_Runs j1, M_Poll_Runs j2, M_Requester_Runs] \<and>
        bs \<noteq> [] \<and> length bs < 256 \<and> (\<not> rtu_accept bs \<or> length bs < 4 \<or> bs ! 0 \<noteq> d) \<and> e = MB_MRE_REV_DATA"
    then show ?thesis using answer_garbled [OF t, of bs j1 j2] unfolding tf(1) by blast
  next
    assume "es = map M_Rx_Byte (rtu_seal (d # [fc, x])) @
          [M_Timer_Expires, M_Poll_Runs j1, M_Poll_Runs j2, M_Poll_Runs j3, M_Requester_Runs] \<and>
        128 \<le> fc \<and> x \<noteq> 0 \<and> e = MB_MRE_EXE_FUN"
    then show ?thesis using answer_refused [OF t, of "[fc, x]" j1 j2 j3] hb unfolding tf(1) by auto
  qed
  then obtain s' where s': "run_steps master_step t es = Some s'" "finished t e s'" "m_regs s' = m_regs s"
    unfolding tf(4) by blast
  note at = ask_then [OF assms(1-3) _ s'(1,2) [unfolded t_def]]
  show ?thesis using at(1) [of j] at(2-4) dd s'(3) unfolding d_def by blast
qed

theorem master_request_fails_witness:
  "\<exists>s'. run_steps master_step master1 (ask (Write_Multiple_Coils 2 0 8 [7]) 0 @
      map M_Rx_Byte [9, 9] @ [M_Timer_Expires, M_Poll_Runs 0, M_Poll_Runs 0, M_Requester_Runs]) = Some s' \<and>
    line_out s' = rtu_seal [2, 15, 0, 0, 0, 8, 1, 7] \<and> replies s' = [MB_MRE_REV_DATA] \<and>
    m_regs s' = m_regs master1 \<and> idle s'"
proof -
  have m: "line_out master1 = []" "replies master1 = []" by (simp_all add: master1_def mb_master0_def)
  have d: "dest_ok (2 :: u8)" by (simp add: dest_ok_def)
  have b: "bit_bytes 8 = 1" "unat (bit_bytes 8) = 1" by (simp_all add: bit_bytes_def)
  have p: "request_pdu (Write_Multiple_Coils 2 0 8 [7]) = [15, 0, 0, 0, 8, 1, 7]"
    by (simp add: b hi8_def lo8_def)
  have "\<exists>s'. run_steps master_step master1 (ask (Write_Multiple_Coils 2 0 8 [7]) 0 @
      map M_Rx_Byte [9, 9] @ [M_Timer_Expires, M_Poll_Runs 0, M_Poll_Runs 0, M_Requester_Runs]) = Some s' \<and>
    line_out s' = line_out master1 @ rtu_seal (2 # request_pdu (Write_Multiple_Coils 2 0 8 [7])) \<and>
    replies s' = replies master1 @ [MB_MRE_REV_DATA] \<and> m_regs s' = m_regs master1 \<and> idle s'"
    by (rule master_request_fails [OF master1_idle, where bs = "[9, 9]"]) (simp_all add: d b)
  then show ?thesis unfolding p m by simp
qed

text \<open>
  C17: Master and slave on one line: when an idle master reads \<open>n\<close> holding registers of a listening
  slave, the slave answers what the master sent, the master accepts what the slave sent, and then
  the block of the slave's row in the master's table holds exactly the slave's registers; the
  requester gets \<open>MB_MRE_NO_ERR\<close>, the slave is unchanged, and both are ready again.
\<close>

theorem master_reads_slave:
  assumes "idle m" "listening sl" "dest_ok d" and d_def: "d = ucMBAddress sl"
    and "n \<noteq> 0" "unat a + unat n \<le> 50"
  shows "\<exists>m1 sl' m'. run_steps master_step m (ask (Read_Holding d a n) j) = Some m1 \<and>
    run_steps slave_step sl (map Rx_Byte (drop (length (line_out m)) (line_out m1)) @
      [Timer_Expires, Poll_Runs j1, Poll_Runs j2] @ replicate (2 * unat n + 6) Tx_Ready @ [Poll_Runs j3]) = Some sl' \<and>
    run_steps master_step m1 (map M_Rx_Byte (drop (length (serial_out sl)) (serial_out sl')) @
      [M_Timer_Expires, M_Poll_Runs j4, M_Poll_Runs j5, M_Requester_Runs]) = Some m' \<and>
    replies m' = replies m @ [MB_MRE_NO_ERR] \<and>
    take (unat n) (drop (unat a) (usMRegHoldBuf (m_regs m') ! (unat d - 1))) =
      take (unat n) (drop (unat a) (usSRegHoldBuf (regs sl))) \<and>
    regs sl' = regs sl \<and> idle m' \<and> listening sl'"
proof -
  define ws where "ws = take (unat n) (drop (unat a) (usSRegHoldBuf (regs sl)))"
  define m1 where "m1 = sent m d (request_pdu (Read_Holding d a n))"
  note dd = dest_ok_le [OF assms(3)]
  have "slave_regs_wf (regs sl)" using assms(2) by (simp add: listening_def)
  then have wl: "length ws = unat n" using assms(6) by (simp add: ws_def slave_regs_wf_def)
  have r1: "run_steps master_step m (ask (Read_Holding d a n) j) = Some m1"
    using request_asked [OF assms(1), of "Read_Holding d a n" j] dd by (simp add: m1_def)
  have o1: "drop (length (line_out m)) (line_out m1) = rtu_seal (d # request_pdu (Read_Holding d a n))"
    "replies m1 = replies m" by (simp_all add: m1_def)
  from dd have d0: "d \<noteq> 0" by simp
  obtain sl' where r2: "run_steps slave_step sl (map Rx_Byte (drop (length (line_out m)) (line_out m1)) @
      [Timer_Expires, Poll_Runs j1, Poll_Runs j2] @ replicate (2 * unat n + 6) Tx_Ready @ [Poll_Runs j3]) = Some sl'"
    "serial_out sl' = serial_out sl @ rtu_seal (d # [3, ucast (n * 2)] @ be_bytes ws)" "regs sl' = regs sl" "listening sl'"
    using slave_serves_read [OF assms(2) d_def d0 assms(5,6) ws_def, of j1 j2 j3] unfolding o1 by blast
  have o2: "drop (length (serial_out sl)) (serial_out sl') = rtu_seal (d # [3, ucast (n * 2)] @ be_bytes ws)"
    by (simp add: r2(2))
  obtain m' where r3: "run_steps master_step m1 (map M_Rx_Byte (drop (length (serial_out sl)) (serial_out sl')) @
      [M_Timer_Expires, M_Poll_Runs j4, M_Poll_Runs j5, M_Requester_Runs]) = Some m'" "finished m1 MB_MRE_NO_ERR m'"
    "take (unat n) (drop (unat a) (usMRegHoldBuf (m_regs m') ! (unat d - 1))) = ws"
    using master_takes_read [OF assms(1,3,5,6) wl m1_def, of j4 j5] unfolding o2 by blast
  have "replies m' = replies m @ [MB_MRE_NO_ERR]" "idle m'" using r3(2) o1(2) by (simp_all add: finished_def)
  with r1 r2(1,3,4) r3(1,3) show ?thesis unfolding ws_def by blast
qed

theorem master_reads_slave_witness:
  "\<exists>m1 sl' m'. run_steps master_step master1 (ask (Read_Holding 1 3 2) 0) = Some m1 \<and>
    run_steps slave_step slave1 (map Rx_Byte (drop (length (line_out master1)) (line_out m1)) @
      [Timer_Expires, Poll_Runs 0, Poll_Runs 0] @ replicate (2 * unat (2 :: u16) + 6) Tx_Ready @ [Poll_Runs 0]) = Some sl' \<and>
    run_steps master_step m1 (map M_Rx_Byte (drop (length (serial_out slave1)) (serial_out sl')) @
      [M_Timer_Expires, M_Poll_Runs 0, M_Poll_Runs 0, M_Requester_Runs]) = Some m' \<and>
    replies m' = replies master1 @ [MB_MRE_NO_ERR] \<and>
    take (unat (2 :: u16)) (drop (unat (3 :: u16)) (usMRegHoldBuf (m_regs m') ! (unat (1 :: u8) - 1))) =
      take (unat (2 :: u16)) (drop (unat (3 :: u16)) (usSRegHoldBuf (regs slave1))) \<and>
    regs sl' = regs slave1 \<and> idle m' \<and> listening sl'"
  by (rule master_reads_slave [OF master1_idle slave1_listening])
     (simp_all add: dest_ok_def slave1_def)

section \<open>Broadcast\<close>

lemma broadcast_stored:
  assumes "awaiting s" "waiting s = Waits_Reply" "xFrameIsBroadcast s" "eMasterCurTimerMode s = MB_TMODE_CONVERT_DELAY"
    "m_ucMBFrame s = Some Snd_PDU" "unat n \<le> length vs" "unat a + unat n \<le> 50"
    "pdu_of Snd_PDU s = request_pdu (Write_Multiple_Holding 0 a n vs) @ rest"
  shows "\<exists>s'. run_steps master_step s [M_Timer_Expires, M_Poll_Runs j, M_Requester_Runs] = Some s' \<and>
    finished s MB_MRE_NO_ERR s' \<and> (\<forall>i < 16. usMRegHoldBuf (m_regs s') ! i =
      put_row (unat a) (take (unat n) vs) (usMRegHoldBuf (m_regs s) ! i))"
proof -
  define t where "t = s\<lparr> m_eSndState := STATE_M_TX_IDLE, m_timer_on := False, xMasterOsEvent := EV_MASTER_EXECUTE \<rparr>"
  have p: "master_step s M_Timer_Expires = Some t"
    using assms(1,3,4) by (simp add: awaiting_def xMBMasterRTUTimerExpired_def master_port Let_def t_def)
  define u where "u = t\<lparr> xMasterOsEvent := 0, xMBRunInMasterMode := True, m_usLength := usMasterSendPDULength t \<rparr>"
  have pu: "pdu_of Snd_PDU u = pdu_of Snd_PDU s" "pdu_of Snd_PDU (t\<lparr> xMasterOsEvent := 0 \<rparr>) = pdu_of Snd_PDU s"
    by (simp_all add: pdu_of_def u_def t_def)
  have wf: "master_regs_wf (m_regs u)" using assms(1) by (simp add: awaiting_def u_def t_def)
  have u: "xFrameIsBroadcast u" "m_regs u = m_regs s" using assms(3) by (simp_all add: u_def t_def)
  obtain r d where r: "call_slaves WriteMultipleHoldingRegister Snd_PDU 1 16 (u, MB_EX_ILLEGAL_FUNCTION) =
      Some (u\<lparr> ucMBMasterDestAddress := d, m_regs := r \<rparr>, MB_EX_NONE)" "master_regs_wf r"
    "\<forall>i < 16. usMRegHoldBuf r ! i = put_row (unat a) (take (unat n) vs) (usMRegHoldBuf (m_regs s) ! i)"
    using call_slaves_write [OF assms(6,7) wf u(1), of 1 16 rest MB_EX_ILLEGAL_FUNCTION Snd_PDU] assms(8) pu(1) u(2)
    by auto
  have f: "find_handler 16 xMasterFuncHandlers = Some (Some WriteMultipleHoldingRegister)"
    by (simp add: xMasterFuncHandlers_def)
  have rh: "run_handler WriteMultipleHoldingRegister Snd_PDU (t\<lparr> xMasterOsEvent := 0 \<rparr>) =
      Some (u\<lparr> ucMBMasterDestAddress := d, m_regs := r, xMBRunInMasterMode := False \<rparr>, MB_EX_NONE)"
    using r(1) u(1) by (simp add: run_handler_def Let_def MB_MASTER_TOTAL_SLAVE_NUM_def u_def)
  have same: "u\<lparr> ucMBMasterDestAddress := d, m_regs := r, xMBRunInMasterMode := False \<rparr> =
      t\<lparr> xMasterOsEvent := 0, m_regs := r, ucMBMasterDestAddress := d, m_usLength := usMasterSendPDULength t,
        xMBRunInMasterMode := False \<rparr>"
    by (simp add: u_def)
  have x: "master_exception Snd_PDU (t\<lparr> xMasterOsEvent := 0 \<rparr>) = Some (t\<lparr> xMasterOsEvent := 0, m_regs := r,
      ucMBMasterDestAddress := d, m_usLength := usMasterSendPDULength t, xMBRunInMasterMode := False \<rparr>, False)"
    unfolding same [symmetric] using rh f pu(2) assms(8) by (simp add: master_exception_def)
  obtain s' where s': "run_steps master_step t [M_Poll_Runs j, M_Requester_Runs] = Some s'"
    "finished t MB_MRE_NO_ERR s'" "m_regs s' = r"
    using success_finishes [where s = t and fr = Snd_PDU and r = r and d = d and l = "usMasterSendPDULength t" and j = j]
      x assms(1,2,5) r(2) by (auto simp: t_def awaiting_def)
  have "run_steps master_step s [M_Timer_Expires, M_Poll_Runs j, M_Requester_Runs] = Some s'"
    using s'(1) by (simp only: run_steps.simps p bind.simps)
  moreover have "finished s MB_MRE_NO_ERR s'" using s'(2) by (simp add: finished_def t_def)
  ultimately show ?thesis using s'(3) r(3) by blast
qed

text \<open>
  C18: A broadcast write of holding registers: the sealed request goes to address 0, no answer is
  awaited, and when the turnaround delay is over the block is written into the rows of all 16 slaves
  of the master's table and nothing else of them changes; the requester gets \<open>MB_MRE_NO_ERR\<close>.
\<close>

theorem broadcast_write_all_slaves:
  assumes "idle s" "unat n \<le> length vs" "unat a + unat n \<le> 50"
  shows "\<exists>s'. run_steps master_step s (ask (Write_Multiple_Holding 0 a n vs) j0 @
      [M_Timer_Expires, M_Poll_Runs j, M_Requester_Runs]) = Some s' \<and>
    line_out s' = line_out s @ rtu_seal (0 # request_pdu (Write_Multiple_Holding 0 a n vs)) \<and>
    replies s' = replies s @ [MB_MRE_NO_ERR] \<and> idle s' \<and>
    (\<forall>i < 16. usMRegHoldBuf (m_regs s') ! i =
      put_row (unat a) (take (unat n) vs) (usMRegHoldBuf (m_regs s) ! i))"
proof -
  define req where "req = Write_Multiple_Holding 0 a n vs"
  have req: "request_fits req" "request_legal req" "request_dest req = 0" using assms(2,3) by (simp_all add: req_def)
  define t where "t = sent s 0 (request_pdu req)"
  have t: "awaiting t" unfolding t_def using sent_awaiting [OF assms(1)] request_pdu_length [OF req(1)] by simp
  have tf: "waiting t = Waits_Reply" "xFrameIsBroadcast t" "eMasterCurTimerMode t = MB_TMODE_CONVERT_DELAY"
    "m_ucMBFrame t = Some Snd_PDU" "m_regs t = m_regs s"
    by (simp_all add: t_def) (simp_all add: sent_def)
  have "pdu_of Snd_PDU t = request_pdu req @ [lo8 (crc16 (0 # request_pdu req)), hi8 (crc16 (0 # request_pdu req))] @
      drop (length (request_pdu req) + 3) (ucMasterRTUSndBuf s)"
    using sent_pdu [of s 0 "request_pdu req"] by (simp add: pdu_of_def t_def)
  from broadcast_stored [OF t tf(1-4) assms(2,3) this [unfolded req_def], of j] obtain s' where
    s': "run_steps master_step t [M_Timer_Expires, M_Poll_Runs j, M_Requester_Runs] = Some s'"
      "finished t MB_MRE_NO_ERR s'"
      "\<forall>i < 16. usMRegHoldBuf (m_regs s') ! i = put_row (unat a) (take (unat n) vs) (usMRegHoldBuf (m_regs s) ! i)"
    unfolding tf(5) by blast
  note at = ask_then [OF assms(1) req(1,2) _ s'(1,2) [unfolded t_def req(3) [symmetric]]]
  show ?thesis using at(1) [of j0] at(2-4) s'(3) unfolding req(3) unfolding req_def by auto
qed

theorem broadcast_write_all_slaves_witness:
  "\<exists>s'. run_steps master_step master1 (ask (Write_Multiple_Holding 0 4 1 [0x55AA]) 0 @
      [M_Timer_Expires, M_Poll_Runs 0, M_Requester_Runs]) = Some s' \<and>
    replies s' = [MB_MRE_NO_ERR] \<and> usMRegHoldBuf (m_regs s') ! 15 ! 4 = 0x55AA"
proof -
  have m: "m_regs master1 = master_regs_init" "replies master1 = []" by (simp_all add: master1_def mb_master0_def)
  have x: "put_row 4 [0x55AA] (usMRegHoldBuf master_regs_init ! 15) ! 4 = (0x55AA :: u16)"
    by (simp add: put_row_def master_regs_init_def master_sizes nth_append)
  show ?thesis
    using broadcast_write_all_slaves [OF master1_idle, of 1 "[0x55AA]" 4 0 0] m x by auto
qed

section \<open>The raw exchange\<close>

text \<open>The poll that finds a raw message starts its transmission.\<close>

definition raw_sending :: "mb_master \<Rightarrow> u8 list \<Rightarrow> mb_master" where
  "raw_sending s msg = s\<lparr> rs485_send_buf_not_modbus := msg @ drop (length msg) (rs485_send_buf_not_modbus s), xMasterRunRes := 0,
     ucMasterRTUSndBuf := msg @ drop (length msg) (ucMasterRTUSndBuf s), mb_switch_flag := 1,
     mb_not_rtu_data_len := word_of_nat (length msg), usMasterSendPDULength := word_of_nat (length msg),
     xMasterOsEvent := 0, waiting := Waits_Raw_Reply, m_ucMBFrame := Some Snd_PDU, pucMasterSndBufferCur := In_Raw_Buf 0,
     usMasterSndBufferCount := word_of_nat (length msg), m_eSndState := STATE_M_TX_XMIT, rx_direction := False, trans_start := True \<rparr>"

lemma raw_starts:
  assumes "idle s" "length msg \<le> 50"
  shows "run_steps master_step s [M_Raw_Request msg, M_Poll_Runs j] = Some (raw_sending s msg)"
    "m_tx_sending (raw_sending s msg) msg" "trans_start (raw_sending s msg)"
proof -
  obtain l :: u16 where l: "word_of_nat (length msg) = l" "unat l = length msg" "unat (ucast l :: u8) = length msg"
    using raw_lengths [OF assms(2)] by blast
  have "unat (l mod 256) = unat l" using assms(2) by (simp add: unat_mod_distrib l(2))
  then have "l mod 256 = l" by (rule unsigned_word_eqI)
  then have l8: "ucast (ucast l :: u8) = l" by (simp add: unsigned_ucast_eq take_bit_eq_mod)
  have lw: "ucast l = (word_of_nat (length msg) :: u8)"
    by (rule unsigned_word_eqI [where ?'a = nat])
      (simp only: l(3), use assms(2) in \<open>simp add: unsigned_of_nat take_bit_nat_eq_self\<close>)
  define raw where "raw = msg @ drop (length msg) (rs485_send_buf_not_modbus s)"
  define buf where "buf = msg @ drop (length msg) (ucMasterRTUSndBuf s)"
  define r where "r = s\<lparr> rs485_send_buf_not_modbus := raw, xMasterRunRes := 0, ucMasterRTUSndBuf := buf,
      mb_switch_flag := 1, mb_not_rtu_data_len := ucast l, usMasterSendPDULength := l,
      xMasterOsEvent := EV_MASTER_FRAME_SENT, waiting := Waits_Raw_Reply \<rparr>"
  have b: "buf_puts (rs485_send_buf_not_modbus s) 0 msg = Some raw" "buf_gets raw 0 (length msg) = Some msg"
    "buf_puts (ucMasterRTUSndBuf s) 0 msg = Some buf"
    using assms by (simp_all add: buf_puts_eq buf_gets_eq raw_def buf_def idle_def)
  have s1: "master_step s (M_Raw_Request msg) = Some r"
    using assms(1) b by (simp add: idle_def l eMBMasterReqRead_not_rtu_datas_def master_port r_def)
  have u: "raw_sending s msg = r\<lparr> xMasterOsEvent := 0, m_ucMBFrame := Some Snd_PDU, pucMasterSndBufferCur := In_Raw_Buf 0,
      usMasterSndBufferCount := l, m_eSndState := STATE_M_TX_XMIT, rx_direction := False, trans_start := True \<rparr>"
    by (simp add: raw_sending_def r_def raw_def buf_def l(1) lw)
  have en: "m_eMBState r = STATE_ENABLED" "xMasterOsEvent r = EV_MASTER_FRAME_SENT"
    using assms(1) by (simp_all add: r_def idle_def)
  have s2: "master_step r (M_Poll_Runs j) = Some (raw_sending s msg)"
    using poll_one(4) [OF en refl refl, of j] assms(1) l8
    by (simp add: master_sent_def eMBMasterRTUSend_def eMBMaster_Send_not_datas_def vMBMasterPortSerialEnable_def
        u r_def idle_def Let_def del: master_step.simps)
  show "run_steps master_step s [M_Raw_Request msg, M_Poll_Runs j] = Some (raw_sending s msg)"
    by (simp only: run_steps.simps s1 s2 bind.simps)
  show "m_tx_sending (raw_sending s msg) msg" "trans_start (raw_sending s msg)"
    using assms l by (simp_all add: m_tx_sending_def raw_sending_def idle_def snd_source_def)
qed

text \<open>The state in which the answer to a raw message is awaited.\<close>

lemma raw_sent:
  assumes "idle s" "1 \<le> length msg" "length msg \<le> 50" "msg ! 0 \<noteq> 0"
  shows "\<exists>t. run_steps master_step s ([M_Raw_Request msg, M_Poll_Runs j] @ replicate (length msg + 1) M_Tx_Ready) = Some t \<and>
    awaiting t \<and> line_out t = line_out s @ msg \<and> replies t = replies s \<and> m_regs t = m_regs s \<and>
    ucMBMasterDestAddress t = ucMBMasterDestAddress s"
proof -
  note st = raw_starts [OF assms(1,3)]
  define t where "t = m_tx_finish (m_tx_emitted msg (raw_sending s msg))"
  have "run_steps master_step (raw_sending s msg) (replicate (length msg + 1) M_Tx_Ready) = Some t"
    using m_tx_steps [OF st(3,2)] by (simp add: t_def)
  then have "run_steps master_step s ([M_Raw_Request msg, M_Poll_Runs j] @ replicate (length msg + 1) M_Tx_Ready) = Some t"
    by (simp only: run_steps_append st(1) bind.simps)
  moreover have "awaiting t \<and> line_out t = line_out s @ msg \<and> replies t = replies s \<and> m_regs t = m_regs s \<and>
    ucMBMasterDestAddress t = ucMBMasterDestAddress s"
    using assms by (simp add: t_def m_tx_finish_def m_tx_emitted_def raw_sending_def idle_def awaiting_def)
  ultimately show ?thesis by blast
qed

text \<open>
  C19: The raw exchange, on which the display board and the motor depend: the message goes out byte
  for byte without a frame check; whatever comes back that is not a frame of the last slave asked
  is reported as \<open>MB_MRE_REV_DATA\<close>, and then the reply stands at the start of the receive buffer,
  which is where \<open>set_dc_motor\<close> and \<open>get_display_board_data\<close> read it. The registers are untouched and
  the master is idle, with the raw mode switched off.
  The message has 1 to 50 bytes and does not begin with 0, the reply 1 to 255; and nothing comes between:
  no byte while the message is sent, and no step of the thread of the DC motor, which does not take
  \<open>modbus_mutex\<close>. What it does to an exchange under way is shown in \<open>Mb_Master_Hazards\<close>.
\<close>

theorem raw_exchange:
  assumes "idle s" "1 \<le> length msg" "length msg \<le> 50" "msg ! 0 \<noteq> 0"
    and "bs \<noteq> []" "length bs < 256" "\<not> rtu_accept bs \<or> length bs < 4 \<or> bs ! 0 \<noteq> ucMBMasterDestAddress s"
  shows "\<exists>s'. run_steps master_step s ([M_Raw_Request msg, M_Poll_Runs j] @ replicate (length msg + 1) M_Tx_Ready @
      map M_Rx_Byte bs @ [M_Timer_Expires, M_Poll_Runs j1, M_Poll_Runs j2, M_Requester_Runs]) = Some s' \<and>
    line_out s' = line_out s @ msg \<and> replies s' = replies s @ [MB_MRE_REV_DATA] \<and>
    take (length bs) (ucMasterRTURcvBuf s') = bs \<and> m_regs s' = m_regs s \<and> idle s'"
proof -
  obtain t where t: "run_steps master_step s ([M_Raw_Request msg, M_Poll_Runs j] @ replicate (length msg + 1) M_Tx_Ready) = Some t"
    "awaiting t" "line_out t = line_out s @ msg" "replies t = replies s" "m_regs t = m_regs s"
    "ucMBMasterDestAddress t = ucMBMasterDestAddress s"
    using raw_sent [OF assms(1-4), of j] by blast
  obtain s' where s': "run_steps master_step t (map M_Rx_Byte bs @
      [M_Timer_Expires, M_Poll_Runs j1, M_Poll_Runs j2, M_Requester_Runs]) = Some s'"
    "finished t MB_MRE_REV_DATA s'" "m_regs s' = m_regs t" "ucMasterRTURcvBuf s' = bs @ drop (length bs) (ucMasterRTURcvBuf t)"
    using answer_garbled [OF t(2) assms(5,6), of j1 j2] assms(7) unfolding t(6) by blast
  have "run_steps master_step s (([M_Raw_Request msg, M_Poll_Runs j] @ replicate (length msg + 1) M_Tx_Ready) @
      (map M_Rx_Byte bs @ [M_Timer_Expires, M_Poll_Runs j1, M_Poll_Runs j2, M_Requester_Runs])) = Some s'"
    by (simp only: run_steps_append [of _ _ "[M_Raw_Request msg, M_Poll_Runs j] @ replicate (length msg + 1) M_Tx_Ready"]
        t(1) bind.simps s'(1))
  then show ?thesis using s'(2-4) t(3-5) by (auto simp: finished_def)
qed

theorem raw_exchange_witness:
  "\<exists>s'. run_steps master_step master1 ([M_Raw_Request [0xBC, 7, 1, 2, 0xC6], M_Poll_Runs 0] @ replicate 6 M_Tx_Ready @
      map M_Rx_Byte [0xBC, 7, 0] @ [M_Timer_Expires, M_Poll_Runs 0, M_Poll_Runs 0, M_Requester_Runs]) = Some s' \<and>
    line_out s' = [0xBC, 7, 1, 2, 0xC6] \<and> replies s' = [MB_MRE_REV_DATA] \<and>
    take 3 (ucMasterRTURcvBuf s') = [0xBC, 7, 0] \<and> m_regs s' = m_regs master1 \<and> idle s'"
proof -
  have m: "line_out master1 = []" "replies master1 = []" by (simp_all add: master1_def mb_master0_def)
  have n: "length [0xBC, 7, 1, 2, 0xC6 :: u8] + 1 = 6" "length [0xBC, 7, 0 :: u8] = 3" by simp_all
  have "\<exists>s'. run_steps master_step master1 ([M_Raw_Request [0xBC, 7, 1, 2, 0xC6], M_Poll_Runs 0] @
      replicate (length [0xBC, 7, 1, 2, 0xC6 :: u8] + 1) M_Tx_Ready @
      map M_Rx_Byte [0xBC, 7, 0] @ [M_Timer_Expires, M_Poll_Runs 0, M_Poll_Runs 0, M_Requester_Runs]) = Some s' \<and>
    line_out s' = line_out master1 @ [0xBC, 7, 1, 2, 0xC6] \<and> replies s' = replies master1 @ [MB_MRE_REV_DATA] \<and>
    take (length [0xBC, 7, 0 :: u8]) (ucMasterRTURcvBuf s') = [0xBC, 7, 0] \<and> m_regs s' = m_regs master1 \<and> idle s'"
    by (rule raw_exchange [OF master1_idle]) simp_all
  then show ?thesis unfolding n m by simp
qed

end
