(* ===== verification/Rt_Serial.thy ===== *)
theory Rt_Serial
  imports Firmware_Prelude
begin

text \<open>
  The serial driver of RT-Thread, \<open>components/drivers/serial/serial.c\<close>, under the device layer \<open>src/device.c\<close> and above
  the USART of the STM32, \<open>drivers/usart.c\<close>. What the hardware delivers during an interrupt, what the polled register
  holds and what \<open>rt_malloc\<close> returns are arguments; the bytes sent and the calls of the receive callback are recorded.
  A failed \<open>RT_ASSERT\<close> and an access outside the buffer are \<open>None\<close>; so is a DMA transfer, for which no device of the
  board is registered. Bytes that the hardware loses in an overrun never reach an interrupt and are not in the model;
  the byte that the interrupt handler throws away after one is.
\<close>

section \<open>State\<close>

abbreviation (input) RT_DEVICE_FLAG_RDWR :: u16 where "RT_DEVICE_FLAG_RDWR \<equiv> 0x003"
abbreviation (input) RT_DEVICE_FLAG_STANDALONE :: u16 where "RT_DEVICE_FLAG_STANDALONE \<equiv> 0x008"
abbreviation (input) RT_DEVICE_FLAG_ACTIVATED :: u16 where "RT_DEVICE_FLAG_ACTIVATED \<equiv> 0x010"
abbreviation (input) RT_DEVICE_FLAG_SUSPENDED :: u16 where "RT_DEVICE_FLAG_SUSPENDED \<equiv> 0x020"
abbreviation (input) RT_DEVICE_FLAG_STREAM :: u16 where "RT_DEVICE_FLAG_STREAM \<equiv> 0x040"
abbreviation (input) RT_DEVICE_FLAG_INT_RX :: u16 where "RT_DEVICE_FLAG_INT_RX \<equiv> 0x100"
abbreviation (input) RT_DEVICE_FLAG_DMA_RX :: u16 where "RT_DEVICE_FLAG_DMA_RX \<equiv> 0x200"
abbreviation (input) RT_DEVICE_FLAG_INT_TX :: u16 where "RT_DEVICE_FLAG_INT_TX \<equiv> 0x400"
abbreviation (input) RT_DEVICE_FLAG_DMA_TX :: u16 where "RT_DEVICE_FLAG_DMA_TX \<equiv> 0x800"
abbreviation (input) RT_DEVICE_OFLAG_OPEN :: u16 where "RT_DEVICE_OFLAG_OPEN \<equiv> 0x008"

datatype dev_err = RT_EOK | RT_ERROR | RT_EBUSY | RT_EIO

record rt_serial_rx_fifo =
  fifo_buffer :: "u8 list"
  put_index :: u16
  get_index :: u16

datatype serial_rx = No_Rx | Rx_Fifo rt_serial_rx_fifo | Rx_Dma

datatype serial_tx = No_Tx | Tx_Fifo | Tx_Dma

record rt_serial_device =
  dev_flag :: u16
  open_flag :: u16
  ref_count :: u8
  rx_indicate :: bool
  bufsz :: u16
  serial_rx :: serial_rx
  serial_tx :: serial_tx
  rx_irq :: bool
  sent :: "u8 list"
  indicated :: "u32 list"
  discarded :: "u8 list"

definition has :: "u16 \<Rightarrow> u16 \<Rightarrow> bool" where
  "has flags f \<longleftrightarrow> flags AND f \<noteq> 0"

section \<open>The buffer\<close>

definition next_index :: "u16 \<Rightarrow> u16 \<Rightarrow> u16" where
  "next_index sz i = (if sz \<le> i + 1 then 0 else i + 1)"

definition fifo_put :: "u16 \<Rightarrow> u8 \<Rightarrow> rt_serial_rx_fifo \<Rightarrow> rt_serial_rx_fifo option" where
  "fifo_put sz ch f = do {
     b \<leftarrow> buf_set (fifo_buffer f) (unat (put_index f)) ch;
     let p = next_index sz (put_index f);
     Some (f\<lparr> fifo_buffer := b, put_index := p,
              get_index := (if p = get_index f then next_index sz (get_index f) else get_index f) \<rparr>) }"

fun fifo_puts :: "u16 \<Rightarrow> u8 list \<Rightarrow> rt_serial_rx_fifo \<Rightarrow> rt_serial_rx_fifo option" where
  "fifo_puts sz [] f = Some f"
| "fifo_puts sz (ch # chs) f = do { f1 \<leftarrow> fifo_put sz ch f; fifo_puts sz chs f1 }"

fun serial_int_rx :: "u16 \<Rightarrow> nat \<Rightarrow> rt_serial_rx_fifo \<Rightarrow> (u8 list \<times> rt_serial_rx_fifo) option" where
  "serial_int_rx sz 0 f = Some ([], f)"
| "serial_int_rx sz (Suc n) f =
    (if get_index f \<noteq> put_index f then do {
       ch \<leftarrow> buf_get (fifo_buffer f) (unat (get_index f));
       (chs, f1) \<leftarrow> serial_int_rx sz n (f\<lparr> get_index := next_index sz (get_index f) \<rparr>);
       Some (ch # chs, f1) }
     else Some ([], f))"

definition rx_length :: "u16 \<Rightarrow> rt_serial_rx_fifo \<Rightarrow> u32" where
  "rx_length sz f =
    (let p = uint (put_index f); g = uint (get_index f)
     in word_of_int (if g \<le> p then p - g else uint sz - (g - p)))"

text \<open>A polled read takes what the register says, also when it holds nothing, and stops after a line feed.\<close>

fun serial_poll_rx :: "u8 option list \<Rightarrow> nat \<Rightarrow> u8 list" where
  "serial_poll_rx (c # cs) (Suc n) =
    (let b = (case c of None \<Rightarrow> 0xff | Some b \<Rightarrow> b) in b # (if c = Some 10 then [] else serial_poll_rx cs n))"
| "serial_poll_rx _ _ = []"

section \<open>Opening and closing\<close>

text \<open>The control function of the USART driver looks at the command only.\<close>

definition stm32_control :: "bool \<Rightarrow> rt_serial_device \<Rightarrow> rt_serial_device" where
  "stm32_control on s = s\<lparr> rx_irq := on \<rparr>"

definition rt_serial_init :: "rt_serial_device \<Rightarrow> rt_serial_device" where
  "rt_serial_init s = s\<lparr> serial_rx := No_Rx, serial_tx := No_Tx \<rparr>"

definition open_rx :: "u8 list option \<Rightarrow> u16 \<Rightarrow> rt_serial_device \<Rightarrow> rt_serial_device option" where
  "open_rx mem oflag s =
    (if serial_rx s \<noteq> No_Rx then Some s
     else if has oflag RT_DEVICE_FLAG_DMA_RX then do {
       _ \<leftarrow> mem;
       Some (s\<lparr> serial_rx := Rx_Dma, open_flag := open_flag s OR RT_DEVICE_FLAG_DMA_RX \<rparr>) }
     else if has oflag RT_DEVICE_FLAG_INT_RX then do {
       m \<leftarrow> mem;
       b \<leftarrow> buf_puts m 0 (replicate 64 0);
       Some (stm32_control True (s\<lparr> serial_rx := Rx_Fifo \<lparr> fifo_buffer = b, put_index = 0, get_index = 0 \<rparr>,
                open_flag := open_flag s OR RT_DEVICE_FLAG_INT_RX \<rparr>)) }
     else Some s)"

definition open_tx :: "bool \<Rightarrow> u16 \<Rightarrow> rt_serial_device \<Rightarrow> rt_serial_device option" where
  "open_tx mem oflag s =
    (if serial_tx s \<noteq> No_Tx then Some s
     else if has oflag RT_DEVICE_FLAG_DMA_TX
     then (if mem then Some (s\<lparr> serial_tx := Tx_Dma, open_flag := open_flag s OR RT_DEVICE_FLAG_DMA_TX \<rparr>) else None)
     else if has oflag RT_DEVICE_FLAG_INT_TX
     then (if mem then Some (stm32_control True (s\<lparr> serial_tx := Tx_Fifo, open_flag := open_flag s OR RT_DEVICE_FLAG_INT_TX \<rparr>)) else None)
     else Some s)"

definition refused :: "u16 \<Rightarrow> u16 \<Rightarrow> u16 \<Rightarrow> bool" where
  "refused oflag flag f \<longleftrightarrow> has oflag f \<and> \<not> has flag f"

definition rt_serial_open :: "u8 list option \<Rightarrow> bool \<Rightarrow> u16 \<Rightarrow> rt_serial_device \<Rightarrow> (rt_serial_device \<times> dev_err) option" where
  "rt_serial_open mem mem_tx oflag s =
    (if refused oflag (dev_flag s) RT_DEVICE_FLAG_DMA_RX \<or> refused oflag (dev_flag s) RT_DEVICE_FLAG_DMA_TX \<or>
        refused oflag (dev_flag s) RT_DEVICE_FLAG_INT_RX \<or> refused oflag (dev_flag s) RT_DEVICE_FLAG_INT_TX
     then Some (s, RT_EIO)
     else do {
       s1 \<leftarrow> open_rx mem oflag (s\<lparr> open_flag := oflag AND 0xff \<rparr>);
       s2 \<leftarrow> open_tx mem_tx oflag s1;
       Some (s2, RT_EOK) })"

text \<open>
  The close as it is written: the pointer that is checked and freed for the DMA receiver is the one of the sender, and
  the one for the interrupt sender that of the receiver.
\<close>

definition close_rx :: "rt_serial_device \<Rightarrow> rt_serial_device option" where
  "close_rx s =
    (if has (open_flag s) RT_DEVICE_FLAG_INT_RX
     then (if serial_rx s = No_Rx then None
           else Some (stm32_control False (s\<lparr> serial_rx := No_Rx, open_flag := open_flag s AND NOT RT_DEVICE_FLAG_INT_RX \<rparr>)))
     else if has (open_flag s) RT_DEVICE_FLAG_DMA_RX
     then (if serial_tx s = No_Tx then None
           else Some (s\<lparr> serial_rx := No_Rx, open_flag := open_flag s AND NOT RT_DEVICE_FLAG_DMA_RX \<rparr>))
     else Some s)"

definition close_tx :: "rt_serial_device \<Rightarrow> rt_serial_device option" where
  "close_tx s =
    (if has (open_flag s) RT_DEVICE_FLAG_INT_TX
     then (if serial_rx s = No_Rx then None
           else Some (stm32_control False (s\<lparr> serial_tx := No_Tx, open_flag := open_flag s AND NOT RT_DEVICE_FLAG_INT_TX \<rparr>)))
     else if has (open_flag s) RT_DEVICE_FLAG_DMA_TX
     then (if serial_tx s = No_Tx then None
           else Some (s\<lparr> serial_tx := No_Tx, open_flag := open_flag s AND NOT RT_DEVICE_FLAG_DMA_TX \<rparr>))
     else Some s)"

definition rt_serial_close :: "rt_serial_device \<Rightarrow> rt_serial_device option" where
  "rt_serial_close s = (if 1 < ref_count s then Some s else do { s1 \<leftarrow> close_rx s; close_tx s1 })"

definition rt_device_open :: "u8 list option \<Rightarrow> bool \<Rightarrow> u16 \<Rightarrow> rt_serial_device \<Rightarrow> (rt_serial_device \<times> dev_err) option" where
  "rt_device_open mem mem_tx oflag s =
    (let s1 = (if has (dev_flag s) RT_DEVICE_FLAG_ACTIVATED then s
               else (rt_serial_init s)\<lparr> dev_flag := dev_flag s OR RT_DEVICE_FLAG_ACTIVATED \<rparr>)
     in if has (dev_flag s1) RT_DEVICE_FLAG_STANDALONE \<and> has (open_flag s1) RT_DEVICE_OFLAG_OPEN then Some (s1, RT_EBUSY)
        else do {
          (s2, e) \<leftarrow> rt_serial_open mem mem_tx oflag s1;
          (if e = RT_EOK
           then if ref_count s2 + 1 = 0 then None
                else Some (s2\<lparr> open_flag := oflag OR RT_DEVICE_OFLAG_OPEN, ref_count := ref_count s2 + 1 \<rparr>, e)
           else Some (s2, e)) })"

definition rt_device_close :: "rt_serial_device \<Rightarrow> (rt_serial_device \<times> dev_err) option" where
  "rt_device_close s =
    (if ref_count s = 0 then Some (s, RT_ERROR)
     else
       let s1 = s\<lparr> ref_count := ref_count s - 1 \<rparr>
       in if ref_count s1 \<noteq> 0 then Some (s1, RT_EOK)
          else do { s2 \<leftarrow> rt_serial_close s1; Some (s2\<lparr> open_flag := 0 \<rparr>, RT_EOK) })"

definition rt_device_set_rx_indicate :: "bool \<Rightarrow> rt_serial_device \<Rightarrow> rt_serial_device" where
  "rt_device_set_rx_indicate ind s = s\<lparr> rx_indicate := ind \<rparr>"

section \<open>Reading and writing\<close>

definition rt_serial_read :: "u8 option list \<Rightarrow> nat \<Rightarrow> rt_serial_device \<Rightarrow> (u8 list \<times> rt_serial_device) option" where
  "rt_serial_read polled n s =
    (if n = 0 then Some ([], s)
     else if has (open_flag s) RT_DEVICE_FLAG_INT_RX
     then (case serial_rx s of
         Rx_Fifo f \<Rightarrow> do { (chs, f1) \<leftarrow> serial_int_rx (bufsz s) n f; Some (chs, s\<lparr> serial_rx := Rx_Fifo f1 \<rparr>) }
       | _ \<Rightarrow> None)
     else if has (open_flag s) RT_DEVICE_FLAG_DMA_RX then None
     else Some (serial_poll_rx polled n, s))"

text \<open>The sender of the USART never refuses a byte, so that both ways of sending do the same.\<close>

definition rt_serial_write :: "u8 list \<Rightarrow> rt_serial_device \<Rightarrow> rt_serial_device option" where
  "rt_serial_write data s =
    (if data = [] then Some s
     else if has (open_flag s) RT_DEVICE_FLAG_INT_TX
     then (if serial_tx s = No_Tx then None else Some (s\<lparr> sent := sent s @ data \<rparr>))
     else if has (open_flag s) RT_DEVICE_FLAG_DMA_TX then None
     else Some (s\<lparr> sent := sent s @ data \<rparr>))"

definition rt_device_read :: "u8 option list \<Rightarrow> nat \<Rightarrow> rt_serial_device \<Rightarrow> (u8 list \<times> rt_serial_device) option" where
  "rt_device_read polled n s = (if ref_count s = 0 then Some ([], s) else rt_serial_read polled n s)"

definition rt_device_write :: "u8 list \<Rightarrow> rt_serial_device \<Rightarrow> rt_serial_device option" where
  "rt_device_write data s = (if ref_count s = 0 then Some s else rt_serial_write data s)"

datatype serial_cmd = DEV_SUSPEND | DEV_RESUME | DEV_SET_INT | DEV_CLR_INT

fun rt_serial_control :: "serial_cmd \<Rightarrow> rt_serial_device \<Rightarrow> rt_serial_device" where
  "rt_serial_control DEV_SUSPEND s = s\<lparr> dev_flag := dev_flag s OR RT_DEVICE_FLAG_SUSPENDED \<rparr>"
| "rt_serial_control DEV_RESUME s = s\<lparr> dev_flag := dev_flag s AND NOT RT_DEVICE_FLAG_SUSPENDED \<rparr>"
| "rt_serial_control DEV_SET_INT s = stm32_control True s"
| "rt_serial_control DEV_CLR_INT s = stm32_control False s"

section \<open>Interrupts\<close>

definition rt_hw_serial_isr :: "u8 list \<Rightarrow> rt_serial_device \<Rightarrow> rt_serial_device option" where
  "rt_hw_serial_isr chs s =
    (case serial_rx s of
       Rx_Fifo f \<Rightarrow>
         if has (open_flag s) RT_DEVICE_FLAG_INT_RX then do {
           f1 \<leftarrow> fifo_puts (bufsz s) chs f;
           let s1 = s\<lparr> serial_rx := Rx_Fifo f1 \<rparr>;
           Some (if rx_indicate s then s1\<lparr> indicated := indicated s @ [rx_length (bufsz s) f1] \<rparr> else s1) }
         else None
     | _ \<Rightarrow> None)"

text \<open>
  The bytes are those that \<open>stm32_getc\<close> finds until the register is empty. \<open>ore\<close> is the overrun flag, with what the
  register holds when it is tested at the end: a byte that has come since is read and thrown away.
\<close>

definition USART_IRQHandler :: "u8 list \<Rightarrow> u8 option option \<Rightarrow> rt_serial_device \<Rightarrow> rt_serial_device option" where
  "USART_IRQHandler chs ore s = do {
     s1 \<leftarrow> (if chs \<noteq> [] then rt_hw_serial_isr chs s else Some s);
     Some (case ore of
        Some (Some b) \<Rightarrow> s1\<lparr> discarded := discarded s1 @ [b] \<rparr>
      | _ \<Rightarrow> s1) }"

section \<open>Start\<close>

definition rt_hw_serial_register :: "u32 \<Rightarrow> rt_serial_device \<Rightarrow> rt_serial_device" where
  "rt_hw_serial_register flag s = s\<lparr> rx_indicate := False, dev_flag := ucast flag, ref_count := 0 \<rparr>"

definition blank_device :: rt_serial_device where
  "blank_device = \<lparr> dev_flag = 0, open_flag = 0, ref_count = 0, rx_indicate = False, bufsz = 0, serial_rx = No_Rx, serial_tx = No_Tx,
     rx_irq = False, sent = [], indicated = [], discarded = [] \<rparr>"

text \<open>Three ports; the configuration that is meant for the fourth one is written into the first one's device.\<close>

definition rt_hw_usart_init :: "nat \<Rightarrow> rt_serial_device" where
  "rt_hw_usart_init port =
    rt_hw_serial_register (ucast (RT_DEVICE_FLAG_RDWR OR RT_DEVICE_FLAG_INT_RX))
      (if port = 1 \<or> port = 2 then blank_device\<lparr> bufsz := 64 \<rparr> else blank_device)"

end
