(* ===== verification/Rt_Serial_Fifo.thy ===== *)
theory Rt_Serial_Fifo
  imports Rt_Serial
begin

text \<open>
  The ring buffer of the serial driver as a bounded queue: \<open>byte_queue\<close> is the interface, with the last bytes that fit
  as its contents, and the buffer of the driver an instance of it; the device after it has been opened.
\<close>

section \<open>The newest bytes that fit\<close>

definition newest :: "nat \<Rightarrow> 'a list \<Rightarrow> 'a list" where
  "newest n xs = drop (length xs - n) xs"

lemma newest_all [simp]: "length xs \<le> n \<Longrightarrow> newest n xs = xs"
  by (simp add: newest_def)

lemma length_newest [simp]: "length (newest n xs) = min n (length xs)"
  by (simp add: newest_def)

lemma newest_append: "newest n (newest n xs @ ys) = newest n (xs @ ys)"
  by (cases "length xs \<le> n") (simp_all add: newest_def add.commute)

section \<open>Interface\<close>

locale byte_queue =
  fixes put :: "'b \<Rightarrow> 'q \<Rightarrow> 'q option"
    and taking :: "nat \<Rightarrow> 'q \<Rightarrow> ('b list \<times> 'q) option"
    and content :: "'q \<Rightarrow> 'b list"
    and ok :: "'q \<Rightarrow> bool"
    and room :: nat
  assumes put_newest: "ok q \<Longrightarrow> \<exists>q'. put b q = Some q' \<and> ok q' \<and> content q' = newest room (content q @ [b])"
    and taking_front: "ok q \<Longrightarrow> \<exists>q'. taking n q = Some (take n (content q), q') \<and> ok q' \<and> content q' = drop n (content q)"
    and content_room: "ok q \<Longrightarrow> length (content q) \<le> room"
begin

lemma puts_newest:
  "ok q \<Longrightarrow> \<exists>q'. run_steps (\<lambda>q b. put b q) q bs = Some q' \<and> ok q' \<and> content q' = newest room (content q @ bs)"
proof (induction bs arbitrary: q)
  case Nil
  then show ?case using content_room by simp
next
  case (Cons b bs)
  obtain q1 where q1: "put b q = Some q1" "ok q1" "content q1 = newest room (content q @ [b])" using put_newest [OF Cons.prems] by blast
  then show ?case using Cons.IH [OF q1(2)] newest_append [of room "content q @ [b]" bs] by simp
qed

end

section \<open>The ring\<close>

definition ring :: "u8 list \<Rightarrow> nat \<Rightarrow> nat \<Rightarrow> u8 list" where
  "ring b g k = map (\<lambda>i. b ! ((g + i) mod length b)) [0..<k]"

lemma ring_Cons: "ring b g (Suc k) = b ! (g mod length b) # ring b (Suc g mod length b) k"
proof -
  have "map (\<lambda>i. b ! ((g + i) mod length b)) (map Suc [0..<k]) = ring b (Suc g mod length b) k"
    by (simp add: ring_def mod_add_left_eq)
  then show ?thesis by (simp add: ring_def upt_conv_Cons map_Suc_upt [symmetric] del: upt_Suc)
qed

lemma mod_apart: "i \<le> k \<Longrightarrow> k < n \<Longrightarrow> (g + k) mod n = (g + i) mod n \<Longrightarrow> i = (k::nat)"
  using mod_eq_dvd_iff_nat [of "g + i" "g + k" n] nat_dvd_not_less [of "k - i" n] by fastforce

lemma mod_unique: "(g + i) mod n = (g + k) mod n \<Longrightarrow> i < n \<Longrightarrow> k < n \<Longrightarrow> i = (k::nat)"
  using mod_apart [of i k n g] mod_apart [of k i n g] by (cases "i \<le> k") auto

lemma ring_snoc:
  assumes "k < length b"
  shows "ring (b[(g + k) mod length b := ch]) g (Suc k) = ring b g k @ [ch]"
proof -
  have "b[(g + k) mod length b := ch] ! ((g + i) mod length b) = b ! ((g + i) mod length b)" if "i < k" for i
    using mod_unique [of g i "length b" k] that assms by (metis less_trans nat_neq_iff nth_list_update_neq)
  then have "ring (b[(g + k) mod length b := ch]) g k = ring b g k" by (simp add: ring_def)
  moreover have "(g + k) mod length b < length b" using assms by (intro mod_less_divisor) auto
  ultimately show ?thesis by (simp add: ring_def)
qed

section \<open>The buffer\<close>

definition held :: "u16 \<Rightarrow> rt_serial_rx_fifo \<Rightarrow> nat" where
  "held sz f = (unat (put_index f) + unat sz - unat (get_index f)) mod unat sz"

definition fifo_content :: "u16 \<Rightarrow> rt_serial_rx_fifo \<Rightarrow> u8 list" where
  "fifo_content sz f = ring (fifo_buffer f) (unat (get_index f)) (held sz f)"

definition fifo_ok :: "u16 \<Rightarrow> rt_serial_rx_fifo \<Rightarrow> bool" where
  "fifo_ok sz f \<longleftrightarrow> length (fifo_buffer f) = unat sz \<and> put_index f < sz \<and> get_index f < sz"

lemma next_index: "i < sz \<Longrightarrow> unat (next_index sz i) = Suc (unat i) mod unat sz"
proof -
  assume i: "i < sz"
  then have l: "unat i < unat sz" by (simp add: word_less_nat_alt)
  have "unat sz < 65536" using unsigned_less [of sz, where ?'a = nat] by simp
  then have s: "unat (i + 1) = Suc (unat i)" using l by (subst unat_plus_simple [THEN iffD1]) (simp_all add: word_le_nat_alt unat_word_ariths)
  show ?thesis
    using l s by (cases "Suc (unat i) = unat sz") (simp_all add: next_index_def word_le_nat_alt)
qed

lemma next_less: "i < sz \<Longrightarrow> next_index sz i < sz"
  using next_index [of i sz] by (simp add: word_less_nat_alt)

lemma fifoD:
  assumes "fifo_ok sz f"
  shows "0 < unat sz" "held sz f < unat sz" "unat (put_index f) = (unat (get_index f) + held sz f) mod unat sz"
    "unat (put_index f) < unat sz" "unat (get_index f) < unat sz" "length (fifo_content sz f) = held sz f"
proof -
  have l: "unat (put_index f) < unat sz" "unat (get_index f) < unat sz" using assms by (simp_all add: fifo_ok_def word_less_nat_alt)
  then show "0 < unat sz" "unat (put_index f) < unat sz" "unat (get_index f) < unat sz" by simp_all
  then show "held sz f < unat sz" by (simp add: held_def)
  have "(unat (get_index f) + held sz f) mod unat sz = (unat (get_index f) + (unat (put_index f) + unat sz - unat (get_index f))) mod unat sz"
    by (simp add: held_def mod_add_right_eq)
  then show "unat (put_index f) = (unat (get_index f) + held sz f) mod unat sz" using l by simp
  show "length (fifo_content sz f) = held sz f" by (simp add: fifo_content_def ring_def)
qed

lemma held_unique:
  assumes "unat (put_index f) = (unat (get_index f) + k) mod unat sz" "k < unat sz" "get_index f < sz"
  shows "held sz f = k"
proof -
  have l: "unat (get_index f) < unat sz" using assms(3) by (simp add: word_less_nat_alt)
  have "unat (put_index f) < unat sz" using assms(1) l by simp
  then have "(unat (get_index f) + held sz f) mod unat sz = unat (put_index f)"
    using l by (simp add: held_def mod_add_right_eq)
  then show ?thesis using mod_unique [of "unat (get_index f)" "held sz f" "unat sz" k] assms l by (simp add: held_def)
qed

lemma put_ok:
  assumes "fifo_ok sz f"
  shows "\<exists>f'. fifo_put sz ch f = Some f' \<and> fifo_ok sz f' \<and> fifo_content sz f' = newest (unat sz - 1) (fifo_content sz f @ [ch])"
proof -
  let ?n = "unat sz" and ?g = "unat (get_index f)" and ?k = "held sz f"
  note d = fifoD [OF assms]
  have len: "length (fifo_buffer f) = ?n" and lt: "put_index f < sz" "get_index f < sz" using assms by (simp_all add: fifo_ok_def)
  define b where "b = (fifo_buffer f)[unat (put_index f) := ch]"
  define p where "p = next_index sz (put_index f)"
  have p: "p < sz" "unat p = (?g + Suc ?k) mod ?n" using next_less [OF lt(1)] next_index [OF lt(1)] d(3) by (simp_all add: p_def mod_Suc_eq)
  have b: "ring b ?g (Suc ?k) = fifo_content sz f @ [ch]"
    using ring_snoc [of ?k "fifo_buffer f" ?g ch] d(2,3) len by (simp add: b_def fifo_content_def)
  have bl: "length b = ?n" using len by (simp add: b_def)
  have full: "p = get_index f \<longleftrightarrow> Suc ?k = ?n"
  proof
    assume "p = get_index f"
    then have "(?g + Suc ?k) mod ?n = (?g + 0) mod ?n" using p(2) d(5) by simp
    then show "Suc ?k = ?n" using mod_unique [of ?g "Suc ?k" ?n 0] d(1,2) by (cases "Suc ?k < ?n") auto
  next
    assume "Suc ?k = ?n"
    then show "p = get_index f" using p(2) d(5) by (simp add: word_unat_eq_iff)
  qed
  define f' where "f' = f\<lparr> fifo_buffer := b, put_index := p,
    get_index := (if p = get_index f then next_index sz (get_index f) else get_index f) \<rparr>"
  have run: "fifo_put sz ch f = Some f'" using d(4) len by (simp add: fifo_put_def Let_def f'_def b_def p_def)
  have ok: "fifo_ok sz f'" using bl p(1) lt next_less [OF lt(2)] by (simp add: fifo_ok_def f'_def)
  have "fifo_content sz f' = newest (?n - 1) (fifo_content sz f @ [ch])"
  proof (cases "Suc ?k = ?n")
    case True
    have g: "unat (get_index f') = Suc ?g mod ?n" using True full next_index [OF lt(2)] by (simp add: f'_def)
    have "unat (put_index f') = (unat (get_index f') + ?k) mod ?n" using g p(2) by (simp add: f'_def mod_add_left_eq)
    then have "held sz f' = ?k" using held_unique [of f' ?k sz] d(2) ok by (simp add: fifo_ok_def)
    then have "fifo_content sz f' = ring b (Suc ?g mod ?n) ?k" using g by (simp add: fifo_content_def f'_def)
    then have "fifo_content sz f' = tl (fifo_content sz f @ [ch])" using ring_Cons [of b ?g ?k] b bl by simp
    then have "fifo_content sz f' = drop 1 (fifo_content sz f @ [ch])" by (simp only: drop_Suc drop_0 One_nat_def)
    moreover have "length (fifo_content sz f @ [ch]) - (?n - 1) = 1" using True d(6) by simp
    ultimately show ?thesis unfolding newest_def by simp
  next
    case False
    then have g: "get_index f' = get_index f" using full by (simp add: f'_def)
    have k: "Suc ?k < ?n" using False d(2) by simp
    have "held sz f' = Suc ?k" using held_unique [of f' "Suc ?k" sz] g p(2) k lt(2) by (simp add: f'_def)
    then show ?thesis using b g k d(6) by (simp add: fifo_content_def f'_def)
  qed
  then show ?thesis using run ok by blast
qed

lemma taking_ok:
  assumes "fifo_ok sz f"
  shows "\<exists>f'. serial_int_rx sz n f = Some (take n (fifo_content sz f), f') \<and> fifo_ok sz f' \<and> fifo_content sz f' = drop n (fifo_content sz f)"
  using assms
proof (induction n arbitrary: f)
  case (Suc n)
  note d = fifoD [OF Suc.prems]
  have len: "length (fifo_buffer f) = unat sz" and lt: "put_index f < sz" "get_index f < sz" using Suc.prems by (simp_all add: fifo_ok_def)
  show ?case
  proof (cases "held sz f")
    case 0
    then have "get_index f = put_index f" using d(3,5) by (simp add: word_unat_eq_iff)
    then show ?thesis using 0 Suc.prems d(6) by simp
  next
    case (Suc k)
    have ne: "get_index f \<noteq> put_index f" using Suc by (auto simp: held_def)
    define f1 where "f1 = f\<lparr> get_index := next_index sz (get_index f) \<rparr>"
    have g: "unat (get_index f1) = Suc (unat (get_index f)) mod unat sz" using next_index [OF lt(2)] by (simp add: f1_def)
    have ok: "fifo_ok sz f1" using len lt next_less [OF lt(2)] by (simp add: fifo_ok_def f1_def)
    have "unat (put_index f1) = (unat (get_index f1) + k) mod unat sz" using d(3) Suc g by (simp add: f1_def mod_add_left_eq)
    then have h: "held sz f1 = k" using held_unique [of f1 k sz] d(2) Suc ok by (simp add: fifo_ok_def)
    have c: "fifo_content sz f = fifo_buffer f ! unat (get_index f) # fifo_content sz f1"
      using ring_Cons [of "fifo_buffer f" "unat (get_index f)" k] Suc h g len d(5) by (simp add: fifo_content_def f1_def)
    obtain f' where f': "serial_int_rx sz n f1 = Some (take n (fifo_content sz f1), f')" "fifo_ok sz f'"
      "fifo_content sz f' = drop n (fifo_content sz f1)" using Suc.IH [OF ok] by blast
    then show ?thesis using ne c d(5) len by (simp add: f1_def)
  qed
qed simp

interpretation serial_fifo: byte_queue "fifo_put sz" "serial_int_rx sz" "fifo_content sz" "fifo_ok sz" "unat sz - 1" for sz
proof unfold_locales
  show "length (fifo_content sz f) \<le> unat sz - 1" if "fifo_ok sz f" for f using fifoD(2,6) [OF that] by simp
qed (use put_ok taking_ok in blast)+

lemma puts_run: "fifo_puts sz chs f = run_steps (\<lambda>f ch. fifo_put sz ch f) f chs"
proof (induction chs arbitrary: f)
  case (Cons ch chs)
  then show ?case by (cases "fifo_put sz ch f") simp_all
qed simp

lemma puts_ok:
  "fifo_ok sz f \<Longrightarrow> \<exists>f'. fifo_puts sz chs f = Some f' \<and> fifo_ok sz f' \<and> fifo_content sz f' = newest (unat sz - 1) (fifo_content sz f @ chs)"
  unfolding puts_run by (rule serial_fifo.puts_newest)

text \<open>The length that is announced is the one of the contents.\<close>

lemma rx_length_held: "fifo_ok sz f \<Longrightarrow> unat (rx_length sz f) = length (fifo_content sz f)"
proof -
  assume ok: "fifo_ok sz f"
  note d = fifoD [OF ok]
  define p g n where "p = unat (put_index f)" and "g = unat (get_index f)" and "n = unat sz"
  have u: "uint (put_index f) = int p" "uint (get_index f) = int g" "uint sz = int n" by (simp_all add: p_def g_def n_def)
  have s: "unat sz < 65536" using unsigned_less [of sz, where ?'a = nat] by simp
  have l: "p < n" "g < n" "held sz f = (p + n - g) mod n" using d(4,5) by (simp_all add: p_def g_def n_def held_def)
  have "(if int g \<le> int p then int p - int g else int n - (int g - int p)) = int (held sz f)"
    unfolding l(3) using l(1,2) by (cases "g \<le> p") (auto simp: mod_if)
  then have "rx_length sz f = word_of_int (int (held sz f))" unfolding rx_length_def Let_def u by (simp only:)
  then have "rx_length sz f = of_nat (held sz f)" by simp
  then show ?thesis using d(2,6) s by (simp add: unat_of_nat take_bit_nat_eq_self)
qed

end
