(* ===== verification/Rt_Serial_Lines.thy ===== *)
theory Rt_Serial_Lines
  imports Wifi_Link Mb_Master Rt_Serial_Fifo "HOL-Library.Sublist"
begin

text \<open>
  The two lines of the control board on the serial driver: the thread of \<open>wifi_mod_uart.c\<close> that takes the bytes of the
  Wi-Fi module out of the buffer, and the callback of \<open>portserial_m.c\<close> that reads one byte for the Modbus master.
\<close>

section \<open>The open device\<close>

definition rx_open :: "rt_serial_device \<Rightarrow> bool" where
  "rx_open s \<longleftrightarrow> has (open_flag s) RT_DEVICE_FLAG_INT_RX \<and> (\<exists>f. serial_rx s = Rx_Fifo f \<and> fifo_ok (bufsz s) f)"

definition pending :: "rt_serial_device \<Rightarrow> u8 list" where
  "pending s = (case serial_rx s of Rx_Fifo f \<Rightarrow> fifo_content (bufsz s) f | _ \<Rightarrow> [])"

lemma pending_same: "serial_rx s' = serial_rx s \<Longrightarrow> bufsz s' = bufsz s \<Longrightarrow> pending s' = pending s"
  by (cases "serial_rx s") (simp_all add: pending_def)

text \<open>What the calls below leave as it is.\<close>

definition same_device :: "rt_serial_device \<Rightarrow> rt_serial_device \<Rightarrow> bool" where
  "same_device s s' \<longleftrightarrow> bufsz s' = bufsz s \<and> rx_indicate s' = rx_indicate s \<and> ref_count s' = ref_count s"

lemma isr_ok:
  assumes "rx_open s"
  shows "\<exists>s'. USART_IRQHandler chs ore s = Some s' \<and> rx_open s' \<and> same_device s s' \<and>
    pending s' = newest (unat (bufsz s) - 1) (pending s @ chs) \<and>
    indicated s' = indicated s @ (if rx_indicate s \<and> chs \<noteq> [] then [of_nat (length (pending s'))] else [])"
proof -
  obtain f where f: "serial_rx s = Rx_Fifo f" "fifo_ok (bufsz s) f" "has (open_flag s) RT_DEVICE_FLAG_INT_RX"
    using assms by (auto simp: rx_open_def)
  obtain f' where f': "fifo_puts (bufsz s) chs f = Some f'" "fifo_ok (bufsz s) f'"
    "fifo_content (bufsz s) f' = newest (unat (bufsz s) - 1) (fifo_content (bufsz s) f @ chs)"
    using puts_ok [OF f(2)] by blast
  have "rx_length (bufsz s) f' = of_nat (unat (rx_length (bufsz s) f'))" by simp
  then have l: "rx_length (bufsz s) f' = of_nat (length (fifo_content (bufsz s) f'))" unfolding rx_length_held [OF f'(2)] .
  have old: "newest (unat (bufsz s) - 1) (fifo_content (bufsz s) f) = fifo_content (bufsz s) f"
    using serial_fifo.content_room [OF f(2)] by simp
  show ?thesis
  proof (cases "chs = []")
    case True
    then show ?thesis using assms f old
      by (auto simp: USART_IRQHandler_def pending_def same_device_def rx_open_def split: option.splits)
  next
    case False
    define s' where "s' = s\<lparr> serial_rx := Rx_Fifo f',
      indicated := indicated s @ (if rx_indicate s then [rx_length (bufsz s) f'] else []) \<rparr>"
    define t where "t = (case ore of Some (Some b) \<Rightarrow> s'\<lparr> discarded := discarded s' @ [b] \<rparr> | _ \<Rightarrow> s')"
    have t: "serial_rx t = serial_rx s'" "open_flag t = open_flag s'" "bufsz t = bufsz s'" "rx_indicate t = rx_indicate s'"
      "ref_count t = ref_count s'" "indicated t = indicated s'"
      by (simp_all add: t_def split: option.splits)
    have "rt_hw_serial_isr chs s = Some s'" using f f'(1) by (simp add: rt_hw_serial_isr_def s'_def)
    then have "USART_IRQHandler chs ore s = Some t" using False by (simp add: USART_IRQHandler_def t_def)
    moreover have "pending s' = fifo_content (bufsz s) f'" "pending s = fifo_content (bufsz s) f" using f(1) by (simp_all add: pending_def s'_def)
    moreover have "rx_open s'" "same_device s s'" using f f' by (simp_all add: rx_open_def same_device_def s'_def)
    moreover have "indicated s' = indicated s @ (if rx_indicate s then [of_nat (length (fifo_content (bufsz s) f'))] else [])"
      unfolding s'_def l by simp
    ultimately show ?thesis using False f'(3) t pending_same [OF t(1,3)]
      by (intro exI [of _ t]) (simp add: rx_open_def same_device_def)
  qed
qed

lemma read_ok:
  assumes "rx_open s"
  shows "\<exists>s'. rt_serial_read polled n s = Some (take n (pending s), s') \<and> rx_open s' \<and> same_device s s' \<and>
    pending s' = drop n (pending s) \<and> indicated s' = indicated s"
proof -
  obtain f where f: "serial_rx s = Rx_Fifo f" "fifo_ok (bufsz s) f" "has (open_flag s) RT_DEVICE_FLAG_INT_RX"
    using assms by (auto simp: rx_open_def)
  obtain f' where f': "serial_int_rx (bufsz s) n f = Some (take n (fifo_content (bufsz s) f), f')" "fifo_ok (bufsz s) f'"
    "fifo_content (bufsz s) f' = drop n (fifo_content (bufsz s) f)"
    using taking_ok [OF f(2)] by blast
  show ?thesis
  proof (cases n)
    case 0
    then show ?thesis using assms by (simp add: rt_serial_read_def same_device_def)
  next
    case (Suc k)
    then show ?thesis using f f' by (simp add: rt_serial_read_def rx_open_def pending_def same_device_def)
  qed
qed

lemma opened_ok:
  assumes "serial_rx s = No_Rx" "has oflag RT_DEVICE_FLAG_INT_RX" "length mem = unat (bufsz s)"
    "rt_serial_open (Some mem) tx oflag s = Some (s', RT_EOK)" "\<not> has (dev_flag s) RT_DEVICE_FLAG_DMA_RX"
  shows "rx_open s'" "pending s' = []" "same_device s s'" "indicated s' = indicated s" "serial_rx s' \<noteq> No_Rx"
proof -
  let ?fl = "open_flag s'"
  have r: "\<not> has oflag RT_DEVICE_FLAG_DMA_RX" using assms(4,5) by (auto simp: rt_serial_open_def refused_def split: if_splits)
  obtain s1 where s1: "open_rx (Some mem) oflag (s\<lparr> open_flag := oflag AND 0xff \<rparr>) = Some s1" "open_tx tx oflag s1 = Some s'"
    using assms(4) by (auto simp: rt_serial_open_def bind_eq_Some_conv split: if_splits)
  obtain b where b: "buf_puts mem 0 (replicate 64 (0 :: u8)) = Some b"
    "s1 = stm32_control True (s\<lparr> serial_rx := Rx_Fifo \<lparr> fifo_buffer = b, put_index = 0, get_index = 0 \<rparr>,
       open_flag := (oflag AND 0xff) OR RT_DEVICE_FLAG_INT_RX \<rparr>)"
    using s1(1) assms(1,2) r by (auto simp: open_rx_def bind_eq_Some_conv)
  have len: "length b = unat (bufsz s)" using buf_puts_length [OF b(1)] assms(3) by simp
  have "64 \<le> length mem" using b(1) buf_puts_None [of mem 0 "replicate 64 (0 :: u8)"] by (fastforce simp: not_le)
  then have pos: "0 < bufsz s" using assms(3) by (metis gr0I unat_gt_0 not_numeral_le_zero word_gt_0 unat_0)
  have fl: "bit (open_flag s1) 8" by (simp add: b(2) stm32_control_def bit_or_iff bit_simps)
  have t: "serial_rx s' = serial_rx s1" "bit (open_flag s') 8" "bufsz s' = bufsz s1" "rx_indicate s' = rx_indicate s1"
    "ref_count s' = ref_count s1" "indicated s' = indicated s1"
    using s1(2) fl by (auto simp: open_tx_def stm32_control_def bit_or_iff split: if_splits)
  have "has (open_flag s') RT_DEVICE_FLAG_INT_RX"
  proof -
    have "bit (open_flag s' AND 0x100) 8" using t(2) by (simp add: bit_and_iff bit_simps)
    then show ?thesis unfolding has_def by auto
  qed
  moreover have ok: "fifo_ok (bufsz s) \<lparr> fifo_buffer = b, put_index = 0, get_index = 0 \<rparr>" using len pos by (simp add: fifo_ok_def)
  ultimately show "rx_open s'" using t b(2) by (simp add: rx_open_def stm32_control_def)
  show "pending s' = []" using t(1,3) b(2) by (simp add: pending_def stm32_control_def fifo_content_def held_def ring_def)
  show "same_device s s'" "indicated s' = indicated s" "serial_rx s' \<noteq> No_Rx" using t b(2) by (simp_all add: same_device_def stm32_control_def)
qed

section \<open>The driver alone\<close>

text \<open>
  Interrupts, some with an overrun, and reads in any order; what has been read is kept. The specification is a queue that
  keeps the newest bytes.
\<close>

datatype serial_event = Rx_Ready "u8 list" | Rx_Overrun "u8 list" "u8 option" | Read_Bytes nat

fun serial_step :: "rt_serial_device \<times> u8 list \<Rightarrow> serial_event \<Rightarrow> (rt_serial_device \<times> u8 list) option" where
  "serial_step (s, got) (Rx_Ready chs) = do { s1 \<leftarrow> USART_IRQHandler chs None s; Some (s1, got) }"
| "serial_step (s, got) (Rx_Overrun chs dr) = do { s1 \<leftarrow> USART_IRQHandler chs (Some dr) s; Some (s1, got) }"
| "serial_step (s, got) (Read_Bytes n) = do { (bs, s1) \<leftarrow> rt_device_read [] n s; Some (s1, got @ bs) }"

fun queue_step :: "nat \<Rightarrow> u8 list \<times> u8 list \<Rightarrow> serial_event \<Rightarrow> u8 list \<times> u8 list" where
  "queue_step room (q, got) (Rx_Ready chs) = (newest room (q @ chs), got)"
| "queue_step room (q, got) (Rx_Overrun chs dr) = (newest room (q @ chs), got)"
| "queue_step room (q, got) (Read_Bytes n) = (drop n q, got @ take n q)"

lemma serial_run:
  assumes "rx_open s" "ref_count s \<noteq> 0"
  shows "\<exists>s'. run_steps serial_step (s, got) es = Some (s', snd (foldl (queue_step (unat (bufsz s) - 1)) (pending s, got) es)) \<and>
    pending s' = fst (foldl (queue_step (unat (bufsz s) - 1)) (pending s, got) es)"
  using assms
proof (induction es arbitrary: s got)
  case (Cons e es)
  show ?case
  proof (cases e)
    case (Rx_Ready chs)
    obtain s1 where s1: "USART_IRQHandler chs None s = Some s1" "rx_open s1" "same_device s s1" "pending s1 = newest (unat (bufsz s) - 1) (pending s @ chs)"
      using isr_ok [OF Cons.prems(1), of chs None] by blast
    then show ?thesis using Cons.IH [OF s1(2)] Cons.prems(2) Rx_Ready by (simp add: same_device_def)
  next
    case (Rx_Overrun chs dr)
    obtain s1 where s1: "USART_IRQHandler chs (Some dr) s = Some s1" "rx_open s1" "same_device s s1" "pending s1 = newest (unat (bufsz s) - 1) (pending s @ chs)"
      using isr_ok [OF Cons.prems(1), of chs "Some dr"] by blast
    then show ?thesis using Cons.IH [OF s1(2)] Cons.prems(2) Rx_Overrun by (simp add: same_device_def)
  next
    case (Read_Bytes n)
    obtain s1 where s1: "rt_serial_read [] n s = Some (take n (pending s), s1)" "rx_open s1" "same_device s s1" "pending s1 = drop n (pending s)"
      using read_ok [OF Cons.prems(1), of "[]" n] by blast
    then show ?thesis using Cons.IH [OF s1(2)] Cons.prems(2) Read_Bytes by (simp add: same_device_def rt_device_read_def)
  qed
qed simp

section \<open>The line of the Wi-Fi module\<close>

text \<open>
  Who takes the bytes: the reading thread \<open>rt_wifi_thread_entry\<close>, or \<open>wifi_factory_set\<close> while it has deleted that thread.
  Both wait for the same semaphore and then read until the buffer is empty (\<open>wl_reading\<close>). The bytes that were taken are
  recorded with who took them.
\<close>

datatype line_user = Reading_Thread | Factory_Set

record wifi_line =
  wl_dev :: rt_serial_device
  wl_sem :: u16
  wl_reading :: bool
  wl_rx :: wifi_rx
  wl_user :: line_user
  wl_taken :: "(line_user \<times> u8) list"

definition uart_wifi_set_device :: "u8 list option \<Rightarrow> rt_serial_device \<Rightarrow> rt_serial_device option" where
  "uart_wifi_set_device mem s = do {
     (s1, e) \<leftarrow> rt_device_open mem True (RT_DEVICE_FLAG_RDWR OR RT_DEVICE_FLAG_INT_RX OR RT_DEVICE_FLAG_STREAM) s;
     Some (if e = RT_EOK then rt_device_set_rx_indicate True s1 else s1) }"

text \<open>The line when it has been opened and its thread started.\<close>

definition line_start :: "rt_serial_device \<Rightarrow> wifi_rx \<Rightarrow> wifi_line" where
  "line_start s w = \<lparr> wl_dev = s, wl_sem = 0, wl_reading = False, wl_rx = w, wl_user = Reading_Thread, wl_taken = [] \<rparr>"

text \<open>The callback releases the semaphore; it is called as often as the driver has indicated bytes.\<close>

definition wifi_rx_ind :: "rt_serial_device \<Rightarrow> rt_serial_device \<Rightarrow> u16 \<Rightarrow> u16" where
  "wifi_rx_ind s s' sem = sem + of_nat (length (indicated s') - length (indicated s))"

definition line_irq :: "u8 list \<Rightarrow> u8 option option \<Rightarrow> wifi_line \<Rightarrow> wifi_line option" where
  "line_irq chs ore l = do {
     s \<leftarrow> USART_IRQHandler chs ore (wl_dev l);
     Some (l\<lparr> wl_dev := s, wl_sem := wifi_rx_ind (wl_dev l) s (wl_sem l) \<rparr>) }"

text \<open>
  The steps: an interrupt, one with an overrun; a take of the semaphore, by whoever uses the line (that \<open>wifi_factory_set\<close>
  gives up after three seconds makes no difference to the line); one turn of the reading loop; and the deletion of the
  reading thread, in whatever state it is between two of these steps, and its creation, which \<open>wifi_factory_set\<close> reaches
  only outside its reading loop.
\<close>

datatype wifi_line_event = Line_Bytes "u8 list" | Line_Overrun "u8 list" "u8 option" | Take_Sem | Read_One
  | Line_Reader_Deleted | Line_Reader_Created

fun wifi_line_step :: "wifi_line \<Rightarrow> wifi_line_event \<Rightarrow> wifi_line option" where
  "wifi_line_step l (Line_Bytes chs) = line_irq chs None l"
| "wifi_line_step l (Line_Overrun chs dr) = line_irq chs (Some dr) l"
| "wifi_line_step l Take_Sem =
     Some (if wl_reading l \<or> wl_sem l = 0 then l else l\<lparr> wl_sem := wl_sem l - 1, wl_reading := True \<rparr>)"
| "wifi_line_step l Read_One =
     (if wl_reading l then do {
        (bs, s) \<leftarrow> rt_device_read [] 1 (wl_dev l);
        (case bs of
           b # _ \<Rightarrow> do {
             w \<leftarrow> (if wl_user l = Reading_Thread then wifi_rx_isr (wl_rx l) b else Some (wl_rx l));
             Some (l\<lparr> wl_dev := s, wl_rx := w, wl_taken := wl_taken l @ [(wl_user l, b)] \<rparr>) }
         | [] \<Rightarrow> Some (l\<lparr> wl_dev := s, wl_reading := False \<rparr>)) }
      else Some l)"
| "wifi_line_step l Line_Reader_Deleted =
     Some (if wl_user l = Reading_Thread then l\<lparr> wl_user := Factory_Set, wl_reading := False \<rparr> else l)"
| "wifi_line_step l Line_Reader_Created =
     Some (if wl_user l = Factory_Set \<and> \<not> wl_reading l then l\<lparr> wl_user := Reading_Thread \<rparr> else l)"

text \<open>No more bytes wait than there is room for, and the semaphore's count does not wrap.\<close>

fun in_time :: "wifi_line \<Rightarrow> wifi_line_event \<Rightarrow> bool" where
  "in_time l (Line_Bytes chs) \<longleftrightarrow> length (pending (wl_dev l)) + length chs < unat (bufsz (wl_dev l)) \<and> wl_sem l \<noteq> 0xffff"
| "in_time l (Line_Overrun chs dr) \<longleftrightarrow> length (pending (wl_dev l)) + length chs < unat (bufsz (wl_dev l)) \<and> wl_sem l \<noteq> 0xffff"
| "in_time l _ \<longleftrightarrow> True"

fun bytes_of :: "wifi_line_event list \<Rightarrow> u8 list" where
  "bytes_of [] = []"
| "bytes_of (Line_Bytes chs # es) = chs @ bytes_of es"
| "bytes_of (Line_Overrun chs dr # es) = chs @ bytes_of es"
| "bytes_of (_ # es) = bytes_of es"

definition taken_by :: "line_user \<Rightarrow> (line_user \<times> u8) list \<Rightarrow> u8 list" where
  "taken_by u ts = map snd (filter (\<lambda>t. fst t = u) ts)"

lemma taken_by_simps [simp]:
  "taken_by u [] = []" "taken_by u ((v, b) # ts) = (if v = u then b # taken_by u ts else taken_by u ts)"
  by (simp_all add: taken_by_def)

lemma taken_by_all: "\<forall>t \<in> set ts. fst t = u \<Longrightarrow> taken_by u ts = map snd ts"
  by (simp add: taken_by_def filter_id_conv [THEN iffD2])

definition awake :: "wifi_line \<Rightarrow> bool" where
  "awake l \<longleftrightarrow> wl_reading l \<or> wl_sem l \<noteq> 0 \<or> pending (wl_dev l) = []"

text \<open>
  What the decoder may get of the bytes: the first ones, or, when the thread may be deleted on the way, any in their order.
\<close>

definition part :: "bool \<Rightarrow> u8 list \<Rightarrow> u8 list \<Rightarrow> bool" where
  "part del bs xs = (if del then subseq bs xs else prefix bs xs)"

lemma part_simps [simp]: "part del [] xs" "part del bs q \<Longrightarrow> part del (b # bs) (b # q)" "part True bs q \<Longrightarrow> part True bs (b # q)"
  by (auto simp: part_def)

lemma line_irq_ok:
  assumes "rx_open (wl_dev l)" "rx_indicate (wl_dev l)"
    "length (pending (wl_dev l)) + length chs < unat (bufsz (wl_dev l))" "wl_sem l \<noteq> 0xffff"
  shows "\<exists>s m. line_irq chs ore l = Some (l\<lparr> wl_dev := s, wl_sem := m \<rparr>) \<and> rx_open s \<and> same_device (wl_dev l) s \<and>
    pending s = pending (wl_dev l) @ chs \<and> (awake l \<longrightarrow> awake (l\<lparr> wl_dev := s, wl_sem := m \<rparr>))"
proof -
  let ?d = "wl_dev l"
  obtain s where s: "USART_IRQHandler chs ore ?d = Some s" "rx_open s" "same_device ?d s" "pending s = newest (unat (bufsz ?d) - 1) (pending ?d @ chs)"
    "indicated s = indicated ?d @ (if rx_indicate ?d \<and> chs \<noteq> [] then [of_nat (length (pending s))] else [])"
    using isr_ok [OF assms(1), of chs ore] by blast
  have "length (pending ?d @ chs) \<le> unat (bufsz ?d) - 1" using assms(3) by auto
  then have p: "pending s = pending ?d @ chs" using s(4) by (simp only: newest_all)
  have m: "wifi_rx_ind ?d s (wl_sem l) = (if chs = [] then wl_sem l else wl_sem l + 1)" using s(5) assms(2) by (simp add: wifi_rx_ind_def)
  moreover have "wl_sem l + 1 \<noteq> 0" using assms(4) by (auto simp: eq_neg_iff_add_eq_0 [symmetric])
  ultimately have "awake l \<longrightarrow> awake (l\<lparr> wl_dev := s, wl_sem := wifi_rx_ind ?d s (wl_sem l) \<rparr>)" using p by (auto simp: awake_def)
  then show ?thesis using s p by (auto simp: line_irq_def)
qed

text \<open>What a run does with the bytes that wait and those that come.\<close>

definition line_result :: "bool \<Rightarrow> wifi_line \<Rightarrow> u8 list \<Rightarrow> wifi_line \<Rightarrow> bool" where
  "line_result del l bs l' \<longleftrightarrow> (\<exists>d. wl_taken l' = wl_taken l @ d \<and>
     pending (wl_dev l) @ bs = map snd d @ pending (wl_dev l') \<and>
     run_steps wifi_rx_isr (wl_rx l) (taken_by Reading_Thread d) = Some (wl_rx l') \<and>
     (\<not> del \<longrightarrow> awake l' \<and> (\<forall>t \<in> set d. fst t = Reading_Thread)))"

lemma line_result_quiet:
  assumes "line_result del l1 bs l'" "wl_taken l1 = wl_taken l" "wl_rx l1 = wl_rx l" "pending (wl_dev l1) @ bs = pending (wl_dev l) @ cs"
  shows "line_result del l cs l'"
  using assms unfolding line_result_def by auto

lemma wifi_line_run:
  assumes "rx_open (wl_dev l)" "ref_count (wl_dev l) \<noteq> 0" "rx_indicate (wl_dev l)" "inputs_ok wifi_line_step in_time l es"
    "\<not> del \<longrightarrow> Line_Reader_Deleted \<notin> set es \<and> wl_user l = Reading_Thread \<and> awake l"
    "\<forall>bs. part del bs (pending (wl_dev l) @ bytes_of es) \<longrightarrow> run_steps wifi_rx_isr (wl_rx l) bs \<noteq> None"
  shows "\<exists>l'. run_steps wifi_line_step l es = Some l' \<and> line_result del l (bytes_of es) l'"
  using assms
proof (induction es arbitrary: l)
  case Nil
  then show ?case by (auto simp: line_result_def)
next
  case (Cons e es)
  let ?d = "wl_dev l"
  have i: "in_time l e" "\<And>l1. wifi_line_step l e = Some l1 \<Longrightarrow> inputs_ok wifi_line_step in_time l1 es" using Cons.prems(4) by auto
  have quiet: ?case if "wifi_line_step l e = Some l1" "rx_open (wl_dev l1)" "same_device ?d (wl_dev l1)"
      "wl_taken l1 = wl_taken l" "wl_rx l1 = wl_rx l" "pending (wl_dev l1) @ bytes_of es = pending ?d @ bytes_of (e # es)"
      "\<not> del \<longrightarrow> wl_user l1 = Reading_Thread \<and> awake l1" for l1
  proof -
    have "\<exists>l'. run_steps wifi_line_step l1 es = Some l' \<and> line_result del l1 (bytes_of es) l'"
      by (rule Cons.IH) (use that i(2) [OF that(1)] Cons.prems in \<open>auto simp: same_device_def\<close>)
    then show ?thesis using that(1) line_result_quiet [OF _ that(4,5,6)] by auto
  qed
  show ?case
  proof (cases e)
    case (Line_Bytes chs)
    then show ?thesis using line_irq_ok [OF Cons.prems(1,3), of chs None] i(1) Cons.prems(5) quiet by fastforce
  next
    case (Line_Overrun chs dr)
    then show ?thesis using line_irq_ok [OF Cons.prems(1,3), of chs "Some dr"] i(1) Cons.prems(5) quiet by fastforce
  next
    case Take_Sem
    then show ?thesis using Cons.prems(1,5) by (intro quiet [OF wifi_line_step.simps(3) [folded Take_Sem]]) (auto simp: awake_def same_device_def)
  next
    case Line_Reader_Deleted
    then show ?thesis using Cons.prems(1,5) by (intro quiet [OF wifi_line_step.simps(5) [folded Line_Reader_Deleted]]) (auto simp: same_device_def)
  next
    case Line_Reader_Created
    then show ?thesis using Cons.prems(1,5) by (intro quiet [OF wifi_line_step.simps(6) [folded Line_Reader_Created]]) (auto simp: same_device_def)
  next
    case Read_One
    show ?thesis
    proof (cases "wl_reading l")
      case False
      then show ?thesis using Read_One Cons.prems(1,5) by (intro quiet [of l]) (auto simp: same_device_def)
    next
      case True
      obtain s where s: "rt_serial_read [] 1 ?d = Some (take 1 (pending ?d), s)" "rx_open s" "same_device ?d s" "pending s = drop 1 (pending ?d)"
        using read_ok [OF Cons.prems(1), of "[]" 1] by blast
      have r: "rt_device_read [] 1 ?d = Some (take 1 (pending ?d), s)" using s(1) Cons.prems(2) by (simp add: rt_device_read_def)
      show ?thesis
      proof (cases "pending ?d")
        case Nil
        then show ?thesis using Read_One True r s Cons.prems(5)
          by (intro quiet [of "l\<lparr> wl_dev := s, wl_reading := False \<rparr>"]) (auto simp: awake_def)
      next
        case (Cons b q)
        let ?thread = "wl_user l = Reading_Thread"
        have "part del [b] (pending ?d @ bytes_of (e # es))" using Cons Read_One by simp
        then have "run_steps wifi_rx_isr (wl_rx l) [b] \<noteq> None" using Cons.prems(6) by blast
        then obtain w where w: "(if ?thread then wifi_rx_isr (wl_rx l) b else Some (wl_rx l)) = Some w" by (cases ?thread) auto
        define l1 where "l1 = l\<lparr> wl_dev := s, wl_rx := w, wl_taken := wl_taken l @ [(wl_user l, b)] \<rparr>"
        have step: "wifi_line_step l e = Some l1" using True r Cons w Read_One by (simp add: l1_def)
        have p: "part del bs (q @ bytes_of es) \<Longrightarrow> run_steps wifi_rx_isr w bs \<noteq> None" for bs
        proof -
          assume a: "part del bs (q @ bytes_of es)"
          have "part del (if ?thread then b # bs else bs) (pending ?d @ bytes_of (e # es))"
            using a Cons Read_One Cons.prems(5) by (cases del) auto
          then have "run_steps wifi_rx_isr (wl_rx l) (if ?thread then b # bs else bs) \<noteq> None" using Cons.prems(6) by blast
          then show ?thesis using w by (cases ?thread) auto
        qed
        have "\<exists>l'. run_steps wifi_line_step l1 es = Some l' \<and> line_result del l1 (bytes_of es) l'"
          by (rule Cons.IH) (use s Cons True i(2) [OF step] Cons.prems p Read_One in \<open>auto simp: l1_def same_device_def awake_def\<close>)
        then obtain l' d where l': "run_steps wifi_line_step l1 es = Some l'" "wl_taken l' = wl_taken l1 @ d"
          "q @ bytes_of es = map snd d @ pending (wl_dev l')" "run_steps wifi_rx_isr w (taken_by Reading_Thread d) = Some (wl_rx l')"
          "\<not> del \<longrightarrow> awake l' \<and> (\<forall>t \<in> set d. fst t = Reading_Thread)"
          using s(4) Cons by (auto simp: line_result_def l1_def)
        have "run_steps wifi_rx_isr (wl_rx l) (taken_by Reading_Thread ((wl_user l, b) # d)) = Some (wl_rx l')"
          using l'(4) w by (cases ?thread) auto
        then have "line_result del l (bytes_of (e # es)) l'"
          unfolding line_result_def using l' Cons Read_One Cons.prems(5)
          by (intro exI [of _ "(wl_user l, b) # d"]) (auto simp: l1_def)
        then show ?thesis using step l'(1) by auto
      qed
    qed
  qed
qed

text \<open>
  The reading thread is deleted between its take of the semaphore and its last read: nobody is told of the bytes that are
  still in the buffer, until the next interrupt.
\<close>

lemma deletion_leaves_bytes:
  assumes "wl_reading l" "wl_user l = Reading_Thread" "wl_sem l = 0"
  shows "\<exists>l'. run_steps wifi_line_step l [Line_Reader_Deleted, Take_Sem, Read_One, Line_Reader_Created, Take_Sem, Read_One] = Some l' \<and>
    pending (wl_dev l') = pending (wl_dev l) \<and> \<not> wl_reading l' \<and> wl_sem l' = 0"
  using assms by simp

section \<open>The line of the Modbus master\<close>

text \<open>
  The port opens the driver directly and sets the callback; \<open>old\<close> is what the caller's variable holds when there is no
  byte, which \<open>xMBMasterPortSerialGetByte\<close> does not tell.
\<close>

definition xMBMasterPortSerialInit :: "u8 list option \<Rightarrow> rt_serial_device \<Rightarrow> (rt_serial_device \<times> bool) option" where
  "xMBMasterPortSerialInit mem s = do {
     (s1, e) \<leftarrow> rt_serial_open mem True (RT_DEVICE_FLAG_RDWR OR RT_DEVICE_FLAG_INT_RX) s;
     Some (if e = RT_EOK then (s1\<lparr> rx_indicate := True \<rparr>, True) else (s1, False)) }"

definition xMBMasterPortSerialGetByte :: "u8 \<Rightarrow> rt_serial_device \<Rightarrow> (u8 \<times> rt_serial_device) option" where
  "xMBMasterPortSerialGetByte old s = do {
     (bs, s1) \<leftarrow> rt_serial_read [] 1 s;
     Some (case bs of [] \<Rightarrow> old | b # _ \<Rightarrow> b, s1) }"

definition serial_rx_ind :: "u8 \<Rightarrow> rt_serial_device \<times> mb_master \<Rightarrow> (rt_serial_device \<times> mb_master) option" where
  "serial_rx_ind old x = (case x of (s, m) \<Rightarrow>
     do {
       (b, s1) \<leftarrow> xMBMasterPortSerialGetByte old s;
       m1 \<leftarrow> xMBMasterRTUReceiveFSM m b;
       Some (s1, m1) })"

text \<open>An interrupt, one with an overrun, or another step of the master.\<close>

datatype port_event = Port_Rx "u8 list" | Port_Overrun "u8 list" "u8 option" | Port_Other master_event

fun port_step :: "u8 \<Rightarrow> rt_serial_device \<times> mb_master \<Rightarrow> port_event \<Rightarrow> (rt_serial_device \<times> mb_master) option" where
  "port_step old (s, m) (Port_Rx chs) = do {
     s1 \<leftarrow> USART_IRQHandler chs None s;
     (if indicated s1 \<noteq> indicated s then serial_rx_ind old (s1, m) else Some (s1, m)) }"
| "port_step old (s, m) (Port_Overrun chs dr) = do {
     s1 \<leftarrow> USART_IRQHandler chs (Some dr) s;
     (if indicated s1 \<noteq> indicated s then serial_rx_ind old (s1, m) else Some (s1, m)) }"
| "port_step old (s, m) (Port_Other e) = do { m1 \<leftarrow> master_step m e; Some (s, m1) }"

fun on_wire :: "master_event \<Rightarrow> port_event" where
  "on_wire (M_Rx_Byte b) = Port_Rx [b]"
| "on_wire e = Port_Other e"

definition running :: "mb_master \<Rightarrow> master_event \<Rightarrow> bool" where
  "running m e \<longleftrightarrow> m_eMBState m \<noteq> STATE_NOT_INITIALIZED"

text \<open>An interrupt hands the oldest byte on, whatever it brought.\<close>

lemma port_rx:
  assumes "rx_open s" "rx_indicate s" "chs \<noteq> []" "length (pending s @ chs) < unat (bufsz s)" "pending s @ chs = b # rest"
    "m_eMBState m \<noteq> STATE_NOT_INITIALIZED" "xMBMasterRTUReceiveFSM m b = Some m1"
  shows "\<exists>s1. port_step old (s, m) (Port_Rx chs) = Some (s1, m1) \<and> rx_open s1 \<and> same_device s s1 \<and> pending s1 = rest"
proof -
  obtain s1 where s1: "USART_IRQHandler chs None s = Some s1" "rx_open s1" "same_device s s1"
    "pending s1 = newest (unat (bufsz s) - 1) (pending s @ chs)" "indicated s1 \<noteq> indicated s"
    using isr_ok [OF assms(1), of chs None] assms(2,3) by auto
  have "length (pending s @ chs) \<le> unat (bufsz s) - 1" using assms(4) by simp
  then have p: "pending s1 = b # rest" using s1(4) assms(5) by (simp only: newest_all)
  obtain s2 where s2: "rt_serial_read [] 1 s1 = Some ([b], s2)" "rx_open s2" "same_device s1 s2" "pending s2 = rest"
    using read_ok [OF s1(2), of "[]" 1] p by auto
  have "port_step old (s, m) (Port_Rx chs) = Some (s2, m1)"
    using s1(1,5) s2(1) assms(6,7) by (simp add: serial_rx_ind_def xMBMasterPortSerialGetByte_def)
  then show ?thesis using s1(3) s2 by (auto simp: same_device_def)
qed

lemma port_run:
  assumes "rx_open s" "rx_indicate s" "pending s = []" "1 < unat (bufsz s)" "inputs_ok master_step running m es" "run_steps master_step m es = Some m'"
  shows "\<exists>s'. run_steps (port_step old) (s, m) (map on_wire es) = Some (s', m') \<and> pending s' = []"
  using assms
proof (induction es arbitrary: s m)
  case (Cons e es)
  obtain m1 where m1: "master_step m e = Some m1" "run_steps master_step m1 es = Some m'"
    using Cons.prems(6) by (auto simp: bind_eq_Some_conv)
  have run: "running m e" "inputs_ok master_step running m1 es" using Cons.prems(5) m1(1) by auto
  show ?case
  proof (cases "\<exists>b. e = M_Rx_Byte b")
    case True
    then obtain b where b: "e = M_Rx_Byte b" by blast
    have fsm: "xMBMasterRTUReceiveFSM m b = Some m1" "m_eMBState m \<noteq> STATE_NOT_INITIALIZED" using m1(1) run(1) b by (simp_all add: running_def)
    obtain s1 where s1: "port_step old (s, m) (Port_Rx [b]) = Some (s1, m1)" "rx_open s1" "same_device s s1" "pending s1 = []"
      using port_rx [OF Cons.prems(1,2), of "[b]" b "[]" m m1 old] Cons.prems(3,4) fsm by auto
    have "\<exists>s'. run_steps (port_step old) (s1, m1) (map on_wire es) = Some (s', m') \<and> pending s' = []"
      by (rule Cons.IH) (use s1 run m1(2) Cons.prems in \<open>auto simp: same_device_def\<close>)
    then show ?thesis using s1(1) b by simp
  next
    case False
    then have "on_wire e = Port_Other e" by (cases e) auto
    then show ?thesis using Cons.IH [OF Cons.prems(1-4) run(2) m1(2)] m1(1) by simp
  qed
qed simp

text \<open>Once an interrupt has brought two bytes, the master gets every byte one interrupt late.\<close>

lemma port_late:
  assumes "rx_open s" "rx_indicate s" "pending s = [a]" "2 < unat (bufsz s)"
    "inputs_ok master_step running m (map M_Rx_Byte (butlast (a # xs)))" "run_steps master_step m (map M_Rx_Byte (butlast (a # xs))) = Some m'"
  shows "\<exists>s'. run_steps (port_step old) (s, m) (map (\<lambda>x. Port_Rx [x]) xs) = Some (s', m') \<and> pending s' = [last (a # xs)]"
  using assms
proof (induction xs arbitrary: s m a)
  case (Cons x xs)
  obtain m1 where m1: "master_step m (M_Rx_Byte a) = Some m1" "run_steps master_step m1 (map M_Rx_Byte (butlast (x # xs))) = Some m'"
    using Cons.prems(6) by (auto simp: bind_eq_Some_conv)
  have run: "running m (M_Rx_Byte a)" "inputs_ok master_step running m1 (map M_Rx_Byte (butlast (x # xs)))"
    using Cons.prems(5) m1(1) by auto
  have fsm: "xMBMasterRTUReceiveFSM m a = Some m1" "m_eMBState m \<noteq> STATE_NOT_INITIALIZED" using m1(1) run(1) by (simp_all add: running_def)
  obtain s1 where s1: "port_step old (s, m) (Port_Rx [x]) = Some (s1, m1)" "rx_open s1" "same_device s s1" "pending s1 = [x]"
    using port_rx [OF Cons.prems(1,2), of "[x]" a "[x]" m m1 old] Cons.prems(3,4) fsm by auto
  have "\<exists>s'. run_steps (port_step old) (s1, m1) (map (\<lambda>x. Port_Rx [x]) xs) = Some (s', m') \<and> pending s' = [last (x # xs)]"
    by (rule Cons.IH) (use s1 run(2) m1(2) Cons.prems in \<open>auto simp: same_device_def\<close>)
  then show ?case using s1(1) by auto
qed simp

end
