(* ===== verification/Rt_Serial_Properties.thy ===== *)
theory Rt_Serial_Properties
  imports Mb_Master_Answer Rt_Serial_Lines
begin

text \<open>
  The lines of the control board: what arrives is what the clients get; opening and closing; and what can go wrong.
\<close>

section \<open>Opening\<close>

lemma has_or: "has a f \<Longrightarrow> has (a OR b) f"
proof -
  have "a AND f = (a AND f) AND ((a OR b) AND f)" by (rule bit_eqI) (auto simp: bit_and_iff bit_or_iff)
  then show "has a f \<Longrightarrow> has (a OR b) f" by (auto simp: has_def)
qed

lemma device_open_ok:
  assumes "port = 1 \<or> port = 2" "length mem = 64" "has oflag RT_DEVICE_FLAG_INT_RX"
    "rt_device_open (Some mem) tx oflag (rt_hw_usart_init port) = Some (s, RT_EOK)"
  shows "rx_open s" "pending s = []" "bufsz s = 64" "ref_count s = 1" "indicated s = []" "rx_indicate s = False"
proof -
  let ?s = "(rt_serial_init (rt_hw_usart_init port))\<lparr> dev_flag := dev_flag (rt_hw_usart_init port) OR RT_DEVICE_FLAG_ACTIVATED \<rparr>"
  have d: "dev_flag ?s = 0x113" "bufsz ?s = 64" "serial_rx ?s = No_Rx" "ref_count ?s = 0" "indicated ?s = []" "open_flag ?s = 0"
    "rx_indicate ?s = False" "\<not> has (dev_flag (rt_hw_usart_init port)) RT_DEVICE_FLAG_ACTIVATED"
    using assms(1) by (auto simp: rt_hw_usart_init_def rt_hw_serial_register_def blank_device_def rt_serial_init_def has_def)
  have n: "\<not> has (0x113 :: u16) RT_DEVICE_FLAG_STANDALONE" "\<not> has (0x113 :: u16) RT_DEVICE_FLAG_DMA_RX" by (simp_all add: has_def)
  have "rt_device_open (Some mem) tx oflag (rt_hw_usart_init port) =
      (do { (s2, e) \<leftarrow> rt_serial_open (Some mem) tx oflag ?s;
          (if e = RT_EOK
           then if ref_count s2 + 1 = 0 then None
                else Some (s2\<lparr> open_flag := oflag OR RT_DEVICE_OFLAG_OPEN, ref_count := ref_count s2 + 1 \<rparr>, e)
           else Some (s2, e)) })"
    unfolding rt_device_open_def Let_def using d(1,8) n(1) by simp
  then obtain s2 where s2: "rt_serial_open (Some mem) tx oflag ?s = Some (s2, RT_EOK)"
    "s = s2\<lparr> open_flag := oflag OR RT_DEVICE_OFLAG_OPEN, ref_count := ref_count s2 + 1 \<rparr>"
    using assms(4) by (cases "rt_serial_open (Some mem) tx oflag ?s") (auto split: if_splits prod.splits)
  note o = opened_ok [OF d(3) assms(3) _ s2(1)]
  have l: "length mem = unat (bufsz ?s)" "\<not> has (dev_flag ?s) RT_DEVICE_FLAG_DMA_RX" unfolding d(1,2) using assms(2) n(2) by simp_all
  have "has (oflag OR 8) RT_DEVICE_FLAG_INT_RX" using assms(3) by (rule has_or)
  then show "rx_open s" using o(1) [OF l] s2(2) by (simp add: rx_open_def)
  show "pending s = []" using o(2) [OF l] pending_same [of s s2] s2(2) by simp
  show "bufsz s = 64" "ref_count s = 1" "indicated s = []" "rx_indicate s = False"
    using o(3,4) [OF l] s2(2) d(2,4,5,7) by (simp_all add: same_device_def)
qed


lemma wifi_opens: "length mem = 64 \<Longrightarrow> uart_wifi_set_device (Some mem) (rt_hw_usart_init 1) \<noteq> None"
  by (simp add: uart_wifi_set_device_def rt_device_open_def rt_serial_open_def refused_def has_def rt_hw_usart_init_def
      rt_hw_serial_register_def rt_serial_init_def blank_device_def open_rx_def open_tx_def stm32_control_def buf_puts_eq)

lemma master_port_open:
  assumes "length mem = 64" "xMBMasterPortSerialInit (Some mem) (rt_hw_usart_init 2) = Some (s, True)"
  shows "rx_open s" "pending s = []" "bufsz s = 64" "rx_indicate s" "serial_rx s \<noteq> No_Rx"
proof -
  let ?o = "RT_DEVICE_FLAG_RDWR OR RT_DEVICE_FLAG_INT_RX" and ?s = "rt_hw_usart_init 2"
  have o: "has ?o RT_DEVICE_FLAG_INT_RX" by (simp add: has_def)
  have d: "serial_rx ?s = No_Rx" "length mem = unat (bufsz ?s)" "\<not> has (dev_flag ?s) RT_DEVICE_FLAG_DMA_RX" "bufsz ?s = 64"
    using assms(1) by (simp_all add: rt_hw_usart_init_def rt_hw_serial_register_def blank_device_def has_def)
  obtain s1 e where s1: "rt_serial_open (Some mem) True ?o ?s = Some (s1, e)"
    "(s, True) = (if e = RT_EOK then (s1\<lparr> rx_indicate := True \<rparr>, True) else (s1, False))"
    using assms(2) by (auto simp: xMBMasterPortSerialInit_def bind_eq_Some_conv)
  then have s: "s = s1\<lparr> rx_indicate := True \<rparr>" "rt_serial_open (Some mem) True ?o ?s = Some (s1, RT_EOK)" by (simp_all split: if_splits)
  note r = opened_ok [OF d(1) o d(2) s(2) d(3)]
  show "rx_open s" "pending s = []" "bufsz s = 64" "rx_indicate s" "serial_rx s \<noteq> No_Rx"
    using r d(4) pending_same [of s s1] unfolding s(1) by (simp_all add: rx_open_def same_device_def)
qed

section \<open>What goes wrong\<close>

text \<open>The fourth port has no buffer, since its configuration is stored in the first one's device: opening it clears foreign memory.\<close>

lemma usart4_has_no_buffer:
  "bufsz (rt_hw_usart_init 4) = 0" "rt_device_open (Some []) tx 0x103 (rt_hw_usart_init 4) = None"
  by (simp_all add: rt_hw_usart_init_def rt_hw_serial_register_def blank_device_def rt_device_open_def rt_serial_open_def refused_def
      has_def rt_serial_init_def open_rx_def buf_puts_None)

text \<open>
  A second open of a driver takes the interrupt mode from the open flags: the next interrupt fails its assertion, and
  reads take whatever the register holds, \<open>0xff\<close> if it holds nothing.
\<close>

lemma second_open_ends_reception:
  assumes "length mem = 64" "xMBMasterPortSerialInit (Some mem) (rt_hw_usart_init 2) = Some (s, True)"
    "rt_serial_open mem2 True 0x103 s = Some (s2, RT_EOK)"
  shows "rt_hw_serial_isr chs s2 = None" "rt_serial_read [None] 1 s2 = Some ([0xff], s2)"
proof -
  have "serial_rx s \<noteq> No_Rx" by (rule master_port_open(5) [OF assms(1,2)])
  then have "open_flag s2 = 3"
    using assms(3) by (auto simp: rt_serial_open_def open_rx_def open_tx_def has_def bind_eq_Some_conv split: if_splits)
  then show "rt_hw_serial_isr chs s2 = None" "rt_serial_read [None] 1 s2 = Some ([0xff], s2)"
    by (simp_all add: rt_hw_serial_isr_def rt_serial_read_def has_def split: serial_rx.splits)
qed

text \<open>A device that sends by interrupts cannot be closed, nor one that receives by DMA alone: the wrong pointer is checked.\<close>

lemma close_checks_wrong_pointer:
  "\<exists>s. rt_device_open (Some (replicate 64 0)) True 0x503 (rt_hw_serial_register 0x503 (blank_device\<lparr> bufsz := 64 \<rparr>)) = Some (s, RT_EOK) \<and>
     rt_device_close s = None"
  "\<exists>s. rt_device_open (Some []) True 0x203 (rt_hw_serial_register 0x203 (blank_device\<lparr> bufsz := 64 \<rparr>)) = Some (s, RT_EOK) \<and>
     rt_device_close s = None"
  by (simp_all add: rt_hw_serial_register_def blank_device_def rt_device_open_def rt_serial_open_def refused_def buf_puts_eq
      has_def rt_serial_init_def open_rx_def open_tx_def stm32_control_def rt_device_close_def rt_serial_close_def close_rx_def close_tx_def)

text \<open>An interrupt that brings two bytes to the master leaves one behind, for good.\<close>

lemma two_bytes_leave_one:
  assumes "length mem = 64" "xMBMasterPortSerialInit (Some mem) (rt_hw_usart_init 2) = Some (s, True)" "m_eMBState m \<noteq> STATE_NOT_INITIALIZED"
    "xMBMasterRTUReceiveFSM m a = Some m1" "inputs_ok master_step running m1 (map M_Rx_Byte (butlast (b # xs)))"
    "run_steps master_step m1 (map M_Rx_Byte (butlast (b # xs))) = Some m'"
  shows "\<exists>s'. run_steps (port_step old) (s, m) (Port_Rx [a, b] # map (\<lambda>x. Port_Rx [x]) xs) = Some (s', m') \<and> pending s' = [last (b # xs)]"
proof -
  note o = master_port_open [OF assms(1,2)]
  obtain s1 where s1: "port_step old (s, m) (Port_Rx [a, b]) = Some (s1, m1)" "rx_open s1" "same_device s s1" "pending s1 = [b]"
    using port_rx [OF o(1,4), of "[a, b]" a "[b]" m m1 old] o(2,3) assms(3,4) by auto
  have "\<exists>s'. run_steps (port_step old) (s1, m1) (map (\<lambda>x. Port_Rx [x]) xs) = Some (s', m') \<and> pending s' = [last (b # xs)]"
    by (rule port_late [OF s1(2)]) (use s1 o assms(5,6) in \<open>auto simp: same_device_def\<close>)
  then show ?thesis using s1(1) by auto
qed

section \<open>Properties\<close>

text \<open>
  C38: After a port has been opened for interrupt reception, the driver is a queue of 63 bytes: whatever the interrupts
  bring and whenever somebody reads, the reads return the bytes in the order in which they came, and when the buffer is
  full the oldest ones are given up. (A byte that the handler throws away after an overrun was never in the queue.)
\<close>

theorem serial_line_buffered:
  assumes "port = 1 \<or> port = 2" "length mem = 64" "has oflag RT_DEVICE_FLAG_INT_RX"
    "rt_device_open (Some mem) tx oflag (rt_hw_usart_init port) = Some (s, RT_EOK)"
  shows "\<exists>s'. run_steps serial_step (s, []) es = Some (s', snd (foldl (queue_step 63) ([], []) es))"
proof -
  note o = device_open_ok [OF assms]
  show ?thesis using serial_run [OF o(1), of "[]" es] o(2-4) by auto
qed


text \<open>
  C40: The driver under the Modbus master is transparent: if every interrupt brings one byte, the master on the port
  does what the master does that is given the bytes directly, and the buffer is empty after each of them.
\<close>

theorem master_line_transparent:
  assumes "length mem = 64" "xMBMasterPortSerialInit (Some mem) (rt_hw_usart_init 2) = Some (s, True)"
    "inputs_ok master_step running m es" "run_steps master_step m es = Some m'"
  shows "\<exists>s'. run_steps (port_step old) (s, m) (map on_wire es) = Some (s', m') \<and> pending s' = []"
proof -
  note o = master_port_open [OF assms(1,2)]
  show ?thesis by (rule port_run [OF o(1,4,2) _ assms(3,4)]) (simp add: o(3))
qed

section \<open>Witnesses\<close>


theorem serial_line_buffered_witness:
  "\<exists>s s'. rt_device_open (Some (replicate 64 0)) True 0x103 (rt_hw_usart_init 1) = Some (s, RT_EOK) \<and>
     run_steps serial_step (s, []) [Rx_Ready [1, 2], Read_Bytes 1, Rx_Ready [3], Read_Bytes 9] = Some (s', [1, 2, 3])"
proof -
  have "map_option snd (rt_device_open (Some (replicate 64 0)) True 0x103 (rt_hw_usart_init 1)) = Some RT_EOK" by code_simp
  then obtain s where s: "rt_device_open (Some (replicate 64 0)) True 0x103 (rt_hw_usart_init 1) = Some (s, RT_EOK)" by auto
  have o: "has 0x103 RT_DEVICE_FLAG_INT_RX" by (simp add: has_def)
  show ?thesis
    using serial_line_buffered [OF _ _ o s, of "[Rx_Ready [1, 2], Read_Bytes 1, Rx_Ready [3], Read_Bytes 9]"] s by simp
qed







theorem master_line_transparent_witness:
  "\<exists>s s' m'. xMBMasterPortSerialInit (Some (replicate 64 0)) (rt_hw_usart_init 2) = Some (s, True) \<and>
     run_steps (port_step 0) (s, master1) [Port_Rx [9], Port_Rx [9]] = Some (s', m') \<and> run_steps master_step master1 [M_Rx_Byte 9, M_Rx_Byte 9] = Some m'"
proof -
  have "map_option snd (xMBMasterPortSerialInit (Some (replicate 64 0)) (rt_hw_usart_init 2)) = Some True" by code_simp
  then obtain s where s: "xMBMasterPortSerialInit (Some (replicate 64 0)) (rt_hw_usart_init 2) = Some (s, True)" by auto
  have two: "inputs_ok master_step running master1 [M_Rx_Byte 9, M_Rx_Byte 9] \<and>
      (\<exists>m'. run_steps master_step master1 [M_Rx_Byte 9, M_Rx_Byte 9] = Some m')"
    by (simp add: running_def master1_def mb_master0_def xMBMasterRTUReceiveFSM_def assert_param_def vMBMasterPortTimersDisable_def
        vMBMasterPortTimersT35Enable_def M_SER_PDU_SIZE_MAX_def)
  then have i: "inputs_ok master_step running master1 [M_Rx_Byte 9, M_Rx_Byte 9]" by blast
  obtain m' where m': "run_steps master_step master1 [M_Rx_Byte 9, M_Rx_Byte 9] = Some m'" using two by blast
  show ?thesis using master_line_transparent [OF _ s i m', of 0] s m' by auto
qed

end
