(* ===== verification/Mb_Master_Hazards.thy ===== *)
theory Mb_Master_Hazards
  imports Mb_Master_Answer
begin

text \<open>
  What the Modbus master does not survive, and under which conditions it survives everything: noise
  between two requests, a request before the first silence, requests that are too long, and the
  invariant over all other runs.
\<close>

section \<open>Noise between requests\<close>

text \<open>After a frame nobody asked for: its error waits for a requester, and the resource is free twice.\<close>

definition noisy :: "mb_master \<Rightarrow> bool" where
  "noisy s \<longleftrightarrow> m_eMBState s = STATE_ENABLED \<and> m_eRcvState s = STATE_M_RX_IDLE \<and> m_eSndState s = STATE_M_TX_IDLE \<and>
     \<not> m_timer_on s \<and> \<not> trans_start s \<and> xMasterOsEvent s = EV_MASTER_ERROR_RECEIVE_DATA \<and> xMasterRunRes s = 2 \<and>
     waiting s = Free \<and> mb_switch_flag s = 0 \<and> length (ucMasterRTUSndBuf s) = 253"

lemma m_rx_got_timer:
  assumes "idle s"
  shows "master_step (m_rx_got s bs) M_Timer_Expires = Some (replied s bs)"
  using assms by (simp add: idle_def m_rx_got_def replied_def xMBMasterRTUTimerExpired_def master_port Let_def)

lemma noise_heard:
  assumes "idle s" "bs \<noteq> []" "length bs < 4"
  shows "\<exists>t. run_steps master_step s (map M_Rx_Byte bs @ [M_Timer_Expires, M_Poll_Runs j1, M_Poll_Runs j2]) = Some t \<and>
    noisy t \<and> replies t = replies s \<and> line_out t = line_out s"
proof -
  define r where "r = (replied s bs)\<lparr> xMasterOsEvent := 0 \<rparr>"
  have rx: "run_steps master_step s (map M_Rx_Byte bs) = Some (m_rx_got s bs)"
    using assms master_rx.rx_frame [of s bs] by (simp add: m_rx_steps idle_def m_rx_ready_def)
  have u: "unat (usMasterRcvBufferPos r) = length bs"
    using unat_small_u16 [of "length bs"] assms(3) by (simp add: r_def replied_def)
  have "length (ucMasterRTURcvBuf r) = 256" using assms by (simp add: r_def replied_def idle_def)
  with u assms(3) have "eMBMasterRTUReceive r = Some (Inl MB_EIO)" by (subst eMBMasterRTUReceive_eq) auto
  then have "master_received r = Some (master_error EV_ERROR_RECEIVE_DATA r)" by (simp add: master_received_def)
  moreover have en: "m_eMBState (replied s bs) = STATE_ENABLED" "xMasterOsEvent (replied s bs) = EV_MASTER_FRAME_RECEIVED"
    using assms(1) by (simp_all add: idle_def replied_def)
  ultimately have p1: "master_step (replied s bs) (M_Poll_Runs j1) = Some (master_error EV_ERROR_RECEIVE_DATA r)"
    using poll_one(2) [OF en r_def refl, of j1] by (simp del: master_step.simps)
  define e where "e = master_error EV_ERROR_RECEIVE_DATA r"
  have ee: "m_eMBState e = STATE_ENABLED" "xMasterOsEvent e = EV_MASTER_ERROR_PROCESS"
    using en by (simp_all add: e_def master_error_def xMBMasterPortEventPost_def event_flags_send_def r_def)
  define t where "t = master_error_process (e\<lparr> xMasterOsEvent := 0 \<rparr>)"
  have p2: "master_step e (M_Poll_Runs j2) = Some t"
    using poll_one(5) [OF ee refl refl, of j2] by (simp add: t_def del: master_step.simps)
  have "noisy t \<and> replies t = replies s \<and> line_out t = line_out s"
    using assms(1)
    by (simp add: t_def master_error_process_def e_def master_error_def r_def replied_def noisy_def idle_def
        vMBMasterRunResRelease_def sem_count_release_def vMBMasterErrorCB_def xMBMasterPortEventPost_def event_flags_send_def Let_def)
  moreover have "run_steps master_step (replied s bs) [M_Poll_Runs j1, M_Poll_Runs j2] = Some t"
    by (simp only: run_steps.simps p1 e_def [symmetric] p2 bind.simps)
  then have "run_steps master_step s (map M_Rx_Byte bs @ [M_Timer_Expires, M_Poll_Runs j1, M_Poll_Runs j2]) = Some t"
    unfolding run_steps_append rx by (simp only: bind.simps run_steps.simps m_rx_got_timer [OF assms(1)])
  ultimately show ?thesis by blast
qed

text \<open>The next requester gets that error at once, with its request still to be sent.\<close>

definition ordered :: "mb_master \<Rightarrow> u8 \<Rightarrow> u8 list \<Rightarrow> bool" where
  "ordered s d pdu \<longleftrightarrow> m_eMBState s = STATE_ENABLED \<and> xMasterOsEvent s = EV_MASTER_FRAME_SENT \<and>
     m_eRcvState s = STATE_M_RX_IDLE \<and> mb_switch_flag s = 0 \<and> ucMBMasterDestAddress s = d \<and>
     usMasterSendPDULength s = word_of_nat (length pdu) \<and> length (ucMasterRTUSndBuf s) = 253 \<and>
     take (length pdu) (drop 1 (ucMasterRTUSndBuf s)) = pdu"

lemma request_ordered:
  assumes "length (ucMasterRTUSndBuf s) = 253" "waiting s = Free" "xMasterRunRes s \<noteq> 0" "request_fits req"
    "request_legal req" "unat (request_dest req) \<le> 16"
  shows "master_step s (M_Request req) = Some (s\<lparr> xMasterRunRes := xMasterRunRes s - 1,
      ucMBMasterDestAddress := request_dest req,
      ucMasterRTUSndBuf := take 1 (ucMasterRTUSndBuf s) @ request_pdu req @ drop (Suc (length (request_pdu req))) (ucMasterRTUSndBuf s),
      usMasterSendPDULength := word_of_nat (length (request_pdu req)),
      xMasterOsEvent := xMasterOsEvent s OR EV_MASTER_FRAME_SENT, waiting := Waits_Reply \<rparr>)"
  using assms buf_puts_eq [of 1 "request_pdu req" "ucMasterRTUSndBuf s"] request_pdu_length [OF assms(4)]
  by (simp add: run_request_pdu master_request_def MB_MASTER_TOTAL_SLAVE_NUM_def not_less master_port)

lemma stale_result:
  assumes "noisy s" "request_fits req" "request_legal req" "unat (request_dest req) \<le> 16"
  shows "\<exists>t. run_steps master_step s [M_Request req, M_Requester_Runs] = Some t \<and>
    ordered t (request_dest req) (request_pdu req) \<and> waiting t = Free \<and> xMasterRunRes t = 1 \<and>
    replies t = replies s @ [MB_MRE_REV_DATA] \<and> line_out t = line_out s"
proof -
  define u where "u = s\<lparr> xMasterRunRes := 1, ucMBMasterDestAddress := request_dest req,
      ucMasterRTUSndBuf := take 1 (ucMasterRTUSndBuf s) @ request_pdu req @ drop (Suc (length (request_pdu req))) (ucMasterRTUSndBuf s),
      usMasterSendPDULength := word_of_nat (length (request_pdu req)),
      xMasterOsEvent := EV_MASTER_ERROR_RECEIVE_DATA OR EV_MASTER_FRAME_SENT, waiting := Waits_Reply \<rparr>"
  have p: "master_step s (M_Request req) = Some u"
    using request_ordered [of s req] assms by (simp add: noisy_def u_def)
  have l: "length (request_pdu req) \<le> 250" using request_pdu_length [OF assms(2)] by simp
  define t where "t = u\<lparr> xMasterOsEvent := EV_MASTER_FRAME_SENT, replies := replies s @ [MB_MRE_REV_DATA], waiting := Free \<rparr>"
  have q: "requester_runs u = t"
    using assms(1) by (simp add: requester_runs_def eMBMasterWaitRequestFinish_def rt_event_recv_or_def u_def t_def
        master_events reply_def noisy_def)
  have "ordered t (request_dest req) (request_pdu req)"
    using assms(1) l by (simp add: ordered_def t_def u_def noisy_def min_def)
  moreover have "run_steps master_step s [M_Request req, M_Requester_Runs] = Some t"
    by (simp only: run_steps.simps p bind.simps master_step.simps(7) q)
  ultimately show ?thesis by (auto simp: t_def u_def)
qed

text \<open>
  A second request while the first waits for its answer: it is sent with the respond timer running,
  and the timer fails the assert of \<open>xMBMasterRTUTimerExpired\<close>.
\<close>

lemma ordered_sends:
  assumes "ordered s d pdu" "unat d \<le> 16" "length pdu \<le> 250"
  shows "master_step s (M_Poll_Runs j) = Some (sending s pdu)"
  by (rule poll_sends) (use assms in \<open>simp_all add: ordered_def\<close>)

lemma overlap_hangs:
  assumes "ordered s d pdu" "unat d \<le> 16" "length pdu \<le> 250" "waiting s = Free" "xMasterRunRes s \<noteq> 0"
    "request_fits req" "request_legal req" "unat (request_dest req) \<le> 16"
  shows "run_steps master_step s ([M_Poll_Runs j] @ replicate (length pdu + 4) M_Tx_Ready @
    [M_Request req, M_Poll_Runs j', M_Timer_Expires]) = None"
proof -
  have st: "m_eRcvState s = STATE_M_RX_IDLE" "ucMBMasterDestAddress s = d" "m_eMBState s = STATE_ENABLED"
    "mb_switch_flag s = 0" "length (ucMasterRTUSndBuf s) = 253" using assms(1) by (simp_all add: ordered_def)
  define v where "v = m_tx_finish (m_tx_emitted (rtu_seal (d # pdu)) (sending s pdu))"
  have tx: "run_steps master_step (sending s pdu) (replicate (length pdu + 4) M_Tx_Ready) = Some v"
    using sending_sends [OF st(1) assms(3)] by (simp add: v_def st(2))
  have v: "m_eRcvState v = STATE_M_RX_IDLE" "m_eMBState v = STATE_ENABLED" "mb_switch_flag v = 0"
    "length (ucMasterRTUSndBuf v) = 253" "waiting v = Free" "xMasterRunRes v \<noteq> 0" "xMasterOsEvent v = 0" "m_timer_on v"
    using st assms(3-5) by (simp_all add: v_def m_tx_finish_def m_tx_emitted_def sending_def rtu_seal_def)
  obtain w where w: "master_step v (M_Request req) = Some w" "ordered w (request_dest req) (request_pdu req)" "m_timer_on w"
    using request_ordered [OF v(4-6) assms(6-8)] request_pdu_length [OF assms(6)] v
    by (auto simp: ordered_def min_def)
  have l: "length (request_pdu req) \<le> 250" using request_pdu_length [OF assms(6)] by simp
  have "master_step (sending w (request_pdu req)) M_Timer_Expires = None"
    using w(2,3) by (simp add: ordered_def sending_def xMBMasterRTUTimerExpired_def Let_def)
  then show ?thesis
    using ordered_sends [OF assms(1-3), of j] tx w(1) ordered_sends [OF w(2) assms(8) l, of j']
    by (simp add: run_steps_append del: master_step.simps)
qed

section \<open>Properties\<close>

text \<open>
  C20: Noise between two requests breaks the master. After one to three stray bytes on an idle line
  the next request returns \<open>MB_MRE_REV_DATA\<close> at once, before a byte of it was sent; and when the
  requester, told so, makes another request while the first is waiting for its answer, the respond
  timer fails an assert, in which the firmware stays for ever.
\<close>

theorem noise_hangs_master:
  assumes "idle s" "bs \<noteq> []" "length bs < 4"
    and "request_fits req1" "request_legal req1" "unat (request_dest req1) \<le> 16"
    and "request_fits req2" "request_legal req2" "unat (request_dest req2) \<le> 16"
    and es_def: "es = map M_Rx_Byte bs @ [M_Timer_Expires, M_Poll_Runs j1, M_Poll_Runs j2, M_Request req1, M_Requester_Runs]"
  shows "(\<exists>t. run_steps master_step s es = Some t \<and> replies t = replies s @ [MB_MRE_REV_DATA] \<and> line_out t = line_out s) \<and>
    run_steps master_step s (es @ [M_Poll_Runs j3] @ replicate (length (request_pdu req1) + 4) M_Tx_Ready @
      [M_Request req2, M_Poll_Runs j4, M_Timer_Expires]) = None"
proof -
  obtain t where t: "run_steps master_step s (map M_Rx_Byte bs @ [M_Timer_Expires, M_Poll_Runs j1, M_Poll_Runs j2]) = Some t"
    "noisy t" "replies t = replies s" "line_out t = line_out s"
    using noise_heard [OF assms(1-3), of j1 j2] by blast
  obtain u where u: "run_steps master_step t [M_Request req1, M_Requester_Runs] = Some u"
    "ordered u (request_dest req1) (request_pdu req1)" "waiting u = Free" "xMasterRunRes u = 1"
    "replies u = replies t @ [MB_MRE_REV_DATA]" "line_out u = line_out t"
    using stale_result [OF t(2) assms(4-6)] by blast
  have es: "es = (map M_Rx_Byte bs @ [M_Timer_Expires, M_Poll_Runs j1, M_Poll_Runs j2]) @ [M_Request req1, M_Requester_Runs]"
    by (simp add: es_def)
  have r: "run_steps master_step s es = Some u"
    unfolding es run_steps_append [of _ _ "map M_Rx_Byte bs @ [M_Timer_Expires, M_Poll_Runs j1, M_Poll_Runs j2]"] t(1)
    using u(1) by simp
  have l: "length (request_pdu req1) \<le> 250" using request_pdu_length [OF assms(4)] by simp
  have "run_steps master_step s (es @ [M_Poll_Runs j3] @ replicate (length (request_pdu req1) + 4) M_Tx_Ready @
      [M_Request req2, M_Poll_Runs j4, M_Timer_Expires]) = None"
    using overlap_hangs [OF u(2) assms(6) l u(3) _ assms(7-9), of j3 j4] u(4)
    unfolding run_steps_append [of _ _ es] r by simp
  with r u(5,6) t(3,4) show ?thesis by auto
qed

theorem noise_hangs_master_witness:
  "(\<exists>t. run_steps master_step master1 (map M_Rx_Byte [0xFF] @ [M_Timer_Expires, M_Poll_Runs 0, M_Poll_Runs 0,
      M_Request (Read_Holding 1 0 1), M_Requester_Runs]) = Some t \<and>
    replies t = replies master1 @ [MB_MRE_REV_DATA] \<and> line_out t = line_out master1) \<and>
   run_steps master_step master1 ((map M_Rx_Byte [0xFF] @ [M_Timer_Expires, M_Poll_Runs 0, M_Poll_Runs 0,
      M_Request (Read_Holding 1 0 1), M_Requester_Runs]) @ [M_Poll_Runs 0] @
      replicate (length (request_pdu (Read_Holding 1 0 1)) + 4) M_Tx_Ready @
      [M_Request (Read_Input 2 0 1), M_Poll_Runs 0, M_Timer_Expires]) = None"
  by (rule noise_hangs_master [OF master1_idle _ _ _ _ _ _ _ _ refl]) simp_all

section \<open>A request before the first silence\<close>

text \<open>The master just enabled, and the states in which a request made then is lost.\<close>

definition starting :: "mb_master \<Rightarrow> bool" where
  "starting s \<longleftrightarrow> m_eMBState s = STATE_ENABLED \<and> m_eRcvState s = STATE_M_RX_INIT \<and> m_eSndState s = STATE_M_TX_IDLE \<and>
     eMasterCurTimerMode s = MB_TMODE_T35 \<and> \<not> trans_start s \<and> xMasterOsEvent s = 0 \<and> xMasterRunRes s = 1 \<and>
     waiting s = Free \<and> mb_switch_flag s = 0 \<and> length (ucMasterRTUSndBuf s) = 253 \<and>
     length (rs485_send_buf_not_modbus s) = 50 \<and> ucMasterRTURcvBuf s \<noteq> []"

definition lost :: "mb_master \<Rightarrow> bool" where
  "lost s \<longleftrightarrow> m_eMBState s = STATE_ENABLED \<and> (m_eRcvState s = STATE_M_RX_INIT \<or> m_eRcvState s = STATE_M_RX_IDLE) \<and>
     m_eSndState s = STATE_M_TX_IDLE \<and> eMasterCurTimerMode s = MB_TMODE_T35 \<and> \<not> trans_start s \<and>
     (xMasterOsEvent s = 0 \<or> xMasterOsEvent s = EV_MASTER_READY) \<and> waiting s = Waits_Reply \<and> xMasterRunRes s = 0 \<and>
     length (rs485_send_buf_not_modbus s) = 50 \<and> ucMasterRTURcvBuf s \<noteq> []"

text \<open>The thread of the DC motor has messages of at most 50 bytes (it has 5).\<close>

fun second_fits :: "master_event \<Rightarrow> bool" where
  "second_fits (M_Second_Prepares bs) \<longleftrightarrow> length bs \<le> 50"
| "second_fits _ \<longleftrightarrow> True"

lemma lost_step:
  assumes "lost s" "\<forall>b. e \<noteq> M_Rx_Byte b" "second_fits e"
  shows "\<exists>t. master_step s e = Some t \<and> lost t \<and> line_out t = line_out s \<and> replies t = replies s"
proof (cases e)
  case (M_Rx_Byte b)
  with assms(2) show ?thesis by simp
next
  case M_Timer_Expires
  with assms(1) show ?thesis
    by (auto simp: lost_def xMBMasterRTUTimerExpired_def master_port Let_def master_events)
next
  case (M_Poll_Runs j)
  have z: "xMBMasterPortEventGet j s = None" if "xMasterOsEvent s = 0"
    using that by (simp add: xMBMasterPortEventGet_def rt_event_recv_or_def)
  show ?thesis
  proof (cases "xMasterOsEvent s = 0")
    case True
    then show ?thesis using M_Poll_Runs assms(1) z by (simp add: lost_def eMBMasterPoll_def)
  next
    case False
    then have ev: "xMasterOsEvent s = EV_MASTER_READY" using assms(1) by (auto simp: lost_def)
    have en: "m_eMBState s = STATE_ENABLED" using assms(1) by (simp add: lost_def)
    show ?thesis using poll_one(1) [OF en ev refl refl, of j] M_Poll_Runs assms(1)
      by (auto simp: lost_def simp del: master_step.simps)
  qed
next
  case M_Requester_Runs
  have "eMBMasterWaitRequestFinish s = None"
    using assms(1) by (auto simp: lost_def eMBMasterWaitRequestFinish_def rt_event_recv_or_def master_events)
  then show ?thesis using M_Requester_Runs assms(1) by (simp add: requester_runs_def)
next
  case (M_Second_Prepares bs)
  then show ?thesis using assms(1,3) buf_puts_eq [of 0 bs "rs485_send_buf_not_modbus s"] by (simp add: lost_def buf_set_def)
next
  case (M_Second_Starts n)
  then show ?thesis using assms(1) by (simp add: lost_def second_starts_def)
next
  case M_Second_Runs
  have "eMBMasterWaitRequestFinish s = None"
    using assms(1) by (auto simp: lost_def eMBMasterWaitRequestFinish_def rt_event_recv_or_def master_events)
  then show ?thesis using M_Second_Runs assms(1) by (simp add: second_runs_def)
qed (use assms in \<open>auto simp: lost_def\<close>)

lemma lost_run:
  "lost s \<Longrightarrow> \<forall>b. M_Rx_Byte b \<notin> set es \<Longrightarrow> list_all second_fits es \<Longrightarrow>
     \<exists>t. run_steps master_step s es = Some t \<and> lost t \<and> line_out t = line_out s \<and> replies t = replies s"
proof (induction es arbitrary: s)
  case Nil
  then show ?case by simp
next
  case (Cons e es)
  then obtain t where t: "master_step s e = Some t" "lost t" "line_out t = line_out s" "replies t = replies s"
    using lost_step [of s e] by auto
  with Cons.IH [of t] Cons.prems show ?case by auto
qed

text \<open>
  C21: A request made before the line was silent once is lost: it is accepted and its poll is run,
  but nothing is sent and no error is reported, so the requester waits for ever, whatever the timer,
  the threads, the thread of the DC motor included (its messages fit the shared buffer), and further polls
  do, as long as no byte arrives: a stray byte would end the wait with an error.
\<close>

theorem early_request_never_returns:
  assumes "starting s" "request_fits req" "request_legal req" "unat (request_dest req) \<le> 16"
    and "\<forall>b. M_Rx_Byte b \<notin> set es" "list_all second_fits es"
  shows "\<exists>t. run_steps master_step s ([M_Request req, M_Poll_Runs j] @ es) = Some t \<and>
    waiting t = Waits_Reply \<and> line_out t = line_out s \<and> replies t = replies s"
proof -
  have sb: "length (ucMasterRTUSndBuf s) = 253" "waiting s = Free" "xMasterRunRes s \<noteq> 0"
    using assms(1) by (simp_all add: starting_def)
  obtain u where u: "master_step s (M_Request req) = Some u" "m_eMBState u = STATE_ENABLED"
    "xMasterOsEvent u = EV_MASTER_FRAME_SENT" "m_eRcvState u = STATE_M_RX_INIT" "m_eSndState u = STATE_M_TX_IDLE"
    "eMasterCurTimerMode u = MB_TMODE_T35" "\<not> trans_start u" "waiting u = Waits_Reply" "mb_switch_flag u = 0"
    "ucMBMasterDestAddress u = request_dest req" "line_out u = line_out s" "replies u = replies s"
    "xMasterRunRes u = 0" "length (rs485_send_buf_not_modbus u) = 50" "ucMasterRTURcvBuf u \<noteq> []"
    using request_ordered [OF sb assms(2-4)] assms(1) by (auto simp: starting_def)
  define v where "v = u\<lparr> xMasterOsEvent := 0, m_ucMBFrame := Some Snd_PDU \<rparr>"
  have p: "master_step u (M_Poll_Runs j) = Some v"
    using poll_one(4) [OF u(2,3) refl refl, of j] u(4,9,10) assms(4)
    by (simp add: master_sent_def eMBMasterRTUSend_def MB_MASTER_TOTAL_SLAVE_NUM_def Let_def v_def del: master_step.simps)
  have "lost v" using u by (simp add: lost_def v_def)
  from lost_run [OF this assms(5,6)] obtain t where
    t: "run_steps master_step v es = Some t" "lost t" "line_out t = line_out v" "replies t = replies v" by blast
  have "run_steps master_step s ([M_Request req, M_Poll_Runs j] @ es) = Some t"
    by (simp only: append_Cons append_Nil run_steps.simps u(1) p t(1) bind.simps)
  with t u(11,12) show ?thesis by (auto simp: v_def lost_def)
qed

theorem early_request_never_returns_witness:
  "\<exists>t. run_steps master_step (master1\<lparr> m_eRcvState := STATE_M_RX_INIT, m_timer_on := True \<rparr>)
      ([M_Request (Read_Holding 1 0 1), M_Poll_Runs 0] @
       [M_Timer_Expires, M_Second_Prepares [0xBC, 7, 1, 2, 0xC6], M_Second_Starts 5, M_Poll_Runs 0, M_Tx_Ready, M_Requester_Runs, M_Poll_Runs 0]) = Some t \<and>
    waiting t = Waits_Reply \<and> line_out t = [] \<and> replies t = []"
proof -
  define s where "s = master1\<lparr> m_eRcvState := STATE_M_RX_INIT, m_timer_on := True \<rparr>"
  have s: "starting s" "line_out s = []" "replies s = []"
    by (simp_all add: s_def starting_def master1_def mb_master0_def MB_PDU_SIZE_MAX_def)
  have "\<exists>t. run_steps master_step s ([M_Request (Read_Holding 1 0 1), M_Poll_Runs 0] @
       [M_Timer_Expires, M_Second_Prepares [0xBC, 7, 1, 2, 0xC6], M_Second_Starts 5, M_Poll_Runs 0, M_Tx_Ready, M_Requester_Runs, M_Poll_Runs 0]) = Some t \<and>
    waiting t = Waits_Reply \<and> line_out t = line_out s \<and> replies t = replies s"
    by (rule early_request_never_returns [OF s(1)]) simp_all
  then show ?thesis unfolding s(2,3) unfolding s_def .
qed

section \<open>The thread that takes no mutex\<close>

text \<open>
  \<open>set_dc_motor\<close> writes its message into the buffer from which the transmitter may just be sending another one:
  the line gets the beginning of the one and the end of the other.
\<close>

lemma m_tx_some:
  "trans_start s \<Longrightarrow> m_tx_sending s (as @ bs) \<Longrightarrow>
     run_steps master_step s (replicate (length as) M_Tx_Ready) = Some (m_tx_emitted as s) \<and> m_tx_sending (m_tx_emitted as s) bs"
proof (induction as arbitrary: s)
  case Nil
  then show ?case using master_tx.emitted_Nil [of s] by simp
next
  case (Cons a as)
  have e: "m_tx_emitted (a # as) s = m_tx_emitted as (m_tx_emitted [a] s)"
    using master_tx.emitted_append [of "[a]" as s] by simp
  show ?case
    using master_tx.tx_byte [of s a "as @ bs"] Cons.IH [of "m_tx_emitted [a] s"] Cons.prems unfolding e
    by (simp add: m_tx_emitted_def)
qed

lemma motor_overwrites_message:
  assumes "idle s" "length msg \<le> 50" "length ds = length msg" "k \<le> length msg"
  shows "\<exists>t. run_steps master_step s ([M_Raw_Request msg, M_Poll_Runs j] @ replicate k M_Tx_Ready @
      [M_Second_Prepares ds] @ replicate (length msg - k) M_Tx_Ready) = Some t \<and>
    line_out t = line_out s @ take k msg @ drop k ds"
proof -
  define u where "u = raw_sending s msg"
  note st = raw_starts [OF assms(1,2), folded u_def]
  define v where "v = m_tx_emitted (take k msg) u"
  have lk: "length (take k msg) = k" using assms(4) by simp
  have v: "run_steps master_step u (replicate k M_Tx_Ready) = Some v" "m_tx_sending v (drop k msg)"
    using m_tx_some [OF st(3), of "take k msg" "drop k msg"] st(2) unfolding lk by (simp_all add: v_def)
  define w where "w = v\<lparr> rs485_send_buf_not_modbus := ds @ drop (length ds) (rs485_send_buf_not_modbus v),
    ucMasterRTURcvBuf := (ucMasterRTURcvBuf v)[0 := 0] \<rparr>"
  have f: "pucMasterSndBufferCur v = In_Raw_Buf k" "length (rs485_send_buf_not_modbus v) = 50" "ucMasterRTURcvBuf v \<noteq> []"
    "trans_start v" "line_out v = line_out s @ take k msg"
    using assms by (auto simp: v_def u_def m_tx_emitted_def raw_sending_def idle_def min_def)
  have mid: "run_steps master_step v [M_Second_Prepares ds] = Some w"
    using assms(2,3) f(2,3) by (simp add: buf_puts_eq buf_set_def w_def)
  have "snd_source w = drop k ds @ drop (length ds) (rs485_send_buf_not_modbus v)"
    using f(1) assms(3,4) by (simp add: snd_source_def w_def)
  then have "m_tx_sending w (drop k ds)" using v(2) assms(3,4) by (simp add: m_tx_sending_def w_def)
  moreover have "trans_start w" using f(4) by (simp add: w_def)
  ultimately have x: "run_steps master_step w (replicate (length msg - k) M_Tx_Ready) = Some (m_tx_emitted (drop k ds) w)"
    using m_tx_some [of w "drop k ds" "[]"] assms(3) by simp
  have "run_steps master_step s ([M_Raw_Request msg, M_Poll_Runs j] @ replicate k M_Tx_Ready @
      [M_Second_Prepares ds] @ replicate (length msg - k) M_Tx_Ready) = Some (m_tx_emitted (drop k ds) w)"
    by (simp only: run_steps_append st(1) v(1) mid x bind.simps)
  moreover have "line_out (m_tx_emitted (drop k ds) w) = line_out s @ take k msg @ drop k ds"
    using f(5) by (simp add: m_tx_emitted_def w_def)
  ultimately show ?thesis by blast
qed

text \<open>
  The resource is free as soon as the poll has posted a result. If the thread of the DC motor takes it before the requester
  has looked at the result, the requester, leaving its raw exchange, switches the raw mode off under the message that
  is about to be sent: it goes out as a Modbus frame, with a frame check, to the slave asked last.
\<close>

lemma motor_message_framed:
  assumes "m_eMBState s = STATE_ENABLED" "m_eRcvState s = STATE_M_RX_IDLE" "waiting s = Waits_Raw_Reply"
    "xMasterOsEvent s = EV_MASTER_ERROR_RECEIVE_DATA" "xMasterRunRes s \<noteq> 0" "\<not> second_waits s"
    "length (ucMasterRTUSndBuf s) = 253" "length (rs485_send_buf_not_modbus s) = 50" "unat n \<le> 50"
    "unat (ucMBMasterDestAddress s) \<le> 16"
  shows "\<exists>t pdu. run_steps master_step s ([M_Second_Starts n, M_Requester_Runs, M_Poll_Runs j] @
      replicate (unat n + 4) M_Tx_Ready) = Some t \<and>
    second_waits t \<and> length pdu = unat n \<and> line_out t = line_out s @ rtu_seal (ucMBMasterDestAddress s # pdu)"
proof -
  define bs where "bs = take (unat n) (rs485_send_buf_not_modbus s)"
  have lb: "length bs = unat n" using assms(8,9) by (simp add: bs_def)
  define buf where "buf = bs @ drop (unat n) (ucMasterRTUSndBuf s)"
  have buf: "buf_puts (ucMasterRTUSndBuf s) 0 bs = Some buf" "length buf = 253"
    using assms(7,9) lb by (simp_all add: buf_puts_eq buf_def)
  define u where "u = s\<lparr> xMasterRunRes := xMasterRunRes s - 1, ucMasterRTUSndBuf := buf, mb_switch_flag := 1,
    mb_not_rtu_data_len := ucast n, usMasterSendPDULength := n,
    xMasterOsEvent := EV_MASTER_ERROR_RECEIVE_DATA OR EV_MASTER_FRAME_SENT, second_waits := True \<rparr>"
  have s1: "master_step s (M_Second_Starts n) = Some u"
    using assms(4-6,8,9) buf(1) by (simp add: second_starts_def buf_gets_eq bs_def [symmetric] master_port u_def)
  define v where "v = u\<lparr> xMasterOsEvent := EV_MASTER_FRAME_SENT, replies := replies s @ [MB_MRE_REV_DATA], mb_switch_flag := 0,
    waiting := Free \<rparr>"
  have "requester_runs u = v"
    using assms(3) by (simp add: requester_runs_def eMBMasterWaitRequestFinish_def rt_event_recv_or_def u_def v_def
        master_events reply_def)
  then have s2: "master_step u M_Requester_Runs = Some v" by simp
  define pdu where "pdu = take (unat n) (drop 1 buf)"
  have lp: "length pdu = unat n" using buf(2) assms(9) by (simp add: pdu_def)
  have o: "ordered v (ucMBMasterDestAddress s) pdu"
    using assms(1,2) buf(2) lp by (simp add: ordered_def v_def u_def pdu_def)
  have l: "length pdu \<le> 250" using lp assms(9) by simp
  have s3: "master_step v (M_Poll_Runs j) = Some (sending v pdu)" by (rule ordered_sends [OF o assms(10) l])
  define t where "t = m_tx_finish (m_tx_emitted (rtu_seal (ucMBMasterDestAddress v # pdu)) (sending v pdu))"
  have idle: "m_eRcvState v = STATE_M_RX_IDLE" using assms(2) by (simp add: v_def u_def)
  have s4: "run_steps master_step (sending v pdu) (replicate (unat n + 4) M_Tx_Ready) = Some t"
    using sending_sends [OF idle l] lp by (simp add: t_def)
  have "run_steps master_step s ([M_Second_Starts n, M_Requester_Runs, M_Poll_Runs j] @
      replicate (unat n + 4) M_Tx_Ready) = Some t"
    by (simp only: append_Cons append_Nil run_steps.simps s1 s2 s3 s4 bind.simps)
  moreover have "second_waits t" "line_out t = line_out s @ rtu_seal (ucMBMasterDestAddress s # pdu)"
    by (simp_all add: t_def m_tx_finish_def m_tx_emitted_def sending_def v_def u_def)
  ultimately show ?thesis using lp by blast
qed

section \<open>Safety\<close>

text \<open>Initialised and enabled, the master is in its invariant.\<close>

lemma master_started:
  assumes "eMBMasterInit True MB_RTU baud mb_master0 = Some (s0, MB_ENOERR)"
  shows "master_ok (fst (eMBMasterEnable s0))"
proof -
  obtain us where us: "t35_50us baud = Some us"
    using assms by (auto simp: eMBMasterInit_def eMBMasterRTUInit_def bind_eq_Some_conv)
  then have "s0 = vMBMasterOsResInit ((xMBMasterPortEventInit (xMBMasterPortTimersInit us mb_master0))\<lparr> m_eMBState := STATE_DISABLED \<rparr>)"
    using assms by (simp add: eMBMasterInit_def eMBMasterRTUInit_def)
  then show ?thesis
    by (simp add: eMBMasterEnable_def eMBMasterRTUStart_def vMBMasterOsResInit_def xMBMasterPortEventInit_def
        xMBMasterPortTimersInit_def master_port master_ok_def mb_master0_def MB_PDU_SIZE_MAX_def)
qed

text \<open>A write of more than 122 registers does not fit the transmit buffer.\<close>

lemma long_write_overflows:
  assumes "idle s" "unat d \<le> 16" "122 < unat n" "unat n \<le> length vs" "unat n < 30000"
  shows "run_steps master_step s [M_Request (Write_Multiple_Holding d a n vs), M_Poll_Runs j] = None"
proof -
  define pdu where "pdu = request_pdu (Write_Multiple_Holding d a n vs)"
  have lp: "length pdu = 6 + 2 * unat n" using assms(4) by (simp add: pdu_def min_absorb2)
  have "unat (1 + 5 + 2 * n) = 6 + 2 * unat n" using assms(5) by (simp add: unat_word_ariths)
  then have wl: "1 + 5 + 2 * n = word_of_nat (length pdu)" unfolding lp by (rule u16_length)
  have rr: "run_request (Write_Multiple_Holding d a n vs) s = master_request True d (Some pdu) (word_of_nat (length pdu)) s"
    using assms(4) unfolding wl [symmetric]
    by (simp add: eMBMasterReqWriteMultipleHoldingRegister_def buf_gets_eq pdu_def)
  have sb: "length (ucMasterRTUSndBuf s) = 253" using assms(1) by (simp add: idle_def)
  show ?thesis
  proof (cases "unat n = 123")
    case False
    then have "buf_puts (ucMasterRTUSndBuf s) 1 pdu = None"
      by (intro buf_puts_None) (use lp sb assms(3) in auto)
    then have "master_step s (M_Request (Write_Multiple_Holding d a n vs)) = None"
      using rr assms(1,2) by (simp add: idle_def master_request_def MB_MASTER_TOTAL_SLAVE_NUM_def not_less)
    then show ?thesis by (simp del: master_step.simps)
  next
    case True
    then have l: "length pdu = 252" using lp by simp
    define r where "r = requested s d pdu"
    have s1: "master_step s (M_Request (Write_Multiple_Holding d a n vs)) = Some r"
      using master_request_step [OF assms(1,2), of pdu] l rr assms(1) by (simp add: idle_def r_def)
    have r: "m_eMBState r = STATE_ENABLED" "xMasterOsEvent r = EV_MASTER_FRAME_SENT" "m_eRcvState r = STATE_M_RX_IDLE"
      "mb_switch_flag r = 0" "ucMBMasterDestAddress r = d" "unat (usMasterSendPDULength r) = 252"
      "length (ucMasterRTUSndBuf r) = 253"
      using assms(1) l by (simp_all add: r_def requested_def idle_def)
    define u where "u = r\<lparr> xMasterOsEvent := 0, m_ucMBFrame := Some Snd_PDU \<rparr>"
    have "eMBMasterRTUSend d 1 (usMasterSendPDULength r) u = None"
      using r assms(2) by (intro eMBMasterRTUSend_None) (simp_all add: u_def)
    then have "master_step r (M_Poll_Runs j) = None"
      using poll_one(4) [OF r(1,2) refl refl, of j] r(5) by (simp add: master_sent_def Let_def u_def del: master_step.simps)
    then show ?thesis using s1 by (simp del: master_step.simps)
  qed
qed

text \<open>
  C22: The master never leaves its buffers and never fails an assert: after \<open>eMBMasterInit\<close> and
  \<open>eMBMasterEnable\<close> any run of interrupts, polls, requests and raw messages is defined and keeps the
  invariant, as long as every input is admissible where it arrives. Two of the conditions, shown
  to be needed: a byte that arrives while the master transmits fails the assert of its receiver, and
  a write of more than 122 registers, which the request function accepts, runs over the transmit
  buffer.
\<close>

theorem master_never_stuck:
  assumes "eMBMasterInit True MB_RTU baud mb_master0 = Some (s0, MB_ENOERR)" and s_def: "s = fst (eMBMasterEnable s0)"
    and "inputs_ok master_step master_event_ok s es"
    and "m_eMBState t = STATE_ENABLED" "m_eSndState t = STATE_M_TX_XMIT"
    and "idle u" "unat d \<le> 16" "122 < unat n" "unat n \<le> length vs" "unat n < 30000"
  shows "(\<exists>s'. run_steps master_step s es = Some s' \<and> master_ok s') \<and> master_step t (M_Rx_Byte b) = None \<and>
    run_steps master_step u [M_Request (Write_Multiple_Holding d a n vs), M_Poll_Runs j] = None"
proof (intro conjI)
  show "\<exists>s'. run_steps master_step s es = Some s' \<and> master_ok s'"
    using master.run_safe [OF _ assms(3)] master_started [OF assms(1)] s_def by blast
  show "master_step t (M_Rx_Byte b) = None"
    using assms(4,5) by (simp add: xMBMasterRTUReceiveFSM_def)
  show "run_steps master_step u [M_Request (Write_Multiple_Holding d a n vs), M_Poll_Runs j] = None"
    by (rule long_write_overflows [OF assms(6-10)])
qed

theorem master_never_stuck_witness:
  "\<exists>s0. eMBMasterInit True MB_RTU 9600 mb_master0 = Some (s0, MB_ENOERR) \<and>
    (\<exists>s'. run_steps master_step (fst (eMBMasterEnable s0)) [M_Timer_Expires, M_Tx_Ready, M_Requester_Runs] = Some s' \<and>
      master_ok s') \<and>
    master_step (sending master1 [3]) (M_Rx_Byte 0) = None \<and>
    run_steps master_step master1 [M_Request (Write_Multiple_Holding 1 0 123 (replicate 123 0)), M_Poll_Runs 0] = None"
proof -
  obtain s0 where s0: "eMBMasterInit True MB_RTU 9600 mb_master0 = Some (s0, MB_ENOERR)"
    by (simp add: eMBMasterInit_def eMBMasterRTUInit_def t35_50us_def)
  have io: "inputs_ok master_step master_event_ok (fst (eMBMasterEnable s0)) [M_Timer_Expires, M_Tx_Ready, M_Requester_Runs]"
    by (auto split: option.splits)
  have x: "m_eMBState (sending master1 [3]) = STATE_ENABLED" "m_eSndState (sending master1 [3]) = STATE_M_TX_XMIT"
    by (simp_all add: sending_def master1_def)
  have y: "unat (1 :: u8) \<le> 16" "122 < unat (123 :: u16)" "unat (123 :: u16) \<le> length (replicate 123 (0 :: u16))"
    "unat (123 :: u16) < 30000" by simp_all
  from master_never_stuck [OF s0 refl io x master1_idle y] s0 show ?thesis by blast
qed

end
